(* ===== verification/Prelude.thy ===== *)
theory Prelude
  imports Main "HOL-Library.Word" "HOL-Library.Sublist" "HOL-Library.Multiset"
begin

text \<open>
  What the components share: the hint collections of the development, strings as byte lists
  with the functions of Go's package \<open>strings\<close> that the source calls, decimal formatting,
  segment-wise splitting and joining at a separator, and generic lemmas on lists.
\<close>

named_theorems run_simps \<open>unfolding rules of the handlers and step functions\<close>
named_theorems inv_intros \<open>preservation lemmas of the invariants\<close>

type_synonym byte_string = string
type_synonym i32 = "32 word"
type_synonym i64 = "64 word"
type_synonym u64 = "64 word"

subsection \<open>Package strings\<close>

definition hasPrefix :: "string \<Rightarrow> string \<Rightarrow> bool" where
  "hasPrefix s p \<longleftrightarrow> take (length p) s = p"

definition hasSuffix :: "string \<Rightarrow> string \<Rightarrow> bool" where
  "hasSuffix s p \<longleftrightarrow> hasPrefix (rev s) (rev p)"

fun containsStr :: "string \<Rightarrow> string \<Rightarrow> bool" where
  "containsStr [] p = (p = [])"
| "containsStr (c # s) p = (hasPrefix (c # s) p \<or> containsStr s p)"

definition trimPrefix :: "string \<Rightarrow> string \<Rightarrow> string" where
  "trimPrefix s p = (if hasPrefix s p then drop (length p) s else s)"

definition trimSuffix :: "string \<Rightarrow> string \<Rightarrow> string" where
  "trimSuffix s p = (if hasSuffix s p then take (length s - length p) s else s)"

text \<open>\<open>strings.TrimSpace\<close> on ASCII text: tab, line feed, vertical tab, form feed, carriage
  return and blank.\<close>

definition is_space :: "char \<Rightarrow> bool" where
  "is_space c \<longleftrightarrow> of_char c \<in> {9, 10, 11, 12, 13, 32 :: nat}"

definition trimLeftP :: "(char \<Rightarrow> bool) \<Rightarrow> string \<Rightarrow> string" where
  "trimLeftP p s = dropWhile p s"

definition trimRightP :: "(char \<Rightarrow> bool) \<Rightarrow> string \<Rightarrow> string" where
  "trimRightP p s = rev (dropWhile p (rev s))"

definition trimSpace :: "string \<Rightarrow> string" where
  "trimSpace s = trimRightP is_space (trimLeftP is_space s)"

text \<open>Decimal formatting, as \<open>%d\<close> and \<open>strconv.Itoa\<close> print it.\<close>

definition digit_char :: "nat \<Rightarrow> char" where
  "digit_char d = char_of (48 + d mod 10)"

fun show_nat :: "nat \<Rightarrow> string" where
  "show_nat n = (if n < 10 then [digit_char n] else show_nat (n div 10) @ [digit_char (n mod 10)])"

declare show_nat.simps [simp del]

definition show_int :: "int \<Rightarrow> string" where
  "show_int i = (if i < 0 then CHR ''-'' # show_nat (nat (- i)) else show_nat (nat i))"

text \<open>Decimal digits, as package \<open>strconv\<close> reads them.\<close>

definition is_digit :: "char \<Rightarrow> bool" where
  "is_digit c \<longleftrightarrow> 48 \<le> (of_char c :: nat) \<and> (of_char c :: nat) \<le> 57"

definition digits_value :: "string \<Rightarrow> nat" where
  "digits_value s = foldl (\<lambda>n c. 10 * n + (of_char c - 48)) 0 s"

text \<open>\<open>strconv.Atoi\<close>: a sign and digits, within 64 bits.\<close>

definition Atoi :: "string \<Rightarrow> int option" where
  "Atoi s =
     (let neg = hasPrefix s ''-''; ds = (if neg \<or> hasPrefix s ''+'' then drop 1 s else s) in
      if ds = [] \<or> \<not> list_all is_digit ds then None
      else let v = (if neg then - int (digits_value ds) else int (digits_value ds))
        in if - (2 ^ 63) \<le> v \<and> v < 2 ^ 63 then Some v else None)"

text \<open>Splitting at a separator byte: \<open>strings.Split(s, string(sep))\<close>; never the empty list.\<close>

fun split_on :: "char \<Rightarrow> string \<Rightarrow> string list" where
  "split_on c [] = [[]]"
| "split_on c (x # s) =
     (if x = c then [] # split_on c s
      else (case split_on c s of [] \<Rightarrow> [[x]] | w # ws \<Rightarrow> (x # w) # ws))"

fun join_on :: "string \<Rightarrow> string list \<Rightarrow> string" where
  "join_on sep [] = []"
| "join_on sep [w] = w"
| "join_on sep (w # v # ws) = w @ sep @ join_on sep (v # ws)"

lemma hasPrefix_append [simp]: "hasPrefix (p @ s) p"
  by (simp add: hasPrefix_def)

lemma hasPrefix_iff_prefix: "hasPrefix s p \<longleftrightarrow> prefix p s"
  unfolding hasPrefix_def prefix_def by (metis append_eq_conv_conj append_take_drop_id)

lemma split_on_not_Nil [simp]: "split_on c s \<noteq> []"
  by (induction s) (auto split: list.splits)

lemma split_on_no_sep: "c \<notin> set s \<Longrightarrow> split_on c s = [s]"
  by (induction s) auto

lemma split_on_no_sep_mem: "w \<in> set (split_on c s) \<Longrightarrow> c \<notin> set w"
  by (induction s arbitrary: w) (auto split: if_splits list.splits)

lemma split_on_append: "split_on c (s @ c # t) = split_on c s @ split_on c t"
  by (induction s) (auto split: list.splits)

lemma join_on_Cons: "ws \<noteq> [] \<Longrightarrow> join_on sep (w # ws) = w @ sep @ join_on sep ws"
  by (cases ws) auto

lemma join_split_on: "join_on [c] (split_on c s) = s"
proof (induction s)
  case Nil
  then show ?case by simp
next
  case (Cons x s)
  then show ?case
    by (cases "split_on c s"; cases "tl (split_on c s)") auto
qed

lemma split_join_on:
  "ws \<noteq> [] \<Longrightarrow> \<forall>w \<in> set ws. c \<notin> set w \<Longrightarrow> split_on c (join_on [c] ws) = ws"
proof (induction ws)
  case Nil
  then show ?case by simp
next
  case (Cons w ws)
  show ?case
  proof (cases "ws = []")
    case True
    with Cons.prems show ?thesis by (simp add: split_on_no_sep)
  next
    case False
    with Cons have "split_on c (join_on [c] ws) = ws" by simp
    moreover have "split_on c w = [w]"
      using Cons.prems by (simp add: split_on_no_sep)
    ultimately show ?thesis
      using False by (simp add: join_on_Cons split_on_append)
  qed
qed

lemma of_char_digit_char [simp]: "(of_char (digit_char d) :: nat) = 48 + d mod 10"
  by (simp add: digit_char_def)

lemma show_nat_chars: "c \<in> set (show_nat n) \<Longrightarrow> (48 :: nat) \<le> of_char c"
proof (induction n rule: show_nat.induct)
  case (1 n)
  then show ?case
    by (subst (asm) show_nat.simps) (auto split: if_splits)
qed

lemma show_nat_not_Nil [simp]: "show_nat n \<noteq> []"
  by (subst show_nat.simps) simp

lemma show_int_no_slash: "CHR ''/'' \<notin> set (show_int i)"
  using show_nat_chars [of "CHR ''/''"] by (auto simp: show_int_def)

lemma show_int_no_dot: "CHR ''.'' \<notin> set (show_int i)"
  using show_nat_chars [of "CHR ''.''"] by (auto simp: show_int_def)

lemma show_int_not_Nil [simp]: "show_int i \<noteq> []"
  by (simp add: show_int_def)

section \<open>Small numbers in 64-bit words\<close>

lemma u64_of_nat:
  assumes "k < 2 ^ 63"
  shows "unat (of_nat k :: u64) = k" "sint (of_nat k :: u64) = int k"
proof -
  show u: "unat (of_nat k :: u64) = k" using assms by (simp add: unat_of_nat take_bit_nat_eq_self)
  have "uint (of_nat k :: u64) = int k" using u by (metis uint_nat)
  then show "sint (of_nat k :: u64) = int k"
    using assms by (simp add: sint_uint signed_take_bit_int_eq_self)
qed

lemma u64_of_nat_inject: "j < 2 ^ 63 \<Longrightarrow> k < 2 ^ 63 \<Longrightarrow> (of_nat j :: u64) = of_nat k \<longleftrightarrow> j = k"
  using u64_of_nat(1) by metis

subsection \<open>Taking an element out of a list\<close>

definition drop_nth :: "nat \<Rightarrow> 'a list \<Rightarrow> 'a list" where
  "drop_nth i xs = take i xs @ drop (Suc i) xs"

lemma mset_drop_nth: "i < length xs \<Longrightarrow> mset xs = add_mset (xs ! i) (mset (drop_nth i xs))"
  by (subst id_take_nth_drop, assumption) (simp add: drop_nth_def)

lemma set_drop_nth: "set (drop_nth i xs) \<subseteq> set xs"
  using set_take_subset[of i xs] set_drop_subset[of "Suc i" xs] by (auto simp: drop_nth_def)

lemma map_drop_nth: "map f (drop_nth i xs) = drop_nth i (map f xs)"
  by (simp add: drop_nth_def take_map drop_map)

lemma distinct_drop_nth: "distinct xs \<Longrightarrow> distinct (drop_nth i xs)"
  using set_take_disj_set_drop_if_distinct[of xs i "Suc i"] by (simp add: drop_nth_def)

end
