(* ===== verification/Paths.thy ===== *)
theory Paths
  imports Prelude
begin

text \<open>
  Paths and the confinement of client paths to the storages of a user.

  The first part models what the source uses of Go's package \<open>path/filepath\<close> (Unix):
  \<open>Clean\<close>, \<open>Rel\<close>, \<open>Split\<close>, \<open>Join\<close>. The second part models
  \<open>pkg/iotools/file.go\<close> (\<open>SubElem\<close>, \<open>subPathList\<close>, the targets of \<open>ChownDirR\<close>,
  \<open>FileCommonPrefix\<close>) and \<open>sanitizePath\<close> / \<open>rootPath\<close> of
  \<open>web/routers/file.go\<close>.
\<close>

section \<open>Package filepath\<close>

definition rooted :: "string \<Rightarrow> bool" where
  "rooted p \<longleftrightarrow> (case p of [] \<Rightarrow> False | c # _ \<Rightarrow> c = CHR ''/'')"

fun clean_step :: "bool \<Rightarrow> string list \<Rightarrow> string \<Rightarrow> string list" where
  "clean_step r st s =
     (if s = '''' \<or> s = ''.'' then st
      else if s = ''..'' then
        (case st of
           [] \<Rightarrow> if r then [] else [''..'']
         | t # ts \<Rightarrow> if t = ''..'' then ''..'' # st else ts)
      else s # st)"

definition psegs :: "string \<Rightarrow> string list" where
  "psegs p = rev (foldl (clean_step (rooted p)) [] (split_on (CHR ''/'') p))"

definition clean :: "string \<Rightarrow> string" where
  "clean p =
     (if rooted p then ''/'' @ join_on ''/'' (psegs p)
      else if psegs p = [] then ''.''
      else join_on ''/'' (psegs p))"

definition split_file :: "string \<Rightarrow> string" where
  "split_file p = last (split_on (CHR ''/'') p)"

text \<open>The directory part of \<open>Split\<close>, with its slash.\<close>

definition split_dir :: "string \<Rightarrow> string" where
  "split_dir p = take (length p - length (split_file p)) p"

definition path_join :: "string \<Rightarrow> string \<Rightarrow> string" where
  "path_join a b =
     (if a = '''' \<and> b = '''' then ''''
      else if a = '''' then clean b
      else if b = '''' then clean a
      else clean (a @ ''/'' @ b))"

fun strip_common :: "string list \<Rightarrow> string list \<Rightarrow> string list \<times> string list" where
  "strip_common (b # bs) (t # ts) =
     (if b = t then strip_common bs ts else (b # bs, t # ts))"
| "strip_common bs ts = (bs, ts)"

datatype path_error = RelError | ErrInvalidFileName | ErrInvalidFilePath

definition rel :: "string \<Rightarrow> string \<Rightarrow> path_error + string" where
  "rel base targ =
     (if clean base = clean targ then Inr ''.''
      else if rooted base \<noteq> rooted targ then Inl RelError
      else
        let ts = (if clean targ = ''.'' then [''.''] else psegs targ);
            (b', t') = strip_common (psegs base) ts
        in if b' \<noteq> [] \<and> hd b' = ''..'' then Inl RelError
           else Inr (join_on ''/'' (replicate (length b') ''..'' @ t')))"

section \<open>Facts about cleaned paths\<close>

definition plain_seg :: "string \<Rightarrow> bool" where
  "plain_seg s \<longleftrightarrow> s \<noteq> '''' \<and> s \<noteq> ''.'' \<and> s \<noteq> ''..'' \<and> CHR ''/'' \<notin> set s"

lemma clean_step_plain:
  "\<forall>s \<in> set st. plain_seg s \<Longrightarrow> CHR ''/'' \<notin> set w
   \<Longrightarrow> \<forall>s \<in> set (clean_step True st w). plain_seg s"
  by (cases st) (simp_all add: plain_seg_def)

lemma foldl_clean_plain:
  "\<forall>s \<in> set st. plain_seg s \<Longrightarrow> \<forall>w \<in> set ws. CHR ''/'' \<notin> set w
   \<Longrightarrow> \<forall>s \<in> set (foldl (clean_step True) st ws). plain_seg s"
proof (induction ws arbitrary: st)
  case Nil
  then show ?case by simp
next
  case (Cons w ws)
  then have "\<forall>s \<in> set (clean_step True st w). plain_seg s"
    by (intro clean_step_plain) auto
  with Cons show ?case by (simp del: clean_step.simps)
qed

lemma psegs_plain: "rooted p \<Longrightarrow> s \<in> set (psegs p) \<Longrightarrow> plain_seg s"
  using foldl_clean_plain [of "[]" "split_on (CHR ''/'') p"] split_on_no_sep_mem
  by (auto simp: psegs_def simp del: clean_step.simps)

lemma foldl_clean_of_plain:
  "\<forall>w \<in> set ws. plain_seg w \<Longrightarrow> foldl (clean_step r) st ws = rev ws @ st"
  by (induction ws arbitrary: st) (auto simp: plain_seg_def)

lemma psegs_plain_path:
  assumes "\<forall>w \<in> set ws. plain_seg w"
  shows "psegs (''/'' @ join_on ''/'' ws) = ws"
proof (cases "ws = []")
  case True
  then show ?thesis by (simp add: psegs_def)
next
  case False
  have "split_on (CHR ''/'') (join_on ''/'' ws) = ws"
    using False assms by (intro split_join_on) (auto simp: plain_seg_def)
  then show ?thesis
    using assms foldl_clean_of_plain [of ws True "[]"]
    by (simp add: psegs_def rooted_def del: clean_step.simps) (simp add: rooted_def)
qed

lemma psegs_clean: "rooted p \<Longrightarrow> psegs (clean p) = psegs p"
  using psegs_plain_path [of "psegs p"] psegs_plain by (simp add: clean_def)

lemma rooted_clean: "rooted p \<Longrightarrow> rooted (clean p)"
  by (simp add: clean_def rooted_def)

lemma clean_idem: "rooted p \<Longrightarrow> clean (clean p) = clean p"
  using psegs_clean [of p] rooted_clean [of p] by (simp add: clean_def [of "clean p"]) (simp add: clean_def)

lemma psegs_append:
  assumes "rooted p"
  shows "psegs (p @ ''/'' @ q)
    = rev (foldl (clean_step True) (rev (psegs p)) (split_on (CHR ''/'') q))"
proof -
  have "rooted (p @ ''/'' @ q)"
    using assms by (auto simp: rooted_def split: list.splits)
  with assms show ?thesis
    by (simp add: psegs_def split_on_append del: clean_step.simps)
qed

lemma clean_eq_iff: "rooted p \<Longrightarrow> rooted q \<Longrightarrow> clean p = clean q \<longleftrightarrow> psegs p = psegs q"
  using psegs_clean [of p] psegs_clean [of q] by (metis clean_def)

lemma strip_common_prefix:
  "fst (strip_common bs ts) = [] \<longleftrightarrow> prefix bs ts"
  by (induction bs ts rule: strip_common.induct) auto

lemma strip_common_split:
  "strip_common bs ts = (b', t') \<Longrightarrow> \<exists>cs. bs = cs @ b' \<and> ts = cs @ t'"
proof (induction bs ts rule: strip_common.induct)
  case (1 b bs t ts)
  then show ?case by (cases "b = t") (auto intro: exI [of _ "b # _"])
qed auto

text \<open>The absolute path of a list of segments.\<close>

definition abs_path :: "string list \<Rightarrow> string" where
  "abs_path segs = ''/'' @ join_on ''/'' segs"

lemma abs_path_snoc: "abs_path (ws @ [s]) = (if ws = [] then ''/'' @ s else abs_path ws @ ''/'' @ s)"
proof -
  have "join_on ''/'' (ws @ [s]) = join_on ''/'' ws @ ''/'' @ s" if "ws \<noteq> []"
    using that by (induction ws rule: induct_list012) auto
  then show ?thesis by (simp add: abs_path_def)
qed

section \<open>SubElem and the chown targets (pkg/iotools/file.go)\<close>

definition SubElem :: "string \<Rightarrow> string \<Rightarrow> bool \<times> path_error option" where
  "SubElem parent sub =
     (case rel parent sub of
        Inl e \<Rightarrow> (False, Some e)
      | Inr r \<Rightarrow>
          if \<not> hasPrefix r ''../'' \<and> r \<noteq> ''..'' then (True, None) else (False, None))"

fun sub_paths :: "string \<Rightarrow> string list \<Rightarrow> string list" where
  "sub_paths prfx [] = []"
| "sub_paths prfx (w # ws) = (let cur = path_join prfx w in cur # sub_paths cur ws)"

definition subPathList :: "string \<Rightarrow> string \<Rightarrow> string list" where
  "subPathList path prfx =
     (let remain = (case rel prfx path of Inl _ \<Rightarrow> '''' | Inr r \<Rightarrow> r)
      in sub_paths prfx (split_on (CHR ''/'') remain))"

fun chown_targets :: "string \<Rightarrow> string \<Rightarrow> string list \<Rightarrow> string list" where
  "chown_targets parent seg [] = []"
| "chown_targets parent seg (p # ps) =
     (let seg' = seg @ ''/'' @ p in (parent @ seg') # chown_targets parent seg' ps)"

definition ChownDirR_targets :: "string \<Rightarrow> string \<Rightarrow> string list" where
  "ChownDirR_targets parent dir =
     (let r = (case rel parent dir of Inl _ \<Rightarrow> '''' | Inr r \<Rightarrow> r)
      in chown_targets parent '''' (split_on (CHR ''/'') r))"

lemma join_dotdot: "n > 0 \<Longrightarrow>
  (let r = join_on ''/'' (replicate n ''..'' @ ws) in hasPrefix r ''../'' \<or> r = ''..'')"
proof (cases n)
  case (Suc m)
  then show ?thesis
    by (cases "replicate m ''..'' @ ws") (auto simp: hasPrefix_def)
qed simp

lemma join_plain_not_up:
  assumes "\<forall>w \<in> set ws. plain_seg w"
  shows "\<not> hasPrefix (join_on ''/'' ws) ''../'' \<and> join_on ''/'' ws \<noteq> ''..''"
proof (cases "ws = []")
  case True
  then show ?thesis by (simp add: hasPrefix_def)
next
  case False
  then have sj: "split_on (CHR ''/'') (join_on ''/'' ws) = ws"
    using assms by (intro split_join_on) (auto simp: plain_seg_def)
  have "\<not> hasPrefix (join_on ''/'' ws) ''../''"
  proof
    assume "hasPrefix (join_on ''/'' ws) ''../''"
    then obtain u where "join_on ''/'' ws = ''..'' @ CHR ''/'' # u"
      by (auto simp: hasPrefix_iff_prefix prefix_def)
    with sj have "''..'' \<in> set ws" by (auto simp: split_on_append)
    with assms show False by (auto simp: plain_seg_def)
  qed
  moreover have "join_on ''/'' ws \<noteq> ''..''"
  proof
    assume "join_on ''/'' ws = ''..''"
    with sj have "ws = [''..'']" by auto
    with assms show False by (auto simp: plain_seg_def)
  qed
  ultimately show ?thesis by simp
qed

lemma clean_rooted_not_dot: "rooted p \<Longrightarrow> clean p \<noteq> ''.''"
  by (simp add: clean_def)

lemma rel_rooted:
  assumes "rooted base" "rooted targ" "strip_common (psegs base) (psegs targ) = (b', t')"
  shows "rel base targ = Inr (if psegs base = psegs targ then ''.''
    else join_on ''/'' (replicate (length b') ''..'' @ t'))"
proof -
  obtain cs where "psegs base = cs @ b'" using strip_common_split [OF assms(3)] by blast
  then have pl: "b' = [] \<or> hd b' \<noteq> ''..''"
    using psegs_plain [OF assms(1)] by (fastforce simp: plain_seg_def)

  show ?thesis
  proof (cases "b' = []")
    case True
    with assms show ?thesis by (simp add: rel_def clean_eq_iff clean_rooted_not_dot)
  next
    case False
    with pl have "hd b' \<noteq> ''..''" by simp
    with assms False show ?thesis by (simp add: rel_def clean_eq_iff clean_rooted_not_dot)
  qed
qed

lemma SubElem_rooted:
  assumes "rooted parent" "rooted sub"
  shows "SubElem parent sub = (prefix (psegs parent) (psegs sub), None)"
proof -
  obtain b' t' where st: "strip_common (psegs parent) (psegs sub) = (b', t')"
    by (metis surj_pair)
  then have pre: "b' = [] \<longleftrightarrow> prefix (psegs parent) (psegs sub)"
    using strip_common_prefix [of "psegs parent" "psegs sub"] by simp
  obtain cs where "psegs sub = cs @ t'" using strip_common_split [OF st] by blast
  then have pl: "\<forall>w \<in> set t'. plain_seg w"
    using psegs_plain [OF assms(2)] by auto
  show ?thesis
  proof (cases "psegs parent = psegs sub")
    case True
    then show ?thesis
      using rel_rooted [OF assms st] by (simp add: SubElem_def hasPrefix_def)
  next
    case False
    then show ?thesis
      using rel_rooted [OF assms st] pre join_plain_not_up [OF pl]
        join_dotdot [of "length b'" t']
      by (cases "b' = []") (auto simp: SubElem_def Let_def)
  qed
qed

section \<open>The longest common directory (FileCommonPrefix)\<close>

fun trunc_common :: "string \<Rightarrow> string \<Rightarrow> string" where
  "trunc_common (v # vs) (c # cs) = (if v = c then c # trunc_common vs cs else [])"
| "trunc_common _ _ = []"

fun fcp_loop :: "char \<Rightarrow> string \<Rightarrow> string list \<Rightarrow> string" where
  "fcp_loop sep c [] = c"
| "fcp_loop sep c (v # vs) =
     (let v' = clean v @ [sep];
          c' = (if length v' < length c then take (length v') c else c)
      in fcp_loop sep (trunc_common v' c') vs)"

definition drop_last_elem :: "char \<Rightarrow> string \<Rightarrow> string" where
  "drop_last_elem sep c =
     (if sep \<in> set c then rev (drop 1 (dropWhile (\<lambda>x. x \<noteq> sep) (rev c))) else c)"

definition FileCommonPrefix :: "char \<Rightarrow> string list \<Rightarrow> string" where
  "FileCommonPrefix sep paths =
     (case paths of
        [] \<Rightarrow> ''''
      | [p] \<Rightarrow> clean p
      | p # q # ps \<Rightarrow> drop_last_elem sep (fcp_loop sep (clean p @ [sep]) (q # ps)))"

lemma trunc_common_take: "trunc_common v (take (length v) c) = trunc_common v c"
  by (induction v c rule: trunc_common.induct) auto

lemma trunc_common_eq:
  "trunc_common v (if length v < length c then take (length v) c else c) = trunc_common v c"
  by (simp add: trunc_common_take)

lemma trunc_common_prefix: "prefix (trunc_common v c) c" "prefix (trunc_common v c) v"
  by (induction v c rule: trunc_common.induct) auto

lemma trunc_common_greatest: "prefix d v \<Longrightarrow> prefix d c \<Longrightarrow> prefix d (trunc_common v c)"
  by (induction v c arbitrary: d rule: trunc_common.induct) (auto simp: prefix_Cons)

lemma fcp_loop_prefix:
  "prefix (fcp_loop sep c vs) c \<and> (\<forall>v \<in> set vs. prefix (fcp_loop sep c vs) (clean v @ [sep]))"
proof (induction vs arbitrary: c)
  case Nil
  then show ?case by simp
next
  case (Cons v vs)
  let ?d = "trunc_common (clean v @ [sep]) c"
  have "prefix (fcp_loop sep ?d vs) ?d" using Cons.IH by blast
  then show ?case
    using Cons.IH [of ?d] trunc_common_prefix [of "clean v @ [sep]" c]
    by (auto simp: Let_def trunc_common_eq intro: prefix_order.trans)
qed

lemma fcp_loop_greatest:
  "prefix d c \<Longrightarrow> \<forall>v \<in> set vs. prefix d (clean v @ [sep]) \<Longrightarrow> prefix d (fcp_loop sep c vs)"
proof (induction vs arbitrary: c)
  case (Cons v vs)
  then have "prefix d (trunc_common (clean v @ [sep]) c)"
    by (intro trunc_common_greatest) auto
  with Cons show ?case by (simp add: Let_def trunc_common_eq)
qed simp

lemma drop_last_elem_split:
  assumes "sep \<in> set c"
  obtains d e where "c = d @ sep # e" "drop_last_elem sep c = d" "sep \<notin> set e"
proof -
  from assms obtain d e where c: "c = d @ sep # e" "sep \<notin> set e"
    by (metis split_list_last)
  then have "dropWhile (\<lambda>x. x \<noteq> sep) (rev c) = sep # rev d"
    by (simp add: dropWhile_append3 dropWhile_append)
  with c that show thesis by (simp add: drop_last_elem_def)
qed

section \<open>Confinement of client paths (web/routers/file.go)\<close>

text \<open>The part of the struct \<open>cloudStorage\<close> that path handling reads.\<close>

record cloudStorage =
  SystemRootPrefix :: string
  AuditRootPrefix :: string
  AuditApprovedRootPrefix :: string
  ExternalMntPrefix :: string
  ignoreNameCheck :: bool

text \<open>The regular expression \<open>badFilenameRegex\<close> of \<open>FsContextMiddleware\<close>: one character
  class, matched anywhere in the name.\<close>

definition badFilename :: "string \<Rightarrow> bool" where
  "badFilename f = list_ex (\<lambda>c. c \<in> {CHR ''/'', CHR '':'', CHR ''*'', CHR ''?'', CHR 0x22,
     CHR 0x27, CHR ''<'', CHR ''>'', CHR ''|''}) f"

definition guarded :: "string \<Rightarrow> string \<Rightarrow> string \<times> path_error option" where
  "guarded root full =
     (let p = clean (trimSpace full)
      in if fst (SubElem root p) then (p, None) else (p, Some ErrInvalidFilePath))"

definition sanitizePath :: "cloudStorage \<Rightarrow> string \<Rightarrow> int \<Rightarrow> string \<times> path_error option" where
  "sanitizePath cs path storeID =
     (if \<not> ignoreNameCheck cs \<and> badFilename (split_file path)
      then ('''', Some ErrInvalidFileName)
      else if storeID = -1
      then guarded (SystemRootPrefix cs) (SystemRootPrefix cs @ ''/'' @ path)
      else if storeID = -99
      then guarded (AuditRootPrefix cs) (AuditRootPrefix cs @ ''/'' @ path)
      else if storeID = -2
      then guarded (AuditApprovedRootPrefix cs) (AuditApprovedRootPrefix cs @ ''/'' @ path)
      else guarded (ExternalMntPrefix cs)
             (ExternalMntPrefix cs @ ''/'' @ show_int storeID @ ''/'' @ path))"

definition rootPath :: "cloudStorage \<Rightarrow> int \<Rightarrow> string" where
  "rootPath cs storeID =
     (if storeID = -1 then SystemRootPrefix cs
      else if storeID = -99 then AuditRootPrefix cs
      else if storeID = -2 then AuditApprovedRootPrefix cs
      else clean (trimSpace (ExternalMntPrefix cs @ ''/'' @ show_int storeID)))"

text \<open>The directory that the guard of \<open>sanitizePath\<close> compares with.\<close>

definition guard_root :: "cloudStorage \<Rightarrow> int \<Rightarrow> string" where
  "guard_root cs storeID =
     (if storeID = -1 then SystemRootPrefix cs
      else if storeID = -99 then AuditRootPrefix cs
      else if storeID = -2 then AuditApprovedRootPrefix cs
      else ExternalMntPrefix cs)"

text \<open>Inside a directory: an absolute cleaned path whose segments extend the directory's,
  none of them empty, a dot or a double dot.\<close>

definition inside :: "string \<Rightarrow> string \<Rightarrow> bool" where
  "inside root p \<longleftrightarrow>
     rooted p \<and> clean p = p \<and> prefix (psegs root) (psegs p) \<and> (\<forall>s \<in> set (psegs p). plain_seg s)"

lemma rooted_Cons: "rooted p \<longleftrightarrow> (\<exists>q. p = CHR ''/'' # q)"
  by (auto simp: rooted_def split: list.splits)

lemma dropWhile_snoc_not: "\<not> P x \<Longrightarrow> dropWhile P (xs @ [x]) = dropWhile P xs @ [x]"
  by (induction xs) auto

lemma rooted_trimSpace: "rooted p \<Longrightarrow> rooted (trimSpace p)"
proof -
  assume "rooted p"
  then obtain q where p: "p = CHR ''/'' # q" by (auto simp: rooted_Cons)
  have "\<not> is_space (CHR ''/'')" by (simp add: is_space_def)
  then show ?thesis
    by (simp add: p trimSpace_def trimLeftP_def trimRightP_def rooted_Cons dropWhile_snoc_not)
qed

lemma guarded_inside:
  assumes "rooted root" "guarded root (root @ q) = (p, None)"
  shows "inside root p"
proof -
  let ?t = "trimSpace (root @ q)"
  have "rooted (root @ q)" using assms(1) by (auto simp: rooted_Cons)
  then have t: "rooted ?t" by (rule rooted_trimSpace)
  from assms(2) have p: "p = clean ?t" and sub: "fst (SubElem root p)"
    by (auto simp: guarded_def Let_def split: if_splits)
  have rp: "rooted p" using p t by (simp add: rooted_clean)
  show ?thesis
    using rp sub p t SubElem_rooted [OF assms(1) rp] psegs_plain [OF rp]
    by (auto simp: inside_def clean_idem)
qed

subsection \<open>Building blocks of the accepted paths\<close>

lemma sanitized_inside:
  assumes "rooted (guard_root cs sid)" "sanitizePath cs path sid = (p, None)"
  shows "inside (guard_root cs sid) p"
  using assms guarded_inside [of "guard_root cs sid"]
  by (auto simp: sanitizePath_def guard_root_def split: if_splits)

lemma plain_seg_show_int: "plain_seg (show_int i)"
  using show_int_no_slash [of i] show_int_no_dot [of i]
  by (auto simp: plain_seg_def)

lemma trimSpace_rooted_id:
  assumes "rooted p" "\<not> is_space (last p)"
  shows "trimSpace p = p"
proof -
  obtain q where p: "p = CHR ''/'' # q" using assms(1) by (auto simp: rooted_Cons)
  have "\<not> is_space (CHR ''/'')" by (simp add: is_space_def)
  then have "trimLeftP is_space p = p" by (simp add: p trimLeftP_def)
  moreover have "p = butlast p @ [last p]" using p by (simp del: last.simps butlast.simps)
  then have "rev p = last p # rev (butlast p)" by (metis rev_eq_Cons_iff rev_rev_ident)
  then have "trimRightP is_space p = p"
    using assms(2) by (metis dropWhile.simps(2) rev_rev_ident trimRightP_def)
  ultimately show ?thesis by (simp add: trimSpace_def)
qed

lemma show_nat_last: "\<not> is_space (last (show_nat n))"
proof -
  have "last (show_nat n) \<in> set (show_nat n)" by simp
  then have "(48 :: nat) \<le> of_char (last (show_nat n))" by (rule show_nat_chars)
  then show ?thesis by (auto simp: is_space_def)
qed

lemma show_int_last: "\<not> is_space (last (show_int i))"
  using show_nat_last by (simp add: show_int_def)

lemma psegs_extend:
  assumes "rooted root" "\<forall>w \<in> set ws. plain_seg w" "ws \<noteq> []"
  shows "psegs (root @ ''/'' @ join_on ''/'' ws) = psegs root @ ws"
proof -
  have "split_on (CHR ''/'') (join_on ''/'' ws) = ws"
    using assms by (intro split_join_on) (auto simp: plain_seg_def)
  then show ?thesis
    using foldl_clean_of_plain [OF assms(2), of True "rev (psegs root)"]
    by (simp only: psegs_append [OF assms(1)]) simp
qed

lemma guarded_eq:
  assumes "rooted root" "rooted full" "\<not> is_space (last full)"
  shows "guarded root full =
    (clean full, if prefix (psegs root) (psegs full) then None else Some ErrInvalidFilePath)"
  using assms SubElem_rooted [OF assms(1) rooted_clean [OF assms(2)]]
  by (simp add: guarded_def Let_def trimSpace_rooted_id psegs_clean)

lemma rootPath_segs:
  assumes "rooted (guard_root cs sid)"
  shows "psegs (rootPath cs sid) =
    (if sid \<in> {-1, -99, -2} then psegs (guard_root cs sid)
     else psegs (ExternalMntPrefix cs) @ [show_int sid])"
proof (cases "sid \<in> {-1, -99, -2}")
  case False
  let ?full = "ExternalMntPrefix cs @ ''/'' @ show_int sid"
  have m: "rooted (ExternalMntPrefix cs)"
    using assms False by (simp add: guard_root_def)
  then have rf: "rooted ?full" by (auto simp: rooted_Cons)
  have "trimSpace ?full = ?full"
    using rf show_int_last [of sid] by (intro trimSpace_rooted_id) auto
  moreover have "psegs ?full = psegs (ExternalMntPrefix cs) @ [show_int sid]"
    using psegs_extend [OF m, of "[show_int sid]"] plain_seg_show_int by simp
  ultimately show ?thesis
    using False psegs_clean [OF rf] by (simp add: rootPath_def)
qed (auto simp: rootPath_def guard_root_def)

lemma split_file_join: 
  assumes "\<forall>w \<in> set ws. plain_seg w" "ws \<noteq> []"
  shows "split_file (join_on ''/'' ws) = last ws"
  using assms split_join_on [of ws "CHR ''/''"] by (auto simp: split_file_def plain_seg_def)

lemma join_on_not_Nil: "ws \<noteq> [] \<Longrightarrow> last ws \<noteq> [] \<Longrightarrow> join_on sep ws \<noteq> []"
  by (induction sep ws rule: join_on.induct) auto

lemma last_join_on: "ws \<noteq> [] \<Longrightarrow> last ws \<noteq> [] \<Longrightarrow> last (join_on sep ws) = last (last ws)"
proof (induction ws)
  case (Cons w ws)
  then show ?case
    by (cases "ws = []") (auto simp: join_on_Cons join_on_not_Nil)
qed simp

section \<open>Properties\<close>

text \<open>C2: every path that \<open>sanitizePath\<close> accepts is an absolute cleaned path inside the directory
  of the storage it was asked for: the user's home, the two audit areas, or the mount root of
  the external storages.\<close>

theorem sanitizePath_confined:
  assumes "rooted (guard_root cs sid)" and "sanitizePath cs path sid = (p, None)"
  shows "inside (guard_root cs sid) p"
  by (rule sanitized_inside [OF assms])

definition example_cs :: cloudStorage where
  "example_cs = \<lparr> SystemRootPrefix = ''/ec/users/al'', AuditRootPrefix = ''/aud/users/al'',
     AuditApprovedRootPrefix = ''/ok/users/al'', ExternalMntPrefix = ''/mnt'',
     ignoreNameCheck = False \<rparr>"

theorem sanitizePath_confined_witness:
  "inside (guard_root example_cs (-1)) ''/ec/users/al/d/f''"
proof (rule sanitizePath_confined)
  show "rooted (guard_root example_cs (-1))" by code_simp
  show "sanitizePath example_cs ''x/../d//./f'' (-1) = (''/ec/users/al/d/f'', None)" by code_simp
qed

text \<open>For an external storage the guard compares with the common mount root only. A path that
  climbs out of the storage's directory and into a sibling directory of the mount root is
  accepted, and the accepted path is outside \<open>rootPath\<close> of the storage that was asked for.\<close>

theorem sanitizePath_reaches_sibling_storage:
  assumes "rooted (ExternalMntPrefix cs)" and "sid \<notin> {-1, -99, -2}"
    and "plain_seg d" and "d \<noteq> show_int sid"
    and "plain_seg f" and "\<not> badFilename f" and "\<not> is_space (last f)"
  shows "sanitizePath cs (''../'' @ d @ ''/'' @ f) sid
      = (''/'' @ join_on ''/'' (psegs (ExternalMntPrefix cs) @ [d, f]), None)
    \<and> \<not> inside (rootPath cs sid) (''/'' @ join_on ''/'' (psegs (ExternalMntPrefix cs) @ [d, f]))"
proof -
  let ?m = "ExternalMntPrefix cs"
  let ?full = "?m @ ''/'' @ show_int sid @ ''/'' @ ''../'' @ d @ ''/'' @ f"
  let ?p = "''/'' @ join_on ''/'' (psegs ?m @ [d, f])"
  have f: "f \<noteq> []" using assms(5) by (simp add: plain_seg_def)
  have "split_on (CHR ''/'') (show_int sid @ ''/'' @ ''../'' @ d @ ''/'' @ f)
      = [show_int sid, ''..'', d, f]"
    using split_join_on [of "[show_int sid, ''..'', d, f]" "CHR ''/''"] assms show_int_no_slash
    by (simp add: plain_seg_def)
  then have full: "psegs ?full = psegs ?m @ [d, f]"
    using psegs_append [OF assms(1)] plain_seg_show_int [of sid] assms(3,5)
    by (auto simp: plain_seg_def)
  have rf: "rooted ?full" using assms(1) by (auto simp: rooted_Cons)
  then have cl: "clean ?full = ?p"
    by (simp only: clean_def full) simp
  have "split_file (''../'' @ d @ ''/'' @ f) = f"
    using split_join_on [of "[''..'', d, f]" "CHR ''/''"] assms(3,5)
    by (simp add: split_file_def plain_seg_def)
  then have "sanitizePath cs (''../'' @ d @ ''/'' @ f) sid = guarded ?m ?full"
    using assms(2,6) by (simp add: sanitizePath_def)
  then have acc: "sanitizePath cs (''../'' @ d @ ''/'' @ f) sid = (?p, None)"
    using guarded_eq [OF assms(1) rf] assms(7) f full cl by simp
  have "\<forall>w \<in> set (psegs ?m @ [d, f]). plain_seg w"
    using psegs_plain [OF assms(1)] assms(3,5) by auto
  then have "psegs ?p = psegs ?m @ [d, f]" by (rule psegs_plain_path)
  moreover have "psegs (rootPath cs sid) = psegs ?m @ [show_int sid]"
    using rootPath_segs [of cs sid] assms(1,2) by (simp add: guard_root_def)
  ultimately have "\<not> inside (rootPath cs sid) ?p"
    using assms(4) by (simp add: inside_def)
  with acc show ?thesis by simp
qed

theorem sanitizePath_reaches_sibling_storage_witness:
  "sanitizePath example_cs ''../7/secret'' 5 = (''/mnt/7/secret'', None)
   \<and> \<not> inside (rootPath example_cs 5) ''/mnt/7/secret''"
proof -
  have m: "''/'' @ join_on ''/'' (psegs (ExternalMntPrefix example_cs) @ [''7'', ''secret''])
      = ''/mnt/7/secret''"
    by code_simp
  have "sanitizePath example_cs (''../'' @ ''7'' @ ''/'' @ ''secret'') 5
      = (''/'' @ join_on ''/'' (psegs (ExternalMntPrefix example_cs) @ [''7'', ''secret'']), None)
    \<and> \<not> inside (rootPath example_cs 5)
        (''/'' @ join_on ''/'' (psegs (ExternalMntPrefix example_cs) @ [''7'', ''secret'']))"
    by (rule sanitizePath_reaches_sibling_storage) code_simp+
  then show ?thesis unfolding m by simp
qed

text \<open>A client path made of plain segments, with an acceptable last name, is accepted for every
  storage, and names exactly these segments below the storage's own root.\<close>

theorem sanitizePath_plain:
  assumes "rooted (guard_root cs sid)" and "ws \<noteq> []" and "\<forall>w \<in> set ws. plain_seg w"
    and "\<not> badFilename (last ws)" and "\<not> is_space (last (last ws))"
  shows "sanitizePath cs (join_on ''/'' ws) sid
    = (''/'' @ join_on ''/'' (psegs (rootPath cs sid) @ ws), None)"
proof -
  have l: "last ws \<noteq> []" using assms(2,3) by (auto simp: plain_seg_def)
  have lj: "\<not> is_space (last (join_on ''/'' ws))" "join_on ''/'' ws \<noteq> []"
    using assms(2,5) l by (simp_all add: last_join_on join_on_not_Nil)
  have sf: "split_file (join_on ''/'' ws) = last ws"
    using assms(2,3) by (simp add: split_file_join)
  have pre: "prefix (psegs (guard_root cs sid)) (psegs (rootPath cs sid) @ ws)"
    using rootPath_segs [OF assms(1)] by (auto simp: guard_root_def prefix_def)
  have gen: "guarded (guard_root cs sid) full
      = (''/'' @ join_on ''/'' (psegs (rootPath cs sid) @ ws), None)"
    if "rooted full" "\<not> is_space (last full)" "psegs full = psegs (rootPath cs sid) @ ws" for full
    using guarded_eq [OF assms(1) that(1,2)] that(1,3) pre by (simp add: clean_def)
  show ?thesis
  proof (cases "sid \<in> {-1, -99, -2}")
    case True
    let ?full = "guard_root cs sid @ ''/'' @ join_on ''/'' ws"
    have "rooted ?full" using assms(1) by (auto simp: rooted_Cons)
    moreover have "psegs ?full = psegs (rootPath cs sid) @ ws"
      using psegs_extend [OF assms(1,3,2)] rootPath_segs [OF assms(1)] True by simp
    ultimately have "guarded (guard_root cs sid) ?full
      = (''/'' @ join_on ''/'' (psegs (rootPath cs sid) @ ws), None)"
      using gen [of ?full] lj by simp
    then show ?thesis
      using True sf assms(4) by (auto simp: sanitizePath_def guard_root_def)
  next
    case False
    let ?full = "guard_root cs sid @ ''/'' @ show_int sid @ ''/'' @ join_on ''/'' ws"
    have "rooted ?full" using assms(1) by (auto simp: rooted_Cons)
    moreover have "psegs ?full = psegs (rootPath cs sid) @ ws"
      using psegs_extend [OF assms(1), of "show_int sid # ws"] plain_seg_show_int assms(2,3)
        rootPath_segs [OF assms(1)] False
      by (simp add: join_on_Cons guard_root_def)
    ultimately have "guarded (guard_root cs sid) ?full
      = (''/'' @ join_on ''/'' (psegs (rootPath cs sid) @ ws), None)"
      using gen [of ?full] lj by simp
    then show ?thesis
      using False sf assms(4) by (auto simp: sanitizePath_def guard_root_def)
  qed
qed

theorem sanitizePath_plain_witness:
  "sanitizePath example_cs ''a/b'' 5 = (''/mnt/5/a/b'', None)"
proof -
  have "sanitizePath example_cs (join_on ''/'' [''a'', ''b'']) 5
      = (''/'' @ join_on ''/'' (psegs (rootPath example_cs 5) @ [''a'', ''b'']), None)"
    by (rule sanitizePath_plain) code_simp+
  moreover have "''/'' @ join_on ''/'' (psegs (rootPath example_cs 5) @ [''a'', ''b''])
      = ''/mnt/5/a/b''"
    by code_simp
  ultimately show ?thesis by simp
qed

text \<open>For two or more absolute paths, \<open>FileCommonPrefix\<close> returns the longest directory that
  contains (or is) every one of them.\<close>

theorem FileCommonPrefix_longest_dir:
  assumes "length ps \<ge> 2" and "\<forall>p \<in> set ps. rooted p"
  shows "(\<forall>p \<in> set ps. prefix (FileCommonPrefix (CHR ''/'') ps @ ''/'') (clean p @ ''/''))
    \<and> (\<forall>d. (\<forall>p \<in> set ps. prefix (d @ ''/'') (clean p @ ''/''))
        \<longrightarrow> prefix d (FileCommonPrefix (CHR ''/'') ps))"
proof -
  obtain p q rs where ps: "ps = p # q # rs"
    using assms(1) by (cases ps; cases "tl ps") auto
  let ?c = "fcp_loop (CHR ''/'') (clean p @ ''/'') (q # rs)"
  have all: "\<forall>v \<in> set ps. prefix ?c (clean v @ ''/'')"
    using fcp_loop_prefix [of "CHR ''/''" "clean p @ ''/''" "q # rs"] ps
    by (auto simp del: fcp_loop.simps)
  have "\<forall>v \<in> set ps. prefix ''/'' (clean v @ ''/'')"
    using assms(2) by (simp add: clean_def)
  then have "prefix ''/'' ?c"
    by (intro fcp_loop_greatest) (auto simp: ps)
  then have "CHR ''/'' \<in> set ?c" by (auto simp: prefix_def)
  then obtain d e where c: "?c = d @ CHR ''/'' # e" "CHR ''/'' \<notin> set e"
    and r: "FileCommonPrefix (CHR ''/'') ps = d"
    by (elim drop_last_elem_split) (auto simp: FileCommonPrefix_def ps)
  have "prefix (d @ ''/'') ?c" using c by (simp add: prefix_def)
  then have 1: "\<forall>v \<in> set ps. prefix (d @ ''/'') (clean v @ ''/'')"
    using all by (meson prefix_order.trans)
  have 2: "prefix x d" if "\<forall>v \<in> set ps. prefix (x @ ''/'') (clean v @ ''/'')" for x
  proof -
    from that have "prefix (x @ ''/'') ?c"
      by (intro fcp_loop_greatest) (auto simp: ps)
    with c have "prefix (x @ ''/'') (d @ ''/'' @ e)" by simp
    then have "prefix (x @ ''/'') (d @ ''/'') \<or> prefix (d @ ''/'') (x @ ''/'') "
      by (metis append.assoc prefix_same_cases prefixI)
    moreover obtain y where y: "d @ ''/'' @ e = x @ ''/'' @ y"
      using \<open>prefix (x @ ''/'') (d @ ''/'' @ e)\<close> by (auto simp: prefix_def)
    ultimately show ?thesis
      using c(2) by (auto simp: append_eq_append_conv2 prefix_def Cons_eq_append_conv)
  qed
  show ?thesis using 1 2 r by simp
qed

theorem FileCommonPrefix_longest_dir_witness:
  "prefix (''/a'' @ ''/'') (clean ''/a/bc/d'' @ ''/'') \<and> prefix (''/a'' @ ''/'') (clean ''/a/bd'' @ ''/'')"
proof -
  have r: "FileCommonPrefix (CHR ''/'') [''/a/bc/d'', ''/a/bd''] = ''/a''" by code_simp
  have "length [''/a/bc/d'', ''/a/bd''] \<ge> 2" "\<forall>p \<in> set [''/a/bc/d'', ''/a/bd'']. rooted p"
    by code_simp+
  from FileCommonPrefix_longest_dir [OF this] show ?thesis unfolding r by simp
qed

end
