(* ===== verification/FileSys.thy ===== *)
theory FileSys
  imports Paths "HOL-Library.List_Lexorder" "HOL-Library.Char_ord"
begin

text \<open>
  The part of Go's package \<open>os\<close> (on Linux) that the file operations use: a tree of directories, files
  and symbolic links, the resolution of a path with its links, and one function per call. A relative
  path starts at the root. Calls the structure of the tree allows can still fail: the parameter
  \<open>fs_deny\<close> says which, by the call and the place in the tree. The modification time of a directory is
  not tracked when its entries change.
\<close>

section \<open>Trees\<close>

record meta =
  n_mode :: nat
  n_mtime :: int
  n_uid :: int
  n_gid :: int

datatype node = File meta string | Link meta string | Dir meta "(string \<times> node) list"

type_synonym path = "string list"

fun is_dir :: "node \<Rightarrow> bool" where
  "is_dir (Dir m ch) = True"
| "is_dir n = False"

fun is_link :: "node \<Rightarrow> bool" where
  "is_link (Link m t) = True"
| "is_link n = False"

fun is_file :: "node \<Rightarrow> bool" where
  "is_file (File m c) = True"
| "is_file n = False"

fun meta_of :: "node \<Rightarrow> meta" where
  "meta_of (File m c) = m"
| "meta_of (Link m t) = m"
| "meta_of (Dir m ch) = m"

fun set_meta :: "(meta \<Rightarrow> meta) \<Rightarrow> node \<Rightarrow> node" where
  "set_meta f (File m c) = File (f m) c"
| "set_meta f (Link m t) = Link (f m) t"
| "set_meta f (Dir m ch) = Dir (f m) ch"

fun node_at :: "node \<Rightarrow> path \<Rightarrow> node option" where
  "node_at n [] = Some n"
| "node_at (Dir m ch) (s # ss) = (case map_of ch s of None \<Rightarrow> None | Some c \<Rightarrow> node_at c ss)"
| "node_at n (s # ss) = None"

text \<open>The entries of a directory are kept in the order of their names, in which \<open>ReadDir\<close> returns them.\<close>

fun ins_child :: "string \<Rightarrow> node \<Rightarrow> (string \<times> node) list \<Rightarrow> (string \<times> node) list" where
  "ins_child s n [] = [(s, n)]"
| "ins_child s n ((k, c) # ch) =
     (if s = k then (s, n) # ch else if s < k then (s, n) # (k, c) # ch else (k, c) # ins_child s n ch)"

fun put_child :: "string \<Rightarrow> node option \<Rightarrow> (string \<times> node) list \<Rightarrow> (string \<times> node) list" where
  "put_child s (Some n) ch = ins_child s n ch"
| "put_child s None ch = filter (\<lambda>kc. fst kc \<noteq> s) ch"

fun alter :: "path \<Rightarrow> (node option \<Rightarrow> node option) \<Rightarrow> node \<Rightarrow> node" where
  "alter [] f n = (case f (Some n) of Some n' \<Rightarrow> n' | None \<Rightarrow> n)"
| "alter (s # ss) f (Dir m ch) =
     (if ss = [] then Dir m (put_child s (f (map_of ch s)) ch)
      else case map_of ch s of None \<Rightarrow> Dir m ch | Some c \<Rightarrow> Dir m (put_child s (Some (alter ss f c)) ch))"
| "alter (s # ss) f n = n"

lemma map_of_ins_child [simp]: "map_of (ins_child s n ch) = (map_of ch)(s \<mapsto> n)"
  by (induction s n ch rule: ins_child.induct) (auto simp: fun_upd_twist)

lemma map_of_put_child [simp]: "map_of (put_child s v ch) = (map_of ch)(s := v)"
proof (cases v)
  case None
  have "map_of (filter (\<lambda>kc. fst kc \<noteq> s) ch) = (map_of ch)(s := None)"
    by (induction ch) (auto simp: fun_eq_iff)
  with None show ?thesis by simp
qed simp

lemma node_at_leaf:
  "node_at (File m c) q = (if q = [] then Some (File m c) else None)"
  "node_at (Link m t) q = (if q = [] then Some (Link m t) else None)"
  by (cases q; simp)+

lemma node_at_append: "node_at n (p @ q) = (case node_at n p of None \<Rightarrow> None | Some c \<Rightarrow> node_at c q)"
  by (induction n p rule: node_at.induct) (auto split: option.splits)

lemma node_at_snoc_dir: "node_at n (p @ [s]) = Some c \<Longrightarrow> \<exists>m ch. node_at n p = Some (Dir m ch) \<and> map_of ch s = Some c"
proof -
  assume "node_at n (p @ [s]) = Some c"
  then obtain d where d: "node_at n p = Some d" "node_at d [s] = Some c"
    by (auto simp: node_at_append split: option.splits)
  then show ?thesis by (cases d) (auto split: option.splits)
qed

lemma node_at_prefix_dir: "node_at n (p @ q) = Some c \<Longrightarrow> q \<noteq> [] \<Longrightarrow> \<exists>m ch. node_at n p = Some (Dir m ch)"
proof -
  assume a: "node_at n (p @ q) = Some c" "q \<noteq> []"
  then obtain d where d: "node_at n p = Some d" "node_at d q = Some c"
    by (auto simp: node_at_append split: option.splits)
  with a(2) show ?thesis by (cases d; cases q) auto
qed

text \<open>\<open>alter p f\<close> acts at \<open>p\<close> only.\<close>

lemma node_at_alter_at:
  "p \<noteq> [] \<Longrightarrow> node_at n (butlast p) = Some (Dir m ch) \<Longrightarrow> node_at (alter p f n) p = f (node_at n p)"
proof (induction p f n arbitrary: m ch rule: alter.induct)
  case (2 s ss f m' ch')
  then show ?case by (cases "ss = []") (auto split: option.splits)
qed (auto split: if_splits)

lemma node_at_alter_parallel:
  "\<not> prefix p q \<Longrightarrow> \<not> prefix q p \<Longrightarrow> node_at (alter p f n) q = node_at n q"
proof (induction p f n arbitrary: q rule: alter.induct)
  case (2 s ss f m' ch')
  then show ?case by (cases q) (auto split: option.splits)
qed auto

lemma node_at_alter_above:
  "strict_prefix q p \<Longrightarrow> node_at (alter p f n) q = map_option (alter (drop (length q) p) f) (node_at n q)"
proof (induction p f n arbitrary: q rule: alter.induct)
  case (2 s ss f m' ch')
  show ?case
  proof (cases q)
    case Nil
    then show ?thesis by simp
  next
    case (Cons t q')
    with 2(2) have *: "t = s" "strict_prefix q' ss" "ss \<noteq> []" by (auto simp: strict_prefix_def)
    with 2(1) Cons show ?thesis by (auto split: option.splits)
  qed
qed (auto simp: strict_prefix_def node_at_leaf)

lemma node_at_alter_below:
  assumes "p \<noteq> []" "node_at n (butlast p) = Some (Dir m ch)"
  shows "node_at (alter p f n) (p @ q) = (case f (node_at n p) of None \<Rightarrow> None | Some c \<Rightarrow> node_at c q)"
  using node_at_alter_at [OF assms, of f] by (simp add: node_at_append)

section \<open>The state and the resolution of paths\<close>

datatype errno = ENOENT | ENOTDIR | EEXIST | ENOTEMPTY | EISDIR | EINVAL | ELOOP | EBUSY | EOTHER

datatype sysop = SStat | SReadDir | SMkdir | SOpen | SCreate | SWrite | SRemove | SRename | SChown | SChtimes | SChmod
  | SReadlink | SSymlink

text \<open>
  \<open>fs_ctx\<close> is the context of the copy that runs: the number of reads after which it has ended, or
  \<open>None\<close> for a context that does not end.
\<close>

record fsys =
  fs_root :: node
  fs_now :: int
  fs_umask :: "nat \<Rightarrow> nat"
  fs_uid :: int
  fs_gid :: int
  fs_deny :: "sysop \<Rightarrow> path \<Rightarrow> bool"
  fs_ctx :: "nat option"

text \<open>A link is followed at most 40 times, as on Linux; the last segment only when \<open>fl\<close> is set.\<close>

function resolve :: "nat \<Rightarrow> bool \<Rightarrow> node \<Rightarrow> path \<Rightarrow> path \<Rightarrow> errno + path" where
  "resolve k fl t cur [] = Inr cur"
| "resolve k fl t cur (s # rest) =
     (if s = [] \<or> s = ''.'' then resolve k fl t cur rest
      else if s = ''..'' then resolve k fl t (butlast cur) rest
      else case node_at t (cur @ [s]) of
        None \<Rightarrow> if rest = [] then Inr (cur @ [s]) else Inl ENOENT
      | Some (File m c) \<Rightarrow> if rest = [] then Inr (cur @ [s]) else Inl ENOTDIR
      | Some (Dir m ch) \<Rightarrow> resolve k fl t (cur @ [s]) rest
      | Some (Link m tgt) \<Rightarrow>
          if rest = [] \<and> \<not> fl then Inr (cur @ [s])
          else case k of
            0 \<Rightarrow> Inl ELOOP
          | Suc k' \<Rightarrow> resolve k' fl t (if rooted tgt then [] else cur) (split_on (CHR ''/'') tgt @ rest))"
  by pat_completeness auto
termination
  by (relation "measures [\<lambda>(k, fl, t, cur, rest). k, \<lambda>(k, fl, t, cur, rest). length rest]") auto

definition phys :: "bool \<Rightarrow> fsys \<Rightarrow> string \<Rightarrow> errno + path" where
  "phys fl s p = (if p = [] then Inl ENOENT else resolve 40 fl (fs_root s) [] (split_on (CHR ''/'') p))"

definition at_path :: "bool \<Rightarrow> sysop \<Rightarrow> string \<Rightarrow> fsys \<Rightarrow> errno + path \<times> node" where
  "at_path fl op p s =
     (case phys fl s p of
        Inl e \<Rightarrow> Inl e
      | Inr q \<Rightarrow> if fs_deny s op q then Inl EOTHER
                else case node_at (fs_root s) q of None \<Rightarrow> Inl ENOENT | Some n \<Rightarrow> Inr (q, n))"

definition on_root :: "(node \<Rightarrow> node) \<Rightarrow> fsys \<Rightarrow> fsys" where
  "on_root f s = s\<lparr>fs_root := f (fs_root s)\<rparr>"

lemma on_root_simps [simp]:
  "fs_root (on_root f s) = f (fs_root s)" "fs_deny (on_root f s) = fs_deny s" "fs_ctx (on_root f s) = fs_ctx s"
  "fs_now (on_root f s) = fs_now s" "fs_umask (on_root f s) = fs_umask s" "fs_uid (on_root f s) = fs_uid s"
  "fs_gid (on_root f s) = fs_gid s"
  by (simp_all add: on_root_def)

section \<open>Package os\<close>

type_synonym 'e eff = "fsys \<Rightarrow> 'e option \<times> fsys"

definition os_Stat :: "string \<Rightarrow> fsys \<Rightarrow> errno + node" where
  "os_Stat p s = map_sum id snd (at_path True SStat p s)"

definition os_Lstat :: "string \<Rightarrow> fsys \<Rightarrow> errno + node" where
  "os_Lstat p s = map_sum id snd (at_path False SStat p s)"

definition os_ReadDir :: "string \<Rightarrow> fsys \<Rightarrow> errno + (string \<times> node) list" where
  "os_ReadDir p s = (case at_path True SReadDir p s of
     Inr (q, Dir m ch) \<Rightarrow> Inr ch | Inr _ \<Rightarrow> Inl ENOTDIR | Inl e \<Rightarrow> Inl e)"

definition os_Readlink :: "string \<Rightarrow> fsys \<Rightarrow> errno + string" where
  "os_Readlink p s = (case at_path False SReadlink p s of
     Inr (q, Link m tgt) \<Rightarrow> Inr tgt | Inr _ \<Rightarrow> Inl EINVAL | Inl e \<Rightarrow> Inl e)"

definition change :: "bool \<Rightarrow> sysop \<Rightarrow> (meta \<Rightarrow> meta) \<Rightarrow> string \<Rightarrow> errno eff" where
  "change fl op f p s = (case at_path fl op p s of
     Inl e \<Rightarrow> (Some e, s)
   | Inr (q, n) \<Rightarrow> (None, on_root (alter q (map_option (set_meta f))) s))"

text \<open>An owner of \<open>-1\<close> is left as it is.\<close>

definition set_owner :: "int \<Rightarrow> int \<Rightarrow> meta \<Rightarrow> meta" where
  "set_owner uid gid m = m\<lparr>n_uid := (if uid = -1 then n_uid m else uid), n_gid := (if gid = -1 then n_gid m else gid)\<rparr>"

definition os_Chown :: "string \<Rightarrow> int \<Rightarrow> int \<Rightarrow> errno eff" where
  "os_Chown p uid gid = change True SChown (set_owner uid gid) p"

definition os_Lchown :: "string \<Rightarrow> int \<Rightarrow> int \<Rightarrow> errno eff" where
  "os_Lchown p uid gid = change False SChown (set_owner uid gid) p"

definition os_Chtimes :: "string \<Rightarrow> int \<Rightarrow> errno eff" where
  "os_Chtimes p t = change True SChtimes (n_mtime_update (\<lambda>_. t)) p"

definition os_Chmod :: "string \<Rightarrow> nat \<Rightarrow> errno eff" where
  "os_Chmod p md = change True SChmod (n_mode_update (\<lambda>_. md)) p"

definition fresh_meta :: "fsys \<Rightarrow> nat \<Rightarrow> meta" where
  "fresh_meta s perm = \<lparr>n_mode = fs_umask s perm, n_mtime = fs_now s, n_uid = fs_uid s, n_gid = fs_gid s\<rparr>"

text \<open>\<open>mkdir\<close> and \<open>symlink\<close>: the name must be free; a link at its place is not followed.\<close>

definition make :: "sysop \<Rightarrow> node \<Rightarrow> string \<Rightarrow> errno eff" where
  "make op n p s = (case phys False s p of
     Inl e \<Rightarrow> (Some e, s)
   | Inr q \<Rightarrow> if node_at (fs_root s) q \<noteq> None then (Some EEXIST, s)
             else if fs_deny s op q then (Some EOTHER, s)
             else (None, on_root (alter q (\<lambda>_. Some n)) s))"

definition os_Mkdir :: "string \<Rightarrow> nat \<Rightarrow> errno eff" where
  "os_Mkdir p perm s = make SMkdir (Dir (fresh_meta s perm) []) p s"

definition os_Symlink :: "string \<Rightarrow> string \<Rightarrow> errno eff" where
  "os_Symlink tgt p s = make SSymlink (Link (fresh_meta s 511) tgt) p s"

text \<open>\<open>MkdirAll\<close>, by recursion on the segments, the last one first.\<close>

fun mkdirs :: "nat \<Rightarrow> path \<Rightarrow> errno eff" where
  "mkdirs perm [] s = (None, s)"
| "mkdirs perm (x # rs) s =
     (let p = abs_path (rev (x # rs)) in
      case os_Stat p s of
        Inr n \<Rightarrow> (if is_dir n then None else Some ENOTDIR, s)
      | Inl _ \<Rightarrow>
          (case mkdirs perm rs s of
             (Some e, s1) \<Rightarrow> (Some e, s1)
           | (None, s1) \<Rightarrow>
               (case os_Mkdir p perm s1 of
                  (None, s2) \<Rightarrow> (None, s2)
                | (Some e, s2) \<Rightarrow>
                    (case os_Lstat p s2 of
                       Inr n \<Rightarrow> (if is_dir n then None else Some e, s2)
                     | Inl _ \<Rightarrow> (Some e, s2)))))"

definition segs_of :: "string \<Rightarrow> path" where
  "segs_of p = filter (\<lambda>w. w \<noteq> []) (split_on (CHR ''/'') p)"

definition os_MkdirAll :: "string \<Rightarrow> nat \<Rightarrow> errno eff" where
  "os_MkdirAll p perm s = (if p = [] then (Some ENOENT, s) else mkdirs perm (rev (segs_of p)) s)"

text \<open>\<open>OpenFile\<close> with \<open>O_RDWR | O_CREATE\<close>, and \<open>O_TRUNC\<close> for \<open>Create\<close>; the result is the place of the file.\<close>

definition os_OpenCreate :: "bool \<Rightarrow> string \<Rightarrow> fsys \<Rightarrow> (errno + path) \<times> fsys" where
  "os_OpenCreate trunc p s = (case phys True s p of
     Inl e \<Rightarrow> (Inl e, s)
   | Inr q \<Rightarrow> if fs_deny s SCreate q then (Inl EOTHER, s)
     else case node_at (fs_root s) q of
       None \<Rightarrow> (Inr q, on_root (alter q (\<lambda>_. Some (File (fresh_meta s 438) []))) s)
     | Some (File m c) \<Rightarrow>
         (Inr q, if trunc then on_root (alter q (\<lambda>_. Some (File (m\<lparr>n_mtime := fs_now s\<rparr>) []))) s else s)
     | Some (Dir m ch) \<Rightarrow> (Inl EISDIR, s)
     | Some (Link m tgt) \<Rightarrow> (Inl ELOOP, s))"

fun set_content :: "int \<Rightarrow> string \<Rightarrow> node \<Rightarrow> node" where
  "set_content t c (File m c') = File (m\<lparr>n_mtime := t\<rparr>) c"
| "set_content t c n = n"

definition os_Remove :: "string \<Rightarrow> errno eff" where
  "os_Remove p s = (case at_path False SRemove p s of
     Inl e \<Rightarrow> (Some e, s)
   | Inr (q, n) \<Rightarrow>
       if q = [] then (Some EBUSY, s)
       else if (case n of Dir m (x # xs) \<Rightarrow> True | _ \<Rightarrow> False) then (Some ENOTEMPTY, s)
       else (None, on_root (alter q (\<lambda>_. None)) s))"

text \<open>\<open>RemoveAll\<close> removes what can be removed and reports the first failure; a missing path is no failure.\<close>

fun prune :: "(path \<Rightarrow> bool) \<Rightarrow> path \<Rightarrow> node \<Rightarrow> node option"
  and prunes :: "(path \<Rightarrow> bool) \<Rightarrow> path \<Rightarrow> (string \<times> node) list \<Rightarrow> (string \<times> node) list" where
  "prune d q (Dir m ch) =
     (let ch' = prunes d q ch in if ch' = [] \<and> \<not> d q then None else Some (Dir m ch'))"
| "prune d q n = (if d q then Some n else None)"
| "prunes d q [] = []"
| "prunes d q ((k, c) # ch) =
     (case prune d (q @ [k]) c of None \<Rightarrow> prunes d q ch | Some c' \<Rightarrow> (k, c') # prunes d q ch)"

definition os_RemoveAll :: "string \<Rightarrow> errno eff" where
  "os_RemoveAll p s =
     (if p = [] then (None, s)
      else if last (split_on (CHR ''/'') p) = ''.'' then (Some EINVAL, s)
      else case phys False s p of
        Inl e \<Rightarrow> (if e = ENOENT then None else Some e, s)
      | Inr q \<Rightarrow>
          (case node_at (fs_root s) q of
             None \<Rightarrow> (None, s)
           | Some n \<Rightarrow>
               let r = prune (\<lambda>p. p = [] \<or> fs_deny s SRemove p) q n
               in (if r = None then None else Some EOTHER, on_root (alter q (\<lambda>_. r)) s)))"

text \<open>
  \<open>Rename\<close>. Go refuses every target that is a directory, unless both names mean the same one; the
  system call refuses to move a directory into itself or over a file.
\<close>

definition sys_rename :: "string \<Rightarrow> string \<Rightarrow> errno eff" where
  "sys_rename src dst s =
     (case at_path False SRename src s of
        Inl e \<Rightarrow> (Some e, s)
      | Inr (qs, n) \<Rightarrow>
          (case phys False s dst of
             Inl e \<Rightarrow> (Some e, s)
           | Inr qd \<Rightarrow>
               if fs_deny s SRename qd then (Some EOTHER, s)
               else if qs = qd then (None, s)
               else if qs = [] \<or> qd = [] then (Some EBUSY, s)
               else if prefix qs qd then (Some EINVAL, s)
               else if is_dir n \<and> node_at (fs_root s) qd \<noteq> None then (Some ENOTDIR, s)
               else (None, on_root (\<lambda>t. alter qd (\<lambda>_. Some n) (alter qs (\<lambda>_. None) t)) s)))"

definition os_Rename :: "string \<Rightarrow> string \<Rightarrow> errno eff" where
  "os_Rename src dst s =
     (case at_path False SStat dst s of
        Inr (qd, Dir m ch) \<Rightarrow>
          (case at_path False SStat src s of
             Inl e \<Rightarrow> (Some e, s)
           | Inr (qs, n) \<Rightarrow> if src = dst \<or> qs \<noteq> qd then (Some EEXIST, s) else sys_rename src dst s)
      | _ \<Rightarrow> sys_rename src dst s)"

text \<open>
  \<open>filepath.Walk\<close> with a visitor that gets a path, an error of the walk and the node, and that changes
  nothing but the entry it visits. The names of a directory are read before it is visited.
\<close>

type_synonym 'e visitor = "string \<Rightarrow> errno option \<Rightarrow> node \<Rightarrow> 'e eff"

fun walk_node :: "'e visitor \<Rightarrow> string \<Rightarrow> node \<Rightarrow> 'e eff"
  and walk_nodes :: "'e visitor \<Rightarrow> string \<Rightarrow> (string \<times> node) list \<Rightarrow> 'e eff" where
  "walk_node f p (Dir m ch) s =
     (case os_ReadDir p s of
        Inl e \<Rightarrow> f p (Some e) (Dir m ch) s
      | Inr _ \<Rightarrow> (case f p None (Dir m ch) s of
          (Some e, s1) \<Rightarrow> (Some e, s1)
        | (None, s1) \<Rightarrow> walk_nodes f p ch s1))"
| "walk_node f p n s = f p None n s"
| "walk_nodes f p [] s = (None, s)"
| "walk_nodes f p ((k, c) # ch) s =
     (case (case os_Lstat (path_join p k) s of
              Inl e \<Rightarrow> f (path_join p k) (Some e) c s
            | Inr _ \<Rightarrow> walk_node f (path_join p k) c s) of
        (Some e, s1) \<Rightarrow> (Some e, s1)
      | (None, s1) \<Rightarrow> walk_nodes f p ch s1)"

definition Walk :: "'e visitor \<Rightarrow> string \<Rightarrow> 'e eff" where
  "Walk f p s = (case os_Lstat p s of
     Inl e \<Rightarrow> f p (Some e) (File (fresh_meta s 0) []) s
   | Inr n \<Rightarrow> walk_node f p n s)"

section \<open>Paths without links\<close>

declare resolve.simps(2) [simp del]

text \<open>No link lies on the way to \<open>q\<close>, and none at its end when the end is followed.\<close>

definition direct :: "bool \<Rightarrow> node \<Rightarrow> path \<Rightarrow> bool" where
  "direct fl t q \<longleftrightarrow> (\<forall>w \<in> set q. plain_seg w)
     \<and> (q \<noteq> [] \<longrightarrow> (\<exists>m ch. node_at t (butlast q) = Some (Dir m ch)))
     \<and> (fl \<longrightarrow> (\<forall>m tgt. node_at t q \<noteq> Some (Link m tgt)))
     \<and> is_dir t"

lemma resolve_append:
  assumes "\<forall>w \<in> set ws. plain_seg w" "node_at t (cur @ ws) = Some (Dir m ch)"
  shows "resolve k fl t cur (ws @ rest) = resolve k fl t (cur @ ws) rest"
  using assms
proof (induction ws arbitrary: cur)
  case Nil
  then show ?case by simp
next
  case (Cons w ws)
  then have "node_at t ((cur @ [w]) @ ws) = Some (Dir m ch)" by simp
  then obtain m' ch' where d: "node_at t (cur @ [w]) = Some (Dir m' ch')"
    using node_at_prefix_dir [of t "cur @ [w]" ws] by (cases "ws = []") auto
  from Cons have "plain_seg w" by simp
  then have "resolve k fl t cur ((w # ws) @ rest) = resolve k fl t (cur @ [w]) (ws @ rest)"
    using d by (simp add: resolve.simps(2) plain_seg_def)
  also have "\<dots> = resolve k fl t ((cur @ [w]) @ ws) rest"
    using Cons.prems by (intro Cons.IH) auto
  finally show ?case by simp
qed

lemma resolve_direct:
  assumes "direct fl t q"
  shows "resolve k fl t [] q = Inr q"
proof (cases "q = []")
  case True
  then show ?thesis by simp
next
  case False
  then obtain p x where q: "q = p @ [x]" by (metis append_butlast_last_id)
  from assms q obtain m ch where p: "node_at t p = Some (Dir m ch)" and pl: "\<forall>w \<in> set p. plain_seg w" "plain_seg x"
    and nl: "fl \<longrightarrow> (\<forall>m tgt. node_at t (p @ [x]) \<noteq> Some (Link m tgt))"
    by (auto simp: direct_def)
  have "resolve k fl t [] (p @ [x]) = resolve k fl t p [x]"
    using resolve_append [of p t "[]" m ch k fl "[x]"] p pl by simp
  also have "\<dots> = Inr (p @ [x])"
    using pl(2) nl by (auto simp: resolve.simps(2) plain_seg_def split: option.splits node.splits)
  finally show ?thesis using q by simp
qed

lemma split_abs_path:
  assumes "\<forall>w \<in> set q. plain_seg w"
  shows "split_on (CHR ''/'') (abs_path q) = [] # (if q = [] then [[]] else q)"
proof (cases "q = []")
  case True
  then show ?thesis by (simp add: abs_path_def)
next
  case False
  then have "split_on (CHR ''/'') (join_on ''/'' q) = q"
    using assms by (intro split_join_on) (auto simp: plain_seg_def)
  with False show ?thesis by (simp add: abs_path_def)
qed

lemma phys_direct: 
  assumes "direct fl (fs_root s) q"
  shows "phys fl s (abs_path q) = Inr q"
proof -
  have pl: "\<forall>w \<in> set q. plain_seg w" using assms by (simp add: direct_def)
  have "abs_path q \<noteq> []" by (simp add: abs_path_def)
  then show ?thesis
    using resolve_direct [OF assms] by (simp add: phys_def split_abs_path [OF pl] resolve.simps(2))
qed

lemma clean_abs_path: "\<forall>w \<in> set q. plain_seg w \<Longrightarrow> clean (abs_path q) = abs_path q"
  using psegs_plain_path [of q] by (simp add: clean_def abs_path_def rooted_def)

lemma path_join_abs:
  assumes "\<forall>w \<in> set q. plain_seg w" "plain_seg x"
  shows "path_join (abs_path q) x = abs_path (q @ [x])"
proof -
  have r: "rooted (abs_path q)" by (simp add: abs_path_def rooted_def)
  have "psegs (abs_path q) = q" using psegs_plain_path [OF assms(1)] by (simp add: abs_path_def)
  then have "psegs (abs_path q @ ''/'' @ x) = q @ [x]"
    using psegs_append [OF r, of x] assms(2) split_on_no_sep [of "CHR ''/''" x]
    by (simp add: plain_seg_def)
  moreover have "rooted (abs_path q @ ''/'' @ x)" by (simp add: abs_path_def rooted_def)
  moreover have "x \<noteq> []" "abs_path q \<noteq> []" using assms(2) by (simp_all add: plain_seg_def abs_path_def)
  ultimately show ?thesis by (simp add: path_join_def clean_def) (simp add: abs_path_def)
qed

section \<open>Composing changes of a tree\<close>

lemma ins_child_ins [simp]: "ins_child s v (ins_child s w ch) = ins_child s v ch"
  by (induction s w ch rule: ins_child.induct) auto

lemma put_child_put [simp]: "put_child s (Some v) (put_child s w ch) = put_child s (Some v) ch \<or> w = None"
  by (cases w) auto

definition parent_dir :: "node \<Rightarrow> path \<Rightarrow> bool" where
  "parent_dir t q \<longleftrightarrow> q \<noteq> [] \<longrightarrow> (\<exists>m ch. node_at t (butlast q) = Some (Dir m ch))"

lemma parent_dirI: "node_at t q = Some n \<Longrightarrow> parent_dir t q"
  by (cases q rule: rev_cases) (auto simp: parent_dir_def dest!: node_at_snoc_dir)

lemma parent_dir_Cons: "parent_dir (Dir m ch) (s # q) \<Longrightarrow> q \<noteq> [] \<Longrightarrow> \<exists>c. map_of ch s = Some c \<and> parent_dir c q"
  by (auto simp: parent_dir_def split: option.splits)

lemma alter_alter_below:
  assumes "parent_dir t q" "r \<noteq> []"
  shows "alter (q @ r) f (alter q (\<lambda>_. Some n) t) = alter q (\<lambda>_. Some (alter r f n)) t"
  using assms
proof (induction q arbitrary: t)
  case Nil
  then show ?case by simp
next
  case (Cons s q)
  show ?case
  proof (cases t)
    case (Dir m ch)
    show ?thesis
    proof (cases "q = []")
      case True
      with Dir Cons.prems show ?thesis by simp
    next
      case False
      with Cons.prems Dir obtain c where c: "map_of ch s = Some c" "parent_dir c q"
        using parent_dir_Cons by blast
      with Cons.IH [OF c(2) Cons.prems(2)] False Dir Cons.prems(2) show ?thesis by simp
    qed
  qed (use Cons.prems in \<open>auto simp: parent_dir_def split: if_splits\<close>)
qed

lemma alter_cong_at:
  assumes "f (node_at t q) = g (node_at t q)" "parent_dir t q"
  shows "alter q f t = alter q g t"
  using assms
proof (induction q arbitrary: t)
  case Nil
  then show ?case by simp
next
  case (Cons s q)
  then show ?case
    by (cases t; cases "q = []") (auto dest!: parent_dir_Cons split: option.splits)
qed

lemma alter_alter_same:
  assumes "parent_dir t q"
  shows "alter q f (alter q (\<lambda>_. Some n) t) = alter q (\<lambda>_. f (Some n)) t \<or> f (Some n) = None"
  using assms
proof (induction q arbitrary: t)
  case Nil
  then show ?case by (auto split: option.splits)
next
  case (Cons s q)
  show ?case
  proof (cases t)
    case (Dir m ch)
    show ?thesis
    proof (cases "q = []")
      case True
      with Dir show ?thesis by (cases "f (Some n)") auto
    next
      case False
      with Cons.prems Dir obtain c where c: "map_of ch s = Some c" "parent_dir c q"
        using parent_dir_Cons by blast
      with Cons.IH [OF c(2)] False Dir show ?thesis by auto
    qed
  qed auto
qed

lemma alter_update:
  "parent_dir t q \<Longrightarrow> f (Some n) = Some n' \<Longrightarrow> alter q f (alter q (\<lambda>_. Some n) t) = alter q (\<lambda>_. Some n') t"
  using alter_alter_same [of t q f n] by auto

lemma node_at_alter_new:
  "parent_dir t q \<Longrightarrow> node_at (alter q (\<lambda>_. Some n) t) (q @ r) = node_at n r"
  by (cases "q = []") (auto simp: parent_dir_def node_at_append node_at_alter_at)

lemma is_dir_alter: "is_dir t \<Longrightarrow> q \<noteq> [] \<Longrightarrow> is_dir (alter q f t)"
  by (cases t; cases q) (auto split: option.splits)

lemma parent_dir_alter:
  assumes "parent_dir t q" "\<not> prefix p (butlast q)"
  shows "parent_dir (alter p f t) q"
proof (cases "q = []")
  case True
  then show ?thesis by (simp add: parent_dir_def)
next
  case False
  with assms(1) obtain m ch where d: "node_at t (butlast q) = Some (Dir m ch)" by (auto simp: parent_dir_def)
  have "\<exists>m ch. node_at (alter p f t) (butlast q) = Some (Dir m ch)"
  proof (cases "prefix (butlast q) p")
    case True
    with assms(2) have sp: "strict_prefix (butlast q) p" by (auto simp: strict_prefix_def)
    then have "drop (length (butlast q)) p \<noteq> []"
      by (metis append_Nil2 append_take_drop_id length_take min_def prefix_def strict_prefix_def
          append_eq_conv_conj prefix_length_le)
    then have "is_dir (alter (drop (length (butlast q)) p) f (Dir m ch))" by (intro is_dir_alter) auto
    then show ?thesis using node_at_alter_above [OF sp, of f t] d
      by (metis is_dir.elims(2) option.simps(9))
  next
    case False
    with assms(2) d show ?thesis by (simp add: node_at_alter_parallel)
  qed
  then show ?thesis by (simp add: parent_dir_def)
qed

end
