(* ===== verification/IoTools.thy ===== *)
theory IoTools
  imports FileSys
begin

text \<open>
  \<open>pkg/iotools\<close>: the file helpers of \<open>file.go\<close> and the copies with a context of \<open>ioctx.go\<close>, over the
  model of package \<open>os\<close> in theory \<open>FileSys\<close>. A copy of a directory recurses over what it reads at that
  moment, so it takes fuel and is \<open>None\<close> when the fuel does not suffice.
\<close>

section \<open>Errors\<close>

datatype ferr = OS errno | NotADirectory | CantMoveDir | NotRegular | CreatingFailed errno | InvalidParent
  | RelFailed | CtxEnded | UnlinkFailed

definition lift :: "errno option \<times> fsys \<Rightarrow> ferr option \<times> fsys" where
  "lift r = (map_option OS (fst r), snd r)"

text \<open>\<open>if err != nil { return err }\<close>\<close>

definition andThen :: "'e eff \<Rightarrow> 'e eff \<Rightarrow> 'e eff" where
  "andThen f g s = (case f s of (Some e, s1) \<Rightarrow> (Some e, s1) | (None, s1) \<Rightarrow> g s1)"

fun each :: "('x \<Rightarrow> 'e eff) \<Rightarrow> 'x list \<Rightarrow> 'e eff" where
  "each f [] s = (None, s)"
| "each f (x # xs) s = andThen (f x) (each f xs) s"

section \<open>Moving\<close>

definition Move2Dir :: "string \<Rightarrow> string \<Rightarrow> bool \<Rightarrow> ferr eff" where
  "Move2Dir src dst excludeDir s =
     (case os_Stat src s of
        Inl e \<Rightarrow> (Some (OS e), s)
      | Inr fSrc \<Rightarrow>
          (case os_Stat dst s of
             Inl e \<Rightarrow> (Some (OS e), s)
           | Inr dstStat \<Rightarrow>
               if \<not> is_dir dstStat then (Some NotADirectory, s)
               else if excludeDir \<and> is_dir fSrc then lift (os_Rename src dst s)
               else lift (os_Rename src (path_join dst (split_file src)) s)))"

definition Move2File :: "string \<Rightarrow> string \<Rightarrow> ferr eff" where
  "Move2File src dst s =
     (case os_Lstat src s of
        Inl e \<Rightarrow> (Some (OS e), s)
      | Inr fi \<Rightarrow> if is_dir fi then (Some CantMoveDir, s) else lift (os_Rename src dst s))"

section \<open>Creating\<close>

definition exists_path :: "string \<Rightarrow> fsys \<Rightarrow> bool" where
  "exists_path p s = (os_Stat p s \<noteq> Inl ENOENT)"

definition creating :: "errno option \<times> fsys \<Rightarrow> ferr option \<times> fsys" where
  "creating r = (map_option CreatingFailed (fst r), snd r)"

definition CreateDir :: "string \<Rightarrow> nat \<Rightarrow> ferr eff" where
  "CreateDir dir perm s = (if exists_path dir s then (None, s) else creating (os_MkdirAll dir perm s))"

definition ReplicateDir :: "string \<Rightarrow> nat \<Rightarrow> int \<Rightarrow> ferr eff" where
  "ReplicateDir dir perm modTime =
     andThen (\<lambda>s. creating (os_MkdirAll dir perm s)) (\<lambda>s. lift (os_Chtimes dir modTime s))"

text \<open>\<open>os.IsExist\<close>\<close>

definition IsExist :: "errno \<Rightarrow> bool" where
  "IsExist e \<longleftrightarrow> e = EEXIST \<or> e = ENOTEMPTY"

definition EnsureDir :: "string \<Rightarrow> ferr eff" where
  "EnsureDir name s = (case os_MkdirAll name 511 s of
     (None, s1) \<Rightarrow> (None, s1)
   | (Some e, s1) \<Rightarrow> (if IsExist e then None else Some (OS e), s1))"

definition Create :: "string \<Rightarrow> fsys \<Rightarrow> (errno + path) \<times> fsys" where
  "Create name s = os_OpenCreate False name s"

definition CreateOwn :: "string \<Rightarrow> int \<Rightarrow> int \<Rightarrow> errno eff" where
  "CreateOwn name uid gid s = (case os_OpenCreate False name s of
     (Inl e, s1) \<Rightarrow> (Some e, s1)
   | (Inr q, s1) \<Rightarrow>
       if fs_deny s1 SChown q then (Some EOTHER, s1)
       else (None, on_root (alter q (map_option (set_meta (set_owner uid gid)))) s1))"

definition EnsureFile :: "string \<Rightarrow> ferr eff" where
  "EnsureFile filename = andThen (EnsureDir (split_dir filename))
     (\<lambda>s. if os_Stat filename s = Inl ENOENT
          then (case Create filename s of (Inl e, s1) \<Rightarrow> (Some (OS e), s1) | (Inr q, s1) \<Rightarrow> (None, s1))
          else (None, s))"

definition ChownDirR :: "string \<Rightarrow> string \<Rightarrow> int \<Rightarrow> int \<Rightarrow> errno eff" where
  "ChownDirR parent dir uid gid = each (\<lambda>p. os_Chown p uid gid) (ChownDirR_targets parent dir)"

definition EnsureOwnDirR :: "string \<Rightarrow> string \<Rightarrow> int \<Rightarrow> int \<Rightarrow> ferr eff" where
  "EnsureOwnDirR dir0 parent0 uid gid =
     (let dir = clean dir0; parent = clean parent0 in
      andThen (\<lambda>s. creating (os_MkdirAll dir 511 s))
        (andThen (\<lambda>s. if dir = parent then lift (os_Chown parent uid gid s) else (None, s))
          (\<lambda>s. case SubElem parent dir of
             (_, Some e) \<Rightarrow> (Some RelFailed, s)
           | (ok, None) \<Rightarrow> if \<not> ok then (Some InvalidParent, s) else lift (ChownDirR parent dir uid gid s))))"

definition EnsureOwnDir :: "string \<Rightarrow> int \<Rightarrow> int \<Rightarrow> ferr eff" where
  "EnsureOwnDir name uid gid = EnsureOwnDirR name name uid gid"

definition own_file :: "string \<Rightarrow> int \<Rightarrow> int \<Rightarrow> ferr eff" where
  "own_file filename uid gid s =
     (if os_Stat filename s = Inl ENOENT then lift (CreateOwn filename uid gid s) else (None, s))"

definition EnsureOwnFile :: "string \<Rightarrow> int \<Rightarrow> int \<Rightarrow> ferr eff" where
  "EnsureOwnFile filename uid gid =
     andThen (EnsureOwnDir (split_dir filename) uid gid) (own_file filename uid gid)"

definition EnsureOwnFileR :: "string \<Rightarrow> string \<Rightarrow> int \<Rightarrow> int \<Rightarrow> ferr eff" where
  "EnsureOwnFileR filename root uid gid =
     andThen (EnsureOwnDirR (split_dir filename) root uid gid) (own_file filename uid gid)"

section \<open>Removing\<close>

definition remove_visitor :: "ferr visitor" where
  "remove_visitor name err n s =
     (case err of
        None \<Rightarrow> if \<not> is_dir n then lift (os_Remove name s) else (None, s)
      | Some e \<Rightarrow> (Some (OS e), s))"

definition RemoveFileR :: "string \<Rightarrow> ferr eff" where
  "RemoveFileR name s =
     (case os_Lstat name s of
        Inl e \<Rightarrow> (None, s)
      | Inr fSrc \<Rightarrow>
          if \<not> is_dir fSrc then lift (os_RemoveAll name s) else Walk remove_visitor name s)"

definition RemoveAll :: "string \<Rightarrow> errno eff" where
  "RemoveAll name s =
     (case os_Lstat name s of
        Inl e \<Rightarrow> (Some e, s)
      | Inr fi \<Rightarrow>
          if \<not> is_dir fi then os_Remove name s
          else (case os_ReadDir name s of
            Inl e \<Rightarrow> (Some e, s)
          | Inr dir \<Rightarrow>
              andThen (each (\<lambda>d. os_RemoveAll (path_join name (fst d))) dir) (os_Remove name) s))"

definition Remove :: "string \<Rightarrow> errno eff" where
  "Remove name s = (case os_Lstat name s of Inl e \<Rightarrow> (None, s) | Inr _ \<Rightarrow> os_RemoveAll name s)"

section \<open>Owners and times\<close>

definition chown_visitor :: "int \<Rightarrow> int \<Rightarrow> ferr visitor" where
  "chown_visitor uid gid name err n s =
     (case err of None \<Rightarrow> lift (os_Lchown name uid gid s) | Some e \<Rightarrow> (Some (OS e), s))"

definition ChownR :: "string \<Rightarrow> int \<Rightarrow> int \<Rightarrow> ferr eff" where
  "ChownR p uid gid = Walk (chown_visitor uid gid) p"

definition statThen :: "string \<Rightarrow> errno eff \<Rightarrow> errno eff" where
  "statThen src f s = (case os_Stat src s of Inl e \<Rightarrow> (Some e, s) | Inr _ \<Rightarrow> f s)"

definition Chown :: "string \<Rightarrow> int \<Rightarrow> int \<Rightarrow> errno eff" where
  "Chown src uid gid = statThen src (os_Chown src uid gid)"

definition ChownTimes :: "string \<Rightarrow> int \<Rightarrow> int \<Rightarrow> int \<Rightarrow> errno eff" where
  "ChownTimes src uid gid t = statThen src (andThen (os_Chown src uid gid) (os_Chtimes src t))"

definition Chtimes :: "string \<Rightarrow> int \<Rightarrow> errno eff" where
  "Chtimes src t = statThen src (os_Chtimes src t)"

definition ChownAfter :: "string \<Rightarrow> string \<Rightarrow> int \<Rightarrow> int \<Rightarrow> errno eff" where
  "ChownAfter src prfx uid gid = statThen src
     (\<lambda>s. if \<not> hasPrefix src prfx then (None, s)
          else each (\<lambda>dir. os_Chown dir uid gid) (subPathList src prfx) s)"

section \<open>Copying\<close>

definition io_chunk :: nat where
  "io_chunk = 32768"

lemma io_chunk_pos [simp]: "io_chunk > 0"
  by (simp add: io_chunk_def)

text \<open>
  \<open>Copy\<close> asks before each read whether the context has ended, and the last read meets the end of the
  file. \<open>wr\<close> says that writing fails. The results are the bytes that reach the target, the context and
  the error.
\<close>

function Copy :: "bool \<Rightarrow> nat option \<Rightarrow> string \<Rightarrow> string \<times> nat option \<times> ferr option" where
  "Copy wr ctx c =
     (if ctx = Some 0 then ([], ctx, Some CtxEnded)
      else let ctx' = map_option (\<lambda>n. n - 1) ctx in
        if c = [] then ([], ctx', None)
        else if wr then ([], ctx', Some (OS EOTHER))
        else case Copy wr ctx' (drop io_chunk c) of (w, x, e) \<Rightarrow> (take io_chunk c @ w, x, e))"
  by pat_completeness auto
termination
  by (relation "measure (\<lambda>(wr, ctx, c). length c)") auto

declare Copy.simps [simp del]

fun content_of :: "node \<Rightarrow> string" where
  "content_of (File m c) = c"
| "content_of n = []"

definition content_at :: "fsys \<Rightarrow> path \<Rightarrow> string" where
  "content_at s q = (case node_at (fs_root s) q of Some n \<Rightarrow> content_of n | None \<Rightarrow> [])"

text \<open>The source is read when the target has been truncated, through the place that was opened.\<close>

definition CopyFileWithContext :: "string \<Rightarrow> string \<Rightarrow> ferr eff" where
  "CopyFileWithContext src dst s =
     (case os_Stat src s of
        Inl e \<Rightarrow> (Some (OS e), s)
      | Inr fSrc \<Rightarrow>
          if \<not> is_file fSrc then (Some NotRegular, s)
          else case at_path True SOpen src s of
            Inl e \<Rightarrow> (Some (OS e), s)
          | Inr (qs, _) \<Rightarrow>
              (case os_OpenCreate True dst s of
                 (Inl e, s1) \<Rightarrow> (Some (OS e), s1)
               | (Inr qd, s1) \<Rightarrow>
                   (case Copy (fs_deny s1 SWrite qd) (fs_ctx s1) (content_at s1 qs) of
                      (w, x, e) \<Rightarrow>
                        let s2 = (on_root (alter qd (map_option (set_content (fs_now s1) w))) s1)\<lparr>fs_ctx := x\<rparr>
                        in case e of
                             Some e' \<Rightarrow> (Some e', s2)
                           | None \<Rightarrow> lift (andThen (os_Chtimes dst (n_mtime (meta_of fSrc)))
                                              (os_Chmod dst (n_mode (meta_of fSrc))) s2))))"

definition CopySymLinkWithContext :: "string \<Rightarrow> string \<Rightarrow> ferr eff" where
  "CopySymLinkWithContext src dst s =
     (case os_Readlink src s of
        Inl e \<Rightarrow> (None, s)
      | Inr tgt \<Rightarrow>
          (case os_Lstat dst s of
             Inl _ \<Rightarrow> lift (os_Symlink tgt dst s)
           | Inr _ \<Rightarrow>
               (case os_RemoveAll dst s of
                  (Some e, s1) \<Rightarrow> (Some UnlinkFailed, s1)
                | (None, s1) \<Rightarrow> lift (os_Symlink tgt dst s1))))"

type_synonym run = "(ferr option \<times> fsys) option"

fun copy_entries :: "(string \<Rightarrow> string \<Rightarrow> fsys \<Rightarrow> run) \<Rightarrow> string \<Rightarrow> string \<Rightarrow> string list \<Rightarrow> fsys \<Rightarrow> run" where
  "copy_entries rec src dst [] s = Some (None, s)"
| "copy_entries rec src dst (name # names) s =
     (let srcPath = path_join src name; destPath = path_join dst name in
      case os_Lstat srcPath s of
        Inl e \<Rightarrow> Some (Some (OS e), s)
      | Inr fSrc \<Rightarrow>
          (case (case fSrc of
                   Dir m ch \<Rightarrow>
                     (case ReplicateDir destPath 493 (n_mtime m) s of
                        (Some e, s1) \<Rightarrow> Some (Some e, s1)
                      | (None, s1) \<Rightarrow> rec srcPath destPath s1)
                 | Link m tgt \<Rightarrow> Some (CopySymLinkWithContext srcPath destPath s)
                 | File m c \<Rightarrow> Some (CopyFileWithContext srcPath destPath s)) of
             None \<Rightarrow> None
           | Some (Some e, s1) \<Rightarrow> Some (Some e, s1)
           | Some (None, s1) \<Rightarrow> copy_entries rec src dst names s1))"

primrec CopyDirWithContext :: "nat \<Rightarrow> string \<Rightarrow> string \<Rightarrow> fsys \<Rightarrow> run" where
  "CopyDirWithContext 0 src dst s = None"
| "CopyDirWithContext (Suc k) src dst s =
     (case os_ReadDir src s of
        Inl e \<Rightarrow> Some (Some (OS e), s)
      | Inr entries \<Rightarrow> copy_entries (CopyDirWithContext k) src dst (map fst entries) s)"

definition Copy2DirWithContext :: "nat \<Rightarrow> string \<Rightarrow> string \<Rightarrow> bool \<Rightarrow> fsys \<Rightarrow> run" where
  "Copy2DirWithContext k src dst excludeDir s =
     (case os_Stat src s of
        Inl e \<Rightarrow> Some (Some (OS e), s)
      | Inr fSrc \<Rightarrow>
          (case os_Stat dst s of
             Inl e \<Rightarrow> Some (Some (OS e), s)
           | Inr fDst \<Rightarrow>
               if \<not> is_dir fDst then Some (Some NotADirectory, s)
               else if is_dir fSrc then
                 if excludeDir then CopyDirWithContext k src dst s
                 else let dst' = path_join dst (split_file src) in
                   (case EnsureDir dst' s of
                      (Some e, s1) \<Rightarrow> Some (Some e, s1)
                    | (None, s1) \<Rightarrow> CopyDirWithContext k src dst' s1)
               else Some (CopyFileWithContext src (dst @ ''/'' @ split_file src) s)))"

text \<open>The copies without a context of their own.\<close>

definition todo :: "('e eff) \<Rightarrow> 'e eff" where
  "todo f s = (case f (s\<lparr>fs_ctx := None\<rparr>) of (e, s1) \<Rightarrow> (e, s1\<lparr>fs_ctx := fs_ctx s\<rparr>))"

definition todo_run :: "(fsys \<Rightarrow> run) \<Rightarrow> fsys \<Rightarrow> run" where
  "todo_run f s = map_option (\<lambda>(e, s1). (e, s1\<lparr>fs_ctx := fs_ctx s\<rparr>)) (f (s\<lparr>fs_ctx := None\<rparr>))"

definition CopyFile :: "string \<Rightarrow> string \<Rightarrow> ferr eff" where
  "CopyFile src dst = todo (CopyFileWithContext src dst)"

definition CopySymLink :: "string \<Rightarrow> string \<Rightarrow> ferr eff" where
  "CopySymLink src dst = todo (CopySymLinkWithContext src dst)"

definition CopyDir :: "nat \<Rightarrow> string \<Rightarrow> string \<Rightarrow> fsys \<Rightarrow> run" where
  "CopyDir k src dst = todo_run (CopyDirWithContext k src dst)"

definition Copy2Dir :: "nat \<Rightarrow> string \<Rightarrow> string \<Rightarrow> bool \<Rightarrow> fsys \<Rightarrow> run" where
  "Copy2Dir k src dst excludeDir = todo_run (Copy2DirWithContext k src dst excludeDir)"

definition CopyFileChown :: "string \<Rightarrow> string \<Rightarrow> int \<Rightarrow> int \<Rightarrow> ferr eff" where
  "CopyFileChown src dst uid gid = andThen (todo (CopyFileWithContext src dst)) (ChownR dst uid gid)"

section \<open>Calls on direct paths\<close>

text \<open>Nothing is denied and the root is a directory.\<close>

definition quiet :: "fsys \<Rightarrow> bool" where
  "quiet s \<longleftrightarrow> fs_deny s = (\<lambda>_ _. False) \<and> is_dir (fs_root s)"

lemma quietD [simp]: "quiet s \<Longrightarrow> \<not> fs_deny s op q" "quiet s \<Longrightarrow> is_dir (fs_root s)"
  by (simp_all add: quiet_def)

lemma quiet_alter [simp]: "quiet s \<Longrightarrow> q \<noteq> [] \<Longrightarrow> quiet (on_root (alter q f) s)"
  by (simp add: quiet_def is_dir_alter)

lemma quiet_ctx [simp]: "quiet (s\<lparr>fs_ctx := x\<rparr>) = quiet s"
  by (simp add: quiet_def)

lemma on_root_ctx [simp]: "(on_root f s)\<lparr>fs_ctx := x\<rparr> = on_root f (s\<lparr>fs_ctx := x\<rparr>)"
  by (simp add: on_root_def)

definition plain_path :: "path \<Rightarrow> bool" where
  "plain_path q \<longleftrightarrow> (\<forall>w \<in> set q. plain_seg w)"

lemma plain_path_Cons [simp]: "plain_path []" "plain_path (x # q) \<longleftrightarrow> plain_seg x \<and> plain_path q"
  by (auto simp: plain_path_def)

lemma plain_path_append [simp]: "plain_path (q @ r) \<longleftrightarrow> plain_path q \<and> plain_path r"
  by (auto simp: plain_path_def)

lemma directI:
  assumes "quiet s" "plain_path q" "parent_dir (fs_root s) q" "fl \<longrightarrow> (\<forall>m tgt. node_at (fs_root s) q \<noteq> Some (Link m tgt))"
  shows "direct fl (fs_root s) q"
  using assms by (auto simp: direct_def plain_path_def parent_dir_def)

lemma phys_at:
  assumes "quiet s" "plain_path q" "parent_dir (fs_root s) q" "fl \<longrightarrow> (\<forall>m tgt. node_at (fs_root s) q \<noteq> Some (Link m tgt))"
  shows "phys fl s (abs_path q) = Inr q"
  by (intro phys_direct directI assms)

lemma at_path_at:
  assumes "quiet s" "plain_path q" "node_at (fs_root s) q = Some n" "fl \<longrightarrow> \<not> is_link n"
  shows "at_path fl op (abs_path q) s = Inr (q, n)"
proof -
  have "fl \<longrightarrow> (\<forall>m tgt. n \<noteq> Link m tgt)" using assms(4) by auto
  then have "phys fl s (abs_path q) = Inr q"
    using phys_at [OF assms(1,2) parent_dirI [OF assms(3)], of fl] assms(3) by simp
  with assms show ?thesis by (simp add: at_path_def)
qed

lemma at_path_free:
  assumes "quiet s" "plain_path q" "node_at (fs_root s) q = None" "parent_dir (fs_root s) q"
  shows "at_path fl op (abs_path q) s = Inl ENOENT"
  using phys_at [OF assms(1,2,4), of fl] assms by (auto simp: at_path_def)

lemma Stat_at:
  assumes "quiet s" "plain_path q" "node_at (fs_root s) q = Some n"
  shows "\<not> is_link n \<Longrightarrow> os_Stat (abs_path q) s = Inr n" "os_Lstat (abs_path q) s = Inr n"
  using at_path_at [OF assms] by (simp_all add: os_Stat_def os_Lstat_def)

lemma Stat_free:
  assumes "quiet s" "plain_path q" "node_at (fs_root s) q = None" "parent_dir (fs_root s) q"
  shows "os_Stat (abs_path q) s = Inl ENOENT" "os_Lstat (abs_path q) s = Inl ENOENT"
  using at_path_free [OF assms] by (simp_all add: os_Stat_def os_Lstat_def)

lemma ReadDir_at:
  assumes "quiet s" "plain_path q" "node_at (fs_root s) q = Some (Dir m ch)"
  shows "os_ReadDir (abs_path q) s = Inr ch"
  using at_path_at [OF assms, of True] by (simp add: os_ReadDir_def)

lemma make_free:
  assumes "quiet s" "plain_path q" "node_at (fs_root s) q = None" "parent_dir (fs_root s) q"
  shows "make op n (abs_path q) s = (None, on_root (alter q (\<lambda>_. Some n)) s)"
  using phys_at [OF assms(1,2,4), of False] assms by (simp add: make_def)

lemma change_at:
  assumes "quiet s" "plain_path q" "node_at (fs_root s) q = Some n" "fl \<longrightarrow> \<not> is_link n"
  shows "change fl op f (abs_path q) s = (None, on_root (alter q (\<lambda>_. Some (set_meta f n))) s)"
proof -
  have "alter q (map_option (set_meta f)) (fs_root s) = alter q (\<lambda>_. Some (set_meta f n)) (fs_root s)"
    using assms(3) parent_dirI [OF assms(3)] by (intro alter_cong_at) auto
  then show ?thesis using at_path_at [OF assms] by (simp add: change_def on_root_def)
qed

lemma OpenCreate_free:
  assumes "quiet s" "plain_path q" "node_at (fs_root s) q = None" "parent_dir (fs_root s) q"
  shows "os_OpenCreate trunc (abs_path q) s
    = (Inr q, on_root (alter q (\<lambda>_. Some (File (fresh_meta s 438) []))) s)"
  using phys_at [OF assms(1,2,4), of True] assms by (simp add: os_OpenCreate_def)

lemma segs_of_abs: "plain_path q \<Longrightarrow> segs_of (abs_path q) = q"
  using split_abs_path [of q] by (auto simp: segs_of_def plain_path_def plain_seg_def intro: filter_True)

lemma mkdirs_free:
  assumes "quiet s" "plain_path (q @ [x])" "node_at (fs_root s) (q @ [x]) = None" "node_at (fs_root s) q = Some (Dir m ch)"
  shows "os_MkdirAll (abs_path (q @ [x])) perm s
    = (None, on_root (alter (q @ [x]) (\<lambda>_. Some (Dir (fresh_meta s perm) []))) s)"
proof -
  have par: "parent_dir (fs_root s) (q @ [x])" using assms(4) by (simp add: parent_dir_def)
  have st: "os_Stat (abs_path (q @ [x])) s = Inl ENOENT" by (rule Stat_free(1) [OF assms(1,2,3) par])
  have up: "mkdirs perm (rev q) s = (None, s)"
  proof (cases "rev q")
    case (Cons y ys)
    have "plain_path q" using assms(2) by simp
    from Stat_at(1) [OF assms(1) this assms(4)] Cons show ?thesis
      by (simp add: Let_def rev_swap)
  qed simp
  have mk: "os_Mkdir (abs_path (q @ [x])) perm s
      = (None, on_root (alter (q @ [x]) (\<lambda>_. Some (Dir (fresh_meta s perm) []))) s)"
    using make_free [OF assms(1,2,3) par] by (simp add: os_Mkdir_def)
  have "abs_path (q @ [x]) \<noteq> []" by (simp add: abs_path_def)
  then show ?thesis
    using st up mk by (simp add: os_MkdirAll_def segs_of_abs [OF assms(2)] Let_def)
qed

lemma mkdirs_exists:
  assumes "quiet s" "plain_path q" "node_at (fs_root s) q = Some (Dir m ch)"
  shows "os_MkdirAll (abs_path q) perm s = (None, s)"
proof (cases q rule: rev_cases)
  case Nil
  then show ?thesis by (simp add: os_MkdirAll_def segs_of_def abs_path_def)
next
  case (snoc p x)
  have "os_Stat (abs_path q) s = Inr (Dir m ch)" by (rule Stat_at(1) [OF assms]) simp
  moreover have "abs_path q \<noteq> []" by (simp add: abs_path_def)
  ultimately show ?thesis
    using snoc assms(2) by (simp add: os_MkdirAll_def segs_of_abs Let_def)
qed

section \<open>A copied directory is a replica\<close>

fun replica :: "fsys \<Rightarrow> node \<Rightarrow> node"
  and replicas :: "fsys \<Rightarrow> (string \<times> node) list \<Rightarrow> (string \<times> node) list" where
  "replica s (File m c) = File \<lparr>n_mode = n_mode m, n_mtime = n_mtime m, n_uid = fs_uid s, n_gid = fs_gid s\<rparr> c"
| "replica s (Link m tgt) = Link (fresh_meta s 511) tgt"
| "replica s (Dir m ch) = Dir ((fresh_meta s 493)\<lparr>n_mtime := n_mtime m\<rparr>) (replicas s ch)"
| "replicas s [] = []"
| "replicas s ((k, c) # ch) = (k, replica s c) # replicas s ch"

fun ndepth :: "node \<Rightarrow> nat"
  and ndepths :: "(string \<times> node) list \<Rightarrow> nat" where
  "ndepth (Dir m ch) = Suc (ndepths ch)"
| "ndepth n = 0"
| "ndepths [] = 0"
| "ndepths ((k, c) # ch) = max (ndepth c) (ndepths ch)"

fun tidy :: "node \<Rightarrow> bool"
  and tidies :: "(string \<times> node) list \<Rightarrow> bool" where
  "tidy (Dir m ch) = (sorted_wrt (<) (map fst ch) \<and> tidies ch)"
| "tidy n = True"
| "tidies [] = True"
| "tidies ((k, c) # ch) = (plain_seg k \<and> tidy c \<and> tidies ch)"

lemma fresh_meta_root [simp]: "fresh_meta (on_root f s) = fresh_meta s" "fresh_meta (s\<lparr>fs_ctx := x\<rparr>) = fresh_meta s"
  by (simp_all add: fresh_meta_def fun_eq_iff)

lemma replica_root [simp]: "replica (on_root f s) n = replica s n" "replicas (on_root f s) ch = replicas s ch"
  by (induction n and ch rule: tidy_tidies.induct) auto

lemma replicas_append [simp]: "replicas s (xs @ ys) = replicas s xs @ replicas s ys"
  by (induction xs) auto

lemma map_fst_replicas [simp]: "map fst (replicas s ch) = map fst ch"
  by (induction ch) auto

lemma ins_child_last: "sorted_wrt (<) (map fst ch @ [x]) \<Longrightarrow> ins_child x n ch = ch @ [(x, n)]"
proof (induction ch)
  case (Cons a ch)
  then show ?case by (cases a) (auto dest: order.asym)
qed simp

lemma Copy_whole: "Copy False None c = (c, None, None)"
proof (induction "length c" arbitrary: c rule: less_induct)
  case less
  then show ?case
    by (subst Copy.simps) simp
qed

lemma on_alter_update:
  assumes "parent_dir (fs_root s) q" "f (Some n) = Some n'"
  shows "on_root (alter q f) (on_root (alter q (\<lambda>_. Some n)) s) = on_root (alter q (\<lambda>_. Some n')) s"
  using alter_update [where f = f, OF assms] by (simp add: on_root_def)

lemma ctx_same: "fs_ctx s = x \<Longrightarrow> s\<lparr>fs_ctx := x\<rparr> = s"
  by (cases s) simp

lemma file_free_parallel:
  assumes "node_at t p = Some n" "\<not> is_dir n" "node_at t q = None" "parent_dir t q"
  shows "\<not> prefix p q" "\<not> prefix q p"
proof -
  show "\<not> prefix q p"
    using assms(1,3) by (auto simp: prefix_def node_at_append)
  show "\<not> prefix p q"
  proof
    assume "prefix p q"
    then obtain r where r: "q = p @ r" by (auto simp: prefix_def)
    with assms(1,3) have "r \<noteq> []" by auto
    then obtain r' x where r': "r = r' @ [x]" by (metis append_butlast_last_id)
    with r have "butlast q = p @ r'" by (simp add: butlast_append)
    moreover have "q \<noteq> []" using r r' by simp
    ultimately obtain m ch where d: "node_at t (p @ r') = Some (Dir m ch)"
      using assms(4) by (auto simp: parent_dir_def)
    show False
    proof (cases "r' = []")
      case True
      with d assms(1,2) show False by auto
    next
      case False
      from node_at_prefix_dir [OF d this] assms(1,2) show False by auto
    qed
  qed
qed

lemma CopyFile_replica:
  assumes "quiet s" "fs_ctx s = None" "plain_path p" "node_at (fs_root s) p = Some (File m c)"
    and "plain_path q" "node_at (fs_root s) q = None" "parent_dir (fs_root s) q"
  shows "CopyFileWithContext (abs_path p) (abs_path q) s
    = (None, on_root (alter q (\<lambda>_. Some (replica s (File m c)))) s)"
proof -
  define st where "st n = on_root (alter q (\<lambda>_. Some n)) s" for n
  have ne: "q \<noteq> []" using assms(6) by auto
  note par = file_free_parallel [OF assms(4) _ assms(6,7), simplified]
  have qu: "quiet (st n)" for n using assms(1) ne by (simp add: st_def)
  have nd: "node_at (fs_root (st n)) q = Some n" for n
    using node_at_alter_new [OF assms(7), of n "[]"] by (simp add: st_def)
  have ch: "change True op f (abs_path q) (st (File m' c')) = (None, st (File (f m') c'))" for op f m' c'
    using change_at [OF qu assms(5) nd, of True "File m' c'" op f]
    by (simp add: st_def on_alter_update [OF assms(7)])
  have up: "on_root (alter q (map_option (set_content t c))) (st (File m' [])) = st (File (m'\<lparr>n_mtime := t\<rparr>) c)"
    for t m' by (simp add: st_def on_alter_update [OF assms(7)])
  have stc: "(st n)\<lparr>fs_ctx := None\<rparr> = st n" for n
    using ctx_same [OF assms(2)] by (simp add: st_def)
  have src: "content_at (st n) p = c" for n
    using assms(4) par by (simp add: st_def content_at_def node_at_alter_parallel)
  have cx: "fs_ctx (st n) = None" "fs_now (st n) = fs_now s" for n
    using assms(2) by (simp_all add: st_def)
  have op: "os_OpenCreate True (abs_path q) s = (Inr q, st (File (fresh_meta s 438) []))"
    using OpenCreate_free [OF assms(1,5,6,7)] by (simp add: st_def)
  have a: "os_Stat (abs_path p) s = Inr (File m c)" "at_path True SOpen (abs_path p) s = Inr (p, File m c)"
    using Stat_at(1) [OF assms(1,3,4)] at_path_at [OF assms(1,3,4)] by simp_all
  show ?thesis
    unfolding CopyFileWithContext_def a op os_Chtimes_def os_Chmod_def
    using qu by (simp add: src cx Copy_whole up stc Let_def andThen_def ch lift_def) (simp add: st_def fresh_meta_def)
qed

lemma CopySymLink_replica:
  assumes "quiet s" "plain_path p" "node_at (fs_root s) p = Some (Link m tgt)"
    and "plain_path q" "node_at (fs_root s) q = None" "parent_dir (fs_root s) q"
  shows "CopySymLinkWithContext (abs_path p) (abs_path q) s
    = (None, on_root (alter q (\<lambda>_. Some (replica s (Link m tgt)))) s)"
  using at_path_at [OF assms(1-3), of False SReadlink] Stat_free(2) [OF assms(1,4-6)]
    make_free [OF assms(1,4-6), of SSymlink "Link (fresh_meta s 511) tgt"]
  by (simp add: CopySymLinkWithContext_def os_Readlink_def os_Symlink_def lift_def)

lemma ReplicateDir_free:
  assumes "quiet s" "plain_path (q @ [x])" "node_at (fs_root s) (q @ [x]) = None" "node_at (fs_root s) q = Some (Dir m ch)"
  shows "ReplicateDir (abs_path (q @ [x])) perm t s
    = (None, on_root (alter (q @ [x]) (\<lambda>_. Some (Dir ((fresh_meta s perm)\<lparr>n_mtime := t\<rparr>) []))) s)"
proof -
  let ?s = "on_root (alter (q @ [x]) (\<lambda>_. Some (Dir (fresh_meta s perm) []))) s"
  have par: "parent_dir (fs_root s) (q @ [x])" using assms(4) by (simp add: parent_dir_def)
  have nd: "node_at (fs_root ?s) (q @ [x]) = Some (Dir (fresh_meta s perm) [])"
    using node_at_alter_new [OF par, of _ "[]"] by simp
  have "quiet ?s" using assms(1) by simp
  from change_at [OF this assms(2) nd, of True SChtimes "n_mtime_update (\<lambda>_. t)"]
  show ?thesis
    using mkdirs_free [OF assms, of perm]
    by (simp add: ReplicateDir_def andThen_def creating_def lift_def os_Chtimes_def on_alter_update [OF par])
qed

lemma tidies_mem: "tidies ch \<Longrightarrow> (x, c) \<in> set ch \<Longrightarrow> plain_seg x \<and> tidy c"
  by (induction ch) auto

lemma ndepths_mem: "(x, c) \<in> set ch \<Longrightarrow> ndepth c \<le> ndepths ch"
  by (induction ch) (auto simp: le_max_iff_disj)

lemma not_prefix_snoc: "\<not> prefix p q \<Longrightarrow> \<not> prefix q p \<Longrightarrow> \<not> prefix (p @ [x]) (q @ [y])"
  by (auto dest: append_prefixD)

lemma copy_entries_one:
  assumes "os_Lstat (path_join src x) s = Inr c"
    and "(case c of
           Dir m ch \<Rightarrow> (case ReplicateDir (path_join dst x) 493 (n_mtime m) s of
              (Some e, s1) \<Rightarrow> Some (Some e, s1) | (None, s1) \<Rightarrow> rec (path_join src x) (path_join dst x) s1)
         | Link m tgt \<Rightarrow> Some (CopySymLinkWithContext (path_join src x) (path_join dst x) s)
         | File m d \<Rightarrow> Some (CopyFileWithContext (path_join src x) (path_join dst x) s)) = Some (None, s')"
  shows "copy_entries rec src dst (x # xs) s = copy_entries rec src dst xs s'"
  using assms by (simp add: Let_def)

lemma CopyDir_replica:
  assumes "quiet s" "fs_ctx s = None" "plain_path p" "node_at (fs_root s) p = Some (Dir m ch)" "tidy (Dir m ch)"
    and "plain_path q" "q \<noteq> []" "parent_dir (fs_root s) q" "\<not> prefix p q" "\<not> prefix q p" "ndepths ch < k"
  shows "CopyDirWithContext k (abs_path p) (abs_path q) (on_root (alter q (\<lambda>_. Some (Dir mq []))) s)
    = Some (None, on_root (alter q (\<lambda>_. Some (Dir mq (replicas s ch)))) s)"
  using assms
proof (induction k arbitrary: s p m ch q mq)
  case (Suc k)
  define st where "st xs = on_root (alter q (\<lambda>_. Some (Dir mq (replicas s xs)))) s" for xs
  have qu: "quiet (st xs)" for xs using Suc.prems(1,7) by (simp add: st_def)
  have cx: "fs_ctx (st xs) = None" for xs using Suc.prems(2) by (simp add: st_def)
  have srcn: "node_at (fs_root (st xs)) (p @ r) = node_at (Dir m ch) r" for xs r
    using Suc.prems(4,9,10) by (simp add: st_def node_at_append node_at_alter_parallel)
  have dstn: "node_at (fs_root (st xs)) (q @ r) = node_at (Dir mq (replicas s xs)) r" for xs r
    using node_at_alter_new [OF Suc.prems(8)] by (simp add: st_def)
  have ext: "on_root (alter (q @ [x]) (\<lambda>_. Some (replica s c))) (st xs) = st (xs @ [(x, c)])"
    if "sorted_wrt (<) (map fst xs @ [x])" for x c xs
    using alter_alter_below [OF Suc.prems(8), of "[x]" "\<lambda>_. Some (replica s c)"] that
    by (simp add: st_def on_root_def ins_child_last)
  have rep: "replica (st xs) c = replica s c" "replicas (st xs) d = replicas s d" "fresh_meta (st xs) = fresh_meta s"
      "fs_uid (st xs) = fs_uid s" "fs_gid (st xs) = fs_gid s" for xs c d
    by (simp_all add: st_def)
  have step: "copy_entries (CopyDirWithContext k) (abs_path p) (abs_path q) (map fst ys) (st xs) = Some (None, st ch)"
    if "ch = xs @ ys" for xs ys using that
  proof (induction ys arbitrary: xs)
    case (Cons y ys)
    obtain x c where y: "y = (x, c)" by force
    with Cons.prems have mem: "(x, c) \<in> set ch" by simp
    with Suc.prems(5) have pl: "plain_seg x" "tidy c" using tidies_mem by auto
    have sc: "sorted_wrt (<) (map fst ch)" using Suc.prems(5) by simp
    then have di: "distinct (map fst ch)" by (simp add: strict_sorted_iff)
    have so: "sorted_wrt (<) (map fst xs @ [x])"
      using sc unfolding Cons.prems y by (simp add: sorted_wrt_append)
    have jo: "path_join (abs_path p) x = abs_path (p @ [x])" "path_join (abs_path q) x = abs_path (q @ [x])"
      using Suc.prems(3,6) pl(1) path_join_abs by (simp_all add: plain_path_def)
    have at: "node_at (fs_root (st xs)) (p @ [x]) = Some c"
      using srcn [of xs "[x]"] mem di by simp
    have "x \<notin> set (map fst xs)" using so by (auto simp: sorted_wrt_append)
    then have "x \<notin> set (map fst (replicas s xs))" by (simp only: map_fst_replicas not_False_eq_True)
    then have "map_of (replicas s xs) x = None" by (simp only: map_of_eq_None_iff list.set_map not_False_eq_True)
    then have free: "node_at (fs_root (st xs)) (q @ [x]) = None"
      using dstn [of xs "[x]"] by simp
    have dq: "node_at (fs_root (st xs)) q = Some (Dir mq (replicas s xs))" using dstn [of xs "[]"] by simp
    then have par: "parent_dir (fs_root (st xs)) (q @ [x])" by (simp add: parent_dir_def)
    have plp: "plain_path (p @ [x])" "plain_path (q @ [x])" using Suc.prems(3,6) pl(1) by simp_all
    have nx: "(case c of
           Dir m ch \<Rightarrow> (case ReplicateDir (abs_path (q @ [x])) 493 (n_mtime m) (st xs) of
              (Some e, s1) \<Rightarrow> Some (Some e, s1) | (None, s1) \<Rightarrow> CopyDirWithContext k (abs_path (p @ [x])) (abs_path (q @ [x])) s1)
         | Link m tgt \<Rightarrow> Some (CopySymLinkWithContext (abs_path (p @ [x])) (abs_path (q @ [x])) (st xs))
         | File m d \<Rightarrow> Some (CopyFileWithContext (abs_path (p @ [x])) (abs_path (q @ [x])) (st xs))) = Some (None, st (xs @ [(x, c)]))"
    proof (cases c)
      case (File m' d)
      with CopyFile_replica [OF qu cx plp(1) at [unfolded File] plp(2) free par] ext [OF so, of c]
      show ?thesis by (simp add: rep)
    next
      case (Link m' tgt)
      with CopySymLink_replica [OF qu plp(1) at [unfolded Link] plp(2) free par] ext [OF so, of c]
      show ?thesis by (simp add: rep)
    next
      case (Dir m' ch')
      have lt: "ndepths ch' < k" using ndepths_mem [OF mem] Dir Suc.prems(11) by simp
      have td: "tidy (Dir m' ch')" using pl(2) Dir by simp
      from Suc.IH [OF qu cx plp(1) at [unfolded Dir] td plp(2) _ par
          not_prefix_snoc [OF Suc.prems(9,10)] not_prefix_snoc [OF Suc.prems(10,9)] lt, of "(fresh_meta s 493)\<lparr>n_mtime := n_mtime m'\<rparr>"]
      show ?thesis
        using ReplicateDir_free [OF qu plp(2) free dq, of 493 "n_mtime m'"] ext [OF so, of c] Dir
        by (simp add: rep)
    qed
    have "os_Lstat (path_join (abs_path p) x) (st xs) = Inr c"
      unfolding jo by (rule Stat_at(2) [OF qu plp(1) at])
    moreover note nx
    ultimately have "copy_entries (CopyDirWithContext k) (abs_path p) (abs_path q) (x # map fst ys) (st xs)
        = copy_entries (CopyDirWithContext k) (abs_path p) (abs_path q) (map fst ys) (st (xs @ [(x, c)]))"
      by (intro copy_entries_one [of _ _ _ c]) (simp_all only: jo)
    with Cons.IH [of "xs @ [(x, c)]"] Cons.prems y show ?case by simp
  qed simp
  have "os_ReadDir (abs_path p) (st []) = Inr ch"
    using ReadDir_at [OF qu Suc.prems(3)] srcn [of "[]" "[]"] by simp
  with step [of "[]" ch] show ?case by (simp add: st_def)
qed simp

lemma node_at_replica:
  "node_at (replica s n) r = map_option (replica s) (node_at n r)"
proof (induction n r rule: node_at.induct)
  case (2 m ch x r)
  have "map_of (replicas s ch) x = map_option (replica s) (map_of ch x)"
    by (induction ch) auto
  with 2 show ?case by (auto split: option.splits)
qed auto

lemma abs_path_child: "q \<noteq> [] \<Longrightarrow> abs_path q @ ''/'' @ x = abs_path (q @ [x])"
  by (simp add: abs_path_snoc)

lemma split_file_abs:
  assumes "plain_path (q @ [x])"
  shows "split_file (abs_path (q @ [x])) = x"
  using split_abs_path [of "q @ [x]"] assms by (simp add: split_file_def plain_path_def)

lemma todo_at:
  assumes "f (s\<lparr>fs_ctx := None\<rparr>) = (e, on_root g (s\<lparr>fs_ctx := None\<rparr>))"
  shows "todo f s = (e, on_root g s)"
  using assms by (simp add: todo_def)

lemma todo_run_at:
  assumes "f (s\<lparr>fs_ctx := None\<rparr>) = Some (e, on_root g (s\<lparr>fs_ctx := None\<rparr>))"
  shows "todo_run f s = Some (e, on_root g s)"
  using assms by (simp add: todo_run_def)

lemma EnsureDir_free:
  assumes "quiet s" "plain_path (q @ [x])" "node_at (fs_root s) (q @ [x]) = None" "node_at (fs_root s) q = Some (Dir m ch)"
  shows "EnsureDir (abs_path (q @ [x])) s
    = (None, on_root (alter (q @ [x]) (\<lambda>_. Some (Dir (fresh_meta s 511) []))) s)"
  using mkdirs_free [OF assms, of 511] by (simp add: EnsureDir_def)

lemma Copy2Dir_replica:
  assumes "quiet s" "plain_path (p @ [x])" "node_at (fs_root s) (p @ [x]) = Some (Dir m ch)" "tidy (Dir m ch)"
    and "plain_path d" "node_at (fs_root s) d = Some (Dir md cd)" "map_of cd x = None" "\<not> prefix (p @ [x]) d"
    and "ndepths ch < k"
  shows "Copy2Dir k (abs_path (p @ [x])) (abs_path d) False s
    = Some (None, on_root (alter (d @ [x]) (\<lambda>_. Some (Dir (fresh_meta s 511) (replicas s ch)))) s)"
proof -
  let ?s = "s\<lparr>fs_ctx := None\<rparr>"
  have qu: "quiet ?s" and rt: "fs_root ?s = fs_root s" using assms(1) by simp_all
  have fr: "node_at (fs_root ?s) (d @ [x]) = None" using assms(6,7) by (simp add: node_at_append)
  have par: "parent_dir (fs_root ?s) (d @ [x])" using assms(6) by (simp add: parent_dir_def)
  have pl: "plain_path (d @ [x])" using assms(2,5) by simp
  have "\<not> prefix (d @ [x]) (p @ [x])"
  proof
    assume "prefix (d @ [x]) (p @ [x])"
    then obtain z where z: "p @ [x] = (d @ [x]) @ z" by (auto simp: prefix_def)
    have "node_at (fs_root s) ((d @ [x]) @ z) = None"
      using fr node_at_append [of "fs_root s" "d @ [x]" z] by simp
    with assms(3) z show False by simp
  qed
  moreover have "\<not> prefix (p @ [x]) (d @ [x])"
    using assms(3,8) fr by (auto dest: append_prefixD)
  ultimately have copy: "CopyDirWithContext k (abs_path (p @ [x])) (abs_path (d @ [x]))
      (on_root (alter (d @ [x]) (\<lambda>_. Some (Dir (fresh_meta s 511) []))) ?s)
    = Some (None, on_root (alter (d @ [x]) (\<lambda>_. Some (Dir (fresh_meta s 511) (replicas ?s ch)))) ?s)"
    using CopyDir_replica [of ?s "p @ [x]" m ch "d @ [x]" k "fresh_meta s 511"] qu assms(2-4,9) pl par by simp
  have "replicas ?s ch = replicas s ch"
    by (induction s ch rule: replica_replicas.induct(2) [where P = "\<lambda>s n. replica (s\<lparr>fs_ctx := None\<rparr>) n = replica s n"]) simp_all
  moreover have "EnsureDir (abs_path (d @ [x])) ?s = (None, on_root (alter (d @ [x]) (\<lambda>_. Some (Dir (fresh_meta s 511) []))) ?s)"
    using EnsureDir_free [OF qu pl fr, of md cd] assms(6) by simp
  moreover have "os_Stat (abs_path (p @ [x])) ?s = Inr (Dir m ch)" "os_Stat (abs_path d) ?s = Inr (Dir md cd)"
    using Stat_at(1) [OF qu assms(2), of "Dir m ch"] Stat_at(1) [OF qu assms(5), of "Dir md cd"] assms(3,6) by simp_all
  moreover have "path_join (abs_path d) (split_file (abs_path (p @ [x]))) = abs_path (d @ [x])"
    using assms(2,5) by (simp add: split_file_abs) (simp add: path_join_abs plain_path_def)
  ultimately have "Copy2DirWithContext k (abs_path (p @ [x])) (abs_path d) False ?s
    = Some (None, on_root (alter (d @ [x]) (\<lambda>_. Some (Dir (fresh_meta s 511) (replicas s ch)))) ?s)"
    using copy by (simp add: Copy2DirWithContext_def Let_def)
  then show ?thesis unfolding Copy2Dir_def by (rule todo_run_at)
qed

text \<open>C7: a directory copied below another one is a replica: every file is there with its bytes, its mode and its
  modification time, nothing else is, and the rest of the file system is as before. The fuel must exceed the
  depth of the directory, and the target must not lie inside the source.
\<close>

theorem copied_directory_faithful:
  assumes "quiet s" "plain_path (p @ [x])" "node_at (fs_root s) (p @ [x]) = Some (Dir m ch)" "tidy (Dir m ch)"
    and "plain_path d" "node_at (fs_root s) d = Some (Dir md cd)" "map_of cd x = None" "\<not> prefix (p @ [x]) d"
    and "ndepths ch < k"
  shows "\<exists>s'. Copy2Dir k (abs_path (p @ [x])) (abs_path d) False s = Some (None, s')
    \<and> (\<forall>r mf c. node_at (fs_root s) (p @ x # r) = Some (File mf c) \<longrightarrow>
         (\<exists>mf'. node_at (fs_root s') (d @ x # r) = Some (File mf' c) \<and> n_mode mf' = n_mode mf \<and> n_mtime mf' = n_mtime mf))
    \<and> (\<forall>r. node_at (fs_root s') (d @ x # r) = None \<longleftrightarrow> node_at (fs_root s) (p @ x # r) = None)
    \<and> (\<forall>q. \<not> prefix (d @ [x]) q \<and> \<not> prefix q (d @ [x]) \<longrightarrow> node_at (fs_root s') q = node_at (fs_root s) q)"
proof -
  define s' where "s' = on_root (alter (d @ [x]) (\<lambda>_. Some (Dir (fresh_meta s 511) (replicas s ch)))) s"
  have run: "Copy2Dir k (abs_path (p @ [x])) (abs_path d) False s = Some (None, s')"
    unfolding s'_def by (rule Copy2Dir_replica [OF assms])
  have par: "parent_dir (fs_root s) (d @ [x])" using assms(6) by (simp add: parent_dir_def)
  have src: "node_at (fs_root s) (p @ x # r) = node_at (Dir m ch) r" for r
    using node_at_append [of "fs_root s" "p @ [x]" r] assms(3) by simp
  have dst: "node_at (fs_root s') (d @ x # r) = node_at (Dir (fresh_meta s 511) (replicas s ch)) r" for r
    using node_at_alter_new [OF par, of _ r] by (simp add: s'_def)
  have rep: "node_at (Dir (fresh_meta s 511) (replicas s ch)) r = map_option (replica s) (node_at (Dir m ch) r)" if "r \<noteq> []" for r
    using node_at_replica [of s "Dir m ch" r] that by (cases r) auto
  have "node_at (fs_root s') (d @ x # r) = None \<longleftrightarrow> node_at (fs_root s) (p @ x # r) = None" for r
    using rep [of r] by (cases "r = []") (simp_all add: src dst)
  moreover have "\<exists>mf'. node_at (fs_root s') (d @ x # r) = Some (File mf' c) \<and> n_mode mf' = n_mode mf \<and> n_mtime mf' = n_mtime mf"
    if "node_at (fs_root s) (p @ x # r) = Some (File mf c)" for r mf c
    using rep [of r] that by (cases "r = []") (auto simp: src dst)
  moreover have "node_at (fs_root s') q = node_at (fs_root s) q" if "\<not> prefix (d @ [x]) q" "\<not> prefix q (d @ [x])" for q
    using that by (simp add: s'_def node_at_alter_parallel)
  ultimately show ?thesis using run by blast
qed

text \<open>Without the condition on the target the recursion has no end: each level finds the directory just made.\<close>

lemma CopyDir_into_itself:
  assumes "quiet s" "plain_path (p @ [x])" "node_at (fs_root s) p = Some (Dir m [(x, Dir m' [])])"
  shows "CopyDirWithContext k (abs_path p) (abs_path (p @ [x])) s = None"
  using assms
proof (induction k arbitrary: s p m m')
  case (Suc k)
  let ?q = "p @ [x, x]"
  have pl: "plain_path p" "plain_path (?q)" "plain_path (p @ [x])" using Suc.prems(2) by simp_all
  have at: "node_at (fs_root s) (p @ [x]) = Some (Dir m' [])" using Suc.prems(3) by (simp add: node_at_append)
  have fr: "node_at (fs_root s) ((p @ [x]) @ [x]) = None"
    using node_at_append [of "fs_root s" "p @ [x]" "[x]"] at by simp
  have jo: "path_join (abs_path p) x = abs_path (p @ [x])" "path_join (abs_path (p @ [x])) x = abs_path (?q)"
    using pl path_join_abs [of p x] path_join_abs [of "p @ [x]" x] by (auto simp: plain_path_def)
  define s1 where "s1 = on_root (alter (?q) (\<lambda>_. Some (Dir ((fresh_meta s 493)\<lparr>n_mtime := n_mtime m'\<rparr>) []))) s"
  have rd: "ReplicateDir (abs_path (?q)) 493 (n_mtime m') s = (None, s1)"
    using ReplicateDir_free [OF Suc.prems(1), where q = "p @ [x]" and x = x and perm = 493 and t = "n_mtime m'"] pl fr at
    by (simp add: s1_def)
  have "node_at (fs_root s1) (p @ [x]) = map_option (alter [x] (\<lambda>_. Some (Dir ((fresh_meta s 493)\<lparr>n_mtime := n_mtime m'\<rparr>) []))) (node_at (fs_root s) (p @ [x]))"
    using node_at_alter_above [of "p @ [x]" "?q"] by (simp add: s1_def strict_prefix_def prefix_def)
  then have "node_at (fs_root s1) (p @ [x]) = Some (Dir m' [(x, Dir ((fresh_meta s 493)\<lparr>n_mtime := n_mtime m'\<rparr>) [])])"
    using at by simp
  moreover have "quiet s1" using Suc.prems(1) by (simp add: s1_def)
  ultimately have "CopyDirWithContext k (abs_path (p @ [x])) (abs_path (?q)) s1 = None"
    using Suc.IH [of s1 "p @ [x]"] pl by simp
  moreover have "os_Lstat (abs_path (p @ [x])) s = Inr (Dir m' [])" by (rule Stat_at(2) [OF Suc.prems(1) pl(3) at])
  ultimately show ?case
    using ReadDir_at [OF Suc.prems(1) pl(1) Suc.prems(3)] rd jo by (simp add: Let_def)
qed simp

text \<open>Copying a file into the directory it is in empties it: the target is the file itself, which is truncated
  before it is read, and the call reports success.
\<close>

theorem copy_onto_itself_empties:
  assumes "quiet s" "p \<noteq> []" "plain_path (p @ [x])" "node_at (fs_root s) (p @ [x]) = Some (File m c)"
  shows "\<exists>s' m'. Copy2Dir k (abs_path (p @ [x])) (abs_path p) ex s = Some (None, s')
    \<and> node_at (fs_root s') (p @ [x]) = Some (File m' [])"
proof -
  let ?s = "s\<lparr>fs_ctx := None\<rparr>"
  define st where "st n = on_root (alter (p @ [x]) (\<lambda>_. Some n)) ?s" for n
  have qu0: "quiet ?s" and at: "node_at (fs_root ?s) (p @ [x]) = Some (File m c)" using assms by simp_all
  then have par: "parent_dir (fs_root ?s) (p @ [x])" by (intro parent_dirI)
  obtain mp chp where dp: "node_at (fs_root s) p = Some (Dir mp chp)"
    using node_at_snoc_dir [OF assms(4)] by blast
  have qu: "quiet (st n)" for n using qu0 by (simp add: st_def)
  have nd: "node_at (fs_root (st n)) (p @ [x]) = Some n" for n
    using node_at_alter_new [OF par, of n "[]"] by (simp add: st_def)
  have ch: "change True op f (abs_path (p @ [x])) (st (File m' c')) = (None, st (File (f m') c'))" for op f m' c'
    using change_at [OF qu assms(3) nd, of True "File m' c'" op f] by (simp add: st_def on_alter_update [OF par])
  have up: "on_root (alter (p @ [x]) (map_option (set_content t []))) (st (File m' [])) = st (File (m'\<lparr>n_mtime := t\<rparr>) [])"
    for t m' by (simp add: st_def on_alter_update [OF par])
  have ph: "phys True ?s (abs_path (p @ [x])) = Inr (p @ [x])"
    using phys_at [OF qu0 assms(3) par, of True] at by simp
  then have op: "os_OpenCreate True (abs_path (p @ [x])) ?s = (Inr (p @ [x]), st (File (m\<lparr>n_mtime := fs_now s\<rparr>) []))"
    using at qu0 by (simp add: os_OpenCreate_def st_def)
  have a: "os_Stat (abs_path (p @ [x])) ?s = Inr (File m c)" "os_Stat (abs_path p) ?s = Inr (Dir mp chp)"
    "at_path True SOpen (abs_path (p @ [x])) ?s = Inr (p @ [x], File m c)"
    using Stat_at(1) [OF qu0 assms(3) at] Stat_at(1) [OF qu0 _, of p "Dir mp chp"] dp assms(3) at_path_at [OF qu0 assms(3) at]
    by simp_all
  have src: "content_at (st (File m' [])) (p @ [x]) = []" for m' using nd by (simp add: content_at_def)
  have cx: "fs_ctx (st n) = None" "(st n)\<lparr>fs_ctx := None\<rparr> = st n" "fs_now (st n) = fs_now s" for n
    by (simp_all add: st_def)
  have "\<exists>m'. CopyFileWithContext (abs_path (p @ [x])) (abs_path (p @ [x])) ?s = (None, st (File m' []))"
    unfolding CopyFileWithContext_def a op os_Chtimes_def os_Chmod_def
    using qu by (simp add: src cx Copy_whole up Let_def andThen_def ch lift_def) blast
  then obtain m' where cf: "CopyFileWithContext (abs_path (p @ [x])) (abs_path (p @ [x])) ?s = (None, st (File m' []))" by blast
  have "abs_path p @ ''/'' @ split_file (abs_path (p @ [x])) = abs_path (p @ [x])"
    using abs_path_child [OF assms(2)] split_file_abs [OF assms(3)] by simp
  with cf a have "Copy2DirWithContext k (abs_path (p @ [x])) (abs_path p) ex ?s = Some (None, st (File m' []))"
    by (simp add: Copy2DirWithContext_def)
  then have "Copy2Dir k (abs_path (p @ [x])) (abs_path p) ex s = Some (None, on_root (alter (p @ [x]) (\<lambda>_. Some (File m' []))) s)"
    unfolding Copy2Dir_def st_def by (rule todo_run_at)
  moreover have "node_at (fs_root (on_root (alter (p @ [x]) (\<lambda>_. Some (File m' []))) s)) (p @ [x]) = Some (File m' [])"
    using nd by (simp add: st_def)
  ultimately show ?thesis by blast
qed

section \<open>Moving a subtree\<close>

lemma rename_at:
  assumes "quiet s" "plain_path qs" "node_at (fs_root s) qs = Some n" "qs \<noteq> []"
    and "plain_path qd" "node_at (fs_root s) qd = None" "parent_dir (fs_root s) qd" "\<not> prefix qs qd"
  shows "os_Rename (abs_path qs) (abs_path qd) s
    = (None, on_root (\<lambda>t. alter qd (\<lambda>_. Some n) (alter qs (\<lambda>_. None) t)) s)"
proof -
  have "qd \<noteq> []" "qs \<noteq> qd" using assms(3,6) by auto
  then show ?thesis
    using at_path_free [OF assms(1,5-7)] at_path_at [OF assms(1-3), of False] phys_at [OF assms(1,5,7), of False] assms(1,4,6,8)
    by (simp add: os_Rename_def sys_rename_def)
qed

lemma rename_places:
  assumes "quiet s" "node_at (fs_root s) qs = Some n" "qs \<noteq> []"
    and "node_at (fs_root s) qd = None" "parent_dir (fs_root s) qd" "\<not> prefix qs qd"
    and s': "s' = on_root (\<lambda>t. alter qd (\<lambda>_. Some n) (alter qs (\<lambda>_. None) t)) s"
  shows "node_at (fs_root s') (qd @ r) = node_at (fs_root s) (qs @ r)"
    and "node_at (fs_root s') (qs @ r) = None"
    and "\<not> prefix qs q \<Longrightarrow> \<not> prefix q qs \<Longrightarrow> \<not> prefix qd q \<Longrightarrow> \<not> prefix q qd \<Longrightarrow>
      node_at (fs_root s') q = node_at (fs_root s) q"
proof -
  let ?t = "alter qs (\<lambda>_. None) (fs_root s)"
  have rt: "fs_root s' = alter qd (\<lambda>_. Some n) ?t" by (simp add: s')
  have nq: "\<not> prefix qd qs"
    using assms(2,4) by (auto simp: prefix_def node_at_append)
  have "\<not> prefix qs (butlast qd)"
    using assms(6) by (metis prefixeq_butlast prefix_order.trans)
  then have par: "parent_dir ?t qd" by (rule parent_dir_alter [OF assms(5)])
  have qsn: "node_at ?t (qs @ r) = None" for r
  proof -
    from assms(2,3) obtain p x where q: "qs = p @ [x]" by (metis append_butlast_last_id)
    with assms(2) obtain m ch where "node_at (fs_root s) (butlast qs) = Some (Dir m ch)"
      using node_at_snoc_dir by (metis butlast_snoc)
    from node_at_alter_below [OF assms(3) this] show ?thesis by simp
  qed
  show "node_at (fs_root s') (qd @ r) = node_at (fs_root s) (qs @ r)"
    using node_at_alter_new [OF par] assms(2) by (simp add: rt node_at_append)
  have "node_at (fs_root s') qs = None"
    using nq assms(6) qsn [of "[]"] by (simp add: rt node_at_alter_parallel)
  then show "node_at (fs_root s') (qs @ r) = None" by (simp add: node_at_append)
  assume "\<not> prefix qs q" "\<not> prefix q qs" "\<not> prefix qd q" "\<not> prefix q qd"
  then show "node_at (fs_root s') q = node_at (fs_root s) q"
    by (simp add: rt node_at_alter_parallel)
qed

text \<open>Moving a file or a directory into a directory that has no entry of its name takes the whole subtree there
  as it is: each place below the source is found below the target, nothing is left of the source, and places
  beside the two do not change.
\<close>

theorem Move2Dir_moves:
  assumes "quiet s" "plain_path (p @ [x])" "node_at (fs_root s) (p @ [x]) = Some n" "\<not> is_link n"
    and "plain_path d" "node_at (fs_root s) d = Some (Dir md cd)" "map_of cd x = None" "\<not> prefix (p @ [x]) d"
  shows "\<exists>s'. Move2Dir (abs_path (p @ [x])) (abs_path d) False s = (None, s')
    \<and> (\<forall>r. node_at (fs_root s') (d @ x # r) = node_at (fs_root s) (p @ x # r))
    \<and> (\<forall>r. node_at (fs_root s') (p @ x # r) = None)
    \<and> (\<forall>q. \<not> prefix (p @ [x]) q \<and> \<not> prefix q (p @ [x]) \<and> \<not> prefix (d @ [x]) q \<and> \<not> prefix q (d @ [x])
         \<longrightarrow> node_at (fs_root s') q = node_at (fs_root s) q)"
proof -
  define s' where "s' = on_root (\<lambda>t. alter (d @ [x]) (\<lambda>_. Some n) (alter (p @ [x]) (\<lambda>_. None) t)) s"
  have fr: "node_at (fs_root s) (d @ [x]) = None" using assms(6,7) by (simp add: node_at_append)
  have par: "parent_dir (fs_root s) (d @ [x])" using assms(6) by (simp add: parent_dir_def)
  have pl: "plain_path (d @ [x])" using assms(2,5) by simp
  have np: "\<not> prefix (p @ [x]) (d @ [x])" using assms(3,8) fr by auto
  have "os_Rename (abs_path (p @ [x])) (abs_path (d @ [x])) s = (None, s')"
    unfolding s'_def by (rule rename_at [OF assms(1-3) _ pl fr par np]) simp
  moreover have "path_join (abs_path d) (split_file (abs_path (p @ [x]))) = abs_path (d @ [x])"
    using assms(2,5) by (simp add: split_file_abs) (simp add: path_join_abs plain_path_def)
  ultimately have "Move2Dir (abs_path (p @ [x])) (abs_path d) False s = (None, s')"
    using Stat_at(1) [OF assms(1-4)] Stat_at(1) [OF assms(1,5,6)] by (simp add: Move2Dir_def lift_def)
  then show ?thesis
    using rename_places [OF assms(1,3) _ fr par np s'_def] by auto
qed

text \<open>
  A directory can never be moved onto an existing directory: Go's \<open>Rename\<close> refuses a target that is a directory,
  also an empty one.
\<close>

lemma Move2Dir_exclude_fails:
  assumes "quiet s" "plain_path p" "node_at (fs_root s) p = Some (Dir m ch)"
    and "plain_path d" "node_at (fs_root s) d = Some (Dir md cd)"
  shows "Move2Dir (abs_path p) (abs_path d) True s = (Some (OS EEXIST), s)"
  using Stat_at(1) [OF assms(1-3)] Stat_at(1) [OF assms(1,4,5)] at_path_at [OF assms(1-3), of False] at_path_at [OF assms(1,4,5), of False]
  by (auto simp: Move2Dir_def lift_def os_Rename_def)

section \<open>An example\<close>

definition toy_meta :: meta where
  "toy_meta = \<lparr>n_mode = 420, n_mtime = 5, n_uid = 0, n_gid = 0\<rparr>"

definition toy_fs :: fsys where
  "toy_fs = \<lparr>fs_root = Dir toy_meta
      [(''s'', Dir toy_meta
          [(''a'', Dir toy_meta [(''d'', Dir toy_meta [(''g'', File toy_meta ''xy'')]), (''f'', File toy_meta ''abc''),
                                 (''l'', Link toy_meta ''f'')]),
           (''b'', Dir toy_meta [])])],
     fs_now = 9, fs_umask = id, fs_uid = 0, fs_gid = 0, fs_deny = (\<lambda>_ _. False), fs_ctx = None\<rparr>"

lemma toy_fs_quiet: "quiet toy_fs"
  by (simp add: toy_fs_def quiet_def)

lemma toy_a:
  "\<exists>m ch. node_at (fs_root toy_fs) [''s'', ''a''] = Some (Dir m ch) \<and> tidy (Dir m ch) \<and> ndepths ch < 3"
  "node_at (fs_root toy_fs) [''s'', ''b''] = Some (Dir toy_meta [])"
  "node_at (fs_root toy_fs) [''s'', ''a'', ''f''] = Some (File toy_meta ''abc'')"
  by (simp_all add: toy_fs_def plain_seg_def)

theorem copied_directory_faithful_witness:
  "\<exists>s' m. Copy2Dir 3 ''/s/a'' ''/s/b'' False toy_fs = Some (None, s')
    \<and> node_at (fs_root s') [''s'', ''b'', ''a'', ''f''] = Some (File m ''abc'') \<and> n_mtime m = 5"
proof -
  from toy_a(1) obtain m ch where a: "node_at (fs_root toy_fs) ([''s''] @ [''a'']) = Some (Dir m ch)" "tidy (Dir m ch)" "ndepths ch < 3"
    by auto
  have pl: "plain_path ([''s''] @ [''a''])" "plain_path [''s'', ''b'']" by (simp_all add: plain_seg_def)
  from copied_directory_faithful [OF toy_fs_quiet pl(1) a(1,2) pl(2) toy_a(2) _ _ a(3)] obtain s' where s':
    "Copy2Dir 3 (abs_path ([''s''] @ [''a''])) (abs_path [''s'', ''b'']) False toy_fs = Some (None, s')"
    "\<forall>r mf c. node_at (fs_root toy_fs) ([''s''] @ ''a'' # r) = Some (File mf c) \<longrightarrow>
       (\<exists>mf'. node_at (fs_root s') ([''s'', ''b''] @ ''a'' # r) = Some (File mf' c) \<and> n_mode mf' = n_mode mf \<and> n_mtime mf' = n_mtime mf)"
    by auto
  have "abs_path ([''s''] @ [''a'']) = ''/s/a''" "abs_path [''s'', ''b''] = ''/s/b''" by (simp_all add: abs_path_def)
  moreover have "n_mtime toy_meta = 5" by (simp add: toy_meta_def)
  ultimately show ?thesis
    using s' s'(2) [rule_format, of "[''f'']" toy_meta "''abc''"] toy_a(3) by auto
qed

theorem copy_onto_itself_empties_witness:
  "\<exists>s' m. Copy2Dir 1 ''/s/a/f'' ''/s/a'' False toy_fs = Some (None, s')
    \<and> node_at (fs_root s') [''s'', ''a'', ''f''] = Some (File m [])"
  using copy_onto_itself_empties [OF toy_fs_quiet, of "[''s'', ''a'']" "''f''" toy_meta "''abc''" 1 False] toy_a(3)
  by (simp add: plain_seg_def abs_path_def)

theorem Move2Dir_moves_witness:
  "\<exists>s'. Move2Dir ''/s/a/f'' ''/s/b'' False toy_fs = (None, s')
    \<and> node_at (fs_root s') [''s'', ''b'', ''f''] = Some (File toy_meta ''abc'')
    \<and> node_at (fs_root s') [''s'', ''a'', ''f''] = None"
  using Move2Dir_moves [OF toy_fs_quiet, of "[''s'', ''a'']" "''f''" "File toy_meta ''abc''" "[''s'', ''b'']"] toy_a(2,3)
  by (fastforce simp: plain_seg_def abs_path_def)

end
