(* ===== verification/Table.thy ===== *)
theory Table
  imports Prelude
begin

text \<open>
  The database of \<open>internal/storage\<close> is reached through gorm and SQLite, which are not part of the
  repository: a table is a parameter, a record of the statements the code issues. Each statement
  may fail (\<open>None\<close>). \<open>table_ok\<close> states what SQL documents of them: a query returns the rows that
  satisfy the condition, an insert adds one row under a fresh primary key unless a unique column
  clashes, an upsert replaces the row with the same conflict column, update and delete touch the
  rows that satisfy the condition. \<open>list_table\<close> is an instance, a list of rows.
\<close>

record ('t, 'r) table_ops =
  t_find :: "('r \<Rightarrow> bool) \<Rightarrow> 't \<Rightarrow> 'r list option"
  t_create :: "'r \<Rightarrow> 't \<Rightarrow> 't option"
  t_upsert :: "('r \<Rightarrow> 'r \<Rightarrow> bool) \<Rightarrow> ('r \<Rightarrow> 'r \<Rightarrow> 'r) \<Rightarrow> 'r \<Rightarrow> 't \<Rightarrow> 't option"
  t_update :: "('r \<Rightarrow> bool) \<Rightarrow> ('r \<Rightarrow> 'r) \<Rightarrow> 't \<Rightarrow> 't option"
  t_delete :: "('r \<Rightarrow> bool) \<Rightarrow> 't \<Rightarrow> 't option"

text \<open>What a row type declares: its primary key and its unique columns.\<close>

record 'r schema =
  s_id :: "'r \<Rightarrow> nat"
  s_set_id :: "nat \<Rightarrow> 'r \<Rightarrow> 'r"
  s_clash :: "'r \<Rightarrow> 'r \<Rightarrow> bool"

definition schema_ok :: "'r schema \<Rightarrow> bool" where
  "schema_ok S \<longleftrightarrow> (\<forall>i r. s_id S (s_set_id S i r) = i)
     \<and> (\<forall>i r x. s_clash S (s_set_id S i r) x = s_clash S r x)
     \<and> (\<forall>r x. s_clash S r x = s_clash S x r)"

definition rows :: "('t, 'r) table_ops \<Rightarrow> 't \<Rightarrow> 'r list" where
  "rows T t = (case t_find T (\<lambda>_. True) t of None \<Rightarrow> [] | Some rs \<Rightarrow> rs)"

definition create_ok :: "('t, 'r) table_ops \<Rightarrow> 'r schema \<Rightarrow> 't \<Rightarrow> 'r \<Rightarrow> 't option \<Rightarrow> bool" where
  "create_ok T S t r res \<longleftrightarrow>
     (if \<exists>x\<in>set (rows T t). s_clash S x r then res = None
      else \<exists>t' i. res = Some t' \<and> rows T t' = rows T t @ [s_set_id S i r]
             \<and> i \<notin> s_id S ` set (rows T t))"

definition upsert_ok :: "('t, 'r) table_ops \<Rightarrow> 'r schema \<Rightarrow> ('r \<Rightarrow> 'r \<Rightarrow> bool) \<Rightarrow> ('r \<Rightarrow> 'r \<Rightarrow> 'r) \<Rightarrow>
    't \<Rightarrow> 'r \<Rightarrow> 't option \<Rightarrow> bool" where
  "upsert_ok T S same f t r res \<longleftrightarrow>
     (if \<exists>x\<in>set (rows T t). same x r
      then if \<exists>x\<in>set (rows T t). same x r \<and> (\<exists>y\<in>set (rows T t). \<not> same y r \<and> s_clash S y (f x r))
           then res = None
           else \<exists>t'. res = Some t' \<and> rows T t' = map (\<lambda>x. if same x r then f x r else x) (rows T t)
      else create_ok T S t r res)"

definition update_ok :: "('t, 'r) table_ops \<Rightarrow> 'r schema \<Rightarrow> ('r \<Rightarrow> bool) \<Rightarrow> ('r \<Rightarrow> 'r) \<Rightarrow> 't \<Rightarrow>
    't option \<Rightarrow> bool" where
  "update_ok T S P f t res \<longleftrightarrow>
     ((\<forall>x y. s_clash S (f x) y = s_clash S x y) \<longrightarrow>
      (\<exists>t'. res = Some t' \<and> rows T t' = map (\<lambda>x. if P x then f x else x) (rows T t)))"

definition delete_ok :: "('t, 'r) table_ops \<Rightarrow> ('r \<Rightarrow> bool) \<Rightarrow> 't \<Rightarrow> 't option \<Rightarrow> bool" where
  "delete_ok T P t res \<longleftrightarrow> (\<exists>t'. res = Some t' \<and> rows T t' = filter (\<lambda>x. \<not> P x) (rows T t))"

definition table_ok :: "('t, 'r) table_ops \<Rightarrow> 'r schema \<Rightarrow> bool" where
  "table_ok T S \<longleftrightarrow>
     (\<forall>P t. t_find T P t = Some (filter P (rows T t)))
     \<and> (\<forall>r t. create_ok T S t r (t_create T r t))
     \<and> (\<forall>same f r t. upsert_ok T S same f t r (t_upsert T same f r t))
     \<and> (\<forall>P f t. update_ok T S P f t (t_update T P f t))
     \<and> (\<forall>P t. delete_ok T P t (t_delete T P t))"

section \<open>The rules the components use\<close>

lemma table_okD:
  assumes "table_ok T S"
  shows "t_find T P t = Some (filter P (rows T t))" "create_ok T S t r (t_create T r t)"
    "upsert_ok T S same f t r (t_upsert T same f r t)" "update_ok T S P g t (t_update T P g t)"
    "delete_ok T P t (t_delete T P t)"
  using assms by (simp_all add: table_ok_def)

lemma t_create_rows: "table_ok T S \<Longrightarrow> \<forall>x\<in>set (rows T t). \<not> s_clash S x r \<Longrightarrow>
    \<exists>t' i. t_create T r t = Some t' \<and> rows T t' = rows T t @ [s_set_id S i r]
      \<and> i \<notin> s_id S ` set (rows T t)"
  using table_okD(2)[of T S t r] by (simp add: create_ok_def)

lemma t_create_Some: "table_ok T S \<Longrightarrow> t_create T r t = Some t' \<Longrightarrow>
    (\<forall>x\<in>set (rows T t). \<not> s_clash S x r)
    \<and> (\<exists>i. rows T t' = rows T t @ [s_set_id S i r] \<and> i \<notin> s_id S ` set (rows T t))"
  using table_okD(2)[of T S t r] by (auto simp: create_ok_def split: if_splits)

lemma t_delete_rows: "table_ok T S \<Longrightarrow>
    \<exists>t'. t_delete T P t = Some t' \<and> rows T t' = filter (\<lambda>x. \<not> P x) (rows T t)"
  using table_okD(5)[of T S P t] by (simp add: delete_ok_def)

lemma t_update_rows: "table_ok T S \<Longrightarrow> (\<And>x y. s_clash S (f x) y = s_clash S x y) \<Longrightarrow>
    \<exists>t'. t_update T P f t = Some t' \<and> rows T t' = map (\<lambda>x. if P x then f x else x) (rows T t)"
  using table_okD(4)[of T S P f t] by (simp add: update_ok_def)

lemma t_upsert_new: "table_ok T S \<Longrightarrow> \<forall>x\<in>set (rows T t). \<not> same x r \<Longrightarrow>
    \<forall>x\<in>set (rows T t). \<not> s_clash S x r \<Longrightarrow>
    \<exists>t' i. t_upsert T same f r t = Some t' \<and> rows T t' = rows T t @ [s_set_id S i r]"
  using table_okD(3)[of T S same f t r] by (auto simp: upsert_ok_def create_ok_def)

lemma t_upsert_old:
  assumes "table_ok T S" "\<exists>x\<in>set (rows T t). same x r"
    and "\<not> (\<exists>x\<in>set (rows T t). same x r \<and> (\<exists>y\<in>set (rows T t). \<not> same y r \<and> s_clash S y (f x r)))"
  shows "\<exists>t'. t_upsert T same f r t = Some t'
    \<and> rows T t' = map (\<lambda>x. if same x r then f x r else x) (rows T t)"
  using table_okD(3)[OF assms(1), of same f t r] assms(2,3) by (simp only: upsert_ok_def if_True if_False)

section \<open>An instance: a list of rows\<close>

definition fresh :: "'r schema \<Rightarrow> 'r list \<Rightarrow> nat" where
  "fresh S rs = Suc (Max (insert 0 (set (map (s_id S) rs))))"

lemma fresh_new: "fresh S rs \<notin> s_id S ` set rs"
proof
  assume "fresh S rs \<in> s_id S ` set rs"
  then have "fresh S rs \<le> Max (insert 0 (set (map (s_id S) rs)))" by (intro Max_ge) auto
  then show False by (simp add: fresh_def)
qed

definition list_create :: "'r schema \<Rightarrow> 'r \<Rightarrow> 'r list \<Rightarrow> 'r list option" where
  "list_create S r rs = (if list_ex (\<lambda>x. s_clash S x r) rs then None
     else Some (rs @ [s_set_id S (fresh S rs) r]))"

definition list_table :: "'r schema \<Rightarrow> ('r list, 'r) table_ops" where
  "list_table S = \<lparr> t_find = (\<lambda>P rs. Some (filter P rs)), t_create = list_create S,
     t_upsert = (\<lambda>same f r rs.
       if list_ex (\<lambda>x. same x r) rs
       then if list_ex (\<lambda>x. same x r \<and> list_ex (\<lambda>y. \<not> same y r \<and> s_clash S y (f x r)) rs) rs then None
            else Some (map (\<lambda>x. if same x r then f x r else x) rs)
       else list_create S r rs),
     t_update = (\<lambda>P f rs. Some (map (\<lambda>x. if P x then f x else x) rs)),
     t_delete = (\<lambda>P rs. Some (filter (\<lambda>x. \<not> P x) rs)) \<rparr>"

lemma rows_list_table [simp]: "rows (list_table S) rs = rs"
  by (simp add: rows_def list_table_def)

lemma list_create_ok: "create_ok (list_table S) S rs r (list_create S r rs)"
  using fresh_new[of S rs] by (auto simp: create_ok_def list_create_def list_ex_iff)


theorem list_table_ok: "table_ok (list_table S) S"
  using list_create_ok[of S]
  by (simp add: table_ok_def upsert_ok_def update_ok_def delete_ok_def list_ex_iff)
    (auto simp: list_table_def list_ex_iff)


section \<open>Unique rows and single-row queries\<close>

definition find1 :: "('t, 'r) table_ops \<Rightarrow> ('r \<Rightarrow> bool) \<Rightarrow> 't \<Rightarrow> 'r option" where
  "find1 T P t = (case t_find T P t of Some (r # _) \<Rightarrow> Some r | _ \<Rightarrow> None)"

definition unique_rows :: "'r schema \<Rightarrow> 'r list \<Rightarrow> bool" where
  "unique_rows S rs \<longleftrightarrow> distinct (map (s_id S) rs) \<and> distinct rs
     \<and> (\<forall>x\<in>set rs. \<forall>y\<in>set rs. s_clash S x y \<longrightarrow> x = y)"

lemma unique_rows_filter: "unique_rows S rs \<Longrightarrow> unique_rows S (filter P rs)"
  by (auto simp: unique_rows_def intro: distinct_map_filter)

lemma distinct_singleton:
  assumes "distinct xs" "set xs = {r}"
  shows "xs = [r]"
proof -
  have "length xs = 1" using distinct_card[OF assms(1)] assms(2) by simp
  then show ?thesis using assms(2) by (cases xs) auto
qed

lemma image_if: "(\<exists>x\<in>A. P x) \<Longrightarrow> (\<lambda>x. if P x then a else g x) ` A = insert a (g ` {x \<in> A. \<not> P x})"
  by auto

lemma find1_unique:
  assumes T: "table_ok T S" and u: "unique_rows S (rows T t)" "r \<in> set (rows T t)" "P r"
    and P: "\<And>x. x \<in> set (rows T t) \<Longrightarrow> P x \<Longrightarrow> s_clash S x r"
  shows "find1 T P t = Some r" "t_find T P t = Some [r]"
proof -
  have all: "\<forall>x\<in>set (filter P (rows T t)). x = r"
  proof
    fix x assume "x \<in> set (filter P (rows T t))"
    then have "x \<in> set (rows T t)" "s_clash S x r" using P by auto
    then show "x = r" using u(1,2) unfolding unique_rows_def by blast
  qed
  have "distinct (filter P (rows T t))" using u(1) by (simp add: unique_rows_def)
  moreover have "set (filter P (rows T t)) = {r}"
  proof -
    have "r \<in> set (filter P (rows T t))" using u(2,3) by simp
    then show ?thesis using all by blast
  qed
  ultimately have "filter P (rows T t) = [r]" by (rule distinct_singleton)
  then show "find1 T P t = Some r" "t_find T P t = Some [r]"
    by (simp_all add: find1_def table_okD(1)[OF T])
qed

lemma find1_None: "table_ok T S \<Longrightarrow> \<forall>x\<in>set (rows T t). \<not> P x \<Longrightarrow> find1 T P t = None"
  by (simp add: find1_def table_okD(1) filter_False)

lemma unique_rows_append:
  assumes "schema_ok S" "unique_rows S rs" "\<forall>x\<in>set rs. \<not> s_clash S x r" "i \<notin> s_id S ` set rs"
  shows "unique_rows S (rs @ [s_set_id S i r])"
proof -
  have "s_set_id S i r \<notin> set rs" using assms(1,4) unfolding schema_ok_def by (metis image_eqI)
  moreover have "\<not> s_clash S x (s_set_id S i r)" "\<not> s_clash S (s_set_id S i r) x" if "x \<in> set rs" for x
  proof -
    have "s_clash S (s_set_id S i r) x = s_clash S r x" "s_clash S r x = s_clash S x r"
      "s_clash S x (s_set_id S i r) = s_clash S (s_set_id S i r) x"
      using assms(1) unfolding schema_ok_def by blast+
    then show "\<not> s_clash S x (s_set_id S i r)" "\<not> s_clash S (s_set_id S i r) x"
      using assms(3) that by blast+
  qed
  moreover have "s_id S (s_set_id S i r) = i" using assms(1) by (simp add: schema_ok_def)
  ultimately show ?thesis using assms(2,4) unfolding unique_rows_def by auto
qed

text \<open>An update that keeps the primary key and the unique columns keeps the rows unique.\<close>

lemma unique_rows_map:
  assumes "unique_rows S rs" "\<And>x. x \<in> set rs \<Longrightarrow> s_id S (f x) = s_id S x"
    and "\<And>x y. x \<in> set rs \<Longrightarrow> y \<in> set rs \<Longrightarrow> s_clash S (f x) (f y) = s_clash S x y"
  shows "unique_rows S (map f rs)"
proof -
  have "map (s_id S) (map f rs) = map (s_id S) rs" using assms(2) by simp
  then have d: "distinct (map (s_id S) (map f rs))" using assms(1) by (metis unique_rows_def)
  then have "distinct (map f rs)" by (metis distinct_map)
  then show ?thesis using assms d unfolding unique_rows_def by auto
qed

lemma find1_Some: "table_ok T S \<Longrightarrow> find1 T P t = Some r \<Longrightarrow> r \<in> set (rows T t) \<and> P r"
  by (auto simp: find1_def table_okD(1) filter_eq_Cons_iff split: option.splits list.splits)

lemma unique_id: "unique_rows S rs \<Longrightarrow> x \<in> set rs \<Longrightarrow> y \<in> set rs \<Longrightarrow> s_id S x = s_id S y \<Longrightarrow> x = y"
  unfolding unique_rows_def distinct_map inj_on_def by blast


section \<open>Tables with one unique key\<close>

lemma upsert_by_key:
  assumes T: "table_ok T S" "schema_ok S"
    and cl: "\<And>x y. s_clash S x y \<longleftrightarrow> key x = key y" and same: "\<And>x y. same x y \<longleftrightarrow> key x = key y"
    and U: "unique_rows S (rows T t)"
    and f: "\<And>x. s_id S (f x r) = s_id S x" "\<And>x. key (f x r) = key x"
  shows "\<exists>t'. t_upsert T same f r t = Some t' \<and> unique_rows S (rows T t')
    \<and> (if \<exists>x\<in>set (rows T t). key x = key r
       then rows T t' = map (\<lambda>x. if key x = key r then f x r else x) (rows T t)
       else \<exists>i. rows T t' = rows T t @ [s_set_id S i r])"
proof (cases "\<exists>x\<in>set (rows T t). key x = key r")
  case True
  have "\<exists>x\<in>set (rows T t). same x r" using True same by simp
  moreover have "\<not> (\<exists>x\<in>set (rows T t). same x r \<and> (\<exists>y\<in>set (rows T t). \<not> same y r \<and> s_clash S y (f x r)))"
    by (simp add: same cl f(2))
  ultimately obtain t' where t': "t_upsert T same f r t = Some t'"
    "rows T t' = map (\<lambda>x. if same x r then f x r else x) (rows T t)"
    using t_upsert_old[OF T(1), of t same r f] by blast
  have "unique_rows S (rows T t')" unfolding t'(2)
    by (rule unique_rows_map[OF U]) (auto simp: f cl)
  then show ?thesis using t' True by (simp add: same)
next
  case False
  then have n: "\<forall>x\<in>set (rows T t). \<not> same x r" "\<forall>x\<in>set (rows T t). \<not> s_clash S x r"
    by (auto simp: same cl)
  have "create_ok T S t r (t_upsert T same f r t)"
    using table_okD(3)[OF T(1), of same f t r] n(1) by (simp add: upsert_ok_def)
  then obtain t' i where t': "t_upsert T same f r t = Some t'"
    "rows T t' = rows T t @ [s_set_id S i r]" "i \<notin> s_id S ` set (rows T t)"
    using n(2) by (auto simp: create_ok_def)
  have "unique_rows S (rows T t')" unfolding t'(2)
    by (rule unique_rows_append[OF T(2) U n(2) t'(3)])
  then show ?thesis using t'(1,2) False by auto
qed

lemma update_by_key:
  assumes T: "table_ok T S" and U: "unique_rows S (rows T t)"
    and f: "\<And>x. s_id S (f x) = s_id S x" "\<And>x y. s_clash S (f x) y = s_clash S x y"
      "\<And>x y. s_clash S x (f y) = s_clash S x y"
  shows "\<exists>t'. t_update T P f t = Some t' \<and> unique_rows S (rows T t')
    \<and> rows T t' = map (\<lambda>x. if P x then f x else x) (rows T t)"
proof -
  obtain t' where t': "t_update T P f t = Some t'" "rows T t' = map (\<lambda>x. if P x then f x else x) (rows T t)"
    using t_update_rows[OF T f(2)] by blast
  have "unique_rows S (rows T t')" unfolding t'(2) by (rule unique_rows_map[OF U]) (auto simp: f)
  then show ?thesis using t' by blast
qed

lemma delete_unique:
  assumes T: "table_ok T S" and U: "unique_rows S (rows T t)"
  shows "\<exists>t'. t_delete T P t = Some t' \<and> unique_rows S (rows T t')
    \<and> rows T t' = filter (\<lambda>x. \<not> P x) (rows T t)"
  using t_delete_rows[OF T, of P t] unique_rows_filter[OF U] by metis

lemma find1_by_key:
  assumes T: "table_ok T S" and cl: "\<And>x y. s_clash S x y \<longleftrightarrow> key x = key y"
    and U: "unique_rows S (rows T t)"
  shows "find1 T (\<lambda>x. key x = k) t = Some r \<longleftrightarrow> r \<in> set (rows T t) \<and> key r = k"
proof
  assume "find1 T (\<lambda>x. key x = k) t = Some r"
  then show "r \<in> set (rows T t) \<and> key r = k" by (rule find1_Some[OF T])
next
  assume r: "r \<in> set (rows T t) \<and> key r = k"
  show "find1 T (\<lambda>x. key x = k) t = Some r"
    by (rule find1_unique(1)[OF T U]) (use r in \<open>auto simp: cl\<close>)
qed

end
