(* ===== verification/Cipher.thy ===== *)
theory Cipher
  imports Prelude
begin

text \<open>
  The checksums of \<open>pkg/cipher/md5.go\<close>. MD5 itself is a parameter \<open>md5\<close> from bytes to bytes; the
  model fixes what is hashed, in which order, and how the digest of a large file is composed from
  the digests of its chunks. A reader is the bytes it delivers together with the way it ends: with
  end of file or with an error. Sizes are mathematical integers: a file size and a chunk size whose
  sum fits in \<open>int64\<close> never wrap in these loops.
\<close>

type_synonym bytes = "8 word list"

section \<open>Hexadecimal text (\<open>encoding/hex\<close>)\<close>

definition hexdig :: "nat \<Rightarrow> char" where
  "hexdig n = (if n < 10 then char_of (48 + n) else char_of (87 + n))"

definition hexval :: "char \<Rightarrow> nat option" where
  "hexval c = (let v = of_char c :: nat in
     if 48 \<le> v \<and> v \<le> 57 then Some (v - 48)
     else if 97 \<le> v \<and> v \<le> 102 then Some (v - 87)
     else if 65 \<le> v \<and> v \<le> 70 then Some (v - 55) else None)"

fun hex_encode :: "bytes \<Rightarrow> string" where
  "hex_encode [] = []"
| "hex_encode (b # bs) = hexdig (unat b div 16) # hexdig (unat b mod 16) # hex_encode bs"

fun hex_decode :: "string \<Rightarrow> bytes option" where
  "hex_decode [] = Some []"
| "hex_decode [c] = None"
| "hex_decode (c # d # cs) =
     (case (hexval c, hexval d) of
        (Some x, Some y) \<Rightarrow> map_option (\<lambda>bs. of_nat (16 * x + y) # bs) (hex_decode cs)
      | _ \<Rightarrow> None)"

lemma hexval_hexdig: "n < 16 \<Longrightarrow> hexval (hexdig n) = Some n"
  by (auto simp: hexval_def hexdig_def Let_def)

lemma hex_decode_encode [simp]: "hex_decode (hex_encode bs) = Some bs"
proof (induction bs)
  case (Cons b bs)
  have "unat b < 256" using unsigned_less[of b] by simp
  then have "hexval (hexdig (unat b div 16)) = Some (unat b div 16)"
    "hexval (hexdig (unat b mod 16)) = Some (unat b mod 16)"
    by (auto intro!: hexval_hexdig)
  moreover have "of_nat (16 * (unat b div 16) + unat b mod 16) = b" by simp
  ultimately show ?case using Cons by simp
qed simp

lemma hex_encode_inj: "hex_encode a = hex_encode b \<longleftrightarrow> a = b"
  by (metis hex_decode_encode option.inject)

section \<open>Readers\<close>

record src =
  s_data :: bytes
  s_fails :: bool

datatype 'a outcome = Ok 'a | IOErr | Hangs

text \<open>\<open>io.Copy\<close> from an \<open>io.LimitReader\<close> of \<open>n\<close> bytes: the bytes, and the reader that is left.\<close>

definition copy_limited :: "nat \<Rightarrow> src \<Rightarrow> (bytes \<times> src) option" where
  "copy_limited n r =
     (if length (s_data r) < n \<and> s_fails r then None
      else Some (take n (s_data r), r\<lparr>s_data := drop n (s_data r)\<rparr>))"

text \<open>\<open>io.Copy\<close> from an \<open>io.NewSectionReader\<close> at \<open>off\<close> of \<open>n\<close> bytes.\<close>

definition copy_section :: "nat \<Rightarrow> nat \<Rightarrow> src \<Rightarrow> bytes option" where
  "copy_section off n r =
     (if length (s_data r) < off + n \<and> s_fails r then None
      else Some (take n (drop off (s_data r))))"

definition copy_all :: "src \<Rightarrow> bytes option" where
  "copy_all r = (if s_fails r then None else Some (s_data r))"

section \<open>Digests\<close>

definition GetMD5Hash :: "(bytes \<Rightarrow> bytes) \<Rightarrow> bytes \<Rightarrow> string" where
  "GetMD5Hash md5 t = hex_encode (md5 t)"

text \<open>\<open>MD5Single\<close> swallows a read error: it returns the empty string and no error.\<close>

definition MD5Single :: "(bytes \<Rightarrow> bytes) \<Rightarrow> src \<Rightarrow> string" where
  "MD5Single md5 r = (case copy_all r of None \<Rightarrow> [] | Some d \<Rightarrow> hex_encode (md5 d))"

definition readSize :: "int \<Rightarrow> int \<Rightarrow> int \<Rightarrow> int" where
  "readSize tot cs i = (if (i + 1) * cs < tot then cs else tot - i * cs)"

fun md5_loop :: "nat \<Rightarrow> (bytes \<Rightarrow> bytes) \<Rightarrow> int \<Rightarrow> int \<Rightarrow> int \<Rightarrow> src \<Rightarrow> bytes \<Rightarrow> (bytes \<times> int) outcome" where
  "md5_loop 0 md5 tot cs i r acc = Hangs"
| "md5_loop (Suc k) md5 tot cs i r acc =
     (if i * cs < tot then
        case copy_limited (nat (readSize tot cs i)) r of
          None \<Rightarrow> IOErr
        | Some (d, r') \<Rightarrow> md5_loop k md5 tot cs (i + 1) r' (acc @ take 16 (md5 d))
      else Ok (acc, i))"

definition chunk_tag :: "string \<Rightarrow> int \<Rightarrow> string" where
  "chunk_tag h n = h @ ''-'' @ show_int n"

definition MD5ByChunk :: "nat \<Rightarrow> (bytes \<Rightarrow> bytes) \<Rightarrow> src \<Rightarrow> int \<Rightarrow> int \<Rightarrow> string outcome" where
  "MD5ByChunk fuel md5 r tot cs =
     (if cs \<ge> tot then (case copy_all r of None \<Rightarrow> IOErr | Some d \<Rightarrow> Ok (hex_encode (md5 d)))
      else case md5_loop fuel md5 tot cs 0 r [] of
             Ok (md5s, i) \<Rightarrow> Ok (chunk_tag (hex_encode (take 16 (md5 md5s))) i)
           | IOErr \<Rightarrow> IOErr
           | Hangs \<Rightarrow> Hangs)"

definition GetFileMD5Hash :: "nat \<Rightarrow> (bytes \<Rightarrow> bytes) \<Rightarrow> src option \<Rightarrow> string outcome" where
  "GetFileMD5Hash fuel md5 file =
     (case file of None \<Rightarrow> IOErr
      | Some r \<Rightarrow> MD5ByChunk fuel md5 r (int (length (s_data r))) (2 ^ 63 - 1))"

text \<open>The concurrent version: one goroutine per chunk; \<open>arrival\<close> is the order in which they send
  their result on the channel. The collector fills a list of \<open>totalChunks\<close> entries in that order,
  sorts it by index and hashes it. A chunk size of 0 divides by zero, a negative one never ends.\<close>

record md5Chunk =
  c_md5 :: bytes
  c_idx :: int

definition totalChunks :: "int \<Rightarrow> int \<Rightarrow> int" where
  "totalChunks tot cs = (tot + cs - 1) div cs"

definition chunk_result :: "(bytes \<Rightarrow> bytes) \<Rightarrow> src \<Rightarrow> int \<Rightarrow> int \<Rightarrow> nat \<Rightarrow> md5Chunk option" where
  "chunk_result md5 r tot cs j =
     map_option (\<lambda>d. \<lparr>c_md5 = take 16 (md5 d), c_idx = int j\<rparr>)
       (copy_section (nat (int j * cs)) (nat (readSize tot cs (int j))) r)"

definition collect :: "nat \<Rightarrow> md5Chunk list \<Rightarrow> md5Chunk list" where
  "collect n arrived = sort_key c_idx
     (arrived @ replicate (n - length arrived) \<lparr>c_md5 = [], c_idx = 0\<rparr>)"

definition MD5ByChunkConcurrent ::
  "nat list \<Rightarrow> (bytes \<Rightarrow> bytes) \<Rightarrow> src \<Rightarrow> int \<Rightarrow> int \<Rightarrow> string outcome" where
  "MD5ByChunkConcurrent arrival md5 r tot cs =
     (if cs \<ge> tot then (case copy_all r of None \<Rightarrow> IOErr | Some d \<Rightarrow> Ok (hex_encode (md5 d)))
      else if cs \<le> 0 then Hangs
      else case those (map (chunk_result md5 r tot cs) arrival) of
             None \<Rightarrow> IOErr
           | Some arrived \<Rightarrow>
               Ok (chunk_tag (hex_encode (md5 (concat (map c_md5
                     (collect (nat (totalChunks tot cs)) arrived))))) (totalChunks tot cs)))"

text \<open>\<open>MD5ReadWrite\<close>: the bytes copied to the destination are the bytes hashed.\<close>

definition MD5ReadWrite :: "(bytes \<Rightarrow> bytes) \<Rightarrow> src \<Rightarrow> (bytes \<times> string) option" where
  "MD5ReadWrite md5 r = map_option (\<lambda>d. (d, hex_encode (md5 d))) (copy_all r)"

section \<open>The concurrent digest equals the sequential one\<close>

lemma totalChunks_bounds:
  assumes "0 < cs" "cs < tot"
  shows "int j < totalChunks tot cs \<longleftrightarrow> int j * cs < tot"
proof -
  define q where "q = (tot + cs - 1) div cs"
  define r where "r = (tot + cs - 1) mod cs"
  have e: "tot + cs - 1 = q * cs + r" "0 \<le> r" "r < cs"
    using assms(1) by (auto simp: q_def r_def)
  have "int j < q \<longleftrightarrow> int j * cs < tot"
  proof
    assume "int j < q"
    then have "(int j + 1) * cs \<le> q * cs" using assms(1) by (intro mult_right_mono) auto
    then show "int j * cs < tot" using e by (simp add: distrib_right)
  next
    assume a: "int j * cs < tot"
    show "int j < q"
    proof (rule ccontr)
      assume "\<not> int j < q"
      then have "q * cs \<le> int j * cs" using assms(1) by (intro mult_right_mono) auto
      then show False using a e by linarith
    qed
  qed
  then show ?thesis by (simp add: totalChunks_def q_def)
qed

lemma totalChunks_pos: "0 < cs \<Longrightarrow> cs < tot \<Longrightarrow> 0 < totalChunks tot cs"
  using totalChunks_bounds[of cs tot 0] by simp

lemma chunk_idx: "0 < cs \<Longrightarrow> cs < tot \<Longrightarrow> j < nat (totalChunks tot cs) \<longleftrightarrow> int j * cs < tot"
  using totalChunks_bounds[of cs tot j] by (simp add: zless_nat_eq_int_zless)

text \<open>Reading the chunks in sequence or by section gives the same bytes and the same failures.\<close>

lemma copy_limited_section:
  assumes "0 < n"
  shows "copy_limited n (r\<lparr>s_data := drop off (s_data r)\<rparr>)
    = map_option (\<lambda>d. (d, r\<lparr>s_data := drop (off + n) (s_data r)\<rparr>)) (copy_section off n r)"
  using assms by (auto simp: copy_limited_def copy_section_def add.commute)

lemma readSize_pos: "0 < cs \<Longrightarrow> i * cs < tot \<Longrightarrow> 0 < readSize tot cs i"
  by (simp add: readSize_def)

lemma md5_loop_chunks:
  assumes cs: "0 < cs" "cs < tot" and n: "n = nat (totalChunks tot cs)"
  shows "j \<le> n \<Longrightarrow> n - j < fuel \<Longrightarrow>
    md5_loop fuel md5 tot cs (int j) (r\<lparr>s_data := drop (nat (int j * cs)) (s_data r)\<rparr>) acc =
      (case those (map (chunk_result md5 r tot cs) [j..<n]) of
         None \<Rightarrow> IOErr
       | Some l \<Rightarrow> Ok (acc @ concat (map c_md5 l), int n))"
proof (induction fuel arbitrary: j acc)
  case 0
  then show ?case by simp
next
  case (Suc k)
  show ?case
  proof (cases "j = n")
    case True
    then have "\<not> int j * cs < tot"
      using totalChunks_bounds[OF cs, of j] totalChunks_pos[OF cs] n by simp
    then show ?thesis using True by simp
  next
    case False
    then have jn: "j < n" "[j..<n] = j # [Suc j..<n]" using Suc.prems upt_conv_Cons by auto
    then have lt: "int j * cs < tot"
      using chunk_idx[OF cs, of j] n by metis
    define m where "m = nat (readSize tot cs (int j))"
    define off where "off = nat (int j * cs)"
    have m: "0 < m" using readSize_pos[OF cs(1) lt] by (simp add: m_def)
    show ?thesis
    proof (cases "copy_section off m r")
      case None
      then have "chunk_result md5 r tot cs j = None" by (simp add: chunk_result_def m_def off_def)
      moreover have "copy_limited m (r\<lparr>s_data := drop off (s_data r)\<rparr>) = None"
        using copy_limited_section[OF m] None by simp
      ultimately show ?thesis using lt jn by (simp add: m_def off_def)
    next
      case (Some d)
      then have c: "chunk_result md5 r tot cs j = Some \<lparr>c_md5 = take 16 (md5 d), c_idx = int j\<rparr>"
        by (simp add: chunk_result_def m_def off_def)
      have L: "copy_limited m (r\<lparr>s_data := drop off (s_data r)\<rparr>)
          = Some (d, r\<lparr>s_data := drop (off + m) (s_data r)\<rparr>)"
        using copy_limited_section[OF m] Some by simp
      have dr: "r\<lparr>s_data := drop (off + m) (s_data r)\<rparr>
          = r\<lparr>s_data := drop (nat (int (Suc j) * cs)) (s_data r)\<rparr>" if "Suc j < n"
      proof -
        have "int (Suc j) * cs < tot" using chunk_idx[OF cs, of "Suc j"] n that by metis
        then have "readSize tot cs (int j) = cs" by (simp add: readSize_def algebra_simps)
        moreover have "nat (int (Suc j) * cs) = nat (int j * cs) + nat cs"
          using cs(1) by (simp add: nat_add_distrib[symmetric] algebra_simps)
        ultimately show ?thesis by (simp add: off_def m_def)
      qed
      let ?acc = "acc @ take 16 (md5 d)"
      have step: "md5_loop (Suc k) md5 tot cs (int j) (r\<lparr>s_data := drop off (s_data r)\<rparr>) acc
          = md5_loop k md5 tot cs (int (Suc j)) (r\<lparr>s_data := drop (off + m) (s_data r)\<rparr>) ?acc"
        using lt L by (simp add: m_def add.commute)
      show ?thesis
      proof (cases "Suc j = n")
        case True
        then have "\<not> int (Suc j) * cs < tot" using chunk_idx[OF cs, of "Suc j"] n by (metis less_irrefl)
        then have "md5_loop k md5 tot cs (int (Suc j)) (r\<lparr>s_data := drop (off + m) (s_data r)\<rparr>) ?acc
            = Ok (?acc, int (Suc j))" using Suc.prems True by (cases k) auto
        then show ?thesis using step c jn True by (simp add: off_def)
      next
        case False
        then have "Suc j < n" using jn by simp
        with Suc.IH[of "Suc j" ?acc] step dr[OF this] Suc.prems c jn show ?thesis
          by (simp add: off_def split: option.splits)
      qed
    qed
  qed
qed

lemma those_eq_Some: "those (map f xs) = Some ys \<longleftrightarrow> map f xs = map Some ys"
  by (induction xs arbitrary: ys) (auto split: option.splits simp: Cons_eq_map_conv)

lemma those_eq_None: "those (map f xs) = None \<longleftrightarrow> (\<exists>x\<in>set xs. f x = None)"
  by (induction xs) (auto split: option.splits)

lemma chunk_result_idx: "chunk_result md5 r tot cs j = Some c \<Longrightarrow> c_idx c = int j"
  by (auto simp: chunk_result_def)

text \<open>Whatever the order of arrival, the collector ends with the chunks in index order.\<close>

lemma collect_any_order:
  assumes perm: "mset arrival = mset [0..<n]"
    and all: "those (map (chunk_result md5 r tot cs) arrival) = Some arrived"
  shows "those (map (chunk_result md5 r tot cs) [0..<n]) = Some (collect n arrived)"
proof -
  let ?f = "chunk_result md5 r tot cs"
  have S: "map ?f arrival = map Some arrived" using all by (simp add: those_eq_Some)
  have set: "set arrival = {0..<n}" using mset_eq_setD[OF perm] by auto
  have dist: "distinct arrival" using mset_eq_imp_distinct_iff[OF perm] by simp
  have idx: "map c_idx arrived = map int arrival"
  proof (rule nth_equalityI)
    show "length (map c_idx arrived) = length (map int arrival)" using S
      by (metis length_map)
    fix i assume "i < length (map c_idx arrived)"
    then have i: "i < length arrived" "i < length arrival" using S by (auto dest: map_eq_imp_length_eq)
    have "?f (arrival ! i) = Some (arrived ! i)" using S i by (metis nth_map)
    then show "map c_idx arrived ! i = map int arrival ! i" using chunk_result_idx i by fastforce
  qed
  obtain ys where ys: "those (map ?f [0..<n]) = Some ys"
  proof (cases "those (map ?f [0..<n])")
    case None
    then obtain x where "x \<in> set arrival" "?f x = None" using set by (auto simp: those_eq_None)
    then have "those (map ?f arrival) = None" by (auto simp: those_eq_None)
    then show ?thesis using all by simp
  qed auto
  then have Y: "map ?f [0..<n] = map Some ys" by (simp add: those_eq_Some)
  have idy: "map c_idx ys = map int [0..<n]"
  proof (rule nth_equalityI)
    show "length (map c_idx ys) = length (map int [0..<n])" using Y by (metis length_map)
    fix i assume "i < length (map c_idx ys)"
    then have i: "i < length ys" "i < n" using Y by (auto dest: map_eq_imp_length_eq)
    have "?f ([0..<n] ! i) = Some (ys ! i)" using Y i by (metis length_upt nth_map minus_nat.diff_0)
    then show "map c_idx ys ! i = map int [0..<n] ! i" using chunk_result_idx i by fastforce
  qed
  have "Some ` set arrived = Some ` set ys"
    using arg_cong[OF S, of set] arg_cong[OF Y, of set] set by simp
  then have seteq: "set arrived = set ys" by (simp add: inj_image_eq_iff)
  have len: "length arrived = n"
    using arg_cong[OF S, of length] arg_cong[OF perm, of size] by simp
  have d1: "distinct (map c_idx arrived)" using idx dist by (simp add: distinct_map)
  have d2: "distinct (map c_idx ys)" using idy by (simp add: distinct_map)
  have "sort_key c_idx arrived = ys"
  proof (rule map_sorted_distinct_set_unique[of c_idx])
    show "inj_on c_idx (set (sort_key c_idx arrived) \<union> set ys)"
      using d2 seteq by (simp add: distinct_map)
    show "distinct (map c_idx (sort_key c_idx arrived))" using d1 by (simp add: distinct_map)
    show "sorted (map c_idx ys)" using idy by (simp add: sorted_map)
  qed (use d2 seteq in auto)
  then show ?thesis using ys len by (simp add: collect_def)
qed

text \<open>C31: \<open>MD5ByChunkConcurrent\<close> and \<open>MD5ByChunk\<close> agree. For every file, every positive chunk size
  and every order in which the chunk goroutines finish, the concurrent digest is the sequential
  one, on errors as well, and the sequential loop ends: \<open>totalChunks + 1\<close> rounds are enough.\<close>

theorem md5_concurrent_eq_sequential:
  assumes "0 < cs" "mset arrival = mset [0..<nat (totalChunks tot cs)]"
    and "nat (totalChunks tot cs) < fuel"
    and "\<And>x. length (md5 x) = 16"
  shows "MD5ByChunkConcurrent arrival md5 r tot cs = MD5ByChunk fuel md5 r tot cs
    \<and> MD5ByChunk fuel md5 r tot cs \<noteq> Hangs"
proof (cases "cs \<ge> tot")
  case True
  then show ?thesis by (auto simp: MD5ByChunkConcurrent_def MD5ByChunk_def split: option.splits)
next
  case False
  let ?n = "nat (totalChunks tot cs)" and ?f = "chunk_result md5 r tot cs"
  have cs: "cs < tot" using False by simp
  have seq: "md5_loop fuel md5 tot cs 0 r [] = (case those (map ?f [0..<?n]) of
      None \<Rightarrow> IOErr | Some l \<Rightarrow> Ok (concat (map c_md5 l), int ?n))"
    using md5_loop_chunks[OF assms(1) cs refl, of 0 fuel md5 r "[]"] assms(3)
    by (simp cong: option.case_cong)
  have n: "int ?n = totalChunks tot cs" using totalChunks_pos[OF assms(1) cs] by simp
  show ?thesis
  proof (cases "those (map ?f arrival)")
    case None
    then have "those (map ?f [0..<?n]) = None"
      using mset_eq_setD[OF assms(2)] by (auto simp: those_eq_None)
    then show ?thesis using seq None False assms(1)
      by (simp add: MD5ByChunkConcurrent_def MD5ByChunk_def)
  next
    case (Some arrived)
    then show ?thesis using collect_any_order[OF assms(2) Some] seq False assms(1,4) n
      by (simp add: MD5ByChunkConcurrent_def MD5ByChunk_def)
  qed
qed

text \<open>A stand-in for MD5 in the witnesses: sixteen bytes that depend on the input.\<close>

definition toy_md5 :: "bytes \<Rightarrow> bytes" where
  "toy_md5 x = replicate 15 0 @ [sum_list x + of_nat (length x)]"

theorem md5_concurrent_eq_sequential_witness:
  "MD5ByChunkConcurrent [2, 0, 1] toy_md5 \<lparr>s_data = [1, 2, 3, 4, 5], s_fails = True\<rparr> 5 2
     = MD5ByChunk 4 toy_md5 \<lparr>s_data = [1, 2, 3, 4, 5], s_fails = True\<rparr> 5 2"
  using md5_concurrent_eq_sequential[of 2 "[2, 0, 1]" 5 4 toy_md5
      "\<lparr>s_data = [1, 2, 3, 4, 5], s_fails = True\<rparr>"]
  by (simp add: totalChunks_def toy_md5_def numeral_3_eq_3 numeral_2_eq_2 add_mset_commute)

end
