(* ===== verification/UploadStore.thy ===== *)
theory UploadStore
  imports Table Cipher Paths
begin

text \<open>
  The multipart upload bookkeeping of \<open>internal/storage/upload.go\<close> over the models of
  \<open>internal/storage/models.go\<close>. The state \<open>uworld\<close> is the file system (regular files by path)
  and the two tables \<open>uploads\<close> and \<open>upload_parts\<close>; the tables' operations \<open>TU\<close> and \<open>TP\<close> are
  parameters (theory \<open>Table\<close>). A newly generated token and the current time are arguments.
\<close>

section \<open>Models\<close>

datatype UploadState = RUNNING | DONE | FAILED

record Upload =
  up_id :: nat
  up_created :: int
  up_token :: string
  up_key :: string
  up_tmp :: string
  up_storage :: int
  up_size :: u64
  up_chunk :: u64
  up_md5 :: string
  up_state :: UploadState

record UploadPart =
  pt_id :: nat
  pt_token :: string
  pt_idx :: u64
  pt_md5 :: string

definition upload_schema :: "Upload schema" where
  "upload_schema = \<lparr> s_id = up_id, s_set_id = (\<lambda>i. up_id_update (\<lambda>_. i)),
     s_clash = (\<lambda>x y. up_token x = up_token y \<or> up_key x = up_key y) \<rparr>"

definition part_schema :: "UploadPart schema" where
  "part_schema = \<lparr> s_id = pt_id, s_set_id = (\<lambda>i. pt_id_update (\<lambda>_. i)),
     s_clash = (\<lambda>x y. pt_token x = pt_token y \<and> pt_idx x = pt_idx y) \<rparr>"

datatype store_error =
    ErrPartUpCorrupted | ErrUploadNotFound | ErrCompletePart | ErrInvalidMD5 | ErrDB
  | ErrMissingWhereClause

type_synonym fs = "string \<rightharpoonup> bytes"

record ('u, 'p) uworld =
  uw_fs :: fs
  uw_ups :: 'u
  uw_pts :: 'p

definition tmp_name :: "string \<Rightarrow> string" where
  "tmp_name key = split_dir key @ ''/.'' @ split_file key @ ''.upload''"

type_synonym 'u utab = "('u, Upload) table_ops"
type_synonym 'p ptab = "('p, UploadPart) table_ops"

section \<open>Operations\<close>

text \<open>The checks of \<open>InitUpload\<close> on an upload that exists.\<close>

definition resume_check :: "fs \<Rightarrow> Upload \<Rightarrow> u64 \<Rightarrow> u64 \<Rightarrow> store_error option" where
  "resume_check fs up sz chunk =
     (if up_chunk up \<noteq> chunk \<or> up_size up \<noteq> sz then Some ErrPartUpCorrupted
      else if fs (up_tmp up) = None \<and> up_state up = RUNNING then Some ErrPartUpCorrupted
      else if up_state up = DONE then
        (case fs (up_key up) of
           None \<Rightarrow> Some ErrPartUpCorrupted
         | Some d \<Rightarrow> if int (length d) \<noteq> sint (up_size up) then Some ErrPartUpCorrupted else None)
      else None)"

definition InitUpload :: "'u utab \<Rightarrow> string \<Rightarrow> int \<Rightarrow> string \<Rightarrow> u64 \<Rightarrow> u64 \<Rightarrow> int \<Rightarrow> ('u, 'p) uworld \<Rightarrow>
    (string \<times> bool \<times> store_error option) \<times> ('u, 'p) uworld" where
  "InitUpload TU newtoken now key sz chunk storageID w =
     (case find1 TU (\<lambda>u. up_key u = key) (uw_ups w) of
        Some up \<Rightarrow> ((up_token up, True, resume_check (uw_fs w) up sz chunk), w)
      | None \<Rightarrow>
          (case t_create TU \<lparr> up_id = 0, up_created = now, up_token = newtoken, up_key = key,
                  up_tmp = tmp_name key, up_storage = storageID, up_size = sz, up_chunk = chunk,
                  up_md5 = [], up_state = RUNNING \<rparr> (uw_ups w) of
             None \<Rightarrow> (([], False, Some ErrDB), w)
           | Some t \<Rightarrow> ((newtoken, False, None), w\<lparr>uw_ups := t\<rparr>)))"

definition LoadUpload :: "'u utab \<Rightarrow> string \<Rightarrow> ('u, 'p) uworld \<Rightarrow> store_error + Upload" where
  "LoadUpload TU token w = (case find1 TU (\<lambda>u. up_token u = token) (uw_ups w) of
     Some up \<Rightarrow> Inr up | None \<Rightarrow> Inl ErrUploadNotFound)"

definition LoadUploadByKey :: "'u utab \<Rightarrow> string \<Rightarrow> ('u, 'p) uworld \<Rightarrow> store_error + Upload" where
  "LoadUploadByKey TU key w = (case find1 TU (\<lambda>u. up_key u = key) (uw_ups w) of
     Some up \<Rightarrow> Inr up | None \<Rightarrow> Inl ErrUploadNotFound)"

definition LoadUploads :: "'u utab \<Rightarrow> ('u, 'p) uworld \<Rightarrow> Upload list" where
  "LoadUploads TU w = (case t_find TU (\<lambda>_. True) (uw_ups w) of None \<Rightarrow> [] | Some us \<Rightarrow> us)"

text \<open>The part row is upserted on \<open>(token, idx)\<close>; an error of that statement is not looked at.\<close>

definition same_part :: "UploadPart \<Rightarrow> UploadPart \<Rightarrow> bool" where
  "same_part x r \<longleftrightarrow> pt_idx x = pt_idx r \<and> pt_token x = pt_token r"

definition UploadPart_op :: "'u utab \<Rightarrow> 'p ptab \<Rightarrow> string \<Rightarrow> u64 \<Rightarrow> string \<Rightarrow> ('u, 'p) uworld \<Rightarrow>
    store_error option \<times> ('u, 'p) uworld" where
  "UploadPart_op TU TP key idx md5 w =
     (case find1 TU (\<lambda>u. up_key u = key) (uw_ups w) of
        None \<Rightarrow> (Some ErrUploadNotFound, w)
      | Some up \<Rightarrow>
          (None, case t_upsert TP same_part (\<lambda>x r. x\<lparr>pt_token := pt_token r, pt_idx := pt_idx r,
                     pt_md5 := pt_md5 r\<rparr>)
                   \<lparr>pt_id = 0, pt_token = up_token up, pt_idx = idx, pt_md5 = md5\<rparr> (uw_pts w) of
                   None \<Rightarrow> w | Some t \<Rightarrow> w\<lparr>uw_pts := t\<rparr>))"

text \<open>The parts preloaded with an upload: none when the upload is not found.\<close>

definition preload_parts :: "'p ptab \<Rightarrow> Upload option \<Rightarrow> ('u, 'p) uworld \<Rightarrow> UploadPart list" where
  "preload_parts TP up w = (case up of None \<Rightarrow> []
     | Some u \<Rightarrow> (case t_find TP (\<lambda>p. pt_token p = up_token u) (uw_pts w) of
                   None \<Rightarrow> [] | Some ps \<Rightarrow> ps))"

definition LoadParts :: "'u utab \<Rightarrow> 'p ptab \<Rightarrow> string \<Rightarrow> ('u, 'p) uworld \<Rightarrow> store_error + UploadPart list" where
  "LoadParts TU TP token w = (case t_find TU (\<lambda>u. up_token u = token) (uw_ups w) of
     None \<Rightarrow> Inl ErrUploadNotFound
   | Some us \<Rightarrow> Inr (preload_parts TP (case us of [] \<Rightarrow> None | u # _ \<Rightarrow> Some u) w))"

text \<open>What \<open>CompletePart\<close> expects as the digest of the whole: for one part the part's own digest,
  for more the digest of the concatenated part digests with the number of parts.\<close>

definition parts_bytes :: "string list \<Rightarrow> bytes option" where
  "parts_bytes etags = map_option concat (those (map hex_decode etags))"

definition expect_md5 :: "(bytes \<Rightarrow> bytes) \<Rightarrow> UploadPart list \<Rightarrow> store_error + string" where
  "expect_md5 md5 parts0 =
     (let parts = sort_key pt_idx parts0
      in case parts_bytes (map pt_md5 parts) of
           None \<Rightarrow> Inl ErrInvalidMD5
         | Some bs \<Rightarrow>
             if length parts = 0 then Inl ErrCompletePart
             else if length parts = 1 then Inr (pt_md5 (parts ! 0))
             else Inr (chunk_tag (MD5Single md5 \<lparr>s_data = bs, s_fails = False\<rparr>) (int (length parts))))"

definition CompletePart :: "(bytes \<Rightarrow> bytes) \<Rightarrow> 'u utab \<Rightarrow> 'p ptab \<Rightarrow> string \<Rightarrow> string \<Rightarrow> ('u, 'p) uworld \<Rightarrow>
    store_error option \<times> ('u, 'p) uworld" where
  "CompletePart md5 TU TP key actualMD5 w =
     (case t_find TU (\<lambda>u. up_key u = key) (uw_ups w) of
        None \<Rightarrow> (Some ErrUploadNotFound, w)
      | Some us \<Rightarrow>
          let up = (case us of [] \<Rightarrow> None | u # _ \<Rightarrow> Some u)
          in case expect_md5 md5 (preload_parts TP up w) of
               Inl e \<Rightarrow> (Some e, w)
             | Inr expect \<Rightarrow>
                 if expect \<noteq> actualMD5 then (Some ErrCompletePart, w)
                 else case up of
                   None \<Rightarrow> (None, w)
                 | Some u \<Rightarrow>
                     (None, case t_update TU (\<lambda>x. up_id x = up_id u)
                              (\<lambda>x. x\<lparr>up_md5 := expect, up_state := DONE\<rparr>) (uw_ups w) of
                              None \<Rightarrow> w | Some t \<Rightarrow> w\<lparr>uw_ups := t\<rparr>))"

definition DestroyUploadByToken :: "'u utab \<Rightarrow> 'p ptab \<Rightarrow> string \<Rightarrow> ('u, 'p) uworld \<Rightarrow>
    store_error option \<times> ('u, 'p) uworld" where
  "DestroyUploadByToken TU TP token w =
     (case t_delete TP (\<lambda>p. pt_token p = token) (uw_pts w) of
        None \<Rightarrow> (Some ErrDB, w)
      | Some pts \<Rightarrow>
          (case find1 TU (\<lambda>u. up_token u = token) (uw_ups w) of
             None \<Rightarrow> (Some ErrMissingWhereClause, w\<lparr>uw_pts := pts\<rparr>)
           | Some up \<Rightarrow>
               let w1 = w\<lparr>uw_pts := pts, uw_fs := (uw_fs w)(up_tmp up := None)\<rparr>
               in case t_delete TU (\<lambda>u. up_id u = up_id up) (uw_ups w) of
                    None \<Rightarrow> (Some ErrDB, w1)
                  | Some ups \<Rightarrow> (None, w1\<lparr>uw_ups := ups\<rparr>)))"

text \<open>The rows of one upload: its parts, whose deletion is not checked, then the row itself.\<close>

definition delete_upload :: "'u utab \<Rightarrow> 'p ptab \<Rightarrow> Upload \<Rightarrow> ('u, 'p) uworld \<Rightarrow> bool \<times> ('u, 'p) uworld" where
  "delete_upload TU TP u w =
     (let w1 = (case t_delete TP (\<lambda>p. pt_token p = up_token u) (uw_pts w) of
                  None \<Rightarrow> w | Some t \<Rightarrow> w\<lparr>uw_pts := t\<rparr>)
      in case t_delete TU (\<lambda>x. up_id x = up_id u) (uw_ups w1) of
           None \<Rightarrow> (False, w1) | Some t \<Rightarrow> (True, w1\<lparr>uw_ups := t\<rparr>))"

fun destroy_loop :: "'u utab \<Rightarrow> 'p ptab \<Rightarrow> Upload list \<Rightarrow> string list \<Rightarrow> ('u, 'p) uworld \<Rightarrow>
    (string list \<times> store_error option) \<times> ('u, 'p) uworld" where
  "destroy_loop TU TP [] paths w = ((paths, None), w)"
| "destroy_loop TU TP (u # us) paths w =
     (case delete_upload TU TP u w of
        (False, w1) \<Rightarrow> ((paths @ [up_tmp u], Some ErrDB), w1)
      | (True, w1) \<Rightarrow> destroy_loop TU TP us (paths @ [up_tmp u]) w1)"

text \<open>\<open>like\<close> is the database's \<open>LIKE\<close>: pattern, text.\<close>

definition DestroyUploadByKey :: "(string \<Rightarrow> string \<Rightarrow> bool) \<Rightarrow> 'u utab \<Rightarrow> 'p ptab \<Rightarrow> string \<Rightarrow>
    ('u, 'p) uworld \<Rightarrow> (string list \<times> store_error option) \<times> ('u, 'p) uworld" where
  "DestroyUploadByKey like TU TP key w =
     (case t_find TU (\<lambda>u. like (key @ ''%'') (up_key u)) (uw_ups w) of
        None \<Rightarrow> (([], Some ErrDB), w)
      | Some us \<Rightarrow> destroy_loop TU TP us [] w)"

definition delete_all :: "'u utab \<Rightarrow> 'p ptab \<Rightarrow> Upload list \<Rightarrow> ('u, 'p) uworld \<Rightarrow> ('u, 'p) uworld" where
  "delete_all TU TP us w = fold (\<lambda>u w. snd (delete_upload TU TP u w)) us w"

definition Clean :: "'u utab \<Rightarrow> 'p ptab \<Rightarrow> ('u, 'p) uworld \<Rightarrow> ('u, 'p) uworld" where
  "Clean TU TP w = (case t_find TU (\<lambda>u. up_state u = DONE) (uw_ups w) of
     None \<Rightarrow> w | Some us \<Rightarrow> delete_all TU TP us w)"

text \<open>Hours in the unit of \<open>now\<close>; uploads older than a day are dropped whatever their state.\<close>

definition hour :: int where "hour = 3600"

definition scavenge_one :: "'u utab \<Rightarrow> 'p ptab \<Rightarrow> Upload \<Rightarrow> ('u, 'p) uworld \<Rightarrow> ('u, 'p) uworld" where
  "scavenge_one TU TP u w =
     (let w1 = w\<lparr>uw_fs := (uw_fs w)(up_tmp u := None)\<rparr>;
          w2 = (case t_delete TP (\<lambda>p. pt_token p = up_token u) (uw_pts w1) of
                  None \<Rightarrow> w1 | Some t \<Rightarrow> w1\<lparr>uw_pts := t\<rparr>)
      in case t_delete TU (\<lambda>x. up_token x = up_token u) (uw_ups w2) of
           None \<Rightarrow> w2 | Some t \<Rightarrow> w2\<lparr>uw_ups := t\<rparr>)"

definition ScavengeUpload :: "'u utab \<Rightarrow> 'p ptab \<Rightarrow> int \<Rightarrow> ('u, 'p) uworld \<Rightarrow> ('u, 'p) uworld" where
  "ScavengeUpload TU TP now w = (case t_find TU (\<lambda>u. up_created u < now - 24 * hour) (uw_ups w) of
     None \<Rightarrow> w | Some us \<Rightarrow> fold (scavenge_one TU TP) us w)"

section \<open>Part rows\<close>

lemma schema_simps [simp]:
  "s_id upload_schema = up_id" "s_set_id upload_schema i = up_id_update (\<lambda>_. i)"
  "s_clash upload_schema x y \<longleftrightarrow> up_token x = up_token y \<or> up_key x = up_key y"
  "s_id part_schema = pt_id" "s_set_id part_schema i = pt_id_update (\<lambda>_. i)"
  "s_clash part_schema p q \<longleftrightarrow> pt_token p = pt_token q \<and> pt_idx p = pt_idx q"
  by (simp_all add: upload_schema_def part_schema_def)

lemma schemas_ok: "schema_ok upload_schema" "schema_ok part_schema"
  by (auto simp: schema_ok_def)

definition prow :: "UploadPart \<Rightarrow> string \<times> u64 \<times> string" where
  "prow p = (pt_token p, pt_idx p, pt_md5 p)"

lemma UploadPart_op_rows:
  assumes TU: "table_ok TU upload_schema" and TP: "table_ok TP part_schema"
    and U: "unique_rows upload_schema (rows TU (uw_ups w))" "u \<in> set (rows TU (uw_ups w))"
    and P: "unique_rows part_schema (rows TP (uw_pts w))"
  shows "\<exists>t. UploadPart_op TU TP (up_key u) idx h w = (None, w\<lparr>uw_pts := t\<rparr>)
    \<and> unique_rows part_schema (rows TP t)
    \<and> prow ` set (rows TP t) = insert (up_token u, idx, h)
          (prow ` {p \<in> set (rows TP (uw_pts w)). \<not> (pt_idx p = idx \<and> pt_token p = up_token u)})"
proof -
  let ?r = "\<lparr>pt_id = 0, pt_token = up_token u, pt_idx = idx, pt_md5 = h\<rparr>"
  let ?f = "\<lambda>x r. x\<lparr>pt_token := pt_token r, pt_idx := pt_idx r, pt_md5 := pt_md5 r\<rparr>"
  let ?rs = "rows TP (uw_pts w)"
  have f: "find1 TU (\<lambda>x. up_key x = up_key u) (uw_ups w) = Some u"
    using find1_unique(1)[OF TU U, of "\<lambda>x. up_key x = up_key u"] by simp
  show ?thesis
  proof (cases "\<exists>x\<in>set ?rs. same_part x ?r")
    case True
    then obtain x0 where x0: "x0 \<in> set ?rs" "same_part x0 ?r" by blast
    obtain t where t: "t_upsert TP same_part ?f ?r (uw_pts w) = Some t"
      "rows TP t = map (\<lambda>x. if same_part x ?r then ?f x ?r else x) ?rs"
    proof -
      have no: "\<not> (\<exists>x\<in>set ?rs. same_part x ?r
          \<and> (\<exists>y\<in>set ?rs. \<not> same_part y ?r \<and> s_clash part_schema y (?f x ?r)))"
        by (auto simp: same_part_def)
      show ?thesis
        using t_upsert_old[where f = ?f and same = same_part and r = ?r and t = "uw_pts w",
            OF TP True no] that by blast
    qed
    have "unique_rows part_schema (rows TP t)" unfolding t(2)
      by (rule unique_rows_map[OF P]) (auto simp: same_part_def)
    moreover have "prow ` set (rows TP t) = insert (up_token u, idx, h)
          (prow ` {p \<in> set ?rs. \<not> (pt_idx p = idx \<and> pt_token p = up_token u)})"
    proof -
      have "prow ` set (rows TP t)
          = (\<lambda>x. if same_part x ?r then (up_token u, idx, h) else prow x) ` set ?rs"
        unfolding t(2) set_map image_image by (rule image_cong) (auto simp: prow_def same_part_def)
      also have "\<dots> = insert (up_token u, idx, h) (prow ` {x \<in> set ?rs. \<not> same_part x ?r})"
        by (rule image_if[OF True])
      finally show ?thesis by (simp add: same_part_def)
    qed
    ultimately show ?thesis using t(1) f by (intro exI[of _ t]) (simp add: UploadPart_op_def)
  next
    case False
    then obtain t i where t: "t_upsert TP same_part ?f ?r (uw_pts w) = Some t"
      "rows TP t = ?rs @ [?r\<lparr>pt_id := i\<rparr>]" "i \<notin> pt_id ` set ?rs"
    proof -
      have no: "\<not> (\<exists>x\<in>set ?rs. s_clash part_schema x ?r)" using False by (auto simp: same_part_def)
      have "upsert_ok TP part_schema same_part ?f (uw_pts w) ?r
          (t_upsert TP same_part ?f ?r (uw_pts w))" by (rule table_okD(3)[OF TP])
      then have "create_ok TP part_schema (uw_pts w) ?r (t_upsert TP same_part ?f ?r (uw_pts w))"
        using False by (simp only: upsert_ok_def if_False)
      then have "\<exists>t i. t_upsert TP same_part ?f ?r (uw_pts w) = Some t
          \<and> rows TP t = ?rs @ [?r\<lparr>pt_id := i\<rparr>] \<and> i \<notin> pt_id ` set ?rs"
        using no by (simp only: create_ok_def if_False) simp
      then show ?thesis using that by blast
    qed
    have "unique_rows part_schema (rows TP t)"
      using unique_rows_append[OF schemas_ok(2) P, of ?r i] False t(3) unfolding t(2)
      by (auto simp: same_part_def)
    moreover have "prow ` set (rows TP t) = insert (up_token u, idx, h)
          (prow ` {p \<in> set ?rs. \<not> (pt_idx p = idx \<and> pt_token p = up_token u)})"
    proof -
      have "{p \<in> set ?rs. \<not> (pt_idx p = idx \<and> pt_token p = up_token u)} = set ?rs"
        using False by (auto simp: same_part_def)
      then show ?thesis unfolding t(2) by (simp add: prow_def)
    qed
    ultimately show ?thesis using t(1) f by (intro exI[of _ t]) (simp add: UploadPart_op_def)
  qed
qed

section \<open>The invariant of the two tables\<close>

text \<open>Rows are unique and no part is orphaned: its token is the token of an upload.\<close>

definition up_inv :: "'u utab \<Rightarrow> 'p ptab \<Rightarrow> ('u, 'p) uworld \<Rightarrow> bool" where
  "up_inv TU TP w \<longleftrightarrow> unique_rows upload_schema (rows TU (uw_ups w))
     \<and> unique_rows part_schema (rows TP (uw_pts w))
     \<and> pt_token ` set (rows TP (uw_pts w)) \<subseteq> up_token ` set (rows TU (uw_ups w))"

lemma up_inv_fs [simp]: "up_inv TU TP (w\<lparr>uw_fs := f\<rparr>) = up_inv TU TP w"
  by (simp add: up_inv_def)

lemma up_inv_InitUpload:
  assumes TU: "table_ok TU upload_schema" and i: "up_inv TU TP w"
  shows "up_inv TU TP (snd (InitUpload TU tok now key sz ch sid w))"
proof (cases "find1 TU (\<lambda>u. up_key u = key) (uw_ups w)")
  case (Some u)
  then show ?thesis using i by (simp add: InitUpload_def)
next
  case None
  let ?r = "\<lparr> up_id = 0, up_created = now, up_token = tok, up_key = key,
      up_tmp = tmp_name key, up_storage = sid, up_size = sz, up_chunk = ch,
      up_md5 = [], up_state = RUNNING \<rparr>"
  show ?thesis
  proof (cases "t_create TU ?r (uw_ups w)")
    case None
    then show ?thesis using i \<open>find1 _ _ _ = None\<close> by (simp add: InitUpload_def)
  next
    case (Some t)
    obtain j where t: "\<forall>x\<in>set (rows TU (uw_ups w)). \<not> s_clash upload_schema x ?r"
      "rows TU t = rows TU (uw_ups w) @ [s_set_id upload_schema j ?r]"
      "j \<notin> s_id upload_schema ` set (rows TU (uw_ups w))"
      using t_create_Some[OF TU Some] by blast
    have "unique_rows upload_schema (rows TU t)" unfolding t(2)
      by (rule unique_rows_append[OF schemas_ok(1) _ t(1,3)]) (use i in \<open>simp add: up_inv_def\<close>)
    then show ?thesis using i \<open>find1 _ _ _ = None\<close> Some t(2)
      by (auto simp: InitUpload_def up_inv_def)
  qed
qed

lemma up_inv_UploadPart_op:
  assumes TU: "table_ok TU upload_schema" and TP: "table_ok TP part_schema" and i: "up_inv TU TP w"
  shows "up_inv TU TP (snd (UploadPart_op TU TP key idx h w))"
proof (cases "find1 TU (\<lambda>u. up_key u = key) (uw_ups w)")
  case None
  then show ?thesis using i by (simp add: UploadPart_op_def)
next
  case (Some u)
  then have u: "u \<in> set (rows TU (uw_ups w))" "up_key u = key" using find1_Some[OF TU] by blast+
  have I: "unique_rows upload_schema (rows TU (uw_ups w))"
     "unique_rows part_schema (rows TP (uw_pts w))"
     "pt_token ` set (rows TP (uw_pts w)) \<subseteq> up_token ` set (rows TU (uw_ups w))"
    using i by (simp_all add: up_inv_def)
  obtain t where t: "UploadPart_op TU TP key idx h w = (None, w\<lparr>uw_pts := t\<rparr>)"
    "unique_rows part_schema (rows TP t)"
    "prow ` set (rows TP t) = insert (up_token u, idx, h)
          (prow ` {p \<in> set (rows TP (uw_pts w)). \<not> (pt_idx p = idx \<and> pt_token p = up_token u)})"
    using UploadPart_op_rows[OF TU TP I(1) u(1) I(2), of idx h] unfolding u(2) by blast
  have "pt_token ` set (rows TP t) = fst ` prow ` set (rows TP t)" by (simp add: image_image prow_def)
  also have "\<dots> \<subseteq> insert (up_token u) (pt_token ` set (rows TP (uw_pts w)))"
    unfolding t(3) by (simp add: image_image prow_def) blast
  also have "\<dots> \<subseteq> up_token ` set (rows TU (uw_ups w))" using I(3) u(1) by simp
  finally show ?thesis using t(1,2) I(1) by (simp add: up_inv_def)
qed

lemma up_inv_CompletePart:
  assumes TU: "table_ok TU upload_schema" and i: "up_inv TU TP w"
  shows "up_inv TU TP (snd (CompletePart md5 TU TP key m w))"
proof -
  have "up_inv TU TP (case t_update TU (\<lambda>x. up_id x = k)
      (\<lambda>x. x\<lparr>up_md5 := e, up_state := DONE\<rparr>) (uw_ups w) of None \<Rightarrow> w | Some t \<Rightarrow> w\<lparr>uw_ups := t\<rparr>)"
    for k e
  proof -
    let ?f = "\<lambda>x. x\<lparr>up_md5 := e, up_state := DONE\<rparr>"
    obtain t where t: "t_update TU (\<lambda>x. up_id x = k) ?f (uw_ups w) = Some t"
      "rows TU t = map (\<lambda>x. if up_id x = k then ?f x else x) (rows TU (uw_ups w))"
      using t_update_rows[OF TU, of ?f "\<lambda>x. up_id x = k" "uw_ups w"] by (auto simp del: split_paired_Ex)
    have "unique_rows upload_schema (rows TU t)" unfolding t(2)
      by (rule unique_rows_map) (use i in \<open>auto simp: up_inv_def\<close>)
    moreover have "map up_token (rows TU t) = map up_token (rows TU (uw_ups w))"
      unfolding t(2) by simp
    then have "up_token ` set (rows TU t) = up_token ` set (rows TU (uw_ups w))"
      by (metis set_map)
    ultimately show ?thesis using i t(1) by (simp add: up_inv_def)
  qed
  then show ?thesis using i unfolding CompletePart_def Let_def
    by (auto split: option.split sum.split list.split)
qed

text \<open>Deleting an upload with its parts.\<close>

lemma up_inv_drop:
  assumes i: "up_inv TU TP w"
    and p: "rows TP pts = filter (\<lambda>p. pt_token p \<noteq> tok) (rows TP (uw_pts w))"
    and u: "rows TU ups = filter (\<lambda>x. \<not> Q x) (rows TU (uw_ups w))"
    and Q: "\<And>x. x \<in> set (rows TU (uw_ups w)) \<Longrightarrow> Q x \<Longrightarrow> up_token x = tok"
  shows "up_inv TU TP (w\<lparr>uw_pts := pts, uw_ups := ups\<rparr>)"
proof -
  have "pt_token ` set (rows TP pts) \<subseteq> up_token ` set (rows TU ups)"
  proof
    fix k assume "k \<in> pt_token ` set (rows TP pts)"
    then have k: "k \<noteq> tok" "k \<in> pt_token ` set (rows TP (uw_pts w))" using p by auto
    then obtain x where x: "x \<in> set (rows TU (uw_ups w))" "k = up_token x"
      using i by (auto simp: up_inv_def)
    then have "\<not> Q x" using Q k(1) by blast
    then show "k \<in> up_token ` set (rows TU ups)" using x u by simp
  qed
  then show ?thesis using i p u by (simp add: up_inv_def unique_rows_filter)
qed

lemma unique_up_token: "up_inv TU TP w \<Longrightarrow> u \<in> set (rows TU (uw_ups w)) \<Longrightarrow>
    x \<in> set (rows TU (uw_ups w)) \<Longrightarrow> up_id x = up_id u \<Longrightarrow> up_token x = up_token u"
  using unique_id[of upload_schema "rows TU (uw_ups w)" x u] by (simp add: up_inv_def)

lemma up_inv_delete_upload:
  assumes TU: "table_ok TU upload_schema" and TP: "table_ok TP part_schema" and i: "up_inv TU TP w"
    and u: "\<And>x. x \<in> set (rows TU (uw_ups w)) \<Longrightarrow> up_id x = up_id u \<Longrightarrow> up_token x = up_token u"
  shows "up_inv TU TP (snd (delete_upload TU TP u w))
    \<and> set (rows TU (uw_ups (snd (delete_upload TU TP u w)))) \<subseteq> set (rows TU (uw_ups w))"
proof -
  obtain pts where p: "t_delete TP (\<lambda>p. pt_token p = up_token u) (uw_pts w) = Some pts"
    "rows TP pts = filter (\<lambda>p. pt_token p \<noteq> up_token u) (rows TP (uw_pts w))"
    using t_delete_rows[OF TP] by blast
  obtain ups where q: "t_delete TU (\<lambda>x. up_id x = up_id u) (uw_ups w) = Some ups"
    "rows TU ups = filter (\<lambda>x. up_id x \<noteq> up_id u) (rows TU (uw_ups w))"
    using t_delete_rows[OF TU] by blast
  have "snd (delete_upload TU TP u w) = w\<lparr>uw_pts := pts, uw_ups := ups\<rparr>"
    using p(1) q(1) by (simp add: delete_upload_def)
  then show ?thesis using up_inv_drop[OF i p(2) q(2)] u q(2) by simp
qed

lemma up_inv_DestroyUploadByToken:
  assumes TU: "table_ok TU upload_schema" and TP: "table_ok TP part_schema" and i: "up_inv TU TP w"
  shows "up_inv TU TP (snd (DestroyUploadByToken TU TP tok w))"
proof -
  obtain pts where p: "t_delete TP (\<lambda>p. pt_token p = tok) (uw_pts w) = Some pts"
    "rows TP pts = filter (\<lambda>p. pt_token p \<noteq> tok) (rows TP (uw_pts w))"
    using t_delete_rows[OF TP] by blast
  show ?thesis
  proof (cases "find1 TU (\<lambda>u. up_token u = tok) (uw_ups w)")
    case None
    have "up_inv TU TP (w\<lparr>uw_pts := pts\<rparr>)"
      using up_inv_drop[OF i p(2), of "uw_ups w" "\<lambda>_. False"] by simp
    then show ?thesis using p(1) None by (simp add: DestroyUploadByToken_def)
  next
    case (Some u)
    then have u: "u \<in> set (rows TU (uw_ups w))" "up_token u = tok" using find1_Some[OF TU] by blast+
    obtain ups where q: "t_delete TU (\<lambda>x. up_id x = up_id u) (uw_ups w) = Some ups"
      "rows TU ups = filter (\<lambda>x. up_id x \<noteq> up_id u) (rows TU (uw_ups w))"
      using t_delete_rows[OF TU] by blast
    have "up_inv TU TP (w\<lparr>uw_pts := pts, uw_ups := ups\<rparr>)"
      by (rule up_inv_drop[OF i p(2) q(2)]) (use unique_up_token[OF i u(1)] u(2) in simp)
    then show ?thesis using p(1) Some q(1)
      by (simp add: DestroyUploadByToken_def Let_def up_inv_def)
  qed
qed

lemma up_inv_destroy_loop:
  assumes TU: "table_ok TU upload_schema" and TP: "table_ok TP part_schema"
  shows "up_inv TU TP w \<Longrightarrow>
    (\<And>u x. u \<in> set us \<Longrightarrow> x \<in> set (rows TU (uw_ups w)) \<Longrightarrow> up_id x = up_id u \<Longrightarrow> up_token x = up_token u) \<Longrightarrow>
    up_inv TU TP (snd (destroy_loop TU TP us paths w)) \<and> up_inv TU TP (delete_all TU TP us w)"
proof (induction us arbitrary: paths w)
  case Nil
  then show ?case by (simp add: delete_all_def)
next
  case (Cons u us)
  let ?w = "snd (delete_upload TU TP u w)"
  have d: "up_inv TU TP ?w" "set (rows TU (uw_ups ?w)) \<subseteq> set (rows TU (uw_ups w))"
    using up_inv_delete_upload[OF TU TP Cons.prems(1), of u] Cons.prems(2)[of u] by simp_all
  have "up_inv TU TP (snd (destroy_loop TU TP us p ?w)) \<and> up_inv TU TP (delete_all TU TP us ?w)" for p
    by (rule Cons.IH[OF d(1)]) (use Cons.prems(2) d(2) in \<open>meson list.set_intros(2) subsetD\<close>)
  then show ?case using d(1)
    by (cases "delete_upload TU TP u w") (auto simp: delete_all_def split: bool.split)
qed

lemma up_inv_scavenge_one:
  assumes TU: "table_ok TU upload_schema" and TP: "table_ok TP part_schema" and i: "up_inv TU TP w"
  shows "up_inv TU TP (scavenge_one TU TP u w)"
proof -
  obtain pts where p: "t_delete TP (\<lambda>p. pt_token p = up_token u) (uw_pts w) = Some pts"
    "rows TP pts = filter (\<lambda>p. pt_token p \<noteq> up_token u) (rows TP (uw_pts w))"
    using t_delete_rows[OF TP] by blast
  obtain ups where q: "t_delete TU (\<lambda>x. up_token x = up_token u) (uw_ups w) = Some ups"
    "rows TU ups = filter (\<lambda>x. up_token x \<noteq> up_token u) (rows TU (uw_ups w))"
    using t_delete_rows[OF TU] by blast
  have "up_inv TU TP (w\<lparr>uw_pts := pts, uw_ups := ups\<rparr>)"
    by (rule up_inv_drop[OF i p(2) q(2)]) simp
  then show ?thesis using p(1) q(1) by (simp add: scavenge_one_def Let_def up_inv_def)
qed

lemma up_inv_maintenance:
  assumes TU: "table_ok TU upload_schema" and TP: "table_ok TP part_schema" and i: "up_inv TU TP w"
  shows "up_inv TU TP (snd (DestroyUploadByKey like TU TP key w))"
    "up_inv TU TP (Clean TU TP w)" "up_inv TU TP (ScavengeUpload TU TP now w)"
proof -
  have l: "up_inv TU TP (snd (destroy_loop TU TP (filter P (rows TU (uw_ups w))) [] w))
      \<and> up_inv TU TP (delete_all TU TP (filter P (rows TU (uw_ups w))) w)" for P
  proof (rule up_inv_destroy_loop[OF TU TP i])
    fix u x assume "u \<in> set (filter P (rows TU (uw_ups w)))" "x \<in> set (rows TU (uw_ups w))"
      "up_id x = up_id u"
    then show "up_token x = up_token u" by (intro unique_up_token[OF i]) simp_all
  qed
  then show "up_inv TU TP (snd (DestroyUploadByKey like TU TP key w))" "up_inv TU TP (Clean TU TP w)"
    by (simp_all add: DestroyUploadByKey_def Clean_def table_okD(1)[OF TU])
  have "up_inv TU TP (fold (scavenge_one TU TP) us w)" for us
    using i by (induction us arbitrary: w) (simp_all add: up_inv_scavenge_one[OF TU TP])
  then show "up_inv TU TP (ScavengeUpload TU TP now w)"
    by (simp add: ScavengeUpload_def table_okD(1)[OF TU])
qed

lemma destroy_loop_rows:
  assumes TU: "table_ok TU upload_schema" and TP: "table_ok TP part_schema"
  shows "\<exists>w'. destroy_loop TU TP us paths w = ((paths @ map up_tmp us, None), w')
    \<and> delete_all TU TP us w = w'
    \<and> rows TU (uw_ups w') = filter (\<lambda>x. up_id x \<notin> up_id ` set us) (rows TU (uw_ups w))
    \<and> rows TP (uw_pts w') = filter (\<lambda>p. pt_token p \<notin> up_token ` set us) (rows TP (uw_pts w))
    \<and> uw_fs w' = uw_fs w"
proof (induction us arbitrary: paths w)
  case Nil
  then show ?case by (simp add: delete_all_def)
next
  case (Cons u us)
  obtain pts where p: "t_delete TP (\<lambda>p. pt_token p = up_token u) (uw_pts w) = Some pts"
    "rows TP pts = filter (\<lambda>p. pt_token p \<noteq> up_token u) (rows TP (uw_pts w))"
    using t_delete_rows[OF TP] by blast
  obtain ups where q: "t_delete TU (\<lambda>x. up_id x = up_id u) (uw_ups w) = Some ups"
    "rows TU ups = filter (\<lambda>x. up_id x \<noteq> up_id u) (rows TU (uw_ups w))"
    using t_delete_rows[OF TU] by blast
  have d: "delete_upload TU TP u w = (True, w\<lparr>uw_pts := pts, uw_ups := ups\<rparr>)"
    using p(1) q(1) by (simp add: delete_upload_def)
  let ?w = "w\<lparr>uw_pts := pts, uw_ups := ups\<rparr>"
  obtain w' where w': "destroy_loop TU TP us (paths @ [up_tmp u]) ?w
      = (((paths @ [up_tmp u]) @ map up_tmp us, None), w')" "delete_all TU TP us ?w = w'"
    "rows TU (uw_ups w') = filter (\<lambda>x. up_id x \<notin> up_id ` set us) (rows TU (uw_ups ?w))"
    "rows TP (uw_pts w') = filter (\<lambda>p. pt_token p \<notin> up_token ` set us) (rows TP (uw_pts ?w))"
    "uw_fs w' = uw_fs ?w"
    using Cons.IH[of "paths @ [up_tmp u]" ?w] by blast
  have "rows TU (uw_ups w') = filter (\<lambda>x. up_id x \<notin> up_id ` set (u # us)) (rows TU (uw_ups w))"
    unfolding w'(3) by (simp add: q(2) conj_commute)
  moreover have "rows TP (uw_pts w')
      = filter (\<lambda>p. pt_token p \<notin> up_token ` set (u # us)) (rows TP (uw_pts w))"
    unfolding w'(4) by (simp add: p(2) conj_commute)
  moreover have "destroy_loop TU TP (u # us) paths w = ((paths @ map up_tmp (u # us), None), w')"
    using w'(1) d by simp
  moreover have "delete_all TU TP (u # us) w = w'" using w'(2) d by (simp add: delete_all_def)
  moreover have "uw_fs w' = uw_fs w" using w'(5) by simp
  ultimately show ?case by blast
qed

lemma matching_ids:
  assumes "up_inv TU TP w"
  shows "filter (\<lambda>x. up_id x \<notin> up_id ` set (filter P (rows TU (uw_ups w)))) (rows TU (uw_ups w))
    = filter (\<lambda>x. \<not> P x) (rows TU (uw_ups w))"
proof (rule filter_cong[OF refl])
  fix x assume x: "x \<in> set (rows TU (uw_ups w))"
  have U: "unique_rows upload_schema (rows TU (uw_ups w))" using assms by (simp add: up_inv_def)
  show "up_id x \<notin> up_id ` set (filter P (rows TU (uw_ups w))) \<longleftrightarrow> \<not> P x"
  proof
    assume "up_id x \<notin> up_id ` set (filter P (rows TU (uw_ups w)))"
    then show "\<not> P x" using x by auto
  next
    assume n: "\<not> P x"
    show "up_id x \<notin> up_id ` set (filter P (rows TU (uw_ups w)))"
    proof
      assume "up_id x \<in> up_id ` set (filter P (rows TU (uw_ups w)))"
      then obtain y where y: "y \<in> set (rows TU (uw_ups w))" "P y" "up_id x = up_id y" by auto
      have "x = y" using unique_id[OF U x y(1)] y(3) by simp
      then show False using n y(2) by simp
    qed
  qed
qed

text \<open>Deleting by key returns the temporary names of exactly the uploads whose key matches the
  pattern \<open>key%\<close>, and removes these uploads and all their parts and nothing else: every other
  upload and every part of another upload is kept, the rows stay unique and no part is orphaned.\<close>

theorem DestroyUploadByKey_exact:
  assumes TU: "table_ok TU upload_schema" and TP: "table_ok TP part_schema" and i: "up_inv TU TP w"
  shows "\<exists>w'. DestroyUploadByKey like TU TP key w =
        ((map up_tmp (filter (\<lambda>u. like (key @ ''%'') (up_key u)) (rows TU (uw_ups w))), None), w')
    \<and> rows TU (uw_ups w') = filter (\<lambda>u. \<not> like (key @ ''%'') (up_key u)) (rows TU (uw_ups w))
    \<and> rows TP (uw_pts w') = filter (\<lambda>p. pt_token p \<in> up_token ` set (rows TU (uw_ups w')))
        (rows TP (uw_pts w))
    \<and> up_inv TU TP w'"
proof -
  let ?P = "\<lambda>u. like (key @ ''%'') (up_key u)"
  let ?M = "filter ?P (rows TU (uw_ups w))"
  obtain w' where w': "destroy_loop TU TP ?M [] w = (([] @ map up_tmp ?M, None), w')"
    "rows TU (uw_ups w') = filter (\<lambda>x. up_id x \<notin> up_id ` set ?M) (rows TU (uw_ups w))"
    "rows TP (uw_pts w') = filter (\<lambda>p. pt_token p \<notin> up_token ` set ?M) (rows TP (uw_pts w))"
    using destroy_loop_rows[OF TU TP, of ?M "[]" w] by blast
  have u: "rows TU (uw_ups w') = filter (\<lambda>u. \<not> ?P u) (rows TU (uw_ups w))"
    unfolding w'(2) by (rule matching_ids[OF i])
  have D: "DestroyUploadByKey like TU TP key w = ((map up_tmp ?M, None), w')"
    using w'(1) by (simp add: DestroyUploadByKey_def table_okD(1)[OF TU])
  then have inv: "up_inv TU TP w'" using up_inv_maintenance(1)[OF TU TP i, of like key] by simp
  have "pt_token p \<notin> up_token ` set ?M \<longleftrightarrow> pt_token p \<in> up_token ` set (rows TU (uw_ups w'))"
    if p: "p \<in> set (rows TP (uw_pts w))" for p
  proof -
    obtain x where x: "x \<in> set (rows TU (uw_ups w))" "up_token x = pt_token p"
    proof -
      have "pt_token p \<in> pt_token ` set (rows TP (uw_pts w))" using p by simp
      then have "pt_token p \<in> up_token ` set (rows TU (uw_ups w))"
        using i unfolding up_inv_def by blast
      then show ?thesis using that by (metis imageE)
    qed
    have only: "y = x" if "y \<in> set (rows TU (uw_ups w))" "up_token y = pt_token p" for y
    proof -
      have "s_clash upload_schema y x" using that(2) x(2) by simp
      then show ?thesis using i x(1) that(1) unfolding up_inv_def unique_rows_def by blast
    qed
    have e: "pt_token p \<in> up_token ` set (filter Q (rows TU (uw_ups w))) \<longleftrightarrow> Q x" for Q
    proof
      assume "pt_token p \<in> up_token ` set (filter Q (rows TU (uw_ups w)))"
      then obtain y where "y \<in> set (rows TU (uw_ups w))" "Q y" "up_token y = pt_token p" by auto
      then show "Q x" using only by metis
    next
      assume "Q x"
      then have "x \<in> set (filter Q (rows TU (uw_ups w)))" using x(1) by simp
      then show "pt_token p \<in> up_token ` set (filter Q (rows TU (uw_ups w)))"
        unfolding x(2)[symmetric] by (rule imageI)
    qed
    show ?thesis unfolding u e ..
  qed
  then have "rows TP (uw_pts w') = filter (\<lambda>p. pt_token p \<in> up_token ` set (rows TU (uw_ups w')))
        (rows TP (uw_pts w))"
    unfolding w'(3) by (intro filter_cong) auto
  then show ?thesis using D u inv by blast
qed

definition ex_upload :: "nat \<Rightarrow> string \<Rightarrow> string \<Rightarrow> Upload" where
  "ex_upload i tok key = \<lparr>up_id = i, up_created = 0, up_token = tok, up_key = key,
     up_tmp = tmp_name key, up_storage = -1, up_size = 3, up_chunk = 1048576, up_md5 = [],
     up_state = RUNNING\<rparr>"

definition ex_ups :: "Upload list" where
  "ex_ups = [ex_upload 1 ''1'' ''/d/a'', ex_upload 2 ''2'' ''/d/ab'', ex_upload 3 ''3'' ''/d/c'']"

definition ex_pts :: "UploadPart list" where
  "ex_pts = [\<lparr>pt_id = 1, pt_token = ''2'', pt_idx = 0, pt_md5 = ''00''\<rparr>,
       \<lparr>pt_id = 2, pt_token = ''3'', pt_idx = 0, pt_md5 = ''00''\<rparr>]"

definition ex_uworld :: "(Upload list, UploadPart list) uworld" where
  "ex_uworld = \<lparr>uw_fs = Map.empty, uw_ups = ex_ups, uw_pts = ex_pts\<rparr>"

theorem DestroyUploadByKey_exact_witness:
  "\<exists>w'. DestroyUploadByKey (\<lambda>p s. prefix (butlast p) s) (list_table upload_schema)
        (list_table part_schema) ''/d/a'' ex_uworld = ((map tmp_name [''/d/a'', ''/d/ab''], None), w')
     \<and> uw_ups w' = [ex_upload 3 ''3'' ''/d/c''] \<and> uw_pts w' = [ex_pts ! 1]"
proof -
  let ?like = "\<lambda>p s. prefix (butlast p) s"
  have i: "up_inv (list_table upload_schema) (list_table part_schema) ex_uworld"
    by (simp add: up_inv_def unique_rows_def ex_uworld_def ex_upload_def ex_ups_def ex_pts_def)
  obtain w' where w': "DestroyUploadByKey ?like (list_table upload_schema) (list_table part_schema)
      ''/d/a'' ex_uworld
      = ((map up_tmp (filter (\<lambda>u. ?like (''/d/a'' @ ''%'') (up_key u)) ex_ups), None), w')"
    "uw_ups w' = filter (\<lambda>u. \<not> ?like (''/d/a'' @ ''%'') (up_key u)) ex_ups"
    "uw_pts w' = filter (\<lambda>p. pt_token p \<in> up_token ` set (uw_ups w')) ex_pts"
    using DestroyUploadByKey_exact[OF list_table_ok list_table_ok i, of ?like "''/d/a''"]
    by (auto simp: ex_uworld_def)
  have "uw_ups w' = [ex_upload 3 ''3'' ''/d/c'']" "map up_tmp (filter (\<lambda>u. ?like (''/d/a'' @ ''%'') (up_key u)) ex_ups)
      = map tmp_name [''/d/a'', ''/d/ab'']"
    unfolding w'(2) by (simp_all add: ex_ups_def ex_upload_def)
  moreover from this have "uw_pts w' = [ex_pts ! 1]"
    unfolding w'(3) by (simp add: ex_pts_def ex_upload_def)
  ultimately show ?thesis using w'(1) by auto
qed

end
