(* ===== verification/AppStore.thy ===== *)
theory AppStore
  imports UploadStore
begin

text \<open>
  The records of copies, of trial software and of the full-backup chores: \<open>copyline.go\<close>, \<open>apply.go\<close>,
  \<open>chore.go\<close> and \<open>chore_enum.go\<close> of \<open>internal/storage\<close>, over tables as in theory \<open>Table\<close>. Times are in
  seconds. A condition given as a struct skips the fields that are zero, as gorm documents.
\<close>

section \<open>Copy lines\<close>

record CopyLine =
  cl_pk :: nat
  cl_Group :: string
  cl_SrcPath :: string
  cl_DstPath :: string
  cl_SrcID :: int
  cl_DstID :: int
  cl_State :: UploadState
  cl_Extra :: string
  cl_created :: int
  cl_updated :: int

definition copy_schema :: "CopyLine schema" where
  "copy_schema = \<lparr> s_id = cl_pk, s_set_id = (\<lambda>i. cl_pk_update (\<lambda>_. i)), s_clash = (\<lambda>_ _. False) \<rparr>"

lemma copy_schema_simps [simp]:
  "s_id copy_schema = cl_pk" "s_set_id copy_schema i = cl_pk_update (\<lambda>_. i)" "s_clash copy_schema x y = False"
  by (simp_all add: copy_schema_def)

type_synonym 'c ctab = "('c, CopyLine) table_ops"

text \<open>\<open>result.Error\<close> is only whether there was one.\<close>

definition exec :: "'t option \<Rightarrow> 't \<Rightarrow> bool \<times> 't" where
  "exec r t = (case r of Some t' \<Rightarrow> (True, t') | None \<Rightarrow> (False, t))"

definition AddCopyLineG :: "'c ctab \<Rightarrow> int \<Rightarrow> string \<Rightarrow> int \<Rightarrow> string \<Rightarrow> int \<Rightarrow> string \<Rightarrow> 'c \<Rightarrow> bool \<times> 'c" where
  "AddCopyLineG TC now src srcID dst dstID grp t = exec (t_create TC
     \<lparr>cl_pk = 0, cl_Group = grp, cl_SrcPath = src, cl_DstPath = dst, cl_SrcID = srcID, cl_DstID = dstID,
      cl_State = RUNNING, cl_Extra = [], cl_created = now, cl_updated = now\<rparr> t) t"

definition AddCopyLine :: "'c ctab \<Rightarrow> int \<Rightarrow> string \<Rightarrow> int \<Rightarrow> string \<Rightarrow> int \<Rightarrow> 'c \<Rightarrow> bool \<times> 'c" where
  "AddCopyLine TC now src srcID dst dstID t = exec (t_create TC
     \<lparr>cl_pk = 0, cl_Group = [], cl_SrcPath = src, cl_DstPath = dst, cl_SrcID = srcID, cl_DstID = dstID,
      cl_State = RUNNING, cl_Extra = [], cl_created = now, cl_updated = now\<rparr> t) t"

text \<open>The condition of a struct with these fields.\<close>

definition line_cond :: "string \<Rightarrow> int \<Rightarrow> string \<Rightarrow> int \<Rightarrow> string \<Rightarrow> CopyLine \<Rightarrow> bool" where
  "line_cond src srcID dst dstID grp x \<longleftrightarrow>
     (src = [] \<or> cl_SrcPath x = src) \<and> (srcID = 0 \<or> cl_SrcID x = srcID)
   \<and> (dst = [] \<or> cl_DstPath x = dst) \<and> (dstID = 0 \<or> cl_DstID x = dstID)
   \<and> (grp = [] \<or> cl_Group x = grp)"

definition end_of :: "bool \<Rightarrow> UploadState" where
  "end_of success = (if success then DONE else FAILED)"

text \<open>Without any condition gorm refuses the update.\<close>

definition DoneCopyLine :: "'c ctab \<Rightarrow> int \<Rightarrow> string \<Rightarrow> int \<Rightarrow> string \<Rightarrow> int \<Rightarrow> bool \<Rightarrow> 'c \<Rightarrow> bool \<times> 'c" where
  "DoneCopyLine TC now src srcID dst dstID success t =
     (if src = [] \<and> srcID = 0 \<and> dst = [] \<and> dstID = 0 then (False, t)
      else exec (t_update TC (line_cond src srcID dst dstID [])
             (\<lambda>x. x\<lparr>cl_State := end_of success, cl_updated := now\<rparr>) t) t)"

text \<open>\<open>Updates\<close> with a struct leaves out an empty \<open>Extra\<close>.\<close>

definition DoneCopyLineG :: "'c ctab \<Rightarrow> int \<Rightarrow> string \<Rightarrow> int \<Rightarrow> string \<Rightarrow> int \<Rightarrow> bool \<Rightarrow> string \<Rightarrow> string \<Rightarrow> 'c \<Rightarrow>
    bool \<times> 'c" where
  "DoneCopyLineG TC now src srcID dst dstID success grp extra t =
     (if src = [] \<and> srcID = 0 \<and> dst = [] \<and> dstID = 0 \<and> grp = [] then (False, t)
      else exec (t_update TC (line_cond src srcID dst dstID grp)
             (\<lambda>x. x\<lparr>cl_State := end_of success, cl_updated := now,
                     cl_Extra := (if extra = [] then cl_Extra x else extra)\<rparr>) t) t)"

definition LoadCopyLines :: "'c ctab \<Rightarrow> string \<Rightarrow> int \<Rightarrow> string \<Rightarrow> int \<Rightarrow> 'c \<Rightarrow> CopyLine list option" where
  "LoadCopyLines TC src srcID dst dstID t = t_find TC (line_cond src srcID dst dstID []) t"

definition LoadCopyLinesByG :: "'c ctab \<Rightarrow> string \<Rightarrow> 'c \<Rightarrow> CopyLine list option" where
  "LoadCopyLinesByG TC grp t = t_find TC (\<lambda>x. grp = [] \<or> cl_Group x = grp) t"

text \<open>The callback is asked for each line; what it accepts is deleted. A failing statement is ignored.\<close>

type_synonym copy_cb = "string \<Rightarrow> int \<Rightarrow> string \<Rightarrow> int \<Rightarrow> bool \<Rightarrow> bool"

definition scavenge_lines :: "'c ctab \<Rightarrow> copy_cb \<Rightarrow> (CopyLine \<Rightarrow> bool) \<Rightarrow> CopyLine list \<Rightarrow> 'c \<Rightarrow> 'c" where
  "scavenge_lines TC f ok = fold (\<lambda>x t.
     if f (cl_SrcPath x) (cl_SrcID x) (cl_DstPath x) (cl_DstID x) (ok x)
     then snd (exec (t_delete TC (\<lambda>y. cl_pk y = cl_pk x) t) t) else t)"

definition found :: "'r list option \<Rightarrow> 'r list" where
  "found r = (case r of None \<Rightarrow> [] | Some xs \<Rightarrow> xs)"

definition ScavengeCopyLine :: "'c ctab \<Rightarrow> int \<Rightarrow> copy_cb \<Rightarrow> 'c \<Rightarrow> 'c" where
  "ScavengeCopyLine TC now f t =
     (let t1 = scavenge_lines TC f (\<lambda>_. False)
            (found (t_find TC (\<lambda>x. cl_created x < now - 12 * hour \<and> cl_State x = RUNNING) t)) t
      in scavenge_lines TC f (\<lambda>x. cl_State x = DONE)
            (found (t_find TC (\<lambda>x. cl_updated x < now - 6 * hour \<and> cl_State x \<noteq> RUNNING) t1)) t1)"

section \<open>Trial software\<close>

record AppTrialApply =
  ap_pk :: nat
  ap_Name :: string
  ap_Path :: string
  ap_State :: UploadState
  ap_Reported :: bool
  ap_updated :: int

definition apply_schema :: "AppTrialApply schema" where
  "apply_schema = \<lparr> s_id = ap_pk, s_set_id = (\<lambda>i. ap_pk_update (\<lambda>_. i)),
     s_clash = (\<lambda>x y. ap_Name x = ap_Name y \<or> ap_Path x = ap_Path y) \<rparr>"

lemma apply_schema_simps [simp]:
  "s_id apply_schema = ap_pk" "s_set_id apply_schema i = ap_pk_update (\<lambda>_. i)"
  "s_clash apply_schema x y \<longleftrightarrow> ap_Name x = ap_Name y \<or> ap_Path x = ap_Path y"
  by (simp_all add: apply_schema_def)

type_synonym 'a atab = "('a, AppTrialApply) table_ops"

text \<open>None stands for \<open>ErrAppNotActivated\<close>.\<close>

definition LoadTrialAppApply :: "'a atab \<Rightarrow> string \<Rightarrow> 'a \<Rightarrow> AppTrialApply option" where
  "LoadTrialAppApply TA name t = find1 TA (\<lambda>x. ap_Name x = name) t"

definition LoadBootstrapRunningAppApply :: "'a atab \<Rightarrow> 'a \<Rightarrow> AppTrialApply list option" where
  "LoadBootstrapRunningAppApply TA t = t_find TA (\<lambda>x. ap_State x = RUNNING \<and> \<not> ap_Reported x) t"

definition AddAppTrialApply :: "'a atab \<Rightarrow> int \<Rightarrow> string \<Rightarrow> string \<Rightarrow> 'a \<Rightarrow> bool \<times> 'a" where
  "AddAppTrialApply TA now name path t = exec (t_upsert TA (\<lambda>x r. ap_Name x = ap_Name r)
     (\<lambda>x r. x\<lparr>ap_Name := ap_Name r, ap_Path := ap_Path r, ap_Reported := ap_Reported r, ap_State := ap_State r,
             ap_updated := ap_updated r\<rparr>)
     \<lparr>ap_pk = 0, ap_Name = name, ap_Path = path, ap_State = RUNNING, ap_Reported = False, ap_updated = now\<rparr> t) t"

definition DoneAppTrialApply :: "'a atab \<Rightarrow> int \<Rightarrow> string \<Rightarrow> bool \<Rightarrow> 'a \<Rightarrow> bool \<times> 'a" where
  "DoneAppTrialApply TA now name success t = exec (t_update TA (\<lambda>x. ap_Name x = name)
     (\<lambda>x. x\<lparr>ap_State := end_of success, ap_updated := now\<rparr>) t) t"

definition DeleteAppTrialApply :: "'a atab \<Rightarrow> string \<Rightarrow> 'a \<Rightarrow> bool \<times> 'a" where
  "DeleteAppTrialApply TA name t = exec (t_delete TA (\<lambda>x. ap_Name x = name) t) t"

text \<open>The callback may change the table, and a state of its own; what it accepts is deleted by its primary
  key.\<close>

type_synonym ('a, 's) apply_cb = "string \<Rightarrow> string \<Rightarrow> 'a \<times> 's \<Rightarrow> bool \<times> 'a \<times> 's"

definition scavenge_apply :: "'a atab \<Rightarrow> ('a, 's) apply_cb \<Rightarrow> AppTrialApply \<Rightarrow> 'a \<times> 's \<Rightarrow> 'a \<times> 's" where
  "scavenge_apply TA f x ts = (case f (ap_Name x) (ap_Path x) ts of
     (True, t, s) \<Rightarrow> (snd (exec (t_delete TA (\<lambda>y. ap_pk y = ap_pk x) t) t), s)
   | (False, t, s) \<Rightarrow> (t, s))"

definition ScavengeTrialApp :: "'a atab \<Rightarrow> int \<Rightarrow> ('a, 's) apply_cb \<Rightarrow> 'a \<times> 's \<Rightarrow> 'a \<times> 's" where
  "ScavengeTrialApp TA now f ts = fold (scavenge_apply TA f)
     (found (t_find TA (\<lambda>x. ap_updated x < now - 6 * hour \<and> ap_State x = RUNNING) (fst ts))) ts"

section \<open>Chores of the full backup\<close>

text \<open>A \<open>ChoreState\<close> is an integer; \<open>chore_enum.go\<close> names five of its values.\<close>

datatype ChoreState = ChoreStateINVALID | ChoreStateRUNNING | ChoreStateFAILED | ChoreStateFINISHED
  | ChoreStateACKED | ChoreStateOther int

definition ChoreStateName :: string where
  "ChoreStateName = ''INVALIDRUNNINGFAILEDFINISHEDACKED''"

definition slice :: "nat \<Rightarrow> nat \<Rightarrow> 'x list \<Rightarrow> 'x list" where
  "slice i j s = take (j - i) (drop i s)"

definition ChoreStateMap :: "(ChoreState \<times> string) list" where
  "ChoreStateMap = [(ChoreStateINVALID, slice 0 7 ChoreStateName), (ChoreStateRUNNING, slice 7 14 ChoreStateName),
     (ChoreStateFAILED, slice 14 20 ChoreStateName), (ChoreStateFINISHED, slice 20 28 ChoreStateName),
     (ChoreStateACKED, slice 28 33 ChoreStateName)]"

fun ChoreState_int :: "ChoreState \<Rightarrow> int" where
  "ChoreState_int ChoreStateINVALID = 0"
| "ChoreState_int ChoreStateRUNNING = 1"
| "ChoreState_int ChoreStateFAILED = 2"
| "ChoreState_int ChoreStateFINISHED = 3"
| "ChoreState_int ChoreStateACKED = 4"
| "ChoreState_int (ChoreStateOther i) = i"

text \<open>The format verb \<open>%d\<close> prints the integer.\<close>

definition ChoreState_String :: "ChoreState \<Rightarrow> string" where
  "ChoreState_String x = (case map_of ChoreStateMap x of
     Some s \<Rightarrow> s | None \<Rightarrow> ''ChoreState('' @ show_int (ChoreState_int x) @ '')'')"

definition ChoreStateValue :: "(string \<times> ChoreState) list" where
  "ChoreStateValue = [(slice 0 7 ChoreStateName, ChoreStateINVALID), (slice 7 14 ChoreStateName, ChoreStateRUNNING),
     (slice 14 20 ChoreStateName, ChoreStateFAILED), (slice 20 28 ChoreStateName, ChoreStateFINISHED),
     (slice 28 33 ChoreStateName, ChoreStateACKED)]"

definition ParseChoreState :: "string \<Rightarrow> string + ChoreState" where
  "ParseChoreState name = (case map_of ChoreStateValue name of
     Some x \<Rightarrow> Inr x | None \<Rightarrow> Inl (name @ '' is not a valid ChoreState''))"

definition MarshalText :: "ChoreState \<Rightarrow> string" where
  "MarshalText x = ChoreState_String x"

text \<open>The receiver is changed only when the text is accepted.\<close>

definition UnmarshalText :: "string \<Rightarrow> ChoreState \<Rightarrow> string option \<times> ChoreState" where
  "UnmarshalText text x = (case ParseChoreState text of Inl e \<Rightarrow> (Some e, x) | Inr y \<Rightarrow> (None, y))"

text \<open>A deletion that is not \<open>Unscoped\<close> only sets \<open>deleted_at\<close>, and queries leave such rows out.\<close>

record BackupChore =
  ch_ID :: nat
  ch_Path :: string
  ch_ManifestID :: string
  ch_ManifestSize :: u64
  ch_SnapshotSize :: u64
  ch_State :: ChoreState
  ch_Extra :: string
  ch_Username :: string
  ch_created :: int
  ch_updated :: int
  ch_deleted :: bool

definition chore_schema :: "BackupChore schema" where
  "chore_schema = \<lparr> s_id = ch_ID, s_set_id = (\<lambda>i. ch_ID_update (\<lambda>_. i)), s_clash = (\<lambda>_ _. False) \<rparr>"

lemma chore_schema_simps [simp]:
  "s_id chore_schema = ch_ID" "s_set_id chore_schema i = ch_ID_update (\<lambda>_. i)" "s_clash chore_schema x y = False"
  by (simp_all add: chore_schema_def)

type_synonym 'h htab = "('h, BackupChore) table_ops"

definition ToTags :: "BackupChore \<Rightarrow> (string \<times> string) list" where
  "ToTags c = [(''tag:author'', ch_Username c), (''tag:path'', ch_Path c), (''tag:id'', show_int (int (ch_ID c)))]"

definition NewBChore :: "'h htab \<Rightarrow> int \<Rightarrow> BackupChore \<Rightarrow> 'h \<Rightarrow> bool \<times> 'h" where
  "NewBChore TH now c t = exec (t_create TH (c\<lparr>ch_created := now, ch_updated := now, ch_deleted := False\<rparr>) t) t"

definition QueryOneChore :: "'h htab \<Rightarrow> int \<Rightarrow> 'h \<Rightarrow> BackupChore option" where
  "QueryOneChore TH i t = find1 TH (\<lambda>x. int (ch_ID x) = i \<and> \<not> ch_deleted x) t"

text \<open>\<open>Last\<close> orders by the primary key.\<close>

definition last_by_id :: "BackupChore list \<Rightarrow> BackupChore option" where
  "last_by_id xs = (if xs = [] then None else Some (last (sort_key ch_ID xs)))"

definition QueryLatestChore :: "'h htab \<Rightarrow> 'h \<Rightarrow> BackupChore option" where
  "QueryLatestChore TH t = last_by_id (found (t_find TH (\<lambda>x. 0 < ch_ID x \<and> \<not> ch_deleted x) t))"

text \<open>\<open>Save\<close> creates a row without a primary key and updates all fields of one with a key.\<close>

definition UpdateChore :: "'h htab \<Rightarrow> int \<Rightarrow> BackupChore \<Rightarrow> 'h \<Rightarrow> bool \<times> 'h" where
  "UpdateChore TH now u t =
     (if ch_ID u = 0 then NewBChore TH now u t
      else exec (t_update TH (\<lambda>x. ch_ID x = ch_ID u \<and> \<not> ch_deleted x) (\<lambda>_. u\<lparr>ch_updated := now\<rparr>) t) t)"

definition ChgBChoreState :: "'h htab \<Rightarrow> int \<Rightarrow> nat \<Rightarrow> ChoreState \<Rightarrow> 'h \<Rightarrow> bool \<times> 'h" where
  "ChgBChoreState TH now i st t = exec (t_update TH (\<lambda>x. ch_ID x = i \<and> \<not> ch_deleted x)
     (\<lambda>x. x\<lparr>ch_State := st, ch_updated := now\<rparr>) t) t"

definition ScavengeChores :: "'h htab \<Rightarrow> int \<Rightarrow> 'h \<Rightarrow> bool \<times> 'h" where
  "ScavengeChores TH now t = exec (t_update TH (\<lambda>x. ch_updated x < now - 30 * 24 * hour \<and> \<not> ch_deleted x)
     (\<lambda>x. x\<lparr>ch_deleted := True\<rparr>) t) t"

section \<open>Properties\<close>

text \<open>The names of the chore states survive a round trip. Each named state is read back from its text, a
  text that is accepted is the text of the state it gives, and the text of any other integer is
  refused, leaving the receiver as it was.\<close>

theorem chore_state_roundtrip:
  "(case x of ChoreStateOther i \<Rightarrow> snd (UnmarshalText (MarshalText x) y) = y \<and> fst (UnmarshalText (MarshalText x) y) \<noteq> None
     | _ \<Rightarrow> UnmarshalText (MarshalText x) y = (None, x))
   \<and> (case ParseChoreState name of Inr z \<Rightarrow> MarshalText z = name | Inl _ \<Rightarrow> True)"
proof
  show "case x of ChoreStateOther i \<Rightarrow> snd (UnmarshalText (MarshalText x) y) = y \<and> fst (UnmarshalText (MarshalText x) y) \<noteq> None
     | _ \<Rightarrow> UnmarshalText (MarshalText x) y = (None, x)"
    by (cases x) (simp_all add: UnmarshalText_def MarshalText_def ParseChoreState_def ChoreState_String_def
        ChoreStateMap_def ChoreStateValue_def ChoreStateName_def slice_def)
  show "case ParseChoreState name of Inr z \<Rightarrow> MarshalText z = name | Inl _ \<Rightarrow> True"
    by (auto simp: MarshalText_def ParseChoreState_def ChoreState_String_def
        ChoreStateMap_def ChoreStateValue_def ChoreStateName_def slice_def split: option.splits if_splits)
qed

text \<open>What \<open>DoneCopyLine\<close> and \<open>DoneCopyLineG\<close> do to the rows.\<close>

lemma DoneCopyLineG_rows:
  assumes TC: "table_ok TC copy_schema" and c: "src \<noteq> [] \<or> srcID \<noteq> 0 \<or> dst \<noteq> [] \<or> dstID \<noteq> 0 \<or> grp \<noteq> []"
  shows "\<exists>t'. DoneCopyLineG TC now src srcID dst dstID ok grp extra t = (True, t')
    \<and> rows TC t' = map (\<lambda>x. if line_cond src srcID dst dstID grp x
         then x\<lparr>cl_State := end_of ok, cl_updated := now, cl_Extra := (if extra = [] then cl_Extra x else extra)\<rparr>
         else x) (rows TC t)"
proof -
  have "\<exists>t'. t_update TC (line_cond src srcID dst dstID grp)
      (\<lambda>x. x\<lparr>cl_State := end_of ok, cl_updated := now, cl_Extra := (if extra = [] then cl_Extra x else extra)\<rparr>) t = Some t'
    \<and> rows TC t' = map (\<lambda>x. if line_cond src srcID dst dstID grp x
         then (\<lambda>x. x\<lparr>cl_State := end_of ok, cl_updated := now, cl_Extra := (if extra = [] then cl_Extra x else extra)\<rparr>) x else x) (rows TC t)"
    by (rule t_update_rows[OF TC]) simp
  then obtain t' where t': "t_update TC (line_cond src srcID dst dstID grp) (\<lambda>x. x\<lparr>cl_State := end_of ok, cl_updated := now, cl_Extra := (if extra = [] then cl_Extra x else extra)\<rparr>) t = Some t'"
    "rows TC t' = map (\<lambda>x. if line_cond src srcID dst dstID grp x then (\<lambda>x. x\<lparr>cl_State := end_of ok, cl_updated := now, cl_Extra := (if extra = [] then cl_Extra x else extra)\<rparr>) x else x) (rows TC t)"
    by (elim exE conjE)
  from c have n: "\<not> (src = [] \<and> srcID = 0 \<and> dst = [] \<and> dstID = 0 \<and> grp = [])" by simp
  show ?thesis
    by (intro exI[of _ t'] conjI) (simp only: DoneCopyLineG_def if_not_P[OF n] t'(1) exec_def option.case, simp only: t'(2))
qed

lemma DoneCopyLine_rows:
  assumes TC: "table_ok TC copy_schema" and c: "src \<noteq> [] \<or> srcID \<noteq> 0 \<or> dst \<noteq> [] \<or> dstID \<noteq> 0"
  shows "\<exists>t'. DoneCopyLine TC now src srcID dst dstID ok t = (True, t')
    \<and> rows TC t' = map (\<lambda>x. if line_cond src srcID dst dstID [] x
         then x\<lparr>cl_State := end_of ok, cl_updated := now\<rparr> else x) (rows TC t)"
proof -
  have "\<exists>t'. t_update TC (line_cond src srcID dst dstID [])
      (\<lambda>x. x\<lparr>cl_State := end_of ok, cl_updated := now\<rparr>) t = Some t'
    \<and> rows TC t' = map (\<lambda>x. if line_cond src srcID dst dstID [] x
         then (\<lambda>x. x\<lparr>cl_State := end_of ok, cl_updated := now\<rparr>) x else x) (rows TC t)"
    by (rule t_update_rows[OF TC]) simp
  then obtain t' where t': "t_update TC (line_cond src srcID dst dstID []) (\<lambda>x. x\<lparr>cl_State := end_of ok, cl_updated := now\<rparr>) t = Some t'"
    "rows TC t' = map (\<lambda>x. if line_cond src srcID dst dstID [] x then (\<lambda>x. x\<lparr>cl_State := end_of ok, cl_updated := now\<rparr>) x else x) (rows TC t)"
    by (elim exE conjE)
  from c have n: "\<not> (src = [] \<and> srcID = 0 \<and> dst = [] \<and> dstID = 0)" by simp
  show ?thesis
    by (intro exI[of _ t'] conjI) (simp only: DoneCopyLine_def if_not_P[OF n] t'(1) exec_def option.case, simp only: t'(2))
qed

text \<open>A group copy is settled exactly. After \<open>AddCopyLineG\<close> and \<open>DoneCopyLineG\<close> with the same
  arguments, none of them zero, the line of the copy is settled with the given outcome and message; lines
  that differ in a path, a storage or the group are as before.\<close>

theorem group_copy_settled:
  assumes TC: "table_ok TC copy_schema" and z: "src \<noteq> []" "srcID \<noteq> 0" "dst \<noteq> []" "dstID \<noteq> 0" "grp \<noteq> []" "extra \<noteq> []"
    and a: "AddCopyLineG TC t0 src srcID dst dstID grp t = (ok1, t1)"
  shows "\<exists>t2. DoneCopyLineG TC now src srcID dst dstID ok grp extra t1 = (True, t2) \<and> ok1
    \<and> (\<exists>x\<in>set (rows TC t2). cl_State x = end_of ok \<and> cl_Extra x = extra \<and> cl_created x = t0
         \<and> cl_SrcPath x = src \<and> cl_SrcID x = srcID \<and> cl_DstPath x = dst \<and> cl_DstID x = dstID \<and> cl_Group x = grp)
    \<and> filter (\<lambda>x. \<not> (cl_SrcPath x = src \<and> cl_SrcID x = srcID \<and> cl_DstPath x = dst \<and> cl_DstID x = dstID \<and> cl_Group x = grp))
          (rows TC t2)
      = filter (\<lambda>x. \<not> (cl_SrcPath x = src \<and> cl_SrcID x = srcID \<and> cl_DstPath x = dst \<and> cl_DstID x = dstID \<and> cl_Group x = grp))
          (rows TC t)"
proof -
  let ?C = "\<lambda>x. cl_SrcPath x = src \<and> cl_SrcID x = srcID \<and> cl_DstPath x = dst \<and> cl_DstID x = dstID \<and> cl_Group x = grp"
  let ?U = "\<lambda>x. x\<lparr>cl_State := end_of ok, cl_updated := now, cl_Extra := extra\<rparr>"
  let ?new = "\<lparr>cl_pk = 0, cl_Group = grp, cl_SrcPath = src, cl_DstPath = dst, cl_SrcID = srcID, cl_DstID = dstID,
      cl_State = RUNNING, cl_Extra = [], cl_created = t0, cl_updated = t0\<rparr>"
  obtain t' i where n: "t_create TC ?new t = Some t'" "rows TC t' = rows TC t @ [?new\<lparr>cl_pk := i\<rparr>]"
    using t_create_rows[OF TC, of t ?new] by auto
  then have t1: "t1 = t'" "ok1" using a by (simp_all add: AddCopyLineG_def exec_def)
  have lc: "line_cond src srcID dst dstID grp = ?C" using z by (simp add: line_cond_def fun_eq_iff)
  obtain t2 where t2: "DoneCopyLineG TC now src srcID dst dstID ok grp extra t1 = (True, t2)"
    "rows TC t2 = map (\<lambda>x. if ?C x then ?U x else x) (rows TC t1)"
    using DoneCopyLineG_rows[OF TC, of src srcID dst dstID grp now ok extra t1] z unfolding lc by auto
  have f: "filter (\<lambda>x. \<not> ?C x) (map (\<lambda>x. if ?C x then ?U x else x) xs) = filter (\<lambda>x. \<not> ?C x) xs" for xs
    by (induction xs) auto
  have "?U (?new\<lparr>cl_pk := i\<rparr>) \<in> set (rows TC t2)" unfolding t2(2) t1 n(2) by simp
  moreover have "filter (\<lambda>x. \<not> ?C x) (rows TC t2) = filter (\<lambda>x. \<not> ?C x) (rows TC t)"
    unfolding t2(2) f t1 n(2) by simp
  ultimately show ?thesis using t2(1) t1(2) by (intro exI[of _ t2]) (auto intro!: bexI[of _ "?U (?new\<lparr>cl_pk := i\<rparr>)"])
qed

definition toy_line :: "int \<Rightarrow> nat \<Rightarrow> CopyLine" where
  "toy_line sid k = \<lparr>cl_pk = k, cl_Group = [], cl_SrcPath = ''a'', cl_DstPath = ''b'', cl_SrcID = sid, cl_DstID = 1,
      cl_State = RUNNING, cl_Extra = [], cl_created = 0, cl_updated = 0\<rparr>"

theorem group_copy_settled_witness:
  "cl_State (last (snd (DoneCopyLineG (list_table copy_schema) 9 ''a'' 2 ''b'' 3 True ''g'' ''m''
     (snd (AddCopyLineG (list_table copy_schema) 5 ''a'' 2 ''b'' 3 ''g'' []))))) = DONE"
proof -
  let ?T = "list_table copy_schema"
  let ?a = "AddCopyLineG ?T 5 ''a'' 2 ''b'' 3 ''g'' []"
  have a: "?a = (fst ?a, snd ?a)" by simp
  obtain t2 where t2: "DoneCopyLineG ?T 9 ''a'' 2 ''b'' 3 True ''g'' ''m'' (snd ?a) = (True, t2)"
    "\<exists>x\<in>set (rows ?T t2). cl_State x = end_of True"
    using group_copy_settled[OF list_table_ok _ _ _ _ _ _ a, of "''m''" 9 True] by auto
  have "length (snd ?a) = 1" by code_simp
  then have "length t2 = 1"
    using arg_cong[OF t2(1), of snd] by (auto simp: DoneCopyLineG_def exec_def list_table_def)
  then obtain x where "t2 = [x]" by (auto simp: length_Suc_conv)
  then show ?thesis using t2 by (simp add: end_of_def)
qed

text \<open>Finishing a copy from storage 0 also settles copies from the other storages. Because a zero
  storage id is no condition, \<open>DoneCopyLine\<close> marks every line with the same two paths and destination
  storage, whichever storage it copies from; in the same way an empty group loads all lines.\<close>

theorem zero_storage_settles_others:
  assumes TC: "table_ok TC copy_schema" and s: "src \<noteq> []"
    and x: "x \<in> set (rows TC t)" "cl_SrcPath x = src" "cl_DstPath x = dst" "cl_DstID x = dstID"
  shows "\<exists>t'. DoneCopyLine TC now src 0 dst dstID ok t = (True, t')
    \<and> x\<lparr>cl_State := end_of ok, cl_updated := now\<rparr> \<in> set (rows TC t') \<and> LoadCopyLinesByG TC [] t = Some (rows TC t)"
proof -
  obtain t' where t': "DoneCopyLine TC now src 0 dst dstID ok t = (True, t')"
    "rows TC t' = map (\<lambda>x. if line_cond src 0 dst dstID [] x
         then x\<lparr>cl_State := end_of ok, cl_updated := now\<rparr> else x) (rows TC t)"
    using DoneCopyLine_rows[OF TC] s by blast
  have "line_cond src 0 dst dstID [] x" using x by (simp add: line_cond_def)
  then have "x\<lparr>cl_State := end_of ok, cl_updated := now\<rparr> \<in> set (rows TC t')"
    unfolding t'(2) using x(1) by (auto intro!: image_eqI[of _ _ x])
  then show ?thesis using t'(1) by (simp add: LoadCopyLinesByG_def table_okD(1)[OF TC])
qed

theorem zero_storage_settles_others_witness:
  "(toy_line 7 2)\<lparr>cl_State := DONE, cl_updated := 9\<rparr> \<in> set (snd (DoneCopyLine (list_table copy_schema) 9 ''a'' 0 ''b'' 1 True
     [toy_line 0 1, toy_line 7 2]))"
  using zero_storage_settles_others[OF list_table_ok, of "''a''" "toy_line 7 2" "[toy_line 0 1, toy_line 7 2]" "''b''" 1 9 True]
  by (auto simp: toy_line_def end_of_def)

section \<open>Scavenging\<close>

lemma scavenge_lines_rows:
  assumes TC: "table_ok TC copy_schema"
  shows "rows TC (scavenge_lines TC f ok xs t) = filter (\<lambda>y. \<not> (\<exists>x\<in>set xs. cl_pk y = cl_pk x
      \<and> f (cl_SrcPath x) (cl_SrcID x) (cl_DstPath x) (cl_DstID x) (ok x))) (rows TC t)"
proof (induction xs arbitrary: t)
  case (Cons x xs)
  obtain t1 where t1: "t_delete TC (\<lambda>y. cl_pk y = cl_pk x) t = Some t1"
    "rows TC t1 = filter (\<lambda>y. \<not> cl_pk y = cl_pk x) (rows TC t)" using t_delete_rows[OF TC] by blast
  show ?case
    using Cons[of t1] Cons[of t] t1
    by (auto simp: scavenge_lines_def exec_def intro: filter_cong)
qed (simp add: scavenge_lines_def)

lemma scavenge_found:
  assumes TC: "table_ok TC copy_schema" and d: "distinct (map cl_pk (rows TC t))"
  shows "rows TC (scavenge_lines TC f ok (found (t_find TC P t)) t) = filter (\<lambda>x.
     \<not> (P x \<and> f (cl_SrcPath x) (cl_SrcID x) (cl_DstPath x) (cl_DstID x) (ok x))) (rows TC t)"
proof -
  have find: "found (t_find TC P t) = filter P (rows TC t)"
    by (simp add: found_def table_okD(1)[OF TC])
  have one: "(\<exists>x\<in>set (filter P (rows TC t)). cl_pk y = cl_pk x \<and> Q x) \<longleftrightarrow> P y \<and> Q y"
    if "y \<in> set (rows TC t)" for Q y
    using that d by (auto simp: distinct_map inj_on_def)
  show ?thesis
    unfolding scavenge_lines_rows[OF TC] find by (rule filter_cong[OF refl]) (subst one, simp_all)
qed

definition overdue :: "int \<Rightarrow> CopyLine \<Rightarrow> bool" where
  "overdue now x \<longleftrightarrow> cl_created x < now - 12 * hour \<and> cl_State x = RUNNING"

definition settled_long :: "int \<Rightarrow> CopyLine \<Rightarrow> bool" where
  "settled_long now x \<longleftrightarrow> cl_updated x < now - 6 * hour \<and> cl_State x \<noteq> RUNNING"

text \<open>The scavenger removes exactly the copies that are over. With distinct primary keys it reports as
  failed, and removes, the copies that have been running for more than twelve hours, and reports with
  their outcome the ones settled for more than six; the lines that the callback refuses stay, and so do
  all others.\<close>

theorem ScavengeCopyLine_exact:
  assumes TC: "table_ok TC copy_schema" and d: "distinct (map cl_pk (rows TC t))"
  shows "rows TC (ScavengeCopyLine TC now f t) = filter (\<lambda>x.
     \<not> (overdue now x \<and> f (cl_SrcPath x) (cl_SrcID x) (cl_DstPath x) (cl_DstID x) False)
   \<and> \<not> (settled_long now x \<and> f (cl_SrcPath x) (cl_SrcID x) (cl_DstPath x) (cl_DstID x) (cl_State x = DONE))) (rows TC t)"
proof -
  let ?t1 = "scavenge_lines TC f (\<lambda>_. False) (found (t_find TC (overdue now) t)) t"
  have r1: "rows TC ?t1 = filter (\<lambda>x. \<not> (overdue now x
      \<and> f (cl_SrcPath x) (cl_SrcID x) (cl_DstPath x) (cl_DstID x) False)) (rows TC t)"
    by (rule scavenge_found[OF TC d])
  have d1: "distinct (map cl_pk (rows TC ?t1))" unfolding r1 using d by (simp add: distinct_map_filter)
  have "ScavengeCopyLine TC now f t = scavenge_lines TC f (\<lambda>x. cl_State x = DONE)
      (found (t_find TC (settled_long now) ?t1)) ?t1"
  proof -
    have "overdue now = (\<lambda>x. cl_created x < now - 12 * hour \<and> cl_State x = RUNNING)"
      "settled_long now = (\<lambda>x. cl_updated x < now - 6 * hour \<and> cl_State x \<noteq> RUNNING)"
      by (simp_all add: fun_eq_iff overdue_def settled_long_def)
    then show ?thesis by (simp add: ScavengeCopyLine_def Let_def)
  qed
  moreover have "rows TC (scavenge_lines TC f (\<lambda>x. cl_State x = DONE) (found (t_find TC (settled_long now) ?t1)) ?t1)
      = filter (\<lambda>x. \<not> (settled_long now x
          \<and> f (cl_SrcPath x) (cl_SrcID x) (cl_DstPath x) (cl_DstID x) (cl_State x = DONE))) (rows TC ?t1)"
    by (rule scavenge_found[OF TC d1])
  ultimately show ?thesis unfolding r1 by (simp add: conj_commute)
qed

theorem ScavengeCopyLine_exact_witness:
  "ScavengeCopyLine (list_table copy_schema) 50000 (\<lambda>_ _ _ _ done. done)
     [(toy_line 1 1)\<lparr>cl_State := DONE\<rparr>, (toy_line 1 2)\<lparr>cl_State := FAILED\<rparr>, toy_line 1 3]
   = [(toy_line 1 2)\<lparr>cl_State := FAILED\<rparr>, toy_line 1 3]"
proof -
  let ?t = "[(toy_line 1 1)\<lparr>cl_State := DONE\<rparr>, (toy_line 1 2)\<lparr>cl_State := FAILED\<rparr>, toy_line 1 3]"
  have "distinct (map cl_pk (rows (list_table copy_schema) ?t))" by (simp add: toy_line_def)
  from ScavengeCopyLine_exact[OF list_table_ok this, of 50000 "\<lambda>_ _ _ _ done. done"]
  show ?thesis by (simp add: toy_line_def overdue_def settled_long_def hour_def)
qed

end
