(* ===== verification/FileOps.thy ===== *)
theory FileOps
  imports IoTools AppStore
begin

text \<open>
  The file operations of a user, \<open>web/routers/file.go\<close>: creating, moving, copying, renaming and deleting, and
  the handlers that run copies in the background and report their progress. The audit service is not modelled
  but for the event an operation sends; its errors are only logged.
\<close>

section \<open>Requests and results\<close>

record fctx =
  fc_cs :: cloudStorage
  fc_uid :: int
  fc_gid :: int

datatype fop_err = PathErr path_error | IoErr ferr | DstMissing "errno option" | SrcMissing | SrcNotDir "errno option"
  | DstInSrc | NameTaken | RenameMissing

text \<open>\<open>Panicked\<close> is a method call on a \<open>nil\<close> \<open>FileInfo\<close>; \<open>Endless\<close> a copy whose fuel was used up.\<close>

datatype outcome = Returned "fop_err option" | Panicked | Endless

type_synonym fop = "fsys \<Rightarrow> outcome \<times> fsys"

definition okay :: outcome where "okay = Returned None"

definition fail :: "fop_err \<Rightarrow> fop" where
  "fail e s = (Returned (Some e), s)"

definition io :: "ferr eff \<Rightarrow> fop" where
  "io f s = (case f s of (e, s1) \<Rightarrow> (Returned (map_option IoErr e), s1))"

definition io_run :: "(fsys \<Rightarrow> run) \<Rightarrow> fop" where
  "io_run f s = (case f s of None \<Rightarrow> (Endless, s) | Some (e, s1) \<Rightarrow> (Returned (map_option IoErr e), s1))"

text \<open>\<open>if err != nil { return }\<close>\<close>

definition orStop :: "fop \<Rightarrow> fop \<Rightarrow> fop" where
  "orStop f g s = (case f s of (r, s1) \<Rightarrow> if r = okay then g s1 else (r, s1))"

definition sanitized :: "fctx \<Rightarrow> string \<Rightarrow> int \<Rightarrow> (string \<Rightarrow> fop) \<Rightarrow> fop" where
  "sanitized c path sid f s =
     (case sanitizePath (fc_cs c) path sid of (p, None) \<Rightarrow> f p s | (p, Some e) \<Rightarrow> fail (PathErr e) s)"

datatype audit_name = FileCreated | FileRenamed | FileCopied | FileMoved | FileDeleted

type_synonym audit = "audit_name \<times> string"

definition audited :: "audit \<Rightarrow> outcome \<times> fsys \<Rightarrow> outcome \<times> audit option \<times> fsys" where
  "audited ev r = (fst r, if fst r = okay then Some ev else None, snd r)"

definition silent :: "outcome \<times> fsys \<Rightarrow> outcome \<times> audit option \<times> fsys" where
  "silent r = (fst r, None, snd r)"

section \<open>Directories\<close>

record newDirReq =
  nd_StorageID :: int
  nd_ParentPath :: string
  nd_Name :: string

definition newDir :: "fctx \<Rightarrow> newDirReq \<Rightarrow> fsys \<Rightarrow> outcome \<times> audit option \<times> fsys" where
  "newDir c req s = audited (FileCreated, nd_Name req)
     (sanitized c (nd_ParentPath req) (nd_StorageID req) (\<lambda>absParentDir.
        let dir = trimSpace (absParentDir @ ''/'' @ nd_Name req) in
        io (EnsureOwnDirR dir (rootPath (fc_cs c) (nd_StorageID req)) (fc_uid c) (fc_gid c))) s)"

record movDirReq =
  md_SrcStorageID :: int
  md_Src :: string
  md_DstStorageID :: int
  md_Dst :: string

text \<open>\<open>os.IsNotExist(err) || !fSrc.IsDir()\<close>, where \<open>fSrc\<close> is \<open>nil\<close> for any other error.\<close>

definition needDir :: "(errno option \<Rightarrow> fop_err) \<Rightarrow> errno + node \<Rightarrow> fop" where
  "needDir e r s = (case r of
     Inl ENOENT \<Rightarrow> fail (e (Some ENOENT)) s
   | Inl _ \<Rightarrow> (Panicked, s)
   | Inr n \<Rightarrow> if is_dir n then (okay, s) else fail (e None) s)"

definition moveDir :: "fctx \<Rightarrow> movDirReq \<Rightarrow> fsys \<Rightarrow> outcome \<times> audit option \<times> fsys" where
  "moveDir c req s0 =
     (case sanitizePath (fc_cs c) (md_Src req) (md_SrcStorageID req) of
        (_, Some e) \<Rightarrow> silent (fail (PathErr e) s0)
      | (src, None) \<Rightarrow>
     (case sanitizePath (fc_cs c) (md_Dst req) (md_DstStorageID req) of
        (_, Some e) \<Rightarrow> silent (fail (PathErr e) s0)
      | (dst, None) \<Rightarrow>
     (case needDir SrcNotDir (os_Lstat src s0) s0 of
        (r, s) \<Rightarrow> if r \<noteq> okay then silent (r, s)
          else case os_Lstat dst s of
            Inr _ \<Rightarrow> silent (io (Move2Dir src dst True) s)
          | Inl _ \<Rightarrow> audited (FileRenamed, md_Src req) (io (\<lambda>s. lift (os_Rename src dst s)) s))))"

section \<open>Copying and moving\<close>

record copyFileReq =
  cf_SrcStorageID :: int
  cf_Src :: string
  cf_DstStorageID :: int
  cf_Dst :: string
  cf_Move :: bool
  cf_Sync :: bool
  cf_DstFile :: bool
  cf_Force :: bool
  cf_ExcludeDir :: bool

definition copy_checks :: "copyFileReq \<Rightarrow> string \<Rightarrow> string \<Rightarrow> fop" where
  "copy_checks req src dst = orStop
     (\<lambda>s. if cf_DstFile req \<or> cf_Force req then (okay, s) else needDir DstMissing (os_Stat dst s) s)
     (\<lambda>s. if os_Stat src s = Inl ENOENT then fail SrcMissing s
          else if fst (SubElem src dst) then fail DstInSrc s
          else (okay, s))"

definition copy_force :: "fctx \<Rightarrow> copyFileReq \<Rightarrow> string \<Rightarrow> fop" where
  "copy_force c req dst s =
     (if \<not> cf_Force req then (okay, s)
      else if cf_DstFile req then io (EnsureOwnFileR dst (rootPath (fc_cs c) (cf_DstStorageID req)) (fc_uid c) (fc_gid c)) s
      else io (EnsureOwnDirR dst (rootPath (fc_cs c) (cf_DstStorageID req)) (fc_uid c) (fc_gid c)) s)"

definition copy_into :: "nat \<Rightarrow> fctx \<Rightarrow> copyFileReq \<Rightarrow> string \<Rightarrow> string \<Rightarrow> fop" where
  "copy_into k c req src dst = orStop (io_run (Copy2Dir k src dst (cf_ExcludeDir req)))
     (io (ChownR dst (fc_uid c) (fc_gid c)))"

definition move_it :: "nat \<Rightarrow> fctx \<Rightarrow> copyFileReq \<Rightarrow> string \<Rightarrow> string \<Rightarrow> fop" where
  "move_it k c req src dst =
     (if cf_DstFile req then
        if cf_SrcStorageID req \<noteq> cf_DstStorageID req
        then orStop (io (CopyFile src dst)) (io (\<lambda>s. lift (Remove src s)))
        else io (Move2File src dst)
      else
        if cf_SrcStorageID req \<noteq> cf_DstStorageID req
        then orStop (copy_into k c req src dst) (io (\<lambda>s. lift (Remove src s)))
        else io (Move2Dir src dst (cf_ExcludeDir req)))"

text \<open>A copy onto a file is audited whatever its result.\<close>

definition copyFile :: "nat \<Rightarrow> fctx \<Rightarrow> copyFileReq \<Rightarrow> fsys \<Rightarrow> outcome \<times> audit option \<times> fsys" where
  "copyFile k c req s0 =
     (case sanitizePath (fc_cs c) (cf_Src req) (cf_SrcStorageID req) of
        (_, Some e) \<Rightarrow> silent (fail (PathErr e) s0)
      | (src, None) \<Rightarrow>
     (case sanitizePath (fc_cs c) (cf_Dst req) (cf_DstStorageID req) of
        (_, Some e) \<Rightarrow> silent (fail (PathErr e) s0)
      | (dst, None) \<Rightarrow>
     (case orStop (copy_checks req src dst) (copy_force c req dst) s0 of
        (r, s) \<Rightarrow> if r \<noteq> okay then silent (r, s)
          else if \<not> cf_Move req then
            if cf_DstFile req
            then (let (r1, s1) = io (CopyFile src dst) s in (r1, Some (FileCopied, cf_Dst req), s1))
            else audited (FileCopied, cf_Dst req) (copy_into k c req src dst s)
          else audited (FileMoved, cf_Dst req) (move_it k c req src dst s))))"

section \<open>Renaming and deleting\<close>

record renameFileReq =
  rn_StorageID :: int
  rn_Path :: string
  rn_Name :: string

definition renameFile :: "fctx \<Rightarrow> renameFileReq \<Rightarrow> fsys \<Rightarrow> outcome \<times> audit option \<times> fsys" where
  "renameFile c req s =
     (case sanitizePath (fc_cs c) (rn_Path req) (rn_StorageID req) of
        (_, Some e) \<Rightarrow> silent (fail (PathErr e) s)
      | (path, None) \<Rightarrow>
          if os_Stat path s = Inl ENOENT then silent (fail RenameMissing s)
          else let newPath = path_join (split_dir path) (rn_Name req) in
            if path = newPath then silent (okay, s)
            else (case os_Lstat newPath s of
                Inr _ \<Rightarrow> silent (fail NameTaken s)
              | Inl _ \<Rightarrow> audited (FileRenamed, path) (io (\<lambda>s. lift (os_Rename path newPath s)) s)))"

record delFileReq =
  df_StorageID :: int
  df_Path :: string
  df_FileOnly :: bool

text \<open>\<open>destroy\<close> is \<open>DestroyUploadByKey\<close> of the upload store, whose error is ignored.\<close>

type_synonym 'u destroy = "string \<Rightarrow> 'u \<Rightarrow> string list \<times> 'u"

definition doCleanUpload :: "'u destroy \<Rightarrow> string \<Rightarrow> fsys \<times> 'u \<Rightarrow> fsys \<times> 'u" where
  "doCleanUpload destroy path su =
     (case destroy path (snd su) of
        (tmps, u1) \<Rightarrow> (fold (\<lambda>t s. snd (os_RemoveAll t s)) tmps (fst su), u1))"

definition deleteFile :: "'u destroy \<Rightarrow> fctx \<Rightarrow> delFileReq \<Rightarrow> fsys \<times> 'u \<Rightarrow> outcome \<times> audit option \<times> fsys \<times> 'u" where
  "deleteFile destroy c req su =
     (if trimSpace (df_Path req) = [] then (okay, None, su)
      else case sanitizePath (fc_cs c) (df_Path req) (df_StorageID req) of
        (_, Some e) \<Rightarrow> (Returned (Some (PathErr e)), None, su)
      | (path, None) \<Rightarrow>
          (case os_Lstat path (fst su) of
             Inl e \<Rightarrow> (Returned (Some (IoErr (OS e))), None, su)
           | Inr fSrc \<Rightarrow>
               let (s1, u1) = (if is_dir fSrc then doCleanUpload destroy path su else su) in
               if df_FileOnly req then
                 (case io (RemoveFileR path) s1 of (r, s2) \<Rightarrow> (r, None, s2, u1))
               else
                 (case io (\<lambda>s. lift (os_RemoveAll path s)) s1 of
                    (r, s2) \<Rightarrow> (r, if r = okay then Some (FileDeleted, path) else None, s2, u1))))"

text \<open>The results of the single deletions are appended to a list that is dropped.\<close>

definition batchDelFile :: "'u destroy \<Rightarrow> fctx \<Rightarrow> string list \<Rightarrow> int \<Rightarrow> fsys \<times> 'u \<Rightarrow> outcome \<times> fsys \<times> 'u" where
  "batchDelFile destroy c paths sid su =
     (okay, fold (\<lambda>p su. snd (snd (deleteFile destroy (c\<lparr>fc_cs := (fc_cs c)\<lparr>ignoreNameCheck := True\<rparr>\<rparr>)
              \<lparr>df_StorageID = sid, df_Path = p, df_FileOnly = False\<rparr> su))) paths su)"

section \<open>Copies in the background\<close>

text \<open>\<open>doCopy\<close> with a group: the outcome is written to the copy line; a panic ends the process before that.\<close>

definition settle_copy :: "'c ctab \<Rightarrow> int \<Rightarrow> (fop_err \<Rightarrow> string) \<Rightarrow> copyFileReq \<Rightarrow> string \<Rightarrow> outcome \<Rightarrow> 'c \<Rightarrow> 'c" where
  "settle_copy TC now text req grp r t =
     (case r of
        Returned None \<Rightarrow> snd (DoneCopyLineG TC now (cf_Src req) (cf_SrcStorageID req) (cf_Dst req) (cf_DstStorageID req) True grp [] t)
      | Returned (Some e) \<Rightarrow> snd (DoneCopyLineG TC now (cf_Src req) (cf_SrcStorageID req) (cf_Dst req) (cf_DstStorageID req) False grp (text e) t)
      | _ \<Rightarrow> t)"

definition doCopy :: "'c ctab \<Rightarrow> int \<Rightarrow> (fop_err \<Rightarrow> string) \<Rightarrow> nat \<Rightarrow> fctx \<Rightarrow> copyFileReq \<Rightarrow> string \<Rightarrow> fsys \<times> 'c \<Rightarrow> outcome \<times> fsys \<times> 'c" where
  "doCopy TC now text k c req grp st =
     (case copyFile k c req (fst st) of
        (r, _, s1) \<Rightarrow>
          if grp = [] then (case r of Returned e \<Rightarrow> okay | _ \<Rightarrow> r, s1, snd st)
          else (r, s1, settle_copy TC now text req grp r (snd st)))"

datatype reply = Success | SuccessID string | ReplyErr | Crash

text \<open>A request without \<open>sync\<close> answers before the copy runs; the goroutine is the second component.\<close>

definition copyFile_handler :: "'c ctab \<Rightarrow> int \<Rightarrow> (fop_err \<Rightarrow> string) \<Rightarrow> nat \<Rightarrow> fctx \<Rightarrow> copyFileReq \<Rightarrow> string \<Rightarrow> fsys \<times> 'c \<Rightarrow>
    reply \<times> (fsys \<times> 'c \<Rightarrow> outcome \<times> fsys \<times> 'c) option \<times> fsys \<times> 'c" where
  "copyFile_handler TC now text k c req uid st =
     (if cf_Sync req then
        (case doCopy TC now text k c req [] st of
           (r, st1) \<Rightarrow> (case r of Returned None \<Rightarrow> Success | Returned (Some e) \<Rightarrow> ReplyErr | _ \<Rightarrow> Crash, None, st1))
      else (case AddCopyLineG TC now (cf_Src req) (cf_SrcStorageID req) (cf_Dst req) (cf_DstStorageID req) uid (snd st) of
        (ok, t1) \<Rightarrow> if \<not> ok then (ReplyErr, None, fst st, t1)
                    else (SuccessID uid, Some (doCopy TC now text k c req uid), fst st, t1)))"

record batchCopyReq =
  bc_SrcStorageID :: int
  bc_Srcs :: "string list"
  bc_Dst :: string
  bc_DstStorageID :: int
  bc_Move :: bool
  bc_Sync :: bool
  bc_Force :: bool

definition batch_item :: "batchCopyReq \<Rightarrow> string \<Rightarrow> copyFileReq" where
  "batch_item req src = \<lparr>cf_SrcStorageID = bc_SrcStorageID req, cf_Src = src, cf_DstStorageID = bc_DstStorageID req,
     cf_Dst = bc_Dst req, cf_Move = bc_Move req, cf_Sync = False, cf_DstFile = False, cf_Force = bc_Force req,
     cf_ExcludeDir = False\<rparr>"

text \<open>The goroutines of a batch in the order in which they run, each as a whole; the outcomes with them.\<close>

fun batch_run :: "'c ctab \<Rightarrow> int \<Rightarrow> (fop_err \<Rightarrow> string) \<Rightarrow> nat \<Rightarrow> fctx \<Rightarrow> batchCopyReq \<Rightarrow> string \<Rightarrow> string list \<Rightarrow> fsys \<times> 'c \<Rightarrow>
    outcome list \<times> fsys \<times> 'c" where
  "batch_run TC now text k c req grp [] st = ([], st)"
| "batch_run TC now text k c req grp (src # srcs) st =
     (case doCopy TC now text k c (batch_item req src) grp st of
        (r, st1) \<Rightarrow> (case batch_run TC now text k c req grp srcs st1 of (rs, st2) \<Rightarrow> (r # rs, st2)))"

fun batch_add :: "'c ctab \<Rightarrow> int \<Rightarrow> batchCopyReq \<Rightarrow> string \<Rightarrow> string list \<Rightarrow> 'c \<Rightarrow> bool \<times> 'c" where
  "batch_add TC now req uid [] t = (True, t)"
| "batch_add TC now req uid (src # srcs) t =
     (case AddCopyLineG TC now src (bc_SrcStorageID req) (bc_Dst req) (bc_DstStorageID req) uid t of
        (ok, t1) \<Rightarrow> if \<not> ok then (False, t1) else batch_add TC now req uid srcs t1)"

definition batchCopyFile :: "'c ctab \<Rightarrow> int \<Rightarrow> (fop_err \<Rightarrow> string) \<Rightarrow> nat \<Rightarrow> fctx \<Rightarrow> batchCopyReq \<Rightarrow> string \<Rightarrow> string list \<Rightarrow> fsys \<times> 'c \<Rightarrow>
    reply \<times> (fsys \<times> 'c \<Rightarrow> outcome list \<times> fsys \<times> 'c) option \<times> fsys \<times> 'c" where
  "batchCopyFile TC now text k c req uid order st =
     (if bc_Sync req then
        (case batch_run TC now text k c req [] order st of
           (rs, st1) \<Rightarrow> (if list_all (\<lambda>r. r = okay) rs then Success else if Panicked \<in> set rs \<or> Endless \<in> set rs then Crash else ReplyErr, None, st1))
      else (case batch_add TC now req uid (bc_Srcs req) (snd st) of
        (ok, t1) \<Rightarrow> if \<not> ok then (ReplyErr, None, fst st, t1)
                    else (SuccessID uid, Some (batch_run TC now text k c req uid order), fst st, t1)))"

fun progress_loop :: "CopyLine list \<Rightarrow> bool \<Rightarrow> bool \<times> bool \<times> string" where
  "progress_loop [] success = (success, False, [])"
| "progress_loop (cl # cls) success =
     (let success' = (success \<and> cl_State cl = DONE) in
      if cl_State cl = FAILED then (success', True, cl_Extra cl) else progress_loop cls success')"

datatype progress = ProgressUnknown | Progress string string

definition copyLineProcess :: "'c ctab \<Rightarrow> string \<Rightarrow> 'c \<Rightarrow> progress" where
  "copyLineProcess TC grp t =
     (if grp = [] then ProgressUnknown
      else case found (LoadCopyLinesByG TC grp t) of
        [] \<Rightarrow> ProgressUnknown
      | cls \<Rightarrow> (case progress_loop cls True of
          (success, failed, extra) \<Rightarrow>
            Progress (if failed then ''FAILED'' else if success then ''SUCCESS'' else ''RUNNING'') extra))"

section \<open>The progress of a batch is the outcome of its copies\<close>

lemma progress_loop_eq:
  "progress_loop cls b =
     (case find (\<lambda>cl. cl_State cl = FAILED) cls of
        Some cl \<Rightarrow> (False, True, cl_Extra cl)
      | None \<Rightarrow> (b \<and> (\<forall>cl \<in> set cls. cl_State cl = DONE), False, []))"
  by (induction cls b rule: progress_loop.induct) (auto split: option.splits)

text \<open>The lines of a group, as the paths, states and messages of its sources.\<close>

definition group_view :: "'c ctab \<Rightarrow> batchCopyReq \<Rightarrow> string \<Rightarrow> 'c \<Rightarrow> string list \<Rightarrow> (string \<Rightarrow> UploadState \<times> string) \<Rightarrow> bool" where
  "group_view TC req grp t srcs v \<longleftrightarrow>
     map (\<lambda>x. (cl_SrcPath x, cl_State x, cl_Extra x)) (filter (\<lambda>x. cl_Group x = grp) (rows TC t)) = map (\<lambda>s. (s, v s)) srcs
   \<and> (\<forall>x \<in> set (rows TC t). cl_Group x = grp \<longrightarrow> cl_SrcID x = bc_SrcStorageID req \<and> cl_DstPath x = bc_Dst req
        \<and> cl_DstID x = bc_DstStorageID req)"

lemma group_view_add:
  assumes TC: "table_ok TC copy_schema" and v: "group_view TC req grp t srcs v" and "src \<notin> set srcs"
  shows "\<exists>t1. AddCopyLineG TC now src (bc_SrcStorageID req) (bc_Dst req) (bc_DstStorageID req) grp t = (True, t1)
    \<and> group_view TC req grp t1 (srcs @ [src]) (v(src := (RUNNING, [])))"
proof -
  let ?new = "\<lparr>cl_pk = 0, cl_Group = grp, cl_SrcPath = src, cl_DstPath = bc_Dst req, cl_SrcID = bc_SrcStorageID req,
      cl_DstID = bc_DstStorageID req, cl_State = RUNNING, cl_Extra = [], cl_created = now, cl_updated = now\<rparr>"
  obtain t' i where n: "t_create TC ?new t = Some t'" "rows TC t' = rows TC t @ [?new\<lparr>cl_pk := i\<rparr>]"
    using t_create_rows[OF TC, of t ?new] by auto
  have "map (\<lambda>s. (s, (v(src := (RUNNING, []))) s)) srcs = map (\<lambda>s. (s, v s)) srcs"
    using assms(3) by (intro map_cong) auto
  with v have "group_view TC req grp t' (srcs @ [src]) (v(src := (RUNNING, [])))"
    unfolding group_view_def n(2) by simp
  then show ?thesis using n(1) by (simp add: AddCopyLineG_def exec_def)
qed

lemma group_view_batch_add:
  assumes TC: "table_ok TC copy_schema"
  shows "group_view TC req grp t srcs v \<Longrightarrow> distinct (srcs @ rest) \<Longrightarrow>
    \<exists>t1. batch_add TC now req grp rest t = (True, t1)
      \<and> group_view TC req grp t1 (srcs @ rest) (\<lambda>s. if s \<in> set rest then (RUNNING, []) else v s)"
proof (induction rest arbitrary: t srcs v)
  case (Cons src rest)
  then obtain t1 where t1: "AddCopyLineG TC now src (bc_SrcStorageID req) (bc_Dst req) (bc_DstStorageID req) grp t = (True, t1)"
    "group_view TC req grp t1 (srcs @ [src]) (v(src := (RUNNING, [])))"
    using group_view_add [OF TC Cons.prems(1), of src now] by auto
  have d: "distinct ((srcs @ [src]) @ rest)" using Cons.prems(2) by simp
  from Cons.IH [OF t1(2) d] obtain t2 where t2: "batch_add TC now req grp rest t1 = (True, t2)"
    "group_view TC req grp t2 ((srcs @ [src]) @ rest) (\<lambda>s. if s \<in> set rest then (RUNNING, []) else (v(src := (RUNNING, []))) s)"
    by blast
  have "(\<lambda>s. if s \<in> set rest then (RUNNING, []) else (v(src := (RUNNING, []))) s)
      = (\<lambda>s. if s \<in> set (src # rest) then (RUNNING, []) else v s)" by auto
  with t1(1) t2 show ?case by (simp add: fun_eq_iff)
qed simp

lemma group_view_settle:
  assumes TC: "table_ok TC copy_schema" and v: "group_view TC req grp t srcs v" and "src \<noteq> []" "grp \<noteq> []"
  shows "group_view TC req grp (settle_copy TC now text (batch_item req src) grp (Returned e) t) srcs
    (v(src := (end_of (e = None), case e of None \<Rightarrow> snd (v src) | Some x \<Rightarrow> if text x = [] then snd (v src) else text x)))"
proof -
  let ?ok = "e = None"
  let ?msg = "case e of None \<Rightarrow> [] | Some x \<Rightarrow> text x"
  let ?f = "\<lambda>x. if line_cond src (bc_SrcStorageID req) (bc_Dst req) (bc_DstStorageID req) grp x
       then x\<lparr>cl_State := end_of ?ok, cl_updated := now, cl_Extra := (if ?msg = [] then cl_Extra x else ?msg)\<rparr> else x"
  let ?w = "v(src := (end_of (e = None), case e of None \<Rightarrow> snd (v src) | Some x \<Rightarrow> if text x = [] then snd (v src) else text x))"
  obtain t' where t': "settle_copy TC now text (batch_item req src) grp (Returned e) t = t'" "rows TC t' = map ?f (rows TC t)"
    using DoneCopyLineG_rows [OF TC, of src "bc_SrcStorageID req" "bc_Dst req" "bc_DstStorageID req" grp now ?ok ?msg t] assms(3)
    by (cases e) (auto simp: settle_copy_def batch_item_def)
  have mem: "cl_SrcID x = bc_SrcStorageID req \<and> cl_DstPath x = bc_Dst req \<and> cl_DstID x = bc_DstStorageID req"
    if "x \<in> set (rows TC t)" "cl_Group x = grp" for x
    using v that by (auto simp: group_view_def)
  have pv: "(cl_State x, cl_Extra x) = v (cl_SrcPath x)" if "x \<in> set (rows TC t)" "cl_Group x = grp" for x
  proof -
    have "(cl_SrcPath x, cl_State x, cl_Extra x)
        \<in> set (map (\<lambda>x. (cl_SrcPath x, cl_State x, cl_Extra x)) (filter (\<lambda>x. cl_Group x = grp) (rows TC t)))"
      using that by auto
    then have "(cl_SrcPath x, cl_State x, cl_Extra x) \<in> set (map (\<lambda>s. (s, v s)) srcs)"
      using v by (simp only: group_view_def)
    then show ?thesis by auto
  qed
  have "map (\<lambda>x. (cl_SrcPath x, cl_State x, cl_Extra x)) (filter (\<lambda>x. cl_Group x = grp) (map ?f xs))
      = map (\<lambda>p. (fst p, ?w (fst p))) (map (\<lambda>x. (cl_SrcPath x, cl_State x, cl_Extra x)) (filter (\<lambda>x. cl_Group x = grp) xs))"
    if "set xs \<subseteq> set (rows TC t)" for xs using that
  proof (induction xs)
    case (Cons x xs)
    then have "x \<in> set (rows TC t)" by simp
    have ex: "cl_Group x = grp \<Longrightarrow> cl_Extra x = snd (v (cl_SrcPath x))"
      using arg_cong [OF pv [OF \<open>x \<in> set (rows TC t)\<close>], of snd] by simp
    from mem [OF \<open>x \<in> set (rows TC t)\<close>] pv [OF \<open>x \<in> set (rows TC t)\<close>] ex Cons show ?case
      using assms(3,4) by (cases e) (auto simp: line_cond_def dest: sym)
  qed simp
  from this [of "rows TC t"] v have "map (\<lambda>x. (cl_SrcPath x, cl_State x, cl_Extra x)) (filter (\<lambda>x. cl_Group x = grp) (rows TC t'))
      = map (\<lambda>s. (s, ?w s)) srcs"
    unfolding group_view_def t'(2) by (simp add: comp_def)
  moreover have "\<forall>x \<in> set (rows TC t'). cl_Group x = grp \<longrightarrow> cl_SrcID x = bc_SrcStorageID req \<and> cl_DstPath x = bc_Dst req
        \<and> cl_DstID x = bc_DstStorageID req"
    using mem unfolding t'(2) by auto
  ultimately show ?thesis unfolding t'(1) group_view_def by blast
qed

lemma doCopy_view:
  assumes TC: "table_ok TC copy_schema" and v: "group_view TC req grp (snd st) srcs v" and "src \<noteq> []" "grp \<noteq> []"
    and "doCopy TC now text k c (batch_item req src) grp st = (Returned e, st1)" "\<And>x. text x \<noteq> []"
  shows "\<exists>v1. group_view TC req grp (snd st1) srcs v1 \<and> (\<forall>s. s \<noteq> src \<longrightarrow> v1 s = v s)
    \<and> fst (v1 src) = end_of (e = None) \<and> (\<forall>x. e = Some x \<longrightarrow> snd (v1 src) = text x)"
proof -
  have "snd st1 = settle_copy TC now text (batch_item req src) grp (Returned e) (snd st)"
    using assms(4,5) by (auto simp: doCopy_def split: prod.splits)
  with group_view_settle [OF TC v assms(3,4), of now "text" e]
  have g: "group_view TC req grp (snd st1) srcs
      (v(src := (end_of (e = None), case e of None \<Rightarrow> snd (v src) | Some x \<Rightarrow> if text x = [] then snd (v src) else text x)))"
    by simp
  show ?thesis
    by (intro exI conjI, rule g) (use assms(6) in \<open>auto split: option.splits\<close>)
qed

lemma batch_run_view:
  assumes TC: "table_ok TC copy_schema" and "grp \<noteq> []" "\<And>x. text x \<noteq> []"
  shows "batch_run TC now text k c req grp order st = (rs, st2) \<Longrightarrow> group_view TC req grp (snd st) srcs v \<Longrightarrow>
    distinct order \<Longrightarrow> [] \<notin> set order \<Longrightarrow> Panicked \<notin> set rs \<Longrightarrow> Endless \<notin> set rs \<Longrightarrow>
    \<exists>v'. group_view TC req grp (snd st2) srcs v' \<and> (\<forall>s. s \<notin> set order \<longrightarrow> v' s = v s)
      \<and> list_all2 (\<lambda>s r. \<exists>e. r = Returned e \<and> fst (v' s) = end_of (e = None) \<and> (\<forall>x. e = Some x \<longrightarrow> snd (v' s) = text x)) order rs"
proof (induction order arbitrary: st rs v)
  case Nil
  then show ?case by auto
next
  case (Cons src order)
  obtain r st1 where d: "doCopy TC now text k c (batch_item req src) grp st = (r, st1)"
    by (cases "doCopy TC now text k c (batch_item req src) grp st")
  obtain rs' where b: "batch_run TC now text k c req grp order st1 = (rs', st2)" and rs: "rs = r # rs'"
    using Cons.prems(1) d by (auto split: prod.splits)
  obtain e where r: "r = Returned e" using Cons.prems(5,6) rs by (cases r) auto
  have "src \<noteq> []" using Cons.prems(4) by auto
  from doCopy_view [OF TC Cons.prems(2) this assms(2) d [unfolded r] assms(3)] obtain v1 where
    v1: "group_view TC req grp (snd st1) srcs v1" "\<forall>s. s \<noteq> src \<longrightarrow> v1 s = v s"
      "fst (v1 src) = end_of (e = None) \<and> (\<forall>x. e = Some x \<longrightarrow> snd (v1 src) = text x)" by blast
  have pr: "distinct order" "[] \<notin> set order" "Panicked \<notin> set rs'" "Endless \<notin> set rs'" "src \<notin> set order"
    using Cons.prems rs by auto
  from Cons.IH [OF b v1(1) pr(1-4)] obtain v' where v': "group_view TC req grp (snd st2) srcs v'"
    "\<forall>s. s \<notin> set order \<longrightarrow> v' s = v1 s"
    "list_all2 (\<lambda>s r. \<exists>e. r = Returned e \<and> fst (v' s) = end_of (e = None) \<and> (\<forall>x. e = Some x \<longrightarrow> snd (v' s) = text x)) order rs'"
    by blast
  have "v' src = v1 src" using v'(2) pr(5) by blast
  then have "list_all2 (\<lambda>s r. \<exists>e. r = Returned e \<and> fst (v' s) = end_of (e = None) \<and> (\<forall>x. e = Some x \<longrightarrow> snd (v' s) = text x))
      (src # order) rs"
    using v'(3) v1(3) r rs by simp
  moreover have "\<forall>s. s \<notin> set (src # order) \<longrightarrow> v' s = v s" using v'(2) v1(2) by auto
  ultimately show ?case using v'(1) by blast
qed

lemma find_SomeD: "find P xs = Some x \<Longrightarrow> x \<in> set xs \<and> P x"
  by (auto simp: find_Some_iff)

lemma progress_of_view:
  assumes "table_ok TC copy_schema" "group_view TC req grp t srcs v" "grp \<noteq> []" "srcs \<noteq> []"
  shows "copyLineProcess TC grp t =
    (case find (\<lambda>s. fst (v s) = FAILED) srcs of
       Some s \<Rightarrow> Progress ''FAILED'' (snd (v s))
     | None \<Rightarrow> Progress (if \<forall>s \<in> set srcs. fst (v s) = DONE then ''SUCCESS'' else ''RUNNING'') [])"
proof -
  define G where "G = filter (\<lambda>x. cl_Group x = grp) (rows TC t)"
  have m: "map (\<lambda>x. (cl_SrcPath x, cl_State x, cl_Extra x)) G = map (\<lambda>s. (s, v s)) srcs"
    using assms(2) by (simp add: group_view_def G_def)
  have f: "LoadCopyLinesByG TC grp t = Some G"
    using assms(3) by (simp add: LoadCopyLinesByG_def table_okD(1)[OF assms(1)] G_def line_cond_def)
  have "G \<noteq> []" using m assms(4) by auto
  moreover have "map_option cl_Extra (find (\<lambda>cl. cl_State cl = FAILED) xs) = map_option (\<lambda>s. snd (v s)) (find (\<lambda>s. fst (v s) = FAILED) ys)
      \<and> ((\<forall>cl \<in> set xs. cl_State cl = DONE) \<longleftrightarrow> (\<forall>s \<in> set ys. fst (v s) = DONE))"
    if "map (\<lambda>x. (cl_SrcPath x, cl_State x, cl_Extra x)) xs = map (\<lambda>s. (s, v s)) ys" for xs ys using that
  proof (induction ys arbitrary: xs)
    case (Cons y ys)
    then obtain x xs' where x: "xs = x # xs'" "(cl_State x, cl_Extra x) = v y"
      "map (\<lambda>x. (cl_SrcPath x, cl_State x, cl_Extra x)) xs' = map (\<lambda>s. (s, v s)) ys" by auto
    then have "fst (v y) = cl_State x" "snd (v y) = cl_Extra x" by (metis fst_conv, metis snd_conv)
    with Cons.IH [OF x(3)] x(1) show ?case by auto
  qed simp
  from this [OF m] have
    "map_option cl_Extra (find (\<lambda>cl. cl_State cl = FAILED) G) = map_option (\<lambda>s. snd (v s)) (find (\<lambda>s. fst (v s) = FAILED) srcs)"
    "(\<forall>cl \<in> set G. cl_State cl = DONE) \<longleftrightarrow> (\<forall>s \<in> set srcs. fst (v s) = DONE)" by blast+
  moreover from \<open>G \<noteq> []\<close> have "copyLineProcess TC grp t = (case progress_loop G True of (success, failed, extra) \<Rightarrow>
      Progress (if failed then ''FAILED'' else if success then ''SUCCESS'' else ''RUNNING'') extra)"
    using assms(3) f by (cases G) (simp_all add: copyLineProcess_def found_def)
  ultimately show ?thesis
    unfolding progress_loop_eq
    by (cases "find (\<lambda>cl. cl_State cl = FAILED) G"; cases "find (\<lambda>s. fst (v s) = FAILED) srcs") simp_all
qed

lemma list_all2_left: "list_all2 P xs ys \<Longrightarrow> x \<in> set xs \<Longrightarrow> \<exists>y \<in> set ys. P x y"
  by (induction rule: list_all2_induct) auto

lemma list_all2_right: "list_all2 P xs ys \<Longrightarrow> y \<in> set ys \<Longrightarrow> \<exists>x \<in> set xs. P x y"
  by (induction rule: list_all2_induct) auto

text \<open>C18: the progress of a batch is the outcome of its copies. Once the request is answered the group is reported as
  running; when the copies have run, in whatever order, it is reported as a success if all of them returned
  without an error, and otherwise as failed with the message of one that failed. A copy that panics is not
  covered: it ends the process.
\<close>

theorem batch_progress_exact:
  assumes TC: "table_ok TC copy_schema" and fresh: "\<forall>x \<in> set (rows TC t). cl_Group x \<noteq> uid" and "uid \<noteq> []" "\<And>x. text x \<noteq> []"
    and srcs: "distinct (bc_Srcs req)" "[] \<notin> set (bc_Srcs req)" "bc_Srcs req \<noteq> []" and "\<not> bc_Sync req"
    and order: "mset order = mset (bc_Srcs req)"
  shows "\<exists>job t1. batchCopyFile TC now text k c req uid order (s, t) = (SuccessID uid, Some job, s, t1)
    \<and> copyLineProcess TC uid t1 = Progress ''RUNNING'' []
    \<and> (\<forall>rs s2 t2. job (s, t1) = (rs, s2, t2) \<and> Panicked \<notin> set rs \<and> Endless \<notin> set rs \<longrightarrow>
         length rs = length order
       \<and> (if list_all (\<lambda>r. r = okay) rs then copyLineProcess TC uid t2 = Progress ''SUCCESS'' []
          else \<exists>e. Returned (Some e) \<in> set rs \<and> copyLineProcess TC uid t2 = Progress ''FAILED'' (text e)))"
proof -
  have v0: "group_view TC req uid t [] (\<lambda>_. (RUNNING, []))" using fresh by (auto simp: group_view_def)
  from group_view_batch_add [OF TC v0, of "bc_Srcs req" now] srcs(1) obtain t1 where
    t1: "batch_add TC now req uid (bc_Srcs req) t = (True, t1)"
      "group_view TC req uid t1 (bc_Srcs req) (\<lambda>_. (RUNNING, []))"
    by auto
  let ?job = "batch_run TC now text k c req uid order"
  have "copyLineProcess TC uid t1 = Progress ''RUNNING'' []"
    using progress_of_view [OF TC t1(2) assms(3) srcs(3)] srcs(3) by (auto simp: find_None_iff split: option.splits dest!: find_SomeD)
  moreover have "batchCopyFile TC now text k c req uid order (s, t) = (SuccessID uid, Some ?job, s, t1)"
    using t1(1) assms(8) by (simp add: batchCopyFile_def)
  moreover have "length rs = length order \<and> (if list_all (\<lambda>r. r = okay) rs then copyLineProcess TC uid t2 = Progress ''SUCCESS'' []
          else \<exists>e. Returned (Some e) \<in> set rs \<and> copyLineProcess TC uid t2 = Progress ''FAILED'' (text e))"
    if run: "?job (s, t1) = (rs, s2, t2)" and ok: "Panicked \<notin> set rs" "Endless \<notin> set rs" for rs s2 t2
  proof -
    have so: "set order = set (bc_Srcs req)" "distinct order" "[] \<notin> set order"
      using order srcs by (auto dest: mset_eq_setD simp: mset_eq_imp_distinct_iff [OF order])
    have v1: "group_view TC req uid (snd (s, t1)) (bc_Srcs req) (\<lambda>_. (RUNNING, []))" using t1(2) by simp
    from batch_run_view [OF TC assms(3,4) run v1 so(2,3) ok] obtain v' where
      v': "group_view TC req uid t2 (bc_Srcs req) v'"
      "list_all2 (\<lambda>s r. \<exists>e. r = Returned e \<and> fst (v' s) = end_of (e = None) \<and> (\<forall>x. e = Some x \<longrightarrow> snd (v' s) = text x)) order rs"
      by auto
    note pv = progress_of_view [OF TC v'(1) assms(3) srcs(3)]
    have res: "\<exists>e. Returned e \<in> set rs \<and> fst (v' s) = end_of (e = None) \<and> (\<forall>x. e = Some x \<longrightarrow> snd (v' s) = text x)"
      if "s \<in> set (bc_Srcs req)" for s
      using list_all2_left [OF v'(2)] that so(1) by blast
    have res': "\<exists>s \<in> set (bc_Srcs req). fst (v' s) = end_of (e = None)" if "Returned e \<in> set rs" for e
      using list_all2_right [OF v'(2) that] so(1) by auto
    show ?thesis
    proof (cases "list_all (\<lambda>r. r = okay) rs")
      case True
      then have "\<forall>s \<in> set (bc_Srcs req). fst (v' s) = DONE"
        using res by (fastforce simp: list_all_iff okay_def end_of_def)
      then have "copyLineProcess TC uid t2 = Progress ''SUCCESS'' []"
        using pv by (auto simp: find_None_iff split: option.splits dest!: find_SomeD)
      with True v'(2) show ?thesis by (simp add: list_all2_lengthD)
    next
      case False
      then obtain r where "r \<in> set rs" "r \<noteq> okay" by (auto simp: list_all_iff)
      moreover from this ok have "r \<noteq> Panicked" "r \<noteq> Endless" by auto
      then obtain e where "r = Returned e" by (cases r) auto
      ultimately obtain x where "Returned (Some x) \<in> set rs" by (cases e) (auto simp: okay_def)
      from res' [OF this] obtain s0 where "s0 \<in> set (bc_Srcs req)" "fst (v' s0) = FAILED" by (auto simp: end_of_def)
      then obtain s1 where s1: "find (\<lambda>s. fst (v' s) = FAILED) (bc_Srcs req) = Some s1"
        by (cases "find (\<lambda>s. fst (v' s) = FAILED) (bc_Srcs req)") (auto simp: find_None_iff)
      then have "s1 \<in> set (bc_Srcs req)" "fst (v' s1) = FAILED" by (auto dest: find_SomeD)
      with res [of s1] obtain e where "Returned (Some e) \<in> set rs" "snd (v' s1) = text e" by (auto simp: end_of_def split: if_splits)
      with pv s1 False v'(2) show ?thesis by (auto simp: list_all2_lengthD)
    qed
  qed
  ultimately show ?thesis by blast
qed

end
