(* ===== verification/Confine.thy ===== *)
theory Confine
  imports FileOps
begin

text \<open>
  Where the file operations of theory \<open>FileOps\<close> can act. In a file system without symbolic links every call
  works at the place its path names, so an operation changes nothing outside the directories its paths lie in.
\<close>

section \<open>File systems without links\<close>

text \<open>No link anywhere, and every name is one segment.\<close>

fun link_free :: "node \<Rightarrow> bool"
  and link_frees :: "(string \<times> node) list \<Rightarrow> bool" where
  "link_free (Dir m ch) = link_frees ch"
| "link_free (File m c) = True"
| "link_free (Link m t) = False"
| "link_frees [] = True"
| "link_frees ((k, c) # ch) = (plain_seg k \<and> link_free c \<and> link_frees ch)"

lemma link_frees_iff: "link_frees ch \<longleftrightarrow> (\<forall>kc \<in> set ch. plain_seg (fst kc) \<and> link_free (snd kc))"
  by (induction ch) auto

lemma link_frees_map_of: "link_frees ch \<Longrightarrow> map_of ch k = Some c \<Longrightarrow> link_free c"
  by (auto simp: link_frees_iff dest!: map_of_SomeD)

lemma link_frees_ins: "link_frees ch \<Longrightarrow> plain_seg k \<Longrightarrow> link_free n \<Longrightarrow> link_frees (ins_child k n ch)"
  by (induction k n ch rule: ins_child.induct) auto

lemma link_frees_put: "link_frees ch \<Longrightarrow> plain_seg k \<Longrightarrow> (\<And>n. v = Some n \<Longrightarrow> link_free n) \<Longrightarrow> link_frees (put_child k v ch)"
proof (cases v)
  case None
  then show "link_frees ch \<Longrightarrow> ?thesis" by (simp add: link_frees_iff)
qed (simp add: link_frees_ins)

lemma link_free_at: "link_free t \<Longrightarrow> node_at t q = Some n \<Longrightarrow> link_free n"
  by (induction t q rule: node_at.induct) (auto split: option.splits dest: link_frees_map_of)

lemma link_free_alter:
  "link_free t \<Longrightarrow> plain_path q \<Longrightarrow> (\<And>n. f (node_at t q) = Some n \<Longrightarrow> link_free n) \<Longrightarrow> link_free (alter q f t)"
proof (induction q f t rule: alter.induct)
  case (1 f n)
  then show ?case by (auto split: option.splits)
next
  case (2 s ss f m ch)
  show ?case
  proof (cases "ss = []")
    case True
    have "node_at (Dir m ch) [s] = map_of ch s" by (auto split: option.splits)
    with 2(2-4) True show ?thesis by (auto intro!: link_frees_put)
  next
    case False
    show ?thesis
    proof (cases "map_of ch s")
      case None
      with 2(2) False show ?thesis by simp
    next
      case (Some c)
      with 2(2) have "link_free c" by (auto dest: link_frees_map_of)
      with 2(1) [OF False Some] 2(3,4) Some have "link_free (alter ss f c)" by simp
      with 2(2,3) Some False show ?thesis by (simp add: link_frees_ins)
    qed
  qed
qed auto

lemma node_at_alter_nothing: "\<not> parent_dir t q \<Longrightarrow> node_at (alter q f t) q' = None \<longleftrightarrow> node_at t q' = None"
proof (induction q arbitrary: t q')
  case Nil
  then show ?case by (simp add: parent_dir_def)
next
  case (Cons s q)
  show ?case
  proof (cases t)
    case (Dir m ch)
    with Cons.prems have "q \<noteq> []" by (auto simp: parent_dir_def)
    show ?thesis
    proof (cases "map_of ch s")
      case None
      with Dir \<open>q \<noteq> []\<close> show ?thesis by simp
    next
      case (Some c)
      then have "\<not> parent_dir c q" using Cons.prems Dir \<open>q \<noteq> []\<close> by (auto simp: parent_dir_def)
      with Cons.IH Dir Some \<open>q \<noteq> []\<close> show ?thesis by (cases q') (auto split: option.splits)
    qed
  qed auto
qed

lemma link_free_set_meta [simp]: "link_free (set_meta f n) = link_free n"
  by (cases n) auto

lemma link_free_set_content [simp]: "link_free (set_content t c n) = link_free n"
  by (cases n) auto

lemma link_free_prune:
  "link_free n \<Longrightarrow> prune d q n = Some n' \<Longrightarrow> link_free n'"
  "link_frees ch \<Longrightarrow> link_frees (prunes d q ch)"
  by (induction d q n and d q ch arbitrary: n' rule: prune_prunes.induct)
    (auto simp: Let_def split: if_splits option.splits)

text \<open>Resolution is lexical.\<close>

lemma resolve_lexical:
  "link_free t \<Longrightarrow> resolve k fl t cur ws = Inr q \<Longrightarrow> ''..'' \<notin> set cur \<Longrightarrow> q = rev (foldl (clean_step True) (rev cur) ws)"
proof (induction k fl t cur ws rule: resolve.induct)
  case (2 k fl t cur s rest)
  show ?case
  proof (cases "s = [] \<or> s = ''.''")
    case True
    with 2 show ?thesis by (simp add: resolve.simps(2))
  next
    case ns: False
    show ?thesis
    proof (cases "s = ''..''")
      case True
      have "rev (butlast cur) = clean_step True (rev cur) s"
        using True "2.prems"(3) by (cases cur rule: rev_cases) auto
      moreover have "''..'' \<notin> set (butlast cur)" using "2.prems"(3) by (auto dest: in_set_butlastD)
      ultimately show ?thesis using 2(2) "2.prems"(1,2) ns True by (simp add: resolve.simps(2))
    next
      case False
      have st: "rev (cur @ [s]) = clean_step True (rev cur) s" using ns False by simp
      have nl: "node_at t (cur @ [s]) \<noteq> Some (Link m tgt)" for m tgt
        by (auto dest: link_free_at [OF "2.prems"(1)])
      from "2.prems"(2) ns False nl have r: "(case node_at t (cur @ [s]) of
          Some (Dir m ch) \<Rightarrow> resolve k fl t (cur @ [s]) rest = Inr q
        | _ \<Rightarrow> rest = [] \<and> q = cur @ [s])"
        by (auto simp: resolve.simps(2) split: option.splits node.splits if_splits)
      show ?thesis
      proof (cases "\<exists>m ch. node_at t (cur @ [s]) = Some (Dir m ch)")
        case True
        then obtain m ch where d: "node_at t (cur @ [s]) = Some (Dir m ch)" by blast
        with r have "resolve k fl t (cur @ [s]) rest = Inr q" by simp
        moreover have "''..'' \<notin> set (cur @ [s])" using "2.prems"(3) False by simp
        ultimately have "q = rev (foldl (clean_step True) (rev (cur @ [s])) rest)"
          using 2(4) [OF _ False d] ns "2.prems"(1) by blast
        then show ?thesis by (simp only: st foldl.simps)
      next
        case nd: False
        with r have "rest = [] \<and> q = cur @ [s]" by (auto split: option.splits node.splits)
        with st show ?thesis by simp
      qed
    qed
  qed
qed simp

lemma phys_lexical:
  assumes "link_free (fs_root s)" "phys fl s p = Inr q" "rooted p"
  shows "q = psegs p"
  using resolve_lexical [OF assms(1), of 40 fl "[]" "split_on (CHR ''/'') p" q] assms(2,3)
  by (simp add: phys_def psegs_def split: if_splits)

section \<open>Changes inside given directories\<close>

definition outside :: "path list \<Rightarrow> path \<Rightarrow> bool" where
  "outside Rs q \<longleftrightarrow> (\<forall>R \<in> set Rs. \<not> prefix R q \<and> \<not> prefix q R)"

definition within :: "path list \<Rightarrow> string \<Rightarrow> bool" where
  "within Rs p \<longleftrightarrow> rooted p \<and> (\<exists>R \<in> set Rs. prefix R (psegs p))"

definition inside_only :: "path list \<Rightarrow> fsys \<Rightarrow> fsys \<Rightarrow> bool" where
  "inside_only Rs s s' \<longleftrightarrow> (link_free (fs_root s) \<longrightarrow> link_free (fs_root s')
     \<and> (\<forall>q. outside Rs q \<longrightarrow> node_at (fs_root s') q = node_at (fs_root s) q))"

lemma inside_only_refl [simp]: "inside_only Rs s s"
  by (simp add: inside_only_def)

lemma inside_only_trans: "inside_only Rs s s1 \<Longrightarrow> inside_only Rs s1 s2 \<Longrightarrow> inside_only Rs s s2"
  by (simp add: inside_only_def)

lemma inside_only_ctx [simp]:
  "inside_only Rs (s\<lparr>fs_ctx := x\<rparr>) s' = inside_only Rs s s'"
  "inside_only Rs s (s'\<lparr>fs_ctx := x\<rparr>) = inside_only Rs s s'"
  by (simp_all add: inside_only_def)

lemma outside_parallel: "outside Rs q \<Longrightarrow> R \<in> set Rs \<Longrightarrow> prefix R p \<Longrightarrow> \<not> prefix p q \<and> \<not> prefix q p"
  unfolding outside_def by (meson prefix_order.trans prefix_same_cases)

lemma inside_only_alter:
  assumes "plain_path q" "\<exists>R \<in> set Rs. prefix R q" "link_free (fs_root s) \<Longrightarrow> (\<And>n. f (node_at (fs_root s) q) = Some n \<Longrightarrow> link_free n)"
  shows "inside_only Rs s (on_root (alter q f) s)"
  using assms outside_parallel
  by (auto simp: inside_only_def node_at_alter_parallel intro!: link_free_alter)

lemma inside_only_new_dir:
  assumes "R \<in> set Rs" "prefix q R" "node_at (fs_root s) q = None" "plain_path q"
  shows "inside_only Rs s (on_root (alter q (\<lambda>_. Some (Dir m []))) s)"
proof -
  have "node_at (alter q (\<lambda>_. Some (Dir m [])) (fs_root s)) q' = node_at (fs_root s) q'" if out: "outside Rs q'" for q'
  proof (cases "prefix q q'")
    case True
    then obtain r where r: "q' = q @ r" by (auto simp: prefix_def)
    have "r \<noteq> []" using out assms(1,2) r by (auto simp: outside_def)
    have "node_at (fs_root s) q' = None" using assms(3) r by (simp add: node_at_append)
    moreover have "node_at (alter q (\<lambda>_. Some (Dir m [])) (fs_root s)) q' = None"
    proof (cases "parent_dir (fs_root s) q")
      case True
      then show ?thesis using node_at_alter_new [OF True, of "Dir m []" r] \<open>r \<noteq> []\<close> r by (cases r) auto
    next
      case False
      from node_at_alter_nothing [OF this] \<open>node_at (fs_root s) q' = None\<close> show ?thesis by simp
    qed
    ultimately show ?thesis by simp
  next
    case False
    moreover have "\<not> prefix q' q"
      using out assms(1,2) unfolding outside_def by (meson prefix_order.trans)
    ultimately show ?thesis by (simp add: node_at_alter_parallel)
  qed
  then show ?thesis using assms(4) by (auto simp: inside_only_def intro!: link_free_alter)
qed

section \<open>The calls of package os\<close>

lemma at_path_lexical:
  "link_free (fs_root s) \<Longrightarrow> rooted p \<Longrightarrow> at_path fl op p s = Inr (q, n) \<Longrightarrow> q = psegs p \<and> node_at (fs_root s) q = Some n"
  by (auto simp: at_path_def split: sum.splits if_splits option.splits dest: phys_lexical)

lemma plain_psegs: "rooted p \<Longrightarrow> plain_path (psegs p)"
  by (auto simp: plain_path_def intro: psegs_plain)

lemma within_alter:
  assumes "within Rs p" "link_free (fs_root s) \<Longrightarrow> (\<And>n. f (node_at (fs_root s) (psegs p)) = Some n \<Longrightarrow> link_free n)"
  shows "inside_only Rs s (on_root (alter (psegs p) f) s)"
  using assms by (intro inside_only_alter) (auto simp: within_def plain_psegs)

text \<open>It is enough to look at file systems without links.\<close>

lemma inside_onlyI: "(link_free (fs_root s) \<Longrightarrow> inside_only Rs s s') \<Longrightarrow> inside_only Rs s s'"
  by (auto simp: inside_only_def)

lemma within_rooted: "within Rs p \<Longrightarrow> rooted p"
  by (simp add: within_def)

lemma change_inside: "within Rs p \<Longrightarrow> inside_only Rs s (snd (change fl op f p s))"
proof (rule inside_onlyI)
  assume w: "within Rs p" and l: "link_free (fs_root s)"
  show "inside_only Rs s (snd (change fl op f p s))"
  proof (cases "at_path fl op p s")
    case (Inr qn)
    then have "fst qn = psegs p"
      using at_path_lexical [OF l within_rooted [OF w]] by (metis prod.collapse)
    moreover have "inside_only Rs s (on_root (alter (psegs p) (map_option (set_meta f))) s)"
      using w by (rule within_alter) (auto dest: link_free_at)
    ultimately show ?thesis using Inr by (auto simp: change_def split: prod.splits)
  qed (simp add: change_def)
qed

lemma OpenCreate_inside: "within Rs p \<Longrightarrow> inside_only Rs s (snd (os_OpenCreate trunc p s))"
  and OpenCreate_at: "within Rs p \<Longrightarrow> link_free (fs_root s) \<Longrightarrow> os_OpenCreate trunc p s = (Inr q, s1) \<Longrightarrow> q = psegs p"
proof -
  show "within Rs p \<Longrightarrow> inside_only Rs s (snd (os_OpenCreate trunc p s))"
  proof (rule inside_onlyI)
    assume w: "within Rs p" and l: "link_free (fs_root s)"
    have a: "inside_only Rs s (on_root (alter (psegs p) (\<lambda>_. Some (File m c))) s)" for m c
      using w by (rule within_alter) auto
    show "inside_only Rs s (snd (os_OpenCreate trunc p s))"
    proof (cases "phys True s p")
      case (Inr q)
      with phys_lexical [OF l Inr within_rooted [OF w]] a show ?thesis
        by (auto simp: os_OpenCreate_def split: option.splits node.splits)
    qed (simp add: os_OpenCreate_def)
  qed
  show "within Rs p \<Longrightarrow> link_free (fs_root s) \<Longrightarrow> os_OpenCreate trunc p s = (Inr q, s1) \<Longrightarrow> q = psegs p"
    using phys_lexical [of s True p q] within_rooted [of Rs p]
    by (auto simp: os_OpenCreate_def split: sum.splits if_splits option.splits node.splits)
qed

lemma Remove_inside: "within Rs p \<Longrightarrow> inside_only Rs s (snd (os_Remove p s))"
proof (rule inside_onlyI)
  assume w: "within Rs p" and l: "link_free (fs_root s)"
  have a: "inside_only Rs s (on_root (alter (psegs p) (\<lambda>_. None)) s)"
    using w by (rule within_alter) auto
  show "inside_only Rs s (snd (os_Remove p s))"
  proof (cases "at_path False SRemove p s")
    case (Inr qn)
    then have "fst qn = psegs p"
      using at_path_lexical [OF l within_rooted [OF w]] by (metis prod.collapse)
    with Inr a show ?thesis by (auto simp: os_Remove_def split: prod.splits)
  qed (simp add: os_Remove_def)
qed

lemma RemoveAll_inside: "within Rs p \<Longrightarrow> inside_only Rs s (snd (os_RemoveAll p s))"
proof (rule inside_onlyI)
  assume w: "within Rs p" and l: "link_free (fs_root s)"
  show "inside_only Rs s (snd (os_RemoveAll p s))"
  proof (cases "phys False s p")
    case (Inr q)
    then have q: "q = psegs p" by (rule phys_lexical [OF l _ within_rooted [OF w]])
    have "inside_only Rs s (on_root (alter (psegs p) (\<lambda>_. prune d q n)) s)" if "node_at (fs_root s) q = Some n" for d n
      using w by (rule within_alter) (use that in \<open>auto dest: link_free_at link_free_prune(1)\<close>)
    with Inr q show ?thesis by (auto simp: os_RemoveAll_def Let_def split: option.splits)
  qed (simp add: os_RemoveAll_def)
qed

lemma sys_rename_inside:
  assumes "within Rs src" "within Rs dst"
  shows "inside_only Rs s (snd (sys_rename src dst s))"
proof (rule inside_onlyI)
  assume l: "link_free (fs_root s)"
  show "inside_only Rs s (snd (sys_rename src dst s))"
  proof (cases "at_path False SRename src s")
    case (Inr qn)
    obtain qs n where qn: "qn = (qs, n)" by force
    with Inr l have qs: "qs = psegs src" "node_at (fs_root s) qs = Some n"
      using at_path_lexical [OF l within_rooted [OF assms(1)]] by auto
    show ?thesis
    proof (cases "phys False s dst")
      case (Inr qd)
      then have qd: "qd = psegs dst" by (rule phys_lexical [OF l _ within_rooted [OF assms(2)]])
      have "inside_only Rs s (on_root (alter (psegs src) (\<lambda>_. None)) s)"
        using assms(1) by (rule within_alter) auto
      moreover have "inside_only Rs (on_root (alter (psegs src) (\<lambda>_. None)) s)
          (on_root (alter (psegs dst) (\<lambda>_. Some n)) (on_root (alter (psegs src) (\<lambda>_. None)) s))"
        using assms(2) by (rule within_alter) (use qs(2) l in \<open>auto dest: link_free_at\<close>)
      ultimately have "inside_only Rs s (on_root (\<lambda>t. alter qd (\<lambda>_. Some n) (alter qs (\<lambda>_. None) t)) s)"
        unfolding qs(1) qd using inside_only_trans by (fastforce simp: on_root_def)
      then show ?thesis using \<open>at_path False SRename src s = Inr qn\<close> qn Inr by (simp add: sys_rename_def)
    qed (use \<open>at_path False SRename src s = Inr qn\<close> qn in \<open>simp add: sys_rename_def\<close>)
  qed (simp add: sys_rename_def)
qed

lemma Rename_inside: "within Rs src \<Longrightarrow> within Rs dst \<Longrightarrow> inside_only Rs s (snd (os_Rename src dst s))"
  using sys_rename_inside [of Rs src dst s]
  by (auto simp: os_Rename_def split: sum.splits prod.splits node.splits)

definition reaches :: "path list \<Rightarrow> path \<Rightarrow> bool" where
  "reaches Rs q \<longleftrightarrow> plain_path q \<and> (\<exists>R \<in> set Rs. prefix R q \<or> prefix q R)"

lemma psegs_abs_path: "plain_path q \<Longrightarrow> psegs (abs_path q) = q"
  using psegs_plain_path [of q] by (simp add: abs_path_def plain_path_def)

lemma rooted_abs_path [simp]: "rooted (abs_path q)"
  by (simp add: abs_path_def rooted_def)

lemma Mkdir_inside:
  assumes "reaches Rs q"
  shows "inside_only Rs s (snd (os_Mkdir (abs_path q) perm s))"
proof (rule inside_onlyI)
  assume l: "link_free (fs_root s)"
  have pl: "plain_path q" using assms by (simp add: reaches_def)
  show "inside_only Rs s (snd (os_Mkdir (abs_path q) perm s))"
  proof (cases "phys False s (abs_path q)")
    case (Inr q')
    then have q': "q' = q" using phys_lexical [OF l, of False "abs_path q"] psegs_abs_path [OF pl] by simp
    have "inside_only Rs s (on_root (alter q (\<lambda>_. Some (Dir m []))) s)" if "node_at (fs_root s) q = None" for m
    proof (cases "\<exists>R \<in> set Rs. prefix R q")
      case True
      then show ?thesis using pl by (intro inside_only_alter) auto
    next
      case False
      with assms obtain R where "R \<in> set Rs" "prefix q R" by (auto simp: reaches_def)
      then show ?thesis using that pl by (rule inside_only_new_dir)
    qed
    with Inr q' show ?thesis by (auto simp: os_Mkdir_def FileSys.make_def)
  qed (simp add: os_Mkdir_def FileSys.make_def)
qed

lemma reaches_butlast: "reaches Rs (q @ [x]) \<Longrightarrow> reaches Rs q"
proof -
  assume a: "reaches Rs (q @ [x])"
  then obtain R where R: "R \<in> set Rs" "prefix R (q @ [x]) \<or> prefix (q @ [x]) R" by (auto simp: reaches_def)
  then have "prefix R q \<or> prefix q R" by (auto dest: append_prefixD simp del: prefix_snoc simp: prefix_snoc)
  with a R(1) show ?thesis by (auto simp: reaches_def)
qed

lemma mkdirs_inside: "reaches Rs (rev rs) \<Longrightarrow> inside_only Rs s (snd (mkdirs perm rs s))"
proof (induction rs arbitrary: s)
  case (Cons x rs)
  have "reaches Rs (rev rs)" using Cons.prems by (auto dest: reaches_butlast)
  note up = Cons.IH [OF this]
  show ?case
  proof (cases "os_Stat (abs_path (rev (x # rs))) s")
    case (Inl e)
    obtain e1 s1 where m: "mkdirs perm rs s = (e1, s1)" by force
    then have a: "inside_only Rs s s1" using up [of s] by simp
    obtain e2 s2 where mk: "os_Mkdir (abs_path (rev (x # rs))) perm s1 = (e2, s2)" by force
    then have b: "inside_only Rs s1 s2" using Mkdir_inside [OF Cons.prems, of s1 perm] by simp
    from inside_only_trans [OF a b] a Inl m mk show ?thesis
      by (cases e1; cases e2) (auto simp: Let_def split: sum.splits)
  qed (simp add: Let_def)
qed simp

lemma segs_of_clean: "rooted p \<Longrightarrow> segs_of (clean p) = psegs p"
  using segs_of_abs [OF plain_psegs] by (simp add: clean_def abs_path_def)

lemma clean_not_Nil: "clean p \<noteq> []"
proof (cases "rooted p \<or> psegs p = []")
  case False
  have "w \<noteq> []" if "w \<in> set (psegs p)" for w
  proof -
    have "\<forall>w \<in> set st. w \<noteq> [] \<Longrightarrow> \<forall>w \<in> set (foldl (clean_step r) st ws). w \<noteq> []" for r st ws
    proof (induction ws arbitrary: st)
      case (Cons v ws)
      have "\<forall>w \<in> set (clean_step r st v). w \<noteq> []" using Cons.prems by (auto split: list.splits)
      from Cons.IH [OF this] show ?case by (simp only: foldl.simps)
    qed simp
    from this [of "[]" "rooted p" "split_on (CHR ''/'') p"] that show ?thesis
      unfolding psegs_def by (metis empty_iff empty_set set_rev)
  qed
  with False have "join_on ''/'' (psegs p) \<noteq> []" using join_on_not_Nil by (metis last_in_set)
  with False show ?thesis by (simp add: clean_def)
qed (auto simp: clean_def)

lemma MkdirAll_inside:
  "rooted p \<Longrightarrow> reaches Rs (psegs p) \<Longrightarrow> inside_only Rs s (snd (os_MkdirAll (clean p) perm s))"
  using mkdirs_inside [of Rs "rev (psegs p)" s perm] by (simp add: os_MkdirAll_def segs_of_clean clean_not_Nil)

section \<open>The helpers of iotools\<close>

lemma andThen_inside:
  "(\<And>s. inside_only Rs s (snd (f s))) \<Longrightarrow> (\<And>s. inside_only Rs s (snd (g s))) \<Longrightarrow> inside_only Rs s (snd (andThen f g s))"
proof -
  assume f: "\<And>s. inside_only Rs s (snd (f s))" and g: "\<And>s. inside_only Rs s (snd (g s))"
  obtain e s1 where fs: "f s = (e, s1)" by force
  then have "inside_only Rs s s1" using f [of s] by simp
  with fs inside_only_trans [OF _ g [of s1]] show ?thesis by (cases e) (auto simp: andThen_def)
qed

lemma each_inside:
  "(\<And>x s. x \<in> set xs \<Longrightarrow> inside_only Rs s (snd (f x s))) \<Longrightarrow> inside_only Rs s (snd (each f xs s))"
  by (induction xs arbitrary: s) (auto intro!: andThen_inside)

lemma lift_snd [simp]: "snd (lift r) = snd r" "snd (creating r) = snd r"
  by (simp_all add: lift_def creating_def)

lemma within_psegs: "rooted p \<Longrightarrow> rooted p' \<Longrightarrow> prefix (psegs p) (psegs p') \<Longrightarrow> within Rs p \<Longrightarrow> within Rs p'"
  unfolding within_def using prefix_order.trans by blast

lemma rooted_append: "rooted p \<Longrightarrow> rooted (p @ q)"
  by (auto simp: rooted_Cons)

lemma path_join_within:
  assumes "within Rs p" "x = [] \<or> plain_seg x"
  shows "within Rs (path_join p x)" "psegs (path_join p x) = psegs p @ (if x = [] then [] else [x])"
proof -
  have r: "rooted p" and ne: "p \<noteq> []" using assms(1) by (auto simp: within_def rooted_def)
  have 1: "psegs (p @ ''/'' @ x) = psegs p @ [x]" if "plain_seg x"
    using that psegs_extend [OF r, of "[x]"] by simp
  have ra: "rooted (p @ ''/'' @ x)" by (rule rooted_append [OF r])
  have j: "path_join p x = (if x = [] then clean p else clean (p @ ''/'' @ x))"
    using ne by (simp add: path_join_def)
  have rj: "rooted (path_join p x)"
    unfolding j using r ra by (simp add: rooted_clean del: append.simps)
  show p: "psegs (path_join p x) = psegs p @ (if x = [] then [] else [x])"
  proof (cases "x = []")
    case True
    then show ?thesis unfolding j by (simp add: psegs_clean [OF r])
  next
    case False
    then have "plain_seg x" using assms(2) by simp
    with False show ?thesis unfolding j by (simp add: psegs_clean [OF ra] 1 del: append.simps)
  qed
  show "within Rs (path_join p x)"
    by (rule within_psegs [OF r rj _ assms(1)]) (simp add: p)
qed

lemma split_file_clean:
  assumes "rooted p" "clean p = p"
  shows "split_file p = [] \<or> plain_seg (split_file p)"
proof -
  have p: "p = abs_path (psegs p)" using assms by (simp add: clean_def abs_path_def)
  have pl: "\<forall>w \<in> set (psegs p). plain_seg w" using psegs_plain [OF assms(1)] by blast
  have "split_on (CHR ''/'') p = [] # (if psegs p = [] then [[]] else psegs p)"
    using split_abs_path [OF pl] p by simp
  with pl show ?thesis by (auto simp: split_file_def)
qed

lemma split_dir_clean:
  assumes "rooted p" "clean p = p"
  shows "rooted (split_dir p)" "psegs (split_dir p) = butlast (psegs p)"
proof -
  define q where "q = psegs p"
  have p: "p = abs_path q" using assms by (simp add: clean_def abs_path_def q_def)
  have pl: "plain_path q" unfolding q_def by (rule plain_psegs [OF assms(1)])
  have *: "rooted (split_dir p) \<and> psegs (split_dir p) = butlast q"
  proof (cases q rule: rev_cases)
    case Nil
    then show ?thesis using p by (simp add: split_dir_def split_file_def abs_path_def psegs_def rooted_def)
  next
    case (snoc r x)
    have x: "split_file p = x" using split_file_abs pl unfolding p snoc by simp
    have "split_dir p = abs_path r @ (if r = [] then [] else ''/'')"
    proof (cases "r = []")
      case True
      then show ?thesis using x snoc p by (simp add: split_dir_def abs_path_def)
    next
      case False
      from abs_path_child [OF this, of x] snoc p have "p = (abs_path r @ ''/'') @ x" by simp
      with x False show ?thesis by (simp add: split_dir_def)
    qed
    moreover have "psegs (abs_path r @ ''/'' @ []) = psegs (abs_path r)"
      by (subst psegs_append) simp_all
    moreover have "psegs (abs_path r) = r" using pl snoc by (intro psegs_abs_path) simp
    ultimately show ?thesis using snoc rooted_append [of "abs_path r" "''/''"] by auto
  qed
  then show "rooted (split_dir p)" "psegs (split_dir p) = butlast (psegs p)" by (simp_all add: q_def)
qed

lemma Move2Dir_inside:
  assumes "within Rs src" "within Rs dst" "clean src = src"
  shows "inside_only Rs s (snd (Move2Dir src dst ex s))"
  using Rename_inside [OF assms(1,2)] Rename_inside [OF assms(1) path_join_within(1) [OF assms(2) split_file_clean [OF within_rooted [OF assms(1)] assms(3)]]]
  by (simp add: Move2Dir_def split: sum.splits)

lemma Move2File_inside: "within Rs src \<Longrightarrow> within Rs dst \<Longrightarrow> inside_only Rs s (snd (Move2File src dst s))"
  using Rename_inside [of Rs src dst s] by (simp add: Move2File_def split: sum.splits)

lemma CopyFileWithContext_inside:
  assumes "within Rs dst"
  shows "inside_only Rs s (snd (CopyFileWithContext src dst s))"
proof (rule inside_onlyI)
  assume l: "link_free (fs_root s)"
  show "inside_only Rs s (snd (CopyFileWithContext src dst s))"
  proof (cases "os_OpenCreate True dst s")
    case (Pair r s1)
    have s1: "inside_only Rs s s1" using OpenCreate_inside [OF assms, of s True] Pair by simp
    have l1: "link_free (fs_root s1)" using s1 l by (simp add: inside_only_def)
    have tail: "inside_only Rs s (snd (andThen (os_Chtimes dst t) (os_Chmod dst m)
        ((on_root (alter q (map_option (set_content t' w))) s1)\<lparr>fs_ctx := x\<rparr>)))
      \<and> inside_only Rs s (on_root (alter q (map_option (set_content t' w))) s1)" if "r = Inr q" for q t m t' w x
    proof -
      have q: "q = psegs dst" using OpenCreate_at [OF assms l] Pair that by simp
      have "inside_only Rs s1 (on_root (alter (psegs dst) (map_option (set_content t' w))) s1)"
        using assms by (rule within_alter) (auto dest: link_free_at)
      then have a: "inside_only Rs s (on_root (alter q (map_option (set_content t' w))) s1)"
        using s1 q inside_only_trans by blast
      then have "inside_only Rs s ((on_root (alter q (map_option (set_content t' w))) s1)\<lparr>fs_ctx := x\<rparr>)"
        by (simp only: inside_only_ctx)
      moreover have "inside_only Rs u (snd (andThen (os_Chtimes dst t) (os_Chmod dst m) u))" for u
        unfolding os_Chtimes_def os_Chmod_def by (intro andThen_inside change_inside assms)
      ultimately show ?thesis using a inside_only_trans by blast
    qed
    show ?thesis
    proof (cases r)
      case (Inl e)
      with Pair s1 show ?thesis by (auto simp: CopyFileWithContext_def split: sum.splits prod.splits)
    next
      case (Inr q)
      with Pair tail [OF Inr] show ?thesis
        by (auto simp: CopyFileWithContext_def Let_def simp del: on_root_ctx inside_only_ctx split: sum.splits prod.splits option.splits)
          (auto simp only: inside_only_ctx)
    qed
  qed
qed

lemma CopySymLink_inside: "inside_only Rs s (snd (CopySymLinkWithContext src dst s))"
proof (rule inside_onlyI)
  assume l: "link_free (fs_root s)"
  have "\<not> (\<exists>tgt. os_Readlink src s = Inr tgt)"
    using link_free_at [OF l]
    by (fastforce simp: os_Readlink_def at_path_def split: sum.splits if_splits option.splits node.splits)
  then show "inside_only Rs s (snd (CopySymLinkWithContext src dst s))"
    by (cases "os_Readlink src s") (auto simp: CopySymLinkWithContext_def)
qed

text \<open>For a run that may use up its fuel.\<close>

definition run_inside :: "path list \<Rightarrow> fsys \<Rightarrow> run \<Rightarrow> bool" where
  "run_inside Rs s r \<longleftrightarrow> (\<forall>e s'. r = Some (e, s') \<longrightarrow> inside_only Rs s s')"

lemma run_inside_simps [simp]:
  "run_inside Rs s None" "run_inside Rs s (Some (e, s')) = inside_only Rs s s'"
  by (auto simp: run_inside_def)

lemma run_inside_Some: "inside_only Rs s (snd r) \<Longrightarrow> run_inside Rs s (Some r)"
  by (cases r) simp

lemma run_inside_after: "inside_only Rs s s1 \<Longrightarrow> run_inside Rs s1 r \<Longrightarrow> run_inside Rs s r"
  using inside_only_trans by (auto simp: run_inside_def)

lemma run_insideI: "(link_free (fs_root s) \<Longrightarrow> run_inside Rs s r) \<Longrightarrow> run_inside Rs s r"
  using inside_onlyI by (auto simp: run_inside_def)

lemma ReplicateDir_inside:
  assumes "within Rs p" "clean p = p"
  shows "inside_only Rs s (snd (ReplicateDir p perm t s))"
proof -
  have r: "rooted p" and "reaches Rs (psegs p)"
    using assms(1) plain_psegs by (auto simp: within_def reaches_def)
  from MkdirAll_inside [OF this, of _ perm] assms(2) have "inside_only Rs s (snd (creating (os_MkdirAll p perm s)))" for s
    by simp
  then show ?thesis
    unfolding ReplicateDir_def os_Chtimes_def by (intro andThen_inside) (simp_all add: change_inside assms(1))
qed

lemma EnsureDir_inside:
  assumes "rooted p" "reaches Rs (psegs p)"
  shows "inside_only Rs s (snd (EnsureDir (clean p) s))"
  using MkdirAll_inside [OF assms, of s 511]
  by (auto simp: EnsureDir_def split: prod.splits option.splits)

lemma clean_path_join:
  assumes "rooted p"
  shows "clean (path_join p x) = path_join p x"
proof -
  have "p \<noteq> []" using assms by (auto simp: rooted_def)
  then show ?thesis
    using clean_idem [OF assms] clean_idem [OF rooted_append [OF assms, of "''/'' @ x"]]
    by (simp add: path_join_def del: append.simps)
qed

lemma copy_entries_inside:
  assumes "\<And>src dst s. within Rs dst \<Longrightarrow> run_inside Rs s (rec src dst s)"
  shows "within Rs dst \<Longrightarrow> \<forall>x \<in> set names. plain_seg x \<Longrightarrow> run_inside Rs s (copy_entries rec src dst names s)"
proof (induction names arbitrary: s)
  case (Cons x names)
  define dp where "dp = path_join dst x"
  have w: "within Rs dp" unfolding dp_def using Cons.prems by (intro path_join_within) auto
  have cl: "clean dp = dp" unfolding dp_def by (rule clean_path_join [OF within_rooted [OF Cons.prems(1)]])
  note IH = Cons.IH [OF Cons.prems(1)]
  define r where "r = (\<lambda>n. case n of
      Dir m ch \<Rightarrow> (case ReplicateDir dp 493 (n_mtime m) s of
         (Some e, s1) \<Rightarrow> Some (Some e, s1) | (None, s1) \<Rightarrow> rec (path_join src x) dp s1)
    | Link m tgt \<Rightarrow> Some (CopySymLinkWithContext (path_join src x) dp s)
    | File m d \<Rightarrow> Some (CopyFileWithContext (path_join src x) dp s))"
  have one: "run_inside Rs s (r n)" for n
  proof (cases n)
    case (File m d)
    then show ?thesis unfolding r_def by (simp add: run_inside_Some CopyFileWithContext_inside [OF w])
  next
    case (Link m tgt)
    then show ?thesis unfolding r_def by (simp add: run_inside_Some CopySymLink_inside)
  next
    case (Dir m ch)
    obtain e s1 where rd: "ReplicateDir dp 493 (n_mtime m) s = (e, s1)" by force
    then have "inside_only Rs s s1" using ReplicateDir_inside [OF w cl, of s 493 "n_mtime m"] by simp
    then show ?thesis unfolding r_def using Dir rd run_inside_after [OF _ assms [OF w]] by (cases e) simp_all
  qed
  show ?case
  proof (cases "os_Lstat (path_join src x) s")
    case (Inr n)
    have eq: "copy_entries rec src dst (x # names) s = (case r n of
        None \<Rightarrow> None | Some (Some e, s1) \<Rightarrow> Some (Some e, s1) | Some (None, s1) \<Rightarrow> copy_entries rec src dst names s1)"
      using Inr unfolding r_def dp_def by (simp add: Let_def)
    show ?thesis
    proof (cases "r n")
      case None
      then show ?thesis unfolding eq by simp
    next
      case (Some es)
      obtain e s1 where es: "es = (e, s1)" by force
      with one [of n] Some have "inside_only Rs s s1" by simp
      moreover have "run_inside Rs s1 (copy_entries rec src dst names s1)" using IH Cons.prems(2) by simp
      ultimately show ?thesis unfolding eq Some es using run_inside_after by (cases e) auto
    qed
  qed simp
qed simp

lemma CopyDirWithContext_inside:
  "within Rs dst \<Longrightarrow> run_inside Rs s (CopyDirWithContext k src dst s)"
proof (induction k arbitrary: src dst s)
  case (Suc k)
  show ?case
  proof (rule run_insideI)
    assume l: "link_free (fs_root s)"
    show "run_inside Rs s (CopyDirWithContext (Suc k) src dst s)"
    proof (cases "os_ReadDir src s")
      case (Inr ch)
      then obtain m q where "node_at (fs_root s) q = Some (Dir m ch)"
        by (auto simp: os_ReadDir_def at_path_def split: sum.splits if_splits option.splits node.splits)
      then have "link_frees ch" using link_free_at [OF l] by fastforce
      then have "\<forall>x \<in> set (map fst ch). plain_seg x" by (auto simp: link_frees_iff)
      with Inr copy_entries_inside [OF Suc.IH Suc.prems] show ?thesis by simp
    qed simp
  qed
qed simp

lemma Copy2DirWithContext_inside:
  assumes "within Rs dst" "rooted src" "clean src = src"
  shows "run_inside Rs s (Copy2DirWithContext k src dst ex s)"
proof -
  note r = within_rooted [OF assms(1)]
  note sf = split_file_clean [OF assms(2,3)]
  define dst' where "dst' = path_join dst (split_file src)"
  have w': "within Rs dst'" unfolding dst'_def by (rule path_join_within(1) [OF assms(1) sf])
  then have re: "rooted dst'" "reaches Rs (psegs dst')" using plain_psegs by (auto simp: within_def reaches_def)
  have cl: "clean dst' = dst'" unfolding dst'_def by (rule clean_path_join [OF r])
  obtain e s1 where en: "EnsureDir dst' s = (e, s1)" by force
  with EnsureDir_inside [OF re, of s] cl have a: "inside_only Rs s s1" by simp
  have rf: "rooted (dst @ ''/'' @ split_file src)" by (rule rooted_append [OF r])
  have "prefix (psegs dst) (psegs (dst @ ''/'' @ split_file src))"
  proof (cases "split_file src = []")
    case True
    have "psegs (dst @ ''/'' @ []) = psegs dst" by (subst psegs_append [OF r]) simp
    with True show ?thesis by simp
  next
    case False
    with sf have "plain_seg (split_file src)" by simp
    with psegs_extend [OF r, of "[split_file src]"] show ?thesis by simp
  qed
  then have wf: "within Rs (dst @ ''/'' @ split_file src)" by (rule within_psegs [OF r rf _ assms(1)])
  show ?thesis
    unfolding Copy2DirWithContext_def dst'_def [symmetric] Let_def
    using en a run_inside_after [OF a CopyDirWithContext_inside [OF w']] CopyDirWithContext_inside [OF assms(1)]
      run_inside_Some [OF CopyFileWithContext_inside [OF wf]]
    by (auto split: sum.splits option.splits)
qed

lemma Copy2Dir_inside:
  assumes "within Rs dst" "rooted src" "clean src = src"
  shows "run_inside Rs s (Copy2Dir k src dst ex s)"
  using Copy2DirWithContext_inside [OF assms, of "s\<lparr>fs_ctx := None\<rparr>" k ex]
  by (auto simp: Copy2Dir_def todo_run_def run_inside_def)

lemma CopyFile_inside: "within Rs dst \<Longrightarrow> inside_only Rs s (snd (CopyFile src dst s))"
  using CopyFileWithContext_inside [of Rs dst "s\<lparr>fs_ctx := None\<rparr>" src]
  by (auto simp: CopyFile_def todo_def split: prod.splits)

lemma walk_inside:
  assumes v: "\<And>p e n s. within Rs p \<Longrightarrow> inside_only Rs s (snd (f p e n s))"
  shows "within Rs p \<Longrightarrow> link_free n \<Longrightarrow> inside_only Rs s (snd (walk_node f p n s))"
    and "within Rs p \<Longrightarrow> link_frees ch \<Longrightarrow> inside_only Rs s (snd (walk_nodes f p ch s))"
proof (induction n and ch arbitrary: p s and p s rule: link_free_link_frees.induct)
  case (1 m ch)
  show ?case
  proof (cases "os_ReadDir p s")
    case (Inr ch')
    obtain e s1 where fv: "f p None (Dir m ch) s = (e, s1)" by force
    then have a: "inside_only Rs s s1" using v [OF "1.prems"(1), of s None "Dir m ch"] by simp
    have "inside_only Rs s1 (snd (walk_nodes f p ch s1))" using "1.IH" "1.prems" by simp
    with inside_only_trans [OF a this] a Inr fv show ?thesis by (cases e) simp_all
  next
    case (Inl e)
    with v [OF "1.prems"(1), of s "Some e"] show ?thesis by simp
  qed
next
  case (2 m c)
  then show ?case using v by simp
next
  case (5 k c ch)
  have w: "within Rs (path_join p k)" using 5 by (intro path_join_within) auto
  define r where "r = (case os_Lstat (path_join p k) s of
      Inl e \<Rightarrow> f (path_join p k) (Some e) c s | Inr _ \<Rightarrow> walk_node f (path_join p k) c s)"
  obtain e s1 where rs: "r = (e, s1)" by force
  have "inside_only Rs s (snd r)"
    unfolding r_def using v [OF w] 5(1) [OF w] "5.prems"(2) by (cases "os_Lstat (path_join p k) s") simp_all
  then have a: "inside_only Rs s s1" using rs by simp
  have "inside_only Rs s1 (snd (walk_nodes f p ch s1))" using 5(2) "5.prems" by simp
  from inside_only_trans [OF a this] a rs show ?case
    unfolding walk_nodes.simps r_def [symmetric] by (cases e) simp_all
qed simp_all

lemma Walk_inside:
  assumes "\<And>p e n s. within Rs p \<Longrightarrow> inside_only Rs s (snd (f p e n s))" "within Rs p"
  shows "inside_only Rs s (snd (Walk f p s))"
proof (rule inside_onlyI)
  assume l: "link_free (fs_root s)"
  show "inside_only Rs s (snd (Walk f p s))"
  proof (cases "os_Lstat p s")
    case (Inr n)
    then have "link_free n"
      using link_free_at [OF l] by (auto simp: os_Lstat_def at_path_def split: sum.splits if_splits option.splits)
    from walk_inside(1) [OF assms this, where s = s] Inr show ?thesis by (simp add: Walk_def)
  qed (use assms in \<open>simp add: Walk_def\<close>)
qed

lemma ChownR_inside: "within Rs p \<Longrightarrow> inside_only Rs s (snd (ChownR p uid gid s))"
  unfolding ChownR_def
  by (rule Walk_inside) (auto simp: chown_visitor_def os_Lchown_def change_inside split: option.splits)

lemma RemoveFileR_inside: "within Rs p \<Longrightarrow> inside_only Rs s (snd (RemoveFileR p s))"
  using Walk_inside [of Rs remove_visitor p s] RemoveAll_inside [of Rs p s] Remove_inside
  by (auto simp: RemoveFileR_def remove_visitor_def split: sum.splits option.splits)

lemma iotools_Remove_inside: "within Rs p \<Longrightarrow> inside_only Rs s (snd (IoTools.Remove p s))"
  using RemoveAll_inside [of Rs p s] by (simp add: Remove_def split: sum.splits)

lemma chown_targets_within:
  assumes "rooted p" "\<forall>w \<in> set ws. w = ''.'' \<or> plain_seg w" "x \<in> set (chown_targets p seg ws)"
    and "rooted (p @ seg)" "prefix (psegs p) (psegs (p @ seg))"
  shows "rooted x \<and> prefix (psegs p) (psegs x)"
  using assms
proof (induction ws arbitrary: seg)
  case (Cons w ws)
  let ?seg = "seg @ ''/'' @ w"
  have r: "rooted (p @ ?seg)" using rooted_append [OF Cons.prems(4)] by simp
  have "psegs ((p @ seg) @ ''/'' @ w) = psegs (p @ seg) @ (if w = ''.'' then [] else [w])"
  proof (cases "w = ''.''")
    case True
    then show ?thesis by (subst psegs_append [OF Cons.prems(4)]) simp
  next
    case False
    with Cons.prems(2) psegs_extend [OF Cons.prems(4), of "[w]"] show ?thesis by simp
  qed
  then have eq: "psegs (p @ ?seg) = psegs (p @ seg) @ (if w = ''.'' then [] else [w])" by simp
  have pre: "prefix (psegs p) (psegs (p @ ?seg))" unfolding eq by (rule prefix_prefix [OF Cons.prems(5)])
  show ?case
  proof (cases "x = p @ ?seg")
    case True
    with r pre show ?thesis by blast
  next
    case False
    with Cons.prems(3) have "x \<in> set (chown_targets p ?seg ws)" by (simp add: Let_def)
    from Cons.IH [OF assms(1) _ this r pre] Cons.prems(2) show ?thesis by simp
  qed
qed simp

lemma ChownDirR_inside:
  assumes "within Rs parent" "rooted dir" "prefix (psegs parent) (psegs dir)"
  shows "inside_only Rs s (snd (ChownDirR parent dir uid gid s))"
proof -
  have r: "rooted parent" by (rule within_rooted [OF assms(1)])
  obtain b' t' where st: "strip_common (psegs parent) (psegs dir) = (b', t')" by force
  then have b: "b' = []" using assms(3) strip_common_prefix [of "psegs parent" "psegs dir"] by simp
  obtain cs where "psegs dir = cs @ t'" using strip_common_split [OF st] by blast
  then have pl: "\<forall>w \<in> set t'. plain_seg w" using psegs_plain [OF assms(2)] by auto
  have "\<exists>rl. rel parent dir = Inr rl \<and> (\<forall>w \<in> set (split_on (CHR ''/'') rl). w = ''.'' \<or> plain_seg w)"
  proof (cases "psegs parent = psegs dir")
    case True
    then show ?thesis using rel_rooted [OF r assms(2) st] by simp
  next
    case False
    have "t' \<noteq> []"
      using False st b strip_common_split [OF st] by auto
    then have "split_on (CHR ''/'') (join_on ''/'' t') = t'"
      using pl by (intro split_join_on) (auto simp: plain_seg_def)
    then show ?thesis using False pl b rel_rooted [OF r assms(2) st] by simp
  qed
  then have "within Rs x" if "x \<in> set (ChownDirR_targets parent dir)" for x
    using chown_targets_within [OF r _ _, of _ x "[]"] that r within_psegs [OF r _ _ assms(1)]
    by (auto simp: ChownDirR_targets_def)
  then show ?thesis unfolding ChownDirR_def os_Chown_def by (intro each_inside change_inside)
qed

lemma EnsureOwnDirR_inside:
  assumes "rooted dir" "reaches Rs (psegs dir)" "within Rs root"
  shows "inside_only Rs s (snd (EnsureOwnDirR dir root uid gid s))"
proof -
  have rr: "rooted root" by (rule within_rooted [OF assms(3)])
  have ps: "psegs (clean root) = psegs root" "rooted (clean root)" "psegs (clean dir) = psegs dir" "rooted (clean dir)"
    using rr assms(1) by (simp_all add: psegs_clean rooted_clean)
  have wr: "within Rs (clean root)" by (rule within_psegs [OF rr ps(2) _ assms(3)]) (simp add: ps(1))
  have 1: "inside_only Rs s (snd (creating (os_MkdirAll (clean dir) 511 s)))" for s
    using MkdirAll_inside [OF assms(1,2)] by simp
  have 2: "inside_only Rs s (snd (if clean dir = clean root then lift (os_Chown (clean root) uid gid s) else (None, s)))" for s
    using change_inside [OF wr] by (simp add: os_Chown_def)
  have 3: "inside_only Rs s (snd (case SubElem (clean root) (clean dir) of
        (_, Some e) \<Rightarrow> (Some RelFailed, s)
      | (ok, None) \<Rightarrow> if \<not> ok then (Some InvalidParent, s) else lift (ChownDirR (clean root) (clean dir) uid gid s)))" for s
    using ChownDirR_inside [OF wr ps(4), of s uid gid] SubElem_rooted [OF ps(2,4)] by simp
  show ?thesis
    unfolding EnsureOwnDirR_def Let_def by (rule andThen_inside [OF 1 andThen_inside [OF 2 3]])
qed

lemma EnsureOwnFileR_inside:
  assumes "within Rs p" "clean p = p" "within Rs root"
  shows "inside_only Rs s (snd (EnsureOwnFileR p root uid gid s))"
proof -
  have r: "rooted p" by (rule within_rooted [OF assms(1)])
  obtain R where "R \<in> set Rs" "prefix R (psegs p)" using assms(1) by (auto simp: within_def)
  then have "prefix R (butlast (psegs p)) \<or> prefix (butlast (psegs p)) R"
    using prefix_same_cases [OF \<open>prefix R (psegs p)\<close> prefixeq_butlast] by simp
  with \<open>R \<in> set Rs\<close> have "reaches Rs (psegs (split_dir p))"
    using split_dir_clean [OF r assms(2)] plain_psegs [of "split_dir p"] by (auto simp: reaches_def)
  note dir = EnsureOwnDirR_inside [OF split_dir_clean(1) [OF r assms(2)] this assms(3)]
  have "inside_only Rs s (snd (CreateOwn p uid gid s))" for s
  proof (rule inside_onlyI)
    assume l: "link_free (fs_root s)"
    obtain q s1 where oc: "os_OpenCreate False p s = (q, s1)" by force
    then have a: "inside_only Rs s s1" using OpenCreate_inside [OF assms(1), of s False] by simp
    have "inside_only Rs s1 (on_root (alter (psegs p) (map_option (set_meta f))) s1)" for f
      using assms(1) by (rule within_alter) (auto dest: link_free_at)
    then have "inside_only Rs s (on_root (alter (psegs p) (map_option (set_meta f))) s1)" for f
      using a inside_only_trans by blast
    then show "inside_only Rs s (snd (CreateOwn p uid gid s))"
    proof (cases q)
      case (Inr q')
      then have "q' = psegs p" using OpenCreate_at [OF assms(1) l] oc by simp
      with Inr oc a \<open>\<And>f. inside_only Rs s (on_root (alter (psegs p) (map_option (set_meta f))) s1)\<close> show ?thesis
        by (simp add: CreateOwn_def)
    qed (use oc a in \<open>simp add: CreateOwn_def\<close>)
  qed
  then have "inside_only Rs s (snd (own_file p uid gid s))" for s by (simp add: own_file_def)
  then show ?thesis unfolding EnsureOwnFileR_def by (intro andThen_inside dir)
qed

end
