(* ===== verification/FileSafety.thy ===== *)
theory FileSafety
  imports Confine
begin

text \<open>
  What the file operations of \<open>web/routers/file.go\<close> guarantee: in a file system without links they act inside the
  storages of the request only, and a deletion removes exactly what was asked for. And where they do not: the new
  name of a renaming and the name of a new directory are not checked.
\<close>

section \<open>Sanitized paths\<close>

definition zone :: "fctx \<Rightarrow> int \<Rightarrow> path" where
  "zone c sid = psegs (guard_root (fc_cs c) sid)"

lemma sanitized_within:
  assumes "sanitizePath (fc_cs c) path sid = (p, None)" "rooted (guard_root (fc_cs c) sid)"
  shows "within [zone c sid] p" "clean p = p"
proof -
  have "inside (guard_root (fc_cs c) sid) p"
    by (rule sanitized_inside [OF assms(2,1)])
  then show "within [zone c sid] p" "clean p = p" by (auto simp: inside_def within_def zone_def)
qed

lemma within_mono: "within Rs p \<Longrightarrow> set Rs \<subseteq> set Rs' \<Longrightarrow> within Rs' p"
  by (auto simp: within_def)

lemma rootPath_within:
  assumes "rooted (guard_root (fc_cs c) sid)"
  shows "within [zone c sid] (rootPath (fc_cs c) sid)"
proof -
  have "rooted (rootPath (fc_cs c) sid)"
  proof (cases "sid \<in> {-1, -99, -2}")
    case True
    with assms show ?thesis by (auto simp: rootPath_def guard_root_def)
  next
    case False
    with assms have "rooted (ExternalMntPrefix (fc_cs c))" by (simp add: guard_root_def)
    from rooted_append [OF this, of "''/'' @ show_int sid"] False show ?thesis
      by (simp add: rootPath_def rooted_clean rooted_trimSpace)
  qed
  moreover have "prefix (zone c sid) (psegs (rootPath (fc_cs c) sid))"
    using rootPath_segs [OF assms] by (auto simp: zone_def guard_root_def)
  ultimately show ?thesis by (simp add: within_def)
qed

section \<open>The operations stay inside their storages\<close>

definition stays :: "path list \<Rightarrow> (fsys \<Rightarrow> 'r \<times> fsys) \<Rightarrow> bool" where
  "stays Rs f \<longleftrightarrow> (\<forall>s. inside_only Rs s (snd (f s)))"

lemma staysI: "(\<And>s. inside_only Rs s (snd (f s))) \<Longrightarrow> stays Rs f"
  by (simp add: stays_def)

lemma staysD: "stays Rs f \<Longrightarrow> inside_only Rs s (snd (f s))"
  by (simp add: stays_def)

lemma io_stays: "stays Rs f \<Longrightarrow> stays Rs (io f)"
  by (auto simp: stays_def io_def split: prod.splits) (metis snd_conv)

lemma lift_stays: "stays Rs f \<Longrightarrow> stays Rs (\<lambda>s. lift (f s))"
  by (simp add: stays_def)

lemma io_run_stays: "(\<And>s. run_inside Rs s (f s)) \<Longrightarrow> stays Rs (io_run f)"
  by (auto simp: stays_def io_run_def run_inside_def split: option.splits)

lemma orStop_stays:
  assumes "stays Rs f" "stays Rs g"
  shows "stays Rs (orStop f g)"
proof (rule staysI)
  fix s
  obtain r s1 where f: "f s = (r, s1)" by force
  have a: "inside_only Rs s s1" using staysD [OF assms(1), of s] f by simp
  from a inside_only_trans [OF a staysD [OF assms(2)]] f show "inside_only Rs s (snd (orStop f g s))"
    by (simp add: orStop_def)
qed

lemma fail_snd [simp]: "snd (fail e s) = s"
  by (simp add: fail_def)

lemma needDir_snd [simp]: "snd (needDir e r s) = s"
  by (auto simp: needDir_def split: sum.splits errno.splits)

lemma parts_stay:
  assumes src: "within Rs src" "clean src = src" and dst: "within Rs dst" "clean dst = dst"
    and root: "within Rs (rootPath (fc_cs c) (cf_DstStorageID req))"
  shows "stays Rs (copy_checks req src dst)" "stays Rs (copy_force c req dst)"
    "stays Rs (copy_into k c req src dst)" "stays Rs (move_it k c req src dst)" "stays Rs (io (CopyFile src dst))"
proof -
  have "reaches Rs (psegs dst)" using dst(1) plain_psegs by (auto simp: within_def reaches_def)
  note own = EnsureOwnDirR_inside [OF within_rooted [OF dst(1)] this root] EnsureOwnFileR_inside [OF dst root]
  show "stays Rs (copy_checks req src dst)"
    unfolding copy_checks_def by (rule orStop_stays) (auto intro!: staysI)
  have o: "stays Rs (io (EnsureOwnDirR dst (rootPath (fc_cs c) (cf_DstStorageID req)) (fc_uid c) (fc_gid c)))"
    "stays Rs (io (EnsureOwnFileR dst (rootPath (fc_cs c) (cf_DstStorageID req)) (fc_uid c) (fc_gid c)))"
    by (rule io_stays, rule staysI, rule own)+
  show "stays Rs (copy_force c req dst)"
    using staysD [OF o(1)] staysD [OF o(2)] by (auto simp: copy_force_def intro!: staysI)
  have cr: "stays Rs (io (ChownR dst (fc_uid c) (fc_gid c)))"
    using ChownR_inside [OF dst(1)] by (intro io_stays staysI)
  have c2: "stays Rs (io_run (Copy2Dir k src dst (cf_ExcludeDir req)))"
    using Copy2Dir_inside [OF dst(1) within_rooted [OF src(1)] src(2)] by (rule io_run_stays)
  show into: "stays Rs (copy_into k c req src dst)"
    unfolding copy_into_def by (rule orStop_stays [OF c2 cr])
  have rm: "stays Rs (io (\<lambda>s. lift (IoTools.Remove src s)))"
    using iotools_Remove_inside [OF src(1)] by (intro io_stays lift_stays staysI)
  show cf: "stays Rs (io (CopyFile src dst))" using CopyFile_inside [OF dst(1)] by (intro io_stays staysI)
  have mf: "stays Rs (io (Move2File src dst))" using Move2File_inside [OF src(1) dst(1)] by (intro io_stays staysI)
  have md: "stays Rs (io (Move2Dir src dst (cf_ExcludeDir req)))"
    using Move2Dir_inside [OF src(1) dst(1) src(2)] by (intro io_stays staysI)
  show "stays Rs (move_it k c req src dst)"
    using orStop_stays [OF cf rm] orStop_stays [OF into rm] mf md unfolding move_it_def by simp
qed

lemma copyFile_inside:
  assumes "rooted (guard_root (fc_cs c) (cf_SrcStorageID req))" "rooted (guard_root (fc_cs c) (cf_DstStorageID req))"
  shows "inside_only [zone c (cf_SrcStorageID req), zone c (cf_DstStorageID req)] s (snd (snd (copyFile k c req s)))"
proof -
  let ?Rs = "[zone c (cf_SrcStorageID req), zone c (cf_DstStorageID req)]"
  obtain src e1 where s1: "sanitizePath (fc_cs c) (cf_Src req) (cf_SrcStorageID req) = (src, e1)" by force
  obtain dst e2 where s2: "sanitizePath (fc_cs c) (cf_Dst req) (cf_DstStorageID req) = (dst, e2)" by force
  show ?thesis
  proof (cases "e1 = None \<and> e2 = None")
    case True
    note w1 = sanitized_within [OF s1 [simplified True [THEN conjunct1]] assms(1)]
    note w2 = sanitized_within [OF s2 [simplified True [THEN conjunct2]] assms(2)]
    have src: "within ?Rs src" and dst: "within ?Rs dst" and root: "within ?Rs (rootPath (fc_cs c) (cf_DstStorageID req))"
      using within_mono [OF w1(1), of ?Rs] within_mono [OF w2(1), of ?Rs] within_mono [OF rootPath_within [OF assms(2)], of ?Rs] by auto
    note p = parts_stay [OF src w1(2) dst w2(2) root]
    obtain r sa where pre: "orStop (copy_checks req src dst) (copy_force c req dst) s = (r, sa)" by force
    have a: "inside_only ?Rs s sa"
      using staysD [OF orStop_stays [OF p(1,2)], of s] pre by simp
    have "inside_only ?Rs s (snd (copy_into k c req src dst sa))" "inside_only ?Rs s (snd (move_it k c req src dst sa))"
      "inside_only ?Rs s (snd (io (CopyFile src dst) sa))"
      using inside_only_trans [OF a staysD [OF p(3)]] inside_only_trans [OF a staysD [OF p(4)]] inside_only_trans [OF a staysD [OF p(5)]]
      by blast+
    then show ?thesis
      using s1 s2 True pre a by (auto simp: copyFile_def silent_def audited_def Let_def split: prod.splits)
  next
    case False
    then show ?thesis using s1 s2
      by (cases e1; cases e2) (auto simp: copyFile_def silent_def)
  qed
qed

lemma moveDir_inside:
  assumes "rooted (guard_root (fc_cs c) (md_SrcStorageID req))" "rooted (guard_root (fc_cs c) (md_DstStorageID req))"
  shows "inside_only [zone c (md_SrcStorageID req), zone c (md_DstStorageID req)] s (snd (snd (moveDir c req s)))"
proof -
  let ?Rs = "[zone c (md_SrcStorageID req), zone c (md_DstStorageID req)]"
  obtain src e1 where s1: "sanitizePath (fc_cs c) (md_Src req) (md_SrcStorageID req) = (src, e1)" by force
  obtain dst e2 where s2: "sanitizePath (fc_cs c) (md_Dst req) (md_DstStorageID req) = (dst, e2)" by force
  show ?thesis
  proof (cases "e1 = None \<and> e2 = None")
    case True
    note w1 = sanitized_within [OF s1 [simplified True [THEN conjunct1]] assms(1)]
    note w2 = sanitized_within [OF s2 [simplified True [THEN conjunct2]] assms(2)]
    have src: "within ?Rs src" and dst: "within ?Rs dst"
      using within_mono [OF w1(1), of ?Rs] within_mono [OF w2(1), of ?Rs] by auto
    have st: "stays ?Rs (io (Move2Dir src dst True))" "stays ?Rs (io (\<lambda>s. lift (os_Rename src dst s)))"
      using Move2Dir_inside [OF src dst w1(2)] Rename_inside [OF src dst] by (intro io_stays lift_stays staysI; blast)+
    have "inside_only ?Rs u (snd (io (Move2Dir src dst True) u))" "inside_only ?Rs u (snd (io (\<lambda>s. lift (os_Rename src dst s)) u))" for u
      by (rule staysD [OF st(1)], rule staysD [OF st(2)])
    moreover have "needDir SrcNotDir (os_Lstat src s) s = (r, s') \<Longrightarrow> s' = s" for r s'
      using needDir_snd [of SrcNotDir "os_Lstat src s" s] by simp
    ultimately show ?thesis
      using s1 s2 True by (auto simp: moveDir_def silent_def audited_def split: prod.splits sum.splits)
  next
    case False
    then show ?thesis using s1 s2
      by (cases e1; cases e2) (auto simp: moveDir_def silent_def)
  qed
qed

lemma fold_RemoveAll_inside:
  "\<forall>t \<in> set ts. within Rs t \<Longrightarrow> inside_only Rs s (fold (\<lambda>t s. snd (os_RemoveAll t s)) ts s)"
proof (induction ts arbitrary: s)
  case (Cons t ts)
  then have "inside_only Rs s (snd (os_RemoveAll t s))" by (simp add: RemoveAll_inside)
  moreover have "inside_only Rs (snd (os_RemoveAll t s)) (fold (\<lambda>t s. snd (os_RemoveAll t s)) ts (snd (os_RemoveAll t s)))"
    using Cons by simp
  ultimately show ?case using inside_only_trans by auto
qed simp

lemma deleteFile_inside:
  assumes "rooted (guard_root (fc_cs c) (df_StorageID req))"
    and "\<And>p t. t \<in> set (fst (destroy p (snd su))) \<Longrightarrow> within [zone c (df_StorageID req)] t"
  shows "inside_only [zone c (df_StorageID req)] (fst su) (fst (snd (snd (deleteFile destroy c req su))))"
proof -
  let ?Rs = "[zone c (df_StorageID req)]"
  obtain p e where sp: "sanitizePath (fc_cs c) (df_Path req) (df_StorageID req) = (p, e)" by force
  show ?thesis
  proof (cases e)
    case None
    note w = sanitized_within [OF sp [unfolded None] assms(1)]
    define cu where "cu n = (if is_dir n then doCleanUpload destroy p su else su)" for n
    have a: "inside_only ?Rs (fst su) (fst (cu n))" for n
      using fold_RemoveAll_inside [of "fst (destroy p (snd su))" ?Rs "fst su"] assms(2)
      by (auto simp: cu_def doCleanUpload_def split: prod.splits)
    have st: "stays ?Rs (io (RemoveFileR p))" "stays ?Rs (io (\<lambda>s. lift (os_RemoveAll p s)))"
      using RemoveFileR_inside [OF w(1)] RemoveAll_inside [OF w(1)] by (intro io_stays lift_stays staysI; blast)+
    have b: "inside_only ?Rs (fst su) (snd (io (RemoveFileR p) (fst (cu n))))"
      "inside_only ?Rs (fst su) (snd (io (\<lambda>s. lift (os_RemoveAll p s)) (fst (cu n))))" for n
      using inside_only_trans [OF a staysD [OF st(1)]] inside_only_trans [OF a staysD [OF st(2)]] by blast+
    show ?thesis
    proof (cases "os_Lstat p (fst su)")
      case (Inr n)
      obtain s1 u1 where "cu n = (s1, u1)" by force
      with b [of n] a [of n] Inr sp None show ?thesis
        by (auto simp: deleteFile_def cu_def [symmetric] split: prod.splits)
    qed (use sp None in \<open>simp add: deleteFile_def\<close>)
  qed (use sp in \<open>simp add: deleteFile_def\<close>)
qed

lemma renameFile_inside:
  assumes "rooted (guard_root (fc_cs c) (rn_StorageID req))" "plain_seg (rn_Name req)"
    and "\<And>p. sanitizePath (fc_cs c) (rn_Path req) (rn_StorageID req) = (p, None) \<Longrightarrow> psegs p \<noteq> zone c (rn_StorageID req)"
  shows "inside_only [zone c (rn_StorageID req)] s (snd (snd (renameFile c req s)))"
proof -
  let ?Rs = "[zone c (rn_StorageID req)]"
  obtain p e where sp: "sanitizePath (fc_cs c) (rn_Path req) (rn_StorageID req) = (p, e)" by force
  show ?thesis
  proof (cases e)
    case None
    note w = sanitized_within [OF sp [unfolded None] assms(1)]
    have sd: "rooted (split_dir p)" "psegs (split_dir p) = butlast (psegs p)"
      by (rule split_dir_clean [OF within_rooted [OF w(1)] w(2)])+
    have "prefix (zone c (rn_StorageID req)) (psegs p)" "psegs p \<noteq> zone c (rn_StorageID req)"
      using w(1) assms(3) [OF sp [unfolded None]] by (auto simp: within_def)
    then have "prefix (zone c (rn_StorageID req)) (butlast (psegs p))"
      by (metis append_butlast_last_id prefix_snoc prefix_bot.extremum_uniqueI)
    then have "within ?Rs (split_dir p)" using sd by (simp add: within_def)
    then have np: "within ?Rs (path_join (split_dir p) (rn_Name req))" using assms(2) by (intro path_join_within(1)) auto
    have "stays ?Rs (io (\<lambda>s. lift (os_Rename p (path_join (split_dir p) (rn_Name req)) s)))"
      using Rename_inside [OF w(1) np] by (intro io_stays lift_stays staysI)
    from staysD [OF this] sp None show ?thesis
      by (auto simp: renameFile_def silent_def audited_def Let_def okay_def split: prod.splits sum.splits)
  qed (use sp in \<open>simp add: renameFile_def silent_def\<close>)
qed

lemma newDir_inside:
  assumes "rooted (guard_root (fc_cs c) (nd_StorageID req))" "plain_seg (nd_Name req)" "\<not> is_space (last (nd_Name req))"
  shows "inside_only [zone c (nd_StorageID req)] s (snd (snd (newDir c req s)))"
proof -
  let ?Rs = "[zone c (nd_StorageID req)]"
  obtain p e where sp: "sanitizePath (fc_cs c) (nd_ParentPath req) (nd_StorageID req) = (p, e)" by force
  show ?thesis
  proof (cases e)
    case None
    note w = sanitized_within [OF sp [unfolded None] assms(1)]
    let ?dir = "p @ ''/'' @ nd_Name req"
    have r: "rooted p" by (rule within_rooted [OF w(1)])
    have rd: "rooted ?dir" by (rule rooted_append [OF r])
    have "nd_Name req \<noteq> []" using assms(2) by (simp add: plain_seg_def)
    then have "trimSpace ?dir = ?dir" using assms(3) rd by (intro trimSpace_rooted_id) auto
    moreover have "psegs ?dir = psegs p @ [nd_Name req]" using psegs_extend [OF r, of "[nd_Name req]"] assms(2) by simp
    then have "reaches ?Rs (psegs ?dir)" using w(1) plain_psegs [OF rd] by (auto simp: reaches_def within_def)
    note dir = EnsureOwnDirR_inside [OF rd this rootPath_within [OF assms(1)]]
    have "stays ?Rs (io (EnsureOwnDirR ?dir (rootPath (fc_cs c) (nd_StorageID req)) (fc_uid c) (fc_gid c)))"
      by (rule io_stays, rule staysI, rule dir)
    ultimately show ?thesis
      using staysD sp None by (auto simp: newDir_def audited_def sanitized_def Let_def)
  qed (use sp in \<open>simp add: newDir_def audited_def sanitized_def\<close>)
qed

section \<open>Sequences of requests\<close>

datatype file_req = ReqNewDir newDirReq | ReqMove movDirReq | ReqCopy copyFileReq | ReqRename renameFileReq | ReqDelete delFileReq

fun serve_file :: "nat \<Rightarrow> 'u destroy \<Rightarrow> fctx \<Rightarrow> file_req \<Rightarrow> fsys \<times> 'u \<Rightarrow> fsys \<times> 'u" where
  "serve_file k destroy c (ReqNewDir r) su = (snd (snd (newDir c r (fst su))), snd su)"
| "serve_file k destroy c (ReqMove r) su = (snd (snd (moveDir c r (fst su))), snd su)"
| "serve_file k destroy c (ReqCopy r) su = (snd (snd (copyFile k c r (fst su))), snd su)"
| "serve_file k destroy c (ReqRename r) su = (snd (snd (renameFile c r (fst su))), snd su)"
| "serve_file k destroy c (ReqDelete r) su = snd (snd (deleteFile destroy c r su))"

text \<open>
  What a request must satisfy: a new name is one plain segment, the root of a storage is not renamed, and the
  temporary files of uploads lie in the storage of the deletion.
\<close>

fun req_ok :: "'u destroy \<Rightarrow> fctx \<Rightarrow> file_req \<Rightarrow> bool" where
  "req_ok destroy c (ReqNewDir r) = (plain_seg (nd_Name r) \<and> \<not> is_space (last (nd_Name r)))"
| "req_ok destroy c (ReqRename r) = (plain_seg (rn_Name r)
     \<and> (case sanitizePath (fc_cs c) (rn_Path r) (rn_StorageID r) of (p, None) \<Rightarrow> psegs p \<noteq> zone c (rn_StorageID r) | _ \<Rightarrow> True))"
| "req_ok destroy c (ReqDelete r) = (\<forall>p u. \<forall>t \<in> set (fst (destroy p u)). within [zone c (df_StorageID r)] t)"
| "req_ok destroy c _ = True"

definition zones :: "fctx \<Rightarrow> path list" where
  "zones c = [zone c (-1), zone c (-99), zone c (-2), zone c 0]"

lemma zone_mem: "zone c sid \<in> set (zones c)"
  by (auto simp: zones_def zone_def guard_root_def)

lemma inside_only_mono: "inside_only Rs s s' \<Longrightarrow> set Rs \<subseteq> set Rs' \<Longrightarrow> inside_only Rs' s s'"
  by (auto simp: inside_only_def outside_def)

lemma serve_file_inside:
  assumes "\<And>sid. rooted (guard_root (fc_cs c) sid)" "req_ok destroy c r"
  shows "inside_only (zones c) (fst su) (fst (serve_file k destroy c r su))"
proof (cases r)
  case (ReqNewDir x)
  with assms show ?thesis
    by (auto intro!: inside_only_mono [OF newDir_inside] zone_mem)
next
  case (ReqMove x)
  with assms show ?thesis by (auto intro!: inside_only_mono [OF moveDir_inside] zone_mem)
next
  case (ReqCopy x)
  with assms show ?thesis by (auto intro!: inside_only_mono [OF copyFile_inside] zone_mem)
next
  case (ReqRename x)
  with assms show ?thesis by (auto intro!: inside_only_mono [OF renameFile_inside] zone_mem)
next
  case (ReqDelete x)
  with assms show ?thesis by (auto intro!: inside_only_mono [OF deleteFile_inside] zone_mem)
qed


section \<open>Deleting\<close>

lemma prune_all:
  "(\<And>r. \<not> d (q @ r)) \<Longrightarrow> prune d q n = None"
  "(\<And>r. \<not> d (q @ r)) \<Longrightarrow> prunes d q ch = []"
proof (induction d q n and d q ch rule: prune_prunes.induct)
  case (1 d q m ch)
  then show ?case using "1.prems" [of "[]"] by (simp add: Let_def)
next
  case (4 d q k c ch)
  have "\<And>r. \<not> d ((q @ [k]) @ r)" using "4.prems" by simp
  with 4 show ?case by simp
qed (auto dest: spec [of _ "[]"], (metis append_Nil2)+)


section \<open>Where the guards fail\<close>

lemma psegs_two_up:
  assumes "plain_path (B @ [u])" "plain_seg v" "plain_seg y"
  shows "path_join (abs_path (B @ [u]) @ ''/'') (''../'' @ v @ ''/'' @ y) = abs_path (B @ [v, y])"
proof -
  let ?X = "abs_path (B @ [u]) @ ''/''"
  have rX: "rooted ?X" by (rule rooted_append) simp
  have "psegs (abs_path (B @ [u]) @ ''/'' @ []) = psegs (abs_path (B @ [u]))" by (subst psegs_append) simp_all
  then have pX: "psegs ?X = B @ [u]" using assms(1) by (simp add: psegs_abs_path)
  have sp: "split_on (CHR ''/'') (''../'' @ v @ ''/'' @ y) = [''..'', v, y]"
    using split_on_append [of "CHR ''/''" "''..''" "v @ ''/'' @ y"] split_on_append [of "CHR ''/''" v y]
      split_on_no_sep [of "CHR ''/''" v] split_on_no_sep [of "CHR ''/''" y] assms(2,3)
    by (simp add: plain_seg_def)
  have "u \<noteq> ''..''" using assms(1) by (simp add: plain_seg_def)
  then have "psegs (?X @ ''/'' @ (''../'' @ v @ ''/'' @ y)) = B @ [v, y]"
    unfolding psegs_append [OF rX] sp pX using assms(2,3) by (simp add: plain_seg_def)
  moreover have "rooted (?X @ ''/'' @ (''../'' @ v @ ''/'' @ y))" by (rule rooted_append [OF rX])
  ultimately have "clean (?X @ ''/'' @ (''../'' @ v @ ''/'' @ y)) = abs_path (B @ [v, y])"
    by (simp add: clean_def abs_path_def)
  then show ?thesis by (simp add: path_join_def)
qed

text \<open>The new name of a renaming is joined to the directory unchecked. With a name that climbs out, a user moves a
  file into the directory of another user.
\<close>

theorem renameFile_escapes:
  assumes "quiet s" "rooted (SystemRootPrefix (fc_cs c))" "psegs (SystemRootPrefix (fc_cs c)) = B @ [u]"
    and "plain_path (B @ [u, x, v, y])" "u \<noteq> v" "\<not> badFilename x" "\<not> is_space (last x)"
    and "node_at (fs_root s) (B @ [u, x]) = Some n" "\<not> is_link n"
    and "node_at (fs_root s) (B @ [v]) = Some (Dir md cd)" "map_of cd y = None"
  shows "\<exists>s'. renameFile c \<lparr>rn_StorageID = -1, rn_Path = x, rn_Name = ''../'' @ v @ ''/'' @ y\<rparr> s
      = (okay, Some (FileRenamed, abs_path (B @ [u, x])), s')
    \<and> node_at (fs_root s') (B @ [v, y]) = Some n \<and> node_at (fs_root s') (B @ [u, x]) = None"
proof -
  let ?p = "B @ [u, x]" and ?q = "B @ [v, y]"
  have pl: "plain_path ?p" "plain_path ?q" "plain_path (B @ [u])" using assms(4) by simp_all
  have sg: "plain_seg x" "plain_seg v" "plain_seg y" using assms(4) by simp_all
  have sp: "sanitizePath (fc_cs c) x (-1) = (abs_path ?p, None)"
    using sanitizePath_plain [of "fc_cs c" "-1" "[x]"] assms(2,3,6,7) sg by (simp add: guard_root_def rootPath_def abs_path_def)
  have sd: "split_dir (abs_path ?p) = abs_path (B @ [u]) @ ''/''"
    using split_file_abs [of "B @ [u]" x] pl(1) abs_path_child [of "B @ [u]" x, symmetric] by (simp add: split_dir_def)
  have np: "path_join (split_dir (abs_path ?p)) (''../'' @ v @ ''/'' @ y) = abs_path ?q"
    unfolding sd by (rule psegs_two_up [OF pl(3) sg(2,3)])
  have fr: "node_at (fs_root s) ?q = None"
    using node_at_append [of "fs_root s" "B @ [v]" "[y]"] assms(10,11) by simp
  have par: "parent_dir (fs_root s) ?q" using assms(10) by (simp add: parent_dir_def butlast_append)
  have ne: "abs_path ?p \<noteq> abs_path ?q" using psegs_abs_path [OF pl(1)] psegs_abs_path [OF pl(2)] assms(5) by (metis append_same_eq list.inject same_append_eq)
  have npre: "\<not> prefix ?p ?q" using assms(5) by simp
  define s' where "s' = on_root (\<lambda>t. alter ?q (\<lambda>_. Some n) (alter ?p (\<lambda>_. None) t)) s"
  have rn: "os_Rename (abs_path ?p) (abs_path ?q) s = (None, s')"
    unfolding s'_def by (rule rename_at [OF assms(1) pl(1) assms(8) _ pl(2) fr par npre]) simp
  have st: "os_Stat (abs_path ?p) s = Inr n" "os_Lstat (abs_path ?q) s = Inl ENOENT"
    using Stat_at(1) [OF assms(1) pl(1) assms(8,9)] Stat_free(2) [OF assms(1) pl(2) fr par] by simp_all
  have "renameFile c \<lparr>rn_StorageID = -1, rn_Path = x, rn_Name = ''../'' @ v @ ''/'' @ y\<rparr> s
      = (okay, Some (FileRenamed, abs_path ?p), s')"
    unfolding renameFile_def renameFileReq.simps sp np Let_def prod.case option.case st
    using ne rn by (simp add: audited_def io_def lift_def okay_def)
  moreover have "node_at (fs_root s') ?q = Some n" "node_at (fs_root s') ?p = None"
    using rename_places(1,2) [OF assms(1,8) _ fr par npre s'_def, of "[]"] assms(8) by simp_all
  ultimately show ?thesis by blast
qed

lemma resolve_through_file:
  assumes "\<forall>w \<in> set q. plain_seg w" "plain_seg x" "node_at t (q @ [x]) = Some (File m c)" "r \<noteq> []"
  shows "resolve k fl t [] (q @ x # r) = Inl ENOTDIR"
proof -
  obtain md ch where "node_at t q = Some (Dir md ch)" using node_at_snoc_dir [OF assms(3)] by blast
  then have "resolve k fl t [] (q @ x # r) = resolve k fl t q (x # r)"
    using resolve_append [OF assms(1), of t "[]" md ch k fl "x # r"] by simp
  then show ?thesis using assms(2-4) by (simp add: resolve.simps(2) plain_seg_def)
qed

text \<open>A copy whose target lies below a file panics: the error of \<open>Stat\<close> is not that the target is missing, and the
  missing \<open>FileInfo\<close> is asked for its kind. A copy in the background takes the process down with it, and its
  line stays as it was.
\<close>

theorem copy_below_file_panics:
  assumes "quiet s" "sanitizePath (fc_cs c) (cf_Src req) (cf_SrcStorageID req) = (src, None)"
    and "sanitizePath (fc_cs c) (cf_Dst req) (cf_DstStorageID req) = (abs_path (q @ x # r), None)"
    and "plain_path (q @ x # r)" "r \<noteq> []" "node_at (fs_root s) (q @ [x]) = Some (File m d)"
    and "\<not> cf_DstFile req" "\<not> cf_Force req" "grp \<noteq> []"
  shows "copyFile k c req s = (Panicked, None, s) \<and> doCopy TC now text k c req grp (s, t) = (Panicked, s, t)"
proof -
  have "phys True s (abs_path (q @ x # r)) = Inl ENOTDIR"
    using split_abs_path [of "q @ x # r"] resolve_through_file [of q x "fs_root s" m d r 40 True] assms(4-6)
    by (simp add: phys_def plain_path_def abs_path_def resolve.simps(2) [of _ _ _ _ "[]"])
  then have "os_Stat (abs_path (q @ x # r)) s = Inl ENOTDIR" by (simp add: os_Stat_def at_path_def)
  then have "orStop (copy_checks req src (abs_path (q @ x # r))) g s = (Panicked, s)" for g
    using assms(7,8) by (simp add: orStop_def copy_checks_def needDir_def okay_def)
  then have "copyFile k c req s = (Panicked, None, s)"
    using assms(2,3) by (simp add: copyFile_def silent_def okay_def)
  then show ?thesis using assms(9) by (simp add: doCopy_def settle_copy_def)
qed

section \<open>Examples\<close>

definition plain_fs :: fsys where
  "plain_fs = toy_fs\<lparr>fs_root := Dir toy_meta
      [(''s'', Dir toy_meta
          [(''a'', Dir toy_meta [(''d'', Dir toy_meta [(''g'', File toy_meta ''xy'')]), (''f'', File toy_meta ''abc'')]),
           (''b'', Dir toy_meta [])])]\<rparr>"

definition toy_user :: fctx where
  "toy_user = \<lparr>fc_cs = \<lparr>SystemRootPrefix = ''/s/a'', AuditRootPrefix = ''/x/a'', AuditApprovedRootPrefix = ''/y/a'',
     ExternalMntPrefix = ''/mnt'', ignoreNameCheck = False\<rparr>, fc_uid = 7, fc_gid = 7\<rparr>"

lemma plain_fs_facts:
  "quiet plain_fs" "link_free (fs_root plain_fs)"
  "node_at (fs_root plain_fs) [''s'', ''a'', ''f''] = Some (File toy_meta ''abc'')"
  "node_at (fs_root plain_fs) [''s'', ''b''] = Some (Dir toy_meta [])"
  by (simp_all add: plain_fs_def toy_fs_def quiet_def plain_seg_def)

lemma toy_user_rooted: "rooted (guard_root (fc_cs toy_user) sid)"
  by (simp add: toy_user_def guard_root_def rooted_def)

lemma toy_user_root: "rooted (SystemRootPrefix (fc_cs toy_user))" "psegs (SystemRootPrefix (fc_cs toy_user)) = [''s'', ''a'']"
  by code_simp+

lemma toy_user_f: "sanitizePath (fc_cs toy_user) ''f'' (-1) = (''/s/a/f'', None)"
  "sanitizePath (fc_cs toy_user) ''f/h'' (-1) = (''/s/a/f/h'', None)"
  by code_simp+



theorem renameFile_escapes_witness:
  "\<exists>s'. renameFile toy_user \<lparr>rn_StorageID = -1, rn_Path = ''f'', rn_Name = ''../b/y''\<rparr> plain_fs
      = (okay, Some (FileRenamed, ''/s/a/f''), s') \<and> node_at (fs_root s') [''s'', ''b'', ''y''] = Some (File toy_meta ''abc'')"
proof -
  have ps: "psegs (SystemRootPrefix (fc_cs toy_user)) = [''s''] @ [''a'']" by (simp add: toy_user_root(2))
  have n: "node_at (fs_root plain_fs) ([''s''] @ [''a'', ''f'']) = Some (File toy_meta ''abc'')"
    "node_at (fs_root plain_fs) ([''s''] @ [''b'']) = Some (Dir toy_meta [])"
    using plain_fs_facts(3,4) by simp_all
  have "\<not> badFilename ''f''" "\<not> is_space (last ''f'')" by code_simp+
  from renameFile_escapes [OF plain_fs_facts(1) toy_user_root(1) ps _ _ this n(1) _ n(2), of "''y''"] show ?thesis
    by (simp add: plain_seg_def abs_path_def) blast
qed

definition copy_f :: copyFileReq where
  "copy_f = \<lparr>cf_SrcStorageID = -1, cf_Src = ''f'', cf_DstStorageID = -1, cf_Dst = ''f/h'', cf_Move = False, cf_Sync = False,
     cf_DstFile = False, cf_Force = False, cf_ExcludeDir = False\<rparr>"

theorem copy_below_file_panics_witness:
  "fst (doCopy (list_table copy_schema) 1 (\<lambda>_. ''e'') 5 toy_user copy_f ''g'' (plain_fs, [])) = Panicked"
proof -
  have n: "node_at (fs_root plain_fs) ([''s'', ''a''] @ [''f'']) = Some (File toy_meta ''abc'')"
    using plain_fs_facts(3) by simp
  have d: "sanitizePath (fc_cs toy_user) (cf_Dst copy_f) (cf_DstStorageID copy_f) = (abs_path ([''s'', ''a''] @ ''f'' # [''h'']), None)"
    using toy_user_f(2) by (simp add: copy_f_def abs_path_def)
  have s: "sanitizePath (fc_cs toy_user) (cf_Src copy_f) (cf_SrcStorageID copy_f) = (''/s/a/f'', None)"
    using toy_user_f(1) by (simp add: copy_f_def)
  show ?thesis
    using copy_below_file_panics [OF plain_fs_facts(1) s d _ _ n, of "''g''" 5 "list_table copy_schema" 1 "\<lambda>_. ''e''" "[]"]
    by (simp add: copy_f_def plain_seg_def)
qed

definition batch_fd :: batchCopyReq where
  "batch_fd = \<lparr>bc_SrcStorageID = -1, bc_Srcs = [''f'', ''d''], bc_Dst = ''e'', bc_DstStorageID = -1, bc_Move = False,
     bc_Sync = False, bc_Force = True\<rparr>"

theorem batch_progress_exact_witness:
  "\<exists>job t1. batchCopyFile (list_table copy_schema) 1 (\<lambda>_. ''e'') 5 toy_user batch_fd ''g'' [''d'', ''f''] (plain_fs, [])
      = (SuccessID ''g'', Some job, plain_fs, t1)
    \<and> copyLineProcess (list_table copy_schema) ''g'' t1 = Progress ''RUNNING'' []"
proof -
  have "\<forall>x \<in> set (rows (list_table copy_schema) []). cl_Group x \<noteq> ''g''" by simp
  from batch_progress_exact [OF list_table_ok this, of "\<lambda>_. ''e''" batch_fd "[''d'', ''f'']" 1 5 toy_user plain_fs]
  show ?thesis by (auto simp: batch_fd_def)
qed

end
