(* ===== verification/Pool.thy ===== *)
theory Pool
  imports Prelude
begin

text \<open>
  The buffer pool of \<open>pkg/pool/pool.go\<close>. Every method holds the mutex for its whole body, except
  that \<open>Get\<close> releases it between two failed allocations; so an execution is a sequence of the
  atomic steps below: one iteration of \<open>Get\<close>, \<open>Put\<close>, \<open>Flush\<close>, and the timer callback
  \<open>flushAged\<close>. A slice index out of range and the explicit panic of \<open>Put\<close> are \<open>None\<close>.
  Buffers carry an identity, so that handing one out twice would be visible.
\<close>

section \<open>State and operations\<close>

record buffer =
  bufId :: nat
  bufCap :: int

record Pool =
  bp_cache :: "buffer list"
  bp_minFill :: int
  bp_bufferSize :: int
  bp_poolSize :: int
  bp_inUse :: int
  bp_alloced :: int
  bp_flushPending :: bool
  bp_timerArmed :: bool
  bp_nextId :: nat   \<comment> \<open>identity of the next allocation\<close>

definition New :: "int \<Rightarrow> int \<Rightarrow> Pool" where
  "New bufferSize poolSize =
     \<lparr> bp_cache = [], bp_minFill = 0, bp_bufferSize = bufferSize, bp_poolSize = poolSize,
       bp_inUse = 0, bp_alloced = 0, bp_flushPending = False, bp_timerArmed = True,
       bp_nextId = 0 \<rparr>"

text \<open>\<open>get\<close>: \<open>bp.cache[n]\<close> with \<open>n = len - 1\<close> panics on an empty cache.\<close>

definition pool_get :: "Pool \<Rightarrow> (buffer \<times> Pool) option" where
  "pool_get bp =
     (if bp_cache bp = [] then None
      else Some (last (bp_cache bp), bp\<lparr>bp_cache := butlast (bp_cache bp)\<rparr>))"

definition pool_put :: "buffer \<Rightarrow> Pool \<Rightarrow> Pool" where
  "pool_put buf bp = bp\<lparr>bp_cache := bp_cache bp @ [buf]\<rparr>"

text \<open>\<open>freeBuffer\<close>: a failing \<open>free\<close> is logged only.\<close>

definition freeBuffer :: "buffer \<Rightarrow> Pool \<Rightarrow> Pool" where
  "freeBuffer mem bp = bp\<lparr>bp_alloced := bp_alloced bp - 1\<rparr>"

fun flush_loop :: "nat \<Rightarrow> Pool \<Rightarrow> Pool option" where
  "flush_loop 0 bp = Some bp"
| "flush_loop (Suc n) bp =
     (case pool_get bp of
        None \<Rightarrow> None
      | Some (buf, bp') \<Rightarrow> flush_loop n (freeBuffer buf bp'))"

definition flush :: "int \<Rightarrow> Pool \<Rightarrow> Pool option" where
  "flush n bp = map_option (\<lambda>b. b\<lparr>bp_minFill := int (length (bp_cache b))\<rparr>) (flush_loop (nat n) bp)"

definition Flush :: "Pool \<Rightarrow> Pool option" where
  "Flush bp = flush (int (length (bp_cache bp))) bp"

definition kickFlusher :: "Pool \<Rightarrow> Pool" where
  "kickFlusher bp =
     (if bp_flushPending bp then bp else bp\<lparr>bp_flushPending := True, bp_timerArmed := True\<rparr>)"

text \<open>The timer callback: the timer has just fired.\<close>

definition flushAged :: "Pool \<Rightarrow> Pool option" where
  "flushAged bp =
     (let bp1 = bp\<lparr>bp_timerArmed := False, bp_flushPending := False\<rparr>
      in map_option (\<lambda>b. if bp_cache b \<noteq> [] then kickFlusher b else b) (flush (bp_minFill bp1) bp1))"

definition updateMinFill :: "Pool \<Rightarrow> Pool" where
  "updateMinFill bp =
     (if int (length (bp_cache bp)) < bp_minFill bp
      then bp\<lparr>bp_minFill := int (length (bp_cache bp))\<rparr> else bp)"

text \<open>One iteration of the loop of \<open>Get\<close>; \<open>ok\<close> is the outcome of \<open>bp.alloc\<close>. The result is
  \<open>None\<close> when the allocation failed and the caller sleeps and tries again.\<close>

definition Get_try :: "bool \<Rightarrow> Pool \<Rightarrow> buffer option \<times> Pool" where
  "Get_try ok bp =
     (let finish = (\<lambda>b. updateMinFill (b\<lparr>bp_inUse := bp_inUse b + 1\<rparr>))
      in case pool_get bp of
           Some (buf, bp') \<Rightarrow> (Some buf, finish bp')
         | None \<Rightarrow>
             if ok
             then (Some \<lparr>bufId = bp_nextId bp, bufCap = bp_bufferSize bp\<rparr>,
                   finish (bp\<lparr>bp_alloced := bp_alloced bp + 1, bp_nextId := Suc (bp_nextId bp)\<rparr>))
             else (None, bp))"

text \<open>The whole of \<open>Get\<close> when no other goroutine runs meanwhile; the list holds the outcomes of
  the successive allocations. \<open>None\<close>: still waiting after these outcomes.\<close>

fun Get :: "bool list \<Rightarrow> Pool \<Rightarrow> (buffer \<times> Pool) option" where
  "Get [] bp = (case Get_try False bp of (Some b, bp') \<Rightarrow> Some (b, bp') | (None, _) \<Rightarrow> None)"
| "Get (ok # oks) bp =
     (case Get_try ok bp of (Some b, bp') \<Rightarrow> Some (b, bp') | (None, bp') \<Rightarrow> Get oks bp')"

definition Put :: "buffer \<Rightarrow> Pool \<Rightarrow> Pool option" where
  "Put buf bp =
     (if bufCap buf \<noteq> bp_bufferSize bp then None
      else
        let bp1 = (if int (length (bp_cache bp)) < bp_poolSize bp then pool_put buf bp
                   else freeBuffer buf bp);
            bp2 = bp1\<lparr>bp_inUse := bp_inUse bp1 - 1\<rparr>
        in Some (kickFlusher (updateMinFill bp2)))"

section \<open>The pool and its users\<close>

text \<open>The second component lists the buffers that users hold: those that \<open>Get\<close> returned and that
  have not been put back.\<close>

type_synonym pool_sys = "Pool \<times> buffer list"

inductive pool_step :: "pool_sys \<Rightarrow> pool_sys \<Rightarrow> bool" where
  get_ok: "Get_try ok bp = (Some b, bp') \<Longrightarrow> pool_step (bp, held) (bp', b # held)"
| get_fail: "Get_try ok bp = (None, bp') \<Longrightarrow> pool_step (bp, held) (bp', held)"
| put_back: "b \<in> set held \<Longrightarrow> Put b bp = Some bp' \<Longrightarrow> pool_step (bp, held) (bp', remove1 b held)"
| flush_all: "Flush bp = Some bp' \<Longrightarrow> pool_step (bp, held) (bp', held)"
| timer: "bp_timerArmed bp \<Longrightarrow> flushAged bp = Some bp' \<Longrightarrow> pool_step (bp, held) (bp', held)"

inductive pool_reachable :: "int \<Rightarrow> int \<Rightarrow> pool_sys \<Rightarrow> bool" for bs ps where
  start: "pool_reachable bs ps (New bs ps, [])"
| step: "pool_reachable bs ps s \<Longrightarrow> pool_step s t \<Longrightarrow> pool_reachable bs ps t"

inductive_cases pool_stepE: "pool_step (bp, held) t"

definition pool_inv :: "pool_sys \<Rightarrow> bool" where
  "pool_inv s \<longleftrightarrow> (case s of (bp, held) \<Rightarrow>
     bp_inUse bp = int (length held)
   \<and> bp_alloced bp = int (length (bp_cache bp)) + int (length held)
   \<and> 0 \<le> bp_minFill bp \<and> bp_minFill bp \<le> int (length (bp_cache bp))
   \<and> int (length (bp_cache bp)) \<le> max 0 (bp_poolSize bp)
   \<and> distinct (map bufId (bp_cache bp @ held))
   \<and> (\<forall>b \<in> set (bp_cache bp @ held). bufId b < bp_nextId bp \<and> bufCap b = bp_bufferSize bp)
   \<and> (bp_flushPending bp \<longrightarrow> bp_timerArmed bp)
   \<and> (bp_cache bp \<noteq> [] \<longrightarrow> bp_flushPending bp))"

section \<open>Lemmas\<close>

lemma pool_get_Nil [simp]: "bp_cache bp = [] \<Longrightarrow> pool_get bp = None"
  by (simp add: pool_get_def)

lemma pool_get_snoc:
  "bp_cache bp = bs @ [b] \<Longrightarrow> pool_get bp = Some (b, bp\<lparr>bp_cache := bs\<rparr>)"
  by (simp add: pool_get_def)

lemma flush_loop_eq:
  "n \<le> length (bp_cache bp) \<Longrightarrow> flush_loop n bp =
     Some (bp\<lparr>bp_cache := take (length (bp_cache bp) - n) (bp_cache bp),
              bp_alloced := bp_alloced bp - int n\<rparr>)"
proof (induction n arbitrary: bp)
  case 0
  then show ?case by simp
next
  case (Suc n)
  then obtain bs b where bp: "bp_cache bp = bs @ [b]"
    by (cases "bp_cache bp" rule: rev_cases) auto
  with Suc show ?case by (simp add: pool_get_snoc freeBuffer_def)
qed

lemma flush_eq:
  assumes "0 \<le> n" "n \<le> int (length (bp_cache bp))"
  shows "flush n bp = Some (bp\<lparr>bp_cache := take (length (bp_cache bp) - nat n) (bp_cache bp),
    bp_alloced := bp_alloced bp - n, bp_minFill := int (length (bp_cache bp)) - n\<rparr>)"
  using assms by (simp add: flush_def flush_loop_eq)

lemma Get_try_cases:
  assumes "Get_try ok bp = (r, bp')"
  obtains (cached) bs b where "bp_cache bp = bs @ [b]" "r = Some b"
      "bp' = updateMinFill (bp\<lparr>bp_cache := bs, bp_inUse := bp_inUse bp + 1\<rparr>)"
    | (alloc) "bp_cache bp = []" ok "r = Some \<lparr>bufId = bp_nextId bp, bufCap = bp_bufferSize bp\<rparr>"
      "bp' = updateMinFill (bp\<lparr>bp_alloced := bp_alloced bp + 1, bp_nextId := Suc (bp_nextId bp),
               bp_inUse := bp_inUse bp + 1\<rparr>)"
    | (wait) "bp_cache bp = []" "\<not> ok" "r = None" "bp' = bp"
proof (cases "bp_cache bp" rule: rev_cases)
  case Nil
  show thesis
  proof (cases ok)
    case True
    then show thesis using alloc [OF Nil] assms Nil by (simp add: Get_try_def Let_def)
  next
    case False
    then show thesis using wait [OF Nil] assms Nil by (simp add: Get_try_def Let_def)
  qed
next
  case (snoc bs b)
  then show thesis
    using cached [OF snoc] assms by (simp add: Get_try_def Let_def pool_get_snoc)
qed

lemma pool_inv_New [inv_intros]: "pool_inv (New bs ps, [])"
  by (simp add: pool_inv_def New_def)

lemma pool_inv_Get:
  assumes "pool_inv (bp, held)" "Get_try ok bp = (Some b, bp')"
  shows "pool_inv (bp', b # held)"
  using assms(2)
proof (cases rule: Get_try_cases)
  case (cached bs b')
  with assms(1) show ?thesis by (auto simp: pool_inv_def updateMinFill_def)
next
  case alloc
  with assms(1) show ?thesis by (fastforce simp: pool_inv_def updateMinFill_def)
qed auto

lemma pool_inv_Put:
  assumes "pool_inv (bp, held)" "b \<in> set held"
  shows "\<exists>bp'. Put b bp = Some bp' \<and> pool_inv (bp', remove1 b held)"
proof -
  have cap: "bufCap b = bp_bufferSize bp" using assms by (auto simp: pool_inv_def)
  obtain h1 h2 where h: "held = h1 @ b # h2" "b \<notin> set h1"
    using split_list_first [OF assms(2)] by blast
  then have r: "remove1 b held = h1 @ h2" by (simp add: remove1_append)
  let ?c = "int (length (bp_cache bp)) < bp_poolSize bp"
  let ?bp' = "bp\<lparr>bp_cache := (if ?c then bp_cache bp @ [b] else bp_cache bp),
    bp_alloced := (if ?c then bp_alloced bp else bp_alloced bp - 1),
    bp_inUse := bp_inUse bp - 1, bp_flushPending := True,
    bp_timerArmed := True\<rparr>"
  have m: "bp_minFill bp \<le> int (length (bp_cache bp))" "bp_flushPending bp \<longrightarrow> bp_timerArmed bp"
    using assms(1) by (simp_all add: pool_inv_def)
  then have P: "Put b bp = Some ?bp'"
    using cap by (cases bp) (simp add: Put_def Let_def pool_put_def freeBuffer_def
        updateMinFill_def kickFlusher_def)
  have "pool_inv (?bp', h1 @ h2)"
    using assms(1) unfolding h(1) pool_inv_def by (cases ?c) auto
  with P r show ?thesis by simp
qed

lemma pool_inv_flush:
  assumes "pool_inv (bp, held)" "0 \<le> n" "n \<le> int (length (bp_cache bp))" "flush n bp = Some bp'"
  shows "pool_inv (bp', held)"
proof -
  define c1 where "c1 = take (length (bp_cache bp) - nat n) (bp_cache bp)"
  define c2 where "c2 = drop (length (bp_cache bp) - nat n) (bp_cache bp)"
  have c: "bp_cache bp = c1 @ c2" "length c2 = nat n"
    using assms(2,3) by (simp_all add: c1_def c2_def)
  have "bp' = bp\<lparr>bp_cache := c1, bp_alloced := bp_alloced bp - n, bp_minFill := int (length c1)\<rparr>"
    using assms(2,4) c flush_eq [OF assms(2,3)] by simp
  then show ?thesis using assms(1,2) c by (auto simp: pool_inv_def)
qed

lemma pool_inv_bounds:
  assumes "pool_inv (bp, held)"
  shows "0 \<le> bp_minFill bp" "bp_minFill bp \<le> int (length (bp_cache bp))"
  using assms by (simp_all add: pool_inv_def)

lemma flushAged_eq:
  assumes "pool_inv (bp, held)"
  defines "k \<equiv> length (bp_cache bp) - nat (bp_minFill bp)"
  shows "flushAged bp = Some (bp\<lparr>bp_cache := take k (bp_cache bp),
    bp_alloced := bp_alloced bp - bp_minFill bp, bp_minFill := int k,
    bp_flushPending := k \<noteq> 0, bp_timerArmed := k \<noteq> 0\<rparr>)"
proof -
  let ?bp = "bp\<lparr>bp_timerArmed := False, bp_flushPending := False\<rparr>"
  have k: "int (length (bp_cache bp)) - bp_minFill bp = int k" "k \<le> length (bp_cache bp)"
    using pool_inv_bounds [OF assms(1)] by (simp_all add: k_def)
  let ?r = "?bp\<lparr>bp_cache := take k (bp_cache bp),
    bp_alloced := bp_alloced bp - bp_minFill bp, bp_minFill := int k\<rparr>"
  have "flush (bp_minFill bp) ?bp = Some ?r"
    using flush_eq [of "bp_minFill bp" ?bp] pool_inv_bounds [OF assms(1)]
    unfolding k(1) [symmetric] unfolding k_def by simp
  then have "flushAged bp = Some (if bp_cache ?r \<noteq> [] then kickFlusher ?r else ?r)"
    unfolding flushAged_def Let_def by simp
  moreover have "bp_cache ?r = [] \<longleftrightarrow> k = 0"
    using k(2) by auto
  ultimately show ?thesis
    by (cases "k = 0") (simp_all add: kickFlusher_def)
qed

lemma pool_inv_flushAged:
  assumes "pool_inv (bp, held)" "flushAged bp = Some bp'"
  shows "pool_inv (bp', held)"
proof -
  define k where "k = length (bp_cache bp) - nat (bp_minFill bp)"
  define c1 where "c1 = take k (bp_cache bp)"
  define c2 where "c2 = drop k (bp_cache bp)"
  have c: "bp_cache bp = take k (bp_cache bp) @ c2" "length c2 = nat (bp_minFill bp)"
    using pool_inv_bounds [OF assms(1)] by (simp_all add: k_def c2_def)
  have "length c1 = k" by (simp add: c1_def k_def)
  moreover have "bp' = bp\<lparr>bp_cache := c1, bp_alloced := bp_alloced bp - bp_minFill bp,
    bp_minFill := int k, bp_flushPending := k \<noteq> 0, bp_timerArmed := k \<noteq> 0\<rparr>"
    using assms(2) flushAged_eq [OF assms(1)] by (simp add: k_def c1_def)
  moreover have "bp_cache bp = c1 @ c2" using c(1) by (simp add: c1_def)
  ultimately show ?thesis
    using assms(1) c(2) by (auto simp: pool_inv_def)
qed

lemma pool_step_inv [inv_intros]: "pool_step s t \<Longrightarrow> pool_inv s \<Longrightarrow> pool_inv t"
proof (induction rule: pool_step.induct)
  case (get_ok ok bp b bp' held)
  then show ?case by (blast intro: pool_inv_Get)
next
  case (get_fail ok bp bp' held)
  then show ?case by (elim Get_try_cases) auto
next
  case (put_back b held bp bp')
  then show ?case using pool_inv_Put by fastforce
next
  case (flush_all bp bp' held)
  then show ?case
    using pool_inv_flush [of bp held "int (length (bp_cache bp))" bp'] by (simp add: Flush_def)
next
  case (timer bp bp' held)
  then show ?case by (blast intro: pool_inv_flushAged)
qed

lemma pool_reachable_inv: "pool_reachable bs ps s \<Longrightarrow> pool_inv s"
  by (induction rule: pool_reachable.induct) (auto intro: inv_intros)

lemma pool_step_config:
  "pool_step s t \<Longrightarrow> bp_poolSize (fst t) = bp_poolSize (fst s)
     \<and> bp_bufferSize (fst t) = bp_bufferSize (fst s)"
proof (induction rule: pool_step.induct)
  case (put_back b held bp bp')
  then show ?case
    by (auto simp: Put_def Let_def pool_put_def freeBuffer_def updateMinFill_def kickFlusher_def
        split: if_splits)
next
  case (flush_all bp bp' held)
  then show ?case using flush_eq [of "int (length (bp_cache bp))" bp] by (auto simp: Flush_def)
next
  case (timer bp bp' held)
  have "bp_poolSize b' = bp_poolSize b \<and> bp_bufferSize b' = bp_bufferSize b"
    if "flush_loop n b = Some b'" for n b b'
    using that
    by (induction n arbitrary: b) (auto simp: pool_get_def freeBuffer_def split: if_splits)
  from this [of "nat (bp_minFill bp)"] timer show ?case
    by (auto simp: flushAged_def Let_def flush_def kickFlusher_def)
qed (auto elim!: Get_try_cases simp: updateMinFill_def)

lemma pool_reachable_config:
  "pool_reachable bs ps s \<Longrightarrow> bp_poolSize (fst s) = ps \<and> bp_bufferSize (fst s) = bs"
  by (induction rule: pool_reachable.induct) (auto simp: New_def dest: pool_step_config)

section \<open>The interface to the users of the pool\<close>

text \<open>What the readers and the copy loops rely on: an acquired buffer is one that nobody else
  holds, of the configured capacity; a held buffer can be given back without a panic.\<close>

locale buffer_provider =
  fixes acquire :: "'s \<Rightarrow> buffer \<times> 's"
    and release :: "buffer \<Rightarrow> 's \<Rightarrow> 's option"
    and lent :: "'s \<Rightarrow> buffer list"
    and ok :: "'s \<Rightarrow> bool"
    and cap_of :: "'s \<Rightarrow> int"
  assumes acquire_law: "ok s \<Longrightarrow> acquire s = (b, s') \<Longrightarrow>
      ok s' \<and> lent s' = b # lent s \<and> b \<notin> set (lent s) \<and> bufCap b = cap_of s \<and> cap_of s' = cap_of s"
    and release_law: "ok s \<Longrightarrow> b \<in> set (lent s) \<Longrightarrow>
      \<exists>s'. release b s = Some s' \<and> ok s' \<and> lent s' = remove1 b (lent s) \<and> cap_of s' = cap_of s"
begin

fun acquire_n :: "nat \<Rightarrow> 's \<Rightarrow> buffer list \<times> 's" where
  "acquire_n 0 s = ([], s)"
| "acquire_n (Suc n) s =
     (case acquire_n n s of (bs, s1) \<Rightarrow> (case acquire s1 of (b, s2) \<Rightarrow> (b # bs, s2)))"

fun release_all :: "buffer list \<Rightarrow> 's \<Rightarrow> 's option" where
  "release_all [] s = Some s"
| "release_all (b # bs) s = Option.bind (release b s) (release_all bs)"

lemma acquire_n_law:
  "ok s \<Longrightarrow> acquire_n n s = (bs, s') \<Longrightarrow>
     ok s' \<and> lent s' = bs @ lent s \<and> length bs = n
     \<and> (distinct (lent s) \<longrightarrow> distinct (lent s')) \<and> cap_of s' = cap_of s"
proof (induction n arbitrary: bs s')
  case (Suc n)
  obtain bs1 s1 where 1: "acquire_n n s = (bs1, s1)" by (metis surj_pair)
  obtain b s2 where 2: "acquire s1 = (b, s2)" by (metis surj_pair)
  from Suc 1 2 have "bs = b # bs1" "s' = s2" by auto
  with Suc.IH [OF Suc.prems(1) 1] acquire_law [OF _ 2] show ?case by auto
qed auto

lemma release_all_law:
  "ok s \<Longrightarrow> lent s = bs @ rest \<Longrightarrow>
     \<exists>s'. release_all bs s = Some s' \<and> ok s' \<and> lent s' = rest \<and> cap_of s' = cap_of s"
proof (induction bs arbitrary: s)
  case (Cons b bs)
  then obtain s1 where "release b s = Some s1" "ok s1" "lent s1 = bs @ rest" "cap_of s1 = cap_of s"
    using release_law [of s b] by auto
  with Cons.IH [of s1] show ?case by auto
qed auto

lemma acquire_release_all:
  assumes "ok s" "acquire_n n s = (bs, s1)"
  shows "\<exists>s2. release_all bs s1 = Some s2 \<and> ok s2 \<and> lent s2 = lent s"
  using acquire_n_law [OF assms] release_all_law [of s1 bs "lent s"] by blast

end

text \<open>The pool with the default allocator (\<open>make\<close>, which does not fail) provides the interface.\<close>

definition pool_acquire :: "pool_sys \<Rightarrow> buffer \<times> pool_sys" where
  "pool_acquire s =
     (case Get_try True (fst s) of
        (Some b, bp') \<Rightarrow> (b, (bp', b # snd s))
      | (None, bp') \<Rightarrow> (\<lparr>bufId = 0, bufCap = 0\<rparr>, (bp', snd s)))"

definition pool_release :: "buffer \<Rightarrow> pool_sys \<Rightarrow> pool_sys option" where
  "pool_release b s = map_option (\<lambda>bp'. (bp', remove1 b (snd s))) (Put b (fst s))"

lemma Get_try_True: "\<exists>b bp'. Get_try True bp = (Some b, bp')"
  by (cases "bp_cache bp" rule: rev_cases) (auto simp: Get_try_def Let_def pool_get_snoc)

lemma Get_try_fresh:
  assumes "pool_inv (bp, held)" "Get_try ok bp = (Some b, bp')"
  shows "b \<notin> set held \<and> bufCap b = bp_bufferSize bp \<and> bp_bufferSize bp' = bp_bufferSize bp"
proof -
  from pool_inv_Get [OF assms] have "distinct (map bufId (b # held))" "bufCap b = bp_bufferSize bp'"
    by (auto simp: pool_inv_def)
  moreover have "bp_bufferSize bp' = bp_bufferSize bp"
    using pool_step_config [OF pool_step.get_ok [OF assms(2)], of held] by simp
  ultimately show ?thesis by auto
qed

interpretation bufs: buffer_provider pool_acquire pool_release snd pool_inv "\<lambda>s. bp_bufferSize (fst s)"
proof unfold_locales
  fix s b s'
  assume inv: "pool_inv s" and "pool_acquire s = (b, s')"
  moreover obtain bp held where s: "s = (bp, held)" by (cases s)
  moreover obtain b0 bp' where "Get_try True bp = (Some b0, bp')" using Get_try_True by blast
  ultimately have g: "Get_try True bp = (Some b, bp')" "s' = (bp', b # held)"
    by (auto simp: pool_acquire_def)
  with inv s show "pool_inv s' \<and> snd s' = b # snd s \<and> b \<notin> set (snd s)
      \<and> bufCap b = bp_bufferSize (fst s) \<and> bp_bufferSize (fst s') = bp_bufferSize (fst s)"
    using Get_try_fresh [of bp held True b bp'] pool_inv_Get [of bp held True b bp'] by auto
next
  fix s b
  assume "pool_inv s" "b \<in> set (snd s)"
  moreover obtain bp held where s: "s = (bp, held)" by (cases s)
  ultimately obtain bp' where p: "Put b bp = Some bp'" "pool_inv (bp', remove1 b held)"
    using pool_inv_Put [of bp held b] by auto
  moreover have "bp_bufferSize bp' = bp_bufferSize bp"
    using pool_step_config [OF pool_step.put_back [of b held bp bp']] p(1) s \<open>b \<in> set (snd s)\<close>
    by simp
  ultimately show "\<exists>s'. pool_release b s = Some s' \<and> pool_inv s' \<and> snd s' = remove1 b (snd s)
      \<and> bp_bufferSize (fst s') = bp_bufferSize (fst s)"
    using s by (simp add: pool_release_def)
qed

section \<open>Properties\<close>

text \<open>C34: in every state the pool can reach, the counters are exact (buffers in use, buffers allocated),
  no buffer is lent twice or lent and cached, every buffer has the configured size, at most
  \<open>poolSize\<close> buffers are cached, and a non-empty cache always has a flush scheduled.\<close>

theorem pool_accounting:
  assumes "pool_reachable bs ps (bp, held)"
  shows "bp_inUse bp = int (length held)
    \<and> bp_alloced bp = int (length (bp_cache bp)) + int (length held)
    \<and> distinct (map bufId (bp_cache bp @ held))
    \<and> (\<forall>b \<in> set (bp_cache bp @ held). bufCap b = bs)
    \<and> int (length (bp_cache bp)) \<le> max 0 ps
    \<and> (bp_cache bp \<noteq> [] \<longrightarrow> bp_flushPending bp \<and> bp_timerArmed bp)"
  using pool_reachable_inv [OF assms] pool_reachable_config [OF assms]
  by (auto simp: pool_inv_def)

definition ex_pool1 :: Pool where "ex_pool1 = snd (Get_try True (New 4 2))"
definition ex_pool2 :: Pool where "ex_pool2 = snd (Get_try True ex_pool1)"
definition ex_buf :: "nat \<Rightarrow> buffer" where "ex_buf i = \<lparr>bufId = i, bufCap = 4\<rparr>"
definition ex_pool3 :: Pool where
  "ex_pool3 = (case Put (ex_buf 0) ex_pool2 of Some p \<Rightarrow> p | None \<Rightarrow> ex_pool2)"

lemma ex_pool_reachable: "pool_reachable 4 2 (ex_pool3, [ex_buf 1])"
proof -
  have g1: "Get_try True (New 4 2) = (Some (ex_buf 0), ex_pool1)" by code_simp
  have g2: "Get_try True ex_pool1 = (Some (ex_buf 1), ex_pool2)" by code_simp
  have p3: "Put (ex_buf 0) ex_pool2 = Some ex_pool3" by code_simp
  have m: "ex_buf 0 \<in> set [ex_buf 1, ex_buf 0]" by simp
  have r: "remove1 (ex_buf 0) [ex_buf 1, ex_buf 0] = [ex_buf 1]" by code_simp
  have "pool_reachable 4 2 (ex_pool2, [ex_buf 1, ex_buf 0])"
    by (rule pool_reachable.step [OF pool_reachable.step [OF pool_reachable.start get_ok [OF g1]]
          get_ok [OF g2]])
  from pool_reachable.step [OF this put_back [OF m p3]] show ?thesis unfolding r .
qed

theorem pool_accounting_witness:
  "bp_inUse ex_pool3 = 1 \<and> bp_alloced ex_pool3 = 2 \<and> bp_timerArmed ex_pool3"
  using pool_accounting [OF ex_pool_reachable] by (auto simp: ex_pool3_def) code_simp+

text \<open>No operation of the pool panics in a reachable state when users return what they hold:
  \<open>Put\<close> of a lent buffer, \<open>Flush\<close> and the timer callback all return; the callback frees exactly the
  buffers that stayed unused since the last flush, and a second callback with no use in between
  empties the cache and leaves no timer running.\<close>

theorem pool_flush_cycle:
  assumes "pool_reachable bs ps (bp, held)"
  shows "(\<forall>b \<in> set held. Put b bp \<noteq> None) \<and> Flush bp \<noteq> None
    \<and> (\<exists>bp1 bp2. flushAged bp = Some bp1
        \<and> bp_cache bp1 = take (length (bp_cache bp) - nat (bp_minFill bp)) (bp_cache bp)
        \<and> flushAged bp1 = Some bp2 \<and> bp_cache bp2 = [] \<and> bp_alloced bp2 = int (length held)
        \<and> \<not> bp_timerArmed bp2)"
proof (intro conjI)
  have inv: "pool_inv (bp, held)" using assms by (rule pool_reachable_inv)
  show "\<forall>b \<in> set held. Put b bp \<noteq> None" using pool_inv_Put [OF inv] by auto
  show "Flush bp \<noteq> None" using flush_eq [of "int (length (bp_cache bp))" bp] by (simp add: Flush_def)
  obtain bp1 where 1: "flushAged bp = Some bp1"
      "bp_cache bp1 = take (length (bp_cache bp) - nat (bp_minFill bp)) (bp_cache bp)"
      "bp_minFill bp1 = int (length (bp_cache bp1))"
    using flushAged_eq [OF inv] by simp
  have inv1: "pool_inv (bp1, held)" using pool_inv_flushAged [OF inv 1(1)] .
  then obtain bp2 where 2: "flushAged bp1 = Some bp2" "bp_cache bp2 = []" "\<not> bp_timerArmed bp2"
    using flushAged_eq [OF inv1] 1(3) by simp
  have "pool_inv (bp2, held)" using pool_inv_flushAged [OF inv1 2(1)] .
  then have "bp_alloced bp2 = int (length held)" using 2(2) by (simp add: pool_inv_def)
  with 1 2 show "\<exists>bp1 bp2. flushAged bp = Some bp1
        \<and> bp_cache bp1 = take (length (bp_cache bp) - nat (bp_minFill bp)) (bp_cache bp)
        \<and> flushAged bp1 = Some bp2 \<and> bp_cache bp2 = [] \<and> bp_alloced bp2 = int (length held)
        \<and> \<not> bp_timerArmed bp2"
    by blast
qed

theorem pool_flush_cycle_witness: "Put (ex_buf 1) ex_pool3 \<noteq> None \<and> Flush ex_pool3 \<noteq> None"
  using pool_flush_cycle [OF ex_pool_reachable] by simp

text \<open>Loops of \<open>Get\<close> return as soon as one allocation succeeds.\<close>

lemma Get_returns: "True \<in> set oks \<or> bp_cache bp \<noteq> [] \<Longrightarrow> \<exists>r. Get oks bp = Some r"
proof (induction oks arbitrary: bp)
  case Nil
  then obtain bs b where "bp_cache bp = bs @ [b]" by (cases "bp_cache bp" rule: rev_cases) auto
  then show ?case by (simp add: Get_try_def Let_def pool_get_snoc)
next
  case (Cons ok oks)
  obtain r bp' where g: "Get_try ok bp = (r, bp')" by (metis surj_pair)
  then show ?case
  proof (cases rule: Get_try_cases)
    case wait
    with Cons g show ?thesis by auto
  qed (use g in auto)
qed

end
