(* ===== verification/AsyncReader.thy ===== *)
theory AsyncReader
  imports Prelude
begin

text \<open>
  The asynchronous read-ahead of \<open>pkg/asyncreader/asyncreader.go\<close>: a goroutine takes a token, reads
  a block from the input into a pooled buffer and sends it on the channel \<open>ready\<close>; the consumer
  serves \<open>Read\<close>, \<open>WriteTo\<close> and \<open>SkipBytes\<close> from the current buffer and hands the token back when
  a buffer is used up. The channels are a list (\<open>ready\<close>), a counter (\<open>token\<close>) and flags
  (\<open>exit\<close>, \<open>exited\<close>); the input is a parameter \<open>rd\<close> that obeys the contract of \<open>io.Reader\<close>.
  A call that has to wait for the goroutine returns \<open>Blocked\<close> with the state in which it waits;
  calling it again is its continuation.
\<close>

section \<open>The input\<close>

datatype rerr = EOF | ErrStreamAbandoned | OtherErr nat

type_synonym ('r, 'b) reader = "'r \<Rightarrow> nat \<Rightarrow> 'b list \<times> rerr option \<times> 'r"

definition reader_ok :: "('r, 'b) reader \<Rightarrow> bool" where
  "reader_ok rd \<longleftrightarrow> (\<forall>r n. length (fst (rd r n)) \<le> n)"

text \<open>\<open>ReadFill\<close>: read until the buffer of \<open>want\<close> bytes is full or the reader fails. A reader that
  returns no data and no error may keep the loop running: the fuel bounds the calls.\<close>

fun ReadFill :: "nat \<Rightarrow> ('r, 'b) reader \<Rightarrow> 'r \<Rightarrow> nat \<Rightarrow> ('b list \<times> rerr option \<times> 'r) option" where
  "ReadFill 0 rd r want = (if want = 0 then Some ([], None, r) else None)"
| "ReadFill (Suc k) rd r want =
     (if want = 0 then Some ([], None, r)
      else case rd r want of
        (d, Some e, r') \<Rightarrow> Some (d, Some e, r')
      | (d, None, r') \<Rightarrow>
          map_option (\<lambda>(ds, e, r''). (d @ ds, e, r'')) (ReadFill k rd r' (want - length d)))"

section \<open>Buffers\<close>

record 'b abuf =
  ab_buf :: "'b list"
  ab_err :: "rerr option"
  ab_offset :: nat

definition isEmpty :: "'b abuf option \<Rightarrow> bool" where
  "isEmpty b = (case b of None \<Rightarrow> True | Some x \<Rightarrow> length (ab_buf x) \<le> ab_offset x)"

definition ab_rest :: "'b abuf \<Rightarrow> 'b list" where
  "ab_rest b = drop (ab_offset b) (ab_buf b)"

definition increment :: "nat \<Rightarrow> 'b abuf \<Rightarrow> 'b abuf" where
  "increment n b = b\<lparr>ab_offset := ab_offset b + n\<rparr>"

section \<open>The reader\<close>

definition BufferSize :: nat where "BufferSize = 1024 * 1024"
definition softStartInitial :: nat where "softStartInitial = 4 * 1024"

record ('r, 'b) areader =
  ar_in :: 'r
  ar_ready :: "'b abuf list"
  ar_token :: nat
  ar_exit :: bool            \<comment> \<open>channel \<open>exit\<close> closed\<close>
  ar_exited :: bool          \<comment> \<open>channels \<open>exited\<close> and \<open>ready\<close> closed\<close>
  ar_buffers :: nat
  ar_err :: "rerr option"
  ar_cur :: "'b abuf option"
  ar_size :: nat
  ar_closed :: bool
  ar_lent :: nat             \<comment> \<open>\<open>getBuffer\<close> calls minus \<open>putBuffer\<close> calls\<close>
  ar_inClosed :: nat         \<comment> \<open>calls of \<open>Close\<close> on the input\<close>

definition NewReader :: "'r option \<Rightarrow> int \<Rightarrow> string + ('r, 'b) areader" where
  "NewReader rd buffers =
     (if buffers \<le> 0 then Inl ''number of buffers too small''
      else case rd of
        None \<Rightarrow> Inl ''nil reader supplied''
      | Some r \<Rightarrow> Inr \<lparr> ar_in = r, ar_ready = [], ar_token = nat buffers, ar_exit = False,
          ar_exited = False, ar_buffers = nat buffers, ar_err = None, ar_cur = None,
          ar_size = softStartInitial, ar_closed = False, ar_lent = 0, ar_inClosed = 0 \<rparr>)"

text \<open>One round of the goroutine that takes a token: the block size doubles from 4 KiB up to the
  buffer size; a read error ends the goroutine after the block is sent.\<close>

definition produce :: "nat \<Rightarrow> ('r, 'b) reader \<Rightarrow> ('r, 'b) areader \<Rightarrow> ('r, 'b) areader option" where
  "produce fuel rd a =
     (if ar_exited a \<or> ar_token a = 0 then None
      else
        let want = (if ar_size a < BufferSize then ar_size a else BufferSize);
            size' = (if ar_size a < BufferSize then 2 * ar_size a else ar_size a)
        in case ReadFill fuel rd (ar_in a) want of
             None \<Rightarrow> None
           | Some (d, e, r') \<Rightarrow>
               Some (a\<lparr>ar_token := ar_token a - 1, ar_lent := ar_lent a + 1, ar_size := size',
                       ar_in := r',
                       ar_ready := ar_ready a @ [\<lparr>ab_buf = d, ab_err = e, ab_offset = 0\<rparr>],
                       ar_exited := (e \<noteq> None)\<rparr>))"

definition produce_exit :: "('r, 'b) areader \<Rightarrow> ('r, 'b) areader option" where
  "produce_exit a = (if \<not> ar_exited a \<and> ar_exit a then Some (a\<lparr>ar_exited := True\<rparr>) else None)"

datatype ('r, 'b) fillres =
    Filled "('r, 'b) areader"
  | FillErr rerr "('r, 'b) areader"
  | Blocked "('r, 'b) areader"

definition putCur :: "('r, 'b) areader \<Rightarrow> ('r, 'b) areader" where
  "putCur a = (if ar_cur a = None then a
     else a\<lparr>ar_lent := ar_lent a - 1, ar_token := ar_token a + 1, ar_cur := None\<rparr>)"

definition fill :: "('r, 'b) areader \<Rightarrow> ('r, 'b) fillres" where
  "fill a =
     (if \<not> isEmpty (ar_cur a) then Filled a
      else
        let a1 = putCur a
        in case ar_ready a1 of
             b # bs \<Rightarrow> Filled (a1\<lparr>ar_ready := bs, ar_cur := Some b\<rparr>)
           | [] \<Rightarrow>
               if ar_exited a1
               then FillErr (case ar_err a1 of None \<Rightarrow> ErrStreamAbandoned | Some e \<Rightarrow> e) a1
               else Blocked a1)"

datatype 'b readres = Got "'b list" "rerr option" | Wait

definition Read :: "nat \<Rightarrow> ('r, 'b) areader \<Rightarrow> 'b readres \<times> ('r, 'b) areader" where
  "Read len a =
     (case fill a of
        Blocked a1 \<Rightarrow> (Wait, a1)
      | FillErr e a1 \<Rightarrow> (Got [] (Some e), a1)
      | Filled a1 \<Rightarrow>
          (case ar_cur a1 of
             None \<Rightarrow> (Wait, a1)
           | Some b \<Rightarrow>
               let d = take len (ab_rest b); b' = increment (length d) b;
                   a2 = a1\<lparr>ar_cur := Some b'\<rparr>
               in if isEmpty (Some b') then (Got d (ab_err b'), a2\<lparr>ar_err := ab_err b'\<rparr>)
                  else (Got d None, a2)))"

text \<open>One round of the loop of \<open>WriteTo\<close>: \<open>wr\<close> is what the writer does with the block (bytes
  taken, error). The result is the bytes written and, when the call returns, its error.\<close>

datatype 'b wres = WReturn "'b list" "rerr option" | WMore "'b list" | WWait

definition WriteTo_round ::
  "('b list \<Rightarrow> nat \<times> rerr option) \<Rightarrow> ('r, 'b) areader \<Rightarrow> 'b wres \<times> ('r, 'b) areader" where
  "WriteTo_round wr a =
     (case fill a of
        Blocked a1 \<Rightarrow> (WWait, a1)
      | FillErr e a1 \<Rightarrow> (WReturn [] (if e = EOF then None else Some e), a1)
      | Filled a1 \<Rightarrow>
          (case ar_cur a1 of
             None \<Rightarrow> (WWait, a1)
           | Some b \<Rightarrow>
               (case wr (ab_rest b) of (n2, we) \<Rightarrow>
                  let d = take n2 (ab_rest b); b' = increment n2 b;
                      a2 = a1\<lparr>ar_cur := Some b'\<rparr>
                  in (case we of
                        Some e \<Rightarrow> (WReturn d (Some e), a2)
                      | None \<Rightarrow>
                          (case ab_err b' of
                             None \<Rightarrow> (WMore d, a2)
                           | Some e \<Rightarrow>
                               (WReturn d (if e = EOF then None else Some e),
                                a2\<lparr>ar_err := Some e\<rparr>))))))"

text \<open>The forward loop of \<open>SkipBytes\<close>. When fewer bytes than asked for were left in the buffer, it is
  used up and the next round puts it back and takes the next ready one.\<close>

fun skip_loop ::
  "nat \<Rightarrow> nat \<Rightarrow> 'b abuf \<Rightarrow> ('r, 'b) areader \<Rightarrow> 'b abuf list \<Rightarrow> bool \<times> ('r, 'b) areader" where
  "skip_loop skip refill b a rs =
     (let n = (if length (ab_rest b) > skip then skip else length (ab_rest b));
          b' = increment n b; skip' = skip - n; a1 = a\<lparr>ar_cur := Some b', ar_ready := rs\<rparr>
      in if skip' = 0 then
           (True, (if isEmpty (Some b') \<and> ab_err b' \<noteq> None
                   then a1\<lparr>ar_token := ar_token a1 + refill, ar_err := ab_err b'\<rparr>
                   else a1\<lparr>ar_token := ar_token a1 + refill\<rparr>))
         else if ab_err b' \<noteq> None then (False, a1\<lparr>ar_err := ab_err b'\<rparr>)
         else
           let a2 = a1\<lparr>ar_cur := None, ar_lent := ar_lent a1 - 1\<rparr>
           in case rs of
                [] \<Rightarrow> (False, a2)
              | b2 # rs2 \<Rightarrow> skip_loop skip' (Suc refill) b2 a2 rs2)"

text \<open>\<open>SkipBytes\<close> up to the deferred \<open>Abandon\<close> that follows a false result.\<close>

definition SkipBytes :: "int \<Rightarrow> ('r, 'b) areader \<Rightarrow> bool \<times> ('r, 'b) areader" where
  "SkipBytes skip a =
     (if ar_err a \<noteq> None then (False, a)
      else if skip < 0 then
        (case ar_cur a of
           Some b \<Rightarrow>
             if int (ab_offset b) + skip \<ge> 0
             then (True, a\<lparr>ar_cur := Some (b\<lparr>ab_offset := nat (int (ab_offset b) + skip)\<rparr>)\<rparr>)
             else (False, a)
         | None \<Rightarrow> (False, a))
      else if skip \<ge> int ((length (ar_ready a) + 1) * BufferSize) then (False, a)
      else if isEmpty (ar_cur a) then
        let (a1, refill) =
          (case ar_cur a of
             None \<Rightarrow> (a, 0)
           | Some _ \<Rightarrow> (a\<lparr>ar_lent := ar_lent a - 1, ar_cur := None\<rparr>, 1))
        in (case ar_ready a1 of
              [] \<Rightarrow> (False, a1)
            | b # bs \<Rightarrow> skip_loop (nat skip) refill b a1 bs)
      else (case ar_cur a of
              Some b \<Rightarrow> skip_loop (nat skip) 0 b a (ar_ready a)
            | None \<Rightarrow> (False, a)))"

definition StopBuffering :: "('r, 'b) areader \<Rightarrow> ('r, 'b) areader" where
  "StopBuffering a = (if ar_exit a then a else a\<lparr>ar_exit := True\<rparr>)"

text \<open>The second half of \<open>Abandon\<close>, which runs once the goroutine has ended: every outstanding
  buffer goes back to the pool.\<close>

definition drain :: "('r, 'b) areader \<Rightarrow> ('r, 'b) areader option" where
  "drain a =
     (if \<not> ar_exited a then None
      else
        let a1 = (if ar_cur a = None then a else a\<lparr>ar_lent := ar_lent a - 1, ar_cur := None\<rparr>)
        in Some (a1\<lparr>ar_lent := ar_lent a1 - length (ar_ready a1), ar_ready := []\<rparr>))"

text \<open>\<open>Close\<close> after its \<open>Abandon\<close>.\<close>

definition close_input :: "('r, 'b) areader \<Rightarrow> ('r, 'b) areader" where
  "close_input a = (if ar_closed a then a
     else a\<lparr>ar_closed := True, ar_inClosed := ar_inClosed a + 1\<rparr>)"

section \<open>The loop that fills a block\<close>

lemma ReadFill_length:
  assumes "reader_ok rd" "ReadFill fuel rd r want = Some (d, e, r')"
  shows "length d \<le> want \<and> (e = None \<longrightarrow> length d = want)"
  using assms(2)
proof (induction fuel arbitrary: r want d)
  case 0
  then show ?case by (auto split: if_splits)
next
  case (Suc k)
  obtain d1 e1 r1 where rd: "rd r want = (d1, e1, r1)" by (cases "rd r want") auto
  have l1: "length d1 \<le> want" using assms(1) rd by (metis fst_conv reader_ok_def)
  show ?case
  proof (cases "want = 0 \<or> e1 \<noteq> None")
    case True
    then show ?thesis using Suc.prems rd l1 by (auto split: if_splits)
  next
    case False
    then obtain ds where ds: "ReadFill k rd r1 (want - length d1) = Some (ds, e, r')" "d = d1 @ ds"
      using Suc.prems rd by auto
    show ?thesis using Suc.IH[OF ds(1)] l1 ds(2) by auto
  qed
qed

text \<open>A reader that always makes progress (some data or an error) lets the loop end within
  \<open>want\<close> calls.\<close>

lemma ReadFill_returns:
  assumes "\<And>r n. 0 < n \<Longrightarrow> 0 < length (fst (rd r n)) \<or> fst (snd (rd r n)) \<noteq> None"
    and "want \<le> fuel"
  shows "\<exists>res. ReadFill fuel rd r want = Some res"
  using assms(2)
proof (induction fuel arbitrary: r want)
  case 0
  then show ?case by simp
next
  case (Suc k)
  obtain d1 e1 r1 where rd: "rd r want = (d1, e1, r1)" by (cases "rd r want") auto
  show ?case
  proof (cases "want = 0 \<or> e1 \<noteq> None")
    case True
    then show ?thesis using rd by auto
  next
    case False
    then have "0 < length d1" using assms(1)[of want r] rd by simp
    then have "want - length d1 \<le> k" using Suc.prems by (cases d1) auto
    from Suc.IH[OF this, of r1] show ?thesis using False rd by auto
  qed
qed

section \<open>The runs of a reader\<close>

text \<open>A writer takes at most what it is given, and fails when it takes less (\<open>io.Writer\<close>).\<close>

definition writer_ok :: "('b list \<Rightarrow> nat \<times> rerr option) \<Rightarrow> bool" where
  "writer_ok wr \<longleftrightarrow>
     (\<forall>d. fst (wr d) \<le> length d \<and> (snd (wr d) = None \<longrightarrow> fst (wr d) = length d))"

text \<open>\<open>ar_run rd a log pos ie ok\<close>: the reader \<open>a\<close> is reachable, the input has delivered \<open>log\<close> so
  far, the consumer stands at \<open>pos\<close> in it, \<open>ie\<close> is the error with which the input ended and
  \<open>ok\<close> says that the stream has not been abandoned. The goroutine and the consumer interleave
  freely.\<close>

inductive ar_run ::
  "('r, 'b) reader \<Rightarrow> ('r, 'b) areader \<Rightarrow> 'b list \<Rightarrow> nat \<Rightarrow> rerr option \<Rightarrow> bool \<Rightarrow> bool"
  for rd where
  start: "NewReader (Some r) n = Inr a \<Longrightarrow> ar_run rd a [] 0 None True"
| produced: "ar_run rd a log pos ie ok \<Longrightarrow> produce fuel rd a = Some a' \<Longrightarrow>
    ar_run rd a' (log @ ab_buf (last (ar_ready a'))) pos (ab_err (last (ar_ready a'))) ok"
| ended: "ar_run rd a log pos ie ok \<Longrightarrow> produce_exit a = Some a' \<Longrightarrow> ar_run rd a' log pos ie ok"
| read: "ar_run rd a log pos ie ok \<Longrightarrow> Read len a = (Got d e, a') \<Longrightarrow>
    ar_run rd a' log (pos + length d) ie ok"
| waits: "ar_run rd a log pos ie ok \<Longrightarrow> Read len a = (Wait, a') \<Longrightarrow> ar_run rd a' log pos ie ok"
| wrote: "ar_run rd a log pos ie ok \<Longrightarrow> writer_ok wr \<Longrightarrow> WriteTo_round wr a = (WMore d, a') \<Longrightarrow>
    ar_run rd a' log (pos + length d) ie ok"
| wrote_end: "ar_run rd a log pos ie ok \<Longrightarrow> writer_ok wr \<Longrightarrow>
    WriteTo_round wr a = (WReturn d e, a') \<Longrightarrow> ar_run rd a' log (pos + length d) ie ok"
| skipped: "ar_run rd a log pos ie ok \<Longrightarrow> SkipBytes s a = (True, a') \<Longrightarrow>
    ar_run rd a' log (nat (int pos + s)) ie ok"
| not_skipped: "ar_run rd a log pos ie ok \<Longrightarrow> SkipBytes s a = (False, a') \<Longrightarrow>
    ar_run rd (StopBuffering a') log pos ie False"
| stopped: "ar_run rd a log pos ie ok \<Longrightarrow> ar_run rd (StopBuffering a) log pos ie ok"
| drained: "ar_run rd a log pos ie ok \<Longrightarrow> ar_exit a \<Longrightarrow> drain a = Some a' \<Longrightarrow>
    ar_run rd a' log pos ie False"
| closed: "ar_run rd a log pos ie ok \<Longrightarrow> ar_run rd (close_input a) log pos ie ok"

definition held :: "'b abuf option \<Rightarrow> nat" where "held c = (case c of None \<Rightarrow> 0 | Some _ \<Rightarrow> 1)"
definition cbuf :: "'b abuf option \<Rightarrow> 'b list" where
  "cbuf c = (case c of None \<Rightarrow> [] | Some b \<Rightarrow> ab_buf b)"
definition coff :: "'b abuf option \<Rightarrow> nat" where
  "coff c = (case c of None \<Rightarrow> 0 | Some b \<Rightarrow> ab_offset b)"

lemma cur_simps [simp]:
  "held None = 0" "held (Some b) = 1" "cbuf None = []" "cbuf (Some b) = ab_buf b"
  "coff None = 0" "coff (Some b) = ab_offset b" "isEmpty None"
  "isEmpty (Some b) \<longleftrightarrow> length (ab_buf b) \<le> ab_offset b"
  by (simp_all add: held_def cbuf_def coff_def isEmpty_def)

text \<open>The buffers in flight, in order: the current one, then those on \<open>ready\<close>.\<close>

definition flight :: "'b abuf option \<Rightarrow> 'b abuf list \<Rightarrow> 'b abuf list" where
  "flight c rs = (case c of None \<Rightarrow> [] | Some b \<Rightarrow> [b]) @ rs"

definition bufs_ok :: "'b abuf option \<Rightarrow> 'b abuf list \<Rightarrow> bool \<Rightarrow> bool" where
  "bufs_ok c rs ex \<longleftrightarrow>
     coff c \<le> length (cbuf c) \<and> (\<forall>b\<in>set rs. ab_offset b = 0)
     \<and> (\<forall>b\<in>set (butlast (flight c rs)). ab_err b = None)
     \<and> (flight c rs \<noteq> [] \<and> ab_err (last (flight c rs)) \<noteq> None \<longrightarrow> ex)"

definition count_ok :: "nat \<Rightarrow> nat \<Rightarrow> nat \<Rightarrow> 'b abuf option \<Rightarrow> 'b abuf list \<Rightarrow> bool \<Rightarrow> bool" where
  "count_ok n lent token c rs ok \<longleftrightarrow>
     lent = held c + length rs \<and> token + lent \<le> n \<and> (ok \<longrightarrow> token + lent = n)"

definition data_ok ::
  "'b abuf option \<Rightarrow> 'b abuf list \<Rightarrow> rerr option \<Rightarrow> 'b list \<Rightarrow> nat \<Rightarrow> rerr option \<Rightarrow> bool" where
  "data_ok c rs err log pos ie \<longleftrightarrow>
     (\<exists>pre. log = pre @ cbuf c @ concat (map ab_buf rs) \<and> pos = length pre + coff c)
     \<and> (flight c rs \<noteq> [] \<longrightarrow> ab_err (last (flight c rs)) = ie)
     \<and> (err \<noteq> None \<longrightarrow> err = ie \<and> pos = length log \<and> rs = [])"

definition ar_inv :: "('r, 'b) areader \<Rightarrow> 'b list \<Rightarrow> nat \<Rightarrow> rerr option \<Rightarrow> bool \<Rightarrow> bool" where
  "ar_inv a log pos ie ok \<longleftrightarrow>
     bufs_ok (ar_cur a) (ar_ready a) (ar_exited a)
     \<and> count_ok (ar_buffers a) (ar_lent a) (ar_token a) (ar_cur a) (ar_ready a) ok
     \<and> (ok \<longrightarrow> data_ok (ar_cur a) (ar_ready a) (ar_err a) log pos ie)
     \<and> (ie \<noteq> None \<longrightarrow> ar_exited a) \<and> (ar_exited a \<longrightarrow> ie \<noteq> None \<or> ar_exit a)"

lemma flight_simps [simp]:
  "flight None rs = rs" "flight (Some b) rs = b # rs"
  by (simp_all add: flight_def)

lemma bufs_ok_put: "bufs_ok c rs ex \<Longrightarrow> bufs_ok None rs ex"
  by (cases c) (auto simp: bufs_ok_def split: if_splits)

lemma bufs_ok_next: "bufs_ok None (b # bs) ex \<Longrightarrow> bufs_ok (Some b) bs ex"
  by (auto simp: bufs_ok_def)

lemma bufs_ok_offset: "bufs_ok (Some b) rs ex \<Longrightarrow> k \<le> length (ab_buf b) \<Longrightarrow>
    bufs_ok (Some (b\<lparr>ab_offset := k\<rparr>)) rs ex"
  by (cases rs) (auto simp: bufs_ok_def)

lemma data_ok_put: "data_ok c rs err log pos ie \<Longrightarrow> bufs_ok c rs ex \<Longrightarrow> isEmpty c \<Longrightarrow>
    data_ok None rs err log pos ie"
  by (cases c) (auto simp: data_ok_def bufs_ok_def split: if_splits)

lemma data_ok_next: "data_ok None (b # bs) err log pos ie \<Longrightarrow> bufs_ok None (b # bs) ex \<Longrightarrow>
    data_ok (Some b) bs err log pos ie"
  by (auto simp: data_ok_def bufs_ok_def)

lemma ar_inv_putCur:
  assumes "ar_inv a log pos ie ok" "isEmpty (ar_cur a)"
  shows "ar_inv (putCur a) log pos ie ok \<and> ar_cur (putCur a) = None"
proof (cases "ar_cur a")
  case None
  then show ?thesis using assms by (simp add: putCur_def)
next
  case (Some b)
  have i: "bufs_ok (ar_cur a) (ar_ready a) (ar_exited a)"
    "count_ok (ar_buffers a) (ar_lent a) (ar_token a) (ar_cur a) (ar_ready a) ok"
    "ok \<longrightarrow> data_ok (ar_cur a) (ar_ready a) (ar_err a) log pos ie"
    "ie \<noteq> None \<longrightarrow> ar_exited a" "ar_exited a \<longrightarrow> ie \<noteq> None \<or> ar_exit a"
    using assms(1) by (simp_all add: ar_inv_def)
  have "count_ok (ar_buffers a) (ar_lent a - 1) (ar_token a + 1) None (ar_ready a) ok"
    using i(2) Some by (auto simp: count_ok_def)
  then show ?thesis
    using i bufs_ok_put[OF i(1)] data_ok_put[OF _ i(1) assms(2)] Some
    by (simp add: ar_inv_def putCur_def)
qed

lemma ar_inv_fill:
  assumes "ar_inv a log pos ie ok"
  shows "case fill a of
      Filled a' \<Rightarrow> ar_inv a' log pos ie ok \<and> ar_cur a' \<noteq> None
    | FillErr e a' \<Rightarrow> ar_inv a' log pos ie ok \<and> ar_cur a' = None \<and> ar_ready a' = []
        \<and> ar_exited a' \<and> (e = ErrStreamAbandoned \<or> ar_err a' = Some e)
    | Blocked a' \<Rightarrow> ar_inv a' log pos ie ok"
proof (cases "isEmpty (ar_cur a)")
  case False
  then show ?thesis using assms by (cases "ar_cur a") (auto simp: fill_def)
next
  case True
  let ?a = "putCur a"
  have p: "ar_inv ?a log pos ie ok" "ar_cur ?a = None"
    using ar_inv_putCur[OF assms True] by auto
  show ?thesis
  proof (cases "ar_ready ?a")
    case Nil
    then show ?thesis using p True by (simp add: fill_def Let_def split: option.split)
  next
    case (Cons b bs)
    have i: "bufs_ok None (b # bs) (ar_exited ?a)"
      "count_ok (ar_buffers ?a) (ar_lent ?a) (ar_token ?a) None (b # bs) ok"
      "ok \<longrightarrow> data_ok None (b # bs) (ar_err ?a) log pos ie"
      "ie \<noteq> None \<longrightarrow> ar_exited ?a" "ar_exited ?a \<longrightarrow> ie \<noteq> None \<or> ar_exit ?a"
      using p Cons by (simp_all add: ar_inv_def)
    have "count_ok (ar_buffers ?a) (ar_lent ?a) (ar_token ?a) (Some b) bs ok"
      using i(2) by (auto simp: count_ok_def)
    then show ?thesis
      using i bufs_ok_next[OF i(1)] data_ok_next[OF _ i(1)] True Cons
      by (simp add: ar_inv_def fill_def Let_def)
  qed
qed

text \<open>Serving \<open>k\<close> bytes of the current buffer and recording its error.\<close>

lemma ar_inv_serve:
  assumes inv: "ar_inv a log pos ie ok" and cur: "ar_cur a = Some b"
    and k: "k \<le> length (ab_rest b)"
    and err: "err = None \<or> (err = ab_err b \<and> k = length (ab_rest b)) \<or> err = ar_err a"
  shows "ar_inv (a\<lparr>ar_cur := Some (increment k b), ar_err := err\<rparr>) log (pos + k) ie ok
    \<and> (ok \<longrightarrow> take k (ab_rest b) = take k (drop pos log))"
proof -
  have i: "bufs_ok (Some b) (ar_ready a) (ar_exited a)"
    "count_ok (ar_buffers a) (ar_lent a) (ar_token a) (Some b) (ar_ready a) ok"
    "ok \<longrightarrow> data_ok (Some b) (ar_ready a) (ar_err a) log pos ie"
    "ie \<noteq> None \<longrightarrow> ar_exited a" "ar_exited a \<longrightarrow> ie \<noteq> None \<or> ar_exit a"
    using inv cur by (simp_all add: ar_inv_def)
  have off: "ab_offset b + k \<le> length (ab_buf b)"
    using i(1) k unfolding bufs_ok_def ab_rest_def by simp linarith
  have 1: "bufs_ok (Some (increment k b)) (ar_ready a) (ar_exited a)"
    using bufs_ok_offset[OF i(1) off] by (simp add: increment_def)
  have 2: "count_ok (ar_buffers a) (ar_lent a) (ar_token a) (Some (increment k b)) (ar_ready a) ok"
    using i(2) by (auto simp: count_ok_def)
  have 3: "data_ok (Some (increment k b)) (ar_ready a) err log (pos + k) ie" if ok
  proof -
    obtain pre where pre: "log = pre @ ab_buf b @ concat (map ab_buf (ar_ready a))"
      "pos = length pre + ab_offset b" using i(3) \<open>ok\<close> by (auto simp: data_ok_def)
    have r: "ar_ready a = []" if "ab_err b \<noteq> None" using i(1) that
      by (cases "ar_ready a") (auto simp: bufs_ok_def)
    have l: "ab_err (last (b # ar_ready a)) = ie" using i(3) \<open>ok\<close> by (simp add: data_ok_def)
    have "err = ie \<and> pos + k = length log \<and> ar_ready a = []" if "err \<noteq> None"
    proof -
      consider "err = ab_err b" "k = length (ab_rest b)" | "err = ar_err a"
        using err \<open>err \<noteq> None\<close> by auto
      then show ?thesis
      proof cases
        case 1
        then have "ar_ready a = []" using r that by simp
        then show ?thesis using 1 l pre off by (simp add: ab_rest_def)
      next
        case 2
        then have "err = ie \<and> pos = length log \<and> ar_ready a = []"
          using i(3) \<open>ok\<close> that by (simp add: data_ok_def)
        then show ?thesis using pre off by auto
      qed
    qed
    then show ?thesis using pre l by (auto simp: data_ok_def increment_def)
  qed
  have 4: "take k (ab_rest b) = take k (drop pos log)" if ok
    using i(3) that off by (auto simp: data_ok_def ab_rest_def)
  show ?thesis using 1 2 3 4 i(4,5) by (simp add: ar_inv_def)
qed

lemma take_min_length: "take (min (length xs) n) xs = take n xs"
  by (simp add: min_def)

lemma ar_inv_Read:
  assumes inv: "ar_inv a log pos ie ok" and R: "Read len a = (Got d e, a')"
  shows "ar_inv a' log (pos + length d) ie ok \<and> length d \<le> len
    \<and> (ok \<longrightarrow> d = take (length d) (drop pos log))
    \<and> (ok \<longrightarrow> e \<noteq> None \<longrightarrow> pos + length d = length log \<and> ar_exited a'
         \<and> (e = ie \<or> e = Some ErrStreamAbandoned))"
proof (cases "fill a")
  case (Blocked a1)
  then show ?thesis using R by (simp add: Read_def)
next
  case (FillErr x a1)
  have f: "ar_inv a1 log pos ie ok" "ar_cur a1 = None" "ar_ready a1 = []" "ar_exited a1"
    "x = ErrStreamAbandoned \<or> ar_err a1 = Some x"
    using ar_inv_fill[OF inv] FillErr by auto
  have r: "d = []" "e = Some x" "a' = a1" using R FillErr by (auto simp: Read_def)
  have "ok \<longrightarrow> data_ok None [] (ar_err a1) log pos ie" using f by (simp add: ar_inv_def)
  then show ?thesis using f r by (auto simp: data_ok_def)
next
  case (Filled a1)
  then obtain b where f: "ar_inv a1 log pos ie ok" "ar_cur a1 = Some b"
    using ar_inv_fill[OF inv] by auto
  define k where "k = length (take len (ab_rest b))"
  have k: "k \<le> length (ab_rest b)" "k \<le> len" by (auto simp: k_def)
  define dn where "dn = isEmpty (Some (increment k b))"
  have d: "d = take k (ab_rest b)" and ld: "length d = k"
    and e: "e = (if dn then ab_err b else None)"
    and a': "a' = a1\<lparr>ar_cur := Some (increment k b),
                     ar_err := (if dn then ab_err b else ar_err a1)\<rparr>"
    using R Filled f(2) unfolding k_def dn_def
    by (auto simp: Read_def Let_def increment_def take_min_length split: if_splits)
  have off: "ab_offset b \<le> length (ab_buf b)" using f by (simp add: ar_inv_def bufs_ok_def)
  have full: "k = length (ab_rest b)" if dn
    using that k off by (auto simp: dn_def ab_rest_def increment_def)
  have s: "ar_inv a' log (pos + k) ie ok \<and> (ok \<longrightarrow> take k (ab_rest b) = take k (drop pos log))"
    unfolding a' by (rule ar_inv_serve[OF f k(1)]) (use full in auto)
  have "pos + length d = length log \<and> ar_exited a' \<and> e = ie" if ok "e \<noteq> None"
  proof -
    have dd: dn "e = ab_err b" using that e by (auto split: if_splits)
    have i: "bufs_ok (Some b) (ar_ready a1) (ar_exited a1)"
      "data_ok (Some b) (ar_ready a1) (ar_err a1) log pos ie"
      using f that by (simp_all add: ar_inv_def)
    have r: "ar_ready a1 = []" using i(1) dd that
      by (cases "ar_ready a1") (auto simp: bufs_ok_def)
    then show ?thesis using i dd that full[OF dd(1)] ld a'
      by (auto simp: bufs_ok_def data_ok_def ab_rest_def)
  qed
  then show ?thesis using s d ld k(2) by metis
qed

lemma ar_inv_Read_wait: "ar_inv a log pos ie ok \<Longrightarrow> Read len a = (Wait, a') \<Longrightarrow>
    ar_inv a' log pos ie ok"
  using ar_inv_fill[of a log pos ie ok]
  by (auto simp: Read_def Let_def split: fillres.splits option.splits if_splits)

lemma ar_inv_WriteTo:
  assumes inv: "ar_inv a log pos ie ok" and wr: "writer_ok wr"
    and W: "WriteTo_round wr a = (res, a')"
    and res: "res = WMore d \<or> res = WReturn d e"
  shows "ar_inv a' log (pos + length d) ie ok \<and> (ok \<longrightarrow> d = take (length d) (drop pos log))"
proof (cases "fill a")
  case (Blocked a1)
  then show ?thesis using W res by (auto simp: WriteTo_round_def)
next
  case (FillErr x a1)
  then show ?thesis using ar_inv_fill[OF inv] W res by (auto simp: WriteTo_round_def)
next
  case (Filled a1)
  then obtain b where f: "ar_inv a1 log pos ie ok" "ar_cur a1 = Some b"
    using ar_inv_fill[OF inv] by auto
  obtain k we where k: "wr (ab_rest b) = (k, we)" by (cases "wr (ab_rest b)") auto
  have kl: "k \<le> length (ab_rest b)" "we = None \<longrightarrow> k = length (ab_rest b)"
    using wr k unfolding writer_ok_def by (metis fst_conv snd_conv)+
  define err where "err = (if we = None \<and> ab_err b \<noteq> None then ab_err b else ar_err a1)"
  have d: "d = take k (ab_rest b)" and a': "a' = a1\<lparr>ar_cur := Some (increment k b), ar_err := err\<rparr>"
    using W Filled f(2) k res unfolding err_def
    by (auto simp: WriteTo_round_def Let_def increment_def split: option.splits)
  have "err = None \<or> (err = ab_err b \<and> k = length (ab_rest b)) \<or> err = ar_err a1"
    using kl(2) by (auto simp: err_def)
  from ar_inv_serve[OF f kl(1) this] have
    "ar_inv a' log (pos + k) ie ok" "ok \<longrightarrow> d = take k (drop pos log)" using d a' by auto
  moreover have "length d = k" using d kl(1) by simp
  ultimately show ?thesis by metis
qed

lemma ar_inv_produce:
  assumes inv: "ar_inv a log pos ie ok" and P: "produce fuel rd a = Some a'"
  shows "ar_inv a' (log @ ab_buf (last (ar_ready a'))) pos (ab_err (last (ar_ready a'))) ok"
proof -
  have g: "\<not> ar_exited a" "0 < ar_token a" using P by (auto simp: produce_def split: if_splits)
  obtain d e r' sz where a': "a' = a\<lparr>ar_token := ar_token a - 1, ar_lent := ar_lent a + 1,
      ar_size := sz, ar_in := r', ar_ready := ar_ready a @ [\<lparr>ab_buf = d, ab_err = e, ab_offset = 0\<rparr>],
      ar_exited := (e \<noteq> None)\<rparr>"
    using P g by (auto simp: produce_def Let_def split: option.splits)
  have i: "bufs_ok (ar_cur a) (ar_ready a) False"
    "count_ok (ar_buffers a) (ar_lent a) (ar_token a) (ar_cur a) (ar_ready a) ok"
    "ok \<longrightarrow> data_ok (ar_cur a) (ar_ready a) (ar_err a) log pos ie" "ie = None"
    using inv g by (auto simp: ar_inv_def)
  let ?b = "\<lparr>ab_buf = d, ab_err = e, ab_offset = 0\<rparr>"
  have fl: "flight c (rs @ [x]) = flight c rs @ [x]" for c and rs :: "'b abuf list" and x
    by (cases c) auto
  have noerr: "\<forall>b\<in>set (flight (ar_cur a) (ar_ready a)). ab_err b = None"
    using i(1) by (cases "flight (ar_cur a) (ar_ready a)" rule: rev_cases) (auto simp: bufs_ok_def)
  have 1: "bufs_ok (ar_cur a) (ar_ready a @ [?b]) (e \<noteq> None)"
    using i(1) noerr by (auto simp: bufs_ok_def fl)
  have 2: "count_ok (ar_buffers a) (ar_lent a + 1) (ar_token a - 1) (ar_cur a)
      (ar_ready a @ [?b]) ok" using i(2) g by (auto simp: count_ok_def)
  have 3: "data_ok (ar_cur a) (ar_ready a @ [?b]) (ar_err a) (log @ d) pos e"
    if ok
    using i(3,4) that by (auto simp: data_ok_def fl)
  show ?thesis using 1 2 3 by (simp add: ar_inv_def a')
qed

text \<open>A successful forward skip: some buffers are used up whole, the next one becomes current.\<close>

declare skip_loop.simps [simp del]

definition skip_end :: "nat \<Rightarrow> nat \<Rightarrow> 'b abuf \<Rightarrow> ('r, 'b) areader \<Rightarrow> 'b abuf list \<Rightarrow>
    ('r, 'b) areader \<Rightarrow> 'b abuf list \<Rightarrow> 'b abuf \<Rightarrow> 'b abuf list \<Rightarrow> nat \<Rightarrow> bool" where
  "skip_end s k b a rs a' gone b0 rs' off \<longleftrightarrow>
     b # rs = gone @ b0 # rs' \<and> (\<forall>x\<in>set gone. ab_err x = None)
     \<and> off \<le> length (ab_buf b0) \<and> s + ab_offset b = length (concat (map ab_buf gone)) + off
     \<and> a' = a\<lparr>ar_cur := Some (b0\<lparr>ab_offset := off\<rparr>), ar_ready := rs',
            ar_token := ar_token a + k + length gone, ar_lent := ar_lent a - length gone,
            ar_err := (if off = length (ab_buf b0) \<and> ab_err b0 \<noteq> None
                       then ab_err b0 else ar_err a)\<rparr>"

lemma skip_end_Cons:
  assumes "skip_end (s - length (ab_rest b)) (Suc k) b2
      (a\<lparr>ar_ready := b2 # rs, ar_cur := None, ar_lent := ar_lent a - 1\<rparr>) rs a' gone b0 rs' off"
    and "ab_offset b \<le> length (ab_buf b)" "ab_offset b2 = 0" "ab_err b = None"
    and "length (ab_rest b) \<le> s"
  shows "skip_end s k b a (b2 # rs) a' (b # gone) b0 rs' off"
proof -
  have "length (ab_rest b) + ab_offset b = length (ab_buf b)"
    using assms(2) by (simp add: ab_rest_def)
  then show ?thesis using assms(1,3-) unfolding skip_end_def by auto
qed

lemma skip_loop_done:
  "s \<le> length (ab_rest b) \<Longrightarrow> skip_loop s k b a rs =
     (True, let a1 = a\<lparr>ar_cur := Some (increment s b), ar_ready := rs,
                      ar_token := ar_token a + k\<rparr>
            in if isEmpty (Some (increment s b)) \<and> ab_err b \<noteq> None
               then a1\<lparr>ar_err := ab_err b\<rparr> else a1)"
  by (subst skip_loop.simps, cases "length (ab_rest b) = s") (auto simp add: Let_def increment_def)

lemma skip_loop_more:
  "length (ab_rest b) < s \<Longrightarrow> skip_loop s k b a rs =
     (let a1 = a\<lparr>ar_cur := Some (increment (length (ab_rest b)) b), ar_ready := rs\<rparr>
      in if ab_err b \<noteq> None then (False, a1\<lparr>ar_err := ab_err b\<rparr>)
         else case rs of
           [] \<Rightarrow> (False, a1\<lparr>ar_cur := None, ar_lent := ar_lent a1 - 1\<rparr>)
         | b2 # rs2 \<Rightarrow> skip_loop (s - length (ab_rest b)) (Suc k) b2
             (a\<lparr>ar_ready := rs, ar_cur := None, ar_lent := ar_lent a - 1\<rparr>) rs2)"
  by (subst skip_loop.simps) (simp add: Let_def increment_def split: list.split)

lemma skip_loop_true:
  "skip_loop s k b a rs = (True, a') \<Longrightarrow> ab_offset b \<le> length (ab_buf b) \<Longrightarrow>
    \<forall>x\<in>set rs. ab_offset x = 0 \<Longrightarrow> \<exists>gone b0 rs' off. skip_end s k b a rs a' gone b0 rs' off"
proof (induction rs arbitrary: s k b a)
  case Nil
  show ?case
  proof (cases "s \<le> length (ab_rest b)")
    case True
    then have "ab_offset b + s \<le> length (ab_buf b)" using Nil.prems(2) by (simp add: ab_rest_def)
    then have "skip_end s k b a [] a' [] b [] (ab_offset b + s)"
      using Nil.prems(1) skip_loop_done[OF True, of k a "[]"]
      by (auto simp: skip_end_def increment_def Let_def split: if_splits)
    then show ?thesis by blast
  next
    case False
    then show ?thesis using Nil.prems(1) skip_loop_more[of b s k a "[]"]
      by (simp add: Let_def split: if_splits)
  qed
next
  case (Cons b2 rs2)
  show ?case
  proof (cases "s \<le> length (ab_rest b)")
    case True
    then have "ab_offset b + s \<le> length (ab_buf b)" using Cons.prems(2) by (simp add: ab_rest_def)
    then have "skip_end s k b a (b2 # rs2) a' [] b (b2 # rs2) (ab_offset b + s)"
      using Cons.prems(1) skip_loop_done[OF True, of k a "b2 # rs2"]
      by (auto simp: skip_end_def increment_def Let_def split: if_splits)
    then show ?thesis by blast
  next
    case False
    let ?a = "a\<lparr>ar_ready := b2 # rs2, ar_cur := None, ar_lent := ar_lent a - 1\<rparr>"
    have L: "skip_loop (s - length (ab_rest b)) (Suc k) b2 ?a rs2 = (True, a')"
      and ne: "ab_err b = None"
      using Cons.prems(1) skip_loop_more[of b s k a "b2 # rs2"] False
      by (simp_all add: Let_def split: if_splits)
    obtain gone b0 rs' off where
      "skip_end (s - length (ab_rest b)) (Suc k) b2 ?a rs2 a' gone b0 rs' off"
      using Cons.IH[OF L] Cons.prems(3) by auto
    then have "skip_end s k b a (b2 # rs2) a' (b # gone) b0 rs' off"
      by (rule skip_end_Cons) (use Cons.prems False ne in auto)
    then show ?thesis by blast
  qed
qed

lemma skip_loop_false:
  "skip_loop s k b a rs = (False, a') \<Longrightarrow> count_ok n (ar_lent a) (ar_token a + k) (Some b) rs ok \<Longrightarrow>
     bufs_ok (Some b) rs ex \<Longrightarrow>
     count_ok n (ar_lent a') (ar_token a') (ar_cur a') (ar_ready a') False
     \<and> bufs_ok (ar_cur a') (ar_ready a') ex
     \<and> ar_buffers a' = ar_buffers a \<and> ar_exited a' = ar_exited a \<and> ar_exit a' = ar_exit a"
proof (induction rs arbitrary: s k b a)
  case Nil
  then have l: "length (ab_rest b) < s"
    using skip_loop_done[of s b k a "[]"] by (cases "s \<le> length (ab_rest b)") auto
  show ?case using Nil skip_loop_more[OF l, of k a "[]"]
    by (auto simp: Let_def count_ok_def bufs_ok_def increment_def ab_rest_def split: if_splits)
next
  case (Cons b2 rs2)
  then have l: "length (ab_rest b) < s"
    using skip_loop_done[of s b k a "b2 # rs2"] by (cases "s \<le> length (ab_rest b)") auto
  show ?case
  proof (cases "ab_err b = None")
    case False
    then show ?thesis using Cons.prems(3) by (auto simp: bufs_ok_def)
  next
    case True
    let ?a = "a\<lparr>ar_ready := b2 # rs2, ar_cur := None, ar_lent := ar_lent a - 1\<rparr>"
    have L: "skip_loop (s - length (ab_rest b)) (Suc k) b2 ?a rs2 = (False, a')"
      using Cons.prems(1) skip_loop_more[OF l, of k a "b2 # rs2"] True by (simp add: Let_def)
    have "count_ok n (ar_lent ?a) (ar_token ?a + Suc k) (Some b2) rs2 ok"
      using Cons.prems(2) by (auto simp: count_ok_def)
    moreover have "bufs_ok (Some b2) rs2 ex"
      using bufs_ok_next[OF bufs_ok_put[OF Cons.prems(3)]] .
    ultimately show ?thesis using Cons.IH[OF L] by simp
  qed
qed

lemma data_ok_skip:
  assumes e: "skip_end s k b a rs a' gone b0 rs' off"
    and d: "data_ok (Some b) rs (ar_err a) log pos ie" and bo: "bufs_ok (Some b) rs ex"
  shows "data_ok (ar_cur a') (ar_ready a') (ar_err a') log (pos + s) ie
    \<and> bufs_ok (ar_cur a') (ar_ready a') ex"
proof -
  have fl: "b # rs = gone @ b0 # rs'" using e by (simp add: skip_end_def)
  obtain pre where pre: "log = pre @ concat (map ab_buf (b # rs))" "pos = length pre + ab_offset b"
    using d by (auto simp: data_ok_def)
  have log: "log = (pre @ concat (map ab_buf gone)) @ ab_buf b0 @ concat (map ab_buf rs')"
    using pre(1) fl by simp
  have pos: "pos + s = length (pre @ concat (map ab_buf gone)) + off"
    using e pre(2) by (simp add: skip_end_def)
  have ie: "ab_err (last (b0 # rs')) = ie" using d fl by (simp add: data_ok_def)
  have rest: "rs' = []" if "ab_err b0 \<noteq> None"
  proof (rule ccontr)
    assume "rs' \<noteq> []"
    then have "b0 \<in> set (butlast (b # rs))" using fl by (simp add: butlast_append)
    then show False using bo \<open>ab_err b0 \<noteq> None\<close> by (auto simp: bufs_ok_def)
  qed
  have "ar_err a = None \<or> (gone = [] \<and> s = 0)"
  proof (cases "ar_err a = None")
    case False
    then have "pos = length log" "rs = []" using d by (auto simp: data_ok_def)
    then have "pos = length log" "gone = []" "rs' = []" using fl by (auto simp: Cons_eq_append_conv)
    then show ?thesis using log pos e by (simp add: skip_end_def)
  qed simp
  then have er: "ar_err a' \<noteq> None \<longrightarrow> ar_err a' = ie \<and> pos + s = length log \<and> rs' = []"
    using e rest ie log pos d fl
    by (auto simp: skip_end_def data_ok_def split: if_splits)
  have "ar_cur a' = Some (b0\<lparr>ab_offset := off\<rparr>)" "ar_ready a' = rs'"
    using e by (simp_all add: skip_end_def)
  moreover have "ab_err (last (b0\<lparr>ab_offset := off\<rparr> # rs')) = ie" using ie by auto
  ultimately have D: "data_ok (ar_cur a') (ar_ready a') (ar_err a') log (pos + s) ie"
    using er log pos unfolding data_ok_def by auto
  have "\<forall>x\<in>set rs'. ab_offset x = 0"
    using bo fl by (cases gone) (auto simp: bufs_ok_def)
  moreover have "\<forall>x\<in>set (butlast (b0 # rs')). ab_err x = None"
    using bo fl by (auto simp: bufs_ok_def butlast_append)
  moreover have "ab_err (last (b0 # rs')) \<noteq> None \<longrightarrow> ex" using bo fl by (auto simp: bufs_ok_def)
  ultimately have "bufs_ok (Some (b0\<lparr>ab_offset := off\<rparr>)) rs' ex"
    using e by (cases rs') (auto simp: bufs_ok_def skip_end_def)
  then show ?thesis using D e by (simp add: skip_end_def)
qed

lemma count_ok_skip:
  assumes "skip_end s k b a rs a' gone b0 rs' off"
    "count_ok n (ar_lent a) (ar_token a + k) (Some b) rs ok"
  shows "count_ok n (ar_lent a') (ar_token a') (ar_cur a') (ar_ready a') ok"
proof -
  have "length (b # rs) = length gone + Suc (length rs')"
    using assms(1) by (simp add: skip_end_def)
  moreover have "ar_lent a' = ar_lent a - length gone" "ar_token a' = ar_token a + k + length gone"
    "ar_cur a' = Some (b0\<lparr>ab_offset := off\<rparr>)" "ar_ready a' = rs'"
    using assms(1) by (simp_all add: skip_end_def)
  ultimately show ?thesis using assms(2) unfolding count_ok_def by auto
qed

lemma skip_loop_keeps:
  assumes L: "skip_loop s k b a rs = (True, a')"
    and c: "count_ok n (ar_lent a) (ar_token a + k) (Some b) rs ok"
    and bo: "bufs_ok (Some b) rs (ar_exited a)"
    and d: "ok \<longrightarrow> data_ok (Some b) rs (ar_err a) log pos ie"
  shows "count_ok n (ar_lent a') (ar_token a') (ar_cur a') (ar_ready a') ok
    \<and> bufs_ok (ar_cur a') (ar_ready a') (ar_exited a)
    \<and> (ok \<longrightarrow> data_ok (ar_cur a') (ar_ready a') (ar_err a') log (pos + s) ie)
    \<and> ar_buffers a' = ar_buffers a \<and> ar_exited a' = ar_exited a \<and> ar_exit a' = ar_exit a"
proof -
  obtain gone b0 rs' off where e: "skip_end s k b a rs a' gone b0 rs' off"
    using skip_loop_true[OF L] bo by (auto simp: bufs_ok_def)
  have rest: "ar_buffers a' = ar_buffers a \<and> ar_exited a' = ar_exited a \<and> ar_exit a' = ar_exit a"
    using e by (simp add: skip_end_def)
  have "bufs_ok (ar_cur a') (ar_ready a') (ar_exited a)"
  proof -
    have "data_ok (Some b) rs None (concat (map ab_buf (b # rs))) (ab_offset b)
        (ab_err (last (b # rs)))"
      by (auto simp: data_ok_def)
    moreover have "skip_end s k b (a\<lparr>ar_err := None\<rparr>) rs (a'\<lparr>ar_err :=
        (if off = length (ab_buf b0) \<and> ab_err b0 \<noteq> None then ab_err b0 else None)\<rparr>) gone b0 rs' off"
      using e by (simp add: skip_end_def)
    ultimately show ?thesis using data_ok_skip[OF _ _ bo] by fastforce
  qed
  then show ?thesis using rest count_ok_skip[OF e c] data_ok_skip[OF e _ bo] d by blast
qed

lemma ar_invI:
  "bufs_ok (ar_cur a) (ar_ready a) (ar_exited a) \<Longrightarrow>
   count_ok (ar_buffers a) (ar_lent a) (ar_token a) (ar_cur a) (ar_ready a) ok \<Longrightarrow>
   (ok \<Longrightarrow> data_ok (ar_cur a) (ar_ready a) (ar_err a) log pos ie) \<Longrightarrow>
   (ie \<noteq> None \<Longrightarrow> ar_exited a) \<Longrightarrow> (ar_exited a \<Longrightarrow> ie \<noteq> None \<or> ar_exit a) \<Longrightarrow>
   ar_inv a log pos ie ok"
  by (simp add: ar_inv_def)

lemma ar_inv_skip_loop:
  assumes L: "skip_loop s k b a rs = (r, a')"
    and c: "count_ok (ar_buffers a) (ar_lent a) (ar_token a + k) (Some b) rs ok"
    and bo: "bufs_ok (Some b) rs (ar_exited a)"
    and d: "ok \<longrightarrow> data_ok (Some b) rs (ar_err a) log pos ie"
    and ex: "ie \<noteq> None \<longrightarrow> ar_exited a" "ar_exited a \<longrightarrow> ie \<noteq> None \<or> ar_exit a"
  shows "if r then ar_inv a' log (pos + s) ie ok else ar_inv a' log pos ie False"
proof (cases r)
  case True
  then show ?thesis using skip_loop_keeps[OF _ c bo d] L ex by (auto intro!: ar_invI)
next
  case False
  then show ?thesis using skip_loop_false[OF _ c bo] L ex by (auto intro!: ar_invI)
qed

lemma ar_inv_weaken: "ar_inv a log pos ie ok \<Longrightarrow> ar_inv a log pos ie False"
  by (auto simp: ar_inv_def count_ok_def)

lemma ar_inv_skip_back:
  assumes inv: "ar_inv a log pos ie ok" and cur: "ar_cur a = Some b" and err: "ar_err a = None"
    and s: "s < 0" "0 \<le> int (ab_offset b) + s"
  shows "ar_inv (a\<lparr>ar_cur := Some (b\<lparr>ab_offset := nat (int (ab_offset b) + s)\<rparr>)\<rparr>)
           log (nat (int pos + s)) ie ok"
proof -
  have i: "bufs_ok (Some b) (ar_ready a) (ar_exited a)"
    "count_ok (ar_buffers a) (ar_lent a) (ar_token a) (Some b) (ar_ready a) ok"
    "ok \<longrightarrow> data_ok (Some b) (ar_ready a) None log pos ie"
    "ie \<noteq> None \<longrightarrow> ar_exited a" "ar_exited a \<longrightarrow> ie \<noteq> None \<or> ar_exit a"
    using inv cur err by (simp_all add: ar_inv_def)
  let ?k = "nat (int (ab_offset b) + s)"
  have "ab_offset b \<le> length (ab_buf b)" using i(1) by (simp add: bufs_ok_def)
  then have k: "?k \<le> length (ab_buf b)" using s by linarith
  have "data_ok (Some (b\<lparr>ab_offset := ?k\<rparr>)) (ar_ready a) None log (nat (int pos + s)) ie" if ok
    using i(3) that s by (auto simp: data_ok_def)
  then show ?thesis using i bufs_ok_offset[OF i(1) k] err
    by (intro ar_invI) (auto simp: count_ok_def)
qed

lemma ar_inv_SkipBytes:
  assumes inv: "ar_inv a log pos ie ok" and S: "SkipBytes s a = (r, a')"
  shows "if r then ar_inv a' log (nat (int pos + s)) ie ok else ar_inv a' log pos ie False"
proof (cases "ar_err a \<noteq> None")
  case True
  then show ?thesis using S ar_inv_weaken[OF inv] by (auto simp: SkipBytes_def)
next
  case False
  then have err: "ar_err a = None" by simp
  show ?thesis
  proof (cases "s < 0")
    case True
    then show ?thesis using S err ar_inv_weaken[OF inv] ar_inv_skip_back[OF inv _ err True]
      by (auto simp: SkipBytes_def split: option.splits if_splits)
  next
    case pos: False
    have pk: "nat (int pos + s) = pos + nat s" using pos by simp
    have i: "bufs_ok (ar_cur a) (ar_ready a) (ar_exited a)"
      "count_ok (ar_buffers a) (ar_lent a) (ar_token a) (ar_cur a) (ar_ready a) ok"
      "ok \<longrightarrow> data_ok (ar_cur a) (ar_ready a) (ar_err a) log pos ie"
      "ie \<noteq> None \<longrightarrow> ar_exited a" "ar_exited a \<longrightarrow> ie \<noteq> None \<or> ar_exit a"
      using inv by (simp_all add: ar_inv_def)
    consider (far) "s \<ge> int ((length (ar_ready a) + 1) * BufferSize)"
      | (cur) b where "s < int ((length (ar_ready a) + 1) * BufferSize)" "ar_cur a = Some b"
          "\<not> isEmpty (ar_cur a)"
      | (next_) "s < int ((length (ar_ready a) + 1) * BufferSize)" "isEmpty (ar_cur a)"
      by (cases "ar_cur a") force+
    then show ?thesis
    proof cases
      case far
      then show ?thesis using S err pos ar_inv_weaken[OF inv] by (auto simp: SkipBytes_def)
    next
      case cur
      then have "skip_loop (nat s) 0 b a (ar_ready a) = (r, a')"
        using S err pos by (simp add: SkipBytes_def)
      from ar_inv_skip_loop[OF this] show ?thesis using i cur(2) pk by auto
    next
      case next_
      define a1 where "a1 = (if ar_cur a = None then a
        else a\<lparr>ar_lent := ar_lent a - 1, ar_cur := None\<rparr>)"
      define k where "k = held (ar_cur a)"
      have f: "ar_buffers a1 = ar_buffers a" "ar_ready a1 = ar_ready a" "ar_token a1 = ar_token a"
        "ar_exited a1 = ar_exited a" "ar_exit a1 = ar_exit a" "ar_err a1 = ar_err a"
        "ar_cur a1 = None" "ar_lent a1 = ar_lent a - held (ar_cur a)"
        by (auto simp: a1_def)
      have S': "(case ar_ready a of [] \<Rightarrow> (False, a1) | b # bs \<Rightarrow> skip_loop (nat s) k b a1 bs) = (r, a')"
        using S err pos next_ unfolding a1_def k_def
        by (cases "ar_cur a"; cases "ar_ready a") (auto simp: SkipBytes_def)
      have c: "count_ok (ar_buffers a) (ar_lent a1) (ar_token a + k) None (ar_ready a) ok"
        using i(2) by (cases "ar_cur a") (auto simp: count_ok_def k_def f)
      show ?thesis
      proof (cases "ar_ready a")
        case Nil
        have "ar_inv a1 log pos ie False"
          by (rule ar_invI) (use bufs_ok_put[OF i(1)] c i(4,5) f in \<open>auto simp: count_ok_def\<close>)
        then show ?thesis using S' Nil by simp
      next
        case (Cons b bs)
        have L: "skip_loop (nat s) k b a1 bs = (r, a')" using S' Cons by simp
        have b1: "bufs_ok None (b # bs) (ar_exited a)" using bufs_ok_put[OF i(1)] Cons by simp
        have d1: "ok \<longrightarrow> data_ok (Some b) bs (ar_err a) log pos ie"
          using data_ok_next[OF _ b1] data_ok_put[OF _ i(1) next_(2)] i(3) Cons by simp
        have "count_ok (ar_buffers a) (ar_lent a1) (ar_token a + k) (Some b) bs ok"
          using c Cons by (auto simp: count_ok_def)
        then show ?thesis
          using ar_inv_skip_loop[OF L] bufs_ok_next[OF b1] d1 i(4,5) f pk by auto
      qed
    qed
  qed
qed

lemma ar_inv_drain:
  assumes "ar_inv a log pos ie ok" "ar_exit a" "drain a = Some a'"
  shows "ar_inv a' log pos ie False \<and> ar_lent a' = 0"
proof -
  have i: "bufs_ok (ar_cur a) (ar_ready a) (ar_exited a)"
    "count_ok (ar_buffers a) (ar_lent a) (ar_token a) (ar_cur a) (ar_ready a) ok"
    using assms(1) by (simp_all add: ar_inv_def)
  have f: "ar_exited a" "ar_lent a' = 0" "ar_cur a' = None" "ar_ready a' = []"
    "ar_exited a' = ar_exited a" "ar_exit a' = ar_exit a" "ar_buffers a' = ar_buffers a"
    "ar_token a' = ar_token a"
    using assms(3) i(2) by (cases "ar_cur a"; auto simp: drain_def count_ok_def Let_def split: if_splits)+
  have "bufs_ok None [] (ar_exited a)" by (simp add: bufs_ok_def)
  moreover have "count_ok (ar_buffers a) 0 (ar_token a) None [] False"
    using i(2) by (auto simp: count_ok_def)
  ultimately show ?thesis using f assms(1,2) by (auto simp: ar_inv_def)
qed

lemma ar_run_inv: "ar_run rd a log pos ie ok \<Longrightarrow> ar_inv a log pos ie ok"
proof (induction rule: ar_run.induct)
  case (start r n a)
  have a: "ar_cur a = None" "ar_ready a = []" "ar_exited a = False" "ar_lent a = 0"
    "ar_token a = ar_buffers a" "ar_err a = None"
    using start by (cases "n \<le> 0"; auto simp: NewReader_def)+
  show ?case
    by (rule ar_invI) (simp_all add: a bufs_ok_def count_ok_def data_ok_def)
next
  case (produced a log pos ie ok fuel a')
  show ?case by (rule ar_inv_produce[OF produced.IH produced.hyps(2)])
next
  case (read a log pos ie ok len d e a')
  show ?case using ar_inv_Read[OF read.IH read.hyps(2)] by blast
next
  case (waits a log pos ie ok len a')
  show ?case by (rule ar_inv_Read_wait[OF waits.IH waits.hyps(2)])
next
  case (wrote a log pos ie ok wr d a')
  show ?case using ar_inv_WriteTo[OF wrote.IH wrote.hyps(2,3)] by blast
next
  case (wrote_end a log pos ie ok wr d e a')
  show ?case using ar_inv_WriteTo[OF wrote_end.IH wrote_end.hyps(2,3)] by blast
next
  case (drained a log pos ie ok a')
  show ?case using ar_inv_drain[OF drained.IH drained.hyps(2,3)] by blast
next
  case (ended a log pos ie ok a')
  then show ?case by (auto simp: produce_exit_def ar_inv_def bufs_ok_def split: if_splits)
next
  case (stopped a log pos ie ok)
  then show ?case by (auto simp: StopBuffering_def ar_inv_def)
next
  case (not_skipped a log pos ie ok s a')
  have "ar_inv a' log pos ie False" using ar_inv_SkipBytes[OF not_skipped.IH not_skipped.hyps(2)] by simp
  then show ?case by (auto simp: StopBuffering_def ar_inv_def)
next
  case (skipped a log pos ie ok s a')
  show ?case using ar_inv_SkipBytes[OF skipped.IH skipped.hyps(2)] by simp
next
  case (closed a log pos ie ok)
  then show ?case by (auto simp: close_input_def ar_inv_def)
qed

section \<open>Properties\<close>

text \<open>C10: the asynchronous reader is transparent. In every run that has not been abandoned, however
  the goroutine and the consumer interleave and whatever was read, written or skipped before, a
  \<open>Read\<close> returns the bytes that follow the position in what the input delivered, at most as many as
  asked for; it reports an error only with the last byte or after it, once the goroutine has
  ended, and the error is the input's own or says that the stream was abandoned.\<close>

theorem async_read_transparent:
  assumes "ar_run rd a log pos ie True" "Read len a = (Got d e, a')"
  shows "length d \<le> len \<and> d = take (length d) (drop pos log)
    \<and> ar_run rd a' log (pos + length d) ie True
    \<and> (e \<noteq> None \<longrightarrow> pos + length d = length log \<and> ar_exited a'
         \<and> (e = ie \<or> e = Some ErrStreamAbandoned))"
  using ar_inv_Read[OF ar_run_inv[OF assms(1)] assms(2)] ar_run.read[OF assms] by simp

text \<open>The input of the witness: three bytes, then end of file.\<close>

definition example_rd :: "(nat list, nat) reader" where
  "example_rd r n = (take n r, if length r \<le> n then Some EOF else None, drop n r)"

definition example_ar :: "(nat list, nat) areader" where
  "example_ar = \<lparr> ar_in = [], ar_ready = [\<lparr>ab_buf = [7, 8, 9], ab_err = Some EOF, ab_offset = 0\<rparr>],
     ar_token = 1, ar_exit = False, ar_exited = True, ar_buffers = 2, ar_err = None, ar_cur = None,
     ar_size = 2 * softStartInitial, ar_closed = False, ar_lent = 1, ar_inClosed = 0 \<rparr>"

lemma example_ar_run: "ar_run example_rd example_ar [7, 8, 9] 0 (Some EOF) True"
proof -
  let ?a0 = "\<lparr> ar_in = [7, 8, 9], ar_ready = [], ar_token = 2, ar_exit = False, ar_exited = False,
    ar_buffers = 2, ar_err = None, ar_cur = None, ar_size = softStartInitial, ar_closed = False,
    ar_lent = 0, ar_inClosed = 0 \<rparr> :: (nat list, nat) areader"
  have "ar_run example_rd ?a0 [] 0 None True"
    by (rule ar_run.start[of "[7, 8, 9]" 2]) (simp add: NewReader_def)
  moreover have "produce (Suc 0) example_rd ?a0 = Some example_ar"
  proof -
    have "softStartInitial < BufferSize" "3 \<le> softStartInitial"
      by (simp_all add: softStartInitial_def BufferSize_def)
    moreover from this have "example_rd [7, 8, 9] softStartInitial = ([7, 8, 9], Some EOF, [])"
      by (simp add: example_rd_def)
    ultimately show ?thesis by (simp add: produce_def example_ar_def Let_def)
  qed
  ultimately have "ar_run example_rd example_ar ([] @ ab_buf (last (ar_ready example_ar))) 0
      (ab_err (last (ar_ready example_ar))) True"
    by (rule ar_run.produced)
  then show ?thesis by (simp add: example_ar_def)
qed

theorem async_read_transparent_witness:
  "\<exists>a'. Read 2 example_ar = (Got [7, 8] None, a')
     \<and> ar_run example_rd a' [7, 8, 9] 2 (Some EOF) True"
proof -
  obtain a' where R: "Read 2 example_ar = (Got [7, 8] None, a')"
    by (simp add: example_ar_def Read_def fill_def putCur_def ab_rest_def increment_def)
  show ?thesis using async_read_transparent[OF example_ar_run R] R by (simp add: numeral_2_eq_2)
qed

text \<open>No buffer of the pool is lost and memory stays bounded. At every moment of every run the
  buffers taken from the pool are exactly the ones on \<open>ready\<close> plus the current one, together with
  the free tokens never more than the configured number, and after \<open>Abandon\<close> has drained the
  channel none is outstanding.\<close>

theorem async_buffers_accounted:
  assumes "ar_run rd a log pos ie ok"
  shows "ar_lent a = length (ar_ready a) + (if ar_cur a = None then 0 else 1)
    \<and> ar_token a + ar_lent a \<le> ar_buffers a \<and> (ok \<longrightarrow> ar_token a + ar_lent a = ar_buffers a)
    \<and> (\<forall>a'. ar_exit a \<and> drain a = Some a' \<longrightarrow>
         ar_lent a' = 0 \<and> ar_run rd a' log pos ie False)"
proof -
  have "count_ok (ar_buffers a) (ar_lent a) (ar_token a) (ar_cur a) (ar_ready a) ok"
    using ar_run_inv[OF assms] by (simp add: ar_inv_def)
  then show ?thesis
    using ar_inv_drain[OF ar_run_inv[OF assms]] ar_run.drained[OF assms]
    by (cases "ar_cur a") (auto simp: count_ok_def)
qed

theorem async_buffers_accounted_witness:
  "ar_lent example_ar = 1 \<and> (\<exists>a'. drain (StopBuffering example_ar) = Some a' \<and> ar_lent a' = 0)"
proof -
  have r: "ar_run example_rd (StopBuffering example_ar) [7, 8, 9] 0 (Some EOF) True"
    by (rule ar_run.stopped[OF example_ar_run])
  show ?thesis using async_buffers_accounted[OF r]
    by (auto simp: example_ar_def StopBuffering_def drain_def)
qed

end
