(* ===== verification/Uploader.thy ===== *)
theory Uploader
  imports UploadStore
begin

text \<open>
  The upload handlers of \<open>web/routers/uploader.go\<close> (\<open>initMultipartUpload\<close>, \<open>uploadPart\<close>,
  \<open>completePart\<close>) over \<open>UploadStore\<close>: the protocol by which a client uploads a file in chunks, in
  any order and with retries. \<open>denied p\<close> says that the operating system refuses to create or write
  \<open>p\<close>; \<open>rootPath\<close> and \<open>SubElem\<close> come from \<open>Paths\<close>. Key paths have been sanitized by the handlers.
\<close>

datatype up_error = Store store_error | ErrPartCorrupted | ErrInitPart | ErrOS | ErrParent

record Part =
  p_idx :: u64
  p_etag :: string

record InitPartResponse =
  ir_code :: nat
  ir_token :: string
  ir_parts :: "Part list"

definition MB :: u64 where "MB = 1048576"

definition initMultipartUpload :: "'u utab \<Rightarrow> 'p ptab \<Rightarrow> string \<Rightarrow> string \<Rightarrow> int \<Rightarrow> string \<Rightarrow> u64 \<Rightarrow> u64 \<Rightarrow>
    int \<Rightarrow> ('u, 'p) uworld \<Rightarrow> (up_error + InitPartResponse) \<times> ('u, 'p) uworld" where
  "initMultipartUpload TU TP tok1 tok2 now key sz chunkMB storageID w =
     (case InitUpload TU tok1 now key sz (chunkMB * MB) storageID w of
        ((token, True, Some ErrPartUpCorrupted), w1) \<Rightarrow>
          let w2 = snd (DestroyUploadByToken TU TP token w1);
              w3 = w2\<lparr>uw_fs := (uw_fs w2)(key := None)\<rparr>
          in (case InitUpload TU tok2 now key sz (chunkMB * MB) storageID w3 of
                ((token2, _, _), w4) \<Rightarrow>
                  (Inr \<lparr>ir_code = 2003, ir_token = token2, ir_parts = []\<rparr>, w4))
      | ((token, True, _), w1) \<Rightarrow>
          (case LoadParts TU TP token w1 of
             Inl e \<Rightarrow> (Inl (Store e), w1)
           | Inr ps \<Rightarrow> (Inr \<lparr>ir_code = 2002, ir_token = token,
                 ir_parts = map (\<lambda>p. \<lparr>p_idx = pt_idx p, p_etag = pt_md5 p\<rparr>) ps\<rparr>, w1))
      | ((token, False, Some e), w1) \<Rightarrow> (Inl ErrInitPart, w1)
      | ((token, False, None), w1) \<Rightarrow> (Inr \<lparr>ir_code = 2001, ir_token = token, ir_parts = []\<rparr>, w1))"

text \<open>A write at an offset: a gap is filled with zeros, what lies behind is kept.\<close>

definition write_at :: "nat \<Rightarrow> bytes \<Rightarrow> bytes \<Rightarrow> bytes" where
  "write_at off d old =
     (if d = [] then old
      else take off (old @ replicate (off - length old) 0) @ d @ drop (off + length d) old)"

text \<open>\<open>iotools.EnsureOwnFileR\<close> on the model's file system: the directory must lie below the root;
  a missing file is created empty.\<close>

definition EnsureOwnFileR :: "(string \<Rightarrow> bool) \<Rightarrow> string \<Rightarrow> string \<Rightarrow> fs \<Rightarrow> up_error option \<times> fs" where
  "EnsureOwnFileR denied filename root fs =
     (if \<not> fst (SubElem (clean root) (clean (split_dir filename))) then (Some ErrParent, fs)
      else if denied filename then (Some ErrOS, fs)
      else (None, if fs filename = None then fs(filename \<mapsto> []) else fs))"

definition uploadPart :: "(bytes \<Rightarrow> bytes) \<Rightarrow> (string \<Rightarrow> bool) \<Rightarrow> cloudStorage \<Rightarrow> 'u utab \<Rightarrow> 'p ptab \<Rightarrow>
    string \<Rightarrow> u64 \<Rightarrow> string \<Rightarrow> src \<Rightarrow> ('u, 'p) uworld \<Rightarrow> (up_error + Part) \<times> ('u, 'p) uworld" where
  "uploadPart md5 denied cs TU TP token idx reqMD5 body w =
     (case LoadUpload TU token w of
        Inl e \<Rightarrow> (Inl (Store e), w)
      | Inr up \<Rightarrow>
          (case EnsureOwnFileR denied (up_tmp up) (rootPath cs (up_storage up)) (uw_fs w) of
             (Some e, _) \<Rightarrow> (Inl e, w)
           | (None, fs1) \<Rightarrow>
               let offset = up_chunk up * idx;
                   w1 = w\<lparr>uw_fs := fs1\<rparr>;
                   old = (case fs1 (up_tmp up) of None \<Rightarrow> [] | Some d \<Rightarrow> d);
                   new = write_at (unat offset) (s_data body) old;
                   w2 = w1\<lparr>uw_fs := fs1(up_tmp up \<mapsto> new)\<rparr>
               in if sint offset < 0 then (Inl ErrOS, w1)
                  else case MD5ReadWrite md5 body of
                    None \<Rightarrow> (Inl ErrOS, w2)
                  | Some (_, md5Calc) \<Rightarrow>
                      if md5Calc \<noteq> reqMD5 then (Inl ErrPartCorrupted, w2)
                      else (case UploadPart_op TU TP (up_key up) idx md5Calc w2 of
                              (Some e, w3) \<Rightarrow> (Inl (Store e), w3)
                            | (None, w3) \<Rightarrow> (Inr \<lparr>p_idx = idx, p_etag = md5Calc\<rparr>, w3))))"

text \<open>The digest \<open>completePart\<close> computes from the etags the client sends: the digest of the
  concatenated part digests, tagged with the number of parts when there is more than one.\<close>

definition client_md5 :: "(bytes \<Rightarrow> bytes) \<Rightarrow> Part list \<Rightarrow> string option" where
  "client_md5 md5 parts0 =
     (let parts = sort_key p_idx parts0
      in map_option (\<lambda>bs.
           let h = MD5Single md5 \<lparr>s_data = bs, s_fails = False\<rparr>
           in if length parts > 1 then chunk_tag h (int (length parts)) else h)
         (parts_bytes (map p_etag parts)))"

definition completePart :: "(bytes \<Rightarrow> bytes) \<Rightarrow> (string \<Rightarrow> bool) \<Rightarrow> 'u utab \<Rightarrow> 'p ptab \<Rightarrow> string \<Rightarrow> Part list \<Rightarrow>
    ('u, 'p) uworld \<Rightarrow> (up_error + string) \<times> ('u, 'p) uworld" where
  "completePart md5 denied TU TP key parts w =
     (case LoadUploadByKey TU key w of
        Inl e \<Rightarrow> (Inl (Store e), w)
      | Inr up \<Rightarrow>
          (case client_md5 md5 parts of
             None \<Rightarrow> (Inl ErrPartCorrupted, w)
           | Some clientMD5 \<Rightarrow>
               (case CompletePart md5 TU TP key clientMD5 w of
                  (Some e, w1) \<Rightarrow> (Inl (Store e), w1)
                | (None, w1) \<Rightarrow>
                    (case uw_fs w1 (up_tmp up) of
                       None \<Rightarrow> (Inr clientMD5, w1)
                     | Some d \<Rightarrow>
                         if denied (up_key up) then (Inl ErrOS, w1)
                         else (Inr clientMD5,
                               w1\<lparr>uw_fs := (uw_fs w1)(up_key up \<mapsto> d, up_tmp up := None)\<rparr>)))))"

section \<open>Writing the chunks of a file in any order\<close>

definition chunk_of :: "bytes \<Rightarrow> nat \<Rightarrow> nat \<Rightarrow> bytes" where
  "chunk_of D c i = take c (drop (i * c) D)"

text \<open>\<open>covers f D c I\<close>: the file \<open>f\<close> is no longer than \<open>D\<close> and agrees with it on the chunks \<open>I\<close>.\<close>

definition covers :: "bytes \<Rightarrow> bytes \<Rightarrow> nat \<Rightarrow> nat set \<Rightarrow> bool" where
  "covers f D c I \<longleftrightarrow> length f \<le> length D
     \<and> (\<forall>i\<in>I. \<forall>p. i * c \<le> p \<and> p < i * c + c \<and> p < length D \<longrightarrow> p < length f \<and> f ! p = D ! p)"

lemma length_write_at:
  "d \<noteq> [] \<Longrightarrow> length (write_at off d old) = max (off + length d) (length old)"
  by (cases "d = []") (auto simp: write_at_def min_def max_def)

lemma nth_write_at_in: "off \<le> p \<Longrightarrow> p < off + length d \<Longrightarrow> write_at off d old ! p = d ! (p - off)"
  by (auto simp: write_at_def nth_append min_def)

lemma nth_write_at_out:
  assumes "p < length old" "\<not> (off \<le> p \<and> p < off + length d)"
  shows "write_at off d old ! p = old ! p"
  using assms by (auto simp: write_at_def nth_append min_def)

lemma covers_write:
  assumes f: "covers f D c I" and i: "i * c < length D" and c: "0 < c"
  shows "covers (write_at (i * c) (chunk_of D c i) f) D c (insert i I)"
proof -
  let ?d = "chunk_of D c i" and ?g = "write_at (i * c) (chunk_of D c i) f"
  have ne: "?d \<noteq> []" using i c by (simp add: chunk_of_def)
  have ld: "length ?d = min c (length D - i * c)" by (simp add: chunk_of_def)
  have lg: "length ?g = max (i * c + length ?d) (length f)" by (rule length_write_at[OF ne])
  have "length f \<le> length D" using f by (simp add: covers_def)
  then have "length ?g \<le> length D" using lg ld i by linarith
  moreover have "p < length ?g \<and> ?g ! p = D ! p"
    if j: "j \<in> insert i I" "j * c \<le> p" "p < j * c + c" "p < length D" for j p
  proof (cases "i * c \<le> p \<and> p < i * c + length ?d")
    case True
    then have "?g ! p = ?d ! (p - i * c)" by (intro nth_write_at_in) auto
    also have "\<dots> = D ! p"
    proof -
      have "p - i * c < c" using True ld by linarith
      then show ?thesis using True i by (simp add: chunk_of_def)
    qed
    finally show ?thesis using True lg by (simp add: max_def)
  next
    case False
    then have "j \<noteq> i" using j ld by (auto simp: min_def split: if_splits)
    then have "p < length f" "f ! p = D ! p" using f j by (auto simp: covers_def)
    then show ?thesis using nth_write_at_out[of p f] False lg by (auto simp: max_def)
  qed
  ultimately show ?thesis unfolding covers_def by blast
qed

lemma covers_all:
  assumes "covers f D c {..<n}" "0 < c" "length D \<le> n * c"
  shows "f = D"
proof (rule nth_equalityI)
  have inD: "p < length f \<and> f ! p = D ! p" if "p < length D" for p
  proof -
    have "p div c < n" using that assms(2,3) by (simp add: div_less_iff_less_mult)
    moreover have "p div c * c \<le> p" "p < p div c * c + c"
      using assms(2) by (auto simp: dividend_less_div_times add.commute)
    ultimately show ?thesis using assms(1) that unfolding covers_def by blast
  qed
  show l: "length f = length D"
    using assms(1) inD by (metis covers_def le_neq_implies_less less_irrefl)
  show "f ! i = D ! i" if "i < length f" for i using inD that l by simp
qed

section \<open>Parts in index order\<close>

lemma sort_by_index:
  fixes key :: "'a \<Rightarrow> 'w::len word"
  assumes d: "distinct xs" "inj_on key (set xs)" and s: "key ` set xs = of_nat ` {..<n}"
    and n: "n \<le> 2 ^ LENGTH('w)" and e: "\<And>x. x \<in> set xs \<Longrightarrow> e x = g (unat (key x))"
  shows "map e (sort_key key xs) = map g [0..<n]" "length xs = n"
proof -
  have un: "unat (of_nat i :: 'w word) = i" if "i < n" for i
    using that n by (simp add: unat_of_nat take_bit_nat_eq_self)
  have "map key (sort_key key xs) = map of_nat [0..<n]"
  proof (rule sorted_distinct_set_unique)
    show "distinct (map key (sort_key key xs))" using d by (simp add: distinct_map)
    have "inj_on (of_nat :: nat \<Rightarrow> 'w word) {..<n}" by (metis inj_onI lessThan_iff un)
    then show "distinct (map (of_nat :: nat \<Rightarrow> 'w word) [0..<n])"
      by (simp add: distinct_map atLeast0LessThan)
    show "sorted (map (of_nat :: nat \<Rightarrow> 'w word) [0..<n])"
      by (auto simp: sorted_iff_nth_mono word_le_nat_alt un)
  qed (use s in \<open>auto simp: atLeast0LessThan\<close>)
  then have k: "map (unat \<circ> key) (sort_key key xs) = map (unat \<circ> (of_nat :: nat \<Rightarrow> 'w word)) [0..<n]"
    by (metis map_map)
  have "map e (sort_key key xs) = map g (map (unat \<circ> key) (sort_key key xs))"
    using e by simp
  also have "\<dots> = map g [0..<n]" unfolding k using un by simp
  finally show "map e (sort_key key xs) = map g [0..<n]" .
  from arg_cong[OF this, of length] show "length xs = n" by simp
qed

section \<open>A session: the chunks of one file, uploaded in any order\<close>

definition content :: "fs \<Rightarrow> string \<Rightarrow> bytes" where
  "content fs p = (case fs p of None \<Rightarrow> [] | Some d \<Rightarrow> d)"

definition etag_of :: "(bytes \<Rightarrow> bytes) \<Rightarrow> bytes \<Rightarrow> nat \<Rightarrow> nat \<Rightarrow> string" where
  "etag_of md5 D c i = hex_encode (md5 (chunk_of D c i))"

definition session :: "(bytes \<Rightarrow> bytes) \<Rightarrow> 'u utab \<Rightarrow> 'p ptab \<Rightarrow> Upload \<Rightarrow> bytes \<Rightarrow> nat \<Rightarrow> nat set \<Rightarrow>
    ('u, 'p) uworld \<Rightarrow> bool" where
  "session md5 TU TP u D c I w \<longleftrightarrow>
     unique_rows upload_schema (rows TU (uw_ups w)) \<and> u \<in> set (rows TU (uw_ups w))
     \<and> unique_rows part_schema (rows TP (uw_pts w)) \<and> up_chunk u = of_nat c
     \<and> covers (content (uw_fs w) (up_tmp u)) D c I \<and> (I \<noteq> {} \<longrightarrow> uw_fs w (up_tmp u) \<noteq> None)
     \<and> prow ` {p \<in> set (rows TP (uw_pts w)). pt_token p = up_token u}
         = (\<lambda>i. (up_token u, of_nat i, etag_of md5 D c i)) ` I"

lemma LoadUpload_row:
  assumes "table_ok TU upload_schema" "unique_rows upload_schema (rows TU (uw_ups w))"
    "u \<in> set (rows TU (uw_ups w))"
  shows "LoadUpload TU (up_token u) w = Inr u" "LoadUploadByKey TU (up_key u) w = Inr u"
  using find1_unique(1)[OF assms, of "\<lambda>x. up_token x = up_token u"]
    find1_unique(1)[OF assms, of "\<lambda>x. up_key x = up_key u"]
  by (simp_all add: LoadUpload_def LoadUploadByKey_def)

lemma small_offset:
  assumes "i * c < 2 ^ 63"
  shows "unat ((of_nat c :: u64) * of_nat i) = i * c" "0 \<le> sint ((of_nat c :: u64) * of_nat i)"
proof -
  have e: "(of_nat c :: u64) * of_nat i = of_nat (i * c)" by (simp add: mult.commute)
  show "unat ((of_nat c :: u64) * of_nat i) = i * c" "0 \<le> sint ((of_nat c :: u64) * of_nat i)"
    unfolding e using u64_of_nat[OF assms] by (simp_all only: of_nat_0_le_iff)
qed

lemma UploadPart_op_fs:
  assumes "table_ok TU upload_schema" "table_ok TP part_schema"
    "unique_rows upload_schema (rows TU (uw_ups w))" "u \<in> set (rows TU (uw_ups w))"
    "unique_rows part_schema (rows TP (uw_pts w))"
  obtains t where "UploadPart_op TU TP (up_key u) idx h (w\<lparr>uw_fs := f\<rparr>)
      = (None, w\<lparr>uw_fs := f, uw_pts := t\<rparr>)" "unique_rows part_schema (rows TP t)"
    "prow ` set (rows TP t) = insert (up_token u, idx, h)
       (prow ` {p \<in> set (rows TP (uw_pts w)). \<not> (pt_idx p = idx \<and> pt_token p = up_token u)})"
proof -
  have e: "uw_ups (w\<lparr>uw_fs := f\<rparr>) = uw_ups w" "uw_pts (w\<lparr>uw_fs := f\<rparr>) = uw_pts w" by simp_all
  obtain t where t: "UploadPart_op TU TP (up_key u) idx h (w\<lparr>uw_fs := f\<rparr>)
      = (None, w\<lparr>uw_fs := f, uw_pts := t\<rparr>) \<and> unique_rows part_schema (rows TP t)
    \<and> prow ` set (rows TP t) = insert (up_token u, idx, h)
       (prow ` {p \<in> set (rows TP (uw_pts w)). \<not> (pt_idx p = idx \<and> pt_token p = up_token u)})"
    using UploadPart_op_rows[OF assms(1,2), of "w\<lparr>uw_fs := f\<rparr>" u idx h, unfolded e, OF assms(3-5)]
    by (elim exE)
  show thesis using that[of t] t by (elim conjE)
qed

lemma session_step:
  assumes TU: "table_ok TU upload_schema" and TP: "table_ok TP part_schema"
    and s: "session md5 TU TP u D c I w" and i: "i * c < length D" and c: "0 < c"
    and D: "length D < 2 ^ 63"
    and I: "\<forall>j\<in>I. j * c < length D"
    and ok: "\<not> denied (up_tmp u)"
      "fst (SubElem (clean (rootPath cs (up_storage u))) (clean (split_dir (up_tmp u))))"
  shows "\<exists>w'. uploadPart md5 denied cs TU TP (up_token u) (of_nat i) (etag_of md5 D c i)
      \<lparr>s_data = chunk_of D c i, s_fails = False\<rparr> w
        = (Inr \<lparr>p_idx = of_nat i, p_etag = etag_of md5 D c i\<rparr>, w')
    \<and> session md5 TU TP u D c (insert i I) w'"
proof -
  let ?d = "chunk_of D c i" and ?tmp = "up_tmp u"
  have S: "unique_rows upload_schema (rows TU (uw_ups w))" "u \<in> set (rows TU (uw_ups w))"
    "unique_rows part_schema (rows TP (uw_pts w))" "up_chunk u = of_nat c"
    "covers (content (uw_fs w) ?tmp) D c I"
    "prow ` {p \<in> set (rows TP (uw_pts w)). pt_token p = up_token u}
         = (\<lambda>i. (up_token u, of_nat i, etag_of md5 D c i)) ` I"
    using s by (simp_all add: session_def)
  have ic: "i * c < 2 ^ 63" using i D by linarith
  define fs1 where "fs1 = (if uw_fs w ?tmp = None then (uw_fs w)(?tmp \<mapsto> []) else uw_fs w)"
  define fs2 where "fs2 = fs1(?tmp \<mapsto> write_at (i * c) ?d (content (uw_fs w) ?tmp))"
  let ?w = "w\<lparr>uw_fs := fs2\<rparr>"
  have old: "content fs1 ?tmp = content (uw_fs w) ?tmp" by (auto simp: fs1_def content_def)
  obtain t where t: "UploadPart_op TU TP (up_key u) (of_nat i) (etag_of md5 D c i) ?w
      = (None, ?w\<lparr>uw_pts := t\<rparr>)" "unique_rows part_schema (rows TP t)"
    "prow ` set (rows TP t) = insert (up_token u, of_nat i, etag_of md5 D c i)
       (prow ` {p \<in> set (rows TP (uw_pts w)). \<not> (pt_idx p = of_nat i \<and> pt_token p = up_token u)})"
    by (rule UploadPart_op_fs[OF TU TP S(1-3)])
  let ?w' = "?w\<lparr>uw_pts := t\<rparr>"
  have md: "MD5ReadWrite md5 \<lparr>s_data = ?d, s_fails = False\<rparr> = Some (?d, etag_of md5 D c i)"
    by (simp add: MD5ReadWrite_def copy_all_def etag_of_def)
  have U: "uploadPart md5 denied cs TU TP (up_token u) (of_nat i) (etag_of md5 D c i)
      \<lparr>s_data = ?d, s_fails = False\<rparr> w
        = (Inr \<lparr>p_idx = of_nat i, p_etag = etag_of md5 D c i\<rparr>, ?w')"
  proof -
    have E: "EnsureOwnFileR denied ?tmp (rootPath cs (up_storage u)) (uw_fs w) = (None, fs1)"
      using ok by (simp add: EnsureOwnFileR_def fs1_def)
    have "\<not> sint (up_chunk u * of_nat i) < 0" "unat (up_chunk u * of_nat i) = i * c"
      using small_offset[OF ic] S(4) by simp_all
    then show ?thesis
      using LoadUpload_row(1)[OF TU S(1,2)] E t(1) md old
      by (simp add: uploadPart_def Let_def content_def[symmetric] fs2_def)
  qed
  have cov: "covers (content fs2 ?tmp) D c (insert i I)"
    using covers_write[OF S(5) i c] by (simp add: fs2_def content_def)
  have un: "(of_nat j :: u64) = of_nat i \<longleftrightarrow> j = i" if "j \<in> I" for j
  proof -
    have "j * c < 2 ^ 63" using I that D by (meson less_trans)
    then have "j < 2 ^ 63" "i < 2 ^ 63" using ic c mult_le_mono2[of 1 c j] mult_le_mono2[of 1 c i]
      by linarith+
    then show ?thesis by (rule u64_of_nat_inject)
  qed
  have "prow ` {p \<in> set (rows TP t). pt_token p = up_token u}
      = (\<lambda>i. (up_token u, of_nat i, etag_of md5 D c i)) ` insert i I"
  proof -
    have a: "prow ` {p \<in> A. pt_token p = tk} = {x \<in> prow ` A. fst x = tk}" for A tk
      unfolding Compr_image_eq by (simp add: prow_def)
    have b: "prow ` {p \<in> A. \<not> (pt_idx p = k \<and> pt_token p = tk)}
        = {x \<in> prow ` A. \<not> (fst (snd x) = k \<and> fst x = tk)}" for A k tk
      unfolding Compr_image_eq by (simp add: prow_def)
    have "{x \<in> prow ` set (rows TP t). fst x = up_token u}
      = insert (up_token u, of_nat i, etag_of md5 D c i)
        {x \<in> prow ` {p \<in> set (rows TP (uw_pts w)). pt_token p = up_token u}. fst (snd x) \<noteq> of_nat i}"
    proof -
      define B where "B = prow ` set (rows TP (uw_pts w))"
      show ?thesis unfolding t(3) b a B_def[symmetric] by auto
    qed
    also have "\<dots> = (\<lambda>i. (up_token u, of_nat i, etag_of md5 D c i)) ` insert i I"
    proof -
      let ?f = "\<lambda>i. (up_token u, of_nat i :: u64, etag_of md5 D c i)"
      have "{x \<in> ?f ` I. fst (snd x) \<noteq> of_nat i} = ?f ` (I - {i})" using un by auto
      then have "insert (?f i) {x \<in> ?f ` I. fst (snd x) \<noteq> of_nat i} = ?f ` insert i I" by auto
      then show ?thesis unfolding S(6) .
    qed
    finally show ?thesis using a by simp
  qed
  then have "session md5 TU TP u D c (insert i I) ?w'"
    using S(1,2,4) t(2) cov by (simp add: session_def fs2_def)
  then show ?thesis using U by blast
qed

section \<open>The whole protocol\<close>

text \<open>A client that sends the chunks \<open>js\<close> of \<open>D\<close> one after the other.\<close>

fun send_chunks :: "(bytes \<Rightarrow> bytes) \<Rightarrow> (string \<Rightarrow> bool) \<Rightarrow> cloudStorage \<Rightarrow> 'u utab \<Rightarrow> 'p ptab \<Rightarrow> string \<Rightarrow>
    bytes \<Rightarrow> nat \<Rightarrow> nat list \<Rightarrow> ('u, 'p) uworld \<Rightarrow> (up_error + Part) list \<times> ('u, 'p) uworld" where
  "send_chunks md5 denied cs TU TP token D c [] w = ([], w)"
| "send_chunks md5 denied cs TU TP token D c (i # js) w =
     (case uploadPart md5 denied cs TU TP token (of_nat i) (etag_of md5 D c i)
             \<lparr>s_data = chunk_of D c i, s_fails = False\<rparr> w of
        (res, w1) \<Rightarrow>
          (case send_chunks md5 denied cs TU TP token D c js w1 of (rs, w2) \<Rightarrow> (res # rs, w2)))"

definition part_of :: "(bytes \<Rightarrow> bytes) \<Rightarrow> bytes \<Rightarrow> nat \<Rightarrow> nat \<Rightarrow> Part" where
  "part_of md5 D c i = \<lparr>p_idx = of_nat i, p_etag = etag_of md5 D c i\<rparr>"

lemma send_chunks_session:
  assumes "table_ok TU upload_schema" "table_ok TP part_schema" "0 < c" "length D < 2 ^ 63"
    "\<not> denied (up_tmp u)"
    "fst (SubElem (clean (rootPath cs (up_storage u))) (clean (split_dir (up_tmp u))))"
  shows "session md5 TU TP u D c I w \<Longrightarrow> \<forall>j\<in>I. j * c < length D \<Longrightarrow> \<forall>j\<in>set js. j * c < length D \<Longrightarrow>
    \<exists>w'. send_chunks md5 denied cs TU TP (up_token u) D c js w
        = (map (\<lambda>i. Inr (part_of md5 D c i)) js, w')
      \<and> session md5 TU TP u D c (I \<union> set js) w'"
proof (induction js arbitrary: I w)
  case Nil
  then show ?case by simp
next
  case (Cons i js)
  obtain w1 where w1: "uploadPart md5 denied cs TU TP (up_token u) (of_nat i) (etag_of md5 D c i)
      \<lparr>s_data = chunk_of D c i, s_fails = False\<rparr> w = (Inr (part_of md5 D c i), w1)"
    "session md5 TU TP u D c (insert i I) w1"
    using session_step[where denied = denied and cs = cs, OF assms(1,2) Cons.prems(1) _ assms(3,4) Cons.prems(2) assms(5,6)]
      Cons.prems(3) by (auto simp: part_of_def)
  obtain w' where "send_chunks md5 denied cs TU TP (up_token u) D c js w1
        = (map (\<lambda>i. Inr (part_of md5 D c i)) js, w')"
    "session md5 TU TP u D c (insert i I \<union> set js) w'"
    using Cons.IH[OF w1(2)] Cons.prems(2,3) by auto
  then show ?case using w1(1) by simp
qed

lemma parts_bytes_etags: "parts_bytes (map (\<lambda>i. hex_encode (f i)) js) = Some (concat (map f js))"
  by (induction js) (auto simp: parts_bytes_def)

text \<open>The digest of \<open>n\<close> parts.\<close>

definition whole_tag :: "(bytes \<Rightarrow> bytes) \<Rightarrow> bytes \<Rightarrow> nat \<Rightarrow> nat \<Rightarrow> string" where
  "whole_tag md5 D c n =
     chunk_tag (hex_encode (md5 (concat (map (\<lambda>i. md5 (chunk_of D c i)) [0..<n])))) (int n)"

lemma client_md5_any_order:
  assumes "distinct parts" "set parts = part_of md5 D c ` {..<n}" "1 < n" "n < 2 ^ 63"
  shows "client_md5 md5 parts = Some (whole_tag md5 D c n)"
proof -
  have u: "unat (of_nat i :: u64) = i" if "i < n" for i
    using that assms(4) by (intro u64_of_nat) simp
  have "inj_on p_idx (set parts)" unfolding assms(2)
    using u by (auto simp: inj_on_def part_of_def) metis
  moreover have "p_idx ` set parts = of_nat ` {..<n}"
    unfolding assms(2) by (auto simp: part_of_def image_iff)
  moreover have "p_etag x = etag_of md5 D c (unat (p_idx x))" if "x \<in> set parts" for x
    using that u unfolding assms(2) by (auto simp: part_of_def)
  moreover have "n \<le> 2 ^ LENGTH(64)" using assms(4) by simp
  ultimately have "map p_etag (sort_key p_idx parts) = map (etag_of md5 D c) [0..<n]"
    "length parts = n"
    using sort_by_index[of parts p_idx n p_etag "etag_of md5 D c"] assms(1) by blast+
  then show ?thesis using assms(3) parts_bytes_etags[of "\<lambda>i. md5 (chunk_of D c i)" "[0..<n]"]
    by (simp add: client_md5_def Let_def MD5Single_def copy_all_def whole_tag_def etag_of_def[abs_def])
qed

lemma expect_md5_rows:
  assumes "unique_rows part_schema ps" "prow ` set ps = (\<lambda>i. (tok, of_nat i, etag_of md5 D c i)) ` {..<n}"
    "1 < n" "n < 2 ^ 63"
  shows "expect_md5 md5 ps = Inr (whole_tag md5 D c n)"
proof -
  have u: "unat (of_nat i :: u64) = i" if "i < n" for i
    using that assms(4) by (intro u64_of_nat) simp
  have row: "\<exists>i<n. pt_token x = tok \<and> pt_idx x = of_nat i \<and> pt_md5 x = etag_of md5 D c i"
    if "x \<in> set ps" for x
  proof -
    have "prow x \<in> prow ` set ps" using that by simp
    then show ?thesis unfolding assms(2) by (auto simp: prow_def)
  qed
  have "inj_on pt_idx (set ps)"
    using assms(1) row unfolding unique_rows_def inj_on_def by (metis schema_simps(6))
  moreover have "pt_idx ` set ps = of_nat ` {..<n}"
  proof -
    have "pt_idx ` set ps = (fst \<circ> snd) ` (prow ` set ps)" by (simp add: image_image prow_def)
    also have "\<dots> = of_nat ` {..<n}" unfolding assms(2) by (simp add: image_image)
    finally show ?thesis .
  qed
  moreover have "pt_md5 x = etag_of md5 D c (unat (pt_idx x))" if "x \<in> set ps" for x
    using row[OF that] u by auto
  moreover have "n \<le> 2 ^ LENGTH(64)" "distinct ps" using assms(1,4) by (simp_all add: unique_rows_def)
  ultimately have "map pt_md5 (sort_key pt_idx ps) = map (etag_of md5 D c) [0..<n]" "length ps = n"
    using sort_by_index[of ps pt_idx n pt_md5 "etag_of md5 D c"] by blast+
  then show ?thesis using assms(3) parts_bytes_etags[of "\<lambda>i. md5 (chunk_of D c i)" "[0..<n]"]
    by (simp add: expect_md5_def Let_def MD5Single_def copy_all_def whole_tag_def etag_of_def[abs_def])
qed

text \<open>The digest the client is told is the one of the sequential chunk algorithm over the file.\<close>

lemma whole_tag_MD5ByChunk:
  assumes c: "0 < c" and n: "(n - 1) * c < length D" "length D \<le> n * c" "1 < n"
    and m: "\<And>x. length (md5 x) = 16"
  shows "MD5ByChunk (Suc n) md5 \<lparr>s_data = D, s_fails = False\<rparr> (int (length D)) (int c)
    = Ok (whole_tag md5 D c n)"
proof -
  let ?r = "\<lparr>s_data = D, s_fails = False\<rparr>" and ?f = "chunk_result md5 \<lparr>s_data = D, s_fails = False\<rparr> (int (length D)) (int c)"
  have "1 \<le> n - 1" using n(3) by linarith
  then have "c \<le> (n - 1) * c" using mult_le_mono1[of 1 "n - 1" c] by simp
  then have cl: "c < length D" using n(1) by linarith
  then have cs: "0 < int c" "int c < int (length D)" using c by simp_all
  have idx: "j < nat (totalChunks (int (length D)) (int c)) \<longleftrightarrow> j * c < length D" for j
    unfolding chunk_idx[OF cs] by (metis of_nat_less_iff of_nat_mult)
  have N: "nat (totalChunks (int (length D)) (int c)) = n"
  proof (rule antisym)
    have "\<not> n < nat (totalChunks (int (length D)) (int c))" unfolding idx using n(2) by simp
    then show "nat (totalChunks (int (length D)) (int c)) \<le> n" by simp
    have "n - 1 < nat (totalChunks (int (length D)) (int c))" unfolding idx by (rule n(1))
    then show "n \<le> nat (totalChunks (int (length D)) (int c))" by simp
  qed
  have ch: "?f j = Some \<lparr>c_md5 = md5 (chunk_of D c j), c_idx = int j\<rparr>" if "j < n" for j
  proof -
    have lt: "j * c < length D" using that idx N by metis
    have o: "nat (int j * int c) = j * c" by (metis nat_int of_nat_mult)
    have "take (nat (readSize (int (length D)) (int c) (int j))) (drop (j * c) D) = chunk_of D c j"
    proof (cases "(int j + 1) * int c < int (length D)")
      case True
      then show ?thesis by (simp add: readSize_def chunk_of_def)
    next
      case False
      then have "length D \<le> j * c + c" by (metis (no_types, opaque_lifting) add.commute mult_Suc not_less of_nat_Suc of_nat_less_iff of_nat_mult)
      moreover have "nat (readSize (int (length D)) (int c) (int j)) = length D - j * c"
        using False by (simp add: readSize_def nat_diff_distrib' o)
      ultimately show ?thesis by (simp add: chunk_of_def)
    qed
    then show ?thesis using m by (simp add: chunk_result_def copy_section_def o)
  qed
  have "map ?f [0..<n] = map Some (map (\<lambda>j. \<lparr>c_md5 = md5 (chunk_of D c j), c_idx = int j\<rparr>) [0..<n])"
    using ch by simp
  then have "those (map ?f [0..<n]) = Some (map (\<lambda>j. \<lparr>c_md5 = md5 (chunk_of D c j), c_idx = int j\<rparr>) [0..<n])"
    unfolding those_eq_Some .
  then have "md5_loop (Suc n) md5 (int (length D)) (int c) 0 ?r []
      = Ok (concat (map (\<lambda>j. md5 (chunk_of D c j)) [0..<n]), int n)"
    using md5_loop_chunks[OF cs N[symmetric], of 0 "Suc n" md5 ?r "[]"] by (simp add: comp_def)
  then show ?thesis using cl m by (simp add: MD5ByChunk_def whole_tag_def)
qed

lemma completePart_session:
  assumes TU: "table_ok TU upload_schema" and TP: "table_ok TP part_schema"
    and s: "session md5 TU TP u D c {..<n} w"
    and n: "(n - 1) * c < length D" "length D \<le> n * c" "1 < n" "length D < 2 ^ 63" and c: "0 < c"
    and ok: "\<not> denied (up_key u)" "up_key u \<noteq> up_tmp u"
    and parts: "distinct parts" "set parts = part_of md5 D c ` {..<n}"
  shows "\<exists>w'. completePart md5 denied TU TP (up_key u) parts w = (Inr (whole_tag md5 D c n), w')
    \<and> uw_fs w' (up_key u) = Some D \<and> uw_fs w' (up_tmp u) = None
    \<and> (\<exists>u'\<in>set (rows TU (uw_ups w')). up_key u' = up_key u \<and> up_state u' = DONE
         \<and> up_md5 u' = whole_tag md5 D c n)"
proof -
  have S: "unique_rows upload_schema (rows TU (uw_ups w))" "u \<in> set (rows TU (uw_ups w))"
    "unique_rows part_schema (rows TP (uw_pts w))"
    "covers (content (uw_fs w) (up_tmp u)) D c {..<n}" "uw_fs w (up_tmp u) \<noteq> None"
    "prow ` {p \<in> set (rows TP (uw_pts w)). pt_token p = up_token u}
         = (\<lambda>i. (up_token u, of_nat i, etag_of md5 D c i)) ` {..<n}"
  proof -
    have "{..<n} \<noteq> {}" using n(3) by auto
    then show "unique_rows upload_schema (rows TU (uw_ups w))" "u \<in> set (rows TU (uw_ups w))"
    "unique_rows part_schema (rows TP (uw_pts w))"
    "covers (content (uw_fs w) (up_tmp u)) D c {..<n}" "uw_fs w (up_tmp u) \<noteq> None"
    "prow ` {p \<in> set (rows TP (uw_pts w)). pt_token p = up_token u}
         = (\<lambda>i. (up_token u, of_nat i, etag_of md5 D c i)) ` {..<n}"
      using s unfolding session_def by blast+
  qed
  have n63: "n < 2 ^ 63"
  proof -
    have "n - 1 \<le> (n - 1) * c" using c by simp
    then show ?thesis using n by linarith
  qed
  define ps where "ps = filter (\<lambda>p. pt_token p = up_token u) (rows TP (uw_pts w))"
  have "prow ` set ps = (\<lambda>i. (up_token u, of_nat i, etag_of md5 D c i)) ` {..<n}"
    using S(6) by (simp add: ps_def)
  moreover have "unique_rows part_schema ps" unfolding ps_def by (rule unique_rows_filter[OF S(3)])
  ultimately have E: "expect_md5 md5 ps = Inr (whole_tag md5 D c n)"
    by (intro expect_md5_rows[OF _ _ n(3) n63])
  have ld: "preload_parts TP (Some u) w = ps"
    by (simp add: preload_parts_def table_okD(1)[OF TP] ps_def)
  have f: "t_find TU (\<lambda>x. up_key x = up_key u) (uw_ups w) = Some [u]"
    using find1_unique(2)[OF TU S(1,2), of "\<lambda>x. up_key x = up_key u"] by simp
  obtain t where t: "t_update TU (\<lambda>x. up_id x = up_id u)
      (\<lambda>x. x\<lparr>up_md5 := whole_tag md5 D c n, up_state := DONE\<rparr>) (uw_ups w) = Some t"
    "rows TU t = map (\<lambda>x. if up_id x = up_id u
      then x\<lparr>up_md5 := whole_tag md5 D c n, up_state := DONE\<rparr> else x) (rows TU (uw_ups w))"
    using t_update_rows[OF TU, of "\<lambda>x. x\<lparr>up_md5 := whole_tag md5 D c n, up_state := DONE\<rparr>"
        "\<lambda>x. up_id x = up_id u" "uw_ups w"] that by (simp del: split_paired_Ex) blast
  have C: "CompletePart md5 TU TP (up_key u) (whole_tag md5 D c n) w = (None, w\<lparr>uw_ups := t\<rparr>)"
    using f ld E t(1) by (simp add: CompletePart_def)
  have "uw_fs w (up_tmp u) = Some D"
    using covers_all[OF S(4) c n(2)] S(5) by (auto simp: content_def split: option.splits)
  then have "completePart md5 denied TU TP (up_key u) parts w = (Inr (whole_tag md5 D c n),
      w\<lparr>uw_ups := t, uw_fs := (uw_fs w)(up_key u \<mapsto> D, up_tmp u := None)\<rparr>)"
    using LoadUpload_row(2)[OF TU S(1,2)] client_md5_any_order[OF parts n(3) n63] C ok(1)
    by (simp add: completePart_def)
  moreover have "\<exists>u'\<in>set (rows TU t). up_key u' = up_key u \<and> up_state u' = DONE
         \<and> up_md5 u' = whole_tag md5 D c n"
  proof (rule bexI)
    let ?u = "u\<lparr>up_md5 := whole_tag md5 D c n, up_state := DONE\<rparr>"
    show "up_key ?u = up_key u \<and> up_state ?u = DONE \<and> up_md5 ?u = whole_tag md5 D c n" by simp
    show "?u \<in> set (rows TU t)" unfolding t(2) set_map by (rule image_eqI[OF _ S(2)]) simp
  qed
  ultimately show ?thesis using ok(2) by simp
qed

section \<open>Properties\<close>

lemma split_file_length: "length (split_file p) \<le> length p"
  unfolding split_file_def
proof (induction p)
  case (Cons c p)
  show ?case
  proof (cases "c = CHR ''/''")
    case True
    then show ?thesis using Cons
      by (cases "split_on (CHR ''/'') p") (auto simp: split_on_not_Nil)
  next
    case False
    then show ?thesis using Cons
      by (cases "split_on (CHR ''/'') p"; cases "tl (split_on (CHR ''/'') p)") auto
  qed
qed simp

lemma tmp_name_differs: "tmp_name key \<noteq> key"
proof
  assume "tmp_name key = key"
  then have "length (tmp_name key) = length key" by simp
  then show False using split_file_length[of key] by (simp add: tmp_name_def split_dir_def)
qed

lemma InitUpload_fresh:
  assumes TU: "table_ok TU upload_schema" and U: "unique_rows upload_schema (rows TU (uw_ups w))"
    and k: "\<forall>x\<in>set (rows TU (uw_ups w)). up_key x \<noteq> key \<and> up_token x \<noteq> tok"
  shows "\<exists>t u. InitUpload TU tok now key sz ch sid w = ((tok, False, None), w\<lparr>uw_ups := t\<rparr>)
    \<and> u \<in> set (rows TU t) \<and> up_key u = key \<and> up_token u = tok \<and> up_tmp u = tmp_name key
    \<and> up_storage u = sid \<and> up_chunk u = ch \<and> unique_rows upload_schema (rows TU t)"
proof -
  let ?r = "\<lparr> up_id = 0, up_created = now, up_token = tok, up_key = key,
      up_tmp = tmp_name key, up_storage = sid, up_size = sz, up_chunk = ch,
      up_md5 = [], up_state = RUNNING \<rparr>"
  have nc: "\<forall>x\<in>set (rows TU (uw_ups w)). \<not> s_clash upload_schema x ?r" using k by simp
  obtain t i where t: "t_create TU ?r (uw_ups w) = Some t"
    "rows TU t = rows TU (uw_ups w) @ [s_set_id upload_schema i ?r]"
    "i \<notin> s_id upload_schema ` set (rows TU (uw_ups w))"
    using t_create_rows[OF TU nc] by blast
  have f: "find1 TU (\<lambda>u. up_key u = key) (uw_ups w) = None"
    by (rule find1_None[OF TU]) (use k in simp)
  have "unique_rows upload_schema (rows TU t)"
    unfolding t(2) by (rule unique_rows_append[OF schemas_ok(1) U nc t(3)])
  then show ?thesis using t(1,2) f
    by (intro exI[of _ t] exI[of _ "s_set_id upload_schema i ?r"]) (simp add: InitUpload_def)
qed

text \<open>C4: the multipart upload delivers the file. A client that starts an upload for a fresh key,
  sends every chunk with its MD5 in any order and with any repetitions, and completes with the
  etags in any order, is answered with success at every step; afterwards the file at the key is
  exactly the client's data, the temporary file is gone, and the returned etag is the chunked MD5
  of the data as \<open>MD5ByChunk\<close> computes it.\<close>

theorem multipart_upload_delivers:
  fixes chunkMB :: u64 and D :: bytes
  assumes TU: "table_ok TU upload_schema" and TP: "table_ok TP part_schema"
    and U: "unique_rows upload_schema (rows TU (uw_ups w))"
      "unique_rows part_schema (rows TP (uw_pts w))"
    and new: "\<forall>x\<in>set (rows TU (uw_ups w)). up_key x \<noteq> key \<and> up_token x \<noteq> tok"
      "\<forall>p\<in>set (rows TP (uw_pts w)). pt_token p \<noteq> tok" "uw_fs w (tmp_name key) = None"
    and c: "chunkMB * MB = of_nat c" "0 < c"
    and n: "(n - 1) * c < length D" "length D \<le> n * c" "1 < n" "length D < 2 ^ 63"
    and os: "\<not> denied (tmp_name key)" "\<not> denied key"
      "fst (SubElem (clean (rootPath cs sid)) (clean (split_dir (tmp_name key))))"
    and order: "set js = {..<n}" "distinct parts" "set parts = part_of md5 D c ` {..<n}"
    and md5: "\<And>x. length (md5 x) = 16"
  shows "\<exists>w1 w2 w3 etag.
      initMultipartUpload TU TP tok tok2 now key (of_nat (length D)) chunkMB sid w
        = (Inr \<lparr>ir_code = 2001, ir_token = tok, ir_parts = []\<rparr>, w1)
    \<and> send_chunks md5 denied cs TU TP tok D c js w1 = (map (\<lambda>i. Inr (part_of md5 D c i)) js, w2)
    \<and> completePart md5 denied TU TP key parts w2 = (Inr etag, w3)
    \<and> uw_fs w3 key = Some D \<and> uw_fs w3 (tmp_name key) = None
    \<and> MD5ByChunk (Suc n) md5 \<lparr>s_data = D, s_fails = False\<rparr> (int (length D)) (int c) = Ok etag"
proof -
  obtain t u where I: "InitUpload TU tok now key (of_nat (length D)) (chunkMB * MB) sid w
      = ((tok, False, None), w\<lparr>uw_ups := t\<rparr>)"
    and u: "u \<in> set (rows TU t)" "up_key u = key" "up_token u = tok" "up_tmp u = tmp_name key"
      "up_storage u = sid" "up_chunk u = of_nat c" "unique_rows upload_schema (rows TU t)"
    using InitUpload_fresh[OF TU U(1) new(1)] c(1) by metis
  let ?w1 = "w\<lparr>uw_ups := t\<rparr>"
  have no: "{p \<in> set (rows TP (uw_pts w)). pt_token p = tok} = {}" using new(2) by blast
  have "session md5 TU TP u D c {} ?w1"
    using u U(2) new(3) no by (simp add: session_def covers_def content_def)
  then obtain w2 where w2: "send_chunks md5 denied cs TU TP tok D c js ?w1
      = (map (\<lambda>i. Inr (part_of md5 D c i)) js, w2)" "session md5 TU TP u D c {..<n} w2"
  proof -
    have "j * c < length D" if "j \<in> set js" for j
    proof -
      have "j \<in> {..<n}" using that order(1) by simp
      then have "j \<le> n - 1" by simp
      from mult_le_mono1[OF this, of c] show ?thesis using n(1) by linarith
    qed
    then show ?thesis
      using send_chunks_session[where denied = denied and cs = cs and js = js,
        OF TU TP c(2) n(4) _ _ \<open>session md5 TU TP u D c {} ?w1\<close>] os order(1) u that by auto
  qed
  obtain w3 where w3: "completePart md5 denied TU TP key parts w2 = (Inr (whole_tag md5 D c n), w3)"
    "uw_fs w3 key = Some D" "uw_fs w3 (tmp_name key) = None"
    using completePart_session[OF TU TP w2(2) n c(2), of denied parts] os order u
      tmp_name_differs[of key] by metis
  show ?thesis
    using I w2(1) w3 whole_tag_MD5ByChunk[OF c(2) n(1-3) md5]
    by (intro exI[of _ ?w1] exI[of _ w2] exI[of _ w3] exI[of _ "whole_tag md5 D c n"])
      (simp add: initMultipartUpload_def)
qed

lemma length_hex_encode: "length (hex_encode b) = 2 * length b"
  by (induction b) auto

text \<open>The world of the witness: empty tables and an empty file system.\<close>

definition example_uw :: "(Upload list, UploadPart list) uworld" where
  "example_uw = \<lparr>uw_fs = (\<lambda>_. None), uw_ups = [], uw_pts = []\<rparr>"

theorem multipart_upload_delivers_witness:
  fixes D :: bytes
  defines "D \<equiv> replicate 1048577 7"
  shows "\<exists>w1 w2 w3 etag.
      initMultipartUpload (list_table upload_schema) (list_table part_schema) ''t'' ''s'' 0
        ''/ec/users/al/f'' (of_nat (length D)) 1 (-1) example_uw
        = (Inr \<lparr>ir_code = 2001, ir_token = ''t'', ir_parts = []\<rparr>, w1)
    \<and> send_chunks toy_md5 (\<lambda>_. False) example_cs (list_table upload_schema) (list_table part_schema)
        ''t'' D 1048576 [1, 0, 1] w1 = (map (\<lambda>i. Inr (part_of toy_md5 D 1048576 i)) [1, 0, 1], w2)
    \<and> completePart toy_md5 (\<lambda>_. False) (list_table upload_schema) (list_table part_schema)
        ''/ec/users/al/f'' [part_of toy_md5 D 1048576 1, part_of toy_md5 D 1048576 0] w2 = (Inr etag, w3)
    \<and> uw_fs w3 ''/ec/users/al/f'' = Some D"
proof -
  have p: "part_of toy_md5 D 1048576 1 \<noteq> part_of toy_md5 D 1048576 0" by (simp add: part_of_def)
  have s: "fst (SubElem (clean (rootPath example_cs (-1)))
      (clean (split_dir (tmp_name ''/ec/users/al/f''))))" by code_simp
  have l: "length D = 1048577" by (simp add: D_def)
  have r: "{..<2::nat} = {0, 1}" by auto
  have u: "unique_rows upload_schema (rows (list_table upload_schema) (uw_ups example_uw))"
    "unique_rows part_schema (rows (list_table part_schema) (uw_pts example_uw))"
    by (simp_all add: unique_rows_def example_uw_def)
  show ?thesis
    using multipart_upload_delivers[OF list_table_ok list_table_ok u, of "''/ec/users/al/f''" "''t''"
        1 1048576 2 D "\<lambda>_. False" example_cs "-1" "[1, 0, 1]"
        "[part_of toy_md5 D 1048576 1, part_of toy_md5 D 1048576 0]" toy_md5 "''s''" 0] s l p r
    by (simp add: example_uw_def MB_def toy_md5_def) blast
qed

text \<open>An upload of a single part cannot be completed. The store expects the part's own digest,
  the handler sends the digest of that digest, so \<open>completePart\<close> fails with \<open>ErrCompletePart\<close>
  unless the digest is a fixed point of MD5.\<close>

theorem single_part_never_completes:
  assumes TU: "table_ok TU upload_schema" and TP: "table_ok TP part_schema"
    and U: "unique_rows upload_schema (rows TU (uw_ups w))" "u \<in> set (rows TU (uw_ups w))"
    and one: "filter (\<lambda>p. pt_token p = up_token u) (rows TP (uw_pts w)) = [p]"
      "pt_md5 p = hex_encode h"
    and h: "md5 h \<noteq> h"
  shows "completePart md5 denied TU TP (up_key u) [\<lparr>p_idx = pt_idx p, p_etag = hex_encode h\<rparr>] w
    = (Inl (Store ErrCompletePart), w)"
proof -
  have f: "t_find TU (\<lambda>x. up_key x = up_key u) (uw_ups w) = Some [u]"
    using find1_unique(2)[OF TU U, of "\<lambda>x. up_key x = up_key u"] by simp
  have "client_md5 md5 [\<lparr>p_idx = pt_idx p, p_etag = hex_encode h\<rparr>] = Some (hex_encode (md5 h))"
    by (simp add: client_md5_def parts_bytes_def MD5Single_def copy_all_def)
  moreover have "preload_parts TP (Some u) w = [p]"
    using one(1) by (simp add: preload_parts_def table_okD(1)[OF TP])
  moreover have "expect_md5 md5 [p] = Inr (hex_encode h)"
    using one(2) by (simp add: expect_md5_def parts_bytes_def)
  ultimately show ?thesis
    using LoadUpload_row(2)[OF TU U] f h
    by (simp add: completePart_def CompletePart_def hex_encode_inj)
qed

definition example_up :: Upload where
  "example_up = \<lparr>up_id = 1, up_created = 0, up_token = ''t'', up_key = ''/ec/users/al/f'',
     up_tmp = ''/ec/users/al//.f.upload'', up_storage = -1, up_size = 3, up_chunk = 1048576,
     up_md5 = [], up_state = RUNNING\<rparr>"

definition example_uw1 :: "bytes \<Rightarrow> (Upload list, UploadPart list) uworld" where
  "example_uw1 d = \<lparr>uw_fs = [''/ec/users/al//.f.upload'' \<mapsto> d], uw_ups = [example_up],
     uw_pts = [\<lparr>pt_id = 1, pt_token = ''t'', pt_idx = 0, pt_md5 = hex_encode (toy_md5 d)\<rparr>]\<rparr>"

lemma example_uw1_rows:
  "unique_rows upload_schema (rows (list_table upload_schema) (uw_ups (example_uw1 d)))"
  "example_up \<in> set (rows (list_table upload_schema) (uw_ups (example_uw1 d)))"
  "unique_rows part_schema (rows (list_table part_schema) (uw_pts (example_uw1 d)))"
  by (simp_all add: unique_rows_def example_uw1_def)

theorem single_part_never_completes_witness:
  "completePart toy_md5 (\<lambda>_. False) (list_table upload_schema) (list_table part_schema)
     ''/ec/users/al/f'' [\<lparr>p_idx = 0, p_etag = hex_encode (toy_md5 [1, 2, 3])\<rparr>] (example_uw1 [1, 2, 3])
   = (Inl (Store ErrCompletePart), example_uw1 [1, 2, 3])"
proof -
  have "toy_md5 (toy_md5 [1, 2, 3]) \<noteq> toy_md5 [1, 2, 3]"
    by (simp add: toy_md5_def sum_list_replicate)
  then show ?thesis
    using single_part_never_completes[OF list_table_ok list_table_ok example_uw1_rows(1,2),
        of "[1, 2, 3]" "\<lparr>pt_id = 1, pt_token = ''t'', pt_idx = 0, pt_md5 = hex_encode (toy_md5 [1, 2, 3])\<rparr>"
          "toy_md5 [1, 2, 3]" toy_md5 "\<lambda>_. False"]
    by (simp add: example_uw1_def example_up_def)
qed

text \<open>A corrupted retransmission is refused but has already been written. When a part's bytes do
  not match the digest the client announced, \<open>uploadPart\<close> answers \<open>ErrPartCorrupted\<close> and leaves the
  tables alone, so a digest recorded by an earlier correct transmission stays; the bytes of the
  temporary file at the part's offset are the corrupted ones.\<close>

theorem corrupted_part_overwrites_file:
  assumes TU: "table_ok TU upload_schema"
    and U: "unique_rows upload_schema (rows TU (uw_ups w))" "u \<in> set (rows TU (uw_ups w))"
    and ok: "\<not> denied (up_tmp u)"
      "fst (SubElem (clean (rootPath cs (up_storage u))) (clean (split_dir (up_tmp u))))"
    and off: "unat (up_chunk u) * unat i < 2 ^ 63"
    and bad: "hex_encode (md5 d) \<noteq> announced" "d \<noteq> []"
  shows "\<exists>w'. uploadPart md5 denied cs TU TP (up_token u) i announced \<lparr>s_data = d, s_fails = False\<rparr> w
      = (Inl ErrPartCorrupted, w') \<and> uw_ups w' = uw_ups w \<and> uw_pts w' = uw_pts w
    \<and> take (length d) (drop (unat (up_chunk u) * unat i) (content (uw_fs w') (up_tmp u))) = d"
proof -
  let ?off = "unat i * unat (up_chunk u)" and ?tmp = "up_tmp u"
  have ic: "?off < 2 ^ 63" using off by (simp add: mult.commute)
  have o: "unat (up_chunk u * i) = ?off" "\<not> sint (up_chunk u * i) < 0"
    using small_offset[OF ic] by (simp_all add: not_less)
  define fs1 where "fs1 = (if uw_fs w ?tmp = None then (uw_fs w)(?tmp \<mapsto> []) else uw_fs w)"
  have E: "EnsureOwnFileR denied ?tmp (rootPath cs (up_storage u)) (uw_fs w) = (None, fs1)"
    using ok by (simp add: EnsureOwnFileR_def fs1_def)
  define fs2 where "fs2 = fs1(?tmp \<mapsto> write_at ?off d (content fs1 ?tmp))"
  have "uploadPart md5 denied cs TU TP (up_token u) i announced \<lparr>s_data = d, s_fails = False\<rparr> w
      = (Inl ErrPartCorrupted, w\<lparr>uw_fs := fs2\<rparr>)"
    using LoadUpload_row(1)[OF TU U] E o bad(1)
    by (simp add: uploadPart_def Let_def MD5ReadWrite_def copy_all_def fs2_def content_def[symmetric])
  moreover have "take (length d) (drop ?off (content fs2 ?tmp)) = d"
    using bad(2) by (simp add: fs2_def content_def write_at_def min_def)
  ultimately show ?thesis by (simp add: mult.commute)
qed

theorem corrupted_part_overwrites_file_witness:
  "\<exists>w'. uploadPart toy_md5 (\<lambda>_. False) example_cs (list_table upload_schema) (list_table part_schema)
      ''t'' 0 ''00'' \<lparr>s_data = [9, 9], s_fails = False\<rparr> (example_uw1 [1, 2, 3])
      = (Inl ErrPartCorrupted, w') \<and> uw_pts w' = uw_pts (example_uw1 [1, 2, 3])
    \<and> take 2 (content (uw_fs w') ''/ec/users/al//.f.upload'') = [9, 9]"
proof -
  have "fst (SubElem (clean (rootPath example_cs (up_storage example_up)))
      (clean (split_dir (up_tmp example_up))))" by code_simp
  moreover have "hex_encode (toy_md5 [9, 9]) \<noteq> ''00''"
  proof -
    have "length (hex_encode (toy_md5 [9, 9])) \<noteq> length ''00''"
      by (simp add: length_hex_encode toy_md5_def)
    then show ?thesis by metis
  qed
  ultimately show ?thesis
    using corrupted_part_overwrites_file[OF list_table_ok example_uw1_rows(1,2)[of "[1, 2, 3]"],
        of "\<lambda>_. False" example_cs 0 toy_md5 "[9, 9]" "''00''" "list_table part_schema"]
    by (simp add: example_up_def numeral_2_eq_2) blast
qed

end
