(* ===== verification/BackupStore.thy ===== *)
theory BackupStore
  imports UploadStore
begin

text \<open>
  The records of backups and restores: \<open>internal/storage/backup.go\<close> over the models \<open>BackupItem\<close>
  and \<open>RestoreItem\<close>. The two tables are parameters (theory \<open>Table\<close>). A condition or an update given
  to gorm as a struct uses the non-zero fields only; a delete or an update left without a condition
  is refused. Both are written out here. \<open>now\<close> is the time that gorm puts into \<open>updated_at\<close>.
\<close>

section \<open>Models\<close>

datatype BackupState = BackupPending | BackupRunning | BackupSuccess | BackupFailed | BackupCancel
datatype RestoreState = RestorePending | RestoreRunning | RestoreSuccess | RestoreFailed | RestoreCancel

record BackupItem =
  bi_pk :: nat
  bi_id :: int
  bi_path :: string
  bi_manifest :: string
  bi_msize :: u64
  bi_ssize :: u64
  bi_state :: BackupState
  bi_extra :: string
  bi_user :: string
  bi_updated :: int

record RestoreItem =
  ri_pk :: nat
  ri_id :: int
  ri_backup :: int
  ri_dst :: string
  ri_manifest :: string
  ri_size :: u64
  ri_state :: RestoreState
  ri_extra :: string
  ri_updated :: int

record BackupDetail =
  bd_ID :: string
  bd_SnapshotSize :: i64
  bd_ManifestSize :: i64

definition backup_schema :: "BackupItem schema" where
  "backup_schema = \<lparr> s_id = bi_pk, s_set_id = (\<lambda>i. bi_pk_update (\<lambda>_. i)),
     s_clash = (\<lambda>x y. bi_id x = bi_id y) \<rparr>"

definition restore_schema :: "RestoreItem schema" where
  "restore_schema = \<lparr> s_id = ri_pk, s_set_id = (\<lambda>i. ri_pk_update (\<lambda>_. i)),
     s_clash = (\<lambda>x y. ri_id x = ri_id y) \<rparr>"

lemma bschema_simps [simp]:
  "s_id backup_schema = bi_pk" "s_set_id backup_schema i = bi_pk_update (\<lambda>_. i)"
  "s_clash backup_schema x y \<longleftrightarrow> bi_id x = bi_id y"
  "s_id restore_schema = ri_pk" "s_set_id restore_schema i = ri_pk_update (\<lambda>_. i)"
  "s_clash restore_schema p q \<longleftrightarrow> ri_id p = ri_id q"
  by (simp_all add: backup_schema_def restore_schema_def)

lemma bschemas_ok: "schema_ok backup_schema" "schema_ok restore_schema"
  by (auto simp: schema_ok_def)

record ('b, 'r) bworld =
  bw_b :: 'b
  bw_r :: 'r

type_synonym 'b btab = "('b, BackupItem) table_ops"
type_synonym 'r rtab = "('r, RestoreItem) table_ops"

datatype bstore_error = ErrNoSuchRecord | BErrDB | BErrMissingWhere

section \<open>Conditions and updates by struct\<close>

definition nz :: "int \<Rightarrow> int \<Rightarrow> bool" where "nz v x \<longleftrightarrow> v = 0 \<or> x = v"
definition nzs :: "string \<Rightarrow> string \<Rightarrow> bool" where "nzs v x \<longleftrightarrow> v = [] \<or> x = v"
definition setw :: "u64 \<Rightarrow> u64 \<Rightarrow> u64" where "setw v old = (if v = 0 then old else v)"
definition sets :: "string \<Rightarrow> string \<Rightarrow> string" where "sets v old = (if v = [] then old else v)"

text \<open>A statement whose error is returned; the table is left as it is on error.\<close>

definition exec_b :: "'b option \<Rightarrow> ('b, 'r) bworld \<Rightarrow> bstore_error option \<times> ('b, 'r) bworld" where
  "exec_b res w = (case res of None \<Rightarrow> (Some BErrDB, w) | Some t \<Rightarrow> (None, w\<lparr>bw_b := t\<rparr>))"

definition exec_r :: "'r option \<Rightarrow> ('b, 'r) bworld \<Rightarrow> bstore_error option \<times> ('b, 'r) bworld" where
  "exec_r res w = (case res of None \<Rightarrow> (Some BErrDB, w) | Some t \<Rightarrow> (None, w\<lparr>bw_r := t\<rparr>))"

section \<open>Operations on backups\<close>

definition NewBackup :: "'b btab \<Rightarrow> int \<Rightarrow> int \<Rightarrow> string \<Rightarrow> string \<Rightarrow> BackupState option \<Rightarrow>
    ('b, 'r) bworld \<Rightarrow> bstore_error option \<times> ('b, 'r) bworld" where
  "NewBackup TB now bid path user st w =
     (let state = (case st of None \<Rightarrow> BackupRunning | Some s \<Rightarrow> s)
      in exec_b (t_upsert TB (\<lambda>x r. bi_id x = bi_id r)
            (\<lambda>x r. x\<lparr>bi_path := bi_path r, bi_state := bi_state r, bi_updated := bi_updated r,
                     bi_extra := bi_extra r\<rparr>)
            \<lparr> bi_pk = 0, bi_id = bid, bi_path = path, bi_manifest = [], bi_msize = 0, bi_ssize = 0,
              bi_state = state, bi_extra = [], bi_user = user, bi_updated = now \<rparr> (bw_b w)) w)"

definition done_update :: "int \<Rightarrow> BackupDetail \<Rightarrow> BackupState \<Rightarrow> string \<Rightarrow> BackupItem \<Rightarrow> BackupItem" where
  "done_update now d state extra x =
     x\<lparr>bi_state := state, bi_manifest := sets (bd_ID d) (bi_manifest x),
       bi_msize := setw (bd_ManifestSize d) (bi_msize x),
       bi_ssize := setw (bd_SnapshotSize d) (bi_ssize x),
       bi_extra := sets extra (bi_extra x), bi_updated := now\<rparr>"

definition DoneBackup :: "'b btab \<Rightarrow> int \<Rightarrow> int \<Rightarrow> BackupDetail \<Rightarrow> BackupState \<Rightarrow> string \<Rightarrow>
    ('b, 'r) bworld \<Rightarrow> bstore_error option \<times> ('b, 'r) bworld" where
  "DoneBackup TB now bid d state extra w =
     (if bid = 0 then (Some BErrMissingWhere, w)
      else exec_b (t_update TB (\<lambda>x. bi_id x = bid) (done_update now d state extra) (bw_b w)) w)"

definition LoadBackup :: "'b btab \<Rightarrow> int \<Rightarrow> ('b, 'r) bworld \<Rightarrow> bstore_error + BackupItem" where
  "LoadBackup TB bid w = (case find1 TB (\<lambda>x. nz bid (bi_id x)) (bw_b w) of
     Some x \<Rightarrow> Inr x | None \<Rightarrow> Inl ErrNoSuchRecord)"

definition LoadPendingOrRunningBackup :: "'b btab \<Rightarrow> string \<Rightarrow> ('b, 'r) bworld \<Rightarrow> bstore_error + BackupItem" where
  "LoadPendingOrRunningBackup TB path w =
     (case find1 TB (\<lambda>x. nzs path (bi_path x) \<and> (bi_state x = BackupPending \<or> bi_state x = BackupRunning))
             (bw_b w) of
        Some x \<Rightarrow> Inr x | None \<Rightarrow> Inl ErrNoSuchRecord)"

definition LoadBackups :: "'b btab \<Rightarrow> BackupState \<Rightarrow> ('b, 'r) bworld \<Rightarrow> bstore_error + BackupItem list" where
  "LoadBackups TB st w = (case t_find TB (\<lambda>x. bi_state x = st) (bw_b w) of
     Some xs \<Rightarrow> Inr xs | None \<Rightarrow> Inl BErrDB)"

definition DeleteBackup :: "'b btab \<Rightarrow> int \<Rightarrow> ('b, 'r) bworld \<Rightarrow> bstore_error option \<times> ('b, 'r) bworld" where
  "DeleteBackup TB bid w =
     (if bid = 0 then (Some BErrMissingWhere, w) else exec_b (t_delete TB (\<lambda>x. bi_id x = bid) (bw_b w)) w)"

definition DeleteBackups :: "'b btab \<Rightarrow> ('b, 'r) bworld \<Rightarrow> bstore_error option \<times> ('b, 'r) bworld" where
  "DeleteBackups TB w = exec_b (t_delete TB (\<lambda>_. True) (bw_b w)) w"

section \<open>Operations on restores\<close>

definition NewRestore :: "'b btab \<Rightarrow> 'r rtab \<Rightarrow> int \<Rightarrow> int \<Rightarrow> int \<Rightarrow> string \<Rightarrow> RestoreState option \<Rightarrow>
    ('b, 'r) bworld \<Rightarrow> bstore_error option \<times> ('b, 'r) bworld" where
  "NewRestore TB TR now rid bid path st w =
     (let manifest = (case LoadBackup TB bid w of Inr x \<Rightarrow> bi_manifest x | Inl _ \<Rightarrow> []);
          state = (case st of None \<Rightarrow> RestoreRunning | Some s \<Rightarrow> s)
      in exec_r (t_upsert TR (\<lambda>x r. ri_id x = ri_id r)
            (\<lambda>x r. x\<lparr>ri_backup := ri_backup r, ri_manifest := ri_manifest r, ri_state := ri_state r,
                     ri_updated := ri_updated r\<rparr>)
            \<lparr> ri_pk = 0, ri_id = rid, ri_backup = bid, ri_dst = path, ri_manifest = manifest,
              ri_size = 0, ri_state = state, ri_extra = [], ri_updated = now \<rparr> (bw_r w)) w)"

definition DoneRestore :: "'r rtab \<Rightarrow> int \<Rightarrow> int \<Rightarrow> i64 \<Rightarrow> RestoreState \<Rightarrow> string \<Rightarrow>
    ('b, 'r) bworld \<Rightarrow> bstore_error option \<times> ('b, 'r) bworld" where
  "DoneRestore TR now rid sz state extra w =
     (if rid = 0 then (Some BErrMissingWhere, w)
      else exec_r (t_update TR (\<lambda>x. ri_id x = rid)
             (\<lambda>x. x\<lparr>ri_state := state, ri_size := setw sz (ri_size x),
                    ri_extra := sets extra (ri_extra x), ri_updated := now\<rparr>) (bw_r w)) w)"

definition LoadRestores :: "'r rtab \<Rightarrow> RestoreState \<Rightarrow> ('b, 'r) bworld \<Rightarrow> bstore_error + RestoreItem list" where
  "LoadRestores TR st w = (case t_find TR (\<lambda>x. ri_state x = st) (bw_r w) of
     Some xs \<Rightarrow> Inr xs | None \<Rightarrow> Inl BErrDB)"

definition LoadRestore :: "'r rtab \<Rightarrow> int \<Rightarrow> ('b, 'r) bworld \<Rightarrow> bstore_error + RestoreItem" where
  "LoadRestore TR rid w = (case find1 TR (\<lambda>x. nz rid (ri_id x)) (bw_r w) of
     Some x \<Rightarrow> Inr x | None \<Rightarrow> Inl ErrNoSuchRecord)"

definition LoadPendingOrRunningRestore :: "'r rtab \<Rightarrow> int \<Rightarrow> ('b, 'r) bworld \<Rightarrow>
    bstore_error + RestoreItem list" where
  "LoadPendingOrRunningRestore TR bid w =
     (case t_find TR (\<lambda>x. nz bid (ri_backup x) \<and> (ri_state x = RestorePending \<or> ri_state x = RestoreRunning))
             (bw_r w) of
        Some (x # xs) \<Rightarrow> Inr (x # xs) | _ \<Rightarrow> Inl ErrNoSuchRecord)"

definition DeleteRestores :: "'r rtab \<Rightarrow> ('b, 'r) bworld \<Rightarrow> bstore_error option \<times> ('b, 'r) bworld" where
  "DeleteRestores TR w = exec_r (t_delete TR (\<lambda>_. True) (bw_r w)) w"

section \<open>Scavenging\<close>

text \<open>A record that has been running for more than twelve hours becomes failed. The errors of the
  single statements are logged only.\<close>

definition scavenge_b :: "'b btab \<Rightarrow> int \<Rightarrow> BackupItem \<Rightarrow> ('b, 'r) bworld \<Rightarrow> ('b, 'r) bworld" where
  "scavenge_b TB now item w = snd (exec_b (t_update TB (\<lambda>x. bi_pk x = bi_pk item)
     (\<lambda>x. x\<lparr>bi_state := BackupFailed, bi_extra := ''scavenge canceled'', bi_updated := now\<rparr>) (bw_b w)) w)"

definition scavenge_r :: "'r rtab \<Rightarrow> int \<Rightarrow> RestoreItem \<Rightarrow> ('b, 'r) bworld \<Rightarrow> ('b, 'r) bworld" where
  "scavenge_r TR now item w = snd (exec_r (t_update TR (\<lambda>x. ri_pk x = ri_pk item)
     (\<lambda>x. x\<lparr>ri_state := RestoreFailed, ri_extra := ''scavenge canceled'', ri_updated := now\<rparr>) (bw_r w)) w)"

definition ScavengeBackup :: "'b btab \<Rightarrow> 'r rtab \<Rightarrow> int \<Rightarrow> ('b, 'r) bworld \<Rightarrow> ('b, 'r) bworld" where
  "ScavengeBackup TB TR now w =
     (let stale_b = (case t_find TB (\<lambda>x. bi_state x = BackupRunning \<and> bi_updated x < now - 12 * hour) (bw_b w) of
                       None \<Rightarrow> [] | Some xs \<Rightarrow> xs);
          w1 = fold (scavenge_b TB now) stale_b w;
          stale_r = (case t_find TR (\<lambda>x. ri_state x = RestoreRunning \<and> ri_updated x < now - 12 * hour) (bw_r w1) of
                       None \<Rightarrow> [] | Some xs \<Rightarrow> xs)
      in fold (scavenge_r TR now) stale_r w1)"

section \<open>The invariant: one record per backup and per restore\<close>

definition bw_inv :: "'b btab \<Rightarrow> 'r rtab \<Rightarrow> ('b, 'r) bworld \<Rightarrow> bool" where
  "bw_inv TB TR w \<longleftrightarrow> unique_rows backup_schema (rows TB (bw_b w))
     \<and> unique_rows restore_schema (rows TR (bw_r w))"

lemma nz_simps [simp]: "v \<noteq> 0 \<Longrightarrow> nz v x \<longleftrightarrow> x = v" "nz 0 x"
  by (auto simp: nz_def)

lemma NewBackup_rows:
  assumes TB: "table_ok TB backup_schema" and i: "bw_inv TB TR w"
  shows "\<exists>t. NewBackup TB now bid path user st w = (None, w\<lparr>bw_b := t\<rparr>)
    \<and> bw_inv TB TR (w\<lparr>bw_b := t\<rparr>)
    \<and> (if \<exists>x\<in>set (rows TB (bw_b w)). bi_id x = bid
       then rows TB t = map (\<lambda>x. if bi_id x = bid then x\<lparr>bi_path := path,
              bi_state := (case st of None \<Rightarrow> BackupRunning | Some s \<Rightarrow> s), bi_updated := now,
              bi_extra := []\<rparr> else x) (rows TB (bw_b w))
       else \<exists>k. rows TB t = rows TB (bw_b w) @ [\<lparr> bi_pk = k, bi_id = bid, bi_path = path,
              bi_manifest = [], bi_msize = 0, bi_ssize = 0,
              bi_state = (case st of None \<Rightarrow> BackupRunning | Some s \<Rightarrow> s), bi_extra = [],
              bi_user = user, bi_updated = now \<rparr>])"
proof -
  let ?r = "\<lparr> bi_pk = 0, bi_id = bid, bi_path = path, bi_manifest = [], bi_msize = 0, bi_ssize = 0,
              bi_state = (case st of None \<Rightarrow> BackupRunning | Some s \<Rightarrow> s), bi_extra = [],
              bi_user = user, bi_updated = now \<rparr>"
  let ?f = "\<lambda>x r. x\<lparr>bi_path := bi_path r, bi_state := bi_state r, bi_updated := bi_updated r,
                     bi_extra := bi_extra r\<rparr>"
  have "unique_rows backup_schema (rows TB (bw_b w))" using i by (simp add: bw_inv_def)
  from upsert_by_key[where key = bi_id and f = ?f and r = ?r, OF TB bschemas_ok(1) _ refl this]
  obtain t where t: "t_upsert TB (\<lambda>x r. bi_id x = bi_id r) ?f ?r (bw_b w) = Some t"
    "unique_rows backup_schema (rows TB t)"
    "if \<exists>x\<in>set (rows TB (bw_b w)). bi_id x = bi_id ?r
       then rows TB t = map (\<lambda>x. if bi_id x = bi_id ?r then ?f x ?r else x) (rows TB (bw_b w))
       else \<exists>i. rows TB t = rows TB (bw_b w) @ [s_set_id backup_schema i ?r]"
    by auto
  have "NewBackup TB now bid path user st w = (None, w\<lparr>bw_b := t\<rparr>)"
    using t(1) by (simp add: NewBackup_def exec_b_def)
  then show ?thesis using t(2,3) i
    by (intro exI[of _ t]) (simp add: bw_inv_def cong: if_cong split: if_split_asm)
qed

lemma DoneBackup_rows:
  assumes TB: "table_ok TB backup_schema" and i: "bw_inv TB TR w" and "bid \<noteq> 0"
  shows "\<exists>t. DoneBackup TB now bid d st extra w = (None, w\<lparr>bw_b := t\<rparr>) \<and> bw_inv TB TR (w\<lparr>bw_b := t\<rparr>)
    \<and> rows TB t = map (\<lambda>x. if bi_id x = bid then done_update now d st extra x else x) (rows TB (bw_b w))"
proof -
  have "unique_rows backup_schema (rows TB (bw_b w))" using i by (simp add: bw_inv_def)
  from update_by_key[where f = "done_update now d st extra" and P = "\<lambda>x. bi_id x = bid", OF TB this]
  obtain t where "t_update TB (\<lambda>x. bi_id x = bid) (done_update now d st extra) (bw_b w) = Some t"
    "unique_rows backup_schema (rows TB t)"
    "rows TB t = map (\<lambda>x. if bi_id x = bid then done_update now d st extra x else x) (rows TB (bw_b w))"
    by (auto simp: done_update_def)
  then show ?thesis using i assms(3) by (intro exI[of _ t]) (simp add: DoneBackup_def exec_b_def bw_inv_def)
qed

lemma LoadBackup_iff:
  assumes TB: "table_ok TB backup_schema" and i: "bw_inv TB TR w" and "bid \<noteq> 0"
  shows "LoadBackup TB bid w = Inr x \<longleftrightarrow> x \<in> set (rows TB (bw_b w)) \<and> bi_id x = bid"
proof -
  have "unique_rows backup_schema (rows TB (bw_b w))" using i by (simp add: bw_inv_def)
  then have "find1 TB (\<lambda>x. bi_id x = bid) (bw_b w) = Some x \<longleftrightarrow> x \<in> set (rows TB (bw_b w)) \<and> bi_id x = bid"
    by (intro find1_by_key[OF TB]) simp_all
  then show ?thesis using assms(3) by (auto simp: LoadBackup_def split: option.split)
qed

lemma NewRestore_rows:
  assumes TR: "table_ok TR restore_schema" and i: "bw_inv TB TR w"
  shows "\<exists>t. NewRestore TB TR now rid bid path st w = (None, w\<lparr>bw_r := t\<rparr>)
    \<and> bw_inv TB TR (w\<lparr>bw_r := t\<rparr>)
    \<and> (if \<exists>x\<in>set (rows TR (bw_r w)). ri_id x = rid
       then rows TR t = map (\<lambda>x. if ri_id x = rid then x\<lparr>ri_backup := bid,
              ri_manifest := (case LoadBackup TB bid w of Inr x \<Rightarrow> bi_manifest x | Inl _ \<Rightarrow> []),
              ri_state := (case st of None \<Rightarrow> RestoreRunning | Some s \<Rightarrow> s), ri_updated := now\<rparr>
              else x) (rows TR (bw_r w))
       else \<exists>k. rows TR t = rows TR (bw_r w) @ [\<lparr> ri_pk = k, ri_id = rid, ri_backup = bid,
              ri_dst = path, ri_manifest = (case LoadBackup TB bid w of Inr x \<Rightarrow> bi_manifest x | Inl _ \<Rightarrow> []),
              ri_size = 0, ri_state = (case st of None \<Rightarrow> RestoreRunning | Some s \<Rightarrow> s),
              ri_extra = [], ri_updated = now \<rparr>])"
proof -
  let ?m = "case LoadBackup TB bid w of Inr x \<Rightarrow> bi_manifest x | Inl _ \<Rightarrow> []"
  let ?r = "\<lparr> ri_pk = 0, ri_id = rid, ri_backup = bid, ri_dst = path, ri_manifest = ?m,
      ri_size = 0, ri_state = (case st of None \<Rightarrow> RestoreRunning | Some s \<Rightarrow> s), ri_extra = [],
      ri_updated = now \<rparr>"
  let ?f = "\<lambda>x r. x\<lparr>ri_backup := ri_backup r, ri_manifest := ri_manifest r, ri_state := ri_state r,
                     ri_updated := ri_updated r\<rparr>"
  have "unique_rows restore_schema (rows TR (bw_r w))" using i by (simp add: bw_inv_def)
  from upsert_by_key[where key = ri_id and f = ?f and r = ?r, OF TR bschemas_ok(2) _ refl this]
  obtain t where t: "t_upsert TR (\<lambda>x r. ri_id x = ri_id r) ?f ?r (bw_r w) = Some t"
    "unique_rows restore_schema (rows TR t)"
    "if \<exists>x\<in>set (rows TR (bw_r w)). ri_id x = ri_id ?r
       then rows TR t = map (\<lambda>x. if ri_id x = ri_id ?r then ?f x ?r else x) (rows TR (bw_r w))
       else \<exists>i. rows TR t = rows TR (bw_r w) @ [s_set_id restore_schema i ?r]"
    by auto
  have "NewRestore TB TR now rid bid path st w = (None, w\<lparr>bw_r := t\<rparr>)"
    using t(1) by (simp add: NewRestore_def exec_r_def Let_def)
  then show ?thesis using t(2,3) i
    by (intro exI[of _ t]) (simp add: bw_inv_def cong: if_cong split: if_split_asm)
qed

lemma DoneRestore_rows:
  assumes TR: "table_ok TR restore_schema" and i: "bw_inv TB TR w" and "rid \<noteq> 0"
  shows "\<exists>t. DoneRestore TR now rid sz st extra w = (None, w\<lparr>bw_r := t\<rparr>) \<and> bw_inv TB TR (w\<lparr>bw_r := t\<rparr>)
    \<and> rows TR t = map (\<lambda>x. if ri_id x = rid then x\<lparr>ri_state := st, ri_size := setw sz (ri_size x),
          ri_extra := sets extra (ri_extra x), ri_updated := now\<rparr> else x) (rows TR (bw_r w))"
proof -
  let ?f = "\<lambda>x. x\<lparr>ri_state := st, ri_size := setw sz (ri_size x),
          ri_extra := sets extra (ri_extra x), ri_updated := now\<rparr>"
  have "unique_rows restore_schema (rows TR (bw_r w))" using i by (simp add: bw_inv_def)
  from update_by_key[where f = ?f and P = "\<lambda>x. ri_id x = rid", OF TR this]
  obtain t where "t_update TR (\<lambda>x. ri_id x = rid) ?f (bw_r w) = Some t"
    "unique_rows restore_schema (rows TR t)"
    "rows TR t = map (\<lambda>x. if ri_id x = rid then ?f x else x) (rows TR (bw_r w))"
    by auto
  then show ?thesis using i assms(3) by (intro exI[of _ t]) (simp add: DoneRestore_def exec_r_def bw_inv_def)
qed

lemma LoadRestore_iff:
  assumes TR: "table_ok TR restore_schema" and i: "bw_inv TB TR w" and "rid \<noteq> 0"
  shows "LoadRestore TR rid w = Inr x \<longleftrightarrow> x \<in> set (rows TR (bw_r w)) \<and> ri_id x = rid"
proof -
  have "unique_rows restore_schema (rows TR (bw_r w))" using i by (simp add: bw_inv_def)
  then have "find1 TR (\<lambda>x. ri_id x = rid) (bw_r w) = Some x \<longleftrightarrow> x \<in> set (rows TR (bw_r w)) \<and> ri_id x = rid"
    by (intro find1_by_key[OF TR]) simp_all
  then show ?thesis using assms(3) by (auto simp: LoadRestore_def split: option.split)
qed

section \<open>Properties\<close>

lemma LoadBackup_eq:
  assumes TB: "table_ok TB backup_schema" and i: "bw_inv TB TR w" "bw_inv TB TR' w'" and b: "b \<noteq> 0"
    and s: "{x \<in> set (rows TB (bw_b w)). bi_id x = b} = {x \<in> set (rows TB (bw_b w')). bi_id x = b}"
  shows "LoadBackup TB b w = LoadBackup TB b w'"
proof (cases "LoadBackup TB b w")
  case (Inr x)
  then have "x \<in> {x \<in> set (rows TB (bw_b w)). bi_id x = b}"
    using LoadBackup_iff[OF TB i(1) b] by simp
  then show ?thesis using Inr LoadBackup_iff[OF TB i(2) b, of x] unfolding s by simp
next
  case (Inl e)
  have "LoadBackup TB b w' = Inr x \<Longrightarrow> False" for x
  proof -
    assume "LoadBackup TB b w' = Inr x"
    then have "x \<in> {x \<in> set (rows TB (bw_b w')). bi_id x = b}"
      using LoadBackup_iff[OF TB i(2) b] by simp
    then show False using Inl LoadBackup_iff[OF TB i(1) b, of x] unfolding s[symmetric] by simp
  qed
  then have "\<exists>e'. LoadBackup TB b w' = Inl e'" by (cases "LoadBackup TB b w'") auto
  then show ?thesis using Inl by (auto simp: LoadBackup_def split: option.splits)
qed

text \<open>The record of a backup follows its life. \<open>NewBackup\<close> makes the backup loadable under its id
  with the path and the state asked for, whether it existed before or not; \<open>DoneBackup\<close> then moves
  that record to the given final state, with the manifest when one is reported; the records of all
  other backups are what they were, and there is never more than one record per id.\<close>

theorem backup_record_lifecycle:
  assumes TB: "table_ok TB backup_schema" and i: "bw_inv TB TR w" and b: "bid \<noteq> 0"
  shows "\<exists>w1 x w2 y.
      NewBackup TB t0 bid path user st w = (None, w1) \<and> LoadBackup TB bid w1 = Inr x
    \<and> bi_path x = path \<and> bi_extra x = [] \<and> bi_state x = (case st of None \<Rightarrow> BackupRunning | Some s \<Rightarrow> s)
    \<and> DoneBackup TB t1 bid d st' extra w1 = (None, w2) \<and> LoadBackup TB bid w2 = Inr y
    \<and> y = done_update t1 d st' extra x \<and> bw_inv TB TR w2
    \<and> (\<forall>b'. b' \<noteq> 0 \<and> b' \<noteq> bid \<longrightarrow> LoadBackup TB b' w2 = LoadBackup TB b' w)"
proof -
  obtain t where t: "NewBackup TB t0 bid path user st w = (None, w\<lparr>bw_b := t\<rparr>)"
    "bw_inv TB TR (w\<lparr>bw_b := t\<rparr>)"
    "if \<exists>x\<in>set (rows TB (bw_b w)). bi_id x = bid
       then rows TB t = map (\<lambda>x. if bi_id x = bid then x\<lparr>bi_path := path,
              bi_state := (case st of None \<Rightarrow> BackupRunning | Some s \<Rightarrow> s), bi_updated := t0,
              bi_extra := []\<rparr> else x) (rows TB (bw_b w))
       else \<exists>k. rows TB t = rows TB (bw_b w) @ [\<lparr> bi_pk = k, bi_id = bid, bi_path = path,
              bi_manifest = [], bi_msize = 0, bi_ssize = 0,
              bi_state = (case st of None \<Rightarrow> BackupRunning | Some s \<Rightarrow> s), bi_extra = [],
              bi_user = user, bi_updated = t0 \<rparr>]"
    using NewBackup_rows[OF TB i] by blast
  have ex: "\<exists>x\<in>set (rows TB t). bi_id x = bid \<and> bi_path x = path \<and> bi_extra x = []
      \<and> bi_state x = (case st of None \<Rightarrow> BackupRunning | Some s \<Rightarrow> s)"
  proof (cases "\<exists>x\<in>set (rows TB (bw_b w)). bi_id x = bid")
    case True
    then obtain x where x: "x \<in> set (rows TB (bw_b w))" "bi_id x = bid" by blast
    let ?x = "x\<lparr>bi_path := path, bi_state := (case st of None \<Rightarrow> BackupRunning | Some s \<Rightarrow> s),
        bi_updated := t0, bi_extra := []\<rparr>"
    have "?x \<in> set (rows TB t)" using t(3) True x
      by (simp only: if_True set_map) (rule image_eqI[OF _ x(1)], simp)
    then show ?thesis using x(2) by (intro bexI[of _ ?x]) simp_all
  next
    case False
    then show ?thesis using t(3) by (simp only: if_False) fastforce
  qed
  have other1: "{x \<in> set (rows TB t). bi_id x = b'} = {x \<in> set (rows TB (bw_b w)). bi_id x = b'}"
    if "b' \<noteq> bid" for b'
    using t(3) that by (cases "\<exists>x\<in>set (rows TB (bw_b w)). bi_id x = bid") auto
  obtain x where x: "x \<in> set (rows TB t)" "bi_id x = bid" "bi_path x = path" "bi_extra x = []"
      "bi_state x = (case st of None \<Rightarrow> BackupRunning | Some s \<Rightarrow> s)" using ex by blast
  obtain t2 where t2: "DoneBackup TB t1 bid d st' extra (w\<lparr>bw_b := t\<rparr>) = (None, w\<lparr>bw_b := t2\<rparr>)"
    "bw_inv TB TR (w\<lparr>bw_b := t2\<rparr>)"
    "rows TB t2 = map (\<lambda>x. if bi_id x = bid then done_update t1 d st' extra x else x) (rows TB t)"
    using DoneBackup_rows[OF TB t(2) b, of t1 d st' extra] by auto
  have other2: "{x \<in> set (rows TB t2). bi_id x = b'} = {x \<in> set (rows TB t). bi_id x = b'}"
    if "b' \<noteq> bid" for b'
    using that unfolding t2(3) by (auto simp: done_update_def)
  have "done_update t1 d st' extra x \<in> set (rows TB t2)"
    unfolding t2(3) set_map by (rule image_eqI[OF _ x(1)]) (simp add: x(2))
  then have "LoadBackup TB bid (w\<lparr>bw_b := t2\<rparr>) = Inr (done_update t1 d st' extra x)"
    using LoadBackup_iff[OF TB t2(2) b] x(2) by (simp add: done_update_def)
  moreover have "LoadBackup TB bid (w\<lparr>bw_b := t\<rparr>) = Inr x"
    using LoadBackup_iff[OF TB t(2) b] x(1,2) by simp
  moreover have "LoadBackup TB b' (w\<lparr>bw_b := t2\<rparr>) = LoadBackup TB b' w" if "b' \<noteq> 0 \<and> b' \<noteq> bid" for b'
    by (rule LoadBackup_eq[OF TB t2(2) i]) (use that other1 other2 in auto)
  ultimately show ?thesis using t(1) t2(1,2) x(3-5) by blast
qed

definition ex_bworld :: "(BackupItem list, RestoreItem list) bworld" where
  "ex_bworld = \<lparr>bw_b = [\<lparr> bi_pk = 1, bi_id = 7, bi_path = ''/d'', bi_manifest = ''m'', bi_msize = 1,
     bi_ssize = 1, bi_state = BackupSuccess, bi_extra = [], bi_user = ''al'', bi_updated = 0 \<rparr>], bw_r = []\<rparr>"

abbreviation LB :: "(BackupItem list, BackupItem) table_ops" where "LB \<equiv> list_table backup_schema"
abbreviation LR :: "(RestoreItem list, RestoreItem) table_ops" where "LR \<equiv> list_table restore_schema"

lemma ex_bworld_inv: "bw_inv LB LR ex_bworld"
  by (simp add: bw_inv_def unique_rows_def ex_bworld_def)

theorem backup_record_lifecycle_witness:
  "\<exists>w1 w2 y. NewBackup LB 10 8 ''/e'' ''al'' None ex_bworld = (None, w1)
    \<and> DoneBackup LB 20 8 \<lparr>bd_ID = ''k'', bd_SnapshotSize = 5, bd_ManifestSize = 6\<rparr> BackupSuccess [] w1 = (None, w2)
    \<and> LoadBackup LB 8 w2 = Inr y \<and> bi_state y = BackupSuccess \<and> bi_manifest y = ''k''
    \<and> LoadBackup LB 7 w2 = LoadBackup LB 7 ex_bworld"
proof -
  obtain w1 x w2 y where r: "NewBackup LB 10 8 ''/e'' ''al'' None ex_bworld = (None, w1)"
    "DoneBackup LB 20 8 \<lparr>bd_ID = ''k'', bd_SnapshotSize = 5, bd_ManifestSize = 6\<rparr> BackupSuccess [] w1 = (None, w2)"
    "LoadBackup LB 8 w2 = Inr y"
    "y = done_update 20 \<lparr>bd_ID = ''k'', bd_SnapshotSize = 5, bd_ManifestSize = 6\<rparr> BackupSuccess [] x"
    "\<forall>b'. b' \<noteq> 0 \<and> b' \<noteq> 8 \<longrightarrow> LoadBackup LB b' w2 = LoadBackup LB b' ex_bworld"
    using backup_record_lifecycle[OF list_table_ok ex_bworld_inv, of 8 10 "''/e''" "''al''" None 20
        "\<lparr>bd_ID = ''k'', bd_SnapshotSize = 5, bd_ManifestSize = 6\<rparr>" BackupSuccess "[]"] by auto
  then show ?thesis by (simp add: done_update_def sets_def)
qed

definition fail_b :: "int \<Rightarrow> BackupItem \<Rightarrow> BackupItem" where
  "fail_b now x = x\<lparr>bi_state := BackupFailed, bi_extra := ''scavenge canceled'', bi_updated := now\<rparr>"
definition fail_r :: "int \<Rightarrow> RestoreItem \<Rightarrow> RestoreItem" where
  "fail_r now x = x\<lparr>ri_state := RestoreFailed, ri_extra := ''scavenge canceled'', ri_updated := now\<rparr>"

definition stale_b :: "int \<Rightarrow> BackupItem \<Rightarrow> bool" where
  "stale_b now x \<longleftrightarrow> bi_state x = BackupRunning \<and> bi_updated x < now - 12 * hour"
definition stale_r :: "int \<Rightarrow> RestoreItem \<Rightarrow> bool" where
  "stale_r now x \<longleftrightarrow> ri_state x = RestoreRunning \<and> ri_updated x < now - 12 * hour"

lemma fold_scavenge_b:
  assumes TB: "table_ok TB backup_schema"
  shows "rows TB (bw_b (fold (scavenge_b TB now) xs w))
      = map (\<lambda>x. if bi_pk x \<in> bi_pk ` set xs then fail_b now x else x) (rows TB (bw_b w))
    \<and> bw_r (fold (scavenge_b TB now) xs w) = bw_r w"
proof (induction xs arbitrary: w)
  case (Cons a xs)
  obtain t where t: "t_update TB (\<lambda>x. bi_pk x = bi_pk a) (fail_b now) (bw_b w) = Some t"
    "rows TB t = map (\<lambda>x. if bi_pk x = bi_pk a then fail_b now x else x) (rows TB (bw_b w))"
    using t_update_rows[OF TB, of "fail_b now" "\<lambda>x. bi_pk x = bi_pk a" "bw_b w"]
    by (auto simp: fail_b_def)
  have s: "scavenge_b TB now a w = w\<lparr>bw_b := t\<rparr>"
    using t(1) by (simp add: scavenge_b_def exec_b_def fail_b_def[abs_def])
  show ?case using Cons[of "w\<lparr>bw_b := t\<rparr>"] by (auto simp: s t(2) fail_b_def)
qed simp

lemma fold_scavenge_r:
  assumes TR: "table_ok TR restore_schema"
  shows "rows TR (bw_r (fold (scavenge_r TR now) xs w))
      = map (\<lambda>x. if ri_pk x \<in> ri_pk ` set xs then fail_r now x else x) (rows TR (bw_r w))
    \<and> bw_b (fold (scavenge_r TR now) xs w) = bw_b w"
proof (induction xs arbitrary: w)
  case (Cons a xs)
  obtain t where t: "t_update TR (\<lambda>x. ri_pk x = ri_pk a) (fail_r now) (bw_r w) = Some t"
    "rows TR t = map (\<lambda>x. if ri_pk x = ri_pk a then fail_r now x else x) (rows TR (bw_r w))"
    using t_update_rows[OF TR, of "fail_r now" "\<lambda>x. ri_pk x = ri_pk a" "bw_r w"]
    by (auto simp: fail_r_def)
  have s: "scavenge_r TR now a w = w\<lparr>bw_r := t\<rparr>"
    using t(1) by (simp add: scavenge_r_def exec_r_def fail_r_def[abs_def])
  show ?case using Cons[of "w\<lparr>bw_r := t\<rparr>"] by (auto simp: s t(2) fail_r_def)
qed simp

lemma map_stale:
  assumes "unique_rows S rs"
  shows "map (\<lambda>x. if s_id S x \<in> s_id S ` set (filter P rs) then f x else x) rs
    = map (\<lambda>x. if P x then f x else x) rs"
proof (rule map_cong[OF refl])
  fix x assume x: "x \<in> set rs"
  have "s_id S x \<in> s_id S ` set (filter P rs) \<longleftrightarrow> P x"
  proof
    assume "s_id S x \<in> s_id S ` set (filter P rs)"
    then obtain y where y: "y \<in> set rs" "P y" "s_id S x = s_id S y" by auto
    then show "P x" using unique_id[OF assms x y(1)] by simp
  qed (use x in auto)
  then show "(if s_id S x \<in> s_id S ` set (filter P rs) then f x else x) = (if P x then f x else x)"
    by simp
qed

lemma scavenge_rows:
  assumes TB: "table_ok TB backup_schema" and TR: "table_ok TR restore_schema"
    and i: "bw_inv TB TR w" and w': "w' = ScavengeBackup TB TR now w"
  shows "rows TB (bw_b w') = map (\<lambda>x. if stale_b now x then fail_b now x else x) (rows TB (bw_b w))
    \<and> rows TR (bw_r w') = map (\<lambda>x. if stale_r now x then fail_r now x else x) (rows TR (bw_r w))"
proof -
  have U: "unique_rows backup_schema (rows TB (bw_b w))" "unique_rows restore_schema (rows TR (bw_r w))"
    using i by (simp_all add: bw_inv_def)
  let ?sb = "filter (stale_b now) (rows TB (bw_b w))" and ?sr = "filter (stale_r now) (rows TR (bw_r w))"
  have "w' = fold (scavenge_r TR now) ?sr (fold (scavenge_b TB now) ?sb w)"
    using fold_scavenge_b[OF TB, of now ?sb w] unfolding w'
    by (simp add: ScavengeBackup_def Let_def table_okD(1)[OF TB] table_okD(1)[OF TR]
        stale_b_def[abs_def] stale_r_def[abs_def])
  then have "rows TB (bw_b w') = map (\<lambda>x. if bi_pk x \<in> bi_pk ` set ?sb then fail_b now x else x) (rows TB (bw_b w))"
    "rows TR (bw_r w') = map (\<lambda>x. if ri_pk x \<in> ri_pk ` set ?sr then fail_r now x else x) (rows TR (bw_r w))"
    by (simp_all only: fold_scavenge_b[OF TB, THEN conjunct1] fold_scavenge_b[OF TB, THEN conjunct2]
        fold_scavenge_r[OF TR, THEN conjunct1] fold_scavenge_r[OF TR, THEN conjunct2])
  then show ?thesis
    using map_stale[OF U(1), where P = "stale_b now" and f = "fail_b now"]
      map_stale[OF U(2), where P = "stale_r now" and f = "fail_r now"] by simp_all
qed

text \<open>The scavenger fails exactly the records that hang. After \<open>ScavengeBackup\<close>, each record that
  was running and had not changed for twelve hours is failed with its reason, every other record of
  a backup or a restore is untouched, and so no stale running record is left.\<close>

theorem ScavengeBackup_exact:
  assumes TB: "table_ok TB backup_schema" and TR: "table_ok TR restore_schema"
    and i: "bw_inv TB TR w" and w': "w' = ScavengeBackup TB TR now w"
  shows "rows TB (bw_b w') = map (\<lambda>x. if stale_b now x then fail_b now x else x) (rows TB (bw_b w))
    \<and> rows TR (bw_r w') = map (\<lambda>x. if stale_r now x then fail_r now x else x) (rows TR (bw_r w))
    \<and> (\<forall>x\<in>set (rows TB (bw_b w')). \<not> stale_b now x) \<and> (\<forall>x\<in>set (rows TR (bw_r w')). \<not> stale_r now x)"
  using scavenge_rows[OF TB TR i w'] by (auto simp: fail_b_def fail_r_def stale_b_def stale_r_def)

definition ex_bworld2 :: "(BackupItem list, RestoreItem list) bworld" where
  "ex_bworld2 = \<lparr>bw_b = [\<lparr> bi_pk = 1, bi_id = 7, bi_path = ''/d'', bi_manifest = ''m'', bi_msize = 1,
     bi_ssize = 1, bi_state = BackupRunning, bi_extra = [], bi_user = ''al'', bi_updated = 0 \<rparr>], bw_r = []\<rparr>"

theorem ScavengeBackup_exact_witness:
  "bi_state (bw_b (ScavengeBackup LB LR 100000 ex_bworld2) ! 0) = BackupFailed"
proof -
  have i: "bw_inv LB LR ex_bworld2" by (simp add: bw_inv_def unique_rows_def ex_bworld2_def)
  show ?thesis
    using ScavengeBackup_exact[OF list_table_ok list_table_ok i refl, of 100000]
    by (simp add: ex_bworld2_def stale_b_def fail_b_def hour_def)
qed

section \<open>Any sequence of operations\<close>

datatype store_op =
    OpNewBackup int int string string "BackupState option"
  | OpDoneBackup int int BackupDetail BackupState string
  | OpDeleteBackup int
  | OpDeleteBackups
  | OpNewRestore int int int string "RestoreState option"
  | OpDoneRestore int int i64 RestoreState string
  | OpDeleteRestores
  | OpScavenge int

fun store_step :: "'b btab \<Rightarrow> 'r rtab \<Rightarrow> store_op \<Rightarrow> ('b, 'r) bworld \<Rightarrow> ('b, 'r) bworld" where
  "store_step TB TR (OpNewBackup now bid path user st) w = snd (NewBackup TB now bid path user st w)"
| "store_step TB TR (OpDoneBackup now bid d st extra) w = snd (DoneBackup TB now bid d st extra w)"
| "store_step TB TR (OpDeleteBackup bid) w = snd (DeleteBackup TB bid w)"
| "store_step TB TR OpDeleteBackups w = snd (DeleteBackups TB w)"
| "store_step TB TR (OpNewRestore now rid bid dst st) w = snd (NewRestore TB TR now rid bid dst st w)"
| "store_step TB TR (OpDoneRestore now rid sz st extra) w = snd (DoneRestore TR now rid sz st extra w)"
| "store_step TB TR OpDeleteRestores w = snd (DeleteRestores TR w)"
| "store_step TB TR (OpScavenge now) w = ScavengeBackup TB TR now w"

lemma unique_rows_stale:
  assumes "unique_rows S rs" "\<And>x. s_id S (f x) = s_id S x" "\<And>x y. s_clash S (f x) y = s_clash S x y"
    "\<And>x y. s_clash S x (f y) = s_clash S x y"
  shows "unique_rows S (map (\<lambda>x. if P x then f x else x) rs)"
  by (rule unique_rows_map[OF assms(1)]) (auto simp: assms(2-4))

lemma ScavengeBackup_inv:
  assumes TB: "table_ok TB backup_schema" and TR: "table_ok TR restore_schema" and i: "bw_inv TB TR w"
  shows "bw_inv TB TR (ScavengeBackup TB TR now w)"
proof -
  note s = scavenge_rows[OF TB TR i refl, of now]
  have "unique_rows backup_schema (rows TB (bw_b (ScavengeBackup TB TR now w)))" unfolding conjunct1[OF s]
    by (rule unique_rows_stale) (use i in \<open>simp_all add: bw_inv_def fail_b_def\<close>)
  moreover have "unique_rows restore_schema (rows TR (bw_r (ScavengeBackup TB TR now w)))" unfolding conjunct2[OF s]
    by (rule unique_rows_stale) (use i in \<open>simp_all add: bw_inv_def fail_r_def\<close>)
  ultimately show ?thesis by (simp add: bw_inv_def)
qed

lemma store_step_inv:
  assumes TB: "table_ok TB backup_schema" and TR: "table_ok TR restore_schema" and i: "bw_inv TB TR w"
  shows "bw_inv TB TR (store_step TB TR op w)"
proof (cases op)
  case (OpNewBackup now bid path user st)
  then show ?thesis using NewBackup_rows[OF TB i, of now bid path user st] by auto
next
  case (OpDoneBackup now bid d st extra)
  then show ?thesis using DoneBackup_rows[OF TB i, of bid now d st extra] i by (cases "bid = 0") (auto simp: DoneBackup_def)
next
  case (OpDeleteBackup bid)
  have u: "unique_rows backup_schema (rows TB (bw_b w))" using i by (simp add: bw_inv_def)
  show ?thesis using delete_unique[OF TB u, of "\<lambda>x. bi_id x = bid"] i OpDeleteBackup
    by (auto simp: DeleteBackup_def exec_b_def bw_inv_def)
next
  case OpDeleteBackups
  have u: "unique_rows backup_schema (rows TB (bw_b w))" using i by (simp add: bw_inv_def)
  show ?thesis using delete_unique[OF TB u, of "\<lambda>x. True"] i OpDeleteBackups
    by (auto simp: DeleteBackups_def exec_b_def bw_inv_def)
next
  case (OpNewRestore now rid bid dst st)
  then show ?thesis using NewRestore_rows[OF TR i, of now rid bid dst st] by auto
next
  case (OpDoneRestore now rid sz st extra)
  then show ?thesis using DoneRestore_rows[OF TR i, of rid now sz st extra] i by (cases "rid = 0") (auto simp: DoneRestore_def)
next
  case OpDeleteRestores
  have u: "unique_rows restore_schema (rows TR (bw_r w))" using i by (simp add: bw_inv_def)
  show ?thesis using delete_unique[OF TR u, of "\<lambda>x. True"] i OpDeleteRestores
    by (auto simp: DeleteRestores_def exec_r_def bw_inv_def)
next
  case (OpScavenge now)
  then show ?thesis using ScavengeBackup_inv[OF TB TR i] by simp
qed

lemma distinct_ids:
  assumes "unique_rows S rs" "\<And>x y. s_clash S x y \<longleftrightarrow> key x = key y"
  shows "distinct (map key rs)"
  using assms unfolding unique_rows_def distinct_map inj_on_def by blast



end
