(* ===== verification/RepoStat.thy ===== *)
theory RepoStat
  imports Prelude
begin

text \<open>
  The job counters of \<open>internal/backup/stat.go\<close>: \<open>int32\<close> fields changed by atomic additions, so they
  wrap around; \<open>int64\<close> byte totals; and the full-backup gauges. The other Prometheus gauges mirror
  the counters and are not modelled. \<open>IncPendingRestores\<close> and \<open>DecrPendingRestores\<close> change the field
  \<open>PendingBackups\<close>, as the code does.
\<close>

record RepoStat =
  PendingBackups :: i32
  PendingRestores :: i32
  RunningBackups :: i32
  RunningRestores :: i32
  SuccessBackups :: i32
  SuccessRestores :: i32
  FailedBackups :: i32
  FailedRestores :: i32
  BackupBytes :: i64
  RestoreBytes :: i64
  g_fullRunning :: int
  g_fullFailed :: int
  g_fullSuccess :: int

definition emptyStat :: RepoStat where
  "emptyStat = \<lparr> PendingBackups = 0, PendingRestores = 0, RunningBackups = 0, RunningRestores = 0,
     SuccessBackups = 0, SuccessRestores = 0, FailedBackups = 0, FailedRestores = 0,
     BackupBytes = 0, RestoreBytes = 0, g_fullRunning = 0, g_fullFailed = 0, g_fullSuccess = 0 \<rparr>"

definition IsSafeMaintain :: "RepoStat \<Rightarrow> bool" where
  "IsSafeMaintain s \<longleftrightarrow> RunningBackups s = 0 \<and> RunningRestores s = 0"

definition IncPendingBackups :: "RepoStat \<Rightarrow> RepoStat" where
  "IncPendingBackups s = s\<lparr>PendingBackups := PendingBackups s + 1\<rparr>"
definition IncRunningBackups :: "RepoStat \<Rightarrow> RepoStat" where
  "IncRunningBackups s = s\<lparr>RunningBackups := RunningBackups s + 1\<rparr>"
definition IncPendingRestores :: "RepoStat \<Rightarrow> RepoStat" where
  "IncPendingRestores s = s\<lparr>PendingBackups := PendingBackups s + 1\<rparr>"
definition IncRunningRestores :: "RepoStat \<Rightarrow> RepoStat" where
  "IncRunningRestores s = s\<lparr>RunningRestores := RunningRestores s + 1\<rparr>"
definition DecrPendingBackups :: "RepoStat \<Rightarrow> RepoStat" where
  "DecrPendingBackups s = s\<lparr>PendingBackups := PendingBackups s - 1\<rparr>"
definition DecrPendingRestores :: "RepoStat \<Rightarrow> RepoStat" where
  "DecrPendingRestores s = s\<lparr>PendingBackups := PendingBackups s - 1\<rparr>"
definition DecrRunningBackups :: "RepoStat \<Rightarrow> RepoStat" where
  "DecrRunningBackups s = s\<lparr>RunningBackups := RunningBackups s - 1\<rparr>"
definition DecrRunningRestores :: "RepoStat \<Rightarrow> RepoStat" where
  "DecrRunningRestores s = s\<lparr>RunningRestores := RunningRestores s - 1\<rparr>"
definition IncSuccessBackups :: "RepoStat \<Rightarrow> RepoStat" where
  "IncSuccessBackups s = s\<lparr>SuccessBackups := SuccessBackups s + 1\<rparr>"
definition IncSuccessRestores :: "RepoStat \<Rightarrow> RepoStat" where
  "IncSuccessRestores s = s\<lparr>SuccessRestores := SuccessRestores s + 1\<rparr>"
definition IncFailedBackups :: "RepoStat \<Rightarrow> RepoStat" where
  "IncFailedBackups s = s\<lparr>FailedBackups := FailedBackups s + 1\<rparr>"
definition IncFailedRestores :: "RepoStat \<Rightarrow> RepoStat" where
  "IncFailedRestores s = s\<lparr>FailedRestores := FailedRestores s + 1\<rparr>"
definition IncBackupBytes :: "i64 \<Rightarrow> RepoStat \<Rightarrow> RepoStat" where
  "IncBackupBytes n s = s\<lparr>BackupBytes := BackupBytes s + n\<rparr>"
definition IncRestoreBytes :: "i64 \<Rightarrow> RepoStat \<Rightarrow> RepoStat" where
  "IncRestoreBytes n s = s\<lparr>RestoreBytes := RestoreBytes s + n\<rparr>"

definition P2RBackups :: "RepoStat \<Rightarrow> RepoStat" where
  "P2RBackups s = IncRunningBackups (DecrPendingBackups s)"
definition P2RRestores :: "RepoStat \<Rightarrow> RepoStat" where
  "P2RRestores s = IncRunningRestores (DecrPendingRestores s)"
definition R2SBackups :: "RepoStat \<Rightarrow> RepoStat" where
  "R2SBackups s = IncSuccessBackups (DecrRunningBackups s)"
definition R2SRestores :: "RepoStat \<Rightarrow> RepoStat" where
  "R2SRestores s = IncSuccessRestores (DecrRunningRestores s)"
definition R2FBackups :: "RepoStat \<Rightarrow> RepoStat" where
  "R2FBackups s = IncFailedBackups (DecrRunningBackups s)"
definition R2FRestores :: "RepoStat \<Rightarrow> RepoStat" where
  "R2FRestores s = IncFailedRestores (DecrRunningRestores s)"

definition FullBackupRunning :: "RepoStat \<Rightarrow> RepoStat" where
  "FullBackupRunning s = s\<lparr>g_fullRunning := g_fullRunning s + 1\<rparr>"
definition FullBackupFinish :: "bool \<Rightarrow> RepoStat \<Rightarrow> RepoStat" where
  "FullBackupFinish success s =
     (let s1 = s\<lparr>g_fullRunning := g_fullRunning s - 1\<rparr>
      in if success then s1\<lparr>g_fullSuccess := g_fullSuccess s1 + 1, g_fullFailed := 0\<rparr>
         else s1\<lparr>g_fullFailed := g_fullFailed s1 + 1\<rparr>)"

lemmas stat_defs = IncPendingBackups_def IncRunningBackups_def IncPendingRestores_def
  IncRunningRestores_def DecrPendingBackups_def DecrPendingRestores_def DecrRunningBackups_def
  DecrRunningRestores_def IncSuccessBackups_def IncSuccessRestores_def IncFailedBackups_def
  IncFailedRestores_def IncBackupBytes_def IncRestoreBytes_def P2RBackups_def P2RRestores_def
  R2SBackups_def R2SRestores_def R2FBackups_def R2FRestores_def

section \<open>Interleaved jobs\<close>

text \<open>What one backup job does to the counters: it enters directly or from the queue, and ends in
  success or failure. A run is any interleaving of such events of many jobs.\<close>

datatype stat_event = Queued | EnterQueued | EnterDirect | EndOk | EndFail

fun backup_event :: "stat_event \<Rightarrow> RepoStat \<Rightarrow> RepoStat" where
  "backup_event Queued = IncPendingBackups"
| "backup_event EnterQueued = P2RBackups"
| "backup_event EnterDirect = IncRunningBackups"
| "backup_event EndOk = R2SBackups"
| "backup_event EndFail = R2FBackups"

fun restore_event :: "stat_event \<Rightarrow> RepoStat \<Rightarrow> RepoStat" where
  "restore_event Queued = IncPendingRestores"
| "restore_event EnterQueued = P2RRestores"
| "restore_event EnterDirect = IncRunningRestores"
| "restore_event EndOk = R2SRestores"
| "restore_event EndFail = R2FRestores"

definition count_ev :: "stat_event list \<Rightarrow> stat_event set \<Rightarrow> i32" where
  "count_ev es E = of_nat (length (filter (\<lambda>e. e \<in> E) es))"

lemma count_ev_simps [simp]:
  "count_ev [] E = 0" "count_ev (e # es) E = (if e \<in> E then 1 else 0) + count_ev es E"
  by (simp_all add: count_ev_def)

text \<open>The counters are sums of events, modulo \<open>2 ^ 32\<close>. After any interleaving of backup jobs and
  restore jobs the running counters are the jobs that entered minus those that ended, the final
  counters are the ends by kind; the pending counter of the backups absorbs the queue of the
  restores as well, and \<open>PendingRestores\<close> never changes.\<close>

theorem repo_stat_counts:
  "fold backup_event bs (fold restore_event rs s) = s\<lparr>
     PendingBackups := PendingBackups s + count_ev bs {Queued} - count_ev bs {EnterQueued}
       + count_ev rs {Queued} - count_ev rs {EnterQueued},
     RunningBackups := RunningBackups s + count_ev bs {EnterQueued, EnterDirect} - count_ev bs {EndOk, EndFail},
     RunningRestores := RunningRestores s + count_ev rs {EnterQueued, EnterDirect} - count_ev rs {EndOk, EndFail},
     SuccessBackups := SuccessBackups s + count_ev bs {EndOk},
     SuccessRestores := SuccessRestores s + count_ev rs {EndOk},
     FailedBackups := FailedBackups s + count_ev bs {EndFail},
     FailedRestores := FailedRestores s + count_ev rs {EndFail}\<rparr>"
proof -
  have r: "fold restore_event rs s = s\<lparr>
     PendingBackups := PendingBackups s + count_ev rs {Queued} - count_ev rs {EnterQueued},
     RunningRestores := RunningRestores s + count_ev rs {EnterQueued, EnterDirect} - count_ev rs {EndOk, EndFail},
     SuccessRestores := SuccessRestores s + count_ev rs {EndOk},
     FailedRestores := FailedRestores s + count_ev rs {EndFail}\<rparr>" for s
  proof (induction rs arbitrary: s)
    case (Cons e rs)
    then show ?case by (cases e) (simp_all add: stat_defs algebra_simps)
  qed simp
  have b: "fold backup_event bs s = s\<lparr>
     PendingBackups := PendingBackups s + count_ev bs {Queued} - count_ev bs {EnterQueued},
     RunningBackups := RunningBackups s + count_ev bs {EnterQueued, EnterDirect} - count_ev bs {EndOk, EndFail},
     SuccessBackups := SuccessBackups s + count_ev bs {EndOk},
     FailedBackups := FailedBackups s + count_ev bs {EndFail}\<rparr>" for s
  proof (induction bs arbitrary: s)
    case (Cons e bs)
    then show ?case by (cases e) (simp_all add: stat_defs algebra_simps)
  qed simp
  show ?thesis unfolding r b by (simp add: algebra_simps)
qed

end
