(* ===== verification/Throttle.thy ===== *)
theory Throttle
  imports BackupStore RepoStat
begin

text \<open>
  The throttle of \<open>internal/backup/default_provider.go\<close>: at most \<open>maxParallel\<close> jobs run at a time, the
  others wait on a condition variable. \<open>tryLockBackup\<close>/\<open>unlockBackup\<close> and \<open>tryLockRestore\<close>/
  \<open>unlockRestore\<close> have the same control flow over different store operations; these operations are
  the record \<open>lock_ops\<close>, and \<open>backup_ops\<close> and \<open>restore_ops\<close> are the two instances. \<open>Wait\<close> queues the
  caller, \<open>Signal\<close> wakes the one that waits longest, \<open>Broadcast\<close> wakes all (\<open>sync.Cond\<close>); a woken
  caller runs the loop condition again when it gets the mutex.
\<close>

section \<open>One critical section of tryLock\<close>

datatype lock_res = Locked | Refused | MustWait

record ('q, 'w) lock_ops =
  lo_busy :: "'q \<Rightarrow> 'w \<Rightarrow> bool"
  lo_enqueue :: "'q \<Rightarrow> 'w \<Rightarrow> bool \<times> 'w"       \<comment> \<open>false: error\<close>
  lo_cancelled :: "'q \<Rightarrow> 'w \<Rightarrow> 'w"
  lo_pending :: "RepoStat \<Rightarrow> RepoStat"

record ('q, 'w) throttle =
  th_cur :: int
  th_max :: int
  th_wait :: "'q list"
  th_woken :: "'q list"
  th_held :: "'q list"          \<comment> \<open>callers between a successful tryLock and their unlock\<close>
  th_stat :: RepoStat
  th_w :: 'w

text \<open>The loop of \<open>tryLock\<close> from its condition to the next \<open>Wait\<close> or to the return; \<open>done\<close> says that
  the caller's context is over.\<close>

definition lock_round :: "('q, 'w) lock_ops \<Rightarrow> bool \<Rightarrow> 'q \<Rightarrow> ('q, 'w) throttle \<Rightarrow> lock_res \<times> ('q, 'w) throttle" where
  "lock_round ops over q s =
     (if th_cur s \<ge> th_max s \<and> \<not> over then
        (case lo_enqueue ops q (th_w s) of
           (False, w) \<Rightarrow> (Refused, s\<lparr>th_w := w\<rparr>)
         | (True, w) \<Rightarrow> (MustWait, s\<lparr>th_w := w, th_stat := lo_pending ops (th_stat s),
                                   th_wait := th_wait s @ [q]\<rparr>))
      else if over then (Refused, s\<lparr>th_w := lo_cancelled ops q (th_w s)\<rparr>)
      else (Locked, s\<lparr>th_cur := th_cur s + 1, th_held := q # th_held s\<rparr>))"

definition tryLock_enter :: "('q, 'w) lock_ops \<Rightarrow> bool \<Rightarrow> 'q \<Rightarrow> ('q, 'w) throttle \<Rightarrow> lock_res \<times> ('q, 'w) throttle" where
  "tryLock_enter ops over q s = (if lo_busy ops q (th_w s) then (Refused, s) else lock_round ops over q s)"

text \<open>A caller that was woken goes on in the loop.\<close>

definition tryLock_resume :: "('q, 'w) lock_ops \<Rightarrow> bool \<Rightarrow> 'q \<Rightarrow> ('q, 'w) throttle \<Rightarrow> lock_res \<times> ('q, 'w) throttle" where
  "tryLock_resume ops over q s = lock_round ops over q (s\<lparr>th_woken := remove1 q (th_woken s)\<rparr>)"

definition unlock :: "'q \<Rightarrow> ('q, 'w) throttle \<Rightarrow> ('q, 'w) throttle" where
  "unlock q s = s\<lparr>th_cur := th_cur s - 1, th_held := remove1 q (th_held s),
     th_woken := th_woken s @ take 1 (th_wait s), th_wait := drop 1 (th_wait s)\<rparr>"

definition setMaxParallel :: "int \<Rightarrow> ('q, 'w) throttle \<Rightarrow> ('q, 'w) throttle" where
  "setMaxParallel m s = s\<lparr>th_max := m, th_woken := th_woken s @ th_wait s, th_wait := []\<rparr>"

section \<open>The two instances\<close>

record Request =
  rq_ID :: int
  rq_Path :: string
  rq_Username :: string

record RestoreRequest =
  rr_BackupID :: int
  rr_RestoreID :: int
  rr_Dst :: string

definition emptyDetail :: BackupDetail where
  "emptyDetail = \<lparr>bd_ID = [], bd_SnapshotSize = 0, bd_ManifestSize = 0\<rparr>"

definition backup_ops :: "'b btab \<Rightarrow> int \<Rightarrow> string \<Rightarrow> (Request, ('b, 'r) bworld) lock_ops" where
  "backup_ops TB now ctxErr = \<lparr>
     lo_busy = (\<lambda>q w. case LoadPendingOrRunningBackup TB (rq_Path q) w of Inr _ \<Rightarrow> True | Inl _ \<Rightarrow> False),
     lo_enqueue = (\<lambda>q w. case NewBackup TB now (rq_ID q) (rq_Path q) (rq_Username q) (Some BackupPending) w of
         (None, w') \<Rightarrow> (True, w') | (Some _, w') \<Rightarrow> (False, w')),
     lo_cancelled = (\<lambda>q w. snd (DoneBackup TB now (rq_ID q) emptyDetail BackupFailed
         (''lock backup context canceled: '' @ ctxErr) w)),
     lo_pending = IncPendingBackups \<rparr>"

definition restore_ops :: "'b btab \<Rightarrow> 'r rtab \<Rightarrow> int \<Rightarrow> string \<Rightarrow> (RestoreRequest, ('b, 'r) bworld) lock_ops" where
  "restore_ops TB TR now ctxErr = \<lparr>
     lo_busy = (\<lambda>q w. case LoadPendingOrRunningRestore TR (rr_BackupID q) w of Inr _ \<Rightarrow> True | Inl _ \<Rightarrow> False),
     lo_enqueue = (\<lambda>q w. case NewRestore TB TR now (rr_RestoreID q) (rr_BackupID q) (rr_Dst q) (Some RestorePending) w of
         (None, w') \<Rightarrow> (True, w') | (Some _, w') \<Rightarrow> (False, w')),
     lo_cancelled = (\<lambda>q w. snd (DoneRestore TR now (rr_RestoreID q) 0 RestoreFailed
         (''lock restore context canceled: '' @ ctxErr) w)),
     lo_pending = IncPendingRestores \<rparr>"

section \<open>Interleaved callers\<close>

text \<open>\<open>th_run m ops s\<close>: \<open>s\<close> is reached from an idle throttle of limit \<open>m\<close>; the callers' steps interleave
  freely, and between them the store and the counters may change in any way. \<open>ch\<close> says whether
  the limit has been changed on the way.\<close>

inductive th_run :: "int \<Rightarrow> ('q, 'w) lock_ops \<Rightarrow> ('q, 'w) throttle \<Rightarrow> bool \<Rightarrow> bool" for m ops where
  idle: "th_cur s = 0 \<Longrightarrow> th_max s = m \<Longrightarrow> th_wait s = [] \<Longrightarrow> th_woken s = [] \<Longrightarrow> th_held s = [] \<Longrightarrow>
    th_run m ops s False"
| enter: "th_run m ops s ch \<Longrightarrow> tryLock_enter ops over q s = (res, s') \<Longrightarrow> th_run m ops s' ch"
| resume: "th_run m ops s ch \<Longrightarrow> q \<in> set (th_woken s) \<Longrightarrow> tryLock_resume ops over q s = (res, s') \<Longrightarrow>
    th_run m ops s' ch"
| release: "th_run m ops s ch \<Longrightarrow> q \<in> set (th_held s) \<Longrightarrow> th_run m ops (unlock q s) ch"
| setmax: "th_run m ops s ch \<Longrightarrow> th_run m ops (setMaxParallel m' s) True"
| other: "th_run m ops s ch \<Longrightarrow> th_run m ops (s\<lparr>th_w := w, th_stat := st\<rparr>) ch"

lemma lock_round_cases:
  assumes "lock_round ops over q s = (res, s')"
  obtains (wait) w where "res = MustWait" "th_cur s \<ge> th_max s" "\<not> over"
      "s' = s\<lparr>th_w := w, th_stat := lo_pending ops (th_stat s), th_wait := th_wait s @ [q]\<rparr>"
  | (refused) w where "res = Refused" "s' = s\<lparr>th_w := w\<rparr>"
  | (locked) "res = Locked" "th_cur s < th_max s" "\<not> over"
      "s' = s\<lparr>th_cur := th_cur s + 1, th_held := q # th_held s\<rparr>"
  using assms by (auto simp: lock_round_def split: if_splits prod.splits bool.splits)

lemma th_run_counter: "th_run m ops s ch \<Longrightarrow> th_cur s = int (length (th_held s))
    \<and> (\<not> ch \<and> 0 \<le> m \<longrightarrow> th_max s = m \<and> th_cur s \<le> m)"
proof (induction rule: th_run.induct)
  case (enter s ch over q res s')
  then show ?case by (auto simp: tryLock_enter_def split: if_splits elim!: lock_round_cases)
next
  case (resume s ch q over res s')
  then show ?case by (auto simp: tryLock_resume_def elim!: lock_round_cases)
next
  case (release s ch q)
  then have "length (th_held s) = Suc (length (remove1 q (th_held s)))"
    using length_pos_if_in_set[of q "th_held s"] by (simp add: length_remove1)
  moreover have "th_held (unlock q s) = remove1 q (th_held s)" "th_cur (unlock q s) = th_cur s - 1"
    "th_max (unlock q s) = th_max s"
    by (simp_all add: unlock_def)
  ultimately show ?case using release.IH by auto
qed (auto simp: setMaxParallel_def)


text \<open>The example of the witnesses: two backups of different paths, one slot.\<close>

definition ex_req :: "int \<Rightarrow> Request" where
  "ex_req n = \<lparr>rq_ID = n, rq_Path = ''/'' @ show_int n, rq_Username = ''al''\<rparr>"

definition ex_th :: "int \<Rightarrow> (Request, (BackupItem list, RestoreItem list) bworld) throttle" where
  "ex_th m = \<lparr>th_cur = 0, th_max = m, th_wait = [], th_woken = [], th_held = [], th_stat = emptyStat,
     th_w = \<lparr>bw_b = [], bw_r = []\<rparr>\<rparr>"

lemma ex_th_run: "th_run m ops (ex_th m) False"
  by (rule th_run.idle) (simp_all add: ex_th_def)


text \<open>A wake-up can be lost. When the caller that \<open>Signal\<close> picks has been cancelled meanwhile, it
  leaves without passing the signal on: with the next caller still queued, the throttle then has a
  free slot, nobody holds the lock and nobody is awake, so the queued callers stay queued until
  another job comes and goes.\<close>

theorem throttle_lost_wakeup:
  assumes "th_run m ops s False" "th_held s = [h]" "th_woken s = []" "th_wait s = a # b # qs" "0 < m"
  shows "\<exists>s'. tryLock_resume ops True a (unlock h s) = (Refused, s') \<and> th_run m ops s' False
    \<and> th_cur s' = 0 \<and> th_cur s' < th_max s' \<and> th_held s' = [] \<and> th_woken s' = [] \<and> th_wait s' = b # qs"
proof -
  have r: "th_run m ops (unlock h s) False" using th_run.release[OF assms(1)] assms(2) by simp
  obtain res s' where s': "tryLock_resume ops True a (unlock h s) = (res, s')" by fastforce
  have w: "a \<in> set (th_woken (unlock h s))" using assms(4) by (simp add: unlock_def)
  have run: "th_run m ops s' False" by (rule th_run.resume[OF r w s'])
  have c: "th_cur s = 1" "th_max s = m" using th_run_counter[OF assms(1)] assms(2,5) by simp_all
  have "lock_round ops True a ((unlock h s)\<lparr>th_woken := []\<rparr>) = (res, s')"
    using s' assms(3,4) by (simp add: tryLock_resume_def unlock_def)
  then have "res = Refused" "\<exists>w. s' = (unlock h s)\<lparr>th_woken := [], th_w := w\<rparr>"
    by (auto elim!: lock_round_cases)
  then show ?thesis using s' run c assms(2-5) by (auto simp: unlock_def)
qed

definition ex_th3 :: "(Request, (BackupItem list, RestoreItem list) bworld) throttle" where
  "ex_th3 = snd (tryLock_enter (backup_ops LB 0 []) False (ex_req 3)
      (snd (tryLock_enter (backup_ops LB 0 []) False (ex_req 2)
         (snd (tryLock_enter (backup_ops LB 0 []) False (ex_req 1) (ex_th 1))))))"

lemma ex_th3_run: "th_run 1 (backup_ops LB 0 []) ex_th3 False"
proof -
  have step: "th_run 1 (backup_ops LB 0 []) (snd (tryLock_enter (backup_ops LB 0 []) False q s)) False"
    if "th_run 1 (backup_ops LB 0 []) s False" for q s
    using th_run.enter[OF that, of False q] by (metis surjective_pairing)
  show ?thesis unfolding ex_th3_def by (intro step ex_th_run)
qed

theorem throttle_lost_wakeup_witness:
  "\<exists>s'. tryLock_resume (backup_ops LB 0 []) True (ex_req 2) (unlock (ex_req 1) ex_th3) = (Refused, s')
     \<and> th_cur s' < th_max s' \<and> th_held s' = [] \<and> th_woken s' = [] \<and> th_wait s' = [ex_req 3]"
proof -
  have "th_held ex_th3 = [ex_req 1]" "th_woken ex_th3 = []" "th_wait ex_th3 = [ex_req 2, ex_req 3]"
    by code_simp+
  from throttle_lost_wakeup[OF ex_th3_run this] show ?thesis by auto
qed

end
