(* ===== verification/Hook.thy ===== *)
theory Hook
  imports Throttle
begin

text \<open>
  The errors of the backup package and the lifecycle hook: \<open>LifecycleHook\<close> of
  \<open>internal/backup/backup.go\<close> is the record \<open>hook_ops\<close>, \<open>DefaultBackupHook\<close> of
  \<open>internal/backup/kopia_provider.go\<close> is its instance over the backup store. The locale
  \<open>lifecycle_hook\<close> states what the provider relies on: which record a hook settles and that it leaves
  the other records alone.
\<close>

section \<open>Errors\<close>

text \<open>Sentinels, errors of third-party code (with their text) and \<open>errors.Wrap\<close>. \<open>errors.Is\<close> looks
  through the wrappers.\<close>

datatype kerr =
    ECanceled | EDeadline
  | ERepoHasData | EAlreadyInitialized | ESnapshotNotFound
  | EProviderInvalidState | EBackupRunning | ERestoreRunning | ENoSuchRecord | EJobProcessing
  | EExt string
  | EWrap string kerr

fun root_err :: "kerr \<Rightarrow> kerr" where
  "root_err (EWrap m e) = root_err e"
| "root_err e = e"

definition errIs :: "kerr \<Rightarrow> kerr \<Rightarrow> bool" where
  "errIs e target \<longleftrightarrow> root_err e = target"

definition wrapErr :: "string \<Rightarrow> kerr option \<Rightarrow> kerr option" where
  "wrapErr m e = map_option (EWrap m) e"

fun err_text :: "kerr \<Rightarrow> string" where
  "err_text ECanceled = ''context canceled''"
| "err_text EDeadline = ''context deadline exceeded''"
| "err_text ERepoHasData = ''repo has data''"
| "err_text EAlreadyInitialized = ''repository already initialized''"
| "err_text ESnapshotNotFound = ''snapshot not found''"
| "err_text EProviderInvalidState = ''KopiaProvider went into a invalid state''"
| "err_text EBackupRunning = ''backup is running''"
| "err_text ERestoreRunning = ''restore running''"
| "err_text ENoSuchRecord = ''no such record''"
| "err_text EJobProcessing = ''job procressing''"
| "err_text (EExt s) = s"
| "err_text (EWrap m e) = m @ '': '' @ err_text e"

text \<open>The table parameter does not carry the text of a driver error.\<close>

definition store_err :: "bstore_error \<Rightarrow> kerr" where
  "store_err e = (case e of ErrNoSuchRecord \<Rightarrow> ENoSuchRecord
     | BErrDB \<Rightarrow> EExt ''database error'' | BErrMissingWhere \<Rightarrow> EExt ''WHERE conditions required'')"

section \<open>Messages of the provider\<close>

record SnapshotInfo =
  si_ID :: string
  si_SnapshotSize :: i64
  si_ManifestSize :: i64

text \<open>The field \<open>State\<close> is a string in the code; only the three final states are put in it.\<close>

record Response =
  rs_ID :: int
  rs_Detail :: SnapshotInfo
  rs_State :: BackupState
  rs_Extra :: string

record Entry =
  en_Path :: string
  en_BackupID :: int
  en_RestoreID :: int
  en_SnapshotID :: string
  en_SnapshotSize :: i64

record RestoreResponse =
  rp_RestoreID :: int
  rp_RestoreSize :: i64
  rp_State :: RestoreState
  rp_Extra :: string

text \<open>\<open>LifecycleHook\<close>; the first argument is the time of the call.\<close>

record 'w hook_ops =
  ho_backupStart :: "int \<Rightarrow> Request \<Rightarrow> 'w \<Rightarrow> kerr option \<times> 'w"
  ho_backupEnd :: "int \<Rightarrow> Response \<Rightarrow> 'w \<Rightarrow> kerr option \<times> 'w"
  ho_restoreStart :: "int \<Rightarrow> RestoreRequest \<Rightarrow> 'w \<Rightarrow> (kerr + Entry) \<times> 'w"
  ho_restoreEnd :: "int \<Rightarrow> RestoreResponse \<Rightarrow> 'w \<Rightarrow> kerr option \<times> 'w"
  ho_delStart :: "int \<Rightarrow> 'w \<Rightarrow> kerr + Entry"
  ho_delEnd :: "int \<Rightarrow> 'w \<Rightarrow> kerr option \<times> 'w"

section \<open>The default hook\<close>

definition lift_err :: "bstore_error option \<times> 'w \<Rightarrow> kerr option \<times> 'w" where
  "lift_err r = (map_option store_err (fst r), snd r)"

definition OnBackupStart :: "'b btab \<Rightarrow> int \<Rightarrow> Request \<Rightarrow> ('b, 'r) bworld \<Rightarrow> kerr option \<times> ('b, 'r) bworld" where
  "OnBackupStart TB now req w =
     (let new = lift_err (NewBackup TB now (rq_ID req) (rq_Path req) (rq_Username req) None w)
      in case LoadBackup TB (rq_ID req) w of
           Inr item \<Rightarrow> if bi_state item = BackupRunning then (Some EBackupRunning, w) else new
         | Inl _ \<Rightarrow> new)"

definition OnBackupEnd :: "'b btab \<Rightarrow> int \<Rightarrow> Response \<Rightarrow> ('b, 'r) bworld \<Rightarrow> kerr option \<times> ('b, 'r) bworld" where
  "OnBackupEnd TB now res w = lift_err (DoneBackup TB now (rs_ID res)
     \<lparr>bd_ID = si_ID (rs_Detail res), bd_SnapshotSize = si_SnapshotSize (rs_Detail res),
      bd_ManifestSize = si_ManifestSize (rs_Detail res)\<rparr> (rs_State res) (rs_Extra res) w)"

text \<open>The record of the restore is inserted by a deferred function whether the checks succeed or not;
  a failed check marks it failed, unless the failure is that the restore is already known.\<close>

definition OnRestoreStart :: "'b btab \<Rightarrow> 'r rtab \<Rightarrow> int \<Rightarrow> RestoreRequest \<Rightarrow> ('b, 'r) bworld \<Rightarrow>
    (kerr + Entry) \<times> ('b, 'r) bworld" where
  "OnRestoreStart TB TR now req w =
     (let res = (case LoadBackup TB (rr_BackupID req) w of
            Inl e \<Rightarrow> Inl (EWrap ''err load backup when try create a new restore'' (store_err e))
          | Inr item \<Rightarrow>
              (let entry = \<lparr>en_Path = bi_path item, en_BackupID = bi_id item,
                     en_RestoreID = rr_RestoreID req, en_SnapshotID = bi_manifest item,
                     en_SnapshotSize = bi_ssize item\<rparr>
               in case LoadRestore TR (rr_RestoreID req) w of
                    Inr r \<Rightarrow> if ri_state r = RestorePending \<or> ri_state r = RestoreRunning
                             then Inl ERestoreRunning else Inr entry
                  | Inl _ \<Rightarrow> Inr entry))
      in case NewRestore TB TR now (rr_RestoreID req) (rr_BackupID req) (rr_Dst req) None w of
           (Some _, w1) \<Rightarrow> (res, w1)
         | (None, w1) \<Rightarrow>
             (case res of
                Inl e \<Rightarrow> if errIs e ERestoreRunning then (res, w1)
                         else (res, snd (DoneRestore TR now (rr_RestoreID req) 0 RestoreFailed (err_text e) w1))
              | Inr _ \<Rightarrow> (res, w1)))"

definition OnRestoreEnd :: "'r rtab \<Rightarrow> int \<Rightarrow> RestoreResponse \<Rightarrow> ('b, 'r) bworld \<Rightarrow> kerr option \<times> ('b, 'r) bworld" where
  "OnRestoreEnd TR now res w = lift_err (DoneRestore TR now (rp_RestoreID res) (rp_RestoreSize res)
     (rp_State res) (rp_Extra res) w)"

definition OnBackupDelStart :: "'b btab \<Rightarrow> int \<Rightarrow> ('b, 'r) bworld \<Rightarrow> kerr + Entry" where
  "OnBackupDelStart TB bid w = (case LoadBackup TB bid w of
     Inl e \<Rightarrow> Inl (store_err e)
   | Inr item \<Rightarrow> Inr \<lparr>en_Path = bi_path item, en_BackupID = bi_id item, en_RestoreID = 0,
                      en_SnapshotID = bi_manifest item, en_SnapshotSize = 0\<rparr>)"

definition OnBackupDelEnd :: "'b btab \<Rightarrow> int \<Rightarrow> ('b, 'r) bworld \<Rightarrow> kerr option \<times> ('b, 'r) bworld" where
  "OnBackupDelEnd TB bid w = lift_err (DeleteBackup TB bid w)"

definition DefaultBackupHook :: "'b btab \<Rightarrow> 'r rtab \<Rightarrow> ('b, 'r) bworld hook_ops" where
  "DefaultBackupHook TB TR = \<lparr> ho_backupStart = OnBackupStart TB, ho_backupEnd = OnBackupEnd TB,
     ho_restoreStart = OnRestoreStart TB TR, ho_restoreEnd = OnRestoreEnd TR,
     ho_delStart = OnBackupDelStart TB, ho_delEnd = OnBackupDelEnd TB \<rparr>"

lemma DefaultBackupHook_simps [simp]:
  "ho_backupStart (DefaultBackupHook TB TR) = OnBackupStart TB"
  "ho_backupEnd (DefaultBackupHook TB TR) = OnBackupEnd TB"
  "ho_restoreStart (DefaultBackupHook TB TR) = OnRestoreStart TB TR"
  "ho_restoreEnd (DefaultBackupHook TB TR) = OnRestoreEnd TR"
  "ho_delStart (DefaultBackupHook TB TR) = OnBackupDelStart TB"
  "ho_delEnd (DefaultBackupHook TB TR) = OnBackupDelEnd TB"
  by (simp_all add: DefaultBackupHook_def)

section \<open>The records behind the hook\<close>

definition bview :: "'b btab \<Rightarrow> ('b, 'r) bworld \<Rightarrow> int \<Rightarrow> BackupItem option" where
  "bview TB w b = find (\<lambda>x. bi_id x = b) (rows TB (bw_b w))"

definition rview :: "'r rtab \<Rightarrow> ('b, 'r) bworld \<Rightarrow> int \<Rightarrow> RestoreItem option" where
  "rview TR w r = find (\<lambda>x. ri_id x = r) (rows TR (bw_r w))"

lemma find_filter: "find P xs = (case filter P xs of [] \<Rightarrow> None | x # _ \<Rightarrow> Some x)"
  by (induction xs) auto

lemma find_append: "find P (xs @ ys) = (case find P xs of Some x \<Rightarrow> Some x | None \<Rightarrow> find P ys)"
  by (induction xs) auto

lemma find_map_key:
  assumes "\<And>x. key (f x) = key x"
  shows "find (\<lambda>x. key x = j) (map (\<lambda>x. if key x = b then f x else x) rs)
    = (if j = b then map_option f (find (\<lambda>x. key x = j) rs) else find (\<lambda>x. key x = j) rs)"
  by (induction rs) (auto simp: assms)

lemma find_filter_key:
  "find (\<lambda>x. key x = j) (filter (\<lambda>x. key x \<noteq> b) rs) = (if j = b then None else find (\<lambda>x. key x = j) rs)"
  by (induction rs) auto

lemma find1_find: "table_ok T S \<Longrightarrow> find1 T P t = find P (rows T t)"
  by (simp add: find1_def table_okD(1) find_filter split: list.splits)

lemma LoadBackup_view: "table_ok TB backup_schema \<Longrightarrow> b \<noteq> 0 \<Longrightarrow> LoadBackup TB b w =
    (case bview TB w b of Some x \<Rightarrow> Inr x | None \<Rightarrow> Inl ErrNoSuchRecord)"
  by (simp add: LoadBackup_def find1_find bview_def)

lemma LoadRestore_view: "table_ok TR restore_schema \<Longrightarrow> r \<noteq> 0 \<Longrightarrow> LoadRestore TR r w =
    (case rview TR w r of Some x \<Rightarrow> Inr x | None \<Rightarrow> Inl ErrNoSuchRecord)"
  by (simp add: LoadRestore_def find1_find rview_def)

lemma view_id: "bview TB w b = Some x \<Longrightarrow> bi_id x = b" "rview TR w r = Some y \<Longrightarrow> ri_id y = r"
  by (auto simp: bview_def rview_def find_Some_iff)

lemma view_None: "bview TB w b = None \<longleftrightarrow> \<not> (\<exists>x\<in>set (rows TB (bw_b w)). bi_id x = b)"
  "rview TR w r = None \<longleftrightarrow> \<not> (\<exists>x\<in>set (rows TR (bw_r w)). ri_id x = r)"
  by (auto simp: bview_def rview_def find_None_iff)

lemma view_frame [simp]: "bview TB (w\<lparr>bw_r := t\<rparr>) = bview TB w" "rview TR (w\<lparr>bw_b := u\<rparr>) = rview TR w"
  by (auto simp: bview_def rview_def fun_eq_iff)

text \<open>The store operations seen through the views.\<close>

lemma NewBackup_view:
  assumes TB: "table_ok TB backup_schema" and i: "bw_inv TB TR w"
  obtains t where "NewBackup TB now bid path user st w = (None, w\<lparr>bw_b := t\<rparr>)" "bw_inv TB TR (w\<lparr>bw_b := t\<rparr>)"
    "\<And>j. j \<noteq> bid \<Longrightarrow> bview TB (w\<lparr>bw_b := t\<rparr>) j = bview TB w j"
    "\<exists>x. bview TB (w\<lparr>bw_b := t\<rparr>) bid = Some x \<and> bi_path x = path
       \<and> bi_state x = (case st of None \<Rightarrow> BackupRunning | Some s \<Rightarrow> s)"
proof -
  let ?st = "case st of None \<Rightarrow> BackupRunning | Some s \<Rightarrow> s"
  let ?f = "\<lambda>x. x\<lparr>bi_path := path, bi_state := ?st, bi_updated := now, bi_extra := []\<rparr>"
  obtain t where t: "NewBackup TB now bid path user st w = (None, w\<lparr>bw_b := t\<rparr>)"
    "bw_inv TB TR (w\<lparr>bw_b := t\<rparr>)"
    and r: "if \<exists>x\<in>set (rows TB (bw_b w)). bi_id x = bid
       then rows TB t = map (\<lambda>x. if bi_id x = bid then ?f x else x) (rows TB (bw_b w))
       else \<exists>k. rows TB t = rows TB (bw_b w) @ [\<lparr> bi_pk = k, bi_id = bid, bi_path = path,
              bi_manifest = [], bi_msize = 0, bi_ssize = 0, bi_state = ?st, bi_extra = [],
              bi_user = user, bi_updated = now \<rparr>]"
    using NewBackup_rows[OF TB i] by blast
  show ?thesis
  proof (cases "bview TB w bid")
    case None
    then obtain k where k: "rows TB t = rows TB (bw_b w) @ [\<lparr> bi_pk = k, bi_id = bid, bi_path = path,
              bi_manifest = [], bi_msize = 0, bi_ssize = 0, bi_state = ?st, bi_extra = [],
              bi_user = user, bi_updated = now \<rparr>]"
      using r unfolding view_None(1) by (simp only: if_False) blast
    show ?thesis
      by (rule that[OF t]) (use None in \<open>simp_all add: bview_def k find_append split: option.split\<close>)
  next
    case (Some x)
    then have "\<exists>x\<in>set (rows TB (bw_b w)). bi_id x = bid" using view_None(1)[of TB w bid] by auto
    then have k: "rows TB t = map (\<lambda>x. if bi_id x = bid then ?f x else x) (rows TB (bw_b w))"
      using r by (simp only: if_True)
    have v: "bview TB (w\<lparr>bw_b := t\<rparr>) j = (if j = bid then map_option ?f (bview TB w j) else bview TB w j)" for j
    proof -
      have "bw_b (w\<lparr>bw_b := t\<rparr>) = t" by simp
      then show ?thesis unfolding bview_def by (simp only: k) (rule find_map_key, simp)
    qed
    show ?thesis by (rule that[OF t]) (simp_all add: v Some)
  qed
qed

lemma DoneBackup_view:
  assumes TB: "table_ok TB backup_schema" and i: "bw_inv TB TR w" and b: "bid \<noteq> 0"
  obtains t where "DoneBackup TB now bid d st extra w = (None, w\<lparr>bw_b := t\<rparr>)" "bw_inv TB TR (w\<lparr>bw_b := t\<rparr>)"
    "\<And>j. bview TB (w\<lparr>bw_b := t\<rparr>) j =
       (if j = bid then map_option (done_update now d st extra) (bview TB w j) else bview TB w j)"
proof -
  obtain t where t: "DoneBackup TB now bid d st extra w = (None, w\<lparr>bw_b := t\<rparr>)"
    "bw_inv TB TR (w\<lparr>bw_b := t\<rparr>)"
    "rows TB t = map (\<lambda>x. if bi_id x = bid then done_update now d st extra x else x) (rows TB (bw_b w))"
    using DoneBackup_rows[OF TB i b] by blast
  have "bview TB (w\<lparr>bw_b := t\<rparr>) j =
       (if j = bid then map_option (done_update now d st extra) (bview TB w j) else bview TB w j)" for j
  proof -
    have "bw_b (w\<lparr>bw_b := t\<rparr>) = t" by simp
    then show ?thesis unfolding bview_def by (simp only: t(3)) (rule find_map_key, simp add: done_update_def)
  qed
  then show ?thesis by (rule that[OF t(1,2)])
qed

lemma DeleteBackup_view:
  assumes TB: "table_ok TB backup_schema" and i: "bw_inv TB TR w" and b: "bid \<noteq> 0"
  obtains t where "DeleteBackup TB bid w = (None, w\<lparr>bw_b := t\<rparr>)" "bw_inv TB TR (w\<lparr>bw_b := t\<rparr>)"
    "\<And>j. bview TB (w\<lparr>bw_b := t\<rparr>) j = (if j = bid then None else bview TB w j)"
proof -
  have "unique_rows backup_schema (rows TB (bw_b w))" using i by (simp add: bw_inv_def)
  from delete_unique[OF TB this, of "\<lambda>x. bi_id x = bid"]
  obtain t where t: "t_delete TB (\<lambda>x. bi_id x = bid) (bw_b w) = Some t"
    "unique_rows backup_schema (rows TB t)" "rows TB t = filter (\<lambda>x. \<not> bi_id x = bid) (rows TB (bw_b w))"
    by blast
  have 1: "DeleteBackup TB bid w = (None, w\<lparr>bw_b := t\<rparr>)"
    using b t(1) by (simp add: DeleteBackup_def exec_b_def)
  have 2: "bw_inv TB TR (w\<lparr>bw_b := t\<rparr>)" using i t(2) by (simp add: bw_inv_def)
  have "bview TB (w\<lparr>bw_b := t\<rparr>) j = (if j = bid then None else bview TB w j)" for j
  proof -
    have "bw_b (w\<lparr>bw_b := t\<rparr>) = t" by simp
    then show ?thesis unfolding bview_def by (simp only: t(3)) (rule find_filter_key)
  qed
  then show ?thesis by (rule that[OF 1 2])
qed

lemma NewRestore_view:
  assumes TR: "table_ok TR restore_schema" and i: "bw_inv TB TR w"
  obtains t where "NewRestore TB TR now rid bid dst st w = (None, w\<lparr>bw_r := t\<rparr>)"
    "bw_inv TB TR (w\<lparr>bw_r := t\<rparr>)"
    "\<And>j. j \<noteq> rid \<Longrightarrow> rview TR (w\<lparr>bw_r := t\<rparr>) j = rview TR w j"
    "\<exists>x. rview TR (w\<lparr>bw_r := t\<rparr>) rid = Some x \<and> ri_backup x = bid
       \<and> ri_state x = (case st of None \<Rightarrow> RestoreRunning | Some s \<Rightarrow> s)"
proof -
  let ?st = "case st of None \<Rightarrow> RestoreRunning | Some s \<Rightarrow> s"
  let ?m = "case LoadBackup TB bid w of Inr x \<Rightarrow> bi_manifest x | Inl _ \<Rightarrow> []"
  let ?f = "\<lambda>x. x\<lparr>ri_backup := bid, ri_manifest := ?m, ri_state := ?st, ri_updated := now\<rparr>"
  obtain t where t: "NewRestore TB TR now rid bid dst st w = (None, w\<lparr>bw_r := t\<rparr>)"
    "bw_inv TB TR (w\<lparr>bw_r := t\<rparr>)"
    and r: "if \<exists>x\<in>set (rows TR (bw_r w)). ri_id x = rid
       then rows TR t = map (\<lambda>x. if ri_id x = rid then ?f x else x) (rows TR (bw_r w))
       else \<exists>k. rows TR t = rows TR (bw_r w) @ [\<lparr> ri_pk = k, ri_id = rid, ri_backup = bid,
              ri_dst = dst, ri_manifest = ?m, ri_size = 0, ri_state = ?st,
              ri_extra = [], ri_updated = now \<rparr>]"
    using NewRestore_rows[OF TR i] by blast
  show ?thesis
  proof (cases "rview TR w rid")
    case None
    then obtain k where k: "rows TR t = rows TR (bw_r w) @ [\<lparr> ri_pk = k, ri_id = rid, ri_backup = bid,
              ri_dst = dst, ri_manifest = ?m, ri_size = 0, ri_state = ?st,
              ri_extra = [], ri_updated = now \<rparr>]"
      using r unfolding view_None(2) by (simp only: if_False) blast
    show ?thesis
      by (rule that[OF t]) (use None in \<open>simp_all add: rview_def k find_append split: option.split\<close>)
  next
    case (Some x)
    then have "\<exists>x\<in>set (rows TR (bw_r w)). ri_id x = rid" using view_None(2)[of TR w rid] by auto
    then have k: "rows TR t = map (\<lambda>x. if ri_id x = rid then ?f x else x) (rows TR (bw_r w))"
      using r by (simp only: if_True)
    have v: "rview TR (w\<lparr>bw_r := t\<rparr>) j = (if j = rid then map_option ?f (rview TR w j) else rview TR w j)" for j
    proof -
      have "bw_r (w\<lparr>bw_r := t\<rparr>) = t" by simp
      then show ?thesis unfolding rview_def by (simp only: k) (rule find_map_key, simp)
    qed
    show ?thesis by (rule that[OF t]) (simp_all add: v Some)
  qed
qed

definition rdone :: "int \<Rightarrow> i64 \<Rightarrow> RestoreState \<Rightarrow> string \<Rightarrow> RestoreItem \<Rightarrow> RestoreItem" where
  "rdone now sz st extra x = x\<lparr>ri_state := st, ri_size := setw sz (ri_size x),
     ri_extra := sets extra (ri_extra x), ri_updated := now\<rparr>"

lemma DoneRestore_view:
  assumes TR: "table_ok TR restore_schema" and i: "bw_inv TB TR w" and r: "rid \<noteq> 0"
  obtains t where "DoneRestore TR now rid sz st extra w = (None, w\<lparr>bw_r := t\<rparr>)" "bw_inv TB TR (w\<lparr>bw_r := t\<rparr>)"
    "\<And>j. rview TR (w\<lparr>bw_r := t\<rparr>) j =
       (if j = rid then map_option (rdone now sz st extra) (rview TR w j) else rview TR w j)"
proof -
  obtain t where t: "DoneRestore TR now rid sz st extra w = (None, w\<lparr>bw_r := t\<rparr>)"
    "bw_inv TB TR (w\<lparr>bw_r := t\<rparr>)"
    "rows TR t = map (\<lambda>x. if ri_id x = rid then rdone now sz st extra x else x) (rows TR (bw_r w))"
    using DoneRestore_rows[OF TR i r] unfolding rdone_def by blast
  have "rview TR (w\<lparr>bw_r := t\<rparr>) j =
       (if j = rid then map_option (rdone now sz st extra) (rview TR w j) else rview TR w j)" for j
  proof -
    have "bw_r (w\<lparr>bw_r := t\<rparr>) = t" by simp
    then show ?thesis unfolding rview_def by (simp only: t(3)) (rule find_map_key, simp add: rdone_def)
  qed
  then show ?thesis by (rule that[OF t(1,2)])
qed

section \<open>What the provider relies on\<close>

text \<open>\<open>bv\<close> and \<open>rv\<close> look up the record of a backup and of a restore. Ids are positive in the
  protocol: gorm drops a zero id from its conditions.\<close>

locale lifecycle_hook =
  fixes H :: "'w hook_ops" and inv :: "'w \<Rightarrow> bool"
    and bv :: "'w \<Rightarrow> int \<Rightarrow> BackupItem option" and rv :: "'w \<Rightarrow> int \<Rightarrow> RestoreItem option"
  assumes backup_running: "bv w (rq_ID q) = Some x \<Longrightarrow> bi_state x = BackupRunning \<Longrightarrow> rq_ID q \<noteq> 0 \<Longrightarrow>
      ho_backupStart H now q w = (Some EBackupRunning, w)"
    and backup_start: "inv w \<Longrightarrow> rq_ID q \<noteq> 0 \<Longrightarrow>
      \<not> (\<exists>x. bv w (rq_ID q) = Some x \<and> bi_state x = BackupRunning) \<Longrightarrow>
      \<exists>w' x. ho_backupStart H now q w = (None, w') \<and> inv w' \<and> bv w' (rq_ID q) = Some x
        \<and> bi_state x = BackupRunning \<and> bi_path x = rq_Path q
        \<and> (\<forall>j. j \<noteq> rq_ID q \<longrightarrow> bv w' j = bv w j) \<and> rv w' = rv w"
    and backup_end: "inv w \<Longrightarrow> rs_ID res \<noteq> 0 \<Longrightarrow>
      \<exists>w'. ho_backupEnd H now res w = (None, w') \<and> inv w'
        \<and> (\<forall>j. bv w' j = (if j = rs_ID res then map_option (done_update now
             \<lparr>bd_ID = si_ID (rs_Detail res), bd_SnapshotSize = si_SnapshotSize (rs_Detail res),
              bd_ManifestSize = si_ManifestSize (rs_Detail res)\<rparr> (rs_State res) (rs_Extra res)) (bv w j)
             else bv w j)) \<and> rv w' = rv w"
    and restore_start: "inv w \<Longrightarrow> rr_RestoreID p \<noteq> 0 \<Longrightarrow> rr_BackupID p \<noteq> 0 \<Longrightarrow>
      \<exists>w' x r. ho_restoreStart H now p w = (r, w') \<and> inv w' \<and> bv w' = bv w
        \<and> (\<forall>j. j \<noteq> rr_RestoreID p \<longrightarrow> rv w' j = rv w j) \<and> rv w' (rr_RestoreID p) = Some x
        \<and> (case bv w (rr_BackupID p) of
             None \<Rightarrow> ri_state x = RestoreFailed \<and> (\<exists>e. r = Inl e)
           | Some b \<Rightarrow> ri_state x = RestoreRunning
               \<and> (if \<exists>y. rv w (rr_RestoreID p) = Some y \<and> (ri_state y = RestorePending \<or> ri_state y = RestoreRunning)
                  then r = Inl ERestoreRunning
                  else r = Inr \<lparr>en_Path = bi_path b, en_BackupID = rr_BackupID p, en_RestoreID = rr_RestoreID p,
                         en_SnapshotID = bi_manifest b, en_SnapshotSize = bi_ssize b\<rparr>))"
    and restore_end: "inv w \<Longrightarrow> rp_RestoreID rr \<noteq> 0 \<Longrightarrow>
      \<exists>w'. ho_restoreEnd H now rr w = (None, w') \<and> inv w' \<and> bv w' = bv w
        \<and> (\<forall>j. rv w' j = (if j = rp_RestoreID rr then map_option (rdone now (rp_RestoreSize rr)
             (rp_State rr) (rp_Extra rr)) (rv w j) else rv w j))"
    and del_start: "b \<noteq> 0 \<Longrightarrow> (case bv w b of None \<Rightarrow> ho_delStart H b w = Inl ENoSuchRecord
         | Some x \<Rightarrow> \<exists>e. ho_delStart H b w = Inr e \<and> en_SnapshotID e = bi_manifest x)"
    and del_end: "inv w \<Longrightarrow> b \<noteq> 0 \<Longrightarrow>
      \<exists>w'. ho_delEnd H b w = (None, w') \<and> inv w' \<and> rv w' = rv w
        \<and> (\<forall>j. bv w' j = (if j = b then None else bv w j))"

lemma root_err_store [simp]: "errIs (EWrap m e) t = errIs e t"
  by (simp add: errIs_def)

lemma OnRestoreStart_view:
  assumes TB: "table_ok TB backup_schema" and TR: "table_ok TR restore_schema" and i: "bw_inv TB TR w"
    and n: "rr_RestoreID p \<noteq> 0" "rr_BackupID p \<noteq> 0"
  shows "\<exists>w' x r. OnRestoreStart TB TR now p w = (r, w') \<and> bw_inv TB TR w' \<and> bview TB w' = bview TB w
        \<and> (\<forall>j. j \<noteq> rr_RestoreID p \<longrightarrow> rview TR w' j = rview TR w j) \<and> rview TR w' (rr_RestoreID p) = Some x
        \<and> (case bview TB w (rr_BackupID p) of
             None \<Rightarrow> ri_state x = RestoreFailed \<and> (\<exists>e. r = Inl e)
           | Some b \<Rightarrow> ri_state x = RestoreRunning
               \<and> (if \<exists>y. rview TR w (rr_RestoreID p) = Some y \<and> (ri_state y = RestorePending \<or> ri_state y = RestoreRunning)
                  then r = Inl ERestoreRunning
                  else r = Inr \<lparr>en_Path = bi_path b, en_BackupID = rr_BackupID p, en_RestoreID = rr_RestoreID p,
                         en_SnapshotID = bi_manifest b, en_SnapshotSize = bi_ssize b\<rparr>))"
proof -
  obtain t where t: "NewRestore TB TR now (rr_RestoreID p) (rr_BackupID p) (rr_Dst p) None w = (None, w\<lparr>bw_r := t\<rparr>)"
    "bw_inv TB TR (w\<lparr>bw_r := t\<rparr>)"
    "\<And>j. j \<noteq> rr_RestoreID p \<Longrightarrow> rview TR (w\<lparr>bw_r := t\<rparr>) j = rview TR w j"
    "\<exists>x. rview TR (w\<lparr>bw_r := t\<rparr>) (rr_RestoreID p) = Some x \<and> ri_backup x = rr_BackupID p
       \<and> ri_state x = RestoreRunning"
    using NewRestore_view[OF TR i, where rid = "rr_RestoreID p" and bid = "rr_BackupID p" and now = now
        and dst = "rr_Dst p" and st = None] by (metis option.case(1))
  let ?e = "EWrap ''err load backup when try create a new restore'' ENoSuchRecord"
  show ?thesis
  proof (cases "bview TB w (rr_BackupID p)")
    case None
    obtain u where u: "DoneRestore TR now (rr_RestoreID p) 0 RestoreFailed (err_text ?e) (w\<lparr>bw_r := t\<rparr>)
        = (None, w\<lparr>bw_r := t\<rparr>\<lparr>bw_r := u\<rparr>)" "bw_inv TB TR (w\<lparr>bw_r := t\<rparr>\<lparr>bw_r := u\<rparr>)"
      "\<And>j. rview TR (w\<lparr>bw_r := t\<rparr>\<lparr>bw_r := u\<rparr>) j = (if j = rr_RestoreID p
         then map_option (rdone now 0 RestoreFailed (err_text ?e)) (rview TR (w\<lparr>bw_r := t\<rparr>) j)
         else rview TR (w\<lparr>bw_r := t\<rparr>) j)"
      by (rule DoneRestore_view[OF TR t(2) n(1), where now = now and sz = 0 and st = RestoreFailed
            and extra = "err_text ?e"]) (rule that)
    have "OnRestoreStart TB TR now p w = (Inl ?e, w\<lparr>bw_r := t\<rparr>\<lparr>bw_r := u\<rparr>)"
      unfolding OnRestoreStart_def using t(1) u(1) None
      by (simp add: LoadBackup_view[OF TB n(2)] store_err_def errIs_def)
    then show ?thesis using u(2,3) t(3,4) None by (auto simp: rdone_def)
  next
    case (Some b)
    have L: "LoadBackup TB (rr_BackupID p) w = Inr b" using Some by (simp add: LoadBackup_view[OF TB n(2)])
    show ?thesis
    proof (cases "\<exists>y. rview TR w (rr_RestoreID p) = Some y \<and> (ri_state y = RestorePending \<or> ri_state y = RestoreRunning)")
      case True
      then have "OnRestoreStart TB TR now p w = (Inl ERestoreRunning, w\<lparr>bw_r := t\<rparr>)"
        unfolding OnRestoreStart_def using t(1) L by (auto simp: LoadRestore_view[OF TR n(1)] errIs_def)
      then show ?thesis using t(2-4) Some True by auto
    next
      case False
      have "OnRestoreStart TB TR now p w = (Inr \<lparr>en_Path = bi_path b, en_BackupID = rr_BackupID p,
          en_RestoreID = rr_RestoreID p, en_SnapshotID = bi_manifest b, en_SnapshotSize = bi_ssize b\<rparr>, w\<lparr>bw_r := t\<rparr>)"
        unfolding OnRestoreStart_def using t(1) L False view_id(1)[OF Some]
        by (cases "rview TR w (rr_RestoreID p)") (auto simp: LoadRestore_view[OF TR n(1)])
      then show ?thesis using t(2-4) Some False by auto
    qed
  qed
qed

lemma default_hook:
  fixes TB :: "'b btab" and TR :: "'r rtab"
  assumes TB: "table_ok TB backup_schema" and TR: "table_ok TR restore_schema"
  shows "lifecycle_hook (DefaultBackupHook TB TR) (bw_inv TB TR) (bview TB) (rview TR)"
proof
  fix w :: "('b, 'r) bworld" and x now and q :: Request
  assume "bview TB w (rq_ID q) = Some x" "bi_state x = BackupRunning" "rq_ID q \<noteq> 0"
  then show "ho_backupStart (DefaultBackupHook TB TR) now q w = (Some EBackupRunning, w)"
    by (simp add: OnBackupStart_def LoadBackup_view[OF TB])
next
  fix w :: "('b, 'r) bworld" and now and q :: Request
  assume a: "bw_inv TB TR w" "rq_ID q \<noteq> 0"
    and n: "\<not> (\<exists>x. bview TB w (rq_ID q) = Some x \<and> bi_state x = BackupRunning)"
  obtain t where t: "NewBackup TB now (rq_ID q) (rq_Path q) (rq_Username q) None w = (None, w\<lparr>bw_b := t\<rparr>)"
    "bw_inv TB TR (w\<lparr>bw_b := t\<rparr>)" "\<And>j. j \<noteq> rq_ID q \<Longrightarrow> bview TB (w\<lparr>bw_b := t\<rparr>) j = bview TB w j"
    "\<exists>x. bview TB (w\<lparr>bw_b := t\<rparr>) (rq_ID q) = Some x \<and> bi_path x = rq_Path q
       \<and> bi_state x = (case None of None \<Rightarrow> BackupRunning | Some s \<Rightarrow> s)"
    by (rule NewBackup_view[OF TB a(1), where now = now and bid = "rq_ID q" and path = "rq_Path q"
          and user = "rq_Username q" and st = None]) (rule that)
  have "OnBackupStart TB now q w = (None, w\<lparr>bw_b := t\<rparr>)"
    using n t(1) by (cases "bview TB w (rq_ID q)")
      (auto simp: OnBackupStart_def LoadBackup_view[OF TB a(2)] lift_err_def)
  then show "\<exists>w' x. ho_backupStart (DefaultBackupHook TB TR) now q w = (None, w') \<and> bw_inv TB TR w'
      \<and> bview TB w' (rq_ID q) = Some x \<and> bi_state x = BackupRunning \<and> bi_path x = rq_Path q
      \<and> (\<forall>j. j \<noteq> rq_ID q \<longrightarrow> bview TB w' j = bview TB w j) \<and> rview TR w' = rview TR w"
    using t(2-4) by auto
next
  fix w :: "('b, 'r) bworld" and now and res :: Response
  assume a: "bw_inv TB TR w" "rs_ID res \<noteq> 0"
  show "\<exists>w'. ho_backupEnd (DefaultBackupHook TB TR) now res w = (None, w') \<and> bw_inv TB TR w'
        \<and> (\<forall>j. bview TB w' j = (if j = rs_ID res then map_option (done_update now
             \<lparr>bd_ID = si_ID (rs_Detail res), bd_SnapshotSize = si_SnapshotSize (rs_Detail res),
              bd_ManifestSize = si_ManifestSize (rs_Detail res)\<rparr> (rs_State res) (rs_Extra res)) (bview TB w j)
             else bview TB w j)) \<and> rview TR w' = rview TR w"
    by (rule DoneBackup_view[OF TB a, where now = now and d = "\<lparr>bd_ID = si_ID (rs_Detail res),
          bd_SnapshotSize = si_SnapshotSize (rs_Detail res), bd_ManifestSize = si_ManifestSize (rs_Detail res)\<rparr>"
          and st = "rs_State res" and extra = "rs_Extra res"]) (auto simp: OnBackupEnd_def lift_err_def)
next
  fix w :: "('b, 'r) bworld" and now and p :: RestoreRequest
  assume a: "bw_inv TB TR w" "rr_RestoreID p \<noteq> 0" "rr_BackupID p \<noteq> 0"
  show "\<exists>w' x r. ho_restoreStart (DefaultBackupHook TB TR) now p w = (r, w') \<and> bw_inv TB TR w'
        \<and> bview TB w' = bview TB w
        \<and> (\<forall>j. j \<noteq> rr_RestoreID p \<longrightarrow> rview TR w' j = rview TR w j) \<and> rview TR w' (rr_RestoreID p) = Some x
        \<and> (case bview TB w (rr_BackupID p) of
             None \<Rightarrow> ri_state x = RestoreFailed \<and> (\<exists>e. r = Inl e)
           | Some b \<Rightarrow> ri_state x = RestoreRunning
               \<and> (if \<exists>y. rview TR w (rr_RestoreID p) = Some y \<and> (ri_state y = RestorePending \<or> ri_state y = RestoreRunning)
                  then r = Inl ERestoreRunning
                  else r = Inr \<lparr>en_Path = bi_path b, en_BackupID = rr_BackupID p, en_RestoreID = rr_RestoreID p,
                         en_SnapshotID = bi_manifest b, en_SnapshotSize = bi_ssize b\<rparr>))"
    using OnRestoreStart_view[OF TB TR a] by simp
next
  fix w :: "('b, 'r) bworld" and now and res :: RestoreResponse
  assume a: "bw_inv TB TR w" "rp_RestoreID res \<noteq> 0"
  show "\<exists>w'. ho_restoreEnd (DefaultBackupHook TB TR) now res w = (None, w') \<and> bw_inv TB TR w'
        \<and> bview TB w' = bview TB w
        \<and> (\<forall>j. rview TR w' j = (if j = rp_RestoreID res then map_option (rdone now (rp_RestoreSize res)
             (rp_State res) (rp_Extra res)) (rview TR w j) else rview TR w j))"
    by (rule DoneRestore_view[OF TR a, where now = now and sz = "rp_RestoreSize res" and st = "rp_State res"
          and extra = "rp_Extra res"]) (auto simp: OnRestoreEnd_def lift_err_def)
next
  fix b and w :: "('b, 'r) bworld"
  assume "b \<noteq> (0 :: int)"
  then show "case bview TB w b of None \<Rightarrow> ho_delStart (DefaultBackupHook TB TR) b w = Inl ENoSuchRecord
         | Some x \<Rightarrow> \<exists>e. ho_delStart (DefaultBackupHook TB TR) b w = Inr e \<and> en_SnapshotID e = bi_manifest x"
    by (auto simp: OnBackupDelStart_def LoadBackup_view[OF TB] store_err_def split: option.split)
next
  fix b and w :: "('b, 'r) bworld"
  assume a: "bw_inv TB TR w" "b \<noteq> (0 :: int)"
  show "\<exists>w'. ho_delEnd (DefaultBackupHook TB TR) b w = (None, w') \<and> bw_inv TB TR w' \<and> rview TR w' = rview TR w
        \<and> (\<forall>j. bview TB w' j = (if j = b then None else bview TB w j))"
    by (rule DeleteBackup_view[OF TB a]) (auto simp: OnBackupDelEnd_def lift_err_def)
qed

interpretation list_hook: lifecycle_hook "DefaultBackupHook LB LR" "bw_inv LB LR" "bview LB" "rview LR"
  by (rule default_hook) (rule list_table_ok)+

end
