(* ===== verification/KopiaRepo.thy ===== *)
theory KopiaRepo
  imports Hook
begin

text \<open>
  The life of the kopia repository behind \<open>KopiaProvider\<close> (\<open>internal/backup/kopia_provider.go\<close>,
  \<open>backup.go\<close>, \<open>stream.go\<close>, \<open>connect.go\<close>): start, refresh, destroy, close, the background ticks, and
  \<open>lockUntil\<close>, which every job calls first. Kopia, the S3 client, \<open>flock\<close> and the file system are not
  in the repository: they are the record \<open>kopia_ops\<close> over a world of any type. The model keeps of the
  provider whether a pointer is nil, whether a channel is closed and the configuration it looks at.
\<close>

section \<open>State\<close>

datatype ProviderState =
  ProviderInitializing | ProviderStarting | ProviderError | ProviderRunning | ProviderDestroyed

fun ProviderState_String :: "ProviderState \<Rightarrow> string" where
  "ProviderState_String ProviderInitializing = ''INITIALIZING''"
| "ProviderState_String ProviderStarting = ''STARTING''"
| "ProviderState_String ProviderError = ''ERROR''"
| "ProviderState_String ProviderRunning = ''RUNNING''"
| "ProviderState_String ProviderDestroyed = ''DESTORYED''"

datatype LocationType = LocationTypeS3Compliant | LocationTypeFilesytem | OtherLocation string

record 'k kopia_ops =
  x_trylock :: "string \<Rightarrow> 'k \<Rightarrow> (kerr + bool) \<times> 'k"    \<comment> \<open>\<open>flock.TryLock\<close>\<close>
  x_unlock :: "string \<Rightarrow> 'k \<Rightarrow> 'k"
  x_not_exist :: "kerr \<Rightarrow> bool"                         \<comment> \<open>\<open>os.IsNotExist\<close>\<close>
  x_stat_cfg :: "'k \<Rightarrow> kerr option"                     \<comment> \<open>\<open>os.Stat\<close> of the configuration file\<close>
  x_rm_cfg :: "'k \<Rightarrow> kerr option \<times> 'k"
  x_rm_cache :: "'k \<Rightarrow> 'k"
  x_open :: "'k \<Rightarrow> kerr option \<times> 'k"                  \<comment> \<open>\<open>repo.Open\<close>\<close>
  x_close :: "'k \<Rightarrow> kerr option \<times> 'k"                 \<comment> \<open>\<open>Repository.Close\<close>\<close>
  x_disconnect :: "'k \<Rightarrow> 'k"
  x_session :: "bool \<Rightarrow> 'k \<Rightarrow> kerr option \<times> 'k"       \<comment> \<open>maintenance parameters and policy\<close>
  x_client :: "'k \<Rightarrow> kerr option"                       \<comment> \<open>\<open>minio.New\<close>\<close>
  x_bucket_exists :: "'k \<Rightarrow> kerr + bool"
  x_make_bucket :: "'k \<Rightarrow> kerr option \<times> 'k"
  x_storage :: "LocationType \<Rightarrow> 'k \<Rightarrow> kerr option \<times> 'k" \<comment> \<open>\<open>s3.New\<close>, \<open>filesystem.New\<close>\<close>
  x_blobs :: "'k \<Rightarrow> kerr + string list"                 \<comment> \<open>what \<open>ListBlobs\<close> visits\<close>
  x_initialize :: "string \<Rightarrow> 'k \<Rightarrow> kerr option \<times> 'k"
  x_connect :: "'k \<Rightarrow> kerr option \<times> 'k"
  x_log_close :: "'k \<Rightarrow> kerr option \<times> 'k"
  x_wait_jobs :: "'k \<Rightarrow> 'k"                             \<comment> \<open>cancel the uploads and wait for them\<close>
  x_objects :: "string \<Rightarrow> 'k \<Rightarrow> (string \<times> i64) list"   \<comment> \<open>\<open>ListObjects\<close> below a prefix\<close>
  x_remove :: "string \<Rightarrow> 'k \<Rightarrow> kerr option \<times> 'k"
  x_refresh :: "'k \<Rightarrow> kerr option \<times> 'k"
  x_maintain :: "'k \<Rightarrow> kerr option \<times> 'k"

record 'k kprov =
  kp_state :: ProviderState
  kp_repo :: bool                \<comment> \<open>\<open>repo != nil\<close>\<close>
  kp_s3 :: bool                  \<comment> \<open>\<open>s3Client != nil\<close>\<close>
  kp_log :: bool                 \<comment> \<open>\<open>innerLogger != nil\<close>\<close>
  kp_hook :: bool                \<comment> \<open>\<open>backupHook != nil\<close>\<close>
  kp_ctx :: "bool option"        \<comment> \<open>the running context: not set, set, or cancelled (\<open>Some True\<close>)\<close>
  kp_usage_closed :: bool
  kp_don_closed :: bool
  kp_type :: LocationType
  kp_prefix :: string
  kp_full :: bool
  kp_stat :: RepoStat
  kp_k :: 'k

datatype kres = KOk | KErr kerr | KPanic string

definition kres_of :: "kerr option \<Rightarrow> kres" where
  "kres_of e = (case e of None \<Rightarrow> KOk | Some e \<Rightarrow> KErr e)"

text \<open>A call of third-party code that may change its world.\<close>

definition ext :: "('k \<Rightarrow> kerr option \<times> 'k) \<Rightarrow> 'k kprov \<Rightarrow> kerr option \<times> 'k kprov" where
  "ext f s = (let (e, k) = f (kp_k s) in (e, s\<lparr>kp_k := k\<rparr>))"

definition extw :: "('k \<Rightarrow> 'k) \<Rightarrow> 'k kprov \<Rightarrow> 'k kprov" where
  "extw f s = s\<lparr>kp_k := f (kp_k s)\<rparr>"

section \<open>Opening and initialising the repository\<close>

definition NewKopia :: "LocationType \<Rightarrow> string \<Rightarrow> 'k \<Rightarrow> 'k kprov" where
  "NewKopia ty pfx k = \<lparr> kp_state = ProviderInitializing, kp_repo = False, kp_s3 = False,
     kp_log = False, kp_hook = False, kp_ctx = None, kp_usage_closed = False, kp_don_closed = False,
     kp_type = ty, kp_prefix = pfx, kp_full = False, kp_stat = emptyStat, kp_k = k \<rparr>"

definition verifyConnect :: "'k kopia_ops \<Rightarrow> 'k kprov \<Rightarrow> kerr option \<times> 'k kprov" where
  "verifyConnect X s = (case x_stat_cfg X (kp_k s) of
     Some e \<Rightarrow> (Some e, s)
   | None \<Rightarrow> (case ext (x_open X) s of
       (Some e, s1) \<Rightarrow> (Some e, extw (x_disconnect X) s1)
     | (None, s1) \<Rightarrow> (let (e, s2) = ext (x_close X) s1 in (wrapErr ''error closing repository'' e, s2))))"

definition initializeS3Client :: "'k kopia_ops \<Rightarrow> 'k kprov \<Rightarrow> kerr option \<times> 'k kprov" where
  "initializeS3Client X s =
     (if kp_s3 s then (None, s)
      else (case x_client X (kp_k s) of
              Some e \<Rightarrow> (Some (EWrap ''err initialize s3 client'' e), s)
            | None \<Rightarrow> (None, s\<lparr>kp_s3 := True\<rparr>)))"

definition createBucketIfNotExists :: "'k kopia_ops \<Rightarrow> 'k kprov \<Rightarrow> kerr option \<times> 'k kprov" where
  "createBucketIfNotExists X s = (case x_bucket_exists X (kp_k s) of
     Inl e \<Rightarrow> (Some (EWrap ''err check bucket exists'' e), s)
   | Inr True \<Rightarrow> (None, s)
   | Inr False \<Rightarrow> (let (e, s1) = ext (x_make_bucket X) s in (wrapErr ''err create bucket'' e, s1)))"

definition ensureEmpty :: "'k kopia_ops \<Rightarrow> 'k \<Rightarrow> kerr option" where
  "ensureEmpty X k = (case x_blobs X k of
     Inl e \<Rightarrow> Some (EWrap ''error listing blobs'' e)
   | Inr [] \<Rightarrow> None
   | Inr (_ # _) \<Rightarrow> Some ERepoHasData)"

text \<open>\<open>Initialize\<close> and \<open>Connect\<close>; a repository that is there already is not an error.\<close>

definition init_connect :: "'k kopia_ops \<Rightarrow> 'k kprov \<Rightarrow> kerr option \<times> 'k kprov" where
  "init_connect X s =
     (let retention = (if kp_type s = LocationTypeFilesytem then [] else ''GOVERNANCE'');
          (e, s1) = ext (x_initialize X retention) s
      in case e of
           Some e' \<Rightarrow> if errIs e' EAlreadyInitialized
                     then (let (c, s2) = ext (x_connect X) s1 in (wrapErr ''err connect to repository'' c, s2))
                     else (Some (EWrap ''err initialize repository'' e'), s1)
         | None \<Rightarrow> (let (c, s2) = ext (x_connect X) s1 in (wrapErr ''err connect to repository'' c, s2)))"

definition doInitialize :: "'k kopia_ops \<Rightarrow> 'k kprov \<Rightarrow> kerr option \<times> 'k kprov" where
  "doInitialize X s =
     (case ensureEmpty X (kp_k s) of
        Some e \<Rightarrow> if errIs e ERepoHasData then init_connect X s
                  else (Some (EWrap ''unable to get repository storage'' e), s)
      | None \<Rightarrow> init_connect X s)"

definition initKopiaRepo :: "'k kopia_ops \<Rightarrow> 'k kprov \<Rightarrow> kerr option \<times> 'k kprov" where
  "initKopiaRepo X s = (case ext (x_storage X (kp_type s)) s of
     (Some e, s1) \<Rightarrow> (Some (EWrap ''err when connecting to s3'' e), s1)
   | (None, s1) \<Rightarrow> doInitialize X s1)"

text \<open>The package function and the method \<open>OpenRepository\<close>: the method keeps an open handle, sets the
  policies on a new one and starts the background goroutines.\<close>

definition openRepository :: "'k kopia_ops \<Rightarrow> 'k kprov \<Rightarrow> kerr option \<times> 'k kprov" where
  "openRepository X s =
     (let missing = (case x_stat_cfg X (kp_k s) of Some e \<Rightarrow> x_not_exist X e | None \<Rightarrow> False)
      in if missing then (Some (EExt ''Failed find kopia configuration file''), s)
         else (case ext (x_open X) s of
                 (None, s1) \<Rightarrow> (None, s1)
               | (Some e, s1) \<Rightarrow> (Some (if x_not_exist X e then EExt ''Failed to find kopia repository''
                                       else EWrap ''Failed to open kopia repository'' e), s1)))"

definition OpenRepository :: "'k kopia_ops \<Rightarrow> 'k kprov \<Rightarrow> kerr option \<times> 'k kprov" where
  "OpenRepository X s =
     (if kp_repo s then (None, s)
      else (case openRepository X s of
              (Some e, s1) \<Rightarrow> (Some (EWrap ''Failed to open kopia repository'' e), s1)
            | (None, s1) \<Rightarrow> (case ext (x_session X (kp_full s1)) s1 of
                (Some e, s2) \<Rightarrow> (Some e, s2)
              | (None, s2) \<Rightarrow> (None, s2\<lparr>kp_repo := True\<rparr>))))"

section \<open>Start\<close>

text \<open>From \<open>verifyConnect\<close> to the end of the switch over the location type.\<close>

definition start_setup :: "'k kopia_ops \<Rightarrow> 'k kprov \<Rightarrow> kres \<times> 'k kprov" where
  "start_setup X s = (case verifyConnect X s of
     (None, s1) \<Rightarrow> (KOk, s1)
   | (Some _, s1) \<Rightarrow>
       (case kp_type s1 of
          LocationTypeS3Compliant \<Rightarrow>
            (case initializeS3Client X s1 of
               (Some e, s2) \<Rightarrow> (KPanic (err_text e), s2)
             | (None, s2) \<Rightarrow>
                 (case createBucketIfNotExists X s2 of
                    (Some e, s3) \<Rightarrow> (KErr e, s3)
                  | (None, s3) \<Rightarrow> (let (e, s4) = initKopiaRepo X s3 in (kres_of e, s4))))
        | LocationTypeFilesytem \<Rightarrow> (let (e, s4) = initKopiaRepo X s1 in (kres_of e, s4))
        | OtherLocation t \<Rightarrow> (KErr (EExt (''unsupported provider type '' @ t)), s1)))"

text \<open>The deferred function: open the repository and settle the state.\<close>

definition start_finish :: "'k kopia_ops \<Rightarrow> kres \<times> 'k kprov \<Rightarrow> kres \<times> 'k kprov" where
  "start_finish X r = (case r of
     (KOk, s) \<Rightarrow> (case OpenRepository X s of
        (None, s1) \<Rightarrow> (KOk, s1\<lparr>kp_state := ProviderRunning\<rparr>)
      | (Some e, s1) \<Rightarrow> (KErr e, s1\<lparr>kp_state := ProviderError\<rparr>))
   | (e, s) \<Rightarrow> (e, s\<lparr>kp_state := ProviderError\<rparr>))"

definition startLockFile :: string where "startLockFile = ''/tmp/fa-kopia-start.lock''"
definition destroyLockFile :: string where "destroyLockFile = ''/tmp/fa-kopia-destroy.lock''"
definition refreshLockFile :: string where "refreshLockFile = ''/tmp/fa-kopia-refresh.lock''"

definition Start :: "'k kopia_ops \<Rightarrow> 'k kprov \<Rightarrow> kres \<times> 'k kprov" where
  "Start X s =
     (let p = kp_prefix s;
          s0 = s\<lparr>kp_prefix := (if hasSuffix p ''/'' then p else p @ ''/'')\<rparr>
      in case x_trylock X startLockFile (kp_k s0) of
           (Inl e, k) \<Rightarrow> (KErr (EWrap ''error acquiring KopiaProvider lock'' e), s0\<lparr>kp_k := k\<rparr>)
         | (Inr False, k) \<Rightarrow> (KOk, s0\<lparr>kp_k := k\<rparr>)
         | (Inr True, k) \<Rightarrow>
             (let s1 = s0\<lparr>kp_k := k\<rparr>
              in if kp_state s1 = ProviderRunning then (KOk, extw (x_unlock X startLockFile) s1)
                 else (let s2 = s1\<lparr>kp_state := ProviderStarting, kp_ctx := Some False, kp_log := True,
                                   kp_hook := True\<rparr>;
                           (r, s3) = start_finish X (start_setup X s2)
                       in (r, extw (x_unlock X startLockFile) s3))))"

section \<open>Destroy, close, refresh\<close>

text \<open>\<open>waitJobExit\<close> calls \<open>cancelRunningCtx\<close>, which is nil before the first start.\<close>

definition waitJobExit :: "'k kopia_ops \<Rightarrow> 'k kprov \<Rightarrow> kres \<times> 'k kprov" where
  "waitJobExit X s = (case kp_ctx s of
     None \<Rightarrow> (KPanic ''nil pointer dereference'', s)
   | Some _ \<Rightarrow> (KOk, extw (x_wait_jobs X) (s\<lparr>kp_ctx := Some True\<rparr>)))"

definition closeKopiaReleatedResouces :: "'k kopia_ops \<Rightarrow> 'k kprov \<Rightarrow> kerr option \<times> 'k kprov" where
  "closeKopiaReleatedResouces X s =
     (case (if kp_repo s then ext (x_close X) s else (None, s)) of
        (Some e, s1) \<Rightarrow> (Some e, s1)
      | (None, s1) \<Rightarrow> if kp_log s1 then ext (x_log_close X) s1 else (None, s1))"

text \<open>The jobs are stopped when there is a repository, then the resources are closed.\<close>

definition shutdown :: "'k kopia_ops \<Rightarrow> 'k kprov \<Rightarrow> kres \<times> 'k kprov" where
  "shutdown X s = (case (if kp_repo s then waitJobExit X s else (KOk, s)) of
     (KOk, s1) \<Rightarrow> (let (e, s2) = closeKopiaReleatedResouces X s1 in (kres_of e, s2))
   | r \<Rightarrow> r)"

fun remove_all :: "'k kopia_ops \<Rightarrow> (string \<times> i64) list \<Rightarrow> 'k kprov \<Rightarrow> kerr option \<times> 'k kprov" where
  "remove_all X [] s = (None, s)"
| "remove_all X (ob # obs) s = (case ext (x_remove X (fst ob)) s of
     (Some e, s1) \<Rightarrow> (Some (EWrap ''err remove object'' e), s1)
   | (None, s1) \<Rightarrow> remove_all X obs s1)"

text \<open>The methods of a nil \<open>*minio.Client\<close> dereference it.\<close>

definition cleanupObjectStorage :: "'k kopia_ops \<Rightarrow> 'k kprov \<Rightarrow> kres \<times> 'k kprov" where
  "cleanupObjectStorage X s =
     (if \<not> kp_s3 s then (KPanic ''nil pointer dereference'', s)
      else (let (e, s1) = remove_all X (x_objects X (kp_prefix s) (kp_k s)) s in (kres_of e, s1)))"

definition cleanupRepo :: "'k kopia_ops \<Rightarrow> 'k kprov \<Rightarrow> kres \<times> 'k kprov" where
  "cleanupRepo X s = (case ext (x_rm_cfg X) s of
     (Some e, s1) \<Rightarrow> (KErr e, s1)
   | (None, s1) \<Rightarrow> cleanupObjectStorage X s1)"

definition destroy_body :: "'k kopia_ops \<Rightarrow> 'k kprov \<Rightarrow> kres \<times> 'k kprov" where
  "destroy_body X s = (case shutdown X s of
     (KOk, s1) \<Rightarrow> (let (r, s2) = cleanupRepo X (s1\<lparr>kp_repo := False\<rparr>)
                   in (r, s2\<lparr>kp_state := ProviderDestroyed\<rparr>))
   | r \<Rightarrow> r)"

text \<open>A block under a lock file: an error of the lock is wrapped, a held lock is not an error.\<close>

definition with_flock :: "'k kopia_ops \<Rightarrow> string \<Rightarrow> string \<Rightarrow> ('k kprov \<Rightarrow> kres \<times> 'k kprov) \<Rightarrow>
    'k kprov \<Rightarrow> kres \<times> 'k kprov" where
  "with_flock X lf msg body s = (case x_trylock X lf (kp_k s) of
     (Inl e, k) \<Rightarrow> (KErr (EWrap msg e), s\<lparr>kp_k := k\<rparr>)
   | (Inr False, k) \<Rightarrow> (KOk, s\<lparr>kp_k := k\<rparr>)
   | (Inr True, k) \<Rightarrow> (let (r, s1) = body (s\<lparr>kp_k := k\<rparr>) in (r, extw (x_unlock X lf) s1)))"

definition DestroyBackendRepo :: "'k kopia_ops \<Rightarrow> 'k kprov \<Rightarrow> kres \<times> 'k kprov" where
  "DestroyBackendRepo X = with_flock X destroyLockFile
     ''error acquiring KopiaProvider destroy lock'' (destroy_body X)"

text \<open>\<open>close\<close> of a closed channel panics. The configuration file is removed by a deferred function.\<close>

definition Close :: "'k kopia_ops \<Rightarrow> 'k kprov \<Rightarrow> kres \<times> 'k kprov" where
  "Close X s =
     (if kp_don_closed s then (KOk, s)
      else if kp_state s = ProviderInitializing \<or> kp_state s = ProviderDestroyed then
        (if kp_usage_closed s then (KPanic ''close of closed channel'', s)
         else (KOk, s\<lparr>kp_usage_closed := True\<rparr>))
      else (let (r, s1) = (case shutdown X s of
                  (KOk, s1) \<Rightarrow> if kp_usage_closed s1 then (KPanic ''close of closed channel'', s1)
                              else (KOk, s1\<lparr>kp_usage_closed := True, kp_don_closed := True\<rparr>)
                | r \<Rightarrow> r)
            in (r, snd (ext (x_rm_cfg X) s1))))"

text \<open>\<open>OnRefresh\<close> with the location read from the configuration anew. The S3 client is kept.\<close>

definition maintain :: "'k kopia_ops \<Rightarrow> 'k kprov \<Rightarrow> kerr option \<times> 'k kprov" where
  "maintain X s = (if kp_repo s then ext (x_maintain X) s else (None, s))"

definition refresh_body :: "'k kopia_ops \<Rightarrow> LocationType \<Rightarrow> string \<Rightarrow> 'k kprov \<Rightarrow> kres \<times> 'k kprov" where
  "refresh_body X ty pfx s = (case shutdown X s of
     (KOk, s1) \<Rightarrow>
       (let old = kp_state s1;
            s2 = s1\<lparr>kp_repo := False, kp_state := ProviderInitializing, kp_usage_closed := False,
                    kp_don_closed := False, kp_stat := emptyStat, kp_hook := False, kp_type := ty,
                    kp_prefix := pfx\<rparr>
        in if old = ProviderInitializing then (KOk, s2)
           else (case Start X (extw (x_rm_cache X) s2) of
                   (KOk, s3) \<Rightarrow> (let (e, s4) = maintain X s3 in (kres_of e, s4))
                 | r \<Rightarrow> r))
   | r \<Rightarrow> r)"

definition OnRefresh :: "'k kopia_ops \<Rightarrow> LocationType \<Rightarrow> string \<Rightarrow> 'k kprov \<Rightarrow> kres \<times> 'k kprov" where
  "OnRefresh X ty pfx = with_flock X refreshLockFile
     ''error acquiring KopiaProvider OnRefresh lock'' (refresh_body X ty pfx)"

text \<open>One tick of \<open>refreshPeriodically\<close>: a failing refresh gives the repository up and the goroutine
  ends.\<close>

definition refresh_tick :: "'k kopia_ops \<Rightarrow> 'k kprov \<Rightarrow> kres \<times> 'k kprov" where
  "refresh_tick X s =
     (if \<not> kp_repo s then (KPanic ''nil pointer dereference'', s)
      else (case ext (x_refresh X) s of
              (None, s1) \<Rightarrow> (KOk, s1)
            | (Some e, s1) \<Rightarrow> (KErr e, s1\<lparr>kp_state := ProviderError, kp_repo := False\<rparr>)))"

text \<open>\<open>checkUsage\<close>: the sum of the objects that are not kopia's own; at most 1 KiB is not reported. The
  result is the number sent on the usage channel.\<close>

definition own_object :: "string \<Rightarrow> string \<Rightarrow> bool" where
  "own_object pfx key \<longleftrightarrow> (\<exists>t\<in>set [''kopia'', ''xw'', ''xn'', ''q'', ''_log'']. hasPrefix key (pfx @ t))"

definition checkUsage :: "'k kopia_ops \<Rightarrow> 'k kprov \<Rightarrow> kres \<times> i64 option" where
  "checkUsage X s =
     (if kp_full s \<or> kp_type s \<noteq> LocationTypeS3Compliant then (KOk, None)
      else if \<not> kp_s3 s then (KPanic ''nil pointer dereference'', None)
      else (let total = sum_list (map snd (filter (\<lambda>ob. \<not> own_object (kp_prefix s) (fst ob))
                          (x_objects X (kp_prefix s) (kp_k s))))
            in if total \<le>s 1024 then (KOk, None)
               else if kp_state s = ProviderRunning then (KOk, Some total) else (KOk, None)))"

text \<open>\<open>lockUntil\<close>. Each element of \<open>env\<close> is what the other goroutines do before the state is looked at
  again, after a wait or after a start; \<open>None\<close>: still waiting when the list is used up.\<close>

fun lockUntil :: "'k kopia_ops \<Rightarrow> ('k kprov \<Rightarrow> 'k kprov) list \<Rightarrow> 'k kprov \<Rightarrow> kres option \<times> 'k kprov" where
  "lockUntil X env s = (case kp_state s of
     ProviderDestroyed \<Rightarrow> (case Start X s of
        (KOk, s1) \<Rightarrow> (case env of [] \<Rightarrow> (None, s1) | g # env' \<Rightarrow> lockUntil X env' (g s1))
      | (r, s1) \<Rightarrow> (Some r, s1))
   | ProviderError \<Rightarrow> (Some (KErr EProviderInvalidState), s)
   | ProviderStarting \<Rightarrow> (case env of [] \<Rightarrow> (None, s) | g # env' \<Rightarrow> lockUntil X env' (g s))
   | ProviderRunning \<Rightarrow> (Some KOk, s)
   | ProviderInitializing \<Rightarrow> (Some KOk, s))"

declare lockUntil.simps [simp del]

section \<open>The invariant\<close>

text \<open>Between operations the repository handle is held exactly in state RUNNING, STARTING is never
  seen, and a handle comes with a running context that can be cancelled.\<close>

definition kp_inv :: "'k kprov \<Rightarrow> bool" where
  "kp_inv s \<longleftrightarrow> (kp_repo s \<longleftrightarrow> kp_state s = ProviderRunning) \<and> kp_state s \<noteq> ProviderStarting
     \<and> (kp_repo s \<longrightarrow> kp_ctx s \<noteq> None) \<and> (kp_don_closed s \<longrightarrow> kp_usage_closed s)"

text \<open>The fields that the calls of third-party code leave alone.\<close>

definition same_ctl :: "'k kprov \<Rightarrow> 'k kprov \<Rightarrow> bool" where
  "same_ctl s s' \<longleftrightarrow> kp_state s' = kp_state s \<and> kp_repo s' = kp_repo s \<and> kp_ctx s' = kp_ctx s
     \<and> kp_usage_closed s' = kp_usage_closed s \<and> kp_don_closed s' = kp_don_closed s
     \<and> kp_type s' = kp_type s \<and> kp_prefix s' = kp_prefix s \<and> kp_stat s' = kp_stat s"

lemma same_ctl_refl [simp, intro]: "same_ctl s s" by (simp add: same_ctl_def)
lemma same_ctl_trans: "same_ctl s t \<Longrightarrow> same_ctl t u \<Longrightarrow> same_ctl s u" by (simp add: same_ctl_def)
lemma same_ctl_inv: "same_ctl s t \<Longrightarrow> kp_inv t = kp_inv s" by (simp add: same_ctl_def kp_inv_def)

lemma ext_ctl: "ext f s = (e, s') \<Longrightarrow> same_ctl s s' \<and> kp_s3 s' = kp_s3 s \<and> kp_log s' = kp_log s \<and> kp_full s' = kp_full s"
  by (auto simp: ext_def same_ctl_def split: prod.splits)

lemma extw_ctl [simp]: "same_ctl s (extw f s)" "same_ctl (extw f s) t = same_ctl s t"
  "same_ctl t (extw f s) = same_ctl t s" "kp_s3 (extw f s) = kp_s3 s" "kp_k (extw f s) = f (kp_k s)"
  "kp_inv (extw f s) = kp_inv s" "kp_state (extw f s) = kp_state s" "kp_repo (extw f s) = kp_repo s"
  by (simp_all add: extw_def same_ctl_def kp_inv_def)

lemma verifyConnect_ctl: "verifyConnect X s = (e, s') \<Longrightarrow> same_ctl s s' \<and> kp_s3 s' = kp_s3 s"
  by (auto simp: verifyConnect_def dest!: ext_ctl split: option.splits prod.splits
      intro: same_ctl_trans)

lemma init_connect_ctl: "init_connect X s = (e, s') \<Longrightarrow> same_ctl s s' \<and> kp_s3 s' = kp_s3 s"
  by (auto simp: init_connect_def Let_def dest!: ext_ctl split: option.splits prod.splits if_splits
      intro: same_ctl_trans)

lemma doInitialize_ctl: "doInitialize X s = (e, s') \<Longrightarrow> same_ctl s s' \<and> kp_s3 s' = kp_s3 s"
  by (auto simp: doInitialize_def split: option.splits if_splits dest: init_connect_ctl)

lemma initKopiaRepo_ctl: "initKopiaRepo X s = (e, s') \<Longrightarrow> same_ctl s s' \<and> kp_s3 s' = kp_s3 s"
  by (auto simp: initKopiaRepo_def split: option.splits prod.splits
      dest!: ext_ctl dest: doInitialize_ctl intro: same_ctl_trans)

lemma initializeS3Client_ctl: "initializeS3Client X s = (e, s') \<Longrightarrow> same_ctl s s' \<and> (e = None \<longrightarrow> kp_s3 s')"
  by (auto simp: initializeS3Client_def same_ctl_def split: if_splits option.splits)

lemma createBucket_ctl: "createBucketIfNotExists X s = (e, s') \<Longrightarrow> same_ctl s s' \<and> kp_s3 s' = kp_s3 s"
  by (auto simp: createBucketIfNotExists_def split: sum.splits bool.splits prod.splits dest!: ext_ctl)

lemma start_setup_ctl: "start_setup X s = (r, s') \<Longrightarrow> same_ctl s s'"
  by (auto simp: start_setup_def split: prod.splits option.splits LocationType.splits
      dest!: verifyConnect_ctl initializeS3Client_ctl createBucket_ctl initKopiaRepo_ctl
      intro: same_ctl_trans)

lemma openRepository_ctl: "openRepository X s = (e, s') \<Longrightarrow> same_ctl s s'"
  by (auto simp: openRepository_def Let_def split: option.splits prod.splits if_splits dest!: ext_ctl)

lemma OpenRepository_spec:
  assumes "OpenRepository X s = (e, s')"
  shows "kp_state s' = kp_state s \<and> kp_ctx s' = kp_ctx s \<and> kp_usage_closed s' = kp_usage_closed s
    \<and> kp_don_closed s' = kp_don_closed s \<and> kp_type s' = kp_type s \<and> kp_repo s' = (kp_repo s \<or> e = None)
    \<and> kp_stat s' = kp_stat s"
  using assms
  by (auto simp: OpenRepository_def same_ctl_def split: if_splits prod.splits option.splits
      dest!: openRepository_ctl ext_ctl)

lemma start_finish_spec:
  assumes "start_finish X r = (r', s')" "\<not> kp_repo (snd r)"
  shows "kp_ctx s' = kp_ctx (snd r) \<and> kp_usage_closed s' = kp_usage_closed (snd r)
    \<and> kp_don_closed s' = kp_don_closed (snd r) \<and> kp_repo s' = (r' = KOk)
    \<and> kp_state s' = (if r' = KOk then ProviderRunning else ProviderError) \<and> kp_stat s' = kp_stat (snd r)"
  using assms
  by (auto simp: start_finish_def split: prod.splits kres.splits option.splits dest!: OpenRepository_spec)

text \<open>What \<open>Start\<close> does to a provider that is not running, when the lock is free.\<close>

lemma Start_locked:
  assumes "Start X s = (r, s')" "x_trylock X startLockFile (kp_k s) = (Inr True, k)"
    "kp_state s \<noteq> ProviderRunning" "\<not> kp_repo s"
  shows "kp_ctx s' = Some False \<and> kp_usage_closed s' = kp_usage_closed s \<and> kp_don_closed s' = kp_don_closed s
    \<and> kp_repo s' = (r = KOk) \<and> kp_state s' = (if r = KOk then ProviderRunning else ProviderError)"
proof -
  let ?s0 = "s\<lparr>kp_prefix := (if hasSuffix (kp_prefix s) ''/'' then kp_prefix s else kp_prefix s @ ''/''),
     kp_k := k, kp_state := ProviderStarting, kp_ctx := Some False, kp_log := True, kp_hook := True\<rparr>"
  obtain a b where 1: "start_setup X ?s0 = (a, b)" by fastforce
  obtain c d where 2: "start_finish X (a, b) = (c, d)" by fastforce
  have r: "r = c" "s' = extw (x_unlock X startLockFile) d"
    using assms(1-3) 1 2 unfolding Start_def by (auto simp: Let_def)
  have "same_ctl ?s0 b" using start_setup_ctl[OF 1] .
  then have b: "kp_ctx b = Some False" "kp_usage_closed b = kp_usage_closed s"
    "kp_don_closed b = kp_don_closed s" "\<not> kp_repo b"
    using assms(4) by (simp_all add: same_ctl_def)
  then show ?thesis using start_finish_spec[OF 2] r by (simp add: extw_def)
qed

lemma Start_else:
  assumes "Start X s = (r, s')" "\<And>k. x_trylock X startLockFile (kp_k s) = (Inr True, k) \<Longrightarrow> kp_state s = ProviderRunning"
  shows "kp_ctx s' = kp_ctx s \<and> kp_usage_closed s' = kp_usage_closed s \<and> kp_don_closed s' = kp_don_closed s
    \<and> kp_repo s' = kp_repo s \<and> kp_state s' = kp_state s"
  using assms by (auto simp: Start_def Let_def extw_def split: prod.splits sum.splits bool.splits if_splits)

lemma start_finish_stat: "start_finish X r = (r', s') \<Longrightarrow> kp_stat s' = kp_stat (snd r)"
  by (auto simp: start_finish_def split: prod.splits kres.splits option.splits dest!: OpenRepository_spec)

lemma Start_stat:
  assumes "Start X s = (r, s')"
  shows "kp_stat s' = kp_stat s"
proof -
  let ?s0 = "s\<lparr>kp_prefix := (if hasSuffix (kp_prefix s) ''/'' then kp_prefix s else kp_prefix s @ ''/''),
     kp_k := snd (x_trylock X startLockFile (kp_k s)), kp_state := ProviderStarting, kp_ctx := Some False,
     kp_log := True, kp_hook := True\<rparr>"
  obtain a b where 1: "start_setup X ?s0 = (a, b)" by fastforce
  obtain c d where 2: "start_finish X (a, b) = (c, d)" by fastforce
  have "kp_stat d = kp_stat s" using start_setup_ctl[OF 1] start_finish_stat[OF 2] by (simp add: same_ctl_def)
  then show ?thesis using assms 1 2
    by (auto simp: Start_def Let_def extw_def split: prod.splits sum.splits bool.splits if_splits)
qed

lemma Start_inv: "kp_inv s \<Longrightarrow> Start X s = (r, s') \<Longrightarrow> kp_inv s'"
  by (cases "(\<exists>k. x_trylock X startLockFile (kp_k s) = (Inr True, k)) \<and> kp_state s \<noteq> ProviderRunning")
    (auto simp: kp_inv_def dest: Start_locked Start_else)

lemma shutdown_spec:
  assumes "shutdown X s = (r, s')" "kp_inv s"
  shows "(\<forall>m. r \<noteq> KPanic m) \<and> kp_state s' = kp_state s \<and> kp_repo s' = kp_repo s
    \<and> (kp_ctx s' = None \<longrightarrow> kp_ctx s = None) \<and> kp_usage_closed s' = kp_usage_closed s
    \<and> kp_don_closed s' = kp_don_closed s \<and> kp_s3 s' = kp_s3 s \<and> kp_prefix s' = kp_prefix s
    \<and> (kp_repo s \<longrightarrow> kp_ctx s' = Some True)"
proof -
  have c: "same_ctl t t' \<and> kp_s3 t' = kp_s3 t" if "closeKopiaReleatedResouces X t = (e, t')" for t t' e
    using that by (auto simp: closeKopiaReleatedResouces_def split: if_splits prod.splits option.splits
        dest!: ext_ctl intro: same_ctl_trans)
  show ?thesis
  proof (cases "kp_repo s")
    case True
    then obtain b where b: "kp_ctx s = Some b" using assms(2) by (auto simp: kp_inv_def)
    let ?s1 = "extw (x_wait_jobs X) (s\<lparr>kp_ctx := Some True\<rparr>)"
    obtain e t where t: "closeKopiaReleatedResouces X ?s1 = (e, t)" by fastforce
    have "r = kres_of e" "s' = t"
      using assms(1) True b t by (simp_all add: shutdown_def waitJobExit_def)
    then show ?thesis using c[OF t] b True
      by (auto simp: same_ctl_def extw_def kres_of_def split: option.splits)
  next
    case False
    obtain e t where t: "closeKopiaReleatedResouces X s = (e, t)" by fastforce
    have "r = kres_of e" "s' = t" using assms(1) False t by (simp_all add: shutdown_def)
    then show ?thesis using c[OF t] False by (auto simp: same_ctl_def kres_of_def split: option.splits)
  qed
qed

lemma remove_all_ctl: "remove_all X obs s = (e, s') \<Longrightarrow> same_ctl s s'"
proof (induction obs arbitrary: s)
  case (Cons ob obs)
  then show ?case by (auto split: prod.splits option.splits dest!: ext_ctl intro: same_ctl_trans)
qed simp

lemma cleanupRepo_ctl: "cleanupRepo X s = (r, s') \<Longrightarrow> same_ctl s s'"
  by (auto simp: cleanupRepo_def cleanupObjectStorage_def Let_def
      split: prod.splits option.splits if_splits dest!: ext_ctl remove_all_ctl intro: same_ctl_trans)

lemma shutdown_inv: "shutdown X s = (r, s') \<Longrightarrow> kp_inv s \<Longrightarrow> kp_inv s'"
  using shutdown_spec[of X s r s'] unfolding kp_inv_def by metis

lemma destroy_body_inv:
  assumes i: "kp_inv s" and d: "destroy_body X s = (r, s')"
  shows "kp_inv s' \<and> (r = KOk \<longrightarrow> kp_state s' = ProviderDestroyed)"
proof -
  obtain a s1 where 1: "shutdown X s = (a, s1)" by fastforce
  obtain b s2 where 2: "cleanupRepo X (s1\<lparr>kp_repo := False\<rparr>) = (b, s2)" by fastforce
  have i1: "kp_inv s1" using shutdown_inv[OF 1 i] .
  have "\<not> kp_repo s2" "kp_don_closed s2 = kp_don_closed s1" "kp_usage_closed s2 = kp_usage_closed s1"
    using cleanupRepo_ctl[OF 2] by (simp_all add: same_ctl_def)
  then have "kp_inv (s2\<lparr>kp_state := ProviderDestroyed\<rparr>)" using i1 by (auto simp: kp_inv_def)
  then have k: "kp_inv (s2\<lparr>kp_state := ProviderDestroyed\<rparr>)" .
  show ?thesis
  proof (cases a)
    case KOk
    then have "s' = s2\<lparr>kp_state := ProviderDestroyed\<rparr>" using d 1 2 by (simp add: destroy_body_def)
    then show ?thesis using k by simp
  next
    case (KErr e)
    then show ?thesis using d 1 i1 by (simp add: destroy_body_def) fast
  next
    case (KPanic e)
    then show ?thesis using d 1 i1 by (simp add: destroy_body_def) fast
  qed
qed

lemma with_flock_inv:
  assumes "kp_inv s" "with_flock X lf m body s = (r, s')"
    and "\<And>t r t'. kp_inv t \<Longrightarrow> body t = (r, t') \<Longrightarrow> kp_inv t'"
  shows "kp_inv s'"
proof -
  have i: "kp_inv (s\<lparr>kp_k := k\<rparr>)" for k using assms(1) by (simp add: kp_inv_def)
  have b: "body (s\<lparr>kp_k := k\<rparr>) = (r, t) \<Longrightarrow> kp_inv t" for k t using assms(3)[OF i] .
  obtain l k where l: "x_trylock X lf (kp_k s) = (l, k)" by fastforce
  obtain r1 t where t: "body (s\<lparr>kp_k := k\<rparr>) = (r1, t)" by fastforce
  show ?thesis
  proof (cases l)
    case (Inl e)
    then show ?thesis using assms(2) l i by (auto simp: with_flock_def)
  next
    case (Inr g)
    then show ?thesis using assms(2) l t i b[of k t] by (cases g) (auto simp: with_flock_def)
  qed
qed

lemma Close_inv:
  assumes i: "kp_inv s" and c: "Close X s = (r, s')"
  shows "kp_inv s'"
proof -
  obtain a s1 where 1: "shutdown X s = (a, s1)" by fastforce
  have i1: "kp_inv s1" using shutdown_inv[OF 1 i] .
  have e: "kp_inv (snd (ext f t)) = kp_inv t" for f and t :: "'a kprov"
    using same_ctl_inv[of t "snd (ext f t)"] ext_ctl[of f t "fst (ext f t)" "snd (ext f t)"] by simp
  have u: "kp_inv (t\<lparr>kp_usage_closed := True\<rparr>)" "kp_inv (t\<lparr>kp_usage_closed := True, kp_don_closed := True\<rparr>)"
    if "kp_inv t" for t :: "'a kprov"
    using that by (auto simp: kp_inv_def)
  show ?thesis using c 1 i i1 u
    by (cases a) (auto simp: Close_def e split: if_splits)
qed

lemma refresh_body_inv: "kp_inv s \<Longrightarrow> refresh_body X ty p s = (r, s') \<Longrightarrow> kp_inv s'"
proof -
  assume i: "kp_inv s" and r: "refresh_body X ty p s = (r, s')"
  obtain a s1 where 1: "shutdown X s = (a, s1)" by fastforce
  let ?s2 = "s1\<lparr>kp_repo := False, kp_state := ProviderInitializing, kp_usage_closed := False,
                    kp_don_closed := False, kp_stat := emptyStat, kp_hook := False, kp_type := ty,
                    kp_prefix := p\<rparr>"
  have i1: "kp_inv s1" using shutdown_spec[OF 1 i] i by (auto simp: kp_inv_def)
  have i2: "kp_inv ?s2" by (simp add: kp_inv_def)
  obtain b s3 where 3: "Start X (extw (x_rm_cache X) ?s2) = (b, s3)" by fastforce
  have i3: "kp_inv s3" using Start_inv[OF _ 3] i2 by simp
  obtain e s4 where 4: "maintain X s3 = (e, s4)" by fastforce
  have i4: "kp_inv s4" using 4 i3 by (auto simp: maintain_def same_ctl_inv split: if_splits dest!: ext_ctl)
  show "kp_inv s'" using r 1 3 4 i1 i2 i3 i4
    by (auto simp: refresh_body_def Let_def split: kres.splits if_splits)
qed

lemma refresh_tick_inv: "kp_inv s \<Longrightarrow> refresh_tick X s = (r, s') \<Longrightarrow> kp_inv s'"
  by (auto simp: refresh_tick_def kp_inv_def same_ctl_def split: if_splits prod.splits option.splits dest!: ext_ctl)

section \<open>Runs of the provider\<close>

text \<open>The operations in any order; between them the world outside may change in any way. The refresh
  goroutine ticks only while its context is alive.\<close>

inductive kp_run :: "'k kopia_ops \<Rightarrow> 'k kprov \<Rightarrow> bool" for X where
  new: "kp_run X (NewKopia ty pfx k)"
| start: "kp_run X s \<Longrightarrow> Start X s = (r, s') \<Longrightarrow> kp_run X s'"
| destroy: "kp_run X s \<Longrightarrow> DestroyBackendRepo X s = (r, s') \<Longrightarrow> kp_run X s'"
| close: "kp_run X s \<Longrightarrow> Close X s = (r, s') \<Longrightarrow> kp_run X s'"
| refresh: "kp_run X s \<Longrightarrow> OnRefresh X ty pfx s = (r, s') \<Longrightarrow> kp_run X s'"
| tick: "kp_run X s \<Longrightarrow> kp_ctx s = Some False \<Longrightarrow> refresh_tick X s = (r, s') \<Longrightarrow> kp_run X s'"
| world: "kp_run X s \<Longrightarrow> kp_run X (s\<lparr>kp_k := k, kp_stat := st\<rparr>)"

lemma kp_run_inv: "kp_run X s \<Longrightarrow> kp_inv s"
proof (induction rule: kp_run.induct)
  case (new ty pfx k)
  then show ?case by (simp add: kp_inv_def NewKopia_def)
next
  case (destroy s r s')
  have "kp_inv t \<Longrightarrow> destroy_body X t = (r, t') \<Longrightarrow> kp_inv t'" for t r t'
    using destroy_body_inv[of t X r t'] by blast
  then show ?case using with_flock_inv[OF destroy.IH destroy.hyps(2)[unfolded DestroyBackendRepo_def]] by blast
next
  case (refresh s ty pfx r s')
  then show ?case
    using with_flock_inv[OF refresh.IH refresh.hyps(2)[unfolded OnRefresh_def]] refresh_body_inv by blast
next
  case (world s k st)
  then show ?case by (simp add: kp_inv_def)
qed (auto intro: Start_inv Close_inv refresh_tick_inv)

text \<open>A world for the examples: the objects of the bucket, whether the configuration file is there and
  the locks that are held.\<close>

type_synonym toy = "(string \<times> i64) list \<times> bool \<times> string list"

definition toy_ops :: "toy kopia_ops" where
  "toy_ops = \<lparr>
     x_trylock = (\<lambda>l (obs, c, ls). if l \<in> set ls then (Inr False, (obs, c, ls)) else (Inr True, (obs, c, l # ls))),
     x_unlock = (\<lambda>l (obs, c, ls). (obs, c, removeAll l ls)),
     x_not_exist = (\<lambda>e. e = EExt ''not exist''),
     x_stat_cfg = (\<lambda>(obs, c, ls). if c then None else Some (EExt ''not exist'')),
     x_rm_cfg = (\<lambda>(obs, c, ls). (None, (obs, False, ls))),
     x_rm_cache = (\<lambda>k. k), x_open = Pair None, x_close = Pair None, x_disconnect = (\<lambda>k. k),
     x_session = (\<lambda>_. Pair None), x_client = (\<lambda>_. None), x_bucket_exists = (\<lambda>_. Inr True),
     x_make_bucket = Pair None, x_storage = (\<lambda>_. Pair None), x_blobs = (\<lambda>(obs, _). Inr (map fst obs)),
     x_initialize = (\<lambda>_. Pair None), x_connect = (\<lambda>(obs, c, ls). (None, (obs, True, ls))),
     x_log_close = Pair None, x_wait_jobs = (\<lambda>k. k),
     x_objects = (\<lambda>p (obs, _). filter (\<lambda>ob. hasPrefix (fst ob) p) obs),
     x_remove = (\<lambda>key (obs, c, ls). (None, (filter (\<lambda>ob. fst ob \<noteq> key) obs, c, ls))),
     x_refresh = Pair None, x_maintain = Pair None \<rparr>"

definition toy_new :: "bool \<Rightarrow> toy kprov" where
  "toy_new c = NewKopia LocationTypeS3Compliant ''7'' ([(''7/p1'', 600), (''7/q1'', 9), (''7/p2'', 700)], c, [])"



section \<open>lockUntil\<close>

lemma lockUntil_stat: "\<forall>g\<in>set env. \<forall>t. kp_stat (g t) = kp_stat t \<Longrightarrow> lockUntil X env s = (r, s') \<Longrightarrow>
    kp_stat s' = kp_stat s"
proof (induction env arbitrary: s)
  case Nil
  then show ?case
    by (subst (asm) lockUntil.simps) (auto split: ProviderState.splits prod.splits kres.splits dest: Start_stat)
next
  case (Cons g env)
  have g: "kp_stat (g t) = kp_stat t" for t using Cons.prems(1) by simp
  have IH: "lockUntil X env t = (r, s') \<Longrightarrow> kp_stat s' = kp_stat t" for t using Cons.IH Cons.prems(1) by simp
  obtain q u where u: "Start X s = (q, u)" by fastforce
  show ?case using Cons.prems(2) u Start_stat[OF u] g[of u] g[of s] IH[of "g u"] IH[of "g s"]
    by (subst (asm) lockUntil.simps) (auto split: ProviderState.splits kres.splits)
qed

lemma lockUntil_result:
  "lockUntil X env s = (Some KOk, s') \<Longrightarrow> kp_state s' = ProviderRunning \<or> kp_state s' = ProviderInitializing"
proof (induction env arbitrary: s)
  case Nil
  then show ?case
    by (subst (asm) lockUntil.simps) (auto split: ProviderState.splits prod.splits kres.splits)
next
  case (Cons g env)
  show ?case
  proof (cases "kp_state s")
    case ProviderDestroyed
    then show ?thesis using Cons.prems Cons.IH[of "g (snd (Start X s))"]
      by (subst (asm) lockUntil.simps) (auto split: prod.splits kres.splits)
  next
    case ProviderStarting
    then show ?thesis using Cons.prems Cons.IH[of "g s"] by (subst (asm) lockUntil.simps) auto
  qed (use Cons.prems in \<open>subst (asm) lockUntil.simps, auto\<close>)+
qed

text \<open>\<open>lockUntil\<close> lets a job through only in state RUNNING or INITIALIZING, whatever other goroutines
  do meanwhile. When they do nothing and the start lock is free it returns at once or after one
  start: a destroyed provider is started again, and its job goes on exactly if that start succeeds;
  a provider in ERROR refuses every job and is not started again.\<close>

theorem lockUntil_admits:
  assumes "kp_run X s"
  shows "(lockUntil X env s = (Some KOk, s') \<longrightarrow>
       kp_state s' = ProviderRunning \<or> kp_state s' = ProviderInitializing)
    \<and> (kp_state s = ProviderError \<longrightarrow> lockUntil X env s = (Some (KErr EProviderInvalidState), s))
    \<and> (kp_state s = ProviderDestroyed \<longrightarrow> fst (x_trylock X startLockFile (kp_k s)) = Inr True \<longrightarrow>
        lockUntil X ((\<lambda>t. t) # env) s = (Some (fst (Start X s)), snd (Start X s)))"
proof -
  have i: "kp_inv s" by (rule kp_run_inv[OF assms])
  have "lockUntil X ((\<lambda>t. t) # env) s = (Some (fst (Start X s)), snd (Start X s))"
    if d: "kp_state s = ProviderDestroyed" and l: "fst (x_trylock X startLockFile (kp_k s)) = Inr True"
  proof -
    obtain r t where r: "Start X s = (r, t)" by fastforce
    obtain k where k: "x_trylock X startLockFile (kp_k s) = (Inr True, k)"
      using l by (cases "x_trylock X startLockFile (kp_k s)") auto
    have "\<not> kp_repo s" using i d by (simp add: kp_inv_def)
    then have "r = KOk \<Longrightarrow> kp_state t = ProviderRunning" using Start_locked[OF r k] d by simp
    then have "r = KOk \<Longrightarrow> lockUntil X env t = (Some KOk, t)" by (subst lockUntil.simps) simp
    then show ?thesis using d r by (subst lockUntil.simps) (auto split: kres.split)
  qed
  moreover have "kp_state s = ProviderError \<longrightarrow> lockUntil X env s = (Some (KErr EProviderInvalidState), s)"
    by (subst lockUntil.simps) simp
  ultimately show ?thesis using lockUntil_result[of X env s s'] by blast
qed

definition toy_destroyed :: "toy kprov" where
  "toy_destroyed = snd (DestroyBackendRepo toy_ops (snd (Start toy_ops (toy_new False))))"

lemma toy_new_run: "kp_run toy_ops (toy_new c)"
  unfolding toy_new_def by (rule kp_run.new)

lemma toy_destroyed_run: "kp_run toy_ops toy_destroyed"
proof -
  have "kp_run toy_ops (snd (DestroyBackendRepo toy_ops (snd (Start toy_ops (toy_new False)))))"
    using kp_run.start[OF toy_new_run prod.collapse[symmetric]] by (rule kp_run.destroy[OF _ prod.collapse[symmetric]])
  then show ?thesis by (simp only: toy_destroyed_def)
qed

theorem lockUntil_admits_witness:
  "kp_state toy_destroyed = ProviderDestroyed
   \<and> fst (lockUntil toy_ops [\<lambda>t. t] toy_destroyed) = Some KOk
   \<and> kp_state (snd (lockUntil toy_ops [\<lambda>t. t] toy_destroyed)) = ProviderRunning"
proof -
  have d: "kp_state toy_destroyed = ProviderDestroyed" by code_simp
  have l: "fst (x_trylock toy_ops startLockFile (kp_k toy_destroyed)) = Inr True" by code_simp
  have "lockUntil toy_ops [\<lambda>t. t] toy_destroyed
      = (Some (fst (Start toy_ops toy_destroyed)), snd (Start toy_ops toy_destroyed))"
    using lockUntil_admits[OF toy_destroyed_run, where env = "[]" and s' = toy_destroyed] d l by blast
  moreover have "fst (Start toy_ops toy_destroyed) = KOk"
    "kp_state (snd (Start toy_ops toy_destroyed)) = ProviderRunning" by code_simp+
  ultimately show ?thesis using d by simp
qed

section \<open>Destroying the repository\<close>

text \<open>What is relied on of the object store: a removed object is not listed again, and the other calls
  in between leave the bucket alone.\<close>

definition bucket_laws :: "'k kopia_ops \<Rightarrow> bool" where
  "bucket_laws X \<longleftrightarrow>
     (\<forall>p key k k'. x_remove X key k = (None, k') \<longrightarrow>
        x_objects X p k' = filter (\<lambda>ob. fst ob \<noteq> key) (x_objects X p k))
   \<and> (\<forall>p lf k. x_objects X p (x_unlock X lf k) = x_objects X p k)"

lemma remove_all_empty:
  assumes "bucket_laws X"
  shows "remove_all X obs s = (None, s') \<Longrightarrow>
    x_objects X p (kp_k s') = filter (\<lambda>ob. fst ob \<notin> fst ` set obs) (x_objects X p (kp_k s))"
proof (induction obs arbitrary: s)
  case (Cons ob obs)
  obtain e k where k: "x_remove X (fst ob) (kp_k s) = (e, k)" by fastforce
  have e: "e = None" and r: "remove_all X obs (s\<lparr>kp_k := k\<rparr>) = (None, s')"
    using Cons.prems k by (auto simp: ext_def split: option.splits)
  have "x_objects X p k = filter (\<lambda>o'. fst o' \<noteq> fst ob) (x_objects X p (kp_k s))"
    using assms k e unfolding bucket_laws_def by blast
  then show ?case using Cons.IH[OF r] by (simp add: conj_commute)
qed simp

text \<open>C20: \<open>DestroyBackendRepo\<close> destroys: when it returns without an error (and was not kept out by another
  destroyer), the provider is DESTROYED without a handle and no object is left below the prefix of the
  tenant.\<close>

theorem DestroyBackendRepo_clears:
  assumes "kp_run X s" "bucket_laws X" "x_trylock X destroyLockFile (kp_k s) = (Inr True, k)"
    and "DestroyBackendRepo X s = (KOk, s')"
  shows "kp_state s' = ProviderDestroyed \<and> \<not> kp_repo s' \<and> x_objects X (kp_prefix s) (kp_k s') = []"
proof -
  let ?s0 = "s\<lparr>kp_k := k\<rparr>"
  have i: "kp_inv ?s0" using kp_run_inv[OF assms(1)] by (simp add: kp_inv_def)
  obtain r t where t: "destroy_body X ?s0 = (r, t)" by fastforce
  have r: "r = KOk" "s' = extw (x_unlock X destroyLockFile) t"
    using assms(3,4) t by (simp_all add: DestroyBackendRepo_def with_flock_def)
  have st: "kp_state t = ProviderDestroyed" "kp_inv t" using destroy_body_inv[OF i t] r(1) by auto
  obtain a s1 where 1: "shutdown X ?s0 = (a, s1)" by fastforce
  let ?s2 = "s1\<lparr>kp_repo := False\<rparr>"
  obtain b s3 where 3: "cleanupRepo X ?s2 = (b, s3)" by fastforce
  have "a = KOk" using t r(1) 1 by (cases a) (simp_all add: destroy_body_def)
  then have b: "b = KOk" "t = s3\<lparr>kp_state := ProviderDestroyed\<rparr>"
    using t r(1) 1 3 by (simp_all add: destroy_body_def)
  obtain e s4 where 4: "ext (x_rm_cfg X) ?s2 = (e, s4)" by fastforce
  have e: "e = None" "cleanupObjectStorage X s4 = (KOk, s3)"
    using 3 4 b(1) by (auto simp: cleanupRepo_def split: option.splits)
  then have rm: "remove_all X (x_objects X (kp_prefix s4) (kp_k s4)) s4 = (None, s3)"
    by (auto simp: cleanupObjectStorage_def Let_def kres_of_def split: if_splits prod.splits option.splits)
  have p: "kp_prefix s4 = kp_prefix s"
    using shutdown_spec[OF 1 i] ext_ctl[OF 4] by (simp add: same_ctl_def)
  have "x_objects X (kp_prefix s) (kp_k s3) = []"
    using remove_all_empty[OF assms(2) rm, of "kp_prefix s"] by (simp add: p filter_empty_conv)
  then have "x_objects X (kp_prefix s) (kp_k s') = []"
    using assms(2) r(2) b(2) unfolding bucket_laws_def by simp
  then show ?thesis using st r(2) by (simp add: kp_inv_def)
qed

lemma toy_bucket: "bucket_laws toy_ops"
  by (auto simp: bucket_laws_def toy_ops_def intro: filter_cong)

theorem DestroyBackendRepo_clears_witness:
  "x_objects toy_ops ''7/'' (kp_k (snd (Start toy_ops (toy_new False)))) \<noteq> []
   \<and> x_objects toy_ops ''7/'' (kp_k toy_destroyed) = []"
proof -
  let ?s = "snd (Start toy_ops (toy_new False))"
  have run: "kp_run toy_ops ?s" by (rule kp_run.start[OF toy_new_run prod.collapse[symmetric]])
  have l: "x_trylock toy_ops destroyLockFile (kp_k ?s)
     = (Inr True, snd (x_trylock toy_ops destroyLockFile (kp_k ?s)))" by code_simp
  have "fst (DestroyBackendRepo toy_ops ?s) = KOk" by code_simp
  then have d: "DestroyBackendRepo toy_ops ?s = (KOk, toy_destroyed)"
    by (simp add: toy_destroyed_def prod_eq_iff)
  have "kp_prefix ?s = ''7/''" by code_simp
  then show ?thesis using DestroyBackendRepo_clears[OF run toy_bucket l d]
    by (simp only: simp_thms) code_simp
qed

text \<open>A provider that starts from an existing configuration file has no S3 client: \<open>Start\<close> returns
  early and the client is only made in the branch behind. Destroying the repository of such a provider
  never succeeds: it fails earlier, or the first use of the nil client panics after the resources were
  closed and the configuration file was removed, so that every object stays in the bucket.\<close>

theorem destroy_after_reconnect_panics:
  assumes k: "x_trylock X startLockFile k0 = (Inr True, k)"
    and v: "fst (verifyConnect X (NewKopia ty pfx k)) = None"
    and st: "Start X (NewKopia ty pfx k0) = (KOk, s)" and d: "DestroyBackendRepo X s = (r, s')"
    and l: "fst (x_trylock X destroyLockFile (kp_k s)) = Inr True"
  shows "kp_state s = ProviderRunning \<and> \<not> kp_s3 s
    \<and> ((\<exists>e. r = KErr e) \<or> r = KPanic ''nil pointer dereference'' \<and> kp_state s' = ProviderDestroyed)"
proof -
  let ?p = "if hasSuffix pfx ''/'' then pfx else pfx @ ''/''"
  let ?s1 = "(NewKopia ty pfx k)\<lparr>kp_prefix := ?p, kp_state := ProviderStarting, kp_ctx := Some False,
      kp_log := True, kp_hook := True\<rparr>"
  have "fst (verifyConnect X ?s1) = fst (verifyConnect X (NewKopia ty pfx k))"
    by (simp add: verifyConnect_def ext_def Let_def NewKopia_def split: option.split prod.split)
  then obtain s2 where s2: "verifyConnect X ?s1 = (None, s2)" using v by (metis prod.collapse)
  have c2: "same_ctl ?s1 s2" "\<not> kp_s3 s2" using verifyConnect_ctl[OF s2] by (simp_all add: NewKopia_def)
  obtain a t where f: "start_finish X (KOk, s2) = (a, t)" by fastforce
  have n: "(NewKopia ty pfx k0)\<lparr>kp_k := k\<rparr> = NewKopia ty pfx k" "kp_k (NewKopia ty pfx k0) = k0"
    "kp_prefix (NewKopia ty pfx k0) = pfx" "kp_state (NewKopia ty pfx k0) = ProviderInitializing"
    by (simp_all add: NewKopia_def)
  have "(NewKopia ty pfx k0)\<lparr>kp_prefix := ?p, kp_k := k, kp_state := ProviderStarting, kp_ctx := Some False,
      kp_log := True, kp_hook := True\<rparr> = ?s1" by (simp add: NewKopia_def)
  then have s: "a = KOk" "s = extw (x_unlock X startLockFile) t"
    using st k s2 f n by (simp_all add: Start_def Let_def start_setup_def)
  have "kp_s3 t = kp_s3 s2"
    using f by (auto simp: start_finish_def OpenRepository_def openRepository_def Let_def
        split: if_splits prod.splits option.splits dest!: ext_ctl)
  then have s3: "\<not> kp_s3 s" using c2 s(2) by simp
  have "\<not> kp_repo s2" using c2(1) by (simp add: same_ctl_def NewKopia_def)
  then have t: "kp_repo t" "kp_state t = ProviderRunning" "kp_ctx t = kp_ctx s2"
    "kp_don_closed t = kp_don_closed s2"
    using start_finish_spec[OF f] s(1) by simp_all
  then have i: "kp_inv s" using c2(1) s(2) by (simp add: kp_inv_def same_ctl_def NewKopia_def extw_def)
  obtain kd where kd: "x_trylock X destroyLockFile (kp_k s) = (Inr True, kd)" using l by (metis prod.collapse)
  obtain b u where b: "destroy_body X (s\<lparr>kp_k := kd\<rparr>) = (b, u)" by fastforce
  have r: "r = b" "s' = extw (x_unlock X destroyLockFile) u"
    using d kd b by (simp_all add: DestroyBackendRepo_def with_flock_def)
  obtain c w where w: "shutdown X (s\<lparr>kp_k := kd\<rparr>) = (c, w)" by fastforce
  have "kp_inv (s\<lparr>kp_k := kd\<rparr>)" using i by (simp add: kp_inv_def)
  note sd = shutdown_spec[OF w this]
  have "(\<exists>e. b = KErr e) \<or> b = KPanic ''nil pointer dereference'' \<and> kp_state u = ProviderDestroyed"
  proof (cases c)
    case KOk
    then show ?thesis using b w sd s3
      by (auto simp: destroy_body_def cleanupRepo_def cleanupObjectStorage_def Let_def ext_def
          split: prod.splits option.splits)
  qed (use b w sd in \<open>auto simp: destroy_body_def\<close>)
  then show ?thesis using r s3 s(2) t by simp
qed

theorem destroy_after_reconnect_panics_witness:
  "fst (DestroyBackendRepo toy_ops (snd (Start toy_ops (toy_new True)))) = KPanic ''nil pointer dereference''
   \<and> x_objects toy_ops ''7/'' (kp_k (snd (DestroyBackendRepo toy_ops (snd (Start toy_ops (toy_new True)))))) \<noteq> []"
proof -
  let ?k = "([(''7/p1'', 600), (''7/q1'', 9), (''7/p2'', 700)], True, []) :: toy"
  let ?s = "snd (Start toy_ops (toy_new True))"
  have 1: "x_trylock toy_ops startLockFile ?k = (Inr True, snd (x_trylock toy_ops startLockFile ?k))" by code_simp
  have 2: "fst (verifyConnect toy_ops (NewKopia LocationTypeS3Compliant ''7''
      (snd (x_trylock toy_ops startLockFile ?k)))) = None" by code_simp
  have "fst (Start toy_ops (toy_new True)) = KOk" by code_simp
  then have 3: "Start toy_ops (NewKopia LocationTypeS3Compliant ''7'' ?k) = (KOk, ?s)"
    by (simp add: toy_new_def prod_eq_iff)
  have 4: "DestroyBackendRepo toy_ops ?s = (fst (DestroyBackendRepo toy_ops ?s), snd (DestroyBackendRepo toy_ops ?s))"
    by simp
  have 5: "fst (x_trylock toy_ops destroyLockFile (kp_k ?s)) = Inr True" by code_simp
  have 6: "(case fst (DestroyBackendRepo toy_ops ?s) of KErr e \<Rightarrow> False | _ \<Rightarrow> True)" by code_simp
  have 7: "x_objects toy_ops ''7/'' (kp_k (snd (DestroyBackendRepo toy_ops ?s))) \<noteq> []" by code_simp
  show ?thesis
    using destroy_after_reconnect_panics[OF 1 2 3 4 5] 6 7 by (auto split: kres.splits)
qed

text \<open>Closing. A provider that was never started, or was destroyed, panics when it is closed twice: the
  usage channel is closed but the provider is not marked closed. Closing a running provider twice is
  harmless; but it stays in state RUNNING with its closed handle, so \<open>lockUntil\<close> still lets every later
  job through.\<close>

theorem Close_twice:
  assumes c: "Close X s = (KOk, s1)" and o: "kp_run X s" "\<not> kp_don_closed s"
  shows "(if kp_state s = ProviderInitializing \<or> kp_state s = ProviderDestroyed
      then Close X s1 = (KPanic ''close of closed channel'', s1)
      else Close X s1 = (KOk, s1) \<and> kp_state s1 = kp_state s \<and> kp_repo s1 = kp_repo s
        \<and> (kp_state s = ProviderRunning \<longrightarrow> lockUntil X env s1 = (Some KOk, s1)))"
proof (cases "kp_state s = ProviderInitializing \<or> kp_state s = ProviderDestroyed")
  case True
  then have "s1 = s\<lparr>kp_usage_closed := True\<rparr>" using c o(2) by (auto simp: Close_def split: if_splits)
  then show ?thesis using True o(2) by (auto simp: Close_def)
next
  case False
  obtain a t where t: "shutdown X s = (a, t)" by fastforce
  have "a = KOk" using c o(2) False t by (cases a) (simp_all add: Close_def Let_def)
  then have u: "s1 = snd (ext (x_rm_cfg X) (t\<lparr>kp_usage_closed := True, kp_don_closed := True\<rparr>))"
    using c o(2) False t by (auto simp: Close_def Let_def split: if_splits)
  have "same_ctl (t\<lparr>kp_usage_closed := True, kp_don_closed := True\<rparr>) s1"
    using ext_ctl[of "x_rm_cfg X" "t\<lparr>kp_usage_closed := True, kp_don_closed := True\<rparr>"] u by (metis prod.collapse)
  then have m: "kp_don_closed s1" "kp_state s1 = kp_state s" "kp_repo s1 = kp_repo s"
    using shutdown_spec[OF t kp_run_inv[OF o(1)]] by (simp_all add: same_ctl_def)
  then have "kp_state s = ProviderRunning \<longrightarrow> lockUntil X env s1 = (Some KOk, s1)"
    by (subst lockUntil.simps) simp
  then show ?thesis using m False by (simp add: Close_def)
qed

theorem Close_twice_witness:
  "fst (Close toy_ops (snd (Close toy_ops (toy_new False)))) = KPanic ''close of closed channel''"
proof -
  have "fst (Close toy_ops (toy_new False)) = KOk" by code_simp
  then have c: "Close toy_ops (toy_new False) = (KOk, snd (Close toy_ops (toy_new False)))"
    by (simp add: prod_eq_iff)
  show ?thesis using Close_twice[OF c toy_new_run, where env = "[]"]
    by (simp add: toy_new_def NewKopia_def)
qed

section \<open>Usage\<close>

lemma unat_sum_list:
  "sum_list (map unat ws) < 2 ^ 63 \<Longrightarrow> unat (sum_list ws :: i64) = sum_list (map unat ws)"
proof (induction ws)
  case (Cons w ws)
  then have "unat (sum_list ws) = sum_list (map unat ws)" by simp
  then have "unat w + unat (sum_list ws) < 2 ^ LENGTH(64)" using Cons.prems by simp
  then show ?case using \<open>unat (sum_list ws) = _\<close> by (simp add: unat_add_lem[symmetric] unat_word_ariths)
qed simp

text \<open>The bytes of the bucket below the prefix that count as usage.\<close>

definition usage_bytes :: "'k kopia_ops \<Rightarrow> 'k kprov \<Rightarrow> nat" where
  "usage_bytes X s = (\<Sum>ob\<leftarrow>filter (\<lambda>ob. \<not> own_object (kp_prefix s) (fst ob))
     (x_objects X (kp_prefix s) (kp_k s)). unat (snd ob))"

text \<open>\<open>checkUsage\<close> reports the exact number of bytes of the objects that are not kopia's own, as long
  as they are fewer than \<open>2 ^ 63\<close>: a running tenant provider with an S3 client reports it exactly if it
  is more than 1024, and no other provider reports anything.\<close>

theorem checkUsage_exact:
  assumes "usage_bytes X s < 2 ^ 63"
  shows "(fst (checkUsage X s) = KOk \<longrightarrow>
      snd (checkUsage X s) = (if \<not> kp_full s \<and> kp_type s = LocationTypeS3Compliant
          \<and> kp_state s = ProviderRunning \<and> usage_bytes X s > 1024
        then Some (of_nat (usage_bytes X s)) else None))
    \<and> (fst (checkUsage X s) = KOk \<longleftrightarrow> kp_full s \<or> kp_type s \<noteq> LocationTypeS3Compliant \<or> kp_s3 s)"
proof -
  let ?ws = "map snd (filter (\<lambda>ob. \<not> own_object (kp_prefix s) (fst ob)) (x_objects X (kp_prefix s) (kp_k s)))"
  have n: "sum_list (map unat ?ws) = usage_bytes X s" by (simp add: usage_bytes_def comp_def)
  then have u: "unat (sum_list ?ws) = usage_bytes X s" using unat_sum_list[of ?ws] assms by simp
  then have w: "sum_list ?ws = of_nat (usage_bytes X s)" using u by (metis of_nat_unat ucast_id)
  have "sint (of_nat (usage_bytes X s) :: i64) = int (usage_bytes X s)" using u64_of_nat(2)[OF assms] .
  then have "sum_list ?ws \<le>s 1024 \<longleftrightarrow> usage_bytes X s \<le> 1024"
    by (simp add: w word_sle_eq)
  then show ?thesis by (auto simp: checkUsage_def Let_def w)
qed

theorem checkUsage_exact_witness:
  "checkUsage toy_ops (snd (Start toy_ops (toy_new False))) = (KOk, Some 1300)"
proof -
  let ?s = "snd (Start toy_ops (toy_new False))"
  have u: "usage_bytes toy_ops ?s = 1300" by code_simp
  have f: "kp_full ?s = False" "kp_type ?s = LocationTypeS3Compliant" "kp_state ?s = ProviderRunning" "kp_s3 ?s"
    by code_simp+
  have "usage_bytes toy_ops ?s < 2 ^ 63" unfolding u by simp
  from checkUsage_exact[OF this] show ?thesis by (simp add: u f prod_eq_iff)
qed

end
