(* ===== verification/KopiaJobs.thy ===== *)
theory KopiaJobs
  imports KopiaRepo
begin

text \<open>
  The jobs of \<open>KopiaProvider\<close>: \<open>BackupFile\<close>, \<open>RestoreFile\<close>, \<open>RestoreLatest\<close>, \<open>DeleteBackup\<close> and
  \<open>ListBackups\<close> of \<open>internal/backup/kopia_provider.go\<close> with \<open>snapshot.go\<close> and the restore part of
  \<open>stream.go\<close>. What kopia's snapshot, manifest and policy packages do is the record \<open>job_ops\<close>. A job
  works on the provider and on the world \<open>'w\<close> behind the lifecycle hook. The reports of the uploader's
  progress goroutine are not modelled here.
\<close>

section \<open>Snapshots\<close>

record Manifest =
  mf_ID :: string
  mf_Start :: int
  mf_Incomplete :: string
  mf_Total :: i64              \<comment> \<open>\<open>Stats.TotalFileSize\<close>\<close>
  mf_FailedEntries :: "string list"
  mf_Tags :: "(string \<times> string) list"

type_synonym tags = "(string \<times> string) list"

record 'k job_ops =
  j_abs :: "string \<Rightarrow> kerr + string"                                \<comment> \<open>\<open>filepath.Abs\<close>\<close>
  j_snapshots :: "string \<Rightarrow> 'k \<Rightarrow> kerr + Manifest list"              \<comment> \<open>\<open>snapshot.ListSnapshots\<close>\<close>
  j_entry :: "string \<Rightarrow> 'k \<Rightarrow> kerr option"                          \<comment> \<open>\<open>getLocalFSEntry\<close>\<close>
  j_policy :: "string \<Rightarrow> 'k \<Rightarrow> kerr option"                         \<comment> \<open>\<open>policy.TreeForSource\<close>\<close>
  j_upload :: "string \<Rightarrow> Manifest list \<Rightarrow> 'k \<Rightarrow> (kerr + Manifest) \<times> 'k"
  j_save :: "string \<Rightarrow> Manifest \<Rightarrow> 'k \<Rightarrow> (kerr + string) \<times> 'k"      \<comment> \<open>\<open>SaveSnapshot\<close>: the new id\<close>
  j_retention :: "string \<Rightarrow> 'k \<Rightarrow> kerr option \<times> 'k"
  j_manual :: "string \<Rightarrow> 'k \<Rightarrow> kerr option \<times> 'k"
  j_flush :: "'k \<Rightarrow> kerr option \<times> 'k"                              \<comment> \<open>end of a write session\<close>
  j_abort :: "'k \<Rightarrow> 'k \<Rightarrow> 'k"                                       \<comment> \<open>before and inside a failed session\<close>
  j_newdata :: "Manifest list \<Rightarrow> 'k \<Rightarrow> i64"                         \<comment> \<open>\<open>CalculateStorageStats\<close>\<close>
  j_load :: "string \<Rightarrow> 'k \<Rightarrow> kerr option"                           \<comment> \<open>\<open>LoadSnapshot\<close>\<close>
  j_delete :: "string \<Rightarrow> 'k \<Rightarrow> kerr option \<times> 'k"
  j_restore :: "string \<Rightarrow> string \<Rightarrow> 'k \<Rightarrow> (kerr option \<times> i64) \<times> 'k"
  j_source :: "string \<Rightarrow> kerr + string"                             \<comment> \<open>\<open>ParseSourceInfo\<close>\<close>
  j_ids :: "string option \<Rightarrow> tags \<Rightarrow> 'k \<Rightarrow> kerr + string list"        \<comment> \<open>\<open>ListSnapshotManifests\<close>\<close>
  j_loads :: "string list \<Rightarrow> 'k \<Rightarrow> kerr + Manifest list"             \<comment> \<open>\<open>LoadSnapshots\<close>\<close>
  j_find :: "tags \<Rightarrow> 'k \<Rightarrow> kerr + (string \<times> int) list"              \<comment> \<open>\<open>FindManifests\<close>\<close>
  j_latest :: "(string \<times> int) list \<Rightarrow> string"                       \<comment> \<open>\<open>PickLatestID\<close>\<close>

text \<open>The latest complete snapshot of a source; \<open>noLaterThan\<close> is nil in the code's only call.\<close>

fun latest_complete :: "Manifest option \<Rightarrow> Manifest list \<Rightarrow> Manifest option" where
  "latest_complete prev [] = prev"
| "latest_complete prev (m # ms) =
     latest_complete (if mf_Incomplete m = [] \<and> (case prev of None \<Rightarrow> True | Some q \<Rightarrow> mf_Start q < mf_Start m)
                      then Some m else prev) ms"

definition findPreviousSnapshotManifest :: "'k job_ops \<Rightarrow> string \<Rightarrow> 'k \<Rightarrow> kerr + Manifest list" where
  "findPreviousSnapshotManifest J path k = (case j_snapshots J path k of
     Inl e \<Rightarrow> Inl (EWrap ''Failed to list previous kopia snapshots'' e)
   | Inr ms \<Rightarrow> Inr (case latest_complete None ms of None \<Rightarrow> [] | Some m \<Rightarrow> [m]))"

text \<open>The body of the write session of \<open>doSnapshot\<close>: the manifest with its id.\<close>

definition snapshot_body :: "'k job_ops \<Rightarrow> string \<Rightarrow> tags \<Rightarrow> Manifest list \<Rightarrow> 'k \<Rightarrow> (kerr + Manifest) \<times> 'k" where
  "snapshot_body J path tags prev k = (case j_policy J path k of
     Some e \<Rightarrow> (Inl (EWrap ''unable to create policy getter'' e), k)
   | None \<Rightarrow> (case j_upload J path prev k of
       (Inl e, k1) \<Rightarrow> (Inl (EWrap ''upload error'' e), k1)
     | (Inr m, k1) \<Rightarrow>
         if mf_Incomplete m \<noteq> [] then (Inl (EExt (''upload error : '' @ mf_Incomplete m)), k1)
         else (case j_save J ''FA Data Backup'' (m\<lparr>mf_Tags := tags\<rparr>) k1 of
           (Inl e, k2) \<Rightarrow> (Inl (EWrap ''unable to save snapshot'' e), k2)
         | (Inr sid, k2) \<Rightarrow> (case j_retention J path k2 of
             (Some e, k3) \<Rightarrow> (Inl (EWrap ''unable to apply retention policy'' e), k3)
           | (None, k3) \<Rightarrow> (case j_manual J path k3 of
               (Some e, k4) \<Rightarrow> (Inl (EWrap ''Failed to set manual field in kopia scheduling policy for source'' e), k4)
             | (None, k4) \<Rightarrow> (Inr (m\<lparr>mf_ID := sid\<rparr>), k4))))))"

text \<open>\<open>repo.WriteSession\<close>: flushed when the body succeeds.\<close>

definition write_session :: "'k job_ops \<Rightarrow> ('k \<Rightarrow> (kerr + 'a) \<times> 'k) \<Rightarrow> 'k \<Rightarrow> (kerr + 'a) \<times> 'k" where
  "write_session J body k = (case body k of
     (Inl e, k1) \<Rightarrow> (Inl e, j_abort J k k1)
   | (Inr x, k1) \<Rightarrow> (case j_flush J k1 of (Some e, k2) \<Rightarrow> (Inl e, k2) | (None, k2) \<Rightarrow> (Inr x, k2)))"

text \<open>\<open>strings.Join(errs, "\n")\<close>.\<close>

definition newline :: string where "newline = [char_of (10 :: nat)]"

definition doSnapshot :: "'k job_ops \<Rightarrow> string \<Rightarrow> tags \<Rightarrow> 'k \<Rightarrow> (kerr + SnapshotInfo) \<times> 'k" where
  "doSnapshot J path tags k = (case findPreviousSnapshotManifest J path k of
     Inl e \<Rightarrow> (Inl (EWrap ''Failed to find previous kopia manifests'' e), k)
   | Inr prev \<Rightarrow> (case j_entry J path k of
       Some e \<Rightarrow> (Inl (EWrap ''Unable to get local filesystem entry'' e), k)
     | None \<Rightarrow> (case write_session J (snapshot_body J path tags prev) k of
         (Inl e, k1) \<Rightarrow> (Inl e, k1)
       | (Inr man, k1) \<Rightarrow>
           if mf_FailedEntries man \<noteq> [] then (Inl (EExt (join_on newline (mf_FailedEntries man))), k1)
           else (Inr \<lparr>si_ID = mf_ID man, si_SnapshotSize = mf_Total man,
                      si_ManifestSize = j_newdata J (prev @ [man]) k1\<rparr>, k1))))"

definition CreateSnapshot :: "'k kopia_ops \<Rightarrow> 'k job_ops \<Rightarrow> string \<Rightarrow> tags \<Rightarrow> 'k kprov \<Rightarrow>
    (kerr + SnapshotInfo) \<times> 'k kprov" where
  "CreateSnapshot X J path tags p = (case OpenRepository X p of
     (Some e, p1) \<Rightarrow> (Inl (EWrap ''Failed to open kopia repository'' e), p1)
   | (None, p1) \<Rightarrow> (case j_abs J path of
       Inl e \<Rightarrow> (Inl (EWrap (''Invalid source path '' @ path) e), p1)
     | Inr dir \<Rightarrow> (case doSnapshot J dir tags (kp_k p1) of
         (Inl e, k) \<Rightarrow> (Inl (EWrap ''Failed to create kopia snapshot'' e), p1\<lparr>kp_k := k\<rparr>)
       | (Inr si, k) \<Rightarrow> (Inr si, p1\<lparr>kp_k := k\<rparr>))))"

section \<open>Backup and restore\<close>

text \<open>A job may wait for ever, return, or panic.\<close>

datatype 'a jout = JBlocked | JRet 'a | JPanic string

definition noSnapshot :: SnapshotInfo where
  "noSnapshot = \<lparr>si_ID = ''-'', si_SnapshotSize = 0, si_ManifestSize = 0\<rparr>"

definition end_state :: "kerr \<Rightarrow> BackupState" where
  "end_state e = (if errIs e ECanceled then BackupCancel else BackupFailed)"

text \<open>The deferred function: report to the hook; its error replaces the job's.\<close>

definition backup_finish :: "'w hook_ops \<Rightarrow> int \<Rightarrow> Request \<Rightarrow> SnapshotInfo \<Rightarrow> BackupState \<Rightarrow> string \<Rightarrow>
    kerr option \<Rightarrow> 'w \<Rightarrow> kerr option \<times> 'w" where
  "backup_finish H now req si st extra err w =
     (case ho_backupEnd H now \<lparr>rs_ID = rq_ID req, rs_Detail = si, rs_State = st,
             rs_Extra = (if st = BackupSuccess then [] else extra)\<rparr> w of
        (Some e, w1) \<Rightarrow> (Some e, w1) | (None, w1) \<Rightarrow> (err, w1))"

definition backup_tags :: "Request \<Rightarrow> tags" where
  "backup_tags req = [(''tag:author'', rq_Username req), (''tag:path'', rq_Path req),
     (''tag:id'', show_int (rq_ID req))]"

text \<open>A panic below runs the deferred function with the state as it was initialised.\<close>

definition BackupFile :: "'k kopia_ops \<Rightarrow> 'k job_ops \<Rightarrow> 'w hook_ops \<Rightarrow> ('k kprov \<Rightarrow> 'k kprov) list \<Rightarrow>
    int \<Rightarrow> int \<Rightarrow> Request \<Rightarrow> 'k kprov \<Rightarrow> 'w \<Rightarrow>
    (SnapshotInfo option \<times> kerr option) jout \<times> 'k kprov \<times> 'w" where
  "BackupFile X J H env t0 t1 req p w = (case ho_backupStart H t0 req w of
     (Some e, w1) \<Rightarrow> (JRet (None, Some e), p, w1)
   | (None, w1) \<Rightarrow>
      (let finish = (\<lambda>si st extra err p2. case backup_finish H t1 req si st extra err w1 of
             (e, w2) \<Rightarrow> (JRet (Some si, e), p2, w2))
       in case lockUntil X env p of
            (None, p1) \<Rightarrow> (JBlocked, p1, w1)
          | (Some (KPanic m), p1) \<Rightarrow>
              (JPanic m, p1, snd (backup_finish H t1 req noSnapshot BackupSuccess [] None w1))
          | (Some (KErr e), p1) \<Rightarrow> finish noSnapshot BackupFailed (err_text e) (Some e) p1
          | (Some KOk, p1) \<Rightarrow> (case CreateSnapshot X J (rq_Path req) (backup_tags req) p1 of
              (Inl e, p2) \<Rightarrow> finish noSnapshot (end_state e) (err_text e) (Some e) p2
            | (Inr si, p2) \<Rightarrow> finish si BackupSuccess [] None p2)))"

definition restoreSnapshot :: "'k kopia_ops \<Rightarrow> 'k job_ops \<Rightarrow> string \<Rightarrow> string \<Rightarrow> 'k kprov \<Rightarrow>
    (kerr option \<times> i64) \<times> 'k kprov" where
  "restoreSnapshot X J sid target p = (case OpenRepository X p of
     (Some e, p1) \<Rightarrow> ((Some (EWrap ''Failed to open kopia repository'' e), 0), p1)
   | (None, p1) \<Rightarrow> (case j_restore J sid target (kp_k p1) of
       ((e, n), k) \<Rightarrow> ((e, n), p1\<lparr>kp_k := k, kp_stat := IncRestoreBytes n (kp_stat p1)\<rparr>)))"

definition restore_finish :: "'w hook_ops \<Rightarrow> int \<Rightarrow> Entry \<Rightarrow> RestoreState \<Rightarrow> i64 \<Rightarrow> string \<Rightarrow> kerr option \<Rightarrow>
    'w \<Rightarrow> kerr option \<times> 'w" where
  "restore_finish H now entry st sz extra err w =
     (case ho_restoreEnd H now \<lparr>rp_RestoreID = en_RestoreID entry,
             rp_RestoreSize = (if st = RestoreSuccess then en_SnapshotSize entry else sz),
             rp_State = st, rp_Extra = (if st = RestoreSuccess then [] else extra)\<rparr> w of
        (Some e, w1) \<Rightarrow> (Some e, w1) | (None, w1) \<Rightarrow> (err, w1))"

definition restore_end_state :: "kerr \<Rightarrow> RestoreState" where
  "restore_end_state e = (if errIs e ECanceled then RestoreCancel else RestoreFailed)"

definition RestoreFile :: "'k kopia_ops \<Rightarrow> 'k job_ops \<Rightarrow> 'w hook_ops \<Rightarrow> ('k kprov \<Rightarrow> 'k kprov) list \<Rightarrow>
    int \<Rightarrow> int \<Rightarrow> RestoreRequest \<Rightarrow> 'k kprov \<Rightarrow> 'w \<Rightarrow> kerr option jout \<times> 'k kprov \<times> 'w" where
  "RestoreFile X J H env t0 t1 q p w = (case ho_restoreStart H t0 q w of
     (Inl e, w1) \<Rightarrow> (JRet (Some (EWrap (''err when restore file [ '' @ show_int (rr_BackupID q)
                        @ '' ] to dst [ '' @ rr_Dst q @ '' ]'') e)), p, w1)
   | (Inr entry, w1) \<Rightarrow>
      (let finish = (\<lambda>st sz extra err p2. case restore_finish H t1 entry st sz extra err w1 of
             (e, w2) \<Rightarrow> (JRet e, p2, w2))
       in case lockUntil X env p of
            (None, p1) \<Rightarrow> (JBlocked, p1, w1)
          | (Some (KPanic m), p1) \<Rightarrow>
              (JPanic m, p1, snd (restore_finish H t1 entry RestoreSuccess 0 [] None w1))
          | (Some (KErr e), p1) \<Rightarrow> finish RestoreFailed 0 (err_text e) (Some e) p1
          | (Some KOk, p1) \<Rightarrow> (case restoreSnapshot X J (en_SnapshotID entry) (rr_Dst q) p1 of
              ((Some e, n), p2) \<Rightarrow> finish (restore_end_state e) n (err_text e) (Some e) p2
            | ((None, n), p2) \<Rightarrow> finish RestoreSuccess n [] None p2)))"

text \<open>\<open>errors.Wrap\<close> of a nil error is nil.\<close>

definition restoreLatestSnapshot :: "'k kopia_ops \<Rightarrow> 'k job_ops \<Rightarrow> tags \<Rightarrow> string \<Rightarrow> 'k kprov \<Rightarrow>
    (kerr option \<times> i64) \<times> 'k kprov" where
  "restoreLatestSnapshot X J tags target p = (case OpenRepository X p of
     (Some e, p1) \<Rightarrow> ((Some (EWrap ''Failed to open kopia repository'' e), 0), p1)
   | (None, p1) \<Rightarrow>
       (let labels = (if map_of tags ''type'' = None then (''type'', ''snapshot'') # tags else tags)
        in case j_find J labels (kp_k p1) of
             Inl e \<Rightarrow> ((wrapErr ''unable to find snapshot manifests'' (Some e), 0), p1)
           | Inr [] \<Rightarrow> ((wrapErr ''unable to find snapshot manifests'' None, 0), p1)
           | Inr entries \<Rightarrow> (case j_restore J (j_latest J entries) target (kp_k p1) of
               ((e, n), k) \<Rightarrow> ((e, n), p1\<lparr>kp_k := k, kp_stat := IncRestoreBytes n (kp_stat p1)\<rparr>))))"

definition RestoreLatest :: "'k kopia_ops \<Rightarrow> 'k job_ops \<Rightarrow> ('k kprov \<Rightarrow> 'k kprov) list \<Rightarrow> tags \<Rightarrow> string \<Rightarrow>
    'k kprov \<Rightarrow> kerr option jout \<times> 'k kprov" where
  "RestoreLatest X J env tags dst p = (case lockUntil X env p of
     (None, p1) \<Rightarrow> (JBlocked, p1)
   | (Some (KPanic m), p1) \<Rightarrow> (JPanic m, p1)
   | (Some (KErr e), p1) \<Rightarrow> (JRet (Some e), p1)
   | (Some KOk, p1) \<Rightarrow> (case restoreLatestSnapshot X J tags dst p1 of ((e, _), p2) \<Rightarrow> (JRet e, p2)))"

section \<open>Deleting and listing\<close>

definition DeleteSnapshot :: "'k kopia_ops \<Rightarrow> 'k job_ops \<Rightarrow> string \<Rightarrow> 'k kprov \<Rightarrow> kerr option \<times> 'k kprov" where
  "DeleteSnapshot X J sid p = (case OpenRepository X p of
     (Some e, p1) \<Rightarrow> (Some (EWrap ''Failed to open kopia repository'' e), p1)
   | (None, p1) \<Rightarrow>
       (case write_session J (\<lambda>k. case j_load J sid k of
              Some e \<Rightarrow> (Inl (EWrap (''Failed to load kopia snapshot with ID: '' @ sid) e), k)
            | None \<Rightarrow> (case j_delete J sid k of
                 (Some e, k1) \<Rightarrow> (Inl (EWrap ''uanble to delete snapshot'' e), k1)
               | (None, k1) \<Rightarrow> (Inr (), k1))) (kp_k p1) of
          (Inl e, k) \<Rightarrow> (Some e, p1\<lparr>kp_k := k\<rparr>) | (Inr _, k) \<Rightarrow> (None, p1\<lparr>kp_k := k\<rparr>)))"

definition DeleteBackup :: "'k kopia_ops \<Rightarrow> 'k job_ops \<Rightarrow> 'w hook_ops \<Rightarrow> ('k kprov \<Rightarrow> 'k kprov) list \<Rightarrow> int \<Rightarrow>
    'k kprov \<Rightarrow> 'w \<Rightarrow> kerr option jout \<times> 'k kprov \<times> 'w" where
  "DeleteBackup X J H env bid p w = (case lockUntil X env p of
     (None, p1) \<Rightarrow> (JBlocked, p1, w)
   | (Some (KPanic m), p1) \<Rightarrow> (JPanic m, p1, w)
   | (Some (KErr e), p1) \<Rightarrow> (JRet (Some e), p1, w)
   | (Some KOk, p1) \<Rightarrow> (case ho_delStart H bid w of
       Inl e \<Rightarrow> (JRet (Some (EWrap (''err delete backup [ '' @ show_int bid @ '' ]'') e)), p1, w)
     | Inr item \<Rightarrow> (case DeleteSnapshot X J (en_SnapshotID item) p1 of
         (e, p2) \<Rightarrow>
           if e = None \<or> (\<exists>e'\<in>set_option e. errIs e' ESnapshotNotFound)
           then (case ho_delEnd H bid w of (e', w1) \<Rightarrow> (JRet e', p2, w1))
           else (JRet e, p2, w))))"

text \<open>\<open>filepath.Base\<close> and \<open>filepath.Dir\<close>.\<close>

definition basename :: "string \<Rightarrow> string" where
  "basename p =
     (if p = [] then ''.''
      else let q = trimRightP (\<lambda>c. c = CHR ''/'') p in if q = [] then ''/'' else split_file q)"

definition dirname :: "string \<Rightarrow> string" where
  "dirname p = clean (rev (dropWhile (\<lambda>c. c \<noteq> CHR ''/'') (rev p)))"

text \<open>\<open>findSnapshotsForSource\<close>: the loop over the parents. \<open>None\<close>: out of fuel; every path has at most
  as many parents as bytes.\<close>

fun findSnapshotsForSource :: "nat \<Rightarrow> (string \<Rightarrow> kerr + string list) \<Rightarrow> string \<Rightarrow> string \<Rightarrow>
    (kerr + string list \<times> string) option" where
  "findSnapshotsForSource 0 ids path relp = None"
| "findSnapshotsForSource (Suc n) ids path relp =
     (if path = [] then Some (Inr ([], []))
      else (case ids path of
              Inl e \<Rightarrow> Some (Inl (EWrap (''error listing manifests for '' @ path) e))
            | Inr (m # ms) \<Rightarrow> Some (Inr (m # ms, relp))
            | Inr [] \<Rightarrow>
                (let relp' = (if relp \<noteq> [] then basename path @ ''/'' @ relp else basename path);
                     parent = dirname path
                 in if parent = path then Some (Inr ([], []))
                    else findSnapshotsForSource n ids parent relp')))"

definition findManifestIDs :: "'k job_ops \<Rightarrow> string \<Rightarrow> tags \<Rightarrow> 'k \<Rightarrow> (kerr + string list \<times> string) option" where
  "findManifestIDs J source tags k =
     (if source = [] then (case j_ids J None tags k of
          Inl e \<Rightarrow> Some (Inl (EWrap ''error listing all snapshot manifests'' e))
        | Inr ms \<Rightarrow> Some (Inr (ms, [])))
      else (case j_source J source of
          Inl e \<Rightarrow> Some (Inl (EExt (''invalid directory: '' @ source @ '': '' @ err_text e)))
        | Inr path \<Rightarrow> (case findSnapshotsForSource (Suc (length path)) (\<lambda>q. j_ids J (Some q) tags k) path [] of
             None \<Rightarrow> None
           | Some (Inl e) \<Rightarrow> Some (Inl e)
           | Some (Inr (ms, relp)) \<Rightarrow> Some (Inr (ms, if relp \<noteq> [] then ''/'' @ relp else [])))))"

definition ListSnapshots0 :: "'k job_ops \<Rightarrow> string \<Rightarrow> tags \<Rightarrow> 'k \<Rightarrow> (kerr + Manifest list) option" where
  "ListSnapshots0 J source tags k = (case findManifestIDs J source tags k of
     None \<Rightarrow> None
   | Some (Inl e) \<Rightarrow> Some (Inl e)
   | Some (Inr (ids, _)) \<Rightarrow> (case j_loads J ids k of
        Inl e \<Rightarrow> Some (Inl (EWrap ''unable to load snapshots'' e)) | Inr ms \<Rightarrow> Some (Inr ms)))"

definition ListSnapshots :: "'k kopia_ops \<Rightarrow> 'k job_ops \<Rightarrow> string \<Rightarrow> tags \<Rightarrow> 'k kprov \<Rightarrow>
    (kerr + Manifest list) option \<times> 'k kprov" where
  "ListSnapshots X J source tags p = (case OpenRepository X p of
     (Some e, p1) \<Rightarrow> (Some (Inl (EWrap ''Failed to open kopia repository'' e)), p1)
   | (None, p1) \<Rightarrow> (ListSnapshots0 J source tags (kp_k p1), p1))"

text \<open>The manifest size of an entry is the growth against the entry before it.\<close>

fun snapInfos :: "i64 option \<Rightarrow> Manifest list \<Rightarrow> SnapshotInfo list" where
  "snapInfos prev [] = []"
| "snapInfos prev (m # ms) =
     \<lparr>si_ID = mf_ID m, si_SnapshotSize = mf_Total m,
      si_ManifestSize = (case prev of None \<Rightarrow> mf_Total m | Some q \<Rightarrow> mf_Total m - q)\<rparr>
     # snapInfos (Some (mf_Total m)) ms"

definition ListBackups :: "'k kopia_ops \<Rightarrow> 'k job_ops \<Rightarrow> ('k kprov \<Rightarrow> 'k kprov) list \<Rightarrow> string \<Rightarrow> tags \<Rightarrow>
    'k kprov \<Rightarrow> (kerr + SnapshotInfo list) jout \<times> 'k kprov" where
  "ListBackups X J env path tags p = (case lockUntil X env p of
     (None, p1) \<Rightarrow> (JBlocked, p1)
   | (Some (KPanic m), p1) \<Rightarrow> (JPanic m, p1)
   | (Some (KErr e), p1) \<Rightarrow> (JRet (Inl e), p1)
   | (Some KOk, p1) \<Rightarrow> (case ListSnapshots X J path tags p1 of
        (None, p2) \<Rightarrow> (JBlocked, p2)
      | (Some (Inl e), p2) \<Rightarrow> (JRet (Inl e), p2)
      | (Some (Inr ms), p2) \<Rightarrow> (JRet (Inr (snapInfos None ms)), p2)))"

section \<open>What every hook gives the jobs\<close>

context lifecycle_hook
begin

lemma backup_finish_spec:
  assumes "inv w" "rq_ID req \<noteq> 0" "bv w (rq_ID req) = Some x"
  shows "\<exists>w' y. backup_finish H now req si st extra err w = (err, w') \<and> inv w' \<and> rv w' = rv w
    \<and> bv w' (rq_ID req) = Some y \<and> bi_state y = st \<and> bi_path y = bi_path x
    \<and> (si_ID si \<noteq> [] \<longrightarrow> bi_manifest y = si_ID si)
    \<and> (\<forall>j. j \<noteq> rq_ID req \<longrightarrow> bv w' j = bv w j)"
proof -
  let ?res = "\<lparr>rs_ID = rq_ID req, rs_Detail = si, rs_State = st,
             rs_Extra = (if st = BackupSuccess then [] else extra)\<rparr>"
  have r: "rs_ID ?res \<noteq> 0" using assms(2) by simp
  obtain w' where w: "ho_backupEnd H now ?res w = (None, w')" "inv w'" "rv w' = rv w"
    and b: "\<forall>j. bv w' j = (if j = rs_ID ?res then map_option (done_update now
             \<lparr>bd_ID = si_ID (rs_Detail ?res), bd_SnapshotSize = si_SnapshotSize (rs_Detail ?res),
              bd_ManifestSize = si_ManifestSize (rs_Detail ?res)\<rparr> (rs_State ?res) (rs_Extra ?res)) (bv w j)
             else bv w j)"
    using backup_end[OF assms(1) r, of now] by blast
  have f: "backup_finish H now req si st extra err w = (err, w')"
    using w(1) by (simp add: backup_finish_def)
  show ?thesis
    by (rule exI[of _ w'], rule exI[of _ "the (bv w' (rq_ID req))"])
      (use f w(2,3) b assms(3) in \<open>simp add: done_update_def sets_def\<close>)
qed

text \<open>A backup that gets past the hook settles its record; nothing else changes.\<close>

lemma BackupFile_record:
  assumes i: "inv w" and n: "rq_ID req \<noteq> 0"
    and nr: "\<not> (\<exists>x. bv w (rq_ID req) = Some x \<and> bi_state x = BackupRunning)"
    and b: "BackupFile X J H env t0 t1 req p w = (out, p', w')"
  shows "inv w' \<and> rv w' = rv w \<and> (\<forall>j. j \<noteq> rq_ID req \<longrightarrow> bv w' j = bv w j)
    \<and> (\<exists>x. bv w' (rq_ID req) = Some x \<and> bi_path x = rq_Path req
        \<and> (case out of
             JRet (si, None) \<Rightarrow> bi_state x = BackupSuccess \<and> (\<exists>s. si = Some s \<and> (si_ID s \<noteq> [] \<longrightarrow> bi_manifest x = si_ID s))
           | JRet (si, Some e) \<Rightarrow> bi_state x = BackupFailed \<or> bi_state x = BackupCancel
           | JPanic _ \<Rightarrow> bi_state x = BackupSuccess \<and> bi_manifest x = ''-''
           | JBlocked \<Rightarrow> bi_state x = BackupRunning))"
proof -
  obtain w1 x where w1: "ho_backupStart H t0 req w = (None, w1)" "inv w1" "bv w1 (rq_ID req) = Some x"
    "bi_state x = BackupRunning" "bi_path x = rq_Path req"
    "\<forall>j. j \<noteq> rq_ID req \<longrightarrow> bv w1 j = bv w j" "rv w1 = rv w"
    using backup_start[OF i n nr, of t0] by blast
  have fin: "\<exists>w2 y. backup_finish H t1 req si st extra err w1 = (err, w2) \<and> inv w2 \<and> rv w2 = rv w
      \<and> bv w2 (rq_ID req) = Some y \<and> bi_state y = st \<and> bi_path y = rq_Path req
      \<and> (si_ID si \<noteq> [] \<longrightarrow> bi_manifest y = si_ID si) \<and> (\<forall>j. j \<noteq> rq_ID req \<longrightarrow> bv w2 j = bv w j)"
    for si st extra err
    using backup_finish_spec[OF w1(2) n w1(3), of t1 si st extra err] w1(5-7) by metis
  obtain l p1 where l: "lockUntil X env p = (l, p1)" by fastforce
  obtain c p2 where c: "CreateSnapshot X J (rq_Path req) (backup_tags req) p1 = (c, p2)" by fastforce
  consider (blocked) "l = None" | (panic) m where "l = Some (KPanic m)"
    | (refused) e where "l = Some (KErr e)" | (failed) e where "l = Some KOk" "c = Inl e"
    | (good) si where "l = Some KOk" "c = Inr si"
    by (metis kres.exhaust option.exhaust sum.exhaust)
  then show ?thesis
  proof cases
    case blocked
    then have "(out, w') = (JBlocked, w1)" using b w1(1) l by (simp add: BackupFile_def)
    then show ?thesis using w1 by auto
  next
    case panic
    then have "(out, w') = (JPanic m, snd (backup_finish H t1 req noSnapshot BackupSuccess [] None w1))"
      using b w1(1) l by (simp add: BackupFile_def)
    then show ?thesis using fin[of noSnapshot BackupSuccess "[]" None] by (auto simp: noSnapshot_def)
  next
    case refused
    obtain w2 where w2: "backup_finish H t1 req noSnapshot BackupFailed (err_text e) (Some e) w1 = (Some e, w2)"
      using fin[of noSnapshot BackupFailed "err_text e" "Some e"] by blast
    then have "(out, w') = (JRet (Some noSnapshot, Some e), w2)"
      using b w1(1) l refused by (simp add: BackupFile_def)
    then show ?thesis using fin[of noSnapshot BackupFailed "err_text e" "Some e"] w2 by auto
  next
    case failed
    obtain w2 where w2: "backup_finish H t1 req noSnapshot (end_state e) (err_text e) (Some e) w1 = (Some e, w2)"
      using fin[of noSnapshot "end_state e" "err_text e" "Some e"] by blast
    then have "(out, w') = (JRet (Some noSnapshot, Some e), w2)"
      using b w1(1) l c failed by (simp add: BackupFile_def)
    then show ?thesis using fin[of noSnapshot "end_state e" "err_text e" "Some e"] w2
      by (auto simp: end_state_def split: if_splits)
  next
    case good
    obtain w2 where w2: "backup_finish H t1 req si BackupSuccess [] None w1 = (None, w2)"
      using fin[of si BackupSuccess "[]" None] by blast
    then have "(out, w') = (JRet (Some si, None), w2)"
      using b w1(1) l c good by (simp add: BackupFile_def)
    then show ?thesis using fin[of si BackupSuccess "[]" None] w2 by auto
  qed
qed

end

context lifecycle_hook
begin

lemma restore_finish_spec:
  assumes "inv w" "en_RestoreID entry \<noteq> 0" "rv w (en_RestoreID entry) = Some x"
  shows "\<exists>w' y. restore_finish H now entry st sz extra err w = (err, w') \<and> inv w' \<and> bv w' = bv w
    \<and> rv w' (en_RestoreID entry) = Some y \<and> ri_state y = st
    \<and> (\<forall>j. j \<noteq> en_RestoreID entry \<longrightarrow> rv w' j = rv w j)"
proof -
  let ?res = "\<lparr>rp_RestoreID = en_RestoreID entry,
             rp_RestoreSize = (if st = RestoreSuccess then en_SnapshotSize entry else sz),
             rp_State = st, rp_Extra = (if st = RestoreSuccess then [] else extra)\<rparr>"
  have r: "rp_RestoreID ?res \<noteq> 0" using assms(2) by simp
  obtain w' where w: "ho_restoreEnd H now ?res w = (None, w')" "inv w'" "bv w' = bv w"
    and b: "\<forall>j. rv w' j = (if j = rp_RestoreID ?res then map_option (rdone now (rp_RestoreSize ?res)
             (rp_State ?res) (rp_Extra ?res)) (rv w j) else rv w j)"
    using restore_end[OF assms(1) r, of now] by blast
  have f: "restore_finish H now entry st sz extra err w = (err, w')"
    using w(1) by (simp add: restore_finish_def)
  show ?thesis
    by (rule exI[of _ w'], rule exI[of _ "the (rv w' (en_RestoreID entry))"])
      (use f w(2,3) b assms(3) in \<open>simp add: rdone_def\<close>)
qed

text \<open>A restore that the hook knows as queued or running is refused before kopia is asked; it is
  recorded as running.\<close>

lemma RestoreFile_known:
  assumes i: "inv w" and n: "rr_RestoreID q \<noteq> 0" "rr_BackupID q \<noteq> 0" and k: "bv w (rr_BackupID q) = Some b"
    and y: "rv w (rr_RestoreID q) = Some y" "ri_state y = RestorePending \<or> ri_state y = RestoreRunning"
    and r: "RestoreFile X J H env t0 t1 q p w = (out, p', w')"
  shows "p' = p \<and> (\<exists>m. out = JRet (Some (EWrap m ERestoreRunning)))
    \<and> (\<exists>x. rv w' (rr_RestoreID q) = Some x \<and> ri_state x = RestoreRunning)"
proof -
  obtain w1 x where w1: "ho_restoreStart H t0 q w = (Inl ERestoreRunning, w1)"
    "rv w1 (rr_RestoreID q) = Some x" "ri_state x = RestoreRunning"
    using restore_start[OF i n, of t0] k y by auto
  then show ?thesis using r by (auto simp: RestoreFile_def)
qed

text \<open>Any other restore settles its record; nothing else changes.\<close>

lemma RestoreFile_record:
  assumes i: "inv w" and n: "rr_RestoreID q \<noteq> 0" "rr_BackupID q \<noteq> 0"
    and nk: "\<not> (\<exists>y. rv w (rr_RestoreID q) = Some y \<and> (ri_state y = RestorePending \<or> ri_state y = RestoreRunning))"
    and r: "RestoreFile X J H env t0 t1 q p w = (out, p', w')"
  shows "inv w' \<and> bv w' = bv w \<and> (\<forall>j. j \<noteq> rr_RestoreID q \<longrightarrow> rv w' j = rv w j)
    \<and> (\<exists>x. rv w' (rr_RestoreID q) = Some x
        \<and> (case out of
             JRet None \<Rightarrow> ri_state x = RestoreSuccess \<and> bv w (rr_BackupID q) \<noteq> None
           | JRet (Some e) \<Rightarrow> ri_state x = RestoreFailed \<or> ri_state x = RestoreCancel
           | JPanic _ \<Rightarrow> ri_state x = RestoreSuccess
           | JBlocked \<Rightarrow> ri_state x = RestoreRunning))"
proof -
  obtain w1 x s where s: "ho_restoreStart H t0 q w = (s, w1)" "inv w1" "bv w1 = bv w"
    "\<forall>j. j \<noteq> rr_RestoreID q \<longrightarrow> rv w1 j = rv w j" "rv w1 (rr_RestoreID q) = Some x"
    and c: "case bv w (rr_BackupID q) of
             None \<Rightarrow> ri_state x = RestoreFailed \<and> (\<exists>e. s = Inl e)
           | Some b \<Rightarrow> ri_state x = RestoreRunning
               \<and> (if \<exists>y. rv w (rr_RestoreID q) = Some y \<and> (ri_state y = RestorePending \<or> ri_state y = RestoreRunning)
                  then s = Inl ERestoreRunning
                  else s = Inr \<lparr>en_Path = bi_path b, en_BackupID = rr_BackupID q, en_RestoreID = rr_RestoreID q,
                         en_SnapshotID = bi_manifest b, en_SnapshotSize = bi_ssize b\<rparr>)"
    using restore_start[OF i n, of t0] by blast
  show ?thesis
  proof (cases "bv w (rr_BackupID q)")
    case None
    then obtain e where e: "s = Inl e" "ri_state x = RestoreFailed" using c by auto
    then have "w' = w1" "\<exists>m. out = JRet (Some (EWrap m e))" using r s(1) by (auto simp: RestoreFile_def)
    then show ?thesis using s e(2) by auto
  next
    case (Some b)
    let ?en = "\<lparr>en_Path = bi_path b, en_BackupID = rr_BackupID q, en_RestoreID = rr_RestoreID q,
                         en_SnapshotID = bi_manifest b, en_SnapshotSize = bi_ssize b\<rparr>"
    have se: "s = Inr ?en" "ri_state x = RestoreRunning" using c Some nk by simp_all
    have fin: "\<exists>w2 y. restore_finish H t1 ?en st sz extra err w1 = (err, w2) \<and> inv w2 \<and> bv w2 = bv w
        \<and> rv w2 (rr_RestoreID q) = Some y \<and> ri_state y = st
        \<and> (\<forall>j. j \<noteq> rr_RestoreID q \<longrightarrow> rv w2 j = rv w j)" for st sz extra err
      using restore_finish_spec[of w1 ?en x t1 st sz extra err] s n(1) by auto
    obtain l p1 where l: "lockUntil X env p = (l, p1)" by fastforce
    obtain e z p2 where z: "restoreSnapshot X J (bi_manifest b) (rr_Dst q) p1 = ((e, z), p2)"
      by (metis surj_pair)
    consider (blocked) "l = None" | (panic) m where "l = Some (KPanic m)"
      | (refused) e' where "l = Some (KErr e')" | (failed) e' where "l = Some KOk" "e = Some e'"
      | (good) "l = Some KOk" "e = None"
      by (metis kres.exhaust option.exhaust)
    then show ?thesis
    proof cases
      case blocked
      then have "(out, w') = (JBlocked, w1)" using r s(1) se l by (simp add: RestoreFile_def)
      then show ?thesis using s se by auto
    next
      case panic
      then have "(out, w') = (JPanic m, snd (restore_finish H t1 ?en RestoreSuccess 0 [] None w1))"
        using r s(1) se l by (simp add: RestoreFile_def)
      then show ?thesis using fin[of RestoreSuccess 0 "[]" None] by auto
    next
      case refused
      obtain w2 where w2: "restore_finish H t1 ?en RestoreFailed 0 (err_text e') (Some e') w1 = (Some e', w2)"
        using fin[of RestoreFailed 0 "err_text e'" "Some e'"] by blast
      then have "(out, w') = (JRet (Some e'), w2)" using r s(1) se l refused by (simp add: RestoreFile_def)
      then show ?thesis using fin[of RestoreFailed 0 "err_text e'" "Some e'"] w2 by auto
    next
      case failed
      obtain w2 where w2: "restore_finish H t1 ?en (restore_end_state e') z (err_text e') (Some e') w1 = (Some e', w2)"
        using fin[of "restore_end_state e'" z "err_text e'" "Some e'"] by blast
      then have "(out, w') = (JRet (Some e'), w2)" using r s(1) se l z failed by (simp add: RestoreFile_def)
      then show ?thesis using fin[of "restore_end_state e'" z "err_text e'" "Some e'"] w2
        by (auto simp: restore_end_state_def split: if_splits)
    next
      case good
      obtain w2 where w2: "restore_finish H t1 ?en RestoreSuccess z [] None w1 = (None, w2)"
        using fin[of RestoreSuccess z "[]" None] by blast
      then have "(out, w') = (JRet None, w2)" using r s(1) se l z good by (simp add: RestoreFile_def)
      then show ?thesis using fin[of RestoreSuccess z "[]" None] w2 Some by auto
    qed
  qed
qed

text \<open>A backup record is dropped only when its snapshot is gone.\<close>

lemma DeleteBackup_record:
  assumes i: "inv w" and n: "bid \<noteq> 0" and d: "DeleteBackup X J H env bid p w = (out, p', w')"
  shows "inv w' \<and> rv w' = rv w \<and> (\<forall>j. j \<noteq> bid \<longrightarrow> bv w' j = bv w j)
    \<and> (out = JRet None \<longrightarrow> bv w' bid = None \<and> (\<exists>x p1. bv w bid = Some x \<and> lockUntil X env p = (Some KOk, p1)
         \<and> (case fst (DeleteSnapshot X J (bi_manifest x) p1) of None \<Rightarrow> True | Some e \<Rightarrow> errIs e ESnapshotNotFound)))
    \<and> (out \<noteq> JRet None \<longrightarrow> w' = w)"
proof -
  obtain w2 where w2: "ho_delEnd H bid w = (None, w2)" "inv w2" "rv w2 = rv w"
    "\<forall>j. bv w2 j = (if j = bid then None else bv w j)"
    using del_end[OF i n] by blast
  obtain l p1 where l: "lockUntil X env p = (l, p1)" by fastforce
  show ?thesis
  proof (cases "l = Some KOk")
    case False
    then have "w' = w" "out \<noteq> JRet None" using d l by (auto simp: DeleteBackup_def split: option.splits kres.splits)
    then show ?thesis using i by simp
  next
    case True
    show ?thesis
    proof (cases "bv w bid")
      case None
      then have "w' = w" "out \<noteq> JRet None" using d l True del_start[OF n, of w] by (auto simp: DeleteBackup_def)
      then show ?thesis using i by simp
    next
      case (Some x)
      then obtain en where en: "ho_delStart H bid w = Inr en" "en_SnapshotID en = bi_manifest x"
        using del_start[OF n, of w] by auto
      obtain e p2 where e: "DeleteSnapshot X J (bi_manifest x) p1 = (e, p2)" by fastforce
      show ?thesis
      proof (cases "e = None \<or> (\<exists>e'\<in>set_option e. errIs e' ESnapshotNotFound)")
        case gone: True
        then have "out = JRet None" "w' = w2" using d l True en e w2(1) by (auto simp: DeleteBackup_def)
        then show ?thesis using w2 Some l True e gone by (auto split: option.split)
      next
        case False
        then have "out = JRet e" "w' = w" using d l True en e by (auto simp: DeleteBackup_def split: if_splits)
        then show ?thesis using i False by auto
      qed
    qed
  qed
qed

end

section \<open>Properties\<close>

text \<open>C12: a backup settles its record. When the record is not running and the hook is the default one,
  \<open>BackupFile\<close> leaves the record of its id with the requested path and: \<open>success\<close> and the snapshot's
  id if it returns without error, \<open>failed\<close> or \<open>cancel\<close> if it returns an error, \<open>running\<close> only while it
  waits. A panic below (of \<open>Start\<close>, when the S3 client cannot be made) is recorded as a success. No
  other record changes.\<close>

theorem BackupFile_settles:
  assumes TB: "table_ok TB backup_schema" and TR: "table_ok TR restore_schema" and i: "bw_inv TB TR w"
    and n: "rq_ID req \<noteq> 0"
    and nr: "\<not> (\<exists>x. bview TB w (rq_ID req) = Some x \<and> bi_state x = BackupRunning)"
    and b: "BackupFile X J (DefaultBackupHook TB TR) env t0 t1 req p w = (out, p', w')"
  shows "bw_inv TB TR w' \<and> rview TR w' = rview TR w \<and> (\<forall>j. j \<noteq> rq_ID req \<longrightarrow> bview TB w' j = bview TB w j)
    \<and> (\<exists>x. bview TB w' (rq_ID req) = Some x \<and> bi_path x = rq_Path req
        \<and> (case out of
             JRet (si, None) \<Rightarrow> bi_state x = BackupSuccess \<and> (\<exists>s. si = Some s \<and> (si_ID s \<noteq> [] \<longrightarrow> bi_manifest x = si_ID s))
           | JRet (si, Some e) \<Rightarrow> bi_state x = BackupFailed \<or> bi_state x = BackupCancel
           | JPanic _ \<Rightarrow> bi_state x = BackupSuccess \<and> bi_manifest x = ''-''
           | JBlocked \<Rightarrow> bi_state x = BackupRunning))"
  by (rule lifecycle_hook.BackupFile_record[OF default_hook[OF TB TR] i n nr b])

text \<open>A repository for the examples: the snapshots and the tags they carry; a path that ends in \<open>!\<close> has
  an entry that cannot be read.\<close>

type_synonym toyw = "(BackupItem list, RestoreItem list) bworld"

definition toy_jobs :: "toy job_ops" where
  "toy_jobs = \<lparr> j_abs = Inr, j_snapshots = (\<lambda>_ _. Inr []), j_entry = (\<lambda>_ _. None), j_policy = (\<lambda>_ _. None),
     j_upload = (\<lambda>p _ k. (Inr \<lparr>mf_ID = [], mf_Start = 0, mf_Incomplete = [], mf_Total = 10,
        mf_FailedEntries = (if hasSuffix p ''!'' then [''unreadable''] else []), mf_Tags = []\<rparr>, k)),
     j_save = (\<lambda>_ m (obs, c, ls). (Inr ''m1'', ((''m1'', mf_Total m) # obs, c, ls))),
     j_retention = (\<lambda>_. Pair None), j_manual = (\<lambda>_. Pair None), j_flush = Pair None,
     j_abort = (\<lambda>k _. k), j_newdata = (\<lambda>_ _. 7),
     j_load = (\<lambda>i (obs, _). if i \<in> fst ` set obs then None else Some ESnapshotNotFound),
     j_delete = (\<lambda>i (obs, c, ls). (None, (filter (\<lambda>ob. fst ob \<noteq> i) obs, c, ls))),
     j_restore = (\<lambda>_ _ k. ((None, 10), k)), j_source = Inr, j_ids = (\<lambda>_ _ (obs, _). Inr (map fst obs)),
     j_loads = (\<lambda>_ _. Inr []), j_find = (\<lambda>_ _. Inr []), j_latest = (\<lambda>es. fst (hd es)) \<rparr>"

definition toy_world :: toyw where "toy_world = \<lparr>bw_b = [], bw_r = []\<rparr>"

definition toy_req :: "string \<Rightarrow> Request" where
  "toy_req path = \<lparr>rq_ID = 1, rq_Path = path, rq_Username = ''al''\<rparr>"

definition toy_running :: "toy kprov" where "toy_running = snd (Start toy_ops (toy_new False))"

lemma toy_world_inv: "bw_inv LB LR toy_world"
  by (simp add: bw_inv_def toy_world_def unique_rows_def)

theorem BackupFile_settles_witness:
  "(case bview LB (snd (snd (BackupFile toy_ops toy_jobs (DefaultBackupHook LB LR) [] 5 6 (toy_req ''/d'')
      toy_running toy_world))) 1 of Some x \<Rightarrow> bi_state x = BackupSuccess \<and> bi_manifest x = ''m1'' | None \<Rightarrow> False)"
proof -
  let ?r = "BackupFile toy_ops toy_jobs (DefaultBackupHook LB LR) [] 5 6 (toy_req ''/d'') toy_running toy_world"
  have o: "(case fst ?r of JRet (Some si, None) \<Rightarrow> si_ID si = ''m1'' | _ \<Rightarrow> False)" by code_simp
  have n: "rq_ID (toy_req ''/d'') \<noteq> 0" and
    nr: "\<not> (\<exists>x. bview LB toy_world (rq_ID (toy_req ''/d'')) = Some x \<and> bi_state x = BackupRunning)"
    by (simp_all add: toy_req_def toy_world_def bview_def)
  have r: "?r = (fst ?r, fst (snd ?r), snd (snd ?r))" by simp
  have i: "rq_ID (toy_req ''/d'') = 1" by (simp add: toy_req_def)
  show ?thesis
    using BackupFile_settles[OF list_table_ok list_table_ok toy_world_inv n nr r] o unfolding i
    by (auto split: jout.splits option.splits prod.splits)
qed


definition toy_rreq :: "int \<Rightarrow> RestoreRequest" where
  "toy_rreq b = \<lparr>rr_BackupID = b, rr_RestoreID = 3, rr_Dst = ''/x''\<rparr>"


lemma restore_enqueue:
  assumes TR: "table_ok TR restore_schema" and i: "bw_inv TB TR (th_w th)"
    and t: "tryLock_enter (restore_ops TB TR t0 ctxErr) over q th = (MustWait, th1)"
  shows "\<exists>y. rview TR (th_w th1) (rr_RestoreID q) = Some y \<and> ri_state y = RestorePending"
proof -
  obtain u where u: "NewRestore TB TR t0 (rr_RestoreID q) (rr_BackupID q) (rr_Dst q) (Some RestorePending) (th_w th)
      = (None, (th_w th)\<lparr>bw_r := u\<rparr>)"
    "\<exists>x. rview TR ((th_w th)\<lparr>bw_r := u\<rparr>) (rr_RestoreID q) = Some x \<and> ri_backup x = rr_BackupID q
       \<and> ri_state x = RestorePending"
    using NewRestore_view[OF TR i, where now = t0 and rid = "rr_RestoreID q" and bid = "rr_BackupID q"
        and dst = "rr_Dst q" and st = "Some RestorePending"] by (metis option.case(2))
  have "lock_round (restore_ops TB TR t0 ctxErr) over q th = (MustWait, th1)"
    using t by (simp add: tryLock_enter_def split: if_splits)
  then have "th_w th1 = (th_w th)\<lparr>bw_r := u\<rparr>"
    using u(1) by (auto simp: lock_round_def restore_ops_def split: if_splits)
  then show ?thesis using u(2) by auto
qed

text \<open>A restore that had to wait for the throttle never runs. \<open>tryLockRestore\<close> records it as pending;
  when it gets its slot and its record is still what was queued, \<open>RestoreFile\<close> takes the record for a
  running restore, returns an error without touching kopia, and leaves the record running.\<close>

theorem queued_restore_never_runs:
  assumes TB: "table_ok TB backup_schema" and TR: "table_ok TR restore_schema"
    and n: "rr_RestoreID q \<noteq> 0" "rr_BackupID q \<noteq> 0" and i: "bw_inv TB TR (th_w th)" "bw_inv TB TR w"
    and t: "tryLock_enter (restore_ops TB TR t0 ctxErr) over q th = (MustWait, th1)"
    and same: "rview TR w (rr_RestoreID q) = rview TR (th_w th1) (rr_RestoreID q)"
    and b: "bview TB w (rr_BackupID q) = Some b"
    and r: "RestoreFile X J (DefaultBackupHook TB TR) env t1 t2 q p w = (out, p', w')"
  shows "p' = p \<and> (\<exists>m. out = JRet (Some (EWrap m ERestoreRunning)))
    \<and> (\<exists>x. rview TR w' (rr_RestoreID q) = Some x \<and> ri_state x = RestoreRunning)"
proof -
  obtain y where y: "rview TR w (rr_RestoreID q) = Some y" "ri_state y = RestorePending"
    using restore_enqueue[OF TR i(1) t] same by auto
  show ?thesis
    by (rule lifecycle_hook.RestoreFile_known[OF default_hook[OF TB TR] i(2) n b y(1) disjI1[OF y(2)] r])
qed

definition toy_backed :: toyw where
  "toy_backed = \<lparr>bw_b = [\<lparr> bi_pk = 1, bi_id = 8, bi_path = ''/d'', bi_manifest = ''m1'', bi_msize = 7,
      bi_ssize = 10, bi_state = BackupSuccess, bi_extra = [], bi_user = ''al'', bi_updated = 0 \<rparr>], bw_r = []\<rparr>"

lemma toy_backed_inv: "bw_inv LB LR toy_backed"
  by (simp add: bw_inv_def toy_backed_def unique_rows_def)

definition toy_full :: "(RestoreRequest, toyw) throttle" where
  "toy_full = \<lparr>th_cur = 1, th_max = 1, th_wait = [], th_woken = [], th_held = [], th_stat = emptyStat,
     th_w = toy_backed\<rparr>"

lemma toy_queued: "tryLock_enter (restore_ops LB LR 5 []) False (toy_rreq 8) toy_full
    = (MustWait, snd (tryLock_enter (restore_ops LB LR 5 []) False (toy_rreq 8) toy_full))"
proof -
  have "fst (tryLock_enter (restore_ops LB LR 5 []) False (toy_rreq 8) toy_full) = MustWait" by code_simp
  then show ?thesis by (simp add: prod_eq_iff)
qed

theorem queued_restore_never_runs_witness:
  "(case fst (RestoreFile toy_ops toy_jobs (DefaultBackupHook LB LR) [] 6 7 (toy_rreq 8) toy_running
      (th_w (snd (tryLock_enter (restore_ops LB LR 5 []) False (toy_rreq 8) toy_full)))) of
      JRet (Some e) \<Rightarrow> errIs e ERestoreRunning | _ \<Rightarrow> False)"
proof -
  let ?w = "th_w (snd (tryLock_enter (restore_ops LB LR 5 []) False (toy_rreq 8) toy_full))"
  let ?r = "RestoreFile toy_ops toy_jobs (DefaultBackupHook LB LR) [] 6 7 (toy_rreq 8) toy_running ?w"
  have n: "rr_RestoreID (toy_rreq 8) \<noteq> 0" "rr_BackupID (toy_rreq 8) \<noteq> 0" by (simp_all add: toy_rreq_def)
  have i: "bw_inv LB LR (th_w toy_full)" using toy_backed_inv by (simp add: toy_full_def)
  obtain u where u: "?w = toy_backed\<lparr>bw_r := u\<rparr>" "length u = 1"
  proof -
    have 1: "bw_b ?w = bw_b toy_backed" by code_simp
    have 2: "length (bw_r ?w) = 1" by code_simp
    show ?thesis by (rule that[of "bw_r ?w"]) (use 1 2 in simp_all)
  qed
  have i2: "bw_inv LB LR ?w"
    using u toy_backed_inv by (auto simp: bw_inv_def unique_rows_def length_Suc_conv)
  have b: "bview LB ?w (rr_BackupID (toy_rreq 8)) = Some (hd (bw_b toy_backed))"
    unfolding u(1) by (simp add: bview_def toy_rreq_def toy_backed_def)
  have r: "?r = (fst ?r, fst (snd ?r), snd (snd ?r))" by simp
  show ?thesis
    using queued_restore_never_runs[OF list_table_ok list_table_ok n i i2 toy_queued refl b r]
    by (auto simp: errIs_def)
qed

text \<open>A backup record disappears only together with its snapshot. \<open>DeleteBackup\<close> returns without error
  only when the provider admits the job and the snapshot of the record was deleted, or is not in the
  repository; then the record is gone and no other record has changed. After any error all records are as
  they were.\<close>

theorem DeleteBackup_exact:
  assumes TB: "table_ok TB backup_schema" and TR: "table_ok TR restore_schema" and i: "bw_inv TB TR w"
    and n: "bid \<noteq> 0" and d: "DeleteBackup X J (DefaultBackupHook TB TR) env bid p w = (out, p', w')"
  shows "bw_inv TB TR w' \<and> rview TR w' = rview TR w \<and> (\<forall>j. j \<noteq> bid \<longrightarrow> bview TB w' j = bview TB w j)
    \<and> (out = JRet None \<longrightarrow> bview TB w' bid = None \<and> (\<exists>x p1. bview TB w bid = Some x
         \<and> lockUntil X env p = (Some KOk, p1)
         \<and> (case fst (DeleteSnapshot X J (bi_manifest x) p1) of None \<Rightarrow> True | Some e \<Rightarrow> errIs e ESnapshotNotFound)))
    \<and> (out \<noteq> JRet None \<longrightarrow> w' = w)"
  by (rule lifecycle_hook.DeleteBackup_record[OF default_hook[OF TB TR] i n d])

theorem DeleteBackup_exact_witness:
  "bview LB (snd (snd (DeleteBackup toy_ops toy_jobs (DefaultBackupHook LB LR) [] 8 toy_running toy_backed))) 8 = None"
proof -
  let ?r = "DeleteBackup toy_ops toy_jobs (DefaultBackupHook LB LR) [] 8 toy_running toy_backed"
  have o: "(case fst ?r of JRet None \<Rightarrow> True | _ \<Rightarrow> False)" by code_simp
  have r: "?r = (fst ?r, fst (snd ?r), snd (snd ?r))" by simp
  have n: "(8 :: int) \<noteq> 0" by simp
  show ?thesis using DeleteBackup_exact[OF list_table_ok list_table_ok toy_backed_inv n r] o
    by (auto split: jout.splits option.splits)
qed

text \<open>A snapshot with unreadable entries is saved but reported as failed: the write session has
  committed it under an id of its own, the backup returns an error, and its record is failed with the
  manifest \<open>-\<close>. The snapshot stays in the repository under an id that no record holds.\<close>

theorem failed_entries_orphan_snapshot:
  assumes TB: "table_ok TB backup_schema" and TR: "table_ok TR restore_schema" and i: "bw_inv TB TR w"
    and n: "rq_ID req \<noteq> 0"
    and nr: "\<not> (\<exists>x. bview TB w (rq_ID req) = Some x \<and> bi_state x = BackupRunning)"
    and run: "kp_state p = ProviderRunning" "kp_repo p"
    and k: "j_abs J (rq_Path req) = Inr dir" "findPreviousSnapshotManifest J dir (kp_k p) = Inr prev"
      "j_entry J dir (kp_k p) = None"
      "write_session J (snapshot_body J dir (backup_tags req) prev) (kp_k p) = (Inr man, k1)"
    and f: "mf_FailedEntries man \<noteq> []" "mf_ID man \<noteq> ''-''"
    and b: "BackupFile X J (DefaultBackupHook TB TR) env t0 t1 req p w = (out, p', w')"
  shows "kp_k p' = k1 \<and> (\<exists>e. out = JRet (Some noSnapshot, Some e))
    \<and> (\<exists>x. bview TB w' (rq_ID req) = Some x \<and> bi_state x = BackupFailed \<and> bi_manifest x \<noteq> mf_ID man)"
proof -
  let ?H = "DefaultBackupHook TB TR" and ?e = "EWrap ''Failed to create kopia snapshot''
      (EExt (join_on newline (mf_FailedEntries man)))"
  note hook = default_hook[OF TB TR]
  obtain w1 x where w1: "ho_backupStart ?H t0 req w = (None, w1)" "bw_inv TB TR w1"
    "bview TB w1 (rq_ID req) = Some x"
    using lifecycle_hook.backup_start[OF hook i n nr, of t0] by blast
  have l: "lockUntil X env p = (Some KOk, p)" using run by (subst lockUntil.simps) simp
  have c: "CreateSnapshot X J (rq_Path req) (backup_tags req) p = (Inl ?e, p\<lparr>kp_k := k1\<rparr>)"
    using run(2) k f(1) by (simp add: CreateSnapshot_def OpenRepository_def doSnapshot_def)
  have st: "end_state ?e = BackupFailed" by (simp add: end_state_def errIs_def)
  obtain w2 y where w2: "backup_finish ?H t1 req noSnapshot BackupFailed (err_text ?e) (Some ?e) w1 = (Some ?e, w2)"
    "bview TB w2 (rq_ID req) = Some y" "bi_state y = BackupFailed" "bi_manifest y = ''-''"
    using lifecycle_hook.backup_finish_spec[OF hook w1(2) n w1(3), of t1 noSnapshot BackupFailed "err_text ?e" "Some ?e"]
    by (auto simp: noSnapshot_def)
  have "(out, p', w') = (JRet (Some noSnapshot, Some ?e), p\<lparr>kp_k := k1\<rparr>, w2)"
    using b w1(1) l c st w2(1) by (simp add: BackupFile_def del: err_text.simps)
  then show ?thesis using w2(2-4) f(2) by auto
qed

theorem failed_entries_orphan_snapshot_witness:
  "(case fst (BackupFile toy_ops toy_jobs (DefaultBackupHook LB LR) [] 5 6 (toy_req ''/d!'') toy_running toy_world) of
      JRet (_, Some e) \<Rightarrow> True | _ \<Rightarrow> False)
   \<and> (''m1'', 10) \<in> set (fst (kp_k (fst (snd (BackupFile toy_ops toy_jobs (DefaultBackupHook LB LR) [] 5 6
        (toy_req ''/d!'') toy_running toy_world)))))"
proof -
  let ?q = "toy_req ''/d!''" and ?k = "kp_k toy_running"
  let ?r = "BackupFile toy_ops toy_jobs (DefaultBackupHook LB LR) [] 5 6 ?q toy_running toy_world"
  let ?man = "\<lparr>mf_ID = ''m1'', mf_Start = 0, mf_Incomplete = [], mf_Total = 10,
        mf_FailedEntries = [''unreadable''], mf_Tags = []\<rparr> :: Manifest"
  have n: "rq_ID ?q \<noteq> 0" and
    nr: "\<not> (\<exists>x. bview LB toy_world (rq_ID ?q) = Some x \<and> bi_state x = BackupRunning)"
    by (simp_all add: toy_req_def toy_world_def bview_def)
  have run: "kp_state toy_running = ProviderRunning" "kp_repo toy_running" by code_simp+
  have k: "j_abs toy_jobs (rq_Path ?q) = Inr ''/d!''" "findPreviousSnapshotManifest toy_jobs ''/d!'' ?k = Inr []"
    "j_entry toy_jobs ''/d!'' ?k = None"
    by (simp_all add: toy_jobs_def toy_req_def findPreviousSnapshotManifest_def)
  have s: "write_session toy_jobs (snapshot_body toy_jobs ''/d!'' (backup_tags ?q) []) ?k
      = (Inr ?man, ((''m1'', 10) # fst ?k, fst (snd ?k), snd (snd ?k)))"
    by (simp add: write_session_def snapshot_body_def toy_jobs_def hasSuffix_def hasPrefix_def split: prod.split)
  have f: "mf_FailedEntries ?man \<noteq> []" "mf_ID ?man \<noteq> ''-''" by simp_all
  have r: "?r = (fst ?r, fst (snd ?r), snd (snd ?r))" by simp
  show ?thesis
    using failed_entries_orphan_snapshot[OF list_table_ok list_table_ok toy_world_inv n nr run k s f r] by auto
qed

text \<open>\<open>RestoreLatest\<close> with tags that no snapshot carries returns without an error although nothing was
  restored: the missing manifest is reported by wrapping a nil error.\<close>

theorem RestoreLatest_silent:
  assumes "kp_state p = ProviderRunning" "kp_repo p" "\<And>labels. j_find J labels (kp_k p) = Inr []"
  shows "RestoreLatest X J env tags dst p = (JRet None, p)"
proof -
  have "lockUntil X env p = (Some KOk, p)" using assms(1) by (subst lockUntil.simps) simp
  then show ?thesis using assms(2,3)
    by (simp add: RestoreLatest_def restoreLatestSnapshot_def OpenRepository_def wrapErr_def Let_def)
qed

theorem RestoreLatest_silent_witness:
  "fst (RestoreLatest toy_ops toy_jobs [] [(''tag:author'', ''nobody'')] ''/x'' toy_running) = JRet None"
proof -
  have "kp_state toy_running = ProviderRunning" "kp_repo toy_running" by code_simp+
  moreover have "j_find toy_jobs labels (kp_k toy_running) = Inr []" for labels by (simp add: toy_jobs_def)
  ultimately have "RestoreLatest toy_ops toy_jobs [] [(''tag:author'', ''nobody'')] ''/x'' toy_running
      = (JRet None, toy_running)" by (rule RestoreLatest_silent)
  then show ?thesis by simp
qed

section \<open>Finding the snapshots of a source\<close>

lemma psegs_abs: "\<forall>s\<in>set ws. plain_seg s \<Longrightarrow> psegs (abs_path ws) = ws"
  unfolding abs_path_def by (rule psegs_plain_path)

lemma dirname_abs:
  assumes "\<forall>s\<in>set (ws @ [s]). plain_seg s"
  shows "dirname (abs_path (ws @ [s])) = abs_path ws"
proof -
  have s: "CHR ''/'' \<notin> set s" and w: "\<forall>s\<in>set ws. plain_seg s" using assms by (auto simp: plain_seg_def)
  have dw: "dropWhile (\<lambda>c. c \<noteq> CHR ''/'') (rev s @ CHR ''/'' # t) = CHR ''/'' # t" for t
    by (subst dropWhile_append2) (use s in auto)
  have "rev (dropWhile (\<lambda>c. c \<noteq> CHR ''/'') (rev (abs_path (ws @ [s])))) = (if ws = [] then ''/'' else abs_path ws @ ''/'')"
    by (simp add: abs_path_snoc dw)
  moreover have "clean (abs_path ws @ ''/'') = abs_path ws" if "ws \<noteq> []"
  proof -
    have r: "rooted (abs_path ws)" by (simp add: abs_path_def rooted_def)
    have "rooted (abs_path ws @ ''/'')" by (simp add: abs_path_def rooted_def)
    moreover have "psegs (abs_path ws @ ''/'') = ws"
      using psegs_append[OF r, of "[]"] psegs_abs[OF w] by simp
    ultimately show ?thesis by (simp add: clean_def abs_path_def)
  qed
  moreover have "clean ''/'' = abs_path []" by (simp add: clean_def abs_path_def rooted_def psegs_def)
  ultimately show ?thesis unfolding dirname_def by simp
qed

lemma dirname_root: "dirname (abs_path []) = abs_path []"
  by (simp add: dirname_def abs_path_def clean_def rooted_def psegs_def)

lemma basename_abs:
  assumes "\<forall>s\<in>set (ws @ [s]). plain_seg s"
  shows "basename (abs_path (ws @ [s])) = s"
proof -
  have s: "CHR ''/'' \<notin> set s" "s \<noteq> []" using assms by (auto simp: plain_seg_def)
  have e: "\<exists>u. abs_path (ws @ [s]) = u @ ''/'' @ s" by (auto simp: abs_path_snoc)
  then obtain u where u: "abs_path (ws @ [s]) = u @ ''/'' @ s" by blast
  have "hd (rev s) \<noteq> CHR ''/''" using s by (metis hd_in_set rev_is_Nil_conv set_rev)
  then have "trimRightP (\<lambda>c. c = CHR ''/'') (u @ ''/'' @ s) = u @ ''/'' @ s"
    using s(2) by (cases "rev s") (auto simp: trimRightP_def)
  then show ?thesis
    using s by (simp add: basename_def u split_file_def split_on_append split_on_no_sep)
qed

lemma abs_path_inj: "\<forall>s\<in>set ws. plain_seg s \<Longrightarrow> \<forall>s\<in>set vs. plain_seg s \<Longrightarrow> abs_path ws = abs_path vs \<Longrightarrow> ws = vs"
  using psegs_abs by metis

text \<open>The nearest directory at or above \<open>segs\<close> that has snapshots.\<close>

fun nearest :: "(string \<Rightarrow> string list) \<Rightarrow> string list \<Rightarrow> string list \<Rightarrow> string list \<times> string" where
  "nearest ids rsegs rest =
     (if ids (abs_path (rev rsegs)) \<noteq> [] then (ids (abs_path (rev rsegs)), join_on ''/'' rest)
      else (case rsegs of [] \<Rightarrow> ([], []) | s # rs \<Rightarrow> nearest ids rs (s # rest)))"

declare nearest.simps [simp del]

lemma findSnapshots_nearest:
  assumes "\<forall>s\<in>set rsegs \<union> set rest. plain_seg s" "length rsegs < n"
  shows "findSnapshotsForSource n (\<lambda>q. Inr (ids q)) (abs_path (rev rsegs)) (join_on ''/'' rest)
    = Some (Inr (nearest ids rsegs rest))"
  using assms
proof (induction rsegs arbitrary: n rest)
  case Nil
  then obtain m where n: "n = Suc m" by (cases n) auto
  have ne: "abs_path [] \<noteq> []" by (simp add: abs_path_def)
  show ?case by (simp add: n ne dirname_root nearest.simps Let_def split: list.split)
next
  case (Cons s rs)
  then obtain m where n: "n = Suc m" "length rs < m" by (cases n) auto
  have ps: "\<forall>t\<in>set (rev rs @ [s]). plain_seg t" using Cons.prems(1) by auto
  have ne: "abs_path (rev rs @ [s]) \<noteq> []" by (simp add: abs_path_def)
  have d: "dirname (abs_path (rev rs @ [s])) = abs_path (rev rs)" by (rule dirname_abs[OF ps])
  have "rev rs @ [s] \<noteq> rev rs" by simp
  then have neq: "abs_path (rev rs) \<noteq> abs_path (rev rs @ [s])" using abs_path_inj[of "rev rs" "rev rs @ [s]"] ps by auto
  have j: "(if join_on ''/'' rest \<noteq> [] then basename (abs_path (rev rs @ [s])) @ ''/'' @ join_on ''/'' rest
      else basename (abs_path (rev rs @ [s]))) = join_on ''/'' (s # rest)"
  proof (cases rest)
    case (Cons r rest')
    then have "r \<noteq> []" using Cons.prems(1) by (auto simp: plain_seg_def)
    then have "join_on ''/'' rest \<noteq> []" using Cons by (cases rest') auto
    then show ?thesis using Cons by (simp add: basename_abs[OF ps])
  qed (simp add: basename_abs[OF ps])
  have IH: "findSnapshotsForSource m (\<lambda>q. Inr (ids q)) (abs_path (rev rs)) (join_on ''/'' (s # rest))
      = Some (Inr (nearest ids rs (s # rest)))"
    using Cons.prems(1) n(2) by (intro Cons.IH) auto
  show ?case
    by (cases "ids (abs_path (rev rs @ [s]))")
      (simp_all only: n(1) findSnapshotsForSource.simps rev.simps ne if_False d neq j Let_def IH sum.case
        list.case nearest.simps[of ids "s # rs"] simp_thms if_True not_Cons_self list.distinct)
qed

lemma nearest_spec:
  "\<exists>ms relp. nearest ids rsegs rest = (ms, relp)
    \<and> ((ms \<noteq> [] \<and> (\<exists>i\<le>length rsegs. ms = ids (abs_path (take i (rev rsegs)))
         \<and> relp = join_on ''/'' (drop i (rev rsegs) @ rest)
         \<and> (\<forall>k. i < k \<longrightarrow> k \<le> length rsegs \<longrightarrow> ids (abs_path (take k (rev rsegs))) = [])))
     \<or> (ms = [] \<and> relp = [] \<and> (\<forall>k\<le>length rsegs. ids (abs_path (take k (rev rsegs))) = [])))"
proof (induction rsegs arbitrary: rest)
  case Nil
  then show ?case by (simp add: nearest.simps)
next
  case (Cons s rs)
  show ?case
  proof (cases "ids (abs_path (rev (s # rs))) = []")
    case False
    then show ?thesis by (subst nearest.simps) (auto intro!: exI[of _ "Suc (length rs)"])
  next
    case True
    have tk: "take k (rev (s # rs)) = (if k \<le> length rs then take k (rev rs) else rev (s # rs))" for k by simp
    have n: "nearest ids (s # rs) rest = nearest ids rs (s # rest)" using True by (subst nearest.simps) simp
    obtain ms relp where m: "nearest ids rs (s # rest) = (ms, relp)"
      and c: "(ms \<noteq> [] \<and> (\<exists>i\<le>length rs. ms = ids (abs_path (take i (rev rs)))
         \<and> relp = join_on ''/'' (drop i (rev rs) @ s # rest)
         \<and> (\<forall>k. i < k \<longrightarrow> k \<le> length rs \<longrightarrow> ids (abs_path (take k (rev rs))) = [])))
     \<or> (ms = [] \<and> relp = [] \<and> (\<forall>k\<le>length rs. ids (abs_path (take k (rev rs))) = []))"
      using Cons.IH[of "s # rest"] by blast
    from c show ?thesis
    proof
      assume "ms \<noteq> [] \<and> (\<exists>i\<le>length rs. ms = ids (abs_path (take i (rev rs)))
         \<and> relp = join_on ''/'' (drop i (rev rs) @ s # rest)
         \<and> (\<forall>k. i < k \<longrightarrow> k \<le> length rs \<longrightarrow> ids (abs_path (take k (rev rs))) = []))"
      then obtain i where i: "ms \<noteq> []" "i \<le> length rs" "ms = ids (abs_path (take i (rev rs)))"
        "relp = join_on ''/'' (drop i (rev rs) @ s # rest)"
        "\<forall>k. i < k \<longrightarrow> k \<le> length rs \<longrightarrow> ids (abs_path (take k (rev rs))) = []" by blast
      have "\<forall>k. i < k \<longrightarrow> k \<le> length (s # rs) \<longrightarrow> ids (abs_path (take k (rev (s # rs)))) = []"
        using i(5) True unfolding tk by simp
      moreover have "ms = ids (abs_path (take i (rev (s # rs))))" using i(2,3) unfolding tk by simp
      moreover have "relp = join_on ''/'' (drop i (rev (s # rs)) @ rest)" using i(2,4) by simp
      ultimately show ?thesis using n m i(1,2) by (auto intro!: exI[of _ i])
    next
      assume e: "ms = [] \<and> relp = [] \<and> (\<forall>k\<le>length rs. ids (abs_path (take k (rev rs))) = [])"
      then have "\<forall>k\<le>length (s # rs). ids (abs_path (take k (rev (s # rs)))) = []"
        using True unfolding tk by simp
      then show ?thesis using n m e by auto
    qed
  qed
qed

text \<open>The snapshots of a source are those of the nearest directory at or above it that has any, with
  the rest of the path as relative path; the loop over the parents always ends, at the root at the
  latest, and returns nothing only if no ancestor has snapshots.\<close>

theorem findSnapshotsForSource_nearest:
  assumes "\<forall>s\<in>set segs. plain_seg s"
  shows "\<exists>ms relp. findSnapshotsForSource (Suc (length (abs_path segs))) (\<lambda>q. Inr (ids q)) (abs_path segs) []
      = Some (Inr (ms, relp))
    \<and> ((ms \<noteq> [] \<and> (\<exists>i\<le>length segs. ms = ids (abs_path (take i segs)) \<and> relp = join_on ''/'' (drop i segs)
         \<and> (\<forall>k. i < k \<longrightarrow> k \<le> length segs \<longrightarrow> ids (abs_path (take k segs)) = [])))
     \<or> (ms = [] \<and> relp = [] \<and> (\<forall>k\<le>length segs. ids (abs_path (take k segs)) = [])))"
proof -
  have "length ws \<le> length (join_on ''/'' ws)" if "\<forall>s\<in>set ws. plain_seg s" for ws
    using that
  proof (induction ws rule: induct_list012)
    case (2 w)
    then show ?case by (cases w) (auto simp: plain_seg_def)
  qed auto
  from this[OF assms] have "length (rev segs) < Suc (length (abs_path segs))" by (simp add: abs_path_def)
  then have f: "findSnapshotsForSource (Suc (length (abs_path segs))) (\<lambda>q. Inr (ids q)) (abs_path segs) []
      = Some (Inr (nearest ids (rev segs) []))"
    using findSnapshots_nearest[of "rev segs" "[]" "Suc (length (abs_path segs))" ids] assms by simp
  show ?thesis using nearest_spec[of ids "rev segs" "[]"] unfolding f by simp
qed

theorem findSnapshotsForSource_nearest_witness:
  "findSnapshotsForSource (Suc (length ''/a/b/c'')) (\<lambda>q. Inr (if q = ''/a'' then [''m''] else [])) ''/a/b/c'' []
    = Some (Inr ([''m''], ''b/c''))"
proof -
  let ?ids = "\<lambda>q. if q = ''/a'' then [''m''] else []"
  have p: "abs_path [''a'', ''b'', ''c''] = ''/a/b/c''" "abs_path [''a''] = ''/a''"
    "abs_path [''a'', ''b''] = ''/a/b''" "abs_path [] = ''/''" by (simp_all add: abs_path_def)
  have s: "\<forall>s\<in>set [''a'', ''b'', ''c'']. plain_seg s" by (simp add: plain_seg_def)
  let ?S = "[''a'', ''b'', ''c'']"
  obtain ms relp where f: "findSnapshotsForSource (Suc (length ''/a/b/c'')) (\<lambda>q. Inr (?ids q)) ''/a/b/c'' []
      = Some (Inr (ms, relp))"
    and c0: "(ms \<noteq> [] \<and> (\<exists>i\<le>length ?S. ms = ?ids (abs_path (take i ?S)) \<and> relp = join_on ''/'' (drop i ?S)
         \<and> (\<forall>k. i < k \<longrightarrow> k \<le> length ?S \<longrightarrow> ?ids (abs_path (take k ?S)) = [])))
     \<or> (ms = [] \<and> relp = [] \<and> (\<forall>k\<le>length ?S. ?ids (abs_path (take k ?S)) = []))"
    using findSnapshotsForSource_nearest[OF s, of ?ids, unfolded p(1)] by blast
  have l: "length ?S = 3" by simp
  have c: "(ms \<noteq> [] \<and> (\<exists>i\<le>3. ms = ?ids (abs_path (take i ?S)) \<and> relp = join_on ''/'' (drop i ?S)))
     \<or> (ms = [] \<and> (\<forall>k\<le>3. ?ids (abs_path (take k ?S)) = []))"
    using c0 unfolding l by blast
  have "?ids (abs_path (take 1 [''a'', ''b'', ''c''])) \<noteq> []" by (simp add: p)
  then obtain i where i: "ms \<noteq> []" "i \<le> 3" "ms = ?ids (abs_path (take i [''a'', ''b'', ''c'']))"
    "relp = join_on ''/'' (drop i [''a'', ''b'', ''c''])" using c by (metis numeral_eq_one_iff one_le_numeral)
  have "i = 0 \<or> i = 1 \<or> i = 2 \<or> i = 3" using i(2) by auto
  then have "i = 1" using i(1,3) by (auto simp: p)
  then have "ms = [''m'']" "relp = ''b/c''" using i(3,4) by (simp_all add: p)
  then show ?thesis using f by simp
qed

section \<open>Listing and the previous snapshot\<close>

lemma snapInfos_sum: "sum_list (map si_ManifestSize (snapInfos prev ms))
    = (if ms = [] then 0 else mf_Total (last ms) - (case prev of None \<Rightarrow> 0 | Some q \<Rightarrow> q))"
  by (induction ms arbitrary: prev) (auto split: option.split)

lemma snapInfos_map: "map si_ID (snapInfos prev ms) = map mf_ID ms"
  "map si_SnapshotSize (snapInfos prev ms) = map mf_Total ms"
  by (induction ms arbitrary: prev) auto

lemma snapInfos_take: "snapInfos prev (take n ms) = take n (snapInfos prev ms)"
  by (induction ms arbitrary: prev n) (auto simp: take_Cons split: nat.split)

text \<open>The listing of backups keeps every snapshot with its id and size, in order, and its manifest
  sizes add up: the sizes of the first \<open>n\<close> entries sum to the snapshot size of the \<open>n\<close>-th, modulo
  \<open>2 ^ 64\<close> (a snapshot that is smaller than the one before it gets a negative size).\<close>

theorem ListBackups_sizes:
  "map si_ID (snapInfos None ms) = map mf_ID ms \<and> map si_SnapshotSize (snapInfos None ms) = map mf_Total ms
   \<and> sum_list (take n (map si_ManifestSize (snapInfos None ms)))
       = (if take n ms = [] then 0 else mf_Total (last (take n ms)))"
  using snapInfos_sum[of None "take n ms"] snapInfos_map[of None ms]
  by (simp add: snapInfos_take take_map)

lemma latest_complete_spec:
  "latest_complete prev ms = Some m \<Longrightarrow>
     (prev = Some m \<or> m \<in> set ms \<and> mf_Incomplete m = [])
   \<and> (\<forall>q. prev = Some q \<longrightarrow> mf_Start q \<le> mf_Start m)
   \<and> (\<forall>x\<in>set ms. mf_Incomplete x = [] \<longrightarrow> mf_Start x \<le> mf_Start m)"
proof (induction ms arbitrary: prev)
  case (Cons a ms)
  let ?p = "if mf_Incomplete a = [] \<and> (case prev of None \<Rightarrow> True | Some q \<Rightarrow> mf_Start q < mf_Start a)
      then Some a else prev"
  have "latest_complete ?p ms = Some m" using Cons.prems by simp
  from Cons.IH[OF this] show ?case by (cases prev) (auto split: if_splits)
qed simp

lemma latest_complete_None: "latest_complete prev ms = None \<longleftrightarrow> prev = None \<and> (\<forall>x\<in>set ms. mf_Incomplete x \<noteq> [])"
  by (induction ms arbitrary: prev) (auto split: option.splits)

text \<open>An incremental snapshot is based on the latest complete snapshot of its source: the list of
  previous snapshots is empty exactly if no complete one exists, and otherwise holds one complete
  snapshot of the source that no other complete one started after.\<close>

theorem findPreviousSnapshotManifest_latest:
  assumes "j_snapshots J path k = Inr ms"
  shows "\<exists>prev. findPreviousSnapshotManifest J path k = Inr prev
    \<and> (prev = [] \<longleftrightarrow> \<not> (\<exists>x\<in>set ms. mf_Incomplete x = []))
    \<and> (prev \<noteq> [] \<longrightarrow> (\<exists>m\<in>set ms. prev = [m] \<and> mf_Incomplete m = []
         \<and> (\<forall>x\<in>set ms. mf_Incomplete x = [] \<longrightarrow> mf_Start x \<le> mf_Start m)))"
proof (cases "latest_complete None ms")
  case None
  then show ?thesis using assms latest_complete_None[of None ms] by (simp add: findPreviousSnapshotManifest_def)
next
  case (Some m)
  have "m \<in> set ms \<and> mf_Incomplete m = []
      \<and> (\<forall>x\<in>set ms. mf_Incomplete x = [] \<longrightarrow> mf_Start x \<le> mf_Start m)"
    using latest_complete_spec[OF Some] by simp
  then show ?thesis using assms Some by (auto simp: findPreviousSnapshotManifest_def)
qed

definition toy_man :: "string \<Rightarrow> int \<Rightarrow> string \<Rightarrow> Manifest" where
  "toy_man i t inc = \<lparr>mf_ID = i, mf_Start = t, mf_Incomplete = inc, mf_Total = 1, mf_FailedEntries = [], mf_Tags = []\<rparr>"

theorem findPreviousSnapshotManifest_latest_witness:
  "findPreviousSnapshotManifest (toy_jobs\<lparr>j_snapshots := \<lambda>_ _. Inr [toy_man ''a'' 1 [], toy_man ''b'' 3 [],
      toy_man ''c'' 5 ''canceled'', toy_man ''d'' 2 []]\<rparr>) ''/d'' (kp_k toy_running) = Inr [toy_man ''b'' 3 []]"
proof -
  let ?ms = "[toy_man ''a'' 1 [], toy_man ''b'' 3 [], toy_man ''c'' 5 ''canceled'', toy_man ''d'' 2 []]"
  let ?J = "toy_jobs\<lparr>j_snapshots := \<lambda>_ _. Inr ?ms\<rparr>"
  have "j_snapshots ?J ''/d'' (kp_k toy_running) = Inr ?ms" by simp
  from findPreviousSnapshotManifest_latest[OF this]
  obtain prev where p: "findPreviousSnapshotManifest ?J ''/d'' (kp_k toy_running) = Inr prev"
    "prev = [] \<longleftrightarrow> \<not> (\<exists>x\<in>set ?ms. mf_Incomplete x = [])"
    "prev \<noteq> [] \<longrightarrow> (\<exists>m\<in>set ?ms. prev = [m] \<and> mf_Incomplete m = []
         \<and> (\<forall>x\<in>set ?ms. mf_Incomplete x = [] \<longrightarrow> mf_Start x \<le> mf_Start m))"
    by blast
  then show ?thesis by (auto simp: toy_man_def)
qed

end
