(* ===== verification/JobCtx.thy ===== *)
theory JobCtx
  imports Prelude
begin

text \<open>
  The registry of asynchronous jobs, \<open>internal/app/job_ctx.go\<close>. A job is one goroutine that runs the
  callback, hands its outcome to the registrar over an unbuffered channel unless the job was closed, and
  reports its key to the scavenger, which drops the key from the map. \<open>close\<close> may come from the
  registrar, from \<open>DeRegister\<close> or from \<open>Stop\<close> at any time. The operations are functions on the state;
  \<open>jc_run\<close> interleaves them, one atomic action at a time.
\<close>

section \<open>State\<close>

datatype JobState = JPENDING | JSUCCESS | JFAILED

text \<open>Where the goroutine of a job is: in the callback; back with a result; blocked in a send of its
  outcome; about to report; about to close itself; gone; or dead of a send on a closed channel.\<close>

datatype phase = InCallback | Returned "string option" | Sending "string option" | Reporting | Closing
  | Exited | Crashed

record Job =
  jb_id :: string
  jb_phase :: phase
  jb_state :: JobState
  jb_cancelled :: bool       \<comment> \<open>the context is done\<close>
  jb_chans :: bool           \<comment> \<open>\<open>sc\<close> and \<open>ec\<close> are closed\<close>
  jb_closed :: bool          \<comment> \<open>the atomic flag, set last\<close>
  jb_got :: "string option option"   \<comment> \<open>what the registrar received\<close>

record JobCtx =
  jc_jobs :: "Job list"      \<comment> \<open>every job ever registered\<close>
  jc_map :: "string \<rightharpoonup> nat"
  jc_scav :: "string option" \<comment> \<open>the key the scavenger has taken and not yet deleted\<close>
  jc_closed :: bool

definition NewJobCtx :: JobCtx where
  "NewJobCtx = \<lparr>jc_jobs = [], jc_map = Map.empty, jc_scav = None, jc_closed = False\<rparr>"

definition upd :: "nat \<Rightarrow> (Job \<Rightarrow> Job) \<Rightarrow> JobCtx \<Rightarrow> JobCtx" where
  "upd k f jc = jc\<lparr>jc_jobs := (jc_jobs jc)[k := f (jc_jobs jc ! k)]\<rparr>"

section \<open>Operations of the callers\<close>

definition GetJobCtx :: "string \<Rightarrow> JobCtx \<Rightarrow> nat option" where
  "GetJobCtx i jc = jc_map jc i"

definition insert_job :: "string \<Rightarrow> JobCtx \<Rightarrow> nat \<times> JobCtx" where
  "insert_job i jc = (let k = length (jc_jobs jc) in
     (k, jc\<lparr>jc_jobs := jc_jobs jc @ [\<lparr>jb_id = i, jb_phase = InCallback, jb_state = JPENDING,
               jb_cancelled = False, jb_chans = False, jb_closed = False, jb_got = None\<rparr>],
            jc_map := (jc_map jc)(i \<mapsto> k)\<rparr>))"

text \<open>A key that is registered gives the job that holds it; the flag says whether the job is new.\<close>

definition RegisterJob :: "string \<Rightarrow> JobCtx \<Rightarrow> (nat \<times> bool) \<times> JobCtx" where
  "RegisterJob i jc = (case GetJobCtx i jc of
     Some k \<Rightarrow> ((k, False), jc)
   | None \<Rightarrow> (case insert_job i jc of (k, jc') \<Rightarrow> ((k, True), jc')))"

text \<open>\<open>Job.close\<close>: cancel, close the channels once, then store the flag.\<close>

definition close_chans :: "nat \<Rightarrow> JobCtx \<Rightarrow> JobCtx" where
  "close_chans k = upd k (\<lambda>j. j\<lparr>jb_cancelled := True, jb_chans := True\<rparr>)"

definition set_closed :: "nat \<Rightarrow> JobCtx \<Rightarrow> JobCtx" where
  "set_closed k = upd k (\<lambda>j. j\<lparr>jb_closed := True\<rparr>)"

definition close_job :: "nat \<Rightarrow> JobCtx \<Rightarrow> JobCtx" where
  "close_job k jc = set_closed k (close_chans k jc)"

definition del_key :: "string \<Rightarrow> JobCtx \<Rightarrow> JobCtx" where
  "del_key i jc = jc\<lparr>jc_map := (jc_map jc)(i := None)\<rparr>"

definition DeRegister :: "string \<Rightarrow> JobCtx \<Rightarrow> bool \<times> JobCtx" where
  "DeRegister i jc = (case GetJobCtx i jc of
     None \<Rightarrow> (False, jc) | Some k \<Rightarrow> (True, del_key i (close_job k jc)))"

text \<open>\<open>Stop\<close> closes the jobs in the map, then waits until no goroutine is left (\<open>Drain\<close>).\<close>

definition stop_close :: "string list \<Rightarrow> JobCtx \<Rightarrow> JobCtx" where
  "stop_close ids jc = fold (\<lambda>i s. case jc_map s i of None \<Rightarrow> s | Some k \<Rightarrow> close_job k s) ids
     (jc\<lparr>jc_closed := True\<rparr>)"

definition Drained :: "JobCtx \<Rightarrow> bool" where
  "Drained jc \<longleftrightarrow> list_all (\<lambda>j. jb_phase j = Exited) (jc_jobs jc)"

section \<open>The goroutine of a job and the scavenger\<close>

definition return_cb :: "string option \<Rightarrow> nat \<Rightarrow> JobCtx \<Rightarrow> JobCtx" where
  "return_cb e k = upd k (\<lambda>j. j\<lparr>jb_phase := Returned e,
     jb_state := (if e = None then JSUCCESS else JFAILED)\<rparr>)"

definition check_closed :: "nat \<Rightarrow> JobCtx \<Rightarrow> JobCtx" where
  "check_closed k = upd k (\<lambda>j. case jb_phase j of
     Returned e \<Rightarrow> j\<lparr>jb_phase := (if jb_closed j then Reporting else Sending e)\<rparr> | _ \<Rightarrow> j)"

text \<open>The send: the registrar receives, or the channel is closed and the goroutine panics.\<close>

definition send_outcome :: "nat \<Rightarrow> JobCtx \<Rightarrow> JobCtx" where
  "send_outcome k = upd k (\<lambda>j. case jb_phase j of
     Sending e \<Rightarrow> if jb_chans j then j\<lparr>jb_phase := Crashed\<rparr>
                  else j\<lparr>jb_phase := Reporting, jb_got := Some e\<rparr> | _ \<Rightarrow> j)"

definition report :: "nat \<Rightarrow> JobCtx \<Rightarrow> JobCtx" where
  "report k jc = (upd k (\<lambda>j. j\<lparr>jb_phase := Closing\<rparr>) jc)\<lparr>jc_scav := Some (jb_id (jc_jobs jc ! k))\<rparr>"

definition exit_job :: "nat \<Rightarrow> JobCtx \<Rightarrow> JobCtx" where
  "exit_job k jc = upd k (\<lambda>j. j\<lparr>jb_phase := Exited\<rparr>) (close_job k jc)"

definition scavenge :: "JobCtx \<Rightarrow> JobCtx" where
  "scavenge jc = (case jc_scav jc of None \<Rightarrow> jc | Some i \<Rightarrow> (del_key i jc)\<lparr>jc_scav := None\<rparr>)"

inductive jc_run :: "JobCtx \<Rightarrow> bool" where
  init: "jc_run NewJobCtx"
| insert: "jc_run jc \<Longrightarrow> jc_run (snd (insert_job i jc))"
| closing: "jc_run jc \<Longrightarrow> k < length (jc_jobs jc) \<Longrightarrow> jc_run (close_chans k jc)"
| closed: "jc_run jc \<Longrightarrow> k < length (jc_jobs jc) \<Longrightarrow> jb_chans (jc_jobs jc ! k) \<Longrightarrow> jc_run (set_closed k jc)"
| delete: "jc_run jc \<Longrightarrow> jc_run (del_key i jc)"
| return: "jc_run jc \<Longrightarrow> k < length (jc_jobs jc) \<Longrightarrow> jb_phase (jc_jobs jc ! k) = InCallback \<Longrightarrow>
    jc_run (return_cb e k jc)"
| check: "jc_run jc \<Longrightarrow> k < length (jc_jobs jc) \<Longrightarrow> jc_run (check_closed k jc)"
| send: "jc_run jc \<Longrightarrow> k < length (jc_jobs jc) \<Longrightarrow> jc_run (send_outcome k jc)"
| report: "jc_run jc \<Longrightarrow> k < length (jc_jobs jc) \<Longrightarrow> jb_phase (jc_jobs jc ! k) = Reporting \<Longrightarrow>
    jc_scav jc = None \<Longrightarrow> jc_run (report k jc)"
| exit: "jc_run jc \<Longrightarrow> k < length (jc_jobs jc) \<Longrightarrow> jb_phase (jc_jobs jc ! k) = Closing \<Longrightarrow> jc_run (exit_job k jc)"
| scavenge: "jc_run jc \<Longrightarrow> jc_run (scavenge jc)"

section \<open>Invariants\<close>

lemma upd_simps [simp]:
  "length (jc_jobs (upd k f jc)) = length (jc_jobs jc)" "jc_map (upd k f jc) = jc_map jc"
  "jc_scav (upd k f jc) = jc_scav jc" "jc_closed (upd k f jc) = jc_closed jc"
  by (simp_all add: upd_def)

lemma upd_nth: "k < length (jc_jobs jc) \<Longrightarrow>
    jc_jobs (upd k f jc) ! n = (if n = k then f (jc_jobs jc ! k) else jc_jobs jc ! n)"
  by (simp add: upd_def nth_list_update)

definition job_ok :: "Job \<Rightarrow> bool" where
  "job_ok j \<longleftrightarrow> (jb_closed j \<longrightarrow> jb_chans j) \<and> (jb_chans j \<longrightarrow> jb_cancelled j)
     \<and> (jb_state j = JPENDING \<longleftrightarrow> jb_phase j = InCallback)
     \<and> (\<forall>e. jb_phase j = Returned e \<or> jb_phase j = Sending e \<longrightarrow>
          jb_got j = None \<and> (jb_state j = JSUCCESS \<longleftrightarrow> e = None))
     \<and> (jb_phase j = InCallback \<longrightarrow> jb_got j = None)
     \<and> (\<forall>e. jb_got j = Some e \<longrightarrow> (jb_state j = JSUCCESS \<longleftrightarrow> e = None))
     \<and> (jb_phase j = Crashed \<longrightarrow> jb_got j = None)
     \<and> (jb_phase j = Exited \<longrightarrow> jb_closed j)
     \<and> (jb_got j = None \<longrightarrow> jb_phase j = Reporting \<longrightarrow> jb_closed j)"

definition jc_inv :: "JobCtx \<Rightarrow> bool" where
  "jc_inv jc \<longleftrightarrow> (\<forall>k<length (jc_jobs jc). job_ok (jc_jobs jc ! k))
     \<and> (\<forall>i k. jc_map jc i = Some k \<longrightarrow> k < length (jc_jobs jc) \<and> jb_id (jc_jobs jc ! k) = i)"

lemma jc_inv_upd:
  assumes "jc_inv jc" "k < length (jc_jobs jc)" "job_ok (f (jc_jobs jc ! k))"
    and "jb_id (f (jc_jobs jc ! k)) = jb_id (jc_jobs jc ! k)"
  shows "jc_inv (upd k f jc)"
  using assms by (simp add: jc_inv_def upd_nth)

lemma jc_inv_del: "jc_inv jc \<Longrightarrow> jc_inv (del_key i jc)"
  by (auto simp: jc_inv_def del_key_def)

lemma jc_inv_scav [simp]: "jc_inv (jc\<lparr>jc_scav := x\<rparr>) = jc_inv jc" "jc_inv (jc\<lparr>jc_closed := b\<rparr>) = jc_inv jc"
  by (simp_all add: jc_inv_def)

lemma jc_run_inv: "jc_run jc \<Longrightarrow> jc_inv jc"
proof (induction rule: jc_run.induct)
  case init
  then show ?case by (simp add: jc_inv_def NewJobCtx_def)
next
  case (insert jc i)
  then show ?case
    by (auto simp: jc_inv_def insert_job_def Let_def nth_append job_ok_def less_Suc_eq)
next
  case (closing jc k)
  then have "job_ok (jc_jobs jc ! k)" by (simp add: jc_inv_def)
  with closing show ?case unfolding close_chans_def by (intro jc_inv_upd) (auto simp: job_ok_def)
next
  case (closed jc k)
  then have "job_ok (jc_jobs jc ! k)" by (simp add: jc_inv_def)
  with closed show ?case unfolding set_closed_def by (intro jc_inv_upd) (auto simp: job_ok_def)
next
  case (delete jc i)
  then show ?case by (simp add: jc_inv_del)
next
  case (return jc k e)
  then have "job_ok (jc_jobs jc ! k)" by (simp add: jc_inv_def)
  with return show ?case unfolding return_cb_def by (intro jc_inv_upd) (auto simp: job_ok_def)
next
  case (check jc k)
  then have "job_ok (jc_jobs jc ! k)" by (simp add: jc_inv_def)
  with check show ?case unfolding check_closed_def
    by (intro jc_inv_upd) (auto simp: job_ok_def split: phase.split)
next
  case (send jc k)
  then have "job_ok (jc_jobs jc ! k)" by (simp add: jc_inv_def)
  with send show ?case unfolding send_outcome_def
    by (intro jc_inv_upd) (auto simp: job_ok_def split: phase.split)
next
  case (report jc k)
  then have "job_ok (jc_jobs jc ! k)" by (simp add: jc_inv_def)
  with report have "jc_inv (upd k (\<lambda>j. j\<lparr>jb_phase := Closing\<rparr>) jc)" by (intro jc_inv_upd) (auto simp: job_ok_def)
  then show ?case by (simp add: report_def)
next
  case (exit jc k)
  then have "job_ok (jc_jobs jc ! k)" by (simp add: jc_inv_def)
  with exit show ?case unfolding exit_job_def close_job_def set_closed_def close_chans_def
    by (intro jc_inv_upd) (auto simp: job_ok_def upd_nth)
next
  case (scavenge jc)
  then show ?case by (simp add: scavenge_def jc_inv_del split: option.split)
qed

section \<open>Properties\<close>

text \<open>The registry hands out one job per key. Registering a key that is in the map returns its job and
  changes nothing; otherwise a pending job is made under that key and found by \<open>GetJobCtx\<close>. \<open>DeRegister\<close>
  fails only for an unknown key; it cancels and closes the job it finds, and the key is free again. Other
  keys and other jobs are not touched.\<close>

theorem RegisterJob_DeRegister:
  assumes run: "jc_run jc" and reg: "RegisterJob i jc = ((k, fresh), jc')"
  shows "GetJobCtx i jc' = Some k \<and> jb_id (jc_jobs jc' ! k) = i \<and> k < length (jc_jobs jc')
    \<and> (\<forall>j. j \<noteq> i \<longrightarrow> GetJobCtx j jc' = GetJobCtx j jc)
    \<and> (if GetJobCtx i jc = None then fresh \<and> k = length (jc_jobs jc) \<and> jb_phase (jc_jobs jc' ! k) = InCallback
       else \<not> fresh \<and> jc' = jc)
    \<and> (case DeRegister i jc' of (ok, jc2) \<Rightarrow> ok \<and> GetJobCtx i jc2 = None
         \<and> jb_cancelled (jc_jobs jc2 ! k) \<and> jb_closed (jc_jobs jc2 ! k)
         \<and> (\<forall>m<length (jc_jobs jc'). m \<noteq> k \<longrightarrow> jc_jobs jc2 ! m = jc_jobs jc' ! m)
         \<and> DeRegister i jc2 = (False, jc2))"
proof -
  have i: "jc_inv jc" by (rule jc_run_inv[OF run])
  have reg': "GetJobCtx i jc' = Some k \<and> jb_id (jc_jobs jc' ! k) = i \<and> k < length (jc_jobs jc')
    \<and> (\<forall>j. j \<noteq> i \<longrightarrow> GetJobCtx j jc' = GetJobCtx j jc)
    \<and> (if GetJobCtx i jc = None then fresh \<and> k = length (jc_jobs jc) \<and> jb_phase (jc_jobs jc' ! k) = InCallback
       else \<not> fresh \<and> jc' = jc)"
    using reg i by (cases "jc_map jc i")
      (auto simp: RegisterJob_def GetJobCtx_def insert_job_def Let_def jc_inv_def)
  then have k: "k < length (jc_jobs jc')" "jc_map jc' i = Some k" by (simp_all add: GetJobCtx_def)
  have d: "DeRegister i jc' = (True, del_key i (close_job k jc'))"
    using k(2) by (simp add: DeRegister_def GetJobCtx_def)
  have "case DeRegister i jc' of (ok, jc2) \<Rightarrow> ok \<and> GetJobCtx i jc2 = None
         \<and> jb_cancelled (jc_jobs jc2 ! k) \<and> jb_closed (jc_jobs jc2 ! k)
         \<and> (\<forall>m<length (jc_jobs jc'). m \<noteq> k \<longrightarrow> jc_jobs jc2 ! m = jc_jobs jc' ! m)
         \<and> DeRegister i jc2 = (False, jc2)"
    using k by (simp add: d DeRegister_def GetJobCtx_def del_key_def close_job_def set_closed_def
        close_chans_def upd_nth)
  then show ?thesis using reg' by blast
qed

theorem RegisterJob_DeRegister_witness:
  "fst (RegisterJob ''backup:1'' (snd (RegisterJob ''backup:1'' NewJobCtx))) = (0, False)"
proof -
  let ?s = "snd (RegisterJob ''backup:1'' NewJobCtx)"
  have "?s = snd (insert_job ''backup:1'' NewJobCtx)"
    by (simp add: RegisterJob_def GetJobCtx_def NewJobCtx_def split: prod.split)
  then have run: "jc_run ?s" using jc_run.insert[OF jc_run.init] by simp
  obtain k f t where r: "RegisterJob ''backup:1'' ?s = ((k, f), t)" by (metis surj_pair)
  have g: "GetJobCtx ''backup:1'' ?s = Some 0"
    by (simp add: RegisterJob_def GetJobCtx_def NewJobCtx_def insert_job_def Let_def)
  have "GetJobCtx ''backup:1'' t = Some k" "(if GetJobCtx ''backup:1'' ?s = None
      then f \<and> k = length (jc_jobs ?s) \<and> jb_phase (jc_jobs t ! k) = InCallback else \<not> f \<and> t = ?s)"
    using RegisterJob_DeRegister[OF run r] by blast+
  then show ?thesis using r g by simp
qed


definition ex_sent :: JobCtx where
  "ex_sent = send_outcome 0 (check_closed 0 (return_cb None 0 (snd (insert_job ''a'' NewJobCtx))))"

lemma jc_run_path:
  assumes "jc_run jc" "k < length (jc_jobs jc)" "jb_phase (jc_jobs jc ! k) = InCallback"
  shows "jc_run (check_closed k (return_cb e k jc))"
  using assms by (intro jc_run.check jc_run.return) (simp_all add: return_cb_def)


text \<open>Closing a job whose goroutine is about to deliver kills the process. The goroutine tests the
  closed flag and then sends; \<open>close\<close> closes the channels before it stores the flag. From any reachable
  state in which the callback of a job that was not closed returns, the goroutine, the registrar's
  \<open>close\<close> and the goroutine again lead to a send on a closed channel.\<close>

theorem close_races_with_send:
  assumes "jc_run jc" "k < length (jc_jobs jc)" "jb_phase (jc_jobs jc ! k) = InCallback"
    and "\<not> jb_closed (jc_jobs jc ! k)"
  shows "jc_run (send_outcome k (close_chans k (check_closed k (return_cb e k jc))))
    \<and> jb_phase (jc_jobs (send_outcome k (close_chans k (check_closed k (return_cb e k jc)))) ! k) = Crashed"
proof -
  have "jc_run (check_closed k (return_cb e k jc))" by (rule jc_run_path[OF assms(1-3)])
  then have "jc_run (send_outcome k (close_chans k (check_closed k (return_cb e k jc))))"
    using assms(2) by (intro jc_run.send jc_run.closing) (simp_all add: check_closed_def return_cb_def close_chans_def)
  moreover have "jb_phase (jc_jobs (send_outcome k (close_chans k (check_closed k (return_cb e k jc)))) ! k) = Crashed"
    using assms(2,4) by (simp add: send_outcome_def close_chans_def check_closed_def return_cb_def upd_nth)
  ultimately show ?thesis by blast
qed

theorem close_races_with_send_witness:
  "jb_phase (jc_jobs (send_outcome 0 (close_chans 0 (check_closed 0 (return_cb (Some ''canceled'') 0
     (snd (insert_job ''backup:1'' NewJobCtx)))))) ! 0) = Crashed"
proof -
  have "jc_run (snd (insert_job ''backup:1'' NewJobCtx))" by (rule jc_run.insert[OF jc_run.init])
  then show ?thesis
    by (rule close_races_with_send[THEN conjunct2]) (simp_all add: insert_job_def NewJobCtx_def Let_def)
qed

text \<open>A job that was de-registered unregisters its successor. It reports its key when it ends; if the
  key was registered again meanwhile, the scavenger deletes the key of the new job, which still runs, so
  that a third job can be registered beside it.\<close>

theorem stale_report_unregisters:
  assumes run: "jc_run jc" and m: "jc_map jc i = Some k" "jc_scav jc = None"
    and p: "jb_phase (jc_jobs jc ! k) = InCallback"
    and d: "jc1 = snd (DeRegister i jc)" and r: "RegisterJob i jc1 = ((k2, fresh), jc2)"
    and e: "jc3 = scavenge (report k (check_closed k (return_cb err k jc2)))"
  shows "fresh \<and> k2 \<noteq> k \<and> jb_phase (jc_jobs jc3 ! k2) = InCallback \<and> \<not> jb_cancelled (jc_jobs jc3 ! k2)
    \<and> GetJobCtx i jc3 = None \<and> snd (fst (RegisterJob i jc3))"
proof -
  have k: "k < length (jc_jobs jc)" "jb_id (jc_jobs jc ! k) = i"
    using jc_run_inv[OF run] m(1) by (simp_all add: jc_inv_def)
  have 1: "jc1 = del_key i (close_job k jc)" using d m(1) by (simp add: DeRegister_def GetJobCtx_def)
  then have j1: "length (jc_jobs jc1) = length (jc_jobs jc)" "jc_map jc1 i = None"
    "jb_id (jc_jobs jc1 ! k) = i" "jb_closed (jc_jobs jc1 ! k)"
    using k by (simp_all add: del_key_def close_job_def set_closed_def close_chans_def upd_nth)
  have 2: "(k2, jc2) = insert_job i jc1" "fresh"
    using r j1(2) by (auto simp: RegisterJob_def GetJobCtx_def split: prod.splits)
  then have j2: "k2 = length (jc_jobs jc)" "length (jc_jobs jc2) = Suc (length (jc_jobs jc))"
    "jc_jobs jc2 ! k = jc_jobs jc1 ! k" "jb_phase (jc_jobs jc2 ! k2) = InCallback"
    "\<not> jb_cancelled (jc_jobs jc2 ! k2)"
    using j1(1) k(1) by (auto simp: insert_job_def Let_def nth_append)
  have j3: "jb_id (jc_jobs (check_closed k (return_cb err k jc2)) ! k) = i"
    using j2(2,3) j1(3) k(1) by (simp add: check_closed_def return_cb_def upd_nth)
  have "jc_map jc3 i = None" unfolding e by (simp add: scavenge_def report_def j3 del_key_def)
  moreover have "jc_jobs jc3 ! k2 = jc_jobs jc2 ! k2"
    using j2(1,2) k(1) by (simp add: e scavenge_def report_def del_key_def check_closed_def return_cb_def upd_nth
        split: option.split)
  ultimately show ?thesis using j2 2(2) k(1)
    by (auto simp: GetJobCtx_def RegisterJob_def split: prod.split)
qed

theorem stale_report_unregisters_witness:
  "GetJobCtx ''backup:1'' (scavenge (report 0 (check_closed 0 (return_cb (Some ''canceled'') 0
     (snd (RegisterJob ''backup:1'' (snd (DeRegister ''backup:1'' (snd (insert_job ''backup:1'' NewJobCtx))))))))))
    = None"
proof -
  let ?s = "snd (insert_job ''backup:1'' NewJobCtx)"
  let ?s1 = "snd (DeRegister ''backup:1'' ?s)"
  have run: "jc_run ?s" by (rule jc_run.insert[OF jc_run.init])
  have m: "jc_map ?s ''backup:1'' = Some 0" "jc_scav ?s = None" "jb_phase (jc_jobs ?s ! 0) = InCallback"
    by (simp_all add: insert_job_def NewJobCtx_def Let_def)
  obtain k2 f s2 where r: "RegisterJob ''backup:1'' ?s1 = ((k2, f), s2)" by (metis surj_pair)
  show ?thesis using stale_report_unregisters[OF run m refl r refl] r by auto
qed

end
