(* ===== verification/DefaultProvider.thy ===== *)
theory DefaultProvider
  imports KopiaJobs JobCtx
begin

text \<open>
  \<open>DefaultBackupProvider\<close> of \<open>internal/backup/default_provider.go\<close>: the kopia provider wrapped with the
  job registry, the throttles and the statistics. A call of \<open>BackupFile\<close> or \<open>RestoreFile\<close> has two parts:
  up to the lock (\<open>backup_enter\<close>, \<open>backup_resume\<close>), and from the lock to the return (\<open>backup_run\<close>). In
  the second part the outcome of the \<open>select\<close> is an argument: the job's own result, or the end of one of
  the two contexts while the callback is still running.
\<close>

section \<open>State\<close>

record ('k, 'b, 'r) dprov =
  dp_k :: "'k kprov"
  dp_w :: "('b, 'r) bworld"
  dp_jobs :: JobCtx
  dp_b :: "(Request, ('b, 'r) bworld) throttle"
  dp_r :: "(RestoreRequest, ('b, 'r) bworld) throttle"
  dp_throttled :: bool       \<comment> \<open>\<open>EnableThrottle\<close>\<close>
  dp_term :: bool
  dp_don_closed :: bool

text \<open>The throttles work on the store and on the statistics of the delegate.\<close>

definition on_b :: "((Request, ('b, 'r) bworld) throttle \<Rightarrow> 'a \<times> (Request, ('b, 'r) bworld) throttle) \<Rightarrow>
    ('k, 'b, 'r) dprov \<Rightarrow> 'a \<times> ('k, 'b, 'r) dprov" where
  "on_b f d = (let (x, th) = f ((dp_b d)\<lparr>th_w := dp_w d, th_stat := kp_stat (dp_k d)\<rparr>)
     in (x, d\<lparr>dp_b := th, dp_w := th_w th, dp_k := (dp_k d)\<lparr>kp_stat := th_stat th\<rparr>\<rparr>))"

definition on_r :: "((RestoreRequest, ('b, 'r) bworld) throttle \<Rightarrow> 'a \<times> (RestoreRequest, ('b, 'r) bworld) throttle) \<Rightarrow>
    ('k, 'b, 'r) dprov \<Rightarrow> 'a \<times> ('k, 'b, 'r) dprov" where
  "on_r f d = (let (x, th) = f ((dp_r d)\<lparr>th_w := dp_w d, th_stat := kp_stat (dp_k d)\<rparr>)
     in (x, d\<lparr>dp_r := th, dp_w := th_w th, dp_k := (dp_k d)\<lparr>kp_stat := th_stat th\<rparr>\<rparr>))"

definition on_stat :: "(RepoStat \<Rightarrow> RepoStat) \<Rightarrow> ('k, 'b, 'r) dprov \<Rightarrow> ('k, 'b, 'r) dprov" where
  "on_stat f d = d\<lparr>dp_k := (dp_k d)\<lparr>kp_stat := f (kp_stat (dp_k d))\<rparr>\<rparr>"

definition backupKey :: "int \<Rightarrow> string" where "backupKey b = ''backup:'' @ show_int b"
definition restoreKey :: "int \<Rightarrow> string" where "restoreKey r = ''restore:'' @ show_int r"

section \<open>BackupFile\<close>

text \<open>The call returns with an error, waits, or goes on with the lock; \<open>over\<close> says that its context is
  done.\<close>

datatype enter_res = ERet kerr | EWait | EGo

definition lock_out :: "string \<Rightarrow> lock_res \<Rightarrow> enter_res" where
  "lock_out msg r = (case r of Locked \<Rightarrow> EGo | Refused \<Rightarrow> ERet (EExt msg) | MustWait \<Rightarrow> EWait)"

definition backup_enter :: "'b btab \<Rightarrow> int \<Rightarrow> bool \<Rightarrow> Request \<Rightarrow> ('k, 'b, 'r) dprov \<Rightarrow>
    enter_res \<times> ('k, 'b, 'r) dprov" where
  "backup_enter TB now over req d =
     (if GetJobCtx (backupKey (rq_ID req)) (dp_jobs d) \<noteq> None then (ERet EJobProcessing, d)
      else if dp_throttled d then
        (case on_b (tryLock_enter (backup_ops TB now (err_text ECanceled)) over req) d of
           (r, d1) \<Rightarrow> (lock_out ''err accquering lock to backup'' r, d1))
      else (EGo, d))"

definition backup_resume :: "'b btab \<Rightarrow> int \<Rightarrow> bool \<Rightarrow> Request \<Rightarrow> ('k, 'b, 'r) dprov \<Rightarrow>
    enter_res \<times> ('k, 'b, 'r) dprov" where
  "backup_resume TB now over req d =
     (case on_b (tryLock_resume (backup_ops TB now (err_text ECanceled)) over req) d of
        (r, d1) \<Rightarrow> (lock_out ''err accquering lock to backup'' r, d1))"

datatype select_res = SelDone | SelCtx kerr

text \<open>\<open>haveWait\<close> says whether the call has waited for the lock. When a context ends first, the callback is
  cancelled: it has begun, and what it still does is not part of the call. A panic of the callback ends
  the process. The key is free here unless a second call with the same id passed its check before this
  one registered.\<close>

definition backup_run :: "'k kopia_ops \<Rightarrow> 'k job_ops \<Rightarrow> 'b btab \<Rightarrow> 'r rtab \<Rightarrow> ('k kprov \<Rightarrow> 'k kprov) list \<Rightarrow>
    int \<Rightarrow> int \<Rightarrow> select_res \<Rightarrow> bool \<Rightarrow> Request \<Rightarrow> ('k, 'b, 'r) dprov \<Rightarrow>
    (SnapshotInfo option \<times> kerr option) jout \<times> ('k, 'b, 'r) dprov" where
  "backup_run X J TB TR env t0 t1 sel haveWait req d =
     (case RegisterJob (backupKey (rq_ID req)) (dp_jobs d) of
       ((k, _), jobs) \<Rightarrow>
        (let d1 = on_stat (if haveWait then P2RBackups else IncRunningBackups) (d\<lparr>dp_jobs := jobs\<rparr>);
             unlk = (\<lambda>d'. if dp_throttled d then snd (on_b (\<lambda>th. ((), unlock req th)) d') else d');
             leave = (\<lambda>e d'. unlk (on_stat (if e = None then R2SBackups else R2FBackups)
                        (d'\<lparr>dp_jobs := close_job k (dp_jobs d')\<rparr>)))
         in case sel of
              SelCtx e \<Rightarrow> (JRet (None, Some e), leave (Some e) d1)
            | SelDone \<Rightarrow>
               (case BackupFile X J (DefaultBackupHook TB TR) env t0 t1 req (dp_k d1) (dp_w d1) of
                  (JRet (si, e), p, w) \<Rightarrow>
                     (let d2 = d1\<lparr>dp_k := p, dp_w := w,
                            dp_jobs := send_outcome k (check_closed k (return_cb (map_option err_text e) k (dp_jobs d1)))\<rparr>
                      in (JRet (if e = None then si else None, e), leave e d2))
                | (JBlocked, p, w) \<Rightarrow> (JBlocked, d1\<lparr>dp_k := p, dp_w := w\<rparr>)
                | (JPanic m, p, w) \<Rightarrow> (JPanic m, d1\<lparr>dp_k := p, dp_w := w\<rparr>))))"

section \<open>RestoreFile\<close>

text \<open>A restore whose job is registered already returns without an error.\<close>

datatype renter_res = RRet "kerr option" | RWait | RGo

definition rlock_out :: "string \<Rightarrow> lock_res \<Rightarrow> renter_res" where
  "rlock_out msg r = (case r of Locked \<Rightarrow> RGo | Refused \<Rightarrow> RRet (Some (EExt msg)) | MustWait \<Rightarrow> RWait)"

definition restore_enter :: "'b btab \<Rightarrow> 'r rtab \<Rightarrow> int \<Rightarrow> bool \<Rightarrow> RestoreRequest \<Rightarrow> ('k, 'b, 'r) dprov \<Rightarrow>
    renter_res \<times> ('k, 'b, 'r) dprov" where
  "restore_enter TB TR now over q d =
     (if GetJobCtx (restoreKey (rr_RestoreID q)) (dp_jobs d) \<noteq> None then (RRet None, d)
      else if dp_throttled d then
        (case on_r (tryLock_enter (restore_ops TB TR now (err_text ECanceled)) over q) d of
           (r, d1) \<Rightarrow> (rlock_out ''err accquering lock to restore'' r, d1))
      else (RGo, d))"

definition restore_resume :: "'b btab \<Rightarrow> 'r rtab \<Rightarrow> int \<Rightarrow> bool \<Rightarrow> RestoreRequest \<Rightarrow> ('k, 'b, 'r) dprov \<Rightarrow>
    renter_res \<times> ('k, 'b, 'r) dprov" where
  "restore_resume TB TR now over q d =
     (case on_r (tryLock_resume (restore_ops TB TR now (err_text ECanceled)) over q) d of
        (r, d1) \<Rightarrow> (rlock_out ''err accquering lock to restore'' r, d1))"

definition restore_run :: "'k kopia_ops \<Rightarrow> 'k job_ops \<Rightarrow> 'b btab \<Rightarrow> 'r rtab \<Rightarrow> ('k kprov \<Rightarrow> 'k kprov) list \<Rightarrow>
    int \<Rightarrow> int \<Rightarrow> select_res \<Rightarrow> bool \<Rightarrow> RestoreRequest \<Rightarrow> ('k, 'b, 'r) dprov \<Rightarrow>
    kerr option jout \<times> ('k, 'b, 'r) dprov" where
  "restore_run X J TB TR env t0 t1 sel haveWait q d =
     (case RegisterJob (restoreKey (rr_RestoreID q)) (dp_jobs d) of
       ((k, _), jobs) \<Rightarrow>
        (let d1 = on_stat (if haveWait then P2RRestores else IncRunningRestores) (d\<lparr>dp_jobs := jobs\<rparr>);
             unlk = (\<lambda>d'. if dp_throttled d then snd (on_r (\<lambda>th. ((), unlock q th)) d') else d');
             leave = (\<lambda>e d'. unlk (on_stat (if e = None then R2SRestores else R2FRestores)
                        (d'\<lparr>dp_jobs := close_job k (dp_jobs d')\<rparr>)))
         in case sel of
              SelCtx e \<Rightarrow> (JRet (Some e), leave (Some e) d1)
            | SelDone \<Rightarrow>
               (case RestoreFile X J (DefaultBackupHook TB TR) env t0 t1 q (dp_k d1) (dp_w d1) of
                  (JRet e, p, w) \<Rightarrow>
                     (let d2 = d1\<lparr>dp_k := p, dp_w := w,
                            dp_jobs := send_outcome k (check_closed k (return_cb (map_option err_text e) k (dp_jobs d1)))\<rparr>
                      in (JRet e, leave e d2))
                | (JBlocked, p, w) \<Rightarrow> (JBlocked, d1\<lparr>dp_k := p, dp_w := w\<rparr>)
                | (JPanic m, p, w) \<Rightarrow> (JPanic m, d1\<lparr>dp_k := p, dp_w := w\<rparr>))))"

section \<open>Cancelling and deleting\<close>

definition CancelBackup :: "'b btab \<Rightarrow> int \<Rightarrow> ('k, 'b, 'r) dprov \<Rightarrow> kerr option \<times> ('k, 'b, 'r) dprov" where
  "CancelBackup TB b d = (case LoadBackup TB b (dp_w d) of
     Inl e \<Rightarrow> (Some (store_err e), d)
   | Inr _ \<Rightarrow> (None, d\<lparr>dp_jobs := snd (DeRegister (backupKey b) (dp_jobs d))\<rparr>))"

definition CancelRestore :: "'r rtab \<Rightarrow> int \<Rightarrow> ('k, 'b, 'r) dprov \<Rightarrow> kerr option \<times> ('k, 'b, 'r) dprov" where
  "CancelRestore TR r d = (case LoadRestore TR r (dp_w d) of
     Inl e \<Rightarrow> (Some (store_err e), d)
   | Inr _ \<Rightarrow> (None, d\<lparr>dp_jobs := snd (DeRegister (restoreKey r) (dp_jobs d))\<rparr>))"

text \<open>A loop that stops at the first error.\<close>

fun each :: "('a \<Rightarrow> 's \<Rightarrow> kerr option \<times> 's) \<Rightarrow> 'a list \<Rightarrow> 's \<Rightarrow> kerr option \<times> 's" where
  "each f [] s = (None, s)"
| "each f (x # xs) s = (case f x s of (Some e, s1) \<Rightarrow> (Some e, s1) | (None, s1) \<Rightarrow> each f xs s1)"

definition settle_backup :: "'b btab \<Rightarrow> int \<Rightarrow> BackupItem \<Rightarrow> ('k, 'b, 'r) dprov \<Rightarrow>
    kerr option \<times> ('k, 'b, 'r) dprov" where
  "settle_backup TB now item d = (case lift_err (DoneBackup TB now (bi_id item) emptyDetail BackupCancel
     ''canceled passive'' (dp_w d)) of (e, w) \<Rightarrow> (e, d\<lparr>dp_w := w\<rparr>))"

definition settle_restore :: "'r rtab \<Rightarrow> int \<Rightarrow> RestoreItem \<Rightarrow> ('k, 'b, 'r) dprov \<Rightarrow>
    kerr option \<times> ('k, 'b, 'r) dprov" where
  "settle_restore TR now item d = (case lift_err (DoneRestore TR now (ri_id item) 0 RestoreCancel
     ''canceled passive'' (dp_w d)) of (e, w) \<Rightarrow> (wrapErr ''failed to cancel restore'' e, d\<lparr>dp_w := w\<rparr>))"

text \<open>The records that are still running after their jobs were cancelled are settled directly. Between
  the two steps the cancelled jobs may run on: \<open>g\<close> is what they do.\<close>

definition CancelBackups :: "'b btab \<Rightarrow> int \<Rightarrow> (('k, 'b, 'r) dprov \<Rightarrow> ('k, 'b, 'r) dprov) \<Rightarrow>
    ('k, 'b, 'r) dprov \<Rightarrow> kerr option \<times> ('k, 'b, 'r) dprov" where
  "CancelBackups TB now g d = (case LoadBackups TB BackupRunning (dp_w d) of
     Inl e \<Rightarrow> (Some (EWrap ''failed to load backup items'' (store_err e)), d)
   | Inr items \<Rightarrow> (case each (\<lambda>i. CancelBackup TB (bi_id i)) items d of
       (Some e, d1) \<Rightarrow> (Some (EWrap ''failed to cancel backup'' e), d1)
     | (None, d1) \<Rightarrow> (let d2 = g d1;
           left = (case LoadBackups TB BackupRunning (dp_w d2) of Inr xs \<Rightarrow> xs | Inl _ \<Rightarrow> [])
         in each (settle_backup TB now) left d2)))"

definition CancelRestores :: "'r rtab \<Rightarrow> int \<Rightarrow> (('k, 'b, 'r) dprov \<Rightarrow> ('k, 'b, 'r) dprov) \<Rightarrow>
    ('k, 'b, 'r) dprov \<Rightarrow> kerr option \<times> ('k, 'b, 'r) dprov" where
  "CancelRestores TR now g d = (case LoadRestores TR RestoreRunning (dp_w d) of
     Inl e \<Rightarrow> (Some (EWrap ''failed to load restore items'' (store_err e)), d)
   | Inr items \<Rightarrow> (case each (\<lambda>i. CancelRestore TR (ri_id i)) items d of
       (Some e, d1) \<Rightarrow> (Some (EWrap ''failed to cancel restore'' e), d1)
     | (None, d1) \<Rightarrow> (let d2 = g d1;
           left = (case LoadRestores TR RestoreRunning (dp_w d2) of Inr xs \<Rightarrow> xs | Inl _ \<Rightarrow> [])
         in each (settle_restore TR now) left d2)))"

text \<open>\<open>DeleteBackup\<close>: an error of \<open>CancelBackup\<close> is logged only; at the end the jobs of the restores of
  the backup are de-registered.\<close>

definition DDeleteBackup :: "'k kopia_ops \<Rightarrow> 'k job_ops \<Rightarrow> 'b btab \<Rightarrow> 'r rtab \<Rightarrow> ('k kprov \<Rightarrow> 'k kprov) list \<Rightarrow>
    int \<Rightarrow> ('k, 'b, 'r) dprov \<Rightarrow> kerr option jout \<times> ('k, 'b, 'r) dprov" where
  "DDeleteBackup X J TB TR env b d =
     (let d1 = snd (CancelBackup TB b d)
      in case DeleteBackup X J (DefaultBackupHook TB TR) env b (dp_k d1) (dp_w d1) of
           (JRet None, p, w) \<Rightarrow>
             (let rs = (case LoadPendingOrRunningRestore TR b w of Inr xs \<Rightarrow> xs | Inl _ \<Rightarrow> [])
              in (JRet None, d1\<lparr>dp_k := p, dp_w := w,
                    dp_jobs := fold (\<lambda>r s. snd (DeRegister (restoreKey (ri_id r)) s)) rs (dp_jobs d1)\<rparr>))
         | (out, p, w) \<Rightarrow> (out, d1\<lparr>dp_k := p, dp_w := w\<rparr>))"

section \<open>Destroy, close, refresh\<close>

text \<open>The records are deleted by a deferred function, whatever happened before.\<close>

definition forget_records :: "'b btab \<Rightarrow> 'r rtab \<Rightarrow> ('k, 'b, 'r) dprov \<Rightarrow> ('k, 'b, 'r) dprov" where
  "forget_records TB TR d = d\<lparr>dp_w := snd (DeleteRestores TR (snd (DeleteBackups TB (dp_w d))))\<rparr>"

definition DDestroyBackendRepo :: "'k kopia_ops \<Rightarrow> 'b btab \<Rightarrow> 'r rtab \<Rightarrow> int \<Rightarrow>
    (('k, 'b, 'r) dprov \<Rightarrow> ('k, 'b, 'r) dprov) \<Rightarrow> ('k, 'b, 'r) dprov \<Rightarrow> kres \<times> ('k, 'b, 'r) dprov" where
  "DDestroyBackendRepo X TB TR now g d =
     (let d1 = snd (CancelBackups TB now g d);
          d2 = snd (CancelRestores TR now g d1)
      in case DestroyBackendRepo X (dp_k d2) of (r, p) \<Rightarrow> (r, forget_records TB TR (d2\<lparr>dp_k := p\<rparr>)))"

text \<open>\<open>Close\<close> waits for the goroutines of the jobs after the delegate is closed: \<open>gd\<close> is what they do
  until they are gone.\<close>

definition DClose :: "'k kopia_ops \<Rightarrow> 'b btab \<Rightarrow> 'r rtab \<Rightarrow> int \<Rightarrow>
    (('k, 'b, 'r) dprov \<Rightarrow> ('k, 'b, 'r) dprov) \<Rightarrow> (('k, 'b, 'r) dprov \<Rightarrow> ('k, 'b, 'r) dprov) \<Rightarrow>
    ('k, 'b, 'r) dprov \<Rightarrow> kres \<times> ('k, 'b, 'r) dprov" where
  "DClose X TB TR now g gd d =
     (if dp_term d then (KOk, d)
      else (let d1 = snd (CancelBackups TB now g d);
                d2 = snd (CancelRestores TR now g d1)
            in case Close X (dp_k d2) of
                 (KOk, p) \<Rightarrow>
                   (let d3 = gd (d2\<lparr>dp_k := p\<rparr>)
                    in if dp_don_closed d3 then (KPanic ''close of closed channel'', d3)
                       else (KOk, d3\<lparr>dp_jobs := (dp_jobs d3)\<lparr>jc_closed := True\<rparr>, dp_don_closed := True,
                                     dp_term := True\<rparr>))
               | (r, p) \<Rightarrow> (r, d2\<lparr>dp_k := p\<rparr>)))"

definition DOnRefresh :: "'k kopia_ops \<Rightarrow> LocationType \<Rightarrow> string \<Rightarrow> bool \<Rightarrow> int \<Rightarrow> int \<Rightarrow>
    ('k, 'b, 'r) dprov \<Rightarrow> kres \<times> ('k, 'b, 'r) dprov" where
  "DOnRefresh X ty pfx throttled mb mr d =
     (let d1 = d\<lparr>dp_term := False, dp_throttled := throttled, dp_don_closed := False,
                 dp_jobs := (if jc_closed (dp_jobs d) then NewJobCtx else dp_jobs d)\<rparr>;
          d2 = d1\<lparr>dp_b := setMaxParallel mb (dp_b d1), dp_r := setMaxParallel mr (dp_r d1)\<rparr>
      in case OnRefresh X ty pfx (dp_k d2) of (r, p) \<Rightarrow> (r, d2\<lparr>dp_k := p\<rparr>))"

section \<open>Accounting of a backup call\<close>

lemma CreateSnapshot_stat: "CreateSnapshot X J path tags p = (c, p') \<Longrightarrow> kp_stat p' = kp_stat p"
  by (auto simp: CreateSnapshot_def split: prod.splits option.splits sum.splits dest!: OpenRepository_spec)

lemma BackupFile_stat:
  assumes "BackupFile X J H [] t0 t1 req p w = (out, p', w')"
  shows "kp_stat p' = kp_stat p"
proof -
  obtain e w1 where e: "ho_backupStart H t0 req w = (e, w1)" by fastforce
  obtain l p1 where l: "lockUntil X [] p = (l, p1)" by fastforce
  obtain c p2 where c: "CreateSnapshot X J (rq_Path req) (backup_tags req) p1 = (c, p2)" by fastforce
  have "kp_stat p1 = kp_stat p" using lockUntil_stat[OF _ l] by simp
  moreover have "kp_stat p2 = kp_stat p1" by (rule CreateSnapshot_stat[OF c])
  moreover have "p' = p \<or> p' = p1 \<or> p' = p2"
    using assms e l c by (auto simp: BackupFile_def Let_def split: option.splits kres.splits sum.splits prod.splits)
  ultimately show ?thesis by auto
qed

text \<open>What the call leaves behind on its way out.\<close>

definition left_by :: "('k, 'b, 'r) dprov \<Rightarrow> kerr option \<Rightarrow> ('k, 'b, 'r) dprov \<Rightarrow> bool" where
  "left_by d e d' \<longleftrightarrow>
     kp_stat (dp_k d') = (if e = None then R2SBackups else R2FBackups) (IncRunningBackups (kp_stat (dp_k d)))
   \<and> (dp_throttled d \<longrightarrow> th_cur (dp_b d') = th_cur (dp_b d) - 1
        \<and> th_woken (dp_b d') = th_woken (dp_b d) @ take 1 (th_wait (dp_b d))
        \<and> th_wait (dp_b d') = drop 1 (th_wait (dp_b d)))
   \<and> (\<not> dp_throttled d \<longrightarrow> dp_b d' = dp_b d) \<and> dp_r d' = dp_r d"

lemma backup_run_left:
  assumes run: "backup_run X J TB TR [] t0 t1 sel False req d = (JRet (si, e), d')"
  shows "left_by d e d' \<and> (sel = SelDone \<longrightarrow> (\<exists>so p. BackupFile X J (DefaultBackupHook TB TR) [] t0 t1 req
      ((dp_k d)\<lparr>kp_stat := IncRunningBackups (kp_stat (dp_k d))\<rparr>) (dp_w d) = (JRet (so, e), p, dp_w d')
        \<and> si = (if e = None then so else None)))"
proof -
  obtain k f jobs where k: "RegisterJob (backupKey (rq_ID req)) (dp_jobs d) = ((k, f), jobs)" by (metis surj_pair)
  let ?p0 = "(dp_k d)\<lparr>kp_stat := IncRunningBackups (kp_stat (dp_k d))\<rparr>"
  show ?thesis
  proof (cases sel)
    case (SelCtx e')
    then show ?thesis using run k
      by (auto simp: backup_run_def Let_def on_stat_def on_b_def unlock_def left_by_def)
  next
    case SelDone
    obtain out p w where o: "BackupFile X J (DefaultBackupHook TB TR) [] t0 t1 req ?p0 (dp_w d) = (out, p, w)"
      by (metis surj_pair)
    have st: "kp_stat p = IncRunningBackups (kp_stat (dp_k d))" using BackupFile_stat[OF o] by simp
    obtain so e2 where out: "out = JRet (so, e2)"
      using run SelDone k o by (cases out) (auto simp: backup_run_def Let_def on_stat_def)
    show ?thesis using run SelDone k o st unfolding out
      by (auto simp: backup_run_def Let_def on_stat_def on_b_def unlock_def left_by_def)
  qed
qed


definition toy_bth :: "(Request, (BackupItem list, RestoreItem list) bworld) throttle" where
  "toy_bth = \<lparr>th_cur = 0, th_max = 2, th_wait = [], th_woken = [], th_held = [], th_stat = emptyStat,
     th_w = toy_world\<rparr>"

definition toy_d :: "(toy, BackupItem list, RestoreItem list) dprov" where
  "toy_d = \<lparr>dp_k = toy_running, dp_w = toy_world, dp_jobs = NewJobCtx, dp_b = toy_bth, dp_r = toy_full,
     dp_throttled = True, dp_term = False, dp_don_closed = False\<rparr>"


text \<open>Two backups of the same path can run at the same time. \<open>tryLockBackup\<close> looks for a pending or
  running backup of the path, but a call that gets the lock at once records nothing; the running record
  is written later, by the hook. A second request for the path with another id gets the lock as well.\<close>

theorem same_path_admitted_twice:
  assumes e: "backup_enter TB now False q1 d = (EGo, d1)" and t: "dp_throttled d"
    and slots: "th_cur (dp_b d) + 1 < th_max (dp_b d)"
    and q: "rq_Path q2 = rq_Path q1" "GetJobCtx (backupKey (rq_ID q2)) (dp_jobs d) = None"
  shows "\<exists>d2. backup_enter TB now False q2 d1 = (EGo, d2) \<and> dp_w d2 = dp_w d
    \<and> th_cur (dp_b d2) = th_cur (dp_b d) + 2"
proof -
  let ?th = "(dp_b d)\<lparr>th_w := dp_w d, th_stat := kp_stat (dp_k d)\<rparr>"
  let ?ops = "backup_ops TB now (err_text ECanceled)"
  have nb: "\<not> lo_busy ?ops q1 (dp_w d)"
    using e t by (auto simp: backup_enter_def on_b_def tryLock_enter_def lock_out_def Let_def split: if_splits)
  have "tryLock_enter ?ops False q1 ?th = (Locked, ?th\<lparr>th_cur := th_cur (dp_b d) + 1, th_held := q1 # th_held (dp_b d)\<rparr>)"
    using nb slots by (simp add: tryLock_enter_def lock_round_def)
  then have d1: "dp_w d1 = dp_w d" "dp_jobs d1 = dp_jobs d" "dp_throttled d1" "kp_stat (dp_k d1) = kp_stat (dp_k d)"
    "th_cur (dp_b d1) = th_cur (dp_b d) + 1" "th_max (dp_b d1) = th_max (dp_b d)"
    using e t by (auto simp: backup_enter_def on_b_def split: if_splits)
  have nb2: "\<not> lo_busy ?ops q2 (dp_w d)" using nb q(1) by (simp add: backup_ops_def)
  show ?thesis using d1 slots q(2) nb2
    by (simp add: backup_enter_def on_b_def tryLock_enter_def lock_round_def lock_out_def Let_def)
qed

theorem same_path_admitted_twice_witness:
  "fst (backup_enter LB 4 False \<lparr>rq_ID = 2, rq_Path = ''/d'', rq_Username = ''bo''\<rparr>
     (snd (backup_enter LB 4 False (toy_req ''/d'') toy_d))) = EGo"
proof -
  have "fst (backup_enter LB 4 False (toy_req ''/d'') toy_d) = EGo" by code_simp
  then have e: "backup_enter LB 4 False (toy_req ''/d'') toy_d = (EGo, snd (backup_enter LB 4 False (toy_req ''/d'') toy_d))"
    by (simp add: prod_eq_iff)
  have t: "dp_throttled toy_d" and s: "th_cur (dp_b toy_d) + 1 < th_max (dp_b toy_d)"
    by (simp_all add: toy_d_def toy_bth_def)
  have g: "GetJobCtx (backupKey (rq_ID \<lparr>rq_ID = 2, rq_Path = ''/d'', rq_Username = ''bo''\<rparr>)) (dp_jobs toy_d) = None"
    by (simp add: toy_d_def NewJobCtx_def GetJobCtx_def)
  have p: "rq_Path \<lparr>rq_ID = 2, rq_Path = ''/d'', rq_Username = ''bo''\<rparr> = rq_Path (toy_req ''/d'')"
    by (simp add: toy_req_def)
  show ?thesis using same_path_admitted_twice[OF e t s p g] by auto
qed

section \<open>Cancelling everything\<close>

definition store_ok :: "'b btab \<Rightarrow> 'r rtab \<Rightarrow> ('b, 'r) bworld \<Rightarrow> bool" where
  "store_ok TB TR w \<longleftrightarrow> bw_inv TB TR w \<and> (\<forall>x\<in>set (rows TB (bw_b w)). bi_id x \<noteq> 0)
     \<and> (\<forall>x\<in>set (rows TR (bw_r w)). ri_id x \<noteq> 0)"

lemma LoadBackups_rows: "table_ok TB backup_schema \<Longrightarrow>
    LoadBackups TB st w = Inr (filter (\<lambda>x. bi_state x = st) (rows TB (bw_b w)))"
  by (simp add: LoadBackups_def table_okD(1))

lemma LoadRestores_rows: "table_ok TR restore_schema \<Longrightarrow>
    LoadRestores TR st w = Inr (filter (\<lambda>x. ri_state x = st) (rows TR (bw_r w)))"
  by (simp add: LoadRestores_def table_okD(1))

lemma each_CancelBackup:
  assumes TB: "table_ok TB backup_schema"
  shows "\<forall>x\<in>set xs. x \<in> set (rows TB (bw_b (dp_w d))) \<and> bi_id x \<noteq> 0 \<Longrightarrow>
    \<exists>jobs. each (\<lambda>i. CancelBackup TB (bi_id i)) xs d = (None, d\<lparr>dp_jobs := jobs\<rparr>)"
proof (induction xs arbitrary: d)
  case Nil
  show ?case by (rule exI[of _ "dp_jobs d"]) simp
next
  case (Cons x xs)
  then have "bview TB (dp_w d) (bi_id x) \<noteq> None" using view_None(1)[of TB "dp_w d" "bi_id x"] by auto
  then obtain y where "LoadBackup TB (bi_id x) (dp_w d) = Inr y"
    using Cons.prems by (auto simp: LoadBackup_view[OF TB])
  then have c: "CancelBackup TB (bi_id x) d = (None, d\<lparr>dp_jobs := snd (DeRegister (backupKey (bi_id x)) (dp_jobs d))\<rparr>)"
    by (simp add: CancelBackup_def)
  show ?case using Cons.IH[of "d\<lparr>dp_jobs := snd (DeRegister (backupKey (bi_id x)) (dp_jobs d))\<rparr>"] Cons.prems c
    by auto
qed

lemma each_settle_backup:
  assumes TB: "table_ok TB backup_schema"
  shows "bw_inv TB TR (dp_w d) \<Longrightarrow> \<forall>x\<in>set xs. bi_id x \<noteq> 0 \<Longrightarrow>
    \<exists>t. each (settle_backup TB now) xs d = (None, d\<lparr>dp_w := (dp_w d)\<lparr>bw_b := t\<rparr>\<rparr>)
      \<and> bw_inv TB TR ((dp_w d)\<lparr>bw_b := t\<rparr>)
      \<and> (\<forall>j. \<forall>y. bview TB ((dp_w d)\<lparr>bw_b := t\<rparr>) j = Some y \<longrightarrow>
           (if j \<in> bi_id ` set xs then bi_state y = BackupCancel else bview TB (dp_w d) j = Some y))"
proof (induction xs arbitrary: d)
  case Nil
  show ?case by (rule exI[of _ "bw_b (dp_w d)"]) (use Nil in auto)
next
  case (Cons x xs)
  have x0: "bi_id x \<noteq> 0" using Cons.prems(2) by simp
  obtain t where t: "DoneBackup TB now (bi_id x) emptyDetail BackupCancel ''canceled passive'' (dp_w d)
      = (None, (dp_w d)\<lparr>bw_b := t\<rparr>)" "bw_inv TB TR ((dp_w d)\<lparr>bw_b := t\<rparr>)"
    "\<And>j. bview TB ((dp_w d)\<lparr>bw_b := t\<rparr>) j = (if j = bi_id x then map_option (done_update now emptyDetail
        BackupCancel ''canceled passive'') (bview TB (dp_w d) j) else bview TB (dp_w d) j)"
    by (rule DoneBackup_view[OF TB Cons.prems(1) x0, where now = now and d = emptyDetail and st = BackupCancel
          and extra = "''canceled passive''"]) (rule that)
  let ?d1 = "d\<lparr>dp_w := (dp_w d)\<lparr>bw_b := t\<rparr>\<rparr>"
  have s: "settle_backup TB now x d = (None, ?d1)" using t(1) by (simp add: settle_backup_def lift_err_def)
  obtain u where u: "each (settle_backup TB now) xs ?d1 = (None, ?d1\<lparr>dp_w := (dp_w ?d1)\<lparr>bw_b := u\<rparr>\<rparr>)"
    "bw_inv TB TR ((dp_w ?d1)\<lparr>bw_b := u\<rparr>)"
    "\<forall>j. \<forall>y. bview TB ((dp_w ?d1)\<lparr>bw_b := u\<rparr>) j = Some y \<longrightarrow>
           (if j \<in> bi_id ` set xs then bi_state y = BackupCancel else bview TB (dp_w ?d1) j = Some y)"
    using Cons.IH[of ?d1] t(2) Cons.prems(2) by auto
  have w: "(dp_w ?d1)\<lparr>bw_b := u\<rparr> = (dp_w d)\<lparr>bw_b := u\<rparr>" by simp
  have "\<forall>j. \<forall>y. bview TB ((dp_w d)\<lparr>bw_b := u\<rparr>) j = Some y \<longrightarrow>
      (if j \<in> bi_id ` set (x # xs) then bi_state y = BackupCancel else bview TB (dp_w d) j = Some y)"
  proof (intro allI impI)
    fix j y assume y: "bview TB ((dp_w d)\<lparr>bw_b := u\<rparr>) j = Some y"
    have b: "if j \<in> bi_id ` set xs then bi_state y = BackupCancel else bview TB ((dp_w d)\<lparr>bw_b := t\<rparr>) j = Some y"
      using u(3)[unfolded w, rule_format, OF y] by (simp split: if_splits)
    show "if j \<in> bi_id ` set (x # xs) then bi_state y = BackupCancel else bview TB (dp_w d) j = Some y"
      using b t(3)[of j] by (cases "bview TB (dp_w d) j") (auto simp: done_update_def split: if_splits)
  qed
  then show ?case using s u(1,2) by (intro exI[of _ u]) simp
qed

text \<open>\<open>CancelBackups\<close> leaves nothing running. Whatever the cancelled jobs still do to the store in
  between, as long as it stays well-formed, the call succeeds and then no record is in state running:
  each is in a state that its job has given it, or cancelled.\<close>

theorem CancelBackups_none_running:
  assumes TB: "table_ok TB backup_schema" and d: "store_ok TB TR (dp_w d)"
    and g: "\<And>t. store_ok TB TR (dp_w t) \<Longrightarrow> store_ok TB TR (dp_w (g t))"
  shows "fst (CancelBackups TB now g d) = None
    \<and> bw_inv TB TR (dp_w (snd (CancelBackups TB now g d)))
    \<and> (\<forall>j y. bview TB (dp_w (snd (CancelBackups TB now g d))) j = Some y \<longrightarrow> bi_state y \<noteq> BackupRunning)"
proof -
  let ?items = "filter (\<lambda>x. bi_state x = BackupRunning) (rows TB (bw_b (dp_w d)))"
  have "\<forall>x\<in>set ?items. x \<in> set (rows TB (bw_b (dp_w d))) \<and> bi_id x \<noteq> 0" using d by (simp add: store_ok_def)
  then obtain jobs where c: "each (\<lambda>i. CancelBackup TB (bi_id i)) ?items d = (None, d\<lparr>dp_jobs := jobs\<rparr>)"
    using each_CancelBackup[OF TB] by blast
  let ?d2 = "g (d\<lparr>dp_jobs := jobs\<rparr>)"
  have d2: "store_ok TB TR (dp_w ?d2)" by (rule g) (use d in simp)
  let ?left = "filter (\<lambda>x. bi_state x = BackupRunning) (rows TB (bw_b (dp_w ?d2)))"
  have l: "bw_inv TB TR (dp_w ?d2)" "\<forall>x\<in>set ?left. bi_id x \<noteq> 0" using d2 by (auto simp: store_ok_def)
  obtain t where t: "each (settle_backup TB now) ?left ?d2 = (None, ?d2\<lparr>dp_w := (dp_w ?d2)\<lparr>bw_b := t\<rparr>\<rparr>)"
    "bw_inv TB TR ((dp_w ?d2)\<lparr>bw_b := t\<rparr>)"
    "\<forall>j. \<forall>y. bview TB ((dp_w ?d2)\<lparr>bw_b := t\<rparr>) j = Some y \<longrightarrow>
           (if j \<in> bi_id ` set ?left then bi_state y = BackupCancel else bview TB (dp_w ?d2) j = Some y)"
    using each_settle_backup[OF TB l] by blast
  have r: "CancelBackups TB now g d = (None, ?d2\<lparr>dp_w := (dp_w ?d2)\<lparr>bw_b := t\<rparr>\<rparr>)"
    using c t(1) by (simp add: CancelBackups_def LoadBackups_rows[OF TB] Let_def)
  have "bi_state y \<noteq> BackupRunning" if y: "bview TB ((dp_w ?d2)\<lparr>bw_b := t\<rparr>) j = Some y" for j y
  proof (cases "j \<in> bi_id ` set ?left")
    case True
    then show ?thesis using t(3) y by simp
  next
    case False
    then have b: "bview TB (dp_w ?d2) j = Some y" using t(3) y by simp
    then have "y \<in> set (rows TB (bw_b (dp_w ?d2)))" "bi_id y = j" by (auto simp: bview_def find_Some_iff)
    then show ?thesis using False by auto
  qed
  then show ?thesis using r t(2) by simp
qed

definition toy_dr :: "(toy, BackupItem list, RestoreItem list) dprov" where
  "toy_dr = toy_d\<lparr>dp_w := snd (NewBackup LB 5 8 ''/d'' ''al'' None toy_world)\<rparr>"

theorem CancelBackups_none_running_witness:
  "map bi_state (bw_b (dp_w toy_dr)) = [BackupRunning]
   \<and> fst (CancelBackups LB 7 (\<lambda>t. t) toy_dr) = None
   \<and> (case bview LB (dp_w (snd (CancelBackups LB 7 (\<lambda>t. t) toy_dr))) 8 of
        Some y \<Rightarrow> bi_state y \<noteq> BackupRunning | None \<Rightarrow> False)"
proof -
  have i: "bw_inv LB LR (dp_w toy_dr)"
  proof -
    obtain t where "NewBackup LB 5 8 ''/d'' ''al'' None toy_world = (None, toy_world\<lparr>bw_b := t\<rparr>)"
      "bw_inv LB LR (toy_world\<lparr>bw_b := t\<rparr>)"
      using NewBackup_rows[OF list_table_ok toy_world_inv] by blast
    then show ?thesis by (simp add: toy_dr_def)
  qed
  have r: "map bi_id (bw_b (dp_w toy_dr)) = [8]" "bw_r (dp_w toy_dr) = []" by code_simp+
  then have d: "store_ok LB LR (dp_w toy_dr)" using i by (auto simp: store_ok_def map_eq_Cons_conv)
  note C = CancelBackups_none_running[OF list_table_ok d, where g = "\<lambda>t. t" and now = 7]
  have b: "(case bview LB (dp_w (snd (CancelBackups LB 7 (\<lambda>t. t) toy_dr))) 8 of Some y \<Rightarrow> True | None \<Rightarrow> False)"
    by code_simp
  have s: "map bi_state (bw_b (dp_w toy_dr)) = [BackupRunning]" by code_simp
  show ?thesis using C b s by (auto split: option.splits)
qed

lemma each_keeps:
  assumes "\<And>x t. h (snd (f x t)) = h t"
  shows "h (snd (each f xs s)) = h s"
proof (induction xs arbitrary: s)
  case (Cons x xs)
  then show ?case using assms[of x s] by (auto split: prod.split option.split)
qed simp

lemma CancelBackups_keeps_k:
  assumes "\<And>t. dp_k (g t) = dp_k t"
  shows "dp_k (snd (CancelBackups TB now g d)) = dp_k d"
proof -
  have c: "dp_k (snd (each (\<lambda>i. CancelBackup TB (bi_id i)) xs t)) = dp_k t" for xs t
    by (rule each_keeps) (simp add: CancelBackup_def split: sum.split)
  have s: "dp_k (snd (each (settle_backup TB now) xs t)) = dp_k t" for xs t
    by (rule each_keeps) (simp add: settle_backup_def split: prod.split)
  show ?thesis
  proof (cases "LoadBackups TB BackupRunning (dp_w d)")
    case (Inr items)
    then show ?thesis using c[of items d]
      by (auto simp: CancelBackups_def Let_def s assms split: prod.splits option.splits)
  qed (simp add: CancelBackups_def)
qed

lemma CancelRestores_keeps_k:
  assumes "\<And>t. dp_k (g t) = dp_k t"
  shows "dp_k (snd (CancelRestores TR now g d)) = dp_k d"
proof -
  have c: "dp_k (snd (each (\<lambda>i. CancelRestore TR (ri_id i)) xs t)) = dp_k t" for xs t
    by (rule each_keeps) (simp add: CancelRestore_def split: sum.split)
  have s: "dp_k (snd (each (settle_restore TR now) xs t)) = dp_k t" for xs t
    by (rule each_keeps) (simp add: settle_restore_def split: prod.split)
  show ?thesis
  proof (cases "LoadRestores TR RestoreRunning (dp_w d)")
    case (Inr items)
    then show ?thesis using c[of items d]
      by (auto simp: CancelRestores_def Let_def s assms split: prod.splits option.splits)
  qed (simp add: CancelRestores_def)
qed

text \<open>Destroying the repository forgets every record, even when nothing was destroyed. After
  \<open>DestroyBackendRepo\<close> both tables are empty whatever the result; a caller that is kept out by the destroy
  lock reports success and leaves the provider, with all its snapshots, as it was.\<close>

theorem destroy_forgets_records:
  assumes TB: "table_ok TB backup_schema" and TR: "table_ok TR restore_schema"
    and g: "\<And>t. dp_k (g t) = dp_k t" and r: "DDestroyBackendRepo X TB TR now g d = (r, d')"
  shows "rows TB (bw_b (dp_w d')) = [] \<and> rows TR (bw_r (dp_w d')) = []
    \<and> (\<forall>k. x_trylock X destroyLockFile (kp_k (dp_k d)) = (Inr False, k) \<longrightarrow> r = KOk \<and> dp_k d' = (dp_k d)\<lparr>kp_k := k\<rparr>)"
proof -
  let ?d2 = "snd (CancelRestores TR now g (snd (CancelBackups TB now g d)))"
  obtain q p where q: "DestroyBackendRepo X (dp_k ?d2) = (q, p)" by fastforce
  have rq: "r = q" "d' = forget_records TB TR (?d2\<lparr>dp_k := p\<rparr>)"
    using r q by (simp_all add: DDestroyBackendRepo_def Let_def)
  obtain tb where tb: "t_delete TB (\<lambda>_. True) (bw_b (dp_w ?d2)) = Some tb" "rows TB tb = []"
    using t_delete_rows[OF TB, of "\<lambda>_. True" "bw_b (dp_w ?d2)"] by auto
  obtain tr where tr: "t_delete TR (\<lambda>_. True) (bw_r (dp_w ?d2)) = Some tr" "rows TR tr = []"
    using t_delete_rows[OF TR, of "\<lambda>_. True" "bw_r (dp_w ?d2)"] by auto
  have w: "dp_w d' = (dp_w ?d2)\<lparr>bw_b := tb, bw_r := tr\<rparr>" "dp_k d' = p"
    using tb(1) tr(1) unfolding rq(2)
    by (simp_all add: forget_records_def DeleteBackups_def DeleteRestores_def exec_b_def exec_r_def)
  have k: "dp_k ?d2 = dp_k d" by (simp only: CancelRestores_keeps_k[OF g] CancelBackups_keeps_k[OF g])
  have "\<forall>k. x_trylock X destroyLockFile (kp_k (dp_k d)) = (Inr False, k) \<longrightarrow> r = KOk \<and> dp_k d' = (dp_k d)\<lparr>kp_k := k\<rparr>"
    using q unfolding k rq(1) w(2) by (auto simp: DestroyBackendRepo_def with_flock_def)
  then show ?thesis using w(1) tb(2) tr(2) by simp
qed

definition toy_held :: "(toy, BackupItem list, RestoreItem list) dprov" where
  "toy_held = toy_dr\<lparr>dp_k := (dp_k toy_dr)\<lparr>kp_k := (fst (kp_k (dp_k toy_dr)), True, [destroyLockFile])\<rparr>\<rparr>"

theorem destroy_forgets_records_witness:
  "bw_b (dp_w (snd (DDestroyBackendRepo toy_ops LB LR 7 (\<lambda>t. t) toy_held))) = []
   \<and> kp_state (dp_k (snd (DDestroyBackendRepo toy_ops LB LR 7 (\<lambda>t. t) toy_held))) = ProviderRunning"
proof -
  have s: "kp_state (dp_k (snd (DDestroyBackendRepo toy_ops LB LR 7 (\<lambda>t. t) toy_held))) = ProviderRunning"
    by code_simp
  have r: "DDestroyBackendRepo toy_ops LB LR 7 (\<lambda>t. t) toy_held
      = (fst (DDestroyBackendRepo toy_ops LB LR 7 (\<lambda>t. t) toy_held), snd (DDestroyBackendRepo toy_ops LB LR 7 (\<lambda>t. t) toy_held))"
    by simp
  show ?thesis using destroy_forgets_records[OF list_table_ok list_table_ok refl r] s by simp
qed

text \<open>Closing the default provider is safe to repeat. When \<open>Close\<close> has succeeded, every further \<open>Close\<close>
  is a no-op, also for a provider that was never started (where the delegate alone would panic); and the
  job registry is closed, so that the next refresh makes a new one.\<close>

theorem DClose_repeat:
  assumes c: "DClose X TB TR now g gd d = (KOk, d')" and gd: "\<And>t. dp_term (gd t) = dp_term t"
  shows "DClose X TB TR now' g' gd' d' = (KOk, d') \<and> (dp_term d \<and> d' = d \<or> dp_term d' \<and> jc_closed (dp_jobs d')
      \<and> dp_jobs (snd (DOnRefresh X ty pfx th mb mr d')) = NewJobCtx)"
proof (cases "dp_term d")
  case True
  then show ?thesis using c by (simp add: DClose_def)
next
  case False
  let ?d2 = "snd (CancelRestores TR now g (snd (CancelBackups TB now g d)))"
  obtain q p where q: "Close X (dp_k ?d2) = (q, p)" by fastforce
  have "q = KOk" using c False q by (cases q) (simp_all add: DClose_def Let_def)
  then have t: "dp_term d'" "jc_closed (dp_jobs d')" using c False q by (auto simp: DClose_def Let_def split: if_splits)
  have "DClose X TB TR now' g' gd' d' = (KOk, d')" using t(1) by (simp add: DClose_def)
  moreover have "dp_jobs (snd (DOnRefresh X ty pfx th mb mr d')) = NewJobCtx"
    using t(2) by (simp add: DOnRefresh_def Let_def split: prod.split)
  ultimately show ?thesis using t by blast
qed

theorem DClose_repeat_witness:
  "fst (DClose toy_ops LB LR 7 (\<lambda>t. t) (\<lambda>t. t) (toy_d\<lparr>dp_k := toy_new False\<rparr>)) = KOk
   \<and> fst (DClose toy_ops LB LR 8 (\<lambda>t. t) (\<lambda>t. t)
       (snd (DClose toy_ops LB LR 7 (\<lambda>t. t) (\<lambda>t. t) (toy_d\<lparr>dp_k := toy_new False\<rparr>)))) = KOk"
proof -
  let ?c = "DClose toy_ops LB LR 7 (\<lambda>t. t) (\<lambda>t. t) (toy_d\<lparr>dp_k := toy_new False\<rparr>)"
  have k: "fst ?c = KOk" by code_simp
  then have c: "?c = (KOk, snd ?c)" by (simp add: prod_eq_iff)
  show ?thesis using DClose_repeat[OF c refl, where now' = 8 and g' = "\<lambda>t. t" and gd' = "\<lambda>t. t"] k by simp
qed

end
