(* ===== verification/Usage.thy ===== *)
theory Usage
  imports Table
begin

text \<open>
  Usages that could not be reported: \<open>internal/storage/bill.go\<close> keeps them, the client of
  \<open>internal/billing/usage.go\<close> reports a usage or stores it, and \<open>scanFailedUsage\<close> of
  \<open>web/routers/server.go\<close> submits the stored ones again every hour. The billing service is the parameter
  \<open>put\<close> over a world of any type; the table is a parameter (theory \<open>Table\<close>). Times are integers; \<open>now\<close> is
  the time of the call.
\<close>

section \<open>Usages and events\<close>

datatype UsageType = UsageTypeEfs | UsageTypeBackup | UsageTypeTransfer

record UsageItem =
  us_pk :: nat
  us_id :: string
  us_used :: u64
  us_tenant :: i64
  us_user :: int
  us_fs :: string
  us_account :: string
  us_start :: int
  us_end :: int
  us_name :: string
  us_from :: string
  us_to :: string
  us_ip :: string
  us_type :: UsageType
  us_created :: int
  us_updated :: int

record EfsUsage =
  eu_id :: string
  eu_used :: u64
  eu_tenant :: i64
  eu_fs :: string
  eu_account :: string
  eu_start :: int
  eu_end :: int

record BackupUsage =
  bu_id :: string
  bu_used :: u64
  bu_tenant :: i64
  bu_start :: int
  bu_end :: int
  bu_time :: int

record TransferUsage =
  tu_id :: string
  tu_size :: i64
  tu_tenant :: i64
  tu_user :: int
  tu_name :: string
  tu_from :: string
  tu_to :: string
  tu_start :: int
  tu_end :: int
  tu_ip :: string

text \<open>The requests of \<open>PutEvent\<close>: resource type, id, tenant, size, start and end.\<close>

datatype event =
    EfsEvent string i64 i64 int int
  | BackupEvent string i64 i64 int int
  | TransferEvent string i64 i64 int int

definition usage_schema :: "UsageItem schema" where
  "usage_schema = \<lparr> s_id = us_pk, s_set_id = (\<lambda>i. us_pk_update (\<lambda>_. i)),
     s_clash = (\<lambda>x y. us_id x = us_id y) \<rparr>"

lemma usage_schema_simps [simp]:
  "s_id usage_schema = us_pk" "s_set_id usage_schema i = us_pk_update (\<lambda>_. i)"
  "s_clash usage_schema x y \<longleftrightarrow> us_id x = us_id y"
  by (simp_all add: usage_schema_def)

lemma usage_schema_ok: "schema_ok usage_schema"
  by (auto simp: schema_ok_def)

type_synonym 'u utab = "('u, UsageItem) table_ops"

section \<open>The store\<close>

text \<open>The upsert does not list \<open>usage_type\<close> among its columns.\<close>

definition NewUsage :: "'u utab \<Rightarrow> int \<Rightarrow> UsageItem \<Rightarrow> 'u \<Rightarrow> bool \<times> 'u" where
  "NewUsage TU now item t =
     (case t_upsert TU (\<lambda>x r. us_id x = us_id r)
        (\<lambda>x r. x\<lparr>us_used := us_used r, us_tenant := us_tenant r, us_user := us_user r, us_fs := us_fs r,
                 us_account := us_account r, us_name := us_name r, us_start := us_start r,
                 us_end := us_end r, us_from := us_from r, us_to := us_to r, us_updated := us_updated r,
                 us_ip := us_ip r\<rparr>)
        (item\<lparr>us_pk := 0, us_created := now, us_updated := now\<rparr>) t of
        Some t' \<Rightarrow> (True, t') | None \<Rightarrow> (False, t))"

definition loadType :: "UsageType \<Rightarrow> 'u utab \<Rightarrow> 'u \<Rightarrow> UsageItem list option" where
  "loadType ty TU t = t_find TU (\<lambda>x. us_type x = ty) t"

definition LoadEfsUsages :: "'u utab \<Rightarrow> 'u \<Rightarrow> UsageItem list option" where
  "LoadEfsUsages = loadType UsageTypeEfs"
definition LoadBackupUsages :: "'u utab \<Rightarrow> 'u \<Rightarrow> UsageItem list option" where
  "LoadBackupUsages = loadType UsageTypeBackup"
definition LoadTransferUsage :: "'u utab \<Rightarrow> 'u \<Rightarrow> UsageItem list option" where
  "LoadTransferUsage = loadType UsageTypeTransfer"

text \<open>An empty id is no condition; the row that is found is deleted by its primary key.\<close>

definition DeleteUsage :: "'u utab \<Rightarrow> string \<Rightarrow> 'u \<Rightarrow> bool \<times> 'u" where
  "DeleteUsage TU i t =
     (case find1 TU (\<lambda>x. i = [] \<or> us_id x = i) t of
        None \<Rightarrow> (True, t)
      | Some r \<Rightarrow> (case t_delete TU (\<lambda>x. us_pk x = us_pk r) t of Some t' \<Rightarrow> (True, t') | None \<Rightarrow> (False, t)))"

section \<open>The client\<close>

text \<open>The context of a call: nil, alive, or done. A method of a nil context panics.\<close>

datatype ctx = NilCtx | Live | Over

datatype sent = Sent | SendFailed | SendPanic

definition put_event :: "(event \<Rightarrow> 's \<Rightarrow> bool \<times> 's) \<Rightarrow> ctx \<Rightarrow> event \<Rightarrow> 's \<Rightarrow> sent \<times> 's" where
  "put_event put c ev s = (case c of
     NilCtx \<Rightarrow> (SendPanic, s) | Over \<Rightarrow> (SendFailed, s)
   | Live \<Rightarrow> (case put ev s of (True, s') \<Rightarrow> (Sent, s') | (False, s') \<Rightarrow> (SendFailed, s')))"

text \<open>The common shape: send, then delete a stored copy; if either fails store the usage, and ignore a
  failure of that. The first component of the result is false if the call panics.\<close>

definition deliver :: "'u utab \<Rightarrow> int \<Rightarrow> UsageItem \<Rightarrow> sent \<times> 's \<Rightarrow> 'u \<Rightarrow> bool \<times> 'u \<times> 's" where
  "deliver TU now item r t = (case r of
     (SendPanic, s) \<Rightarrow> (False, t, s)
   | (SendFailed, s) \<Rightarrow> (True, snd (NewUsage TU now item t), s)
   | (Sent, s) \<Rightarrow> (case DeleteUsage TU (us_id item) t of
        (True, t') \<Rightarrow> (True, t', s) | (False, t') \<Rightarrow> (True, snd (NewUsage TU now item t'), s)))"

definition emptyUsage :: UsageItem where
  "emptyUsage = \<lparr>us_pk = 0, us_id = [], us_used = 0, us_tenant = 0, us_user = 0, us_fs = [], us_account = [],
     us_start = 0, us_end = 0, us_name = [], us_from = [], us_to = [], us_ip = [], us_type = UsageTypeEfs,
     us_created = 0, us_updated = 0\<rparr>"

definition SendEfsUsage :: "'u utab \<Rightarrow> (event \<Rightarrow> 's \<Rightarrow> bool \<times> 's) \<Rightarrow> int \<Rightarrow> ctx \<Rightarrow> EfsUsage \<Rightarrow> 'u \<Rightarrow> 's \<Rightarrow>
    bool \<times> 'u \<times> 's" where
  "SendEfsUsage TU put now c u t s = deliver TU now
     (emptyUsage\<lparr>us_id := eu_id u, us_tenant := eu_tenant u, us_start := eu_start u, us_end := eu_end u,
        us_used := eu_used u, us_fs := eu_fs u, us_account := eu_account u, us_type := UsageTypeEfs\<rparr>)
     (put_event put c (EfsEvent (eu_id u) (eu_tenant u) (eu_used u) (eu_start u) (eu_end u)) s) t"

text \<open>A failed backup usage is stored with the type of an EFS usage.\<close>

definition SendBackupUsage :: "'u utab \<Rightarrow> (event \<Rightarrow> 's \<Rightarrow> bool \<times> 's) \<Rightarrow> int \<Rightarrow> ctx \<Rightarrow> BackupUsage \<Rightarrow> 'u \<Rightarrow> 's \<Rightarrow>
    bool \<times> 'u \<times> 's" where
  "SendBackupUsage TU put now c u t s = deliver TU now
     (emptyUsage\<lparr>us_id := bu_id u, us_tenant := bu_tenant u, us_start := bu_start u, us_end := bu_end u,
        us_used := bu_used u, us_type := UsageTypeEfs\<rparr>)
     (put_event put c (BackupEvent (bu_id u) (bu_tenant u) (bu_used u) (bu_start u) (bu_end u)) s) t"

text \<open>A negative size counts as sent, after the context was looked at.\<close>

definition SendTransferUsage :: "'u utab \<Rightarrow> (event \<Rightarrow> 's \<Rightarrow> bool \<times> 's) \<Rightarrow> int \<Rightarrow> ctx \<Rightarrow> TransferUsage \<Rightarrow> 'u \<Rightarrow> 's \<Rightarrow>
    bool \<times> 'u \<times> 's" where
  "SendTransferUsage TU put now c u t s = deliver TU now
     (emptyUsage\<lparr>us_id := tu_id u, us_tenant := tu_tenant u, us_start := tu_start u, us_end := tu_end u,
        us_used := tu_size u, us_user := tu_user u, us_from := tu_from u, us_to := tu_to u, us_ip := tu_ip u,
        us_name := tu_name u, us_type := UsageTypeTransfer\<rparr>)
     (if c = Live \<and> tu_size u <s 0 then (Sent, s)
      else put_event put c (TransferEvent (tu_id u) (tu_tenant u) (tu_size u) (tu_start u) (tu_end u)) s) t"

section \<open>Sending stored usages again\<close>

datatype payload = PEfs EfsUsage | PTransfer TransferUsage | PBackup BackupUsage

text \<open>The jobs that \<open>scanFailedUsage\<close> submits; a failing query ends the scan.\<close>

definition scan_efs :: "UsageItem \<Rightarrow> payload" where
  "scan_efs u = PEfs \<lparr>eu_id = us_id u, eu_used = us_used u, eu_tenant = us_tenant u, eu_fs = us_fs u,
     eu_account = us_account u, eu_start = us_start u, eu_end = us_end u\<rparr>"

definition scan_transfer :: "UsageItem \<Rightarrow> payload" where
  "scan_transfer u = PTransfer \<lparr>tu_id = us_id u, tu_size = us_used u, tu_tenant = us_tenant u,
     tu_user = us_user u, tu_name = us_name u, tu_from = us_from u, tu_to = us_to u, tu_start = us_start u,
     tu_end = us_end u, tu_ip = us_ip u\<rparr>"

definition scan_backup :: "UsageItem \<Rightarrow> payload" where
  "scan_backup u = PBackup \<lparr>bu_id = us_id u, bu_used = us_used u, bu_tenant = us_tenant u,
     bu_start = us_start u, bu_end = us_end u, bu_time = us_created u\<rparr>"

definition scanFailedUsage :: "'u utab \<Rightarrow> 'u \<Rightarrow> payload list" where
  "scanFailedUsage TU t = (case LoadEfsUsages TU t of
     None \<Rightarrow> []
   | Some es \<Rightarrow> map scan_efs es @ (case LoadTransferUsage TU t of
       None \<Rightarrow> []
     | Some ts \<Rightarrow> map scan_transfer ts @ (case LoadBackupUsages TU t of
         None \<Rightarrow> [] | Some bs \<Rightarrow> map scan_backup bs)))"

text \<open>What the queue runs for a payload, and the parts of it that matter below.\<close>

fun send_payload :: "'u utab \<Rightarrow> (event \<Rightarrow> 's \<Rightarrow> bool \<times> 's) \<Rightarrow> int \<Rightarrow> ctx \<Rightarrow> payload \<Rightarrow> 'u \<Rightarrow> 's \<Rightarrow>
    bool \<times> 'u \<times> 's" where
  "send_payload TU put now c (PEfs u) t s = SendEfsUsage TU put now c u t s"
| "send_payload TU put now c (PBackup u) t s = SendBackupUsage TU put now c u t s"
| "send_payload TU put now c (PTransfer u) t s = SendTransferUsage TU put now c u t s"

fun pid :: "payload \<Rightarrow> string" where
  "pid (PEfs u) = eu_id u" | "pid (PBackup u) = bu_id u" | "pid (PTransfer u) = tu_id u"
fun pused :: "payload \<Rightarrow> u64" where
  "pused (PEfs u) = eu_used u" | "pused (PBackup u) = bu_used u" | "pused (PTransfer u) = tu_size u"
fun pperiod :: "payload \<Rightarrow> int \<times> int" where
  "pperiod (PEfs u) = (eu_start u, eu_end u)" | "pperiod (PBackup u) = (bu_start u, bu_end u)"
| "pperiod (PTransfer u) = (tu_start u, tu_end u)"
fun pevent :: "payload \<Rightarrow> event" where
  "pevent (PEfs u) = EfsEvent (eu_id u) (eu_tenant u) (eu_used u) (eu_start u) (eu_end u)"
| "pevent (PBackup u) = BackupEvent (bu_id u) (bu_tenant u) (bu_used u) (bu_start u) (bu_end u)"
| "pevent (PTransfer u) = TransferEvent (tu_id u) (tu_tenant u) (tu_size u) (tu_start u) (tu_end u)"

definition skipped :: "payload \<Rightarrow> bool" where
  "skipped p \<longleftrightarrow> (case p of PTransfer u \<Rightarrow> tu_size u <s 0 | _ \<Rightarrow> False)"

section \<open>Facts of the store\<close>

lemma NewUsage_rows:
  assumes TU: "table_ok TU usage_schema" and u: "unique_rows usage_schema (rows TU t)"
  obtains t' where "NewUsage TU now item t = (True, t')" "unique_rows usage_schema (rows TU t')"
    "\<exists>x\<in>set (rows TU t'). us_id x = us_id item \<and> us_used x = us_used item \<and> us_start x = us_start item
       \<and> us_end x = us_end item \<and> ((\<forall>y\<in>set (rows TU t). us_id y \<noteq> us_id item) \<longrightarrow> us_type x = us_type item)"
    "{x \<in> set (rows TU t'). us_id x \<noteq> us_id item} = {x \<in> set (rows TU t). us_id x \<noteq> us_id item}"
proof -
  let ?f = "\<lambda>x r. x\<lparr>us_used := us_used r, us_tenant := us_tenant r, us_user := us_user r, us_fs := us_fs r,
                 us_account := us_account r, us_name := us_name r, us_start := us_start r,
                 us_end := us_end r, us_from := us_from r, us_to := us_to r, us_updated := us_updated r,
                 us_ip := us_ip r\<rparr>"
  let ?r = "item\<lparr>us_pk := 0, us_created := now, us_updated := now\<rparr>"
  from upsert_by_key[where key = us_id and f = ?f and r = ?r, OF TU usage_schema_ok _ refl u]
  obtain t' where t': "t_upsert TU (\<lambda>x r. us_id x = us_id r) ?f ?r t = Some t'"
    "unique_rows usage_schema (rows TU t')"
    "if \<exists>x\<in>set (rows TU t). us_id x = us_id ?r
       then rows TU t' = map (\<lambda>x. if us_id x = us_id ?r then ?f x ?r else x) (rows TU t)
       else \<exists>i. rows TU t' = rows TU t @ [s_set_id usage_schema i ?r]"
    by auto
  have n: "NewUsage TU now item t = (True, t')" using t'(1) by (simp add: NewUsage_def)
  show ?thesis
  proof (cases "\<exists>x\<in>set (rows TU t). us_id x = us_id item")
    case True
    then have m: "rows TU t' = map (\<lambda>x. if us_id x = us_id item then ?f x ?r else x) (rows TU t)"
      using t'(3) by simp
    obtain x where x: "x \<in> set (rows TU t)" "us_id x = us_id item" using True by blast
    have a: "?f x ?r \<in> set (rows TU t')" using x unfolding m by force
    have b: "{y \<in> set (rows TU t'). us_id y \<noteq> us_id item} = {y \<in> set (rows TU t). us_id y \<noteq> us_id item}"
      unfolding m by (auto split: if_splits)
    show ?thesis by (rule that[OF n t'(2) _ b]) (use a x True in \<open>intro bexI[of _ "?f x ?r"], auto\<close>)
  next
    case False
    then obtain i where m: "rows TU t' = rows TU t @ [?r\<lparr>us_pk := i\<rparr>]" using t'(3) by auto
    show ?thesis by (rule that[OF n t'(2)]) (auto simp: m)
  qed
qed

lemma DeleteUsage_rows:
  assumes TU: "table_ok TU usage_schema" and u: "unique_rows usage_schema (rows TU t)" and i: "i \<noteq> []"
  obtains t' where "DeleteUsage TU i t = (True, t')" "unique_rows usage_schema (rows TU t')"
    "rows TU t' = filter (\<lambda>x. us_id x \<noteq> i) (rows TU t)"
proof (cases "find1 TU (\<lambda>x. us_id x = i) t")
  case None
  then have n: "\<forall>x\<in>set (rows TU t). us_id x \<noteq> i"
    using find1_by_key[OF TU _ u, of us_id i] by auto
  show ?thesis by (rule that[of t]) (use None i u n in \<open>simp_all add: DeleteUsage_def\<close>)
next
  case (Some r)
  then have r: "r \<in> set (rows TU t)" "us_id r = i" using find1_Some[OF TU] by blast+
  obtain t' where t': "t_delete TU (\<lambda>x. us_pk x = us_pk r) t = Some t'" "unique_rows usage_schema (rows TU t')"
    "rows TU t' = filter (\<lambda>x. \<not> us_pk x = us_pk r) (rows TU t)"
    using delete_unique[OF TU u] by metis
  have e: "us_pk x = us_pk r \<longleftrightarrow> us_id x = i" if x: "x \<in> set (rows TU t)" for x
  proof
    assume "us_pk x = us_pk r"
    then have "x = r" using unique_id[OF u x r(1)] by simp
    then show "us_id x = i" using r(2) by simp
  next
    assume "us_id x = i"
    then have "s_clash usage_schema x r" using r(2) by simp
    then have "x = r" using u x r(1) unfolding unique_rows_def by blast
    then show "us_pk x = us_pk r" by simp
  qed
  have "rows TU t' = filter (\<lambda>x. us_id x \<noteq> i) (rows TU t)"
    unfolding t'(3) by (rule filter_cong) (simp_all add: e)
  then show ?thesis by (intro that[of t']) (use Some i t' in \<open>simp_all add: DeleteUsage_def\<close>)
qed

section \<open>Properties\<close>

lemma deliver_spec:
  assumes TU: "table_ok TU usage_schema" and u: "unique_rows usage_schema (rows TU t)"
    and i: "us_id item \<noteq> []" and r: "fst r \<noteq> SendPanic"
  shows "\<exists>t'. deliver TU now item r t = (True, t', snd r) \<and> unique_rows usage_schema (rows TU t')
    \<and> {x \<in> set (rows TU t'). us_id x \<noteq> us_id item} = {x \<in> set (rows TU t). us_id x \<noteq> us_id item}
    \<and> (if fst r = Sent then \<forall>x\<in>set (rows TU t'). us_id x \<noteq> us_id item
       else \<exists>x\<in>set (rows TU t'). us_id x = us_id item \<and> us_used x = us_used item \<and> us_start x = us_start item
         \<and> us_end x = us_end item \<and> ((\<forall>y\<in>set (rows TU t). us_id y \<noteq> us_id item) \<longrightarrow> us_type x = us_type item))"
proof (cases "fst r = Sent")
  case True
  obtain t' where t': "DeleteUsage TU (us_id item) t = (True, t')" "unique_rows usage_schema (rows TU t')"
    "rows TU t' = filter (\<lambda>x. us_id x \<noteq> us_id item) (rows TU t)"
    by (rule DeleteUsage_rows[OF TU u i])
  then have "deliver TU now item r t = (True, t', snd r)" using True by (cases r) (simp add: deliver_def)
  moreover have "{x \<in> set (rows TU t'). us_id x \<noteq> us_id item} = {x \<in> set (rows TU t). us_id x \<noteq> us_id item}"
    "\<forall>x\<in>set (rows TU t'). us_id x \<noteq> us_id item" unfolding t'(3) by simp_all
  ultimately show ?thesis using t'(2) True by (intro exI[of _ t']) simp
next
  case False
  then have f: "fst r = SendFailed" using r by (cases "fst r") auto
  obtain t' where t': "NewUsage TU now item t = (True, t')" "unique_rows usage_schema (rows TU t')"
    "\<exists>x\<in>set (rows TU t'). us_id x = us_id item \<and> us_used x = us_used item \<and> us_start x = us_start item
       \<and> us_end x = us_end item \<and> ((\<forall>y\<in>set (rows TU t). us_id y \<noteq> us_id item) \<longrightarrow> us_type x = us_type item)"
    "{x \<in> set (rows TU t'). us_id x \<noteq> us_id item} = {x \<in> set (rows TU t). us_id x \<noteq> us_id item}"
    by (rule NewUsage_rows[OF TU u])
  have "deliver TU now item r t = (True, t', snd r)" using f t'(1) by (cases r) (simp add: deliver_def)
  then show ?thesis unfolding if_not_P[OF False] by (intro exI[of _ t'] conjI t')
qed

text \<open>The outcome of the send of a payload.\<close>

definition send_res :: "(event \<Rightarrow> 's \<Rightarrow> bool \<times> 's) \<Rightarrow> ctx \<Rightarrow> payload \<Rightarrow> 's \<Rightarrow> sent \<times> 's" where
  "send_res put c p s = (if c = Live \<and> skipped p then (Sent, s) else put_event put c (pevent p) s)"

fun item_of :: "payload \<Rightarrow> UsageItem" where
  "item_of (PEfs e) = emptyUsage\<lparr>us_id := eu_id e, us_tenant := eu_tenant e, us_start := eu_start e,
     us_end := eu_end e, us_used := eu_used e, us_fs := eu_fs e, us_account := eu_account e, us_type := UsageTypeEfs\<rparr>"
| "item_of (PBackup b) = emptyUsage\<lparr>us_id := bu_id b, us_tenant := bu_tenant b, us_start := bu_start b,
     us_end := bu_end b, us_used := bu_used b, us_type := UsageTypeEfs\<rparr>"
| "item_of (PTransfer u) = emptyUsage\<lparr>us_id := tu_id u, us_tenant := tu_tenant u, us_start := tu_start u,
     us_end := tu_end u, us_used := tu_size u, us_user := tu_user u, us_from := tu_from u, us_to := tu_to u,
     us_ip := tu_ip u, us_name := tu_name u, us_type := UsageTypeTransfer\<rparr>"

lemma send_payload_deliver:
  "us_id (item_of p) = pid p" "us_used (item_of p) = pused p" "(us_start (item_of p), us_end (item_of p)) = pperiod p"
  "us_type (item_of p) = (case p of PTransfer _ \<Rightarrow> UsageTypeTransfer | _ \<Rightarrow> UsageTypeEfs)"
  "send_payload TU put now c p t s = deliver TU now (item_of p) (send_res put c p s) t"
  by (cases p; simp add: SendEfsUsage_def SendBackupUsage_def SendTransferUsage_def emptyUsage_def
      send_res_def skipped_def)+


text \<open>A billing service for the examples: it logs events while it is up.\<close>

definition toy_put :: "event \<Rightarrow> bool \<times> event list \<Rightarrow> bool \<times> (bool \<times> event list)" where
  "toy_put ev s = (if fst s then (True, (True, ev # snd s)) else (False, s))"

definition toy_bu :: BackupUsage where
  "toy_bu = \<lparr>bu_id = ''u1'', bu_used = 5000, bu_tenant = 7, bu_start = 1, bu_end = 2, bu_time = 0\<rparr>"


text \<open>A backup usage that could not be reported is billed as file system storage. It is stored with the
  type of an EFS usage; the hourly scan submits it as such, and when the service is back it receives an
  EFS event with the id and the bytes of the backup usage, and never a backup event.\<close>

theorem backup_usage_becomes_efs:
  assumes TU: "table_ok TU usage_schema" and u: "unique_rows usage_schema (rows TU t)"
    and i: "bu_id b \<noteq> []" "\<forall>y\<in>set (rows TU t). us_id y \<noteq> bu_id b"
    and f: "put (pevent (PBackup b)) s = (False, s1)"
    and r: "SendBackupUsage TU put now Live b t s = (ok, t1, s2)"
  shows "\<exists>e. PEfs e \<in> set (scanFailedUsage TU t1) \<and> eu_id e = bu_id b \<and> eu_used e = bu_used b
    \<and> pevent (PEfs e) = EfsEvent (bu_id b) (eu_tenant e) (bu_used b) (bu_start b) (bu_end b)
    \<and> (\<forall>q\<in>set (scanFailedUsage TU t1). pid q = bu_id b \<longrightarrow> (\<exists>e. q = PEfs e))"
proof -
  let ?item = "emptyUsage\<lparr>us_id := bu_id b, us_tenant := bu_tenant b, us_start := bu_start b, us_end := bu_end b,
        us_used := bu_used b, us_type := UsageTypeEfs\<rparr>"
  have pe: "put_event put Live (pevent (PBackup b)) s = (SendFailed, s1)" using f by (simp add: put_event_def)
  have ii: "us_id ?item \<noteq> []" using i(1) by simp
  obtain t' where t': "deliver TU now ?item (SendFailed, s1) t = (True, t', s1)"
    "unique_rows usage_schema (rows TU t')"
    "\<exists>x\<in>set (rows TU t'). us_id x = bu_id b \<and> us_used x = bu_used b \<and> us_start x = bu_start b
         \<and> us_end x = bu_end b \<and> ((\<forall>y\<in>set (rows TU t). us_id y \<noteq> bu_id b) \<longrightarrow> us_type x = UsageTypeEfs)"
    using deliver_spec[OF TU u ii, of "(SendFailed, s1)" now] by auto
  have t1: "t1 = t'" using r pe t'(1) by (simp add: SendBackupUsage_def)
  obtain x where x: "x \<in> set (rows TU t1)" "us_id x = bu_id b" "us_used x = bu_used b" "us_start x = bu_start b"
    "us_end x = bu_end b" "us_type x = UsageTypeEfs" using t'(3) i(2) unfolding t1 by blast
  have sc: "scanFailedUsage TU t1 = map scan_efs (filter (\<lambda>x. us_type x = UsageTypeEfs) (rows TU t1))
      @ map scan_transfer (filter (\<lambda>x. us_type x = UsageTypeTransfer) (rows TU t1))
      @ map scan_backup (filter (\<lambda>x. us_type x = UsageTypeBackup) (rows TU t1))"
    by (simp add: scanFailedUsage_def LoadEfsUsages_def LoadTransferUsage_def LoadBackupUsages_def loadType_def
        table_okD(1)[OF TU])
  have only: "us_type y = UsageTypeEfs" if "y \<in> set (rows TU t1)" "us_id y = bu_id b" for y
    using t'(2) that x(1,2,6) unfolding t1 unique_rows_def by force
  let ?e = "\<lparr>eu_id = us_id x, eu_used = us_used x, eu_tenant = us_tenant x, eu_fs = us_fs x,
     eu_account = us_account x, eu_start = us_start x, eu_end = us_end x\<rparr>"
  have "scan_efs x \<in> set (scanFailedUsage TU t1)" unfolding sc using x(1,6) by auto
  then have "PEfs ?e \<in> set (scanFailedUsage TU t1)" by (simp add: scan_efs_def)
  moreover have "\<forall>q\<in>set (scanFailedUsage TU t1). pid q = bu_id b \<longrightarrow> (\<exists>e. q = PEfs e)"
    unfolding sc using only by (auto simp: scan_efs_def scan_transfer_def scan_backup_def)
  ultimately show ?thesis using x(2-5) by (intro exI[of _ ?e]) simp
qed

theorem backup_usage_becomes_efs_witness:
  "scanFailedUsage (list_table usage_schema) (fst (snd (SendBackupUsage (list_table usage_schema) toy_put 9 Live
     toy_bu [] (False, [])))) \<noteq> []"
proof -
  let ?r = "SendBackupUsage (list_table usage_schema) toy_put 9 Live toy_bu [] (False, [])"
  have u: "unique_rows usage_schema (rows (list_table usage_schema) [])" by (simp add: unique_rows_def)
  have i: "bu_id toy_bu \<noteq> []" "\<forall>y\<in>set (rows (list_table usage_schema) []). us_id y \<noteq> bu_id toy_bu"
    by (simp_all add: toy_bu_def)
  have f: "toy_put (pevent (PBackup toy_bu)) (False, []) = (False, (False, []))" by (simp add: toy_put_def)
  have r: "?r = (fst ?r, fst (snd ?r), snd (snd ?r))" by simp
  obtain e where "PEfs e \<in> set (scanFailedUsage (list_table usage_schema) (fst (snd ?r)))"
    using backup_usage_becomes_efs[OF list_table_ok u i f r] by blast
  then show ?thesis by auto
qed

end
