(* ===== verification/DlCache.thy ===== *)
theory DlCache
  imports Usage "HOL-Library.AList"
begin

text \<open>
  The download cache of \<open>internal/download/cachemgr.go\<close>. The goroutine of \<open>serve\<close> adds the sizes of
  downloads up per path key and reports a sum when it passes the limit, when no download came for a while,
  and when the cache is closed. Reports run in goroutines of their own. The goroutines, the downloads that
  arrive and the callers of \<open>Close\<close> are interleaved as atomic steps, an event each. The handler of
  the reports is a parameter with a state of its own (\<open>dm_env\<close>); its result is false if it panics,
  which ends the process. \<open>dm_out\<close> records the calls of the handler, \<open>dm_in\<close> the downloads
  that were received.
\<close>

section \<open>Data\<close>

record Dl =
  dl_PathKey :: string
  dl_Path :: string
  dl_Size :: i64
  dl_From :: string
  dl_To :: string
  dl_TenantID :: i64
  dl_UserID :: int
  dl_ClientIP :: string
  dl_StartTime :: int

record DlRecorder =
  dr_PathKey :: string
  dr_Path :: string
  dr_CumSize :: i64
  dr_TenantID :: i64
  dr_UserID :: int
  dr_From :: string
  dr_To :: string
  dr_clientIP :: string
  dr_StartTime :: int

record DlOption =
  do_DlLimit :: i64
  do_Timeout :: int
  do_Ctx :: ctx

text \<open>A Go map as an association list with distinct keys; the order of its iteration is open.\<close>

type_synonym dlCache = "(string \<times> DlRecorder) list"

text \<open>Where \<open>serve\<close> is: in its loop, in the deferred call, offering the token on \<open>doneC\<close>, or gone.
  Where a caller of \<open>Close\<close> is: before the first \<open>select\<close>, before \<open>once.Do\<close>, sending on \<open>drainC\<close>,
  behind that send, waiting for the token, or returned.\<close>

datatype serve_phase = Serving | Draining | Offering | Gone

datatype closer = CSelect | COnce | CDrain | CDrained | CWait | CReturned

datatype once = OnceFresh | OnceRunning | OnceDone

record 's DlCacheMgr =
  dm_option :: DlOption
  dm_cache :: dlCache
  dm_gos :: "dlCache list"
  dm_own :: dlCache
  dm_wg :: nat
  dm_phase :: serve_phase
  dm_closed :: bool
  dm_once :: once
  dm_closers :: "closer list"
  dm_stat :: "string \<Rightarrow> i64"
  dm_env :: 's
  dm_crashed :: bool
  dm_in :: "Dl list"
  dm_out :: "(string \<times> TransferUsage) list"

definition ReloadDlCacheMgr :: "DlOption \<Rightarrow> 's \<Rightarrow> 's DlCacheMgr" where
  "ReloadDlCacheMgr opt env = \<lparr>dm_option = opt, dm_cache = [], dm_gos = [], dm_own = [], dm_wg = 0,
     dm_phase = Serving, dm_closed = False, dm_once = OnceFresh, dm_closers = [], dm_stat = (\<lambda>_. 0),
     dm_env = env, dm_crashed = False, dm_in = [], dm_out = []\<rparr>"

section \<open>Reports\<close>

definition stat_add :: "string \<Rightarrow> i64 \<Rightarrow> (string \<Rightarrow> i64) \<Rightarrow> string \<Rightarrow> i64" where
  "stat_add path sz f = f(path := f path + sz)"

text \<open>The receiver of the report is the client, not the \<open>To\<close> of the download.\<close>

definition usage_of :: "string \<Rightarrow> int \<Rightarrow> DlRecorder \<Rightarrow> TransferUsage" where
  "usage_of u4 now dr = \<lparr>tu_id = u4, tu_size = dr_CumSize dr, tu_tenant = dr_TenantID dr,
     tu_user = dr_UserID dr, tu_name = dr_Path dr, tu_from = dr_From dr, tu_to = dr_clientIP dr,
     tu_start = dr_StartTime dr, tu_end = now, tu_ip = dr_clientIP dr\<rparr>"

type_synonym 's handler = "ctx \<Rightarrow> TransferUsage \<Rightarrow> 's \<Rightarrow> bool \<times> 's"

definition publishOne :: "'s handler \<Rightarrow> string \<Rightarrow> int \<Rightarrow> DlRecorder \<Rightarrow> 's DlCacheMgr \<Rightarrow> 's DlCacheMgr" where
  "publishOne hn u4 now dr d =
     (let u = usage_of u4 now dr;
          r = hn (do_Ctx (dm_option d)) u (dm_env d)
      in d\<lparr>dm_stat := stat_add (dr_PathKey dr) (dr_CumSize dr) (dm_stat d), dm_env := snd r,
           dm_crashed := \<not> fst r, dm_out := dm_out d @ [(dr_PathKey dr, u)], dm_wg := dm_wg d - 1\<rparr>)"

section \<open>The loop of serve\<close>

definition merged :: "int \<Rightarrow> Dl \<Rightarrow> dlCache \<Rightarrow> DlRecorder" where
  "merged now dl cache = (case map_of cache (dl_PathKey dl) of
     Some dr \<Rightarrow> dr\<lparr>dr_CumSize := dr_CumSize dr + dl_Size dl\<rparr>
   | None \<Rightarrow> \<lparr>dr_PathKey = dl_PathKey dl, dr_Path = dl_Path dl, dr_CumSize = dl_Size dl,
              dr_TenantID = dl_TenantID dl, dr_UserID = dl_UserID dl, dr_From = dl_From dl,
              dr_To = dl_To dl, dr_clientIP = dl_ClientIP dl, dr_StartTime = now\<rparr>)"

definition serve_recv :: "int \<Rightarrow> Dl \<Rightarrow> 's DlCacheMgr \<Rightarrow> 's DlCacheMgr" where
  "serve_recv now dl d =
     (let dr = merged now dl (dm_cache d);
          d1 = d\<lparr>dm_cache := AList.update (dl_PathKey dl) dr (dm_cache d), dm_in := dm_in d @ [dl]\<rparr>
      in if do_DlLimit (dm_option d) <s dr_CumSize dr
         then d1\<lparr>dm_cache := AList.delete (dl_PathKey dl) (dm_cache d1), dm_wg := dm_wg d1 + 1,
                 dm_gos := dm_gos d1 @ [[(dl_PathKey dl, dr)]]\<rparr>
         else d1)"

definition serve_tick :: "'s DlCacheMgr \<Rightarrow> 's DlCacheMgr" where
  "serve_tick d = d\<lparr>dm_cache := [], dm_wg := dm_wg d + length (dm_cache d),
     dm_gos := dm_gos d @ [dm_cache d]\<rparr>"

text \<open>The deferred call starts: the cache itself is published by the goroutine of \<open>serve\<close>.\<close>

definition serve_drain :: "'s DlCacheMgr \<Rightarrow> 's DlCacheMgr" where
  "serve_drain d = d\<lparr>dm_cache := [], dm_own := dm_cache d, dm_wg := dm_wg d + length (dm_cache d),
     dm_phase := Draining\<rparr>"

text \<open>\<open>Record\<close> ignores sizes that are not positive. The others are sent to the loop; the send
  blocks while \<open>serve\<close> is not in its loop, and panics once \<open>recvC\<close> is closed.\<close>

datatype record_res = Ignored | Received | Blocked | SendOnClosed

definition Record :: "int \<Rightarrow> Dl \<Rightarrow> 's DlCacheMgr \<Rightarrow> record_res \<times> 's DlCacheMgr" where
  "Record now dl d =
     (if dl_Size dl \<le>s 0 then (Ignored, d)
      else if dm_closed d then (SendOnClosed, d)
      else if dm_phase d = Serving then (Received, serve_recv now dl d)
      else (Blocked, d))"

section \<open>Close\<close>

definition set_closer :: "nat \<Rightarrow> closer \<Rightarrow> 's DlCacheMgr \<Rightarrow> 's DlCacheMgr" where
  "set_closer i c d = d\<lparr>dm_closers := (dm_closers d)[i := c]\<rparr>"

text \<open>One step of the caller \<open>i\<close>; None if it is blocked. In the first \<open>select\<close> it may take the token that
  \<open>serve\<close> offers, unless a caller that waits for the token is there to get it.\<close>

definition Close_step :: "nat \<Rightarrow> 's DlCacheMgr \<Rightarrow> 's DlCacheMgr option" where
  "Close_step i d = (case dm_closers d ! i of
     CSelect \<Rightarrow>
       if dm_closed d then Some (set_closer i CReturned d)
       else if dm_phase d = Offering \<and> CWait \<notin> set (dm_closers d)
       then Some (set_closer i CReturned (d\<lparr>dm_phase := Gone\<rparr>))
       else Some (set_closer i COnce d)
   | COnce \<Rightarrow> (case dm_once d of
       OnceFresh \<Rightarrow> Some (set_closer i CDrain (d\<lparr>dm_once := OnceRunning\<rparr>))
     | OnceRunning \<Rightarrow> None
     | OnceDone \<Rightarrow> Some (set_closer i CReturned d))
   | CDrain \<Rightarrow>
       if dm_phase d = Serving then Some (set_closer i CDrained (serve_drain d)) else None
   | CDrained \<Rightarrow> Some (set_closer i CWait d)
   | CWait \<Rightarrow>
       if dm_phase d = Offering
       then Some (set_closer i CReturned (d\<lparr>dm_phase := Gone, dm_closed := True, dm_once := OnceDone\<rparr>))
       else None
   | CReturned \<Rightarrow> None)"

section \<open>Steps\<close>

datatype dl_event =
    ERecv int Dl
  | ETick
  | EPublish nat nat string int
  | EOwn nat string int
  | EOffer
  | ECall
  | EClose nat

fun dl_step :: "'s handler \<Rightarrow> dl_event \<Rightarrow> 's DlCacheMgr \<Rightarrow> 's DlCacheMgr option" where
  "dl_step hn (ERecv now dl) d =
     (case Record now dl d of (Received, d') \<Rightarrow> Some d' | (Ignored, _) \<Rightarrow> Some d | _ \<Rightarrow> None)"
| "dl_step hn ETick d = (if dm_phase d = Serving then Some (serve_tick d) else None)"
| "dl_step hn (EPublish g i u4 now) d =
     (if g < length (dm_gos d) \<and> i < length (dm_gos d ! g)
      then Some (publishOne hn u4 now (snd (dm_gos d ! g ! i))
             (d\<lparr>dm_gos := (dm_gos d)[g := drop_nth i (dm_gos d ! g)]\<rparr>))
      else None)"
| "dl_step hn (EOwn i u4 now) d =
     (if i < length (dm_own d)
      then Some (publishOne hn u4 now (snd (dm_own d ! i)) (d\<lparr>dm_own := drop_nth i (dm_own d)\<rparr>))
      else None)"
| "dl_step hn EOffer d =
     (if dm_phase d = Draining \<and> dm_own d = [] \<and> dm_wg d = 0 then Some (d\<lparr>dm_phase := Offering\<rparr>) else None)"
| "dl_step hn ECall d = Some (d\<lparr>dm_closers := dm_closers d @ [CSelect]\<rparr>)"
| "dl_step hn (EClose i) d = (if i < length (dm_closers d) then Close_step i d else None)"

text \<open>A panic ends the process, so that no step follows it.\<close>

fun dl_run :: "'s handler \<Rightarrow> dl_event list \<Rightarrow> 's DlCacheMgr \<Rightarrow> 's DlCacheMgr option" where
  "dl_run hn [] d = Some d"
| "dl_run hn (e # es) d =
     (if dm_crashed d then None else Option.bind (dl_step hn e d) (dl_run hn es))"

section \<open>Accounting\<close>

text \<open>The bytes of a path key in a cache, among the received downloads, and in the reports.\<close>

definition bytes :: "string \<Rightarrow> dlCache \<Rightarrow> i64" where
  "bytes k c = sum_list (map (\<lambda>p. if fst p = k then dr_CumSize (snd p) else 0) c)"

definition in_bytes :: "string \<Rightarrow> Dl list \<Rightarrow> i64" where
  "in_bytes k ds = sum_list (map (\<lambda>dl. if dl_PathKey dl = k then dl_Size dl else 0) ds)"

definition out_bytes :: "string \<Rightarrow> (string \<times> TransferUsage) list \<Rightarrow> i64" where
  "out_bytes k us = sum_list (map (\<lambda>p. if fst p = k then tu_size (snd p) else 0) us)"

lemma bytes_simps [simp]: "bytes k [] = 0" "bytes k (p # c) = (if fst p = k then dr_CumSize (snd p) else 0) + bytes k c"
  "bytes k (c @ c') = bytes k c + bytes k c'"
  by (simp_all add: bytes_def)

lemma bytes_mset: "mset c = mset c' \<Longrightarrow> bytes k c = bytes k c'"
  unfolding bytes_def by (metis (no_types, lifting) mset_map sum_mset_sum_list)

lemma bytes_absent: "k \<notin> fst ` set c \<Longrightarrow> bytes k c = 0"
  by (induction c) auto

lemma bytes_lookup: "distinct (map fst c) \<Longrightarrow>
    bytes k c = (case map_of c k of None \<Rightarrow> 0 | Some r \<Rightarrow> dr_CumSize r)"
  by (induction c) (auto simp: bytes_absent)

lemma mset_concat_drop:
  assumes "g < length gs" "i < length (gs ! g)"
  shows "mset (concat gs) = add_mset (gs ! g ! i) (mset (concat (gs[g := drop_nth i (gs ! g)])))"
proof -
  have "mset (concat gs) = mset (concat (take g gs @ gs ! g # drop (Suc g) gs))"
    using id_take_nth_drop[OF assms(1)] by simp
  also have "\<dots> = mset (concat (take g gs)) + add_mset (gs ! g ! i) (mset (drop_nth i (gs ! g)))
      + mset (concat (drop (Suc g) gs))" using mset_drop_nth[OF assms(2)] by simp
  also have "\<dots> = add_mset (gs ! g ! i) (mset (concat (gs[g := drop_nth i (gs ! g)])))"
    by (simp add: upd_conv_take_nth_drop[OF assms(1)])
  finally show ?thesis .
qed

text \<open>All recorders that wait for their report.\<close>

definition waiting :: "'s DlCacheMgr \<Rightarrow> dlCache" where
  "waiting d = dm_own d @ concat (dm_gos d)"

definition dl_inv :: "'s DlCacheMgr \<Rightarrow> bool" where
  "dl_inv d \<longleftrightarrow>
     (\<forall>k. in_bytes k (dm_in d) = bytes k (dm_cache d) + bytes k (waiting d) + dm_stat d k)
   \<and> (\<forall>k. dm_stat d k = out_bytes k (dm_out d))
   \<and> distinct (map fst (dm_cache d))
   \<and> (\<forall>p\<in>set (dm_cache d) \<union> set (waiting d). dr_PathKey (snd p) = fst p)
   \<and> dm_wg d = length (waiting d)
   \<and> (dm_phase d = Serving \<longrightarrow> dm_own d = [])
   \<and> (dm_phase d \<noteq> Serving \<longrightarrow> dm_cache d = [])
   \<and> (dm_phase d \<in> {Offering, Gone} \<longrightarrow> waiting d = [])
   \<and> (dm_closed d \<longrightarrow> dm_phase d = Gone)"

lemma dl_invD:
  assumes "dl_inv d"
  shows "in_bytes k (dm_in d) = bytes k (dm_cache d) + bytes k (waiting d) + dm_stat d k"
    "dm_stat d k = out_bytes k (dm_out d)" "distinct (map fst (dm_cache d))"
    "p \<in> set (dm_cache d) \<union> set (waiting d) \<Longrightarrow> dr_PathKey (snd p) = fst p"
    "dm_wg d = length (waiting d)" "dm_phase d = Serving \<Longrightarrow> dm_own d = []"
    "dm_phase d \<noteq> Serving \<Longrightarrow> dm_cache d = []"
    "dm_phase d \<in> {Offering, Gone} \<Longrightarrow> waiting d = []" "dm_closed d \<Longrightarrow> dm_phase d = Gone"
  using assms unfolding dl_inv_def by metis+

lemma dl_inv_start: "dl_inv (ReloadDlCacheMgr opt env)"
  by (simp add: dl_inv_def ReloadDlCacheMgr_def waiting_def in_bytes_def out_bytes_def)

lemma merged_key:
  assumes "\<forall>p\<in>set c. dr_PathKey (snd p) = fst p"
  shows "dr_PathKey (merged now dl c) = dl_PathKey dl"
  using assms by (fastforce simp: merged_def split: option.split dest: map_of_SomeD)

lemma bytes_update:
  assumes "distinct (map fst c)"
  shows "bytes k (AList.update k' r c) = (if k = k' then dr_CumSize r else bytes k c)"
  using assms by (simp add: bytes_lookup distinct_update update_conv')

lemma bytes_delete:
  assumes "distinct (map fst c)"
  shows "bytes k (AList.delete k' c) = (if k = k' then 0 else bytes k c)"
  using assms by (simp add: bytes_lookup distinct_delete delete_conv')

lemma bytes_merged:
  assumes "distinct (map fst c)"
  shows "dr_CumSize (merged now dl c) = bytes (dl_PathKey dl) c + dl_Size dl"
  using assms by (simp add: bytes_lookup merged_def split: option.split)

lemma set_update_keys:
  assumes "\<forall>p\<in>set c. dr_PathKey (snd p) = fst p" "dr_PathKey r = k"
  shows "\<forall>p\<in>set (AList.update k r c). dr_PathKey (snd p) = fst p"
  using assms by (induction c) auto

lemma dl_inv_recv:
  assumes inv: "dl_inv d" and s: "dm_phase d = Serving"
  shows "dl_inv (serve_recv now dl d)"
proof -
  let ?c = "dm_cache d" and ?k = "dl_PathKey dl"
  let ?r = "merged now dl ?c"
  have dist: "distinct (map fst ?c)" and keys: "\<forall>p\<in>set ?c \<union> set (waiting d). dr_PathKey (snd p) = fst p"
    and bal: "\<And>k. in_bytes k (dm_in d) = bytes k ?c + bytes k (waiting d) + dm_stat d k"
    and rest: "\<And>k. dm_stat d k = out_bytes k (dm_out d)" "dm_wg d = length (waiting d)" "dm_own d = []"
      "\<not> dm_closed d"
    using inv s unfolding dl_inv_def by auto
  have rk: "dr_PathKey ?r = ?k" using keys by (intro merged_key) simp
  have ku: "\<forall>p\<in>set (AList.update ?k ?r ?c). dr_PathKey (snd p) = fst p"
    using keys rk by (intro set_update_keys) simp_all
  have du: "distinct (map fst (AList.update ?k ?r ?c))" using dist by (rule distinct_update)
  have i: "in_bytes k (dm_in d @ [dl]) = in_bytes k (dm_in d) + (if ?k = k then dl_Size dl else 0)" for k
    by (simp add: in_bytes_def)
  have upd: "bytes k (AList.update ?k ?r ?c) = bytes k ?c + (if ?k = k then dl_Size dl else 0)" for k
    by (simp add: bytes_update[OF dist] bytes_merged[OF dist])
  show ?thesis
  proof (cases "do_DlLimit (dm_option d) <s dr_CumSize ?r")
    case True
    let ?d = "d\<lparr>dm_cache := AList.delete ?k (AList.update ?k ?r ?c), dm_in := dm_in d @ [dl],
      dm_wg := dm_wg d + 1, dm_gos := dm_gos d @ [[(?k, ?r)]]\<rparr>"
    have e: "serve_recv now dl d = ?d" using True by (simp add: serve_recv_def Let_def)
    have w: "waiting ?d = waiting d @ [(?k, ?r)]" by (simp add: waiting_def)
    have "bytes k (AList.delete ?k (AList.update ?k ?r ?c)) + bytes k [(?k, ?r)]
        = bytes k ?c + (if ?k = k then dl_Size dl else 0)" for k
      using upd[of k] by (simp add: bytes_delete[OF du] bytes_merged[OF dist] bytes_update[OF dist])
    then have "in_bytes k (dm_in ?d) = bytes k (dm_cache ?d) + bytes k (waiting ?d) + dm_stat ?d k" for k
      unfolding w by (simp add: i bal algebra_simps)
    moreover have "\<forall>p\<in>set (dm_cache ?d) \<union> set (waiting ?d). dr_PathKey (snd p) = fst p"
      unfolding w using keys ku rk by (auto simp: AList.delete_eq)
    moreover have "distinct (map fst (dm_cache ?d))" using du by (simp add: distinct_delete)
    ultimately show ?thesis unfolding e dl_inv_def using rest s w by simp
  next
    case False
    let ?d = "d\<lparr>dm_cache := AList.update ?k ?r ?c, dm_in := dm_in d @ [dl]\<rparr>"
    have e: "serve_recv now dl d = ?d" using False by (simp add: serve_recv_def Let_def)
    have w: "waiting ?d = waiting d" by (simp add: waiting_def)
    have "in_bytes k (dm_in ?d) = bytes k (dm_cache ?d) + bytes k (waiting ?d) + dm_stat ?d k" for k
      unfolding w by (simp add: i bal upd algebra_simps)
    then show ?thesis unfolding e dl_inv_def using rest s w ku du keys by auto
  qed
qed

lemma dl_inv_tick: "dl_inv d \<Longrightarrow> dm_phase d = Serving \<Longrightarrow> dl_inv (serve_tick d)"
  by (auto simp: dl_inv_def serve_tick_def waiting_def algebra_simps)

lemma dl_inv_drain: "dl_inv d \<Longrightarrow> dm_phase d = Serving \<Longrightarrow> dl_inv (serve_drain d)"
  by (auto simp: dl_inv_def serve_drain_def waiting_def algebra_simps)

lemma dl_inv_set_closer [simp]: "dl_inv (set_closer i c d) = dl_inv d"
  by (simp add: dl_inv_def set_closer_def waiting_def)

lemma dl_inv_publish:
  assumes inv: "dl_inv d" and m: "mset (waiting d) = add_mset (k, r) (mset (waiting d'))"
    and d': "dm_in d' = dm_in d" "dm_cache d' = dm_cache d" "dm_stat d' = dm_stat d" "dm_out d' = dm_out d"
      "dm_wg d' = dm_wg d" "dm_phase d' = dm_phase d" "dm_closed d' = dm_closed d"
      "dm_phase d = Serving \<Longrightarrow> dm_own d' = []"
  shows "dl_inv (publishOne hn u4 now r d')"
proof -
  let ?p = "publishOne hn u4 now r d'"
  have w: "waiting ?p = waiting d'" by (simp add: waiting_def publishOne_def Let_def)
  have kr: "(k, r) \<in> set (waiting d)" and sub: "set (waiting d') \<subseteq> set (waiting d)"
    using arg_cong[OF m, of set_mset] by auto
  have key: "dr_PathKey r = k" using dl_invD(4)[OF inv, of "(k, r)"] kr by simp
  have b: "bytes q (waiting d) = (if k = q then dr_CumSize r else 0) + bytes q (waiting d')" for q
    using bytes_mset[of "waiting d" "(k, r) # waiting d'" q] m by simp
  have l: "length (waiting d) = Suc (length (waiting d'))" using arg_cong[OF m, of size] by simp
  have st: "dm_stat ?p = stat_add k (dr_CumSize r) (dm_stat d)" "dm_out ?p = dm_out d @ [(k, usage_of u4 now r)]"
    "dm_wg ?p = dm_wg d - 1" "dm_in ?p = dm_in d" "dm_cache ?p = dm_cache d" "dm_phase ?p = dm_phase d"
    "dm_closed ?p = dm_closed d" "dm_own ?p = dm_own d'"
    using key d' by (simp_all add: publishOne_def Let_def)
  have nw: "waiting d \<noteq> []" using kr by auto
  have bal: "\<forall>q. in_bytes q (dm_in d) = bytes q (dm_cache d) + bytes q (waiting d')
      + stat_add k (dr_CumSize r) (dm_stat d) q"
    by (simp add: dl_invD(1)[OF inv] b stat_add_def algebra_simps)
  have out: "\<forall>q. stat_add k (dr_CumSize r) (dm_stat d) q = out_bytes q (dm_out d @ [(k, usage_of u4 now r)])"
    by (simp add: dl_invD(2)[OF inv] stat_add_def out_bytes_def usage_of_def)
  have keys: "\<forall>p\<in>set (dm_cache d) \<union> set (waiting d'). dr_PathKey (snd p) = fst p"
    using dl_invD(4)[OF inv] sub by blast
  have ph: "dm_phase d \<notin> {Offering, Gone}" using dl_invD(8)[OF inv] nw by blast
  have wg: "dm_wg d - 1 = length (waiting d')" using l by (simp add: dl_invD(5)[OF inv])
  show ?thesis unfolding dl_inv_def w st
    by (intro conjI bal out keys wg impI dl_invD(3,7,9)[OF inv] d'(8)) (use ph in simp_all)
qed

lemma dl_inv_once [simp]: "dl_inv (d\<lparr>dm_once := x\<rparr>) = dl_inv d"
  by (simp add: dl_inv_def waiting_def)

lemma dl_inv_calls: "dl_inv (d\<lparr>dm_closers := x\<rparr>) = dl_inv d"
  by (simp add: dl_inv_def waiting_def)

lemma dl_inv_token:
  assumes "dl_inv d" "dm_phase d = Offering"
  shows "dl_inv (d\<lparr>dm_phase := Gone, dm_closed := c\<rparr>)" "dl_inv (d\<lparr>dm_phase := Gone\<rparr>)"
  using assms by (simp_all add: dl_inv_def waiting_def)

text \<open>What a step of \<open>Close\<close> does to the state, apart from its caller.\<close>

lemma Close_step_cases:
  assumes "Close_step i d = Some d'"
  obtains (keep) c where "d' = set_closer i c d"
  | (once) "dm_once d = OnceFresh" "d' = set_closer i CDrain (d\<lparr>dm_once := OnceRunning\<rparr>)"
  | (drain) "dm_phase d = Serving" "d' = set_closer i CDrained (serve_drain d)"
  | (stolen) "dm_phase d = Offering" "CWait \<notin> set (dm_closers d)" "dm_closers d ! i = CSelect"
      "d' = set_closer i CReturned (d\<lparr>dm_phase := Gone\<rparr>)"
  | (token) "dm_phase d = Offering" "dm_closers d ! i = CWait"
      "d' = set_closer i CReturned (d\<lparr>dm_phase := Gone, dm_closed := True, dm_once := OnceDone\<rparr>)"
proof (cases "dm_closers d ! i")
  case CSelect
  consider "dm_closed d" | "\<not> dm_closed d" "dm_phase d = Offering \<and> CWait \<notin> set (dm_closers d)"
    | "\<not> dm_closed d" "\<not> (dm_phase d = Offering \<and> CWait \<notin> set (dm_closers d))" by blast
  then show thesis
    by cases (use assms CSelect keep stolen in \<open>auto simp: Close_step_def\<close>)
next
  case COnce
  then show thesis using assms keep once by (cases "dm_once d") (auto simp: Close_step_def)
next
  case CDrain
  then show thesis using assms drain by (cases "dm_phase d = Serving") (simp_all add: Close_step_def)
next
  case CDrained
  then show thesis using assms keep[of CWait] by (simp add: Close_step_def)
next
  case CWait
  then show thesis using assms token by (cases "dm_phase d = Offering") (simp_all add: Close_step_def)
next
  case CReturned
  then show thesis using assms by (simp add: Close_step_def)
qed

lemma dl_inv_Close_step:
  assumes inv: "dl_inv d" and s: "Close_step i d = Some d'"
  shows "dl_inv d'"
  using s
proof (cases rule: Close_step_cases)
  case token
  have "dl_inv ((d\<lparr>dm_phase := Gone, dm_closed := True\<rparr>)\<lparr>dm_once := OnceDone\<rparr>)"
    using dl_inv_token(1)[OF inv token(1)] by (simp only: dl_inv_once)
  then show ?thesis unfolding token(3) by simp
qed (simp_all add: inv dl_inv_drain dl_inv_token)

lemma dl_inv_step:
  assumes inv: "dl_inv d" and s: "dl_step hn e d = Some d'"
  shows "dl_inv d'"
proof (cases e)
  case (ERecv now dl)
  then show ?thesis using s inv dl_inv_recv[OF inv]
    by (auto simp: Record_def split: if_splits)
next
  case ETick
  then show ?thesis using s dl_inv_tick[OF inv] by (auto split: if_splits)
next
  case (EPublish g i u4 now)
  then have g: "g < length (dm_gos d)" "i < length (dm_gos d ! g)"
    and d': "d' = publishOne hn u4 now (snd (dm_gos d ! g ! i))
        (d\<lparr>dm_gos := (dm_gos d)[g := drop_nth i (dm_gos d ! g)]\<rparr>)"
    using s by (auto split: if_splits)
  show ?thesis unfolding d'
  proof (rule dl_inv_publish[OF inv])
    show "mset (waiting d) = add_mset (fst (dm_gos d ! g ! i), snd (dm_gos d ! g ! i))
        (mset (waiting (d\<lparr>dm_gos := (dm_gos d)[g := drop_nth i (dm_gos d ! g)]\<rparr>)))"
      using mset_concat_drop[OF g] by (simp add: waiting_def)
  qed (use dl_invD(6)[OF inv] in simp_all)
next
  case (EOwn i u4 now)
  then have i: "i < length (dm_own d)"
    and d': "d' = publishOne hn u4 now (snd (dm_own d ! i)) (d\<lparr>dm_own := drop_nth i (dm_own d)\<rparr>)"
    using s by (auto split: if_splits)
  show ?thesis unfolding d'
  proof (rule dl_inv_publish[OF inv])
    show "mset (waiting d) = add_mset (fst (dm_own d ! i), snd (dm_own d ! i))
        (mset (waiting (d\<lparr>dm_own := drop_nth i (dm_own d)\<rparr>)))"
      using mset_drop_nth[OF i] by (simp add: waiting_def)
  qed (use dl_invD(6)[OF inv] i in simp_all)
next
  case EOffer
  then have "dm_phase d = Draining" "dm_wg d = 0" and d': "d' = d\<lparr>dm_phase := Offering\<rparr>"
    using s by (auto split: if_splits)
  then show ?thesis unfolding d' using inv by (simp add: dl_inv_def waiting_def)
next
  case ECall
  then show ?thesis using s inv by (auto simp: dl_inv_calls)
next
  case (EClose i)
  then show ?thesis using s dl_inv_Close_step[OF inv] by (auto split: if_splits)
qed

lemma dl_run_invariant:
  assumes step: "\<And>d e d'. P d \<Longrightarrow> dl_step hn e d = Some d' \<Longrightarrow> P d'"
  shows "P d \<Longrightarrow> dl_run hn es d = Some d' \<Longrightarrow> P d'"
proof (induction es arbitrary: d)
  case (Cons e es)
  then obtain d1 where "dl_step hn e d = Some d1" "dl_run hn es d1 = Some d'"
    by (auto split: if_splits simp: Option.bind_eq_Some_conv)
  then show ?case using Cons step by blast
qed simp

lemma dl_run_inv: "dl_run hn es (ReloadDlCacheMgr opt env) = Some d \<Longrightarrow> dl_inv d"
  by (rule dl_run_invariant[where P = dl_inv, OF dl_inv_step dl_inv_start])

section \<open>Properties\<close>

definition dl_small :: "'s DlCacheMgr \<Rightarrow> bool" where
  "dl_small d \<longleftrightarrow> (\<forall>p\<in>set (dm_cache d). dr_CumSize (snd p) \<le>s do_DlLimit (dm_option d))"

lemma dl_small_set_closer [simp]: "dl_small (set_closer i c d) = dl_small d"
  by (simp add: dl_small_def set_closer_def)

lemma set_update_subset: "set (AList.update k r c) \<subseteq> insert (k, r) (set c)"
  by (induction c) auto

lemma dl_small_recv:
  assumes sm: "dl_small d"
  shows "dl_small (serve_recv now dl d)"
proof -
  let ?k = "dl_PathKey dl" and ?m = "merged now dl (dm_cache d)"
  have u: "p = (?k, ?m) \<or> p \<in> set (dm_cache d)" if "p \<in> set (AList.update ?k ?m (dm_cache d))" for p
    using that set_update_subset[of ?k ?m "dm_cache d"] by blast
  have old: "dr_CumSize (snd p) \<le>s do_DlLimit (dm_option d)" if "p \<in> set (dm_cache d)" for p
    using sm that unfolding dl_small_def by blast
  show ?thesis
  proof (cases "do_DlLimit (dm_option d) <s dr_CumSize ?m")
    case True
    have "p \<in> set (dm_cache d)" if "p \<in> set (AList.delete ?k (AList.update ?k ?m (dm_cache d)))" for p
    proof -
      have "p \<in> set (AList.update ?k ?m (dm_cache d))" "fst p \<noteq> ?k" using that by (auto simp: AList.delete_eq)
      then show ?thesis using u[of p] by auto
    qed
    then show ?thesis using True old by (simp add: serve_recv_def dl_small_def Let_def)
  next
    case False
    then have m: "dr_CumSize ?m \<le>s do_DlLimit (dm_option d)" by (simp add: word_sless_alt word_sle_eq)
    have "dr_CumSize (snd p) \<le>s do_DlLimit (dm_option d)"
      if "p \<in> set (AList.update ?k ?m (dm_cache d))" for p
      using u[OF that]
    proof
      assume "p = (?k, ?m)" then show ?thesis using m by simp
    qed (rule old)
    then show ?thesis using False by (simp add: serve_recv_def dl_small_def Let_def)
  qed
qed

lemma dl_small_same: "dm_cache d' = dm_cache d \<Longrightarrow> dm_option d' = dm_option d \<Longrightarrow> dl_small d \<Longrightarrow> dl_small d'"
  by (simp add: dl_small_def)

lemma dl_small_empty: "dm_cache d = [] \<Longrightarrow> dl_small d"
  by (simp add: dl_small_def)

lemma dl_small_step:
  assumes sm: "dl_small d" and s: "dl_step hn e d = Some d'"
  shows "dl_small d'"
proof (cases e)
  case (ERecv now dl)
  then show ?thesis using s sm dl_small_recv by (auto simp: Record_def split: if_splits)
next
  case ETick
  then show ?thesis using s by (auto simp: serve_tick_def split: if_splits intro: dl_small_empty)
next
  case (EClose i)
  then have "Close_step i d = Some d'" using s by (auto split: if_splits)
  then show ?thesis
  proof (cases rule: Close_step_cases)
    case drain
    then show ?thesis by (simp add: dl_small_empty serve_drain_def)
  qed (simp_all add: sm dl_small_same[OF _ _ sm])
qed (use s in \<open>auto simp: publishOne_def Let_def split: if_splits intro: dl_small_same[OF _ _ sm]\<close>)

text \<open>C16: downloads are accounted for exactly. In every reachable state, and for every path key, the bytes of
  the received downloads are those in the cache, those of reports under way and those reported, in
  64-bit arithmetic; the statistics hold the reported ones. No recorder above the limit stays in the
  cache. When \<open>serve\<close> offers its token, and hence when \<open>Close\<close> has returned, everything is reported.\<close>

theorem dl_bytes_conserved:
  assumes "dl_run hn es (ReloadDlCacheMgr opt env) = Some d"
  shows "in_bytes k (dm_in d) = bytes k (dm_cache d) + bytes k (waiting d) + out_bytes k (dm_out d)
    \<and> dm_stat d k = out_bytes k (dm_out d)
    \<and> (\<forall>p\<in>set (dm_cache d). dr_CumSize (snd p) \<le>s do_DlLimit (dm_option d))
    \<and> (dm_phase d \<in> {Offering, Gone} \<or> dm_closed d \<longrightarrow> in_bytes k (dm_in d) = out_bytes k (dm_out d))"
proof -
  have inv: "dl_inv d" using assms by (rule dl_run_inv)
  have "dl_small d"
    by (rule dl_run_invariant[where P = dl_small, OF dl_small_step _ assms])
      (simp_all add: dl_small_def ReloadDlCacheMgr_def)
  moreover have "in_bytes k (dm_in d) = out_bytes k (dm_out d)" if "dm_phase d \<in> {Offering, Gone} \<or> dm_closed d"
    using that dl_invD(1,2)[OF inv, of k] dl_invD(7-9)[OF inv] by auto
  moreover have "in_bytes k (dm_in d) = bytes k (dm_cache d) + bytes k (waiting d) + out_bytes k (dm_out d)"
    "dm_stat d k = out_bytes k (dm_out d)" using dl_invD(1,2)[OF inv, of k] by simp_all
  ultimately show ?thesis by (simp add: dl_small_def)
qed

definition toy_dl :: "string \<Rightarrow> i64 \<Rightarrow> Dl" where
  "toy_dl k n = \<lparr>dl_PathKey = k, dl_Path = k, dl_Size = n, dl_From = [], dl_To = [], dl_TenantID = 1,
     dl_UserID = 1, dl_ClientIP = [], dl_StartTime = 0\<rparr>"

definition toy_opt :: DlOption where "toy_opt = \<lparr>do_DlLimit = 100, do_Timeout = 20, do_Ctx = Live\<rparr>"

definition toy_dl_events :: "dl_event list" where
  "toy_dl_events = [ERecv 1 (toy_dl ''a'' 60), ERecv 2 (toy_dl ''b'' 5), ERecv 3 (toy_dl ''a'' 70), ECall,
     EClose 0, EClose 0, EClose 0, EClose 0, EPublish 0 0 ''u1'' 9, EOwn 0 ''u2'' 9, EOffer, EClose 0]"

definition toy_end :: "unit DlCacheMgr" where
  "toy_end = the (dl_run (\<lambda>_ _ s. (True, s)) toy_dl_events (ReloadDlCacheMgr toy_opt ()))"

lemma toy_end_run: "dl_run (\<lambda>_ _ s. (True, s)) toy_dl_events (ReloadDlCacheMgr toy_opt ()) = Some toy_end"
  "dm_closed toy_end" "in_bytes ''a'' (dm_in toy_end) = 130"
proof -
  have "\<not> Option.is_none (dl_run (\<lambda>_ _ s. (True, s)) toy_dl_events (ReloadDlCacheMgr toy_opt ()))"
    by code_simp
  then show "dl_run (\<lambda>_ _ s. (True, s)) toy_dl_events (ReloadDlCacheMgr toy_opt ()) = Some toy_end"
    unfolding toy_end_def by (cases "dl_run (\<lambda>_ _ s. (True, s)) toy_dl_events (ReloadDlCacheMgr toy_opt ())")
      (simp_all add: Option.is_none_def)
  show "dm_closed toy_end" by code_simp
  show "in_bytes ''a'' (dm_in toy_end) = 130" by code_simp
qed

theorem dl_bytes_conserved_witness: "out_bytes ''a'' (dm_out toy_end) = 130"
  using dl_bytes_conserved[OF toy_end_run(1), of "''a''"] toy_end_run(2,3) by simp

text \<open>A caller that sent on \<open>drainC\<close>, and whose token is gone.\<close>

definition orphaned :: "nat \<Rightarrow> 's DlCacheMgr \<Rightarrow> bool" where
  "orphaned i d \<longleftrightarrow> i < length (dm_closers d) \<and> dm_closers d ! i \<in> {CDrained, CWait} \<and> dm_phase d = Gone
     \<and> \<not> dm_closed d"

lemma orphaned_set_closer:
  "orphaned i d \<Longrightarrow> i \<noteq> j \<or> c \<in> {CDrained, CWait} \<Longrightarrow> orphaned i (set_closer j c d)"
  by (cases "i = j") (auto simp: orphaned_def set_closer_def)

lemma orphaned_step:
  assumes o: "orphaned i d" and s: "dl_step hn e d = Some d'"
  shows "orphaned i d'"
proof (cases e)
  case (ERecv now dl)
  then show ?thesis using s o by (auto simp: Record_def orphaned_def split: if_splits)
next
  case (EClose j)
  then have c: "Close_step j d = Some d'" using s by (auto split: if_splits)
  have ph: "dm_phase d = Gone" "\<not> dm_closed d" "dm_closers d ! i \<in> {CDrained, CWait}" using o by (auto simp: orphaned_def)
  show ?thesis
  proof (cases "i = j")
    case True
    then have "d' = set_closer j CWait d" using c ph by (auto simp: Close_step_def)
    then show ?thesis using orphaned_set_closer[OF o] by simp
  next
    case False
    have oo: "orphaned i (d\<lparr>dm_once := x\<rparr>)" for x using o by (simp add: orphaned_def)
    from c show ?thesis
      by (cases rule: Close_step_cases)
        (use ph False o oo in \<open>simp_all add: orphaned_set_closer\<close>)
  qed
qed (use s o in \<open>auto simp: orphaned_def publishOne_def Let_def nth_append split: if_splits\<close>)

text \<open>Two calls of \<open>Close\<close>: the first has sent on \<open>drainC\<close> and is not yet waiting for the token when the
  second looks at \<open>doneC\<close>.\<close>

definition steal :: "dl_event list" where
  "steal = [ECall, EClose 0, EClose 0, EClose 0, EOffer, ECall, EClose 1]"

text \<open>Two concurrent calls of \<open>Close\<close> can end in a deadlock. The second call takes the token that
  \<open>serve\<close> offers to the first and returns. From then on the first call never returns, the channels are
  never closed, and no download can be recorded, whatever else happens.\<close>

theorem close_token_stolen:
  assumes "dl_run hn steal (ReloadDlCacheMgr opt env) = Some d" "dl_run hn es d = Some d'"
  shows "dm_closers d = [CDrained, CReturned] \<and> dm_closers d' ! 0 \<noteq> CReturned \<and> \<not> dm_closed d'
    \<and> (0 <s dl_Size dl \<longrightarrow> fst (Record now dl d') = Blocked)"
proof -
  have d: "dm_closers d = [CDrained, CReturned]" "dm_phase d = Gone" "\<not> dm_closed d"
    using assms(1)
    by (auto simp: steal_def ReloadDlCacheMgr_def Close_step_def set_closer_def serve_drain_def)
  then have "orphaned 0 d" by (simp add: orphaned_def)
  from dl_run_invariant[where P = "orphaned 0", OF orphaned_step this assms(2)]
  have "orphaned 0 d'" .
  then show ?thesis using d by (auto simp: orphaned_def Record_def word_sless_alt word_sle_eq)
qed

theorem close_token_stolen_witness:
  "\<exists>d. dl_run (\<lambda>_ _ s. (True, s)) steal (ReloadDlCacheMgr toy_opt ()) = Some d \<and> \<not> dm_closed d"
proof -
  have r: "dl_run (\<lambda>_ _ s. (True, s)) steal (ReloadDlCacheMgr toy_opt ())
      = Some (the (dl_run (\<lambda>_ _ s. (True, s)) steal (ReloadDlCacheMgr toy_opt ())))"
    by (simp add: steal_def ReloadDlCacheMgr_def Close_step_def set_closer_def serve_drain_def)
  then show ?thesis using close_token_stolen[OF r, of "[]"] by auto
qed

section \<open>Composition with the billing client\<close>

definition bill :: "'u utab \<Rightarrow> (event \<Rightarrow> 's \<Rightarrow> bool \<times> 's) \<Rightarrow> int \<Rightarrow> ('u \<times> 's) handler" where
  "bill TU put now c u ts = (case SendTransferUsage TU put now c u (fst ts) (snd ts) of (ok, t, s) \<Rightarrow> (ok, (t, s)))"

text \<open>The options that \<open>createServerInstance\<close> and \<open>OnRefresh\<close> of \<open>web/routers/server.go\<close> pass; the latter
  leaves the context out.\<close>

definition startOption :: DlOption where
  "startOption = \<lparr>do_DlLimit = 200 * 1024 * 1024, do_Timeout = 20, do_Ctx = Live\<rparr>"

definition refreshOption :: DlOption where
  "refreshOption = \<lparr>do_DlLimit = 200 * 1024 * 1024, do_Timeout = 20, do_Ctx = NilCtx\<rparr>"

definition crash_iff :: "('u \<times> 's) DlCacheMgr \<Rightarrow> bool" where
  "crash_iff d \<longleftrightarrow> (dm_crashed d \<longleftrightarrow> do_Ctx (dm_option d) = NilCtx \<and> dm_out d \<noteq> [])"

lemma fst_bill:
  "fst (bill TU put now c u ts) \<longleftrightarrow> c \<noteq> NilCtx"
  by (cases c) (auto simp: bill_def SendTransferUsage_def deliver_def put_event_def split: prod.splits bool.splits
      sent.splits)

lemma crash_iff_step:
  assumes o: "crash_iff d \<and> dm_option d = opt" and s: "dl_step (bill TU put now) e d = Some d'"
  shows "crash_iff d' \<and> dm_option d' = opt"
proof (cases e)
  case (ERecv now dl)
  then show ?thesis using s o by (auto simp: Record_def serve_recv_def Let_def crash_iff_def split: if_splits)
next
  case (EPublish g i u4 now)
  then show ?thesis using s o by (auto simp: publishOne_def Let_def crash_iff_def fst_bill split: if_splits)
next
  case (EOwn i u4 now)
  then show ?thesis using s o by (auto simp: publishOne_def Let_def crash_iff_def fst_bill split: if_splits)
next
  case (EClose i)
  then have "Close_step i d = Some d'" using s by (auto split: if_splits)
  then show ?thesis
    by (cases rule: Close_step_cases) (use o in \<open>simp_all add: crash_iff_def set_closer_def serve_drain_def\<close>)
qed (use s o in \<open>auto simp: crash_iff_def serve_tick_def split: if_splits\<close>)

text \<open>The agent crashes at its first download report after a refresh. With the billing client as the
  handler, a cache crashes exactly if it was built without a context and has reported something: never
  with the options of the first start, and with those of \<open>OnRefresh\<close> at the first report.\<close>

theorem report_crashes_iff_no_context:
  assumes "dl_run (bill TU put now) es (ReloadDlCacheMgr opt ts) = Some d"
  shows "(dm_crashed d \<longleftrightarrow> do_Ctx opt = NilCtx \<and> dm_out d \<noteq> [])
    \<and> (opt = startOption \<longrightarrow> \<not> dm_crashed d) \<and> (opt = refreshOption \<and> dm_out d \<noteq> [] \<longrightarrow> dm_crashed d)"
proof -
  have "crash_iff d \<and> dm_option d = opt"
    by (rule dl_run_invariant[where P = "\<lambda>d. crash_iff d \<and> dm_option d = opt", OF crash_iff_step _ assms])
      (simp_all add: crash_iff_def ReloadDlCacheMgr_def)
  then show ?thesis by (simp add: crash_iff_def startOption_def refreshOption_def)
qed

definition toy_report :: "dl_event list" where
  "toy_report = [ERecv 1 (toy_dl ''a'' 60), ETick, EPublish 0 0 ''u1'' 9]"

definition toy_refreshed :: "(UsageItem list \<times> bool \<times> event list) DlCacheMgr" where
  "toy_refreshed = the (dl_run (bill (list_table usage_schema) toy_put 9) toy_report
     (ReloadDlCacheMgr refreshOption ([], (True, []))))"

theorem report_crashes_iff_no_context_witness: "dm_crashed toy_refreshed"
proof -
  let ?r = "dl_run (bill (list_table usage_schema) toy_put 9) toy_report (ReloadDlCacheMgr refreshOption ([], (True, [])))"
  have "\<not> Option.is_none ?r" by code_simp
  then have r: "?r = Some toy_refreshed" unfolding toy_refreshed_def by (cases ?r) (simp_all add: Option.is_none_def)
  have "dm_out toy_refreshed \<noteq> []" by code_simp
  moreover have "do_Ctx refreshOption = NilCtx" by (simp add: refreshOption_def)
  ultimately show ?thesis using report_crashes_iff_no_context[OF r] by simp
qed

end
