(* ===== verification/WorkQueue.thy ===== *)
theory WorkQueue
  imports Prelude
begin

text \<open>
  The job queue of \<open>pkg/queue/queue.go\<close>: a dispatcher that hands each submitted job to a goroutine, which
  waits for the channel of an idle worker in the pool and sends the job on it; the worker starts the job in
  yet another goroutine and waits for the end of its context. The goroutines are interleaved as atomic
  steps, an event each. Jobs are of any type \<open>'j\<close>; the rate limiter only delays a submission.
\<close>

section \<open>State\<close>

text \<open>A worker is about to put its channel into the pool, waits for a job, waits for the context of a job,
  has seen that context end, or has left.\<close>

datatype 'j Worker = WOffer | WIdle | WBusy 'j | WDone | WGone

text \<open>\<open>d_pending\<close>: jobs whose goroutine waits for a channel; \<open>d_sending\<close>: jobs whose goroutine has the channel of
  a worker; \<open>d_running\<close>: jobs in execution, with their worker and whether their context was cancelled.
  \<open>d_finished\<close> and \<open>d_submitted\<close> record what was run to its end and what was accepted.\<close>

record 'j Dispatcher =
  d_workers :: "'j Worker list"
  d_pool :: "nat list"
  d_pending :: "'j list"
  d_sending :: "(nat \<times> 'j) list"
  d_running :: "(nat \<times> 'j \<times> bool) list"
  d_finished :: "'j list"
  d_submitted :: "'j list"
  d_doneC :: bool
  d_alive :: bool
  d_open :: bool

text \<open>\<open>createDispatcher\<close> and \<open>Start\<close>.\<close>

definition MaxWorker :: nat where "MaxWorker = 10"

definition createDispatcher :: "int \<Rightarrow> 'j Dispatcher" where
  "createDispatcher maxWorkers =
     (let n = (if maxWorkers < 0 then MaxWorker else nat maxWorkers)
      in \<lparr>d_workers = replicate n WOffer, d_pool = [], d_pending = [], d_sending = [], d_running = [],
          d_finished = [], d_submitted = [], d_doneC = False, d_alive = True, d_open = True\<rparr>)"

section \<open>Steps\<close>

datatype submit_res = Queued | Waits | PanicClosed

definition SubmitJob :: "'j \<Rightarrow> 'j Dispatcher \<Rightarrow> submit_res \<times> 'j Dispatcher" where
  "SubmitJob j d =
     (if \<not> d_open d then (PanicClosed, d)
      else if d_alive d then (Queued, d\<lparr>d_pending := d_pending d @ [j], d_submitted := d_submitted d @ [j]\<rparr>)
      else (Waits, d))"

text \<open>The goroutine of a job pops a channel out of the pool, then sends the job on it.\<close>

definition take_channel :: "nat \<Rightarrow> 'j Dispatcher \<Rightarrow> 'j Dispatcher option" where
  "take_channel i d = (case d_pool d of
     w # ws \<Rightarrow> if i < length (d_pending d)
        then Some (d\<lparr>d_pool := ws, d_pending := drop_nth i (d_pending d),
                     d_sending := d_sending d @ [(w, d_pending d ! i)]\<rparr>)
        else None
   | [] \<Rightarrow> None)"

definition send_job :: "nat \<Rightarrow> 'j Dispatcher \<Rightarrow> 'j Dispatcher option" where
  "send_job i d =
     (if i < length (d_sending d) \<and> d_workers d ! fst (d_sending d ! i) = WIdle
      then (let (w, j) = d_sending d ! i
            in Some (d\<lparr>d_workers := (d_workers d)[w := WBusy j], d_sending := drop_nth i (d_sending d),
                       d_running := d_running d @ [(w, j, False)]\<rparr>))
      else None)"

text \<open>The worker: it offers its channel (the pool has room for all workers), and goes on once the context of
  its job is done.\<close>

definition worker_offer :: "nat \<Rightarrow> 'j Dispatcher \<Rightarrow> 'j Dispatcher option" where
  "worker_offer w d =
     (if w < length (d_workers d) \<and> d_workers d ! w = WOffer \<and> length (d_pool d) < length (d_workers d)
      then Some (d\<lparr>d_workers := (d_workers d)[w := WIdle], d_pool := d_pool d @ [w]\<rparr>) else None)"

definition worker_next :: "nat \<Rightarrow> 'j Dispatcher \<Rightarrow> 'j Dispatcher option" where
  "worker_next w d =
     (if w < length (d_workers d) \<and> d_workers d ! w = WDone
      then Some (d\<lparr>d_workers := (d_workers d)[w := WOffer]\<rparr>) else None)"

text \<open>The goroutine of a running job ends; its deferred call cancels the context of the job.\<close>

definition finish_job :: "nat \<Rightarrow> 'j Dispatcher \<Rightarrow> 'j Dispatcher option" where
  "finish_job i d =
     (if i < length (d_running d)
      then (let (w, j, cancelled) = d_running d ! i
            in Some (d\<lparr>d_running := drop_nth i (d_running d), d_finished := d_finished d @ [j],
                       d_workers := (if cancelled then d_workers d else (d_workers d)[w := WDone])\<rparr>))
      else None)"

text \<open>A worker receives the quit signal: it cancels the context of its job and leaves without waiting for
  the job.\<close>

definition cancel_of :: "nat \<Rightarrow> nat \<times> 'j \<times> bool \<Rightarrow> nat \<times> 'j \<times> bool" where
  "cancel_of w r = (case r of (v, j, c) \<Rightarrow> (v, j, c \<or> v = w))"

definition worker_quit :: "nat \<Rightarrow> 'j Dispatcher \<Rightarrow> 'j Dispatcher option" where
  "worker_quit w d =
     (if d_doneC d \<and> w < length (d_workers d) \<and> d_workers d ! w \<notin> {WOffer, WGone}
      then Some (d\<lparr>d_workers := (d_workers d)[w := WGone], d_running := map (cancel_of w) (d_running d)\<rparr>)
      else None)"

text \<open>\<open>Close\<close>: end the dispatcher and offer the quit signals; close the queue of the jobs; it returns when
  all workers have left.\<close>

definition close_begin :: "'j Dispatcher \<Rightarrow> 'j Dispatcher" where
  "close_begin d = d\<lparr>d_doneC := True\<rparr>"

definition close_queue :: "'j Dispatcher \<Rightarrow> 'j Dispatcher option" where
  "close_queue d = (if d_doneC d then Some (d\<lparr>d_open := False\<rparr>) else None)"

definition close_returned :: "'j Dispatcher \<Rightarrow> bool" where
  "close_returned d \<longleftrightarrow> \<not> d_open d \<and> (\<forall>w\<in>set (d_workers d). w = WGone)"

datatype 'j q_event = QSubmit 'j | QTake nat | QSend nat | QOffer nat | QNext nat | QFinish nat | QQuit nat
  | QCloseBegin | QDispatchExit | QCloseQueue

fun q_step :: "'j q_event \<Rightarrow> 'j Dispatcher \<Rightarrow> 'j Dispatcher option" where
  "q_step (QSubmit j) d = (case SubmitJob j d of (Queued, d') \<Rightarrow> Some d' | _ \<Rightarrow> None)"
| "q_step (QTake i) d = take_channel i d"
| "q_step (QSend i) d = send_job i d"
| "q_step (QOffer w) d = worker_offer w d"
| "q_step (QNext w) d = worker_next w d"
| "q_step (QFinish i) d = finish_job i d"
| "q_step (QQuit w) d = worker_quit w d"
| "q_step QCloseBegin d = Some (close_begin d)"
| "q_step QDispatchExit d = (if d_doneC d then Some (d\<lparr>d_alive := False\<rparr>) else None)"
| "q_step QCloseQueue d = close_queue d"

fun q_run :: "'j q_event list \<Rightarrow> 'j Dispatcher \<Rightarrow> 'j Dispatcher option" where
  "q_run [] d = Some d"
| "q_run (e # es) d = Option.bind (q_step e d) (q_run es)"

section \<open>Invariant\<close>

definition uncancelled :: "'j Dispatcher \<Rightarrow> (nat \<times> 'j \<times> bool) list" where
  "uncancelled d = filter (\<lambda>r. \<not> snd (snd r)) (d_running d)"

definition holders :: "'j Dispatcher \<Rightarrow> nat list" where
  "holders d = d_pool d @ map fst (d_sending d)"

definition q_jobs :: "'j Dispatcher \<Rightarrow> 'j multiset" where
  "q_jobs d = mset (d_pending d) + mset (map snd (d_sending d)) + mset (map (fst \<circ> snd) (d_running d))
     + mset (d_finished d)"

definition q_inv :: "'j Dispatcher \<Rightarrow> bool" where
  "q_inv d \<longleftrightarrow>
     mset (d_submitted d) = q_jobs d
   \<and> distinct (holders d)
   \<and> (\<forall>w\<in>set (holders d). w < length (d_workers d) \<and> d_workers d ! w \<in> {WIdle, WGone})
   \<and> distinct (map fst (uncancelled d))
   \<and> (\<forall>r\<in>set (uncancelled d). fst r < length (d_workers d) \<and> d_workers d ! fst r = WBusy (fst (snd r)))
   \<and> (\<not> d_doneC d \<longrightarrow> uncancelled d = d_running d)"

lemma q_invI:
  assumes "mset (d_submitted d) = q_jobs d" "distinct (holders d)"
    "\<And>w. w \<in> set (holders d) \<Longrightarrow> w < length (d_workers d) \<and> d_workers d ! w \<in> {WIdle, WGone}"
    "distinct (map fst (uncancelled d))"
    "\<And>r. r \<in> set (uncancelled d) \<Longrightarrow> fst r < length (d_workers d) \<and> d_workers d ! fst r = WBusy (fst (snd r))"
    "\<not> d_doneC d \<Longrightarrow> uncancelled d = d_running d"
  shows "q_inv d"
  using assms unfolding q_inv_def by blast

lemma q_invD:
  assumes "q_inv d"
  shows "mset (d_submitted d) = q_jobs d" "distinct (holders d)"
    "w \<in> set (holders d) \<Longrightarrow> w < length (d_workers d)" "w \<in> set (holders d) \<Longrightarrow> d_workers d ! w \<in> {WIdle, WGone}"
    "distinct (map fst (uncancelled d))"
    "r \<in> set (uncancelled d) \<Longrightarrow> fst r < length (d_workers d)"
    "r \<in> set (uncancelled d) \<Longrightarrow> d_workers d ! fst r = WBusy (fst (snd r))"
    "\<not> d_doneC d \<Longrightarrow> uncancelled d = d_running d"
  using assms unfolding q_inv_def by blast+

lemma q_inv_start: "q_inv (createDispatcher n)"
  by (rule q_invI) (simp_all add: createDispatcher_def Let_def q_jobs_def holders_def uncancelled_def)

text \<open>Steps that change neither the workers nor the running jobs.\<close>

lemma q_inv_same:
  assumes inv: "q_inv d" and h: "set (holders d') = set (holders d)" "distinct (holders d')"
    and e: "d_workers d' = d_workers d" "d_running d' = d_running d" "d_doneC d \<longrightarrow> d_doneC d'"
    and j: "mset (d_submitted d') - mset (d_submitted d) + q_jobs d = q_jobs d'" "mset (d_submitted d) \<subseteq># mset (d_submitted d')"
  shows "q_inv d'"
proof -
  have u: "uncancelled d' = uncancelled d" using e by (simp add: uncancelled_def)
  have "mset (d_submitted d') = q_jobs d'"
    using j q_invD(1)[OF inv] by (metis subset_mset.diff_add)
  then show ?thesis
    by (rule q_invI) (unfold u h(1) e(1,2), use h(2) e(3) q_invD(3-8)[OF inv] in \<open>blast+\<close>)
qed

lemma q_inv_submit: "q_inv d \<Longrightarrow> SubmitJob j d = (Queued, d') \<Longrightarrow> q_inv d'"
proof (rule q_inv_same)
  assume s: "SubmitJob j d = (Queued, d')"
  then have d': "d' = d\<lparr>d_pending := d_pending d @ [j], d_submitted := d_submitted d @ [j]\<rparr>"
    by (simp add: SubmitJob_def split: if_splits)
  assume inv: "q_inv d"
  show "mset (d_submitted d') - mset (d_submitted d) + q_jobs d = q_jobs d'" by (simp add: d' q_jobs_def)
  show "set (holders d') = set (holders d)" "distinct (holders d')" using q_invD(2)[OF inv]
    by (simp_all add: d' holders_def)
  show "d_workers d' = d_workers d" "d_running d' = d_running d" "d_doneC d \<longrightarrow> d_doneC d'"
    "mset (d_submitted d) \<subseteq># mset (d_submitted d')" by (simp_all add: d')
qed

lemma q_inv_take:
  assumes inv: "q_inv d" and s: "take_channel i d = Some d'"
  shows "q_inv d'"
proof -
  obtain w ws where p: "d_pool d = w # ws" and i: "i < length (d_pending d)"
    and d': "d' = d\<lparr>d_pool := ws, d_pending := drop_nth i (d_pending d),
                     d_sending := d_sending d @ [(w, d_pending d ! i)]\<rparr>"
    using s by (auto simp: take_channel_def split: list.splits if_splits)
  have hm: "mset (holders d') = mset (holders d)" using p by (simp add: d' holders_def)
  have h: "set (holders d') = set (holders d)" "distinct (holders d')"
    using q_invD(2)[OF inv] mset_eq_setD[OF hm] mset_eq_imp_distinct_iff[OF hm] by simp_all
  have "q_jobs d' = q_jobs d" using mset_drop_nth[OF i] by (simp add: d' q_jobs_def)
  then show ?thesis
    using h by (intro q_inv_same[OF inv]) (simp_all add: d')
qed

lemma q_inv_send:
  assumes inv: "q_inv d" and s: "send_job i d = Some d'"
  shows "q_inv d'"
proof -
  obtain w j where e: "d_sending d ! i = (w, j)" by fastforce
  then have i: "i < length (d_sending d)" and idle: "d_workers d ! w = WIdle"
    and d': "d' = d\<lparr>d_workers := (d_workers d)[w := WBusy j], d_sending := drop_nth i (d_sending d),
                       d_running := d_running d @ [(w, j, False)]\<rparr>"
    using s by (auto simp: send_job_def split: if_splits)
  have m: "mset (d_sending d) = add_mset (w, j) (mset (drop_nth i (d_sending d)))"
    using mset_drop_nth[OF i] e by simp
  have "mset (holders d) = add_mset w (mset (holders d'))"
    using arg_cong[OF m, of "image_mset fst"] by (simp add: d' holders_def)
  then have hm: "mset (holders d) = mset (w # holders d')" by simp
  have h: "set (holders d) = insert w (set (holders d'))" "distinct (w # holders d')"
    using q_invD(2)[OF inv] mset_eq_setD[OF hm] mset_eq_imp_distinct_iff[OF hm] by simp_all
  have q: "q_jobs d' = q_jobs d" using arg_cong[OF m, of "image_mset snd"] by (simp add: d' q_jobs_def)
  have nb: "r \<in> set (uncancelled d) \<Longrightarrow> fst r \<noteq> w" for r using q_invD(7)[OF inv, of r] idle by auto
  have u: "uncancelled d' = uncancelled d @ [(w, j, False)]" by (simp add: d' uncancelled_def)
  have wl: "w < length (d_workers d)" using q_invD(3)[OF inv, of w] h by simp
  have ws: "d_workers d' = (d_workers d)[w := WBusy j]" "d_submitted d' = d_submitted d"
    "d_doneC d' = d_doneC d" "d_running d' = d_running d @ [(w, j, False)]" by (simp_all add: d')
  show ?thesis
  proof (rule q_invI)
    show "mset (d_submitted d') = q_jobs d'" using q_invD(1)[OF inv] \<open>q_jobs d' = q_jobs d\<close> ws by simp
    show "distinct (holders d')" using h by simp
    fix v assume "v \<in> set (holders d')"
    then have "v \<in> set (holders d)" "v \<noteq> w" using h by auto
    then show "v < length (d_workers d') \<and> d_workers d' ! v \<in> {WIdle, WGone}"
      using q_invD(3,4)[OF inv, of v] ws by simp
  next
    show "distinct (map fst (uncancelled d'))" using q_invD(5)[OF inv] nb u by auto
    show "\<not> d_doneC d' \<Longrightarrow> uncancelled d' = d_running d'" using q_invD(8)[OF inv] u ws by simp
    fix r assume "r \<in> set (uncancelled d')"
    then consider "r = (w, j, False)" | "r \<in> set (uncancelled d)" "fst r \<noteq> w" using u nb by auto
    then show "fst r < length (d_workers d') \<and> d_workers d' ! fst r = WBusy (fst (snd r))"
      by cases (use ws wl q_invD(6,7)[OF inv, of r] in simp_all)
  qed
qed

lemma q_inv_offer:
  assumes inv: "q_inv d" and s: "worker_offer w d = Some d'"
  shows "q_inv d'"
proof -
  have w: "w < length (d_workers d)" "d_workers d ! w = WOffer"
    and d': "d' = d\<lparr>d_workers := (d_workers d)[w := WIdle], d_pool := d_pool d @ [w]\<rparr>"
    using s by (auto simp: worker_offer_def split: if_splits)
  have nh: "w \<notin> set (holders d)" using q_invD(4)[OF inv, of w] w(2) by auto
  have nu: "fst r \<noteq> w" if "r \<in> set (uncancelled d)" for r using q_invD(7)[OF inv that] w(2) by auto
  have hm: "mset (holders d') = mset (w # holders d)" by (simp add: d' holders_def)
  have h: "set (holders d') = insert w (set (holders d))" "distinct (holders d')"
    using nh q_invD(2)[OF inv] mset_eq_setD[OF hm] mset_eq_imp_distinct_iff[OF hm] by simp_all
  have u: "uncancelled d' = uncancelled d" by (simp add: d' uncancelled_def)
  have ws: "d_workers d' = (d_workers d)[w := WIdle]" by (simp add: d')
  show ?thesis
  proof (rule q_invI)
    show "mset (d_submitted d') = q_jobs d'" using q_invD(1)[OF inv] by (simp add: d' q_jobs_def)
    show "distinct (holders d')" by (rule h)
    fix v assume "v \<in> set (holders d')"
    then consider "v = w" | "v \<in> set (holders d)" "v \<noteq> w" using h nh by auto
    then show "v < length (d_workers d') \<and> d_workers d' ! v \<in> {WIdle, WGone}"
      by cases (use q_invD(3,4)[OF inv, of v] ws w in simp_all)
  next
    show "distinct (map fst (uncancelled d'))" using q_invD(5)[OF inv] u by simp
    show "\<not> d_doneC d' \<Longrightarrow> uncancelled d' = d_running d'" using q_invD(8)[OF inv] u by (simp add: d')
    fix r assume "r \<in> set (uncancelled d')"
    then have "r \<in> set (uncancelled d)" using u by simp
    then show "fst r < length (d_workers d') \<and> d_workers d' ! fst r = WBusy (fst (snd r))"
      using nu[of r] q_invD(6,7)[OF inv, of r] ws by simp
  qed
qed

text \<open>Steps that change a worker which holds no uncancelled job afterwards and is in nobody's hands.\<close>

lemma q_inv_worker:
  assumes inv: "q_inv d" and w: "w \<notin> set (holders d) \<or> c = WGone"
    and d': "d_workers d' = (d_workers d)[w := c]" "holders d' = holders d" "d_submitted d' = d_submitted d"
      "q_jobs d' = q_jobs d" "\<not> d_doneC d' \<longrightarrow> uncancelled d' = d_running d'"
    and u: "set (uncancelled d') \<subseteq> set (uncancelled d)" "distinct (map fst (uncancelled d'))"
      "w \<notin> fst ` set (uncancelled d')"
  shows "q_inv d'"
proof (rule q_invI)
  show "mset (d_submitted d') = q_jobs d'" "distinct (holders d')" "distinct (map fst (uncancelled d'))"
    using q_invD(1,2)[OF inv] d' u by simp_all
  show "\<not> d_doneC d' \<Longrightarrow> uncancelled d' = d_running d'" using d'(5) by blast
next
  fix v assume "v \<in> set (holders d')"
  then have v: "v \<in> set (holders d)" by (simp add: d')
  then show "v < length (d_workers d') \<and> d_workers d' ! v \<in> {WIdle, WGone}"
    using q_invD(3,4)[OF inv v] w d'(1) by (cases "v = w") auto
next
  fix r assume r: "r \<in> set (uncancelled d')"
  then have "r \<in> set (uncancelled d)" "fst r \<noteq> w" using u by auto
  then show "fst r < length (d_workers d') \<and> d_workers d' ! fst r = WBusy (fst (snd r))"
    using q_invD(6,7)[OF inv, of r] d'(1) by simp
qed

lemma q_inv_next:
  assumes inv: "q_inv d" and s: "worker_next w d = Some d'"
  shows "q_inv d'"
proof -
  have w: "d_workers d ! w = WDone" and d': "d' = d\<lparr>d_workers := (d_workers d)[w := WOffer]\<rparr>"
    using s by (auto simp: worker_next_def split: if_splits)
  have "w \<notin> set (holders d)" using q_invD(4)[OF inv, of w] w by auto
  moreover have "w \<notin> fst ` set (uncancelled d)" using q_invD(7)[OF inv] w by fastforce
  ultimately show ?thesis using q_invD(5,8)[OF inv]
    by (intro q_inv_worker[OF inv, of w WOffer]) (simp_all add: d' holders_def q_jobs_def uncancelled_def)
qed

lemma q_inv_quit:
  assumes inv: "q_inv d" and s: "worker_quit w d = Some d'"
  shows "q_inv d'"
proof -
  have dc: "d_doneC d"
    and d': "d' = d\<lparr>d_workers := (d_workers d)[w := WGone], d_running := map (cancel_of w) (d_running d)\<rparr>"
    using s by (auto simp: worker_quit_def split: if_splits)
  have f: "filter (\<lambda>r. \<not> snd (snd r)) (map (cancel_of w) rs)
      = filter (\<lambda>r. fst r \<noteq> w) (filter (\<lambda>r. \<not> snd (snd r)) rs)" for rs :: "(nat \<times> 'a \<times> bool) list"
    by (induction rs) (auto simp: cancel_of_def)
  have u: "uncancelled d' = filter (\<lambda>r. fst r \<noteq> w) (uncancelled d)" by (simp add: d' uncancelled_def f)
  have "(fst \<circ> snd) (cancel_of w r) = (fst \<circ> snd) r" for r :: "nat \<times> 'a \<times> bool"
    by (cases r) (simp add: cancel_of_def)
  then have "map (fst \<circ> snd) (d_running d') = map (fst \<circ> snd) (d_running d)" by (simp add: d')
  then have "mset (map (fst \<circ> snd) (d_running d')) = mset (map (fst \<circ> snd) (d_running d))" by (rule arg_cong)
  moreover have "d_pending d' = d_pending d" "d_sending d' = d_sending d" "d_finished d' = d_finished d"
    by (simp_all add: d')
  ultimately have "q_jobs d' = q_jobs d" unfolding q_jobs_def by (simp only:)
  then show ?thesis using q_invD(5)[OF inv] dc
    by (intro q_inv_worker[OF inv, of w WGone])
      (auto simp: u distinct_map_filter, simp_all add: d' holders_def)
qed

lemma q_inv_finish:
  assumes inv: "q_inv d" and s: "finish_job i d = Some d'"
  shows "q_inv d'"
proof -
  obtain w j c where e: "d_running d ! i = (w, j, c)" by (metis prod_cases3)
  then have i: "i < length (d_running d)"
    and d': "d' = d\<lparr>d_running := drop_nth i (d_running d), d_finished := d_finished d @ [j],
                  d_workers := (if c then d_workers d else (d_workers d)[w := WDone])\<rparr>"
    using s by (auto simp: finish_job_def split: if_splits)
  have m: "mset (d_running d) = add_mset (w, j, c) (mset (drop_nth i (d_running d)))"
    using mset_drop_nth[OF i] e by simp
  have q: "q_jobs d' = q_jobs d" using arg_cong[OF m, of "image_mset (fst \<circ> snd)"] by (simp add: d' q_jobs_def)
  have r: "d_running d = take i (d_running d) @ (w, j, c) # drop (Suc i) (d_running d)"
    using id_take_nth_drop[OF i] e by simp
  have u: "uncancelled d = filter (\<lambda>r. \<not> snd (snd r)) (take i (d_running d)) @ (if c then [] else [(w, j, c)])
      @ filter (\<lambda>r. \<not> snd (snd r)) (drop (Suc i) (d_running d))"
    by (subst uncancelled_def, subst r) simp
  have u': "uncancelled d' = filter (\<lambda>r. \<not> snd (snd r)) (take i (d_running d))
      @ filter (\<lambda>r. \<not> snd (snd r)) (drop (Suc i) (d_running d))"
    by (simp add: d' uncancelled_def drop_nth_def)
  have in_u: "(w, j, c) \<in> set (uncancelled d)" if "\<not> c" using u that by simp
  have all: "uncancelled d' = d_running d'" if "\<not> d_doneC d"
  proof -
    have "\<forall>r\<in>set (d_running d). \<not> snd (snd r)"
      using q_invD(8)[OF inv that] by (metis (lifting) filter_id_conv uncancelled_def)
    then have "\<forall>r\<in>set (d_running d'). \<not> snd (snd r)"
      using set_drop_nth[of i "d_running d"] by (auto simp: d')
    then show ?thesis by (simp add: uncancelled_def)
  qed
  show ?thesis
  proof (cases c)
    case True
    then have "uncancelled d' = uncancelled d" using u u' by simp
    moreover have "length (d_workers d) \<notin> fst ` set (uncancelled d)" using q_invD(6)[OF inv] by fastforce
    moreover have "d_workers d' = (d_workers d)[length (d_workers d) := WGone]"
      using True by (simp add: d' list_update_beyond)
    ultimately show ?thesis using q_invD(5)[OF inv] all q
      by (intro q_inv_worker[OF inv, of "length (d_workers d)" WGone]) (auto simp: d' holders_def)
  next
    case False
    have busy: "d_workers d ! w = WBusy j" using q_invD(7)[OF inv in_u[OF False]] by simp
    have "w \<notin> set (holders d)" using q_invD(4)[OF inv, of w] busy by auto
    moreover have "distinct (map fst (uncancelled d'))" "w \<notin> fst ` set (uncancelled d')"
      "set (uncancelled d') \<subseteq> set (uncancelled d)"
      using q_invD(5)[OF inv] unfolding u u' using False by auto
    ultimately show ?thesis using all False q
      by (intro q_inv_worker[OF inv, of w WDone]) (auto simp: d' holders_def)
  qed
qed

lemma q_inv_step:
  assumes inv: "q_inv d" and s: "q_step e d = Some d'"
  shows "q_inv d'"
proof (cases e)
  case (QSubmit j)
  then show ?thesis using s q_inv_submit[OF inv] by (auto split: prod.splits submit_res.splits)
next
  case QCloseBegin
  then have "d' = d\<lparr>d_doneC := True\<rparr>" using s by (simp add: close_begin_def)
  then show ?thesis using q_invD(2)[OF inv]
    by (intro q_inv_same[OF inv]) (simp_all add: holders_def q_jobs_def)
next
  case QDispatchExit
  then have "d' = d\<lparr>d_alive := False\<rparr>" using s by (simp split: if_splits)
  then show ?thesis using q_invD(2)[OF inv]
    by (intro q_inv_same[OF inv]) (simp_all add: holders_def q_jobs_def)
next
  case QCloseQueue
  then have "d' = d\<lparr>d_open := False\<rparr>" using s by (simp add: close_queue_def split: if_splits)
  then show ?thesis using q_invD(2)[OF inv]
    by (intro q_inv_same[OF inv]) (simp_all add: holders_def q_jobs_def)
qed (use s q_inv_take[OF inv] q_inv_send[OF inv] q_inv_offer[OF inv] q_inv_next[OF inv] q_inv_finish[OF inv]
  q_inv_quit[OF inv] in \<open>simp_all\<close>)

lemma q_run_invariant:
  assumes step: "\<And>d e d'. P d \<Longrightarrow> q_step e d = Some d' \<Longrightarrow> P d'"
  shows "P d \<Longrightarrow> q_run es d = Some d' \<Longrightarrow> P d'"
proof (induction es arbitrary: d)
  case (Cons e es)
  then obtain d1 where "q_step e d = Some d1" "q_run es d1 = Some d'"
    by (auto simp: Option.bind_eq_Some_conv)
  then show ?case using Cons step by blast
qed simp

lemma q_run_inv: "q_run es (createDispatcher n) = Some d \<Longrightarrow> q_inv d"
  by (rule q_run_invariant[where P = q_inv, OF q_inv_step q_inv_start])

section \<open>Properties\<close>

lemma workers_step: "q_step e d = Some d' \<Longrightarrow> length (d_workers d') = length (d_workers d)"
  by (cases e) (auto simp: SubmitJob_def take_channel_def send_job_def worker_offer_def worker_next_def
      finish_job_def worker_quit_def close_begin_def close_queue_def Let_def
      split: if_splits list.splits prod.splits)

text \<open>C33: every accepted job is, exactly once, waiting, being sent, running or finished: none is lost or run
  twice. At most as many jobs are running with a live context as there are workers, and before \<open>Close\<close>
  no other job runs at all.\<close>

theorem dispatcher_exact:
  assumes "q_run es (createDispatcher n) = Some d"
  shows "mset (d_submitted d) = mset (d_pending d) + mset (map snd (d_sending d))
       + mset (map (fst \<circ> snd) (d_running d)) + mset (d_finished d)
    \<and> length (uncancelled d) \<le> (if n < 0 then 10 else nat n)
    \<and> (\<not> d_doneC d \<longrightarrow> length (d_running d) \<le> (if n < 0 then 10 else nat n))"
proof -
  have inv: "q_inv d" using assms by (rule q_run_inv)
  let ?n = "if n < 0 then 10 else nat n"
  have len: "length (d_workers d) = ?n"
    by (rule q_run_invariant[where P = "\<lambda>d. length (d_workers d) = ?n", OF _ _ assms])
      (drule workers_step, simp, simp add: createDispatcher_def MaxWorker_def Let_def)
  have "length (uncancelled d) = card (fst ` set (uncancelled d))"
    using q_invD(5)[OF inv] by (metis distinct_card length_map set_map)
  also have "\<dots> \<le> card {..<?n}"
    using q_invD(6)[OF inv] len by (intro card_mono) auto
  finally have "length (uncancelled d) \<le> ?n" by simp
  then show ?thesis using q_invD(1,8)[OF inv] by (auto simp: q_jobs_def)
qed

definition toy_q :: "string q_event list" where
  "toy_q = [QOffer 0, QSubmit ''a'', QSubmit ''b'', QTake 0, QSend 0]"

definition toy_close :: "string q_event list" where
  "toy_close = toy_q @ [QCloseBegin, QQuit 0, QDispatchExit, QCloseQueue]"

theorem dispatcher_exact_witness:
  "length (d_running (the (q_run toy_q (createDispatcher 1)))) \<le> 1"
proof -
  have r: "q_run toy_q (createDispatcher 1) = Some (the (q_run toy_q (createDispatcher 1)))"
    "\<not> d_doneC (the (q_run toy_q (createDispatcher 1)))" by code_simp+
  show ?thesis using dispatcher_exact[OF r(1)] r(2) by simp
qed

lemma returned_step:
  assumes inv: "q_inv d" and c: "close_returned d" and s: "q_step e d = Some d'"
  shows "close_returned d' \<and> mset (d_pending d') + mset (map snd (d_sending d'))
      = mset (d_pending d) + mset (map snd (d_sending d))"
proof (cases e)
  case (QSubmit j)
  then show ?thesis using s c by (auto simp: SubmitJob_def close_returned_def split: if_splits)
next
  case (QTake i)
  then obtain w ws where "d_pool d = w # ws" and i: "i < length (d_pending d)"
    and d': "d' = d\<lparr>d_pool := ws, d_pending := drop_nth i (d_pending d),
                     d_sending := d_sending d @ [(w, d_pending d ! i)]\<rparr>"
    using s by (auto simp: take_channel_def split: list.splits if_splits)
  then show ?thesis using c mset_drop_nth[OF i] by (simp add: close_returned_def)
next
  case (QSend i)
  then have i: "i < length (d_sending d)" "d_workers d ! fst (d_sending d ! i) = WIdle"
    using s by (auto simp: send_job_def split: if_splits)
  then have "fst (d_sending d ! i) \<in> set (holders d)" by (simp add: holders_def)
  from q_invD(3)[OF inv this] have "d_workers d ! fst (d_sending d ! i) = WGone"
    using c nth_mem unfolding close_returned_def by blast
  then show ?thesis using i(2) by simp
next
  case (QOffer w)
  then show ?thesis using s c by (auto simp: worker_offer_def close_returned_def split: if_splits dest!: nth_mem)
next
  case (QNext w)
  then show ?thesis using s c by (auto simp: worker_next_def close_returned_def split: if_splits dest!: nth_mem)
next
  case (QFinish i)
  obtain w j cc where e: "d_running d ! i = (w, j, cc)" by (metis prod_cases3)
  show ?thesis
  proof (cases cc)
    case True
    then show ?thesis using QFinish s c e by (auto simp: finish_job_def close_returned_def split: if_splits)
  next
    case False
    then have "i < length (d_running d)" using QFinish s by (auto simp: finish_job_def split: if_splits)
    then have "(w, j, cc) \<in> set (uncancelled d)" using e False by (auto simp: uncancelled_def in_set_conv_nth)
    from q_invD(6,7)[OF inv this] have "d_workers d ! w = WBusy j" "d_workers d ! w = WGone"
      using c nth_mem unfolding close_returned_def by fastforce+
    then show ?thesis by simp
  qed
next
  case (QQuit w)
  then show ?thesis using s c by (auto simp: worker_quit_def close_returned_def split: if_splits dest!: nth_mem)
qed (use s c in \<open>auto simp: close_begin_def close_queue_def close_returned_def split: if_splits\<close>)

text \<open>\<open>Close\<close> does not wait for the pending jobs. The jobs that have not been started when it returns are
  never started, whatever happens afterwards, and a further submission panics.\<close>

theorem close_abandons_jobs:
  assumes "q_run es (createDispatcher n) = Some d" "close_returned d" "q_run es' d = Some d'"
  shows "mset (d_pending d') + mset (map snd (d_sending d')) = mset (d_pending d) + mset (map snd (d_sending d))
    \<and> mset (map (fst \<circ> snd) (d_running d')) + mset (d_finished d')
        = mset (map (fst \<circ> snd) (d_running d)) + mset (d_finished d)
    \<and> fst (SubmitJob j d') = PanicClosed"
proof -
  let ?w = "\<lambda>d. mset (d_pending d) + mset (map snd (d_sending d))"
  let ?P = "\<lambda>x. q_inv x \<and> close_returned x \<and> ?w x = ?w d \<and> d_submitted x = d_submitted d"
  have "?P d'"
  proof (rule q_run_invariant[where P = ?P, OF _ _ assms(3)])
    show "?P d" using q_run_inv[OF assms(1)] assms(2) by simp
    fix x e x' assume x: "?P x" and s: "q_step e x = Some x'"
    have "d_submitted x' = d_submitted x"
    proof (cases e)
      case (QSubmit j)
      then show ?thesis using s x by (auto simp: SubmitJob_def close_returned_def split: if_splits)
    qed (use s in \<open>auto simp: take_channel_def send_job_def worker_offer_def worker_next_def finish_job_def
        worker_quit_def close_begin_def close_queue_def Let_def split: if_splits list.splits prod.splits\<close>)
    then show "?P x'" using x q_inv_step[OF _ s] returned_step[OF _ _ s] by simp
  qed
  moreover have "mset (d_submitted d) = q_jobs d" "mset (d_submitted d') = q_jobs d'"
    using q_run_inv[OF assms(1)] calculation q_invD(1) by blast+
  ultimately show ?thesis unfolding q_jobs_def by (simp add: SubmitJob_def close_returned_def)
qed

theorem close_abandons_jobs_witness:
  "d_pending (the (q_run toy_close (createDispatcher 1))) = [''b''] \<and>
   fst (SubmitJob ''c'' (the (q_run toy_close (createDispatcher 1)))) = PanicClosed"
proof -
  let ?d = "the (q_run toy_close (createDispatcher 1))"
  have r: "q_run toy_close (createDispatcher 1) = Some ?d" "close_returned ?d" "d_pending ?d = [''b'']"
    by code_simp+
  show ?thesis using close_abandons_jobs[OF r(1,2), of "[]" ?d "''c''"] r(3) by simp
qed

end
