(* ===== verification/TransferCtx.thy ===== *)
theory TransferCtx
  imports JobCtx
begin

text \<open>
  The registry of software transfers, \<open>internal/app/transfer_ctx.go\<close>. A transfer is a goroutine
  (\<open>block\<close>) that starts the function of the job in another one and waits until the context of the job is
  over: cancelled when the function returns or when the job is closed, or past its deadline. It then marks
  the job and reports its name to the scavenger, which drops the name from the map. Each operation is an
  atomic step. What the two registries promise their callers is the locale \<open>job_registry\<close>, interpreted
  here for both.
\<close>

section \<open>State\<close>

datatype TJobState = PENDING | TRUNNING | SUCCESS | TFAILED

text \<open>How the context of a job ended.\<close>

datatype ctx_err = Canceled | DeadlineExceeded

text \<open>A goroutine that the scheduler has not started yet is not counted by the wait group.\<close>

datatype tphase = NotStarted | Blocked | Reporting | Exited | Crashed

record transferJob =
  tj_appName :: string
  tj_ctx :: "ctx_err option"
  tj_func :: bool       \<comment> \<open>the function has returned\<close>
  tj_phase :: tphase
  tj_state :: TJobState

record TransferJobCtx =
  tc_jobs :: "transferJob list"   \<comment> \<open>every job ever registered\<close>
  tc_map :: "string \<rightharpoonup> nat"
  tc_doneC :: bool

definition newAppTransferJobCtx :: TransferJobCtx where
  "newAppTransferJobCtx = \<lparr>tc_jobs = [], tc_map = Map.empty, tc_doneC = False\<rparr>"

definition tupd :: "nat \<Rightarrow> (transferJob \<Rightarrow> transferJob) \<Rightarrow> TransferJobCtx \<Rightarrow> TransferJobCtx" where
  "tupd k f tc = tc\<lparr>tc_jobs := (tc_jobs tc)[k := f (tc_jobs tc ! k)]\<rparr>"

section \<open>Operations of the callers\<close>

definition TGetJobCtx :: "string \<Rightarrow> TransferJobCtx \<Rightarrow> nat option" where
  "TGetJobCtx app tc = tc_map tc app"

text \<open>A registered name gives the context of the job that holds it, and the new function is not run.\<close>

definition TRegisterJob :: "string \<Rightarrow> TransferJobCtx \<Rightarrow> (nat \<times> bool) \<times> TransferJobCtx" where
  "TRegisterJob app tc = (case TGetJobCtx app tc of
     Some k \<Rightarrow> ((k, False), tc)
   | None \<Rightarrow> (let k = length (tc_jobs tc) in ((k, True),
       tc\<lparr>tc_jobs := tc_jobs tc @ [\<lparr>tj_appName = app, tj_ctx = None, tj_func = False, tj_phase = NotStarted,
                                    tj_state = PENDING\<rparr>],
          tc_map := (tc_map tc)(app \<mapsto> k)\<rparr>)))"

definition cancel :: "transferJob \<Rightarrow> transferJob" where
  "cancel j = j\<lparr>tj_ctx := (case tj_ctx j of None \<Rightarrow> Some Canceled | Some e \<Rightarrow> Some e)\<rparr>"

definition tj_Close :: "nat \<Rightarrow> TransferJobCtx \<Rightarrow> TransferJobCtx" where
  "tj_Close k = tupd k cancel"

definition TDeRegister :: "string \<Rightarrow> TransferJobCtx \<Rightarrow> bool \<times> TransferJobCtx" where
  "TDeRegister app tc = (case tc_map tc app of
     None \<Rightarrow> (False, tc)
   | Some k \<Rightarrow> (True, (tj_Close k tc)\<lparr>tc_map := (tc_map tc)(app := None)\<rparr>))"

text \<open>\<open>Stop\<close> closes the jobs in the map, waits for the goroutines that are counted, and closes the channels.\<close>

definition TStop_close :: "string list \<Rightarrow> TransferJobCtx \<Rightarrow> TransferJobCtx" where
  "TStop_close apps tc = fold (\<lambda>a s. case tc_map s a of None \<Rightarrow> s | Some k \<Rightarrow> tj_Close k s) apps tc"

definition TStop_end :: "TransferJobCtx \<Rightarrow> TransferJobCtx option" where
  "TStop_end tc = 
     (if list_all (\<lambda>j. tj_phase j \<in> {NotStarted, Exited}) (tc_jobs tc) then Some (tc\<lparr>tc_doneC := True\<rparr>) else None)"

section \<open>The goroutines\<close>

text \<open>\<open>block\<close> starts, and starts the function.\<close>

definition block_starts :: "nat \<Rightarrow> TransferJobCtx \<Rightarrow> TransferJobCtx" where
  "block_starts k = tupd k (\<lambda>j. if tj_phase j = NotStarted then j\<lparr>tj_phase := Blocked\<rparr> else j)"

text \<open>The function returns, and cancels the context behind it; the deadline passes; \<open>block\<close> wakes up and marks
  the job, whatever the outcome; the scavenger receives the name and deletes it. Behind a finished \<open>Stop\<close>
  the send of the name panics.\<close>

definition func_returns :: "nat \<Rightarrow> TransferJobCtx \<Rightarrow> TransferJobCtx" where
  "func_returns k = tupd k (\<lambda>j. if tj_phase j = NotStarted then j else cancel (j\<lparr>tj_func := True\<rparr>))"

definition deadline :: "nat \<Rightarrow> TransferJobCtx \<Rightarrow> TransferJobCtx" where
  "deadline k = tupd k (\<lambda>j. j\<lparr>tj_ctx := (case tj_ctx j of None \<Rightarrow> Some DeadlineExceeded | Some e \<Rightarrow> Some e)\<rparr>)"

definition block_wakes :: "nat \<Rightarrow> TransferJobCtx \<Rightarrow> TransferJobCtx" where
  "block_wakes k = tupd k (\<lambda>j. if tj_phase j = Blocked \<and> tj_ctx j \<noteq> None
     then j\<lparr>tj_state := SUCCESS, tj_phase := Reporting\<rparr> else j)"

definition block_result :: "transferJob \<Rightarrow> ctx_err option" where
  "block_result j = (if tj_ctx j = Some Canceled then None else tj_ctx j)"

definition tscavenge :: "nat \<Rightarrow> TransferJobCtx \<Rightarrow> TransferJobCtx" where
  "tscavenge k tc =
     (if tj_phase (tc_jobs tc ! k) = Reporting
      then if tc_doneC tc then tupd k (\<lambda>j. j\<lparr>tj_phase := Crashed\<rparr>) tc
           else (tupd k (\<lambda>j. j\<lparr>tj_phase := Exited\<rparr>) tc)\<lparr>tc_map := (tc_map tc)(tj_appName (tc_jobs tc ! k) := None)\<rparr>
      else tc)"

datatype t_event = TReg string | TDeReg string | TStart nat | TFunc nat | TDeadline nat | TWake nat | TScav nat | TStop "string list" | TStopEnd

fun t_step :: "t_event \<Rightarrow> TransferJobCtx \<Rightarrow> TransferJobCtx" where
  "t_step (TReg app) tc = snd (TRegisterJob app tc)"
| "t_step (TDeReg app) tc = snd (TDeRegister app tc)"
| "t_step (TStart k) tc = (if k < length (tc_jobs tc) then block_starts k tc else tc)"
| "t_step (TFunc k) tc = (if k < length (tc_jobs tc) then func_returns k tc else tc)"
| "t_step (TDeadline k) tc = (if k < length (tc_jobs tc) then deadline k tc else tc)"
| "t_step (TWake k) tc = (if k < length (tc_jobs tc) then block_wakes k tc else tc)"
| "t_step (TScav k) tc = (if k < length (tc_jobs tc) then tscavenge k tc else tc)"
| "t_step (TStop apps) tc = TStop_close apps tc"
| "t_step TStopEnd tc = (case TStop_end tc of None \<Rightarrow> tc | Some tc' \<Rightarrow> tc')"

definition t_run :: "t_event list \<Rightarrow> TransferJobCtx" where
  "t_run es = fold t_step es newAppTransferJobCtx"

section \<open>The contract of a registry\<close>

locale job_registry =
  fixes reg :: "string \<Rightarrow> 's \<Rightarrow> (nat \<times> bool) \<times> 's"
    and get :: "string \<Rightarrow> 's \<Rightarrow> nat option"
    and dereg :: "string \<Rightarrow> 's \<Rightarrow> bool \<times> 's"
  assumes reg_held: "get a s = Some k \<Longrightarrow> reg a s = ((k, False), s)"
    and reg_free: "get a s = None \<Longrightarrow> snd (fst (reg a s)) \<and> get a (snd (reg a s)) = Some (fst (fst (reg a s)))"
    and reg_other: "b \<noteq> a \<Longrightarrow> get b (snd (reg a s)) = get b s"
    and dereg_get: "get b (snd (dereg a s)) = (if b = a then None else get b s)"
    and dereg_ok: "fst (dereg a s) \<longleftrightarrow> get a s \<noteq> None"
begin

lemma reg_get: "get a (snd (reg a s)) = Some (fst (fst (reg a s)))"
  using reg_held reg_free by (cases "get a s") auto

lemma reg_reg: "reg a (snd (reg a s)) = ((fst (fst (reg a s)), False), snd (reg a s))"
  using reg_held[OF reg_get] .

lemma dereg_reg: "snd (fst (reg a (snd (dereg a s))))"
  using reg_free[of a "snd (dereg a s)"] by (simp add: dereg_get)

lemma reg_dereg: "get b (snd (dereg a (snd (reg a s)))) = (if b = a then None else get b s)"
  by (simp add: dereg_get reg_other)

lemma reg_new_iff: "snd (fst (reg a s)) \<longleftrightarrow> get a s = None"
  using reg_held reg_free by (cases "get a s") auto

end

interpretation tctx: job_registry TRegisterJob TGetJobCtx TDeRegister
  by unfold_locales (auto simp: TRegisterJob_def TGetJobCtx_def TDeRegister_def Let_def tupd_def tj_Close_def
      split: option.splits)

interpretation jctx: job_registry RegisterJob GetJobCtx DeRegister
  by unfold_locales (auto simp: RegisterJob_def GetJobCtx_def DeRegister_def insert_job_def Let_def del_key_def
      close_job_def set_closed_def close_chans_def split: option.splits)

section \<open>Properties\<close>

definition tjob_ok :: "transferJob \<Rightarrow> bool" where
  "tjob_ok j \<longleftrightarrow> (tj_state j = SUCCESS \<longleftrightarrow> tj_phase j \<in> {Reporting, Exited, Crashed})
     \<and> tj_state j \<in> {PENDING, SUCCESS} \<and> (tj_phase j \<in> {Reporting, Exited, Crashed} \<longrightarrow> tj_ctx j \<noteq> None)
     \<and> (tj_func j \<longrightarrow> tj_ctx j \<noteq> None \<and> tj_phase j \<noteq> NotStarted)"

definition tc_inv :: "TransferJobCtx \<Rightarrow> bool" where
  "tc_inv tc \<longleftrightarrow> (\<forall>j\<in>set (tc_jobs tc). tjob_ok j)
     \<and> (\<forall>a k. tc_map tc a = Some k \<longrightarrow> k < length (tc_jobs tc) \<and> tj_appName (tc_jobs tc ! k) = a
          \<and> tj_phase (tc_jobs tc ! k) \<noteq> Exited)"

lemma tupd_phase: "(\<And>j. tj_phase (f j) = tj_phase j) \<Longrightarrow> n < length (tc_jobs tc) \<Longrightarrow>
    tj_phase (tc_jobs (tupd k f tc) ! n) = tj_phase (tc_jobs tc ! n)"
  by (cases "k = n") (simp_all add: tupd_def)

lemma tc_inv_tupd:
  assumes inv: "tc_inv tc" and k: "k < length (tc_jobs tc)"
    and f: "tjob_ok (tc_jobs tc ! k) \<Longrightarrow> tjob_ok (f (tc_jobs tc ! k))"
      "tj_appName (f (tc_jobs tc ! k)) = tj_appName (tc_jobs tc ! k)"
      "tj_phase (tc_jobs tc ! k) \<noteq> Exited \<Longrightarrow> tj_phase (f (tc_jobs tc ! k)) \<noteq> Exited"
  shows "tc_inv (tupd k f tc)"
proof -
  have ok: "tjob_ok (tc_jobs tc ! k)" using inv k unfolding tc_inv_def by simp
  have "\<forall>j\<in>set ((tc_jobs tc)[k := f (tc_jobs tc ! k)]). tjob_ok j"
    using inv f(1)[OF ok] set_update_subset_insert[of "tc_jobs tc" k "f (tc_jobs tc ! k)"]
    unfolding tc_inv_def by blast
  moreover have "m < length (tc_jobs tc) \<and> tj_appName ((tc_jobs tc)[k := f (tc_jobs tc ! k)] ! m) = a
      \<and> tj_phase ((tc_jobs tc)[k := f (tc_jobs tc ! k)] ! m) \<noteq> Exited" if "tc_map tc a = Some m" for a m
    using inv that f(2,3) k unfolding tc_inv_def by (cases "m = k") auto
  ultimately show ?thesis by (simp add: tc_inv_def tupd_def)
qed

lemma tc_inv_unmap: "tc_inv tc \<Longrightarrow> tc_inv (tc\<lparr>tc_map := (tc_map tc)(a := None)\<rparr>)"
  by (auto simp: tc_inv_def)

lemma tjob_ok_cancel: "tjob_ok j \<Longrightarrow> tjob_ok (cancel j)"
  by (auto simp: tjob_ok_def cancel_def split: option.split)

lemma tc_inv_close: "tc_inv tc \<Longrightarrow> k < length (tc_jobs tc) \<Longrightarrow> tc_inv (tj_Close k tc)"
  unfolding tj_Close_def by (rule tc_inv_tupd) (auto simp: tjob_ok_cancel, simp_all add: cancel_def)

lemma tc_inv_stop: "tc_inv tc \<Longrightarrow> tc_inv (TStop_close apps tc)"
proof (induction apps arbitrary: tc)
  case (Cons a apps)
  have "tc_inv (case tc_map tc a of None \<Rightarrow> tc | Some k \<Rightarrow> tj_Close k tc)"
    using Cons.prems by (auto split: option.split intro!: tc_inv_close) (simp add: tc_inv_def)
  then show ?case using Cons.IH by (simp add: TStop_close_def)
qed (simp add: TStop_close_def)

lemma tc_inv_scavenge:
  assumes inv: "tc_inv tc" and k: "k < length (tc_jobs tc)"
  shows "tc_inv (tscavenge k tc)"
proof (cases "tj_phase (tc_jobs tc ! k) = Reporting")
  case rep: True
  have ok: "tjob_ok (tc_jobs tc ! k)" using inv k unfolding tc_inv_def by simp
  show ?thesis
  proof (cases "tc_doneC tc")
    case True
    have "tc_inv (tupd k (\<lambda>j. j\<lparr>tj_phase := Crashed\<rparr>) tc)"
      using ok rep by (intro tc_inv_tupd[OF inv k]) (simp_all add: tjob_ok_def)
    then show ?thesis using rep True by (simp add: tscavenge_def)
  next
    case False
    let ?tc = "tc\<lparr>tc_map := (tc_map tc)(tj_appName (tc_jobs tc ! k) := None)\<rparr>"
    let ?f = "\<lambda>j. j\<lparr>tj_phase := Exited\<rparr>"
    have e: "tscavenge k tc = tupd k ?f ?tc" using rep False by (simp add: tscavenge_def tupd_def)
    have m: "m \<noteq> k \<and> m < length (tc_jobs tc) \<and> tj_appName (tc_jobs tc ! m) = a \<and> tj_phase (tc_jobs tc ! m) \<noteq> Exited"
      if "tc_map ?tc a = Some m" for a m
      using inv that unfolding tc_inv_def by (auto split: if_splits)
    have "tjob_ok (?f (tc_jobs tc ! k))" using ok rep by (simp add: tjob_ok_def)
    then have "\<forall>j\<in>set ((tc_jobs tc)[k := ?f (tc_jobs tc ! k)]). tjob_ok j"
      using inv set_update_subset_insert[of "tc_jobs tc" k "?f (tc_jobs tc ! k)"] unfolding tc_inv_def by blast
    moreover have "m < length (tc_jobs tc) \<and> tj_appName ((tc_jobs tc)[k := ?f (tc_jobs tc ! k)] ! m) = a
        \<and> tj_phase ((tc_jobs tc)[k := ?f (tc_jobs tc ! k)] ! m) \<noteq> Exited" if "tc_map ?tc a = Some m" for a m
      using m[OF that] by simp
    ultimately show ?thesis unfolding e tc_inv_def tupd_def by simp
  qed
qed (use inv in \<open>simp add: tscavenge_def\<close>)

lemma tc_inv_register: "tc_inv tc \<Longrightarrow> tc_inv (snd (TRegisterJob app tc))"
proof (cases "tc_map tc app")
  case None
  let ?j = "\<lparr>tj_appName = app, tj_ctx = None, tj_func = False, tj_phase = NotStarted, tj_state = PENDING\<rparr>"
  assume inv: "tc_inv tc"
  have "tjob_ok ?j" by (simp add: tjob_ok_def)
  moreover have "m < Suc (length (tc_jobs tc)) \<and> tj_appName ((tc_jobs tc @ [?j]) ! m) = a
      \<and> tj_phase ((tc_jobs tc @ [?j]) ! m) \<noteq> Exited" if "((tc_map tc)(app \<mapsto> length (tc_jobs tc))) a = Some m" for a m
  proof (cases "a = app")
    case False
    then have "m < length (tc_jobs tc) \<and> tj_appName (tc_jobs tc ! m) = a \<and> tj_phase (tc_jobs tc ! m) \<noteq> Exited"
      using inv that by (simp add: tc_inv_def)
    then show ?thesis by (simp add: nth_append)
  qed (use that in \<open>auto simp: nth_append\<close>)
  ultimately show ?thesis using inv None by (simp add: TRegisterJob_def TGetJobCtx_def Let_def tc_inv_def)
qed (simp add: TRegisterJob_def TGetJobCtx_def)

lemma tc_inv_step:
  assumes inv: "tc_inv tc"
  shows "tc_inv (t_step e tc)"
proof (cases e)
  case (TDeReg app)
  show ?thesis
  proof (cases "tc_map tc app")
    case (Some k)
    then have "k < length (tc_jobs tc)" using inv by (simp add: tc_inv_def)
    then have "tc_inv (tj_Close k tc)" by (rule tc_inv_close[OF inv])
    then have "tc_inv ((tj_Close k tc)\<lparr>tc_map := (tc_map (tj_Close k tc))(app := None)\<rparr>)" by (rule tc_inv_unmap)
    then show ?thesis using TDeReg Some by (simp add: TDeRegister_def tj_Close_def tupd_def)
  qed (use inv TDeReg in \<open>simp add: TDeRegister_def\<close>)
next
  case (TStart k)
  then show ?thesis using inv by (auto simp: block_starts_def intro!: tc_inv_tupd) (auto simp: tjob_ok_def split: if_splits)
next
  case (TFunc k)
  then show ?thesis using inv
    by (auto simp: func_returns_def intro!: tc_inv_tupd) (auto simp: tjob_ok_def cancel_def split: option.splits if_splits)
next
  case (TDeadline k)
  then show ?thesis using inv
    by (auto simp: deadline_def intro!: tc_inv_tupd) (auto simp: tjob_ok_def split: option.splits)
next
  case (TWake k)
  then show ?thesis using inv by (auto simp: block_wakes_def intro!: tc_inv_tupd) (auto simp: tjob_ok_def split: if_splits)
next
  case TStopEnd
  then show ?thesis using inv by (auto simp: TStop_end_def tc_inv_def split: option.split if_splits)
qed (use inv tc_inv_stop tc_inv_register tc_inv_scavenge in \<open>auto\<close>)

lemma fold_invariant_list: "P s \<Longrightarrow> (\<And>e s. P s \<Longrightarrow> P (f e s)) \<Longrightarrow> P (fold f es s)"
  by (induction es arbitrary: s) auto

lemma t_run_inv: "tc_inv (t_run es)"
  unfolding t_run_def
  by (rule fold_invariant_list[where P = tc_inv]) (simp_all add: tc_inv_step, simp add: tc_inv_def newAppTransferJobCtx_def)

text \<open>The state of a transfer tells nothing of its outcome. In every reachable state a job is pending
  until its goroutine has seen the end of its context, and SUCCESS afterwards, whether the function has
  returned, the job was cancelled, or the deadline has passed; no job is ever FAILED. A name in the map
  leads to a job of that name that has not been scavenged.\<close>

theorem transfer_state_blind:
  "(\<forall>j\<in>set (tc_jobs (t_run es)). tj_state j = (if tj_phase j \<in> {NotStarted, Blocked} then PENDING else SUCCESS)
      \<and> (tj_state j = SUCCESS \<longrightarrow> tj_ctx j \<noteq> None))
   \<and> (\<forall>a k. TGetJobCtx a (t_run es) = Some k \<longrightarrow> k < length (tc_jobs (t_run es))
        \<and> tj_appName (tc_jobs (t_run es) ! k) = a \<and> tj_phase (tc_jobs (t_run es) ! k) \<noteq> Exited)"
proof -
  have inv: "tc_inv (t_run es)" by (rule t_run_inv)
  have "tj_state j = (if tj_phase j \<in> {NotStarted, Blocked} then PENDING else SUCCESS)
      \<and> (tj_state j = SUCCESS \<longrightarrow> tj_ctx j \<noteq> None)" if "j \<in> set (tc_jobs (t_run es))" for j
    using inv that unfolding tc_inv_def tjob_ok_def by (cases "tj_phase j") auto
  then show ?thesis using inv by (simp add: tc_inv_def TGetJobCtx_def)
qed

theorem transfer_state_blind_witness:
  "map tj_state (tc_jobs (t_run [TReg ''a'', TStart 0, TDeadline 0, TWake 0])) = [SUCCESS]
   \<and> map tj_func (tc_jobs (t_run [TReg ''a'', TStart 0, TDeadline 0, TWake 0])) = [False]"
proof -
  let ?r = "t_run [TReg ''a'', TStart 0, TDeadline 0, TWake 0]"
  have l: "length (tc_jobs ?r) = 1" "map tj_phase (tc_jobs ?r) = [Reporting]" "map tj_func (tc_jobs ?r) = [False]"
    by code_simp+
  then obtain j where "tc_jobs ?r = [j]" by (auto simp: length_Suc_conv)
  then show ?thesis using transfer_state_blind[of "[TReg ''a'', TStart 0, TDeadline 0, TWake 0]"] l by auto
qed

text \<open>\<open>Stop\<close> can miss a transfer. If a job was registered and its goroutine has not been started when
  \<open>Stop\<close> runs, \<open>Stop\<close> completes; the function of the job runs all the same, and when the goroutine reports
  it sends on a closed channel and panics.\<close>

theorem stop_misses_unstarted:
  assumes "k < length (tc_jobs tc)" "tj_phase (tc_jobs tc ! k) = NotStarted"
    and "TStop_end (TStop_close apps tc) = Some tc'"
  shows "tj_phase (tc_jobs (fold t_step [TStart k, TFunc k, TWake k, TScav k] tc') ! k) = Crashed
    \<and> tj_func (tc_jobs (fold t_step [TStart k, TFunc k, TWake k, TScav k] tc') ! k)"
proof -
  have keep: "length (tc_jobs (TStop_close apps s)) = length (tc_jobs s)
      \<and> (\<forall>n<length (tc_jobs s). tj_phase (tc_jobs (TStop_close apps s) ! n) = tj_phase (tc_jobs s ! n))" for s
  proof (induction apps arbitrary: s)
    case (Cons a apps)
    let ?s = "case tc_map s a of None \<Rightarrow> s | Some k \<Rightarrow> tj_Close k s"
    have "length (tc_jobs ?s) = length (tc_jobs s)
        \<and> (\<forall>n<length (tc_jobs s). tj_phase (tc_jobs ?s ! n) = tj_phase (tc_jobs s ! n))"
      by (auto simp: tj_Close_def tupd_phase cancel_def split: option.split) (simp add: tupd_def)
    then show ?case using Cons.IH[of ?s] by (simp add: TStop_close_def)
  qed (simp add: TStop_close_def)
  have t: "tc_doneC tc'" "k < length (tc_jobs tc')" "tj_phase (tc_jobs tc' ! k) = NotStarted"
    using assms keep[of tc] by (auto simp: TStop_end_def split: if_splits)
  then show ?thesis
    by (simp add: block_starts_def func_returns_def block_wakes_def tscavenge_def tupd_def cancel_def
        split: option.split)
qed

theorem stop_misses_unstarted_witness:
  "map tj_phase (tc_jobs (fold t_step [TStart 0, TFunc 0, TWake 0, TScav 0]
     (the (TStop_end (TStop_close [''a''] (t_run [TReg ''a'']))))))  = [Crashed]"
proof -
  let ?s = "the (TStop_end (TStop_close [''a''] (t_run [TReg ''a''])))"
  have s: "(0::nat) < length (tc_jobs (t_run [TReg ''a'']))" "tj_phase (tc_jobs (t_run [TReg ''a'']) ! 0) = NotStarted"
    "TStop_end (TStop_close [''a''] (t_run [TReg ''a''])) = Some ?s"
    "length (tc_jobs (fold t_step [TStart 0, TFunc 0, TWake 0, TScav 0] ?s)) = 1"
    by (simp_all add: t_run_def TRegisterJob_def TGetJobCtx_def newAppTransferJobCtx_def Let_def TStop_close_def
        TStop_end_def tj_Close_def tupd_def cancel_def block_starts_def func_returns_def block_wakes_def tscavenge_def)
  then obtain j where "tc_jobs (fold t_step [TStart 0, TFunc 0, TWake 0, TScav 0] ?s) = [j]"
    by (auto simp: length_Suc_conv)
  then show ?thesis using stop_misses_unstarted[OF s(1-3)] by simp
qed

end
