(* ===== verification/TrialApp.thy ===== *)
theory TrialApp
  imports TransferCtx AppStore Paths
begin

text \<open>
  Trial software: the handlers \<open>activateTrialApp\<close> and \<open>deactivateTrialApp\<close> of \<open>web/routers/admin.go\<close> and the
  clean-up of \<open>scanTrialApp\<close> in \<open>web/routers/server.go\<close>. They combine the record of the application in
  the store, the registry of transfers and the file system. The file system, with the copy functions
  of \<open>pkg/iotools\<close> on top of it, is a parameter; a path is the string that is passed to it. The function
  of a transfer is one step (\<open>transfer_body\<close>).
\<close>

section \<open>State and parameters\<close>

datatype stat_res = StatOk | NotExist | StatErr

record 'f fs_ops =
  f_stat :: "string \<Rightarrow> 'f \<Rightarrow> stat_res"
  f_removeAll :: "string \<Rightarrow> 'f \<Rightarrow> bool \<times> 'f"
  f_copy2Dir :: "ctx_err option \<Rightarrow> string \<Rightarrow> string \<Rightarrow> 'f \<Rightarrow> bool \<times> 'f"
  f_readDir :: "string \<Rightarrow> 'f \<Rightarrow> string list option"
  f_ensureDir :: "string \<Rightarrow> 'f \<Rightarrow> bool \<times> 'f"
  f_copyChown :: "string \<Rightarrow> string \<Rightarrow> 'f \<Rightarrow> bool \<times> 'f"

record app_cfg =
  ac_BussSoftPath :: string
  ac_StorePath :: string
  ac_home :: string

record ('a, 'f) tworld =
  tw_db :: 'a
  tw_tc :: TransferJobCtx
  tw_fs :: 'f

definition bussAppPath :: "app_cfg \<Rightarrow> string \<Rightarrow> string" where
  "bussAppPath cfg app = path_join (ac_BussSoftPath cfg) app"

definition tenantAppBasePath :: "app_cfg \<Rightarrow> string" where
  "tenantAppBasePath cfg = ac_StorePath cfg @ ''/softwares''"

definition tenantAppPath :: "app_cfg \<Rightarrow> string \<Rightarrow> string" where
  "tenantAppPath cfg app = tenantAppBasePath cfg @ ''/'' @ app"

section \<open>The transfer\<close>

text \<open>The desktop files are copied one by one; \<open>err\<close> holds the outcome of the last copy.\<close>

fun copy_desktops :: "'f fs_ops \<Rightarrow> app_cfg \<Rightarrow> string \<Rightarrow> string list \<Rightarrow> bool \<Rightarrow> 'f \<Rightarrow> bool \<times> 'f" where
  "copy_desktops FO cfg app [] ok fs = (ok, fs)"
| "copy_desktops FO cfg app (n # ns) ok fs =
     (if hasSuffix n ''.desktop''
      then (let folder = ac_home cfg @ ''/Desktop'';
                dest = folder @ ''/'' @ trimSuffix n ''.desktop'' @ ''-b.desktop'';
                (_, fs1) = f_ensureDir FO folder fs;
                (ok', fs2) = f_copyChown FO (tenantAppPath cfg app @ ''/'' @ n) dest fs1
            in copy_desktops FO cfg app ns ok' fs2)
      else copy_desktops FO cfg app ns ok fs)"

definition transfer :: "'f fs_ops \<Rightarrow> app_cfg \<Rightarrow> string \<Rightarrow> ctx_err option \<Rightarrow> 'f \<Rightarrow> bool \<times> 'f" where
  "transfer FO cfg app c fs = (case f_removeAll FO (tenantAppPath cfg app) fs of
     (False, fs1) \<Rightarrow> (False, fs1)
   | (True, fs1) \<Rightarrow> (case f_copy2Dir FO c (bussAppPath cfg app) (tenantAppBasePath cfg) fs1 of
       (False, fs2) \<Rightarrow> (False, fs2)
     | (True, fs2) \<Rightarrow> (case f_readDir FO (tenantAppPath cfg app) fs2 of
         None \<Rightarrow> (False, fs2)
       | Some ns \<Rightarrow> copy_desktops FO cfg app ns True fs2)))"

text \<open>The deferred call settles the record and cleans up behind a failure.\<close>

definition transfer_body :: "'f fs_ops \<Rightarrow> 'a atab \<Rightarrow> app_cfg \<Rightarrow> int \<Rightarrow> string \<Rightarrow> ctx_err option \<Rightarrow>
    ('a, 'f) tworld \<Rightarrow> ('a, 'f) tworld" where
  "transfer_body FO TA cfg now app c w = (case transfer FO cfg app c (tw_fs w) of
     (True, fs) \<Rightarrow> w\<lparr>tw_fs := fs, tw_db := snd (DoneAppTrialApply TA now app True (tw_db w))\<rparr>
   | (False, fs) \<Rightarrow> w\<lparr>tw_fs := snd (f_removeAll FO (tenantAppPath cfg app) fs),
                       tw_db := snd (DoneAppTrialApply TA now app False (tw_db w))\<rparr>)"

section \<open>The handlers\<close>

text \<open>Answers: an error, or whether a transfer was started.\<close>

datatype answer = Refused string | Accepted bool

definition activate_handle :: "'a atab \<Rightarrow> app_cfg \<Rightarrow> int \<Rightarrow> string \<Rightarrow> ('a, 'f) tworld \<Rightarrow> answer \<times> ('a, 'f) tworld" where
  "activate_handle TA cfg now app w = (case AddAppTrialApply TA now app (tenantAppPath cfg app) (tw_db w) of
     (False, t) \<Rightarrow> (Refused ''err add apply'', w\<lparr>tw_db := t\<rparr>)
   | (True, t) \<Rightarrow> (case TRegisterJob app (tw_tc w) of
       ((_, new), tc) \<Rightarrow> (Accepted new, w\<lparr>tw_db := t, tw_tc := tc\<rparr>)))"

text \<open>\<open>os.Stat\<close> follows symbolic links, so that the branch that removes a link is never taken.\<close>

definition activateTrialApp :: "'f fs_ops \<Rightarrow> 'a atab \<Rightarrow> app_cfg \<Rightarrow> int \<Rightarrow> string \<Rightarrow> ('a, 'f) tworld \<Rightarrow>
    answer \<times> ('a, 'f) tworld" where
  "activateTrialApp FO TA cfg now app w =
     (if f_stat FO (bussAppPath cfg app) (tw_fs w) = NotExist then (Refused ''can't find given trial app'', w)
      else case LoadTrialAppApply TA app (tw_db w) of
        None \<Rightarrow> activate_handle TA cfg now app w
      | Some r \<Rightarrow>
          if ap_State r = DONE \<and> f_stat FO (tenantAppPath cfg app) (tw_fs w) = StatOk then (Accepted False, w)
          else if ap_State r = FAILED then activate_handle TA cfg now app w
          else if TGetJobCtx app (tw_tc w) = None
          then activate_handle TA cfg now app (w\<lparr>tw_db := snd (DeleteAppTrialApply TA app (tw_db w))\<rparr>)
          else (Accepted False, w))"

definition deactivateTrialApp :: "'f fs_ops \<Rightarrow> 'a atab \<Rightarrow> app_cfg \<Rightarrow> string \<Rightarrow> ('a, 'f) tworld \<Rightarrow>
    (answer \<times> (string \<times> string) option) \<times> ('a, 'f) tworld" where
  "deactivateTrialApp FO TA cfg app w =
     (let path = path_join (path_join (ac_StorePath cfg) ''softwares'') app;
          w1 = w\<lparr>tw_tc := snd (TDeRegister app (tw_tc w))\<rparr>
      in if f_stat FO path (tw_fs w1) = NotExist
         then ((Accepted False, None), w1\<lparr>tw_db := snd (DeleteAppTrialApply TA app (tw_db w1))\<rparr>)
         else case LoadTrialAppApply TA app (tw_db w1) of
                None \<Rightarrow> ((Refused ''app not activated'', None), w1)
              | Some r \<Rightarrow> ((Accepted True, Some (ap_Path r, app)), w1))"

text \<open>The job that a deactivation submits.\<close>

definition deactivate_job :: "'f fs_ops \<Rightarrow> 'a atab \<Rightarrow> string \<times> string \<Rightarrow> ('a, 'f) tworld \<Rightarrow> ('a, 'f) tworld" where
  "deactivate_job FO TA job w = w\<lparr>tw_fs := snd (f_removeAll FO (fst job) (tw_fs w)),
     tw_db := snd (DeleteAppTrialApply TA (snd job) (tw_db w))\<rparr>"

text \<open>The callback of \<open>scanTrialApp\<close>, on the table and the rest of the world.\<close>

definition applyHandle :: "'f fs_ops \<Rightarrow> 'a atab \<Rightarrow> int \<Rightarrow> ('a, TransferJobCtx \<times> 'f) apply_cb" where
  "applyHandle FO TA now app path = (\<lambda>(t, tc, fs).
     (True, snd (DoneAppTrialApply TA now app False t), snd (TDeRegister app tc), snd (f_removeAll FO path fs)))"

text \<open>At the start the stale records are handled without being deleted; later the scavenger deletes them.\<close>

definition scan_start :: "'f fs_ops \<Rightarrow> 'a atab \<Rightarrow> int \<Rightarrow> 'a \<times> TransferJobCtx \<times> 'f \<Rightarrow> 'a \<times> TransferJobCtx \<times> 'f" where
  "scan_start FO TA now ts = fold (\<lambda>r ts. snd (applyHandle FO TA now (ap_Name r) (ap_Path r) ts))
     (found (LoadBootstrapRunningAppApply TA (fst ts))) ts"

definition scan_tick :: "'f fs_ops \<Rightarrow> 'a atab \<Rightarrow> int \<Rightarrow> 'a \<times> TransferJobCtx \<times> 'f \<Rightarrow> 'a \<times> TransferJobCtx \<times> 'f" where
  "scan_tick FO TA now = ScavengeTrialApp TA now (applyHandle FO TA now)"

section \<open>Rows\<close>

lemma LoadTrialAppApply_rows:
  assumes "table_ok TA apply_schema"
  shows "LoadTrialAppApply TA app t = (case filter (\<lambda>x. ap_Name x = app) (rows TA t) of [] \<Rightarrow> None | r # _ \<Rightarrow> Some r)"
  by (simp add: LoadTrialAppApply_def find1_def table_okD(1)[OF assms])

lemma AddAppTrialApply_new:
  assumes TA: "table_ok TA apply_schema"
    and n: "\<forall>x\<in>set (rows TA t). ap_Name x \<noteq> app \<and> ap_Path x \<noteq> path"
  obtains t' i where "AddAppTrialApply TA now app path t = (True, t')"
    "rows TA t' = rows TA t @ [\<lparr>ap_pk = i, ap_Name = app, ap_Path = path, ap_State = RUNNING, ap_Reported = False,
        ap_updated = now\<rparr>]"
proof -
  let ?r = "\<lparr>ap_pk = 0, ap_Name = app, ap_Path = path, ap_State = RUNNING, ap_Reported = False, ap_updated = now\<rparr>"
  let ?f = "\<lambda>x r. x\<lparr>ap_Name := ap_Name r, ap_Path := ap_Path r, ap_Reported := ap_Reported r, ap_State := ap_State r,
             ap_updated := ap_updated r\<rparr>"
  have "\<exists>t' i. t_upsert TA (\<lambda>x r. ap_Name x = ap_Name r) ?f ?r t = Some t'
      \<and> rows TA t' = rows TA t @ [s_set_id apply_schema i ?r]"
    using n by (intro t_upsert_new[OF TA]) simp_all
  then obtain t' i where "t_upsert TA (\<lambda>x r. ap_Name x = ap_Name r) ?f ?r t = Some t'"
    "rows TA t' = rows TA t @ [s_set_id apply_schema i ?r]" by blast
  then show thesis by (intro that[of t' i]) (simp_all add: AddAppTrialApply_def exec_def)
qed

lemma DoneAppTrialApply_rows:
  assumes TA: "table_ok TA apply_schema"
  obtains t' where "DoneAppTrialApply TA now app ok t = (True, t')"
    "rows TA t' = map (\<lambda>x. if ap_Name x = app then x\<lparr>ap_State := end_of ok, ap_updated := now\<rparr> else x) (rows TA t)"
proof -
  have "\<exists>t'. t_update TA (\<lambda>x. ap_Name x = app) (\<lambda>x. x\<lparr>ap_State := end_of ok, ap_updated := now\<rparr>) t = Some t'
    \<and> rows TA t' = map (\<lambda>x. if ap_Name x = app then x\<lparr>ap_State := end_of ok, ap_updated := now\<rparr> else x) (rows TA t)"
    by (rule t_update_rows[OF TA]) simp
  then show thesis using that by (auto simp: DoneAppTrialApply_def exec_def)
qed

lemma filter_other_name:
  "(\<And>x. ap_Name (f x) = ap_Name x) \<Longrightarrow> filter (\<lambda>x. ap_Name x \<noteq> app) (map (\<lambda>x. if ap_Name x = app then f x else x) xs)
     = filter (\<lambda>x. ap_Name x \<noteq> app) xs"
  by (induction xs) auto

section \<open>Properties\<close>

text \<open>An activation is settled with the outcome of its transfer. For software that exists and is not
  yet recorded or registered, \<open>activateTrialApp\<close> records it as running and starts one transfer; when
  that has run, the record says DONE if the old directory was removed, the copy and the listing
  succeeded and the last desktop file was copied, and FAILED otherwise, in which case the directory is
  removed. No other record changes.\<close>

theorem activation_settled:
  fixes w :: "('a, 'f) tworld"
  assumes TA: "table_ok TA apply_schema" and ex: "f_stat FO (bussAppPath cfg app) (tw_fs w) \<noteq> NotExist"
    and n: "\<forall>x\<in>set (rows TA (tw_db w)). ap_Name x \<noteq> app \<and> ap_Path x \<noteq> tenantAppPath cfg app"
    and free: "TGetJobCtx app (tw_tc w) = None"
  shows "\<exists>w1. activateTrialApp FO TA cfg t0 app w = (Accepted True, w1) \<and> tw_fs w1 = tw_fs w
    \<and> (\<exists>k. TGetJobCtx app (tw_tc w1) = Some k)
    \<and> map_option ap_State (LoadTrialAppApply TA app (tw_db w1)) = Some RUNNING
    \<and> (let w2 = transfer_body FO TA cfg now app c w1; res = transfer FO cfg app c (tw_fs w)
       in map_option ap_State (LoadTrialAppApply TA app (tw_db w2)) = Some (end_of (fst res))
        \<and> filter (\<lambda>x. ap_Name x \<noteq> app) (rows TA (tw_db w2)) = rows TA (tw_db w)
        \<and> tw_fs w2 = (if fst res then snd res else snd (f_removeAll FO (tenantAppPath cfg app) (snd res))))"
proof -
  obtain t' i where t': "AddAppTrialApply TA t0 app (tenantAppPath cfg app) (tw_db w) = (True, t')"
    "rows TA t' = rows TA (tw_db w) @ [\<lparr>ap_pk = i, ap_Name = app, ap_Path = tenantAppPath cfg app, ap_State = RUNNING,
        ap_Reported = False, ap_updated = t0\<rparr>]"
    by (rule AddAppTrialApply_new[OF TA n])
  let ?tc = "snd (TRegisterJob app (tw_tc w))"
  let ?w1 = "w\<lparr>tw_db := t', tw_tc := ?tc\<rparr>"
  have no: "filter (\<lambda>x. ap_Name x = app) (rows TA (tw_db w)) = []"
    "filter (\<lambda>x. ap_Name x \<noteq> app) (rows TA (tw_db w)) = rows TA (tw_db w)" using n by (simp_all add: filter_empty_conv)
  have reg: "snd (fst (TRegisterJob app (tw_tc w)))" using tctx.reg_new_iff[of app "tw_tc w"] free by simp
  have "LoadTrialAppApply TA app (tw_db w) = None" by (simp add: LoadTrialAppApply_rows[OF TA] no)
  then have act: "activateTrialApp FO TA cfg t0 app w = (Accepted True, ?w1)"
    using ex reg t'(1)
    by (cases "TRegisterJob app (tw_tc w)") (auto simp: activateTrialApp_def activate_handle_def)
  have run: "map_option ap_State (LoadTrialAppApply TA app t') = Some RUNNING"
    by (simp add: LoadTrialAppApply_rows[OF TA] t'(2) no)
  define res where "res = transfer FO cfg app c (tw_fs w)"
  define w2 where "w2 = transfer_body FO TA cfg now app c ?w1"
  obtain t2 where t2: "DoneAppTrialApply TA now app (fst res) t' = (True, t2)"
    "rows TA t2 = map (\<lambda>x. if ap_Name x = app then x\<lparr>ap_State := end_of (fst res), ap_updated := now\<rparr> else x) (rows TA t')"
    by (rule DoneAppTrialApply_rows[OF TA])
  have w2: "tw_db w2 = t2" "tw_fs w2 = (if fst res then snd res else snd (f_removeAll FO (tenantAppPath cfg app) (snd res)))"
  proof -
    have e: "transfer FO cfg app c (tw_fs ?w1) = (fst res, snd res)" by (simp add: res_def)
    show "tw_db w2 = t2" "tw_fs w2 = (if fst res then snd res else snd (f_removeAll FO (tenantAppPath cfg app) (snd res)))"
      unfolding w2_def transfer_body_def e using t2(1) by (cases "fst res"; simp)+
  qed
  have old: "map (\<lambda>x. if ap_Name x = app then g x else x) (rows TA (tw_db w)) = rows TA (tw_db w)" for g
    using n by (intro map_idI) auto
  have "map_option ap_State (LoadTrialAppApply TA app t2) = Some (end_of (fst res))"
    "filter (\<lambda>x. ap_Name x \<noteq> app) (rows TA t2) = rows TA (tw_db w)"
    by (simp_all add: LoadTrialAppApply_rows[OF TA] t2(2) t'(2) old no)
  then show ?thesis using act run w2 tctx.reg_get[of app "tw_tc w"]
    unfolding Let_def by (intro exI[of _ ?w1] conjI) (simp_all only: w2_def[symmetric] res_def[symmetric], simp_all)
qed

text \<open>An application named \<open>..\<close> puts the whole store of the tenant at risk. The name is not checked: for a
  plain name the directory that a transfer removes first is below \<open>softwares\<close>, and for \<open>..\<close> it is the
  store itself, so that an activation, which is accepted because the parent of the business software
  exists, begins by removing everything.\<close>

theorem activation_can_remove_store:
  assumes r: "rooted (ac_StorePath cfg)"
  shows "clean (tenantAppPath cfg ''..'') = clean (ac_StorePath cfg)
    \<and> (plain_seg app \<longrightarrow> psegs (tenantAppPath cfg app) = psegs (ac_StorePath cfg) @ [''softwares'', app])"
proof -
  have rb: "rooted (tenantAppBasePath cfg)" using r by (simp add: tenantAppBasePath_def rooted_Cons) (metis append_Cons)
  have base: "psegs (tenantAppBasePath cfg) = psegs (ac_StorePath cfg) @ [''softwares'']"
    using psegs_extend[OF r, of "[''softwares'']"] by (simp add: tenantAppBasePath_def plain_seg_def)
  have "psegs (tenantAppPath cfg ''..'') = psegs (ac_StorePath cfg)"
    unfolding tenantAppPath_def psegs_append[OF rb] base by simp
  moreover have "rooted (tenantAppPath cfg ''..'')" using rb by (auto simp: tenantAppPath_def rooted_Cons)
  ultimately have "clean (tenantAppPath cfg ''..'') = clean (ac_StorePath cfg)"
    using r by (simp add: clean_eq_iff)
  moreover have "psegs (tenantAppPath cfg app) = psegs (ac_StorePath cfg) @ [''softwares'', app]" if "plain_seg app"
    using psegs_extend[OF rb, of "[app]"] that base by (simp add: tenantAppPath_def)
  ultimately show ?thesis by simp
qed

text \<open>A retry right after a failure is lost. When the record says FAILED and the name is still registered,
  because the failed transfer has not been scavenged yet, \<open>activateTrialApp\<close> reports success and sets the
  record to RUNNING, but starts no transfer.\<close>

theorem retry_before_scavenge_lost:
  fixes w :: "('a, 'f) tworld"
  assumes TA: "table_ok TA apply_schema" and u: "unique_rows apply_schema (rows TA (tw_db w))"
    and ex: "f_stat FO (bussAppPath cfg app) (tw_fs w) \<noteq> NotExist"
    and x: "x \<in> set (rows TA (tw_db w))" "ap_Name x = app" "ap_Path x = tenantAppPath cfg app" "ap_State x = FAILED"
    and held: "TGetJobCtx app (tw_tc w) = Some k"
  shows "\<exists>w1. activateTrialApp FO TA cfg now app w = (Accepted False, w1) \<and> tw_tc w1 = tw_tc w \<and> tw_fs w1 = tw_fs w
    \<and> map_option ap_State (LoadTrialAppApply TA app (tw_db w1)) = Some RUNNING"
proof -
  let ?t = "tw_db w"
  let ?r = "\<lparr>ap_pk = 0, ap_Name = app, ap_Path = tenantAppPath cfg app, ap_State = RUNNING, ap_Reported = False,
      ap_updated = now\<rparr>"
  let ?f = "\<lambda>x r. x\<lparr>ap_Name := ap_Name r, ap_Path := ap_Path r, ap_Reported := ap_Reported r, ap_State := ap_State r,
             ap_updated := ap_updated r\<rparr>"
  have only: "y = x" if "y \<in> set (rows TA ?t)" "ap_Name y = app \<or> ap_Path y = tenantAppPath cfg app" for y
  proof -
    have "s_clash apply_schema y x" using that(2) x(2,3) by simp
    then show ?thesis using u that(1) x(1) unfolding unique_rows_def by blast
  qed
  have load: "LoadTrialAppApply TA app ?t = Some x"
    unfolding LoadTrialAppApply_def
    by (rule find1_unique[OF TA u x(1)]) (use x in simp_all)
  have nc: "\<not> (\<exists>z\<in>set (rows TA ?t). ap_Name z = ap_Name ?r
      \<and> (\<exists>y\<in>set (rows TA ?t). \<not> ap_Name y = ap_Name ?r \<and> s_clash apply_schema y (?f z ?r)))"
  proof
    assume "\<exists>z\<in>set (rows TA ?t). ap_Name z = ap_Name ?r
      \<and> (\<exists>y\<in>set (rows TA ?t). \<not> ap_Name y = ap_Name ?r \<and> s_clash apply_schema y (?f z ?r))"
    then obtain y where y: "y \<in> set (rows TA ?t)" "ap_Name y \<noteq> app" "ap_Path y = tenantAppPath cfg app" by auto
    then show False using only[of y] x(2) by simp
  qed
  have "\<exists>t'. t_upsert TA (\<lambda>x r. ap_Name x = ap_Name r) ?f ?r ?t = Some t'
      \<and> rows TA t' = map (\<lambda>x. if ap_Name x = ap_Name ?r then ?f x ?r else x) (rows TA ?t)"
    by (rule t_upsert_old[OF TA, where same = "\<lambda>x r. ap_Name x = ap_Name r" and f = ?f and r = ?r, OF _ nc])
      (rule bexI[OF _ x(1)], simp add: x(2))
  then obtain t' where t': "t_upsert TA (\<lambda>x r. ap_Name x = ap_Name r) ?f ?r ?t = Some t'"
    "rows TA t' = map (\<lambda>x. if ap_Name x = ap_Name ?r then ?f x ?r else x) (rows TA ?t)" by blast
  have add: "AddAppTrialApply TA now app (tenantAppPath cfg app) ?t = (True, t')"
    using t'(1) by (simp add: AddAppTrialApply_def exec_def)
  have "activateTrialApp FO TA cfg now app w = (Accepted False, w\<lparr>tw_db := t'\<rparr>)"
    using ex load x(4) add tctx.reg_held[OF held] by (simp add: activateTrialApp_def activate_handle_def)
  moreover have "map_option ap_State (LoadTrialAppApply TA app t') = Some RUNNING"
  proof -
    have "ap_State y = RUNNING" if y: "y \<in> set (rows TA t')" "ap_Name y = app" for y
    proof -
      from y(1) obtain z where "y = (if ap_Name z = ap_Name ?r then ?f z ?r else z)"
        unfolding t'(2) set_map by (rule imageE)
      then show ?thesis using y(2) by (cases "ap_Name z = app") simp_all
    qed
    then have "\<forall>y\<in>set (filter (\<lambda>x. ap_Name x = app) (rows TA t')). ap_State y = RUNNING" by simp
    moreover have "filter (\<lambda>x. ap_Name x = app) (rows TA t') \<noteq> []"
    proof -
      have "?f x ?r \<in> set (rows TA t')" unfolding t'(2) set_map by (rule image_eqI[OF _ x(1)]) (simp add: x(2))
      moreover have "ap_Name (?f x ?r) = app" by simp
      ultimately show ?thesis unfolding filter_empty_conv by blast
    qed
    ultimately show ?thesis
      by (cases "filter (\<lambda>x. ap_Name x = app) (rows TA t')") (simp_all add: LoadTrialAppApply_rows[OF TA])
  qed
  ultimately show ?thesis by (intro exI[of _ "w\<lparr>tw_db := t'\<rparr>"]) simp
qed

section \<open>Examples\<close>

text \<open>A file system that is a list of the directories that exist; a copy creates its target.\<close>

definition list_fs :: "string list fs_ops" where
  "list_fs = \<lparr> f_stat = (\<lambda>p fs. if p \<in> set fs then StatOk else NotExist),
     f_removeAll = (\<lambda>p fs. (True, filter (\<lambda>q. q \<noteq> p) fs)),
     f_copy2Dir = (\<lambda>c s d fs. (c = None, (d @ ''/'' @ split_file s) # fs)),
     f_readDir = (\<lambda>p fs. Some []), f_ensureDir = (\<lambda>p fs. (True, fs)), f_copyChown = (\<lambda>s d fs. (True, fs)) \<rparr>"

definition toy_cfg :: app_cfg where
  "toy_cfg = \<lparr>ac_BussSoftPath = ''/b'', ac_StorePath = ''/s'', ac_home = ''/h''\<rparr>"

definition toy_world :: "AppTrialApply list \<Rightarrow> (AppTrialApply list, string list) tworld" where
  "toy_world rs = \<lparr>tw_db = rs, tw_tc = t_run [TReg ''a'', TStart 0, TFunc 0], tw_fs = [''/b/x'', ''/b/a'']\<rparr>"

theorem activation_settled_witness:
  "\<exists>w1. activateTrialApp list_fs (list_table apply_schema) toy_cfg 1 ''x'' (toy_world []) = (Accepted True, w1)
     \<and> map_option ap_State (LoadTrialAppApply (list_table apply_schema) ''x''
         (tw_db (transfer_body list_fs (list_table apply_schema) toy_cfg 2 ''x'' None w1))) = Some DONE"
proof -
  have b: "bussAppPath toy_cfg ''x'' = ''/b/x''" by code_simp
  have ex: "f_stat list_fs (bussAppPath toy_cfg ''x'') (tw_fs (toy_world [])) \<noteq> NotExist"
    unfolding b by (simp add: list_fs_def toy_world_def)
  have free: "TGetJobCtx ''x'' (tw_tc (toy_world [])) = None" by code_simp
  have n: "\<forall>x\<in>set (rows (list_table apply_schema) (tw_db (toy_world []))). ap_Name x \<noteq> ''x''
      \<and> ap_Path x \<noteq> tenantAppPath toy_cfg ''x''" by (simp add: toy_world_def)
  have res: "fst (transfer list_fs toy_cfg ''x'' None (tw_fs (toy_world [])))" by code_simp
  show ?thesis
    using activation_settled[OF list_table_ok ex n free, where ?t0.0 = 1 and now = 2 and c = None] res
    by (auto simp: Let_def end_of_def)
qed

theorem activation_can_remove_store_witness:
  "clean (tenantAppPath toy_cfg ''..'') = clean ''/s''"
  using activation_can_remove_store[of toy_cfg "''x''"] by (simp add: toy_cfg_def rooted_def)

theorem retry_before_scavenge_lost_witness:
  "\<exists>w1. activateTrialApp list_fs (list_table apply_schema) toy_cfg 9 ''a'' (toy_world [\<lparr>ap_pk = 1, ap_Name = ''a'',
      ap_Path = ''/s/softwares/a'', ap_State = FAILED, ap_Reported = False, ap_updated = 5\<rparr>]) = (Accepted False, w1)"
proof -
  let ?x = "\<lparr>ap_pk = 1, ap_Name = ''a'', ap_Path = ''/s/softwares/a'', ap_State = FAILED, ap_Reported = False,
      ap_updated = 5\<rparr>"
  have u: "unique_rows apply_schema (rows (list_table apply_schema) (tw_db (toy_world [?x])))"
    by (simp add: unique_rows_def toy_world_def)
  have b: "bussAppPath toy_cfg ''a'' = ''/b/a''" by code_simp
  have ex: "f_stat list_fs (bussAppPath toy_cfg ''a'') (tw_fs (toy_world [?x])) \<noteq> NotExist"
    unfolding b by (simp add: list_fs_def toy_world_def)
  have held: "TGetJobCtx ''a'' (tw_tc (toy_world [?x])) = Some 0" by code_simp
  have x: "?x \<in> set (rows (list_table apply_schema) (tw_db (toy_world [?x])))" by (simp add: toy_world_def)
  have p: "ap_Path ?x = tenantAppPath toy_cfg ''a''" by (simp add: tenantAppPath_def tenantAppBasePath_def toy_cfg_def)
  have s: "ap_Name ?x = ''a''" "ap_State ?x = FAILED" by simp_all
  show ?thesis
    using retry_before_scavenge_lost[OF list_table_ok u ex x s(1) p s(2) held, of 9] by blast
qed

end
