(* ===== verification/ServerJobs.thy ===== *)
theory ServerJobs
  imports DefaultProvider Usage
begin

text \<open>
  The background jobs of \<open>web/routers/server.go\<close> that have state or touch the store: the two usage
  samplers, which report the highest size of a period, the settling of records that an earlier process
  left running, and the decisions of the two loops that restart the backup provider. (The hourly scan of
  stored usages is in \<open>Usage\<close>, the one of trial software in \<open>TrialApp\<close>.)
\<close>

section \<open>The state of the server\<close>

datatype ServerState = ServerStarting | ServerRunning | ServerStopping | ServerStopped | ServerOther int

fun ServerState_String :: "ServerState \<Rightarrow> string" where
  "ServerState_String ServerStarting = ''STARTING''"
| "ServerState_String ServerRunning = ''RUNNING''"
| "ServerState_String ServerStopping = ''ERROR''"
| "ServerState_String ServerStopped = ''STOPPED''"
| "ServerState_String (ServerOther _) = ''INVALID_STATE''"

text \<open>A request reaches the router only in state RUNNING; otherwise the answer is status 400.\<close>

definition ServeHTTP :: "('q \<Rightarrow> 'a) \<Rightarrow> 'a \<Rightarrow> ServerState \<Rightarrow> 'q \<Rightarrow> 'a" where
  "ServeHTTP router badRequest st q = (if st = ServerRunning then router q else badRequest)"

section \<open>Usage of the file system\<close>

text \<open>A sample as it arrives: its time, whether the clock then shows minute 0, and the usage. \<open>None\<close> is a value
  of another type.\<close>

record efs_sampler =
  es_peek :: i64
  es_start :: int
  es_current :: i64            \<comment> \<open>what \<open>UpdateEfsUsage\<close> stored\<close>
  es_sent :: "EfsUsage list"   \<comment> \<open>the submitted reports\<close>

definition efs_init :: "int \<Rightarrow> efs_sampler" where
  "efs_init now = \<lparr>es_peek = 0, es_start = now, es_current = 0, es_sent = []\<rparr>"

definition sampleEfsUsage :: "int \<times> bool \<times> EfsUsage option \<Rightarrow> efs_sampler \<Rightarrow> efs_sampler" where
  "sampleEfsUsage ev s = (case ev of
     (_, _, None) \<Rightarrow> s
   | (now, minute0, Some u) \<Rightarrow>
       (let s1 = s\<lparr>es_current := eu_used u, es_peek := (if es_peek s <s eu_used u then eu_used u else es_peek s)\<rparr>
        in if minute0
           then s1\<lparr>es_sent := es_sent s1 @ [u\<lparr>eu_end := eu_start u, eu_start := es_start s1, eu_used := es_peek s1\<rparr>],
                   es_start := now, es_peek := 0\<rparr>
           else s1))"

section \<open>Usage of the repository\<close>

record s3_sampler =
  ss_peek :: i64
  ss_start :: int
  ss_sent :: "BackupUsage list"

datatype s3_event = S3Used int nat i64 string | S3Closed | S3Done | S3Refresh

text \<open>One round of the loop; \<open>None\<close> means that the goroutine ends. A value carries the time, the minute of
  the clock and the id of the usage. A closed channel is received from again at once.\<close>

definition sampleS3Usage :: "i64 \<Rightarrow> s3_event \<Rightarrow> s3_sampler \<Rightarrow> s3_sampler option" where
  "sampleS3Usage tenant ev s = (case ev of
     S3Used now minute used i \<Rightarrow>
       (let s1 = s\<lparr>ss_peek := (if ss_peek s <s used then used else ss_peek s)\<rparr>
        in Some (if minute = 0 \<or> minute = 1
           then s1\<lparr>ss_sent := ss_sent s1 @ [\<lparr>bu_id = i, bu_used = ss_peek s1, bu_tenant = tenant,
                      bu_start = ss_start s1, bu_end = now, bu_time = 0\<rparr>],
                   ss_start := now, ss_peek := 0\<rparr>
           else s1))
   | S3Closed \<Rightarrow> Some s | S3Done \<Rightarrow> None | S3Refresh \<Rightarrow> None)"

section \<open>Records of an earlier process\<close>

definition abnormal :: string where "abnormal = ''fa container terminated abormally''"

text \<open>The errors of the single statements are only logged; a failing query gives no items.\<close>

definition scavengeAbormalBackup :: "'b btab \<Rightarrow> 'r rtab \<Rightarrow> bool \<Rightarrow> int \<Rightarrow> ('b, 'r) bworld \<Rightarrow> ('b, 'r) bworld" where
  "scavengeAbormalBackup TB TR ctxDone now w =
     (if ctxDone then w
      else (let w1 = fold (\<lambda>item w. snd (DoneBackup TB now (bi_id item) emptyDetail BackupFailed abnormal w))
                       (case LoadBackups TB BackupRunning w of Inl _ \<Rightarrow> [] | Inr xs \<Rightarrow> xs) w
            in fold (\<lambda>item w. snd (DoneRestore TR now (ri_id item) 0 RestoreFailed abnormal w))
                 (case LoadRestores TR RestoreRunning w1 of Inl _ \<Rightarrow> [] | Inr xs \<Rightarrow> xs) w1))"

section \<open>Restarting the provider\<close>

text \<open>Every five minutes a provider in state ERROR is refreshed; on the signal one that is not INITIALIZING.
  The refresh reads the configuration again: location type and prefix.\<close>

definition ensureBackupOnline :: "'k kopia_ops \<Rightarrow> LocationType \<Rightarrow> string \<Rightarrow> 'k kprov \<Rightarrow> 'k kprov" where
  "ensureBackupOnline X ty pfx p = (if kp_state p \<noteq> ProviderError then p else snd (OnRefresh X ty pfx p))"

definition onRefreshBackupProvider :: "'k kopia_ops \<Rightarrow> LocationType \<Rightarrow> string \<Rightarrow> 'k kprov \<Rightarrow> 'k kprov" where
  "onRefreshBackupProvider X ty pfx p =
     (if kp_state p = ProviderInitializing then p else snd (OnRefresh X ty pfx p))"

section \<open>Properties\<close>

definition higher :: "i64 \<Rightarrow> i64 \<Rightarrow> i64" where
  "higher m u = (if m <s u then u else m)"

lemma higher_props: "m \<le>s higher m u" "u \<le>s higher m u" "higher m u \<in> {m, u}"
  by (auto simp: higher_def word_sle_eq word_sless_alt)

definition highest :: "EfsUsage list \<Rightarrow> i64" where
  "highest us = foldl (\<lambda>m u. higher m (eu_used u)) 0 us"

lemma highest_fold: "foldl (\<lambda>m u. higher m (eu_used u)) 0 us = highest us"
  by (simp add: highest_def)

lemma highest_props:
  "0 \<le>s highest us" "u \<in> set us \<Longrightarrow> eu_used u \<le>s highest us" "highest us \<in> insert 0 (eu_used ` set us)"
proof (induction us rule: rev_induct)
  case (snoc x xs)
  have h: "highest (xs @ [x]) = higher (highest xs) (eu_used x)" by (simp add: highest_def)
  {
    case 1 show ?case using snoc.IH(1) higher_props(1)[of "highest xs" "eu_used x"]
      unfolding h by (simp add: word_sle_eq)
  next
    case 2 then show ?case using snoc.IH(2) higher_props(1,2)[where m = "highest xs" and u = "eu_used x"]
      unfolding h by (auto simp: word_sle_eq)
  next
    case 3 show ?case using snoc.IH(3) higher_props(3)[of "highest xs" "eu_used x"] unfolding h by auto
  }
qed (simp_all add: highest_def)

lemma efs_quiet:
  "fold sampleEfsUsage (map (\<lambda>(t, u). (t, False, Some u)) xs) s
     = s\<lparr>es_peek := foldl (\<lambda>m u. higher m (eu_used u)) (es_peek s) (map snd xs),
         es_current := (if xs = [] then es_current s else eu_used (snd (last xs)))\<rparr>"
  by (induction xs arbitrary: s) (auto simp: sampleEfsUsage_def higher_def Let_def)

text \<open>The file system sampler reports the peak of each period. After a report, the samples up to the next
  one that arrives in minute 0 lead to exactly one report, with the id of the last sample, the period
  since the last report and the highest size of the period: at least every sample, and one of them
  unless all are negative as signed numbers. The current usage is the last sample.\<close>

theorem efs_report_is_peak:
  assumes s: "es_peek s = 0"
  shows "let us = map snd xs @ [y];
             s' = fold sampleEfsUsage (map (\<lambda>(t, u). (t, False, Some u)) xs @ [(now, True, Some y)]) s
    in es_sent s' = es_sent s @ [y\<lparr>eu_end := eu_start y, eu_start := es_start s, eu_used := highest us\<rparr>]
     \<and> es_peek s' = 0 \<and> es_start s' = now \<and> es_current s' = eu_used y
     \<and> (\<forall>u\<in>set us. eu_used u \<le>s highest us) \<and> highest us \<in> insert 0 (eu_used ` set us)"
proof -
  have h: "highest (map snd xs @ [y]) = higher (highest (map snd xs)) (eu_used y)" by (simp add: highest_def)
  have "fold sampleEfsUsage (map (\<lambda>(t, u). (t, False, Some u)) xs @ [(now, True, Some y)]) s
      = s\<lparr>es_peek := 0, es_current := eu_used y, es_start := now,
          es_sent := es_sent s @ [y\<lparr>eu_end := eu_start y, eu_start := es_start s, eu_used := highest (map snd xs @ [y])\<rparr>]\<rparr>"
    unfolding h higher_def by (simp add: efs_quiet sampleEfsUsage_def s highest_fold Let_def)
  then show ?thesis
    using highest_props(2)[where us = "map snd xs @ [y]"] highest_props(3)[of "map snd xs @ [y]"]
    unfolding Let_def by simp
qed

lemma DoneBackup_fold:
  assumes TB: "table_ok TB backup_schema" and w: "bw_inv TB TR w" and nz: "\<forall>x\<in>set xs. bi_id x \<noteq> 0"
  shows "let w' = fold (\<lambda>item w. snd (DoneBackup TB now (bi_id item) d st extra w)) xs w
    in bw_inv TB TR w' \<and> bw_r w' = bw_r w \<and>
       rows TB (bw_b w') = map (\<lambda>x. if bi_id x \<in> bi_id ` set xs then done_update now d st extra x else x) (rows TB (bw_b w))"
  using w nz
proof (induction xs arbitrary: w)
  case (Cons a xs)
  have "bi_id a \<noteq> 0" using Cons.prems(2) by simp
  from DoneBackup_rows[OF TB Cons.prems(1) this]
  obtain t where t: "DoneBackup TB now (bi_id a) d st extra w = (None, w\<lparr>bw_b := t\<rparr>)" "bw_inv TB TR (w\<lparr>bw_b := t\<rparr>)"
    "rows TB t = map (\<lambda>x. if bi_id x = bi_id a then done_update now d st extra x else x) (rows TB (bw_b w))"
    by blast
  have idem: "done_update now d st extra (done_update now d st extra x) = done_update now d st extra x"
    "bi_id (done_update now d st extra x) = bi_id x" for x
    by (simp_all add: done_update_def sets_def setw_def)
  have "map (\<lambda>x. if bi_id x \<in> bi_id ` set xs then done_update now d st extra x else x) (rows TB t)
      = map (\<lambda>x. if bi_id x \<in> bi_id ` set (a # xs) then done_update now d st extra x else x) (rows TB (bw_b w))"
    unfolding t(3) map_map by (rule map_cong[OF refl]) (simp add: idem)
  moreover have e: "fold (\<lambda>item w. snd (DoneBackup TB now (bi_id item) d st extra w)) (a # xs) w
      = fold (\<lambda>item w. snd (DoneBackup TB now (bi_id item) d st extra w)) xs (w\<lparr>bw_b := t\<rparr>)" using t(1) by simp
  moreover have "\<forall>x\<in>set xs. bi_id x \<noteq> 0" using Cons.prems(2) by simp
  note IH = Cons.IH[OF t(2) this, unfolded Let_def]
  have "bw_r (w\<lparr>bw_b := t\<rparr>) = bw_r w" "bw_b (w\<lparr>bw_b := t\<rparr>) = t" by simp_all
  ultimately show ?case using IH unfolding Let_def by (simp only:)
qed (simp add: Let_def)

definition done_restore :: "int \<Rightarrow> i64 \<Rightarrow> RestoreState \<Rightarrow> string \<Rightarrow> RestoreItem \<Rightarrow> RestoreItem" where
  "done_restore now sz st extra x = x\<lparr>ri_state := st, ri_size := setw sz (ri_size x),
     ri_extra := sets extra (ri_extra x), ri_updated := now\<rparr>"

lemma DoneRestore_fold:
  assumes TR: "table_ok TR restore_schema" and w: "bw_inv TB TR w" and nz: "\<forall>x\<in>set xs. ri_id x \<noteq> 0"
  shows "let w' = fold (\<lambda>item w. snd (DoneRestore TR now (ri_id item) sz st extra w)) xs w
    in bw_inv TB TR w' \<and> bw_b w' = bw_b w \<and>
       rows TR (bw_r w') = map (\<lambda>x. if ri_id x \<in> ri_id ` set xs then done_restore now sz st extra x else x) (rows TR (bw_r w))"
  using w nz
proof (induction xs arbitrary: w)
  case (Cons a xs)
  have "ri_id a \<noteq> 0" using Cons.prems(2) by simp
  from DoneRestore_rows[OF TR Cons.prems(1) this]
  obtain t where t: "DoneRestore TR now (ri_id a) sz st extra w = (None, w\<lparr>bw_r := t\<rparr>)" "bw_inv TB TR (w\<lparr>bw_r := t\<rparr>)"
    "rows TR t = map (\<lambda>x. if ri_id x = ri_id a then done_restore now sz st extra x else x) (rows TR (bw_r w))"
    unfolding done_restore_def by blast
  have idem: "done_restore now sz st extra (done_restore now sz st extra x) = done_restore now sz st extra x"
    "ri_id (done_restore now sz st extra x) = ri_id x" for x
    by (simp_all add: done_restore_def sets_def setw_def)
  have "map (\<lambda>x. if ri_id x \<in> ri_id ` set xs then done_restore now sz st extra x else x) (rows TR t)
      = map (\<lambda>x. if ri_id x \<in> ri_id ` set (a # xs) then done_restore now sz st extra x else x) (rows TR (bw_r w))"
    unfolding t(3) map_map by (rule map_cong[OF refl]) (simp add: idem)
  moreover have e: "fold (\<lambda>item w. snd (DoneRestore TR now (ri_id item) sz st extra w)) (a # xs) w
      = fold (\<lambda>item w. snd (DoneRestore TR now (ri_id item) sz st extra w)) xs (w\<lparr>bw_r := t\<rparr>)" using t(1) by simp
  moreover have "\<forall>x\<in>set xs. ri_id x \<noteq> 0" using Cons.prems(2) by simp
  note IH = Cons.IH[OF t(2) this, unfolded Let_def]
  have "bw_b (w\<lparr>bw_r := t\<rparr>) = bw_b w" "bw_r (w\<lparr>bw_r := t\<rparr>) = t" by simp_all
  ultimately show ?case using IH unfolding Let_def by (simp only:)
qed (simp add: Let_def)

lemma map_by_id:
  assumes "distinct (map key xs)"
  shows "map (\<lambda>x. if key x \<in> key ` set (filter P xs) then f x else x) xs = map (\<lambda>x. if P x then f x else x) xs"
proof (rule map_cong[OF refl])
  fix x assume x: "x \<in> set xs"
  have "key x \<in> key ` set (filter P xs) \<longleftrightarrow> P x"
    using assms x by (auto simp: distinct_map inj_on_def)
  then show "(if key x \<in> key ` set (filter P xs) then f x else x) = (if P x then f x else x)" by simp
qed

lemma unique_keys:
  assumes "bw_inv TB TR w"
  shows "distinct (map bi_id (rows TB (bw_b w)))" "distinct (map ri_id (rows TR (bw_r w)))"
proof -
  have "distinct (rows TB (bw_b w))" "\<forall>x\<in>set (rows TB (bw_b w)). \<forall>y\<in>set (rows TB (bw_b w)). bi_id x = bi_id y \<longrightarrow> x = y"
    "distinct (rows TR (bw_r w))" "\<forall>x\<in>set (rows TR (bw_r w)). \<forall>y\<in>set (rows TR (bw_r w)). ri_id x = ri_id y \<longrightarrow> x = y"
    using assms by (simp_all add: bw_inv_def unique_rows_def)
  then show "distinct (map bi_id (rows TB (bw_b w)))" "distinct (map ri_id (rows TR (bw_r w)))"
    unfolding distinct_map inj_on_def by blast+
qed

text \<open>After a restart nothing is left running. \<open>scavengeAbormalBackup\<close> marks every running backup and restore
  as failed, with its message, and changes no other record; in particular it also fails the record of a
  backup that the restarted server has already accepted before this goroutine runs.\<close>

theorem abnormal_jobs_settled:
  assumes TB: "table_ok TB backup_schema" and TR: "table_ok TR restore_schema" and w: "store_ok TB TR w"
    and w'_def: "w' = scavengeAbormalBackup TB TR False now w"
  shows "rows TB (bw_b w') = map (\<lambda>x. if bi_state x = BackupRunning
       then done_update now emptyDetail BackupFailed abnormal x else x) (rows TB (bw_b w))
    \<and> rows TR (bw_r w') = map (\<lambda>x. if ri_state x = RestoreRunning
       then done_restore now 0 RestoreFailed abnormal x else x) (rows TR (bw_r w))
    \<and> (\<forall>x\<in>set (rows TB (bw_b w')). bi_state x \<noteq> BackupRunning)
    \<and> (\<forall>x\<in>set (rows TR (bw_r w')). ri_state x \<noteq> RestoreRunning)"
proof -
  have inv: "bw_inv TB TR w" and nz: "\<forall>x\<in>set (rows TB (bw_b w)). bi_id x \<noteq> 0" "\<forall>x\<in>set (rows TR (bw_r w)). ri_id x \<noteq> 0"
    using w by (simp_all add: store_ok_def)
  let ?bs = "filter (\<lambda>x. bi_state x = BackupRunning) (rows TB (bw_b w))"
  let ?rs = "filter (\<lambda>x. ri_state x = RestoreRunning) (rows TR (bw_r w))"
  define w1 where "w1 = fold (\<lambda>item w. snd (DoneBackup TB now (bi_id item) emptyDetail BackupFailed abnormal w)) ?bs w"
  have w1: "bw_inv TB TR w1" "bw_r w1 = bw_r w" "rows TB (bw_b w1) = map (\<lambda>x. if bi_state x = BackupRunning
       then done_update now emptyDetail BackupFailed abnormal x else x) (rows TB (bw_b w))"
    using DoneBackup_fold[OF TB inv, of ?bs now emptyDetail BackupFailed abnormal] nz(1)
    unfolding w1_def[symmetric] Let_def map_by_id[OF unique_keys(1)[OF inv]] by simp_all
  have e: "w' = fold (\<lambda>item w. snd (DoneRestore TR now (ri_id item) 0 RestoreFailed abnormal w)) ?rs w1"
    unfolding w'_def scavengeAbormalBackup_def
    by (simp add: LoadBackups_rows[OF TB] LoadRestores_rows[OF TR] w1_def[symmetric] w1(2) Let_def)
  have w': "bw_b w' = bw_b w1" "rows TR (bw_r w') = map (\<lambda>x. if ri_state x = RestoreRunning
       then done_restore now 0 RestoreFailed abnormal x else x) (rows TR (bw_r w))"
    using DoneRestore_fold[OF TR w1(1), of ?rs now 0 RestoreFailed abnormal] nz(2)
    unfolding e[symmetric] Let_def w1(2) map_by_id[OF unique_keys(2)[OF inv]] by simp_all
  show ?thesis unfolding w' w1(3)
    by (auto simp: done_update_def done_restore_def)
qed

definition toy_efs :: "u64 \<Rightarrow> EfsUsage" where
  "toy_efs n = \<lparr>eu_id = ''u'', eu_used = n, eu_tenant = 7, eu_fs = [], eu_account = [], eu_start = 0, eu_end = 0\<rparr>"

theorem efs_report_is_peak_witness:
  "map eu_used (es_sent (fold sampleEfsUsage [(1, False, Some (toy_efs 5)), (2, False, Some (toy_efs 9)), (3, True, Some (toy_efs 4))]
     (efs_init 0))) = [9]"
proof -
  have "es_peek (efs_init 0) = 0" by (simp add: efs_init_def)
  from efs_report_is_peak[OF this, of "[(1, toy_efs 5), (2, toy_efs 9)]" "toy_efs 4" 3]
  have "es_sent (fold sampleEfsUsage [(1, False, Some (toy_efs 5)), (2, False, Some (toy_efs 9)), (3, True, Some (toy_efs 4))]
     (efs_init 0)) = es_sent (efs_init 0) @ [(toy_efs 4)\<lparr>eu_end := eu_start (toy_efs 4), eu_start := es_start (efs_init 0),
       eu_used := highest [toy_efs 5, toy_efs 9, toy_efs 4]\<rparr>]" by (simp add: Let_def)
  moreover have "highest [toy_efs 5, toy_efs 9, toy_efs 4] = 9" by code_simp
  ultimately show ?thesis by (simp add: efs_init_def)
qed

definition toy_running :: "(BackupItem list, RestoreItem list) bworld" where
  "toy_running = ex_bworld\<lparr>bw_b := map (\<lambda>x. x\<lparr>bi_state := BackupRunning\<rparr>) (bw_b ex_bworld)\<rparr>"

theorem abnormal_jobs_settled_witness:
  "map bi_state (bw_b (scavengeAbormalBackup LB LR False 9 toy_running)) = [BackupFailed]"
proof -
  have "store_ok LB LR toy_running"
    by (simp add: store_ok_def bw_inv_def unique_rows_def toy_running_def ex_bworld_def)
  from abnormal_jobs_settled[OF list_table_ok list_table_ok this refl, of 9]
  show ?thesis by (simp add: toy_running_def ex_bworld_def done_update_def)
qed

end
