(* ===== verification/PriorityQueue.thy ===== *)
theory PriorityQueue
  imports Prelude
begin

text \<open>
  The priority queue of \<open>internal/backup/priority_queue.go\<close> with the operations of Go's \<open>container/heap\<close> that it
  is made for. The slice holds pointers: an item is an address in a store, and carries its index in the slice.
\<close>

section \<open>The queue\<close>

record 'v ProviderItem =
  pi_name :: string
  pi_value :: 'v
  pi_priority :: int
  pi_index :: int

record 'v PriorityQueue =
  pq_items :: "nat \<Rightarrow> 'v ProviderItem"
  pq_q :: "nat list"

definition Len :: "'v PriorityQueue \<Rightarrow> nat" where
  "Len pq = length (pq_q pq)"

definition prio_at :: "'v PriorityQueue \<Rightarrow> nat \<Rightarrow> int" where
  "prio_at pq i = pi_priority (pq_items pq (pq_q pq ! i))"

definition Less :: "'v PriorityQueue \<Rightarrow> nat \<Rightarrow> nat \<Rightarrow> bool" where
  "Less pq i j \<longleftrightarrow> prio_at pq i > prio_at pq j"

definition set_index :: "nat \<Rightarrow> int \<Rightarrow> 'v PriorityQueue \<Rightarrow> 'v PriorityQueue" where
  "set_index a i pq = pq\<lparr>pq_items := (pq_items pq)(a := (pq_items pq a)\<lparr>pi_index := i\<rparr>)\<rparr>"

definition Swap :: "nat \<Rightarrow> nat \<Rightarrow> 'v PriorityQueue \<Rightarrow> 'v PriorityQueue" where
  "Swap i j pq =
     (let q = (pq_q pq)[i := pq_q pq ! j, j := pq_q pq ! i]
      in set_index (q ! j) (int j) (set_index (q ! i) (int i) (pq\<lparr>pq_q := q\<rparr>)))"

definition Push :: "nat \<Rightarrow> 'v PriorityQueue \<Rightarrow> 'v PriorityQueue" where
  "Push a pq = (set_index a (int (Len pq)) pq)\<lparr>pq_q := pq_q pq @ [a]\<rparr>"

definition Pop :: "'v PriorityQueue \<Rightarrow> nat \<times> 'v PriorityQueue" where
  "Pop pq = (let a = last (pq_q pq) in (a, (set_index a (-1) pq)\<lparr>pq_q := butlast (pq_q pq)\<rparr>))"

definition Get :: "string \<Rightarrow> 'v PriorityQueue \<Rightarrow> nat option" where
  "Get name pq = List.find (\<lambda>a. pi_name (pq_items pq a) = name) (pq_q pq)"

section \<open>Package container/heap\<close>

fun heap_up :: "nat \<Rightarrow> 'v PriorityQueue \<Rightarrow> 'v PriorityQueue" where
  "heap_up j pq =
     (let i = (j - 1) div 2 in
      if i = j \<or> j = 0 \<or> \<not> Less pq j i then pq else heap_up i (Swap i j pq))"

function heap_down :: "nat \<Rightarrow> nat \<Rightarrow> 'v PriorityQueue \<Rightarrow> nat \<times> 'v PriorityQueue" where
  "heap_down i n pq =
     (let j1 = 2 * i + 1 in
      if j1 \<ge> n then (i, pq)
      else let j = (if j1 + 1 < n \<and> Less pq (j1 + 1) j1 then j1 + 1 else j1) in
        if \<not> Less pq j i then (i, pq) else heap_down j n (Swap i j pq))"
  by pat_completeness auto
termination
  by (relation "measure (\<lambda>(i, n, pq). n - i)") (auto simp: Let_def split: if_splits)

declare heap_up.simps [simp del] heap_down.simps [simp del]

definition heap_Push :: "nat \<Rightarrow> 'v PriorityQueue \<Rightarrow> 'v PriorityQueue" where
  "heap_Push a pq = (let pq1 = Push a pq in heap_up (Len pq1 - 1) pq1)"

definition heap_Pop :: "'v PriorityQueue \<Rightarrow> nat \<times> 'v PriorityQueue" where
  "heap_Pop pq = (let n = Len pq - 1 in Pop (snd (heap_down 0 n (Swap 0 n pq))))"

definition heap_Fix :: "nat \<Rightarrow> 'v PriorityQueue \<Rightarrow> 'v PriorityQueue" where
  "heap_Fix i pq = (let (i', pq1) = heap_down i (Len pq) pq in if i' > i then pq1 else heap_up i pq1)"

text \<open>The index of a popped item is -1: neither loop of \<open>Fix\<close> takes a step then.\<close>

definition update :: "nat \<Rightarrow> 'v \<Rightarrow> int \<Rightarrow> 'v PriorityQueue \<Rightarrow> 'v PriorityQueue" where
  "update a v p pq =
     (let pq1 = pq\<lparr>pq_items := (pq_items pq)(a := (pq_items pq a)\<lparr>pi_value := v, pi_priority := p\<rparr>)\<rparr>;
          i = pi_index (pq_items pq1 a)
      in if i < 0 then pq1 else heap_Fix (nat i) pq1)"

section \<open>Well-formed queues\<close>

text \<open>The addresses are distinct, and each item knows its place.\<close>

definition placed :: "'v PriorityQueue \<Rightarrow> bool" where
  "placed pq \<longleftrightarrow> distinct (pq_q pq) \<and> (\<forall>i < Len pq. pi_index (pq_items pq (pq_q pq ! i)) = int i)"

definition content :: "'v ProviderItem \<Rightarrow> string \<times> 'v \<times> int" where
  "content x = (pi_name x, pi_value x, pi_priority x)"

text \<open>The same items with the same contents, perhaps in other places.\<close>

definition rearranged :: "'v PriorityQueue \<Rightarrow> 'v PriorityQueue \<Rightarrow> bool" where
  "rearranged pq pq' \<longleftrightarrow> mset (pq_q pq') = mset (pq_q pq)
     \<and> (\<forall>a. content (pq_items pq' a) = content (pq_items pq a)) \<and> (placed pq \<longrightarrow> placed pq')"

lemma rearranged_refl [simp]: "rearranged pq pq"
  by (simp add: rearranged_def)

lemma rearranged_trans: "rearranged a b \<Longrightarrow> rearranged b c \<Longrightarrow> rearranged a c"
  by (simp add: rearranged_def)

lemma rearranged_Len: "rearranged pq pq' \<Longrightarrow> Len pq' = Len pq"
  unfolding rearranged_def Len_def by (metis size_mset)

lemma content_set_index [simp]: "content (pq_items (set_index a i pq) b) = content (pq_items pq b)"
  by (simp add: set_index_def content_def)

lemma set_index_q [simp]: "pq_q (set_index a i pq) = pq_q pq"
  by (simp add: set_index_def)

lemma Swap_q [simp]: "pq_q (Swap i j pq) = (pq_q pq)[i := pq_q pq ! j, j := pq_q pq ! i]"
  by (simp add: Swap_def Let_def)

lemma Swap_content [simp]: "content (pq_items (Swap i j pq) a) = content (pq_items pq a)"
  by (simp add: Swap_def Let_def)

lemma content_prio: "content x = content y \<Longrightarrow> pi_priority x = pi_priority y"
  by (simp add: content_def)

lemma Swap_rearranged:
  assumes "i < Len pq" "j < Len pq"
  shows "rearranged pq (Swap i j pq)"
proof -
  have m: "mset ((pq_q pq)[i := pq_q pq ! j, j := pq_q pq ! i]) = mset (pq_q pq)"
    using assms by (simp add: Len_def mset_swap)
  have "placed (Swap i j pq)" if p: "placed pq"
  proof -
    let ?q = "(pq_q pq)[i := pq_q pq ! j, j := pq_q pq ! i]"
    have d: "distinct ?q" using p assms by (simp add: placed_def Len_def distinct_swap)
    have ix: "pi_index (pq_items (Swap i j pq) a)
        = (if a = ?q ! j then int j else if a = ?q ! i then int i else pi_index (pq_items pq a))" for a
      by (simp add: Swap_def Let_def set_index_def)
    have "pi_index (pq_items (Swap i j pq) (?q ! k)) = int k" if k: "k < Len pq" for k
    proof -
      have l: "length ?q = Len pq" by (simp add: Len_def)
      have "?q ! k = ?q ! j \<longleftrightarrow> k = j" "?q ! k = ?q ! i \<longleftrightarrow> k = i"
        using d k assms l by (simp_all only: nth_eq_iff_index_eq)
      moreover have "k \<noteq> i \<Longrightarrow> k \<noteq> j \<Longrightarrow> ?q ! k = pq_q pq ! k" by simp
      ultimately show ?thesis unfolding ix using p k by (auto simp: placed_def)
    qed
    then show ?thesis using d by (simp add: placed_def Len_def)
  qed
  then show ?thesis using m by (simp add: rearranged_def)
qed

lemma prio_Swap:
  assumes "i < Len pq" "j < Len pq"
  shows "prio_at (Swap i j pq) k = (if k = i then prio_at pq j else if k = j then prio_at pq i else prio_at pq k)"
proof -
  have "prio_at (Swap i j pq) k = pi_priority (pq_items pq (pq_q (Swap i j pq) ! k))"
    unfolding prio_at_def by (rule content_prio) simp
  then show ?thesis using assms by (auto simp: prio_at_def Len_def nth_list_update)
qed

lemma rearranged_Swap: "i < Len pq \<Longrightarrow> j < Len pq \<Longrightarrow> Len (Swap i j pq) = Len pq"
  by (simp add: Len_def)

section \<open>The order of the heap\<close>

definition heap_ordered :: "nat \<Rightarrow> 'v PriorityQueue \<Rightarrow> bool" where
  "heap_ordered n pq \<longleftrightarrow> (\<forall>k < n. 0 < k \<longrightarrow> prio_at pq k \<le> prio_at pq ((k - 1) div 2))"

text \<open>The order with a fault between \<open>i\<close> and its parent, and with a fault between \<open>i\<close> and its children.\<close>

definition ordered_but_up :: "nat \<Rightarrow> nat \<Rightarrow> 'v PriorityQueue \<Rightarrow> bool" where
  "ordered_but_up i n pq \<longleftrightarrow> (\<forall>k < n. 0 < k \<longrightarrow> k \<noteq> i \<longrightarrow> prio_at pq k \<le> prio_at pq ((k - 1) div 2))
     \<and> (\<forall>k < n. 0 < k \<longrightarrow> 0 < i \<longrightarrow> (k - 1) div 2 = i \<longrightarrow> prio_at pq k \<le> prio_at pq ((i - 1) div 2))"

definition ordered_but_down :: "nat \<Rightarrow> nat \<Rightarrow> 'v PriorityQueue \<Rightarrow> bool" where
  "ordered_but_down i n pq \<longleftrightarrow> (\<forall>k < n. 0 < k \<longrightarrow> (k - 1) div 2 \<noteq> i \<longrightarrow> prio_at pq k \<le> prio_at pq ((k - 1) div 2))
     \<and> (\<forall>k < n. 0 < k \<longrightarrow> 0 < i \<longrightarrow> (k - 1) div 2 = i \<longrightarrow> prio_at pq k \<le> prio_at pq ((i - 1) div 2))"

lemma ordered_but_upI:
  assumes "\<And>k. k < n \<Longrightarrow> 0 < k \<Longrightarrow> k \<noteq> i \<Longrightarrow> prio_at pq k \<le> prio_at pq ((k - 1) div 2)"
    and "\<And>k. k < n \<Longrightarrow> 0 < k \<Longrightarrow> 0 < i \<Longrightarrow> (k - 1) div 2 = i \<Longrightarrow> prio_at pq k \<le> prio_at pq ((i - 1) div 2)"
  shows "ordered_but_up i n pq"
  using assms by (simp add: ordered_but_up_def)

lemma ordered_but_downI:
  assumes "\<And>k. k < n \<Longrightarrow> 0 < k \<Longrightarrow> (k - 1) div 2 \<noteq> i \<Longrightarrow> prio_at pq k \<le> prio_at pq ((k - 1) div 2)"
    and "\<And>k. k < n \<Longrightarrow> 0 < k \<Longrightarrow> 0 < i \<Longrightarrow> (k - 1) div 2 = i \<Longrightarrow> prio_at pq k \<le> prio_at pq ((i - 1) div 2)"
  shows "ordered_but_down i n pq"
  using assms by (simp add: ordered_but_down_def)

lemma parent_less: "0 < k \<Longrightarrow> (k - 1) div 2 < (k::nat)"
  by simp

lemma children: "0 < k \<Longrightarrow> (k - 1) div 2 = i \<longleftrightarrow> k = 2 * i + 1 \<or> k = 2 * i + (2::nat)"
  by presburger

lemma heap_top:
  assumes "heap_ordered n pq" "k < n"
  shows "prio_at pq k \<le> prio_at pq 0"
  using assms(2)
proof (induction k rule: less_induct)
  case (less k)
  show ?case
  proof (cases "k = 0")
    case False
    then have p: "(k - 1) div 2 < k" by simp
    have "prio_at pq ((k - 1) div 2) \<le> prio_at pq 0" using less p by simp
    then show ?thesis using assms(1) less.prems False by (fastforce simp: heap_ordered_def)
  qed simp
qed

lemma heap_up_spec:
  "ordered_but_up j (Len pq) pq \<Longrightarrow> j < Len pq
     \<Longrightarrow> rearranged pq (heap_up j pq) \<and> heap_ordered (Len pq) (heap_up j pq)"
proof (induction j pq rule: heap_up.induct)
  case (1 j pq)
  let ?i = "(j - 1) div 2" and ?n = "Len pq"
  show ?case
  proof (cases "?i = j \<or> j = 0 \<or> \<not> Less pq j ?i")
    case True
    then have "j = 0 \<or> prio_at pq j \<le> prio_at pq ?i" by (auto simp: Less_def not_less)
    then have "heap_ordered ?n pq" using "1.prems"(1)
      by (auto simp: heap_ordered_def ordered_but_up_def)
    then show ?thesis using True by (subst (1 2) heap_up.simps) (simp add: Let_def)
  next
    case False
    let ?s = "Swap ?i j pq"
    have j: "0 < j" "?i < j" and l: "prio_at pq ?i < prio_at pq j" using False by (auto simp: Less_def)
    have b: "?i < ?n" "j < ?n" using j "1.prems"(2) by simp_all
    have pr: "prio_at ?s k = (if k = ?i then prio_at pq j else if k = j then prio_at pq ?i else prio_at pq k)" for k
      using prio_Swap[OF b] .
    have o1: "\<And>k. k < ?n \<Longrightarrow> 0 < k \<Longrightarrow> k \<noteq> j \<Longrightarrow> prio_at pq k \<le> prio_at pq ((k - 1) div 2)"
      and o2: "\<And>k. k < ?n \<Longrightarrow> 0 < k \<Longrightarrow> (k - 1) div 2 = j \<Longrightarrow> prio_at pq k \<le> prio_at pq ?i"
      using "1.prems"(1) j by (auto simp: ordered_but_up_def)
    have "ordered_but_up ?i ?n ?s"
    proof (rule ordered_but_upI)
      fix k assume k: "k < ?n" "0 < k" "k \<noteq> ?i"
      let ?p = "(k - 1) div 2"
      have kp: "?p < k" using k by simp
      consider "k = j" | "k \<noteq> j" "?p = j" | "k \<noteq> j" "?p = ?i" | "k \<noteq> j" "?p \<noteq> j" "?p \<noteq> ?i" by blast
      then show "prio_at ?s k \<le> prio_at ?s ?p"
      proof cases
        case 1 then show ?thesis unfolding pr using l j by simp
      next
        case 2
        have "prio_at ?s k = prio_at pq k" "prio_at ?s ?p = prio_at pq ?i" unfolding pr using 2 k j by simp_all
        then show ?thesis using o2[of k] k 2 by simp
      next
        case 3
        have "prio_at ?s k = prio_at pq k" "prio_at ?s ?p = prio_at pq j" unfolding pr using 3 k by simp_all
        then show ?thesis using o1[of k] k 3 l by simp
      next
        case 4
        have "prio_at ?s k = prio_at pq k" "prio_at ?s ?p = prio_at pq ?p" unfolding pr using 4 k by simp_all
        then show ?thesis using o1[of k] k 4 by simp
      qed
    next
      fix k assume k: "k < ?n" "0 < k" "0 < ?i" "(k - 1) div 2 = ?i"
      let ?g = "(?i - 1) div 2"
      have g: "?g < ?i" using k(3) by (rule parent_less)
      have pg: "prio_at ?s ?g = prio_at pq ?g" unfolding pr using g j by simp
      have ig: "prio_at pq ?i \<le> prio_at pq ?g" using o1[of ?i] b j k(3) by simp
      show "prio_at ?s k \<le> prio_at ?s ?g"
      proof (cases "k = j")
        case True
        then have "prio_at ?s k = prio_at pq ?i" unfolding pr using j by simp
        then show ?thesis unfolding pg using ig by simp
      next
        case False
        have "k \<noteq> ?i" using parent_less[OF k(2)] k(4) by simp
        then have "prio_at ?s k = prio_at pq k" unfolding pr using False by simp
        then show ?thesis unfolding pg using o1[of k] k False ig by simp
      qed
    qed
    moreover have ln: "Len ?s = ?n" by (simp add: Len_def)
    ultimately have ih: "rearranged ?s (heap_up ?i ?s) \<and> heap_ordered ?n (heap_up ?i ?s)"
      using "1.IH"[OF refl False] b by simp
    moreover have "heap_up j pq = heap_up ?i ?s" using False by (subst heap_up.simps) (simp add: Let_def)
    ultimately show ?thesis using rearranged_trans[OF Swap_rearranged[OF b]] by simp
  qed
qed

text \<open>The order with faults on both sides of \<open>i\<close>.\<close>

definition ordered_around :: "nat \<Rightarrow> nat \<Rightarrow> 'v PriorityQueue \<Rightarrow> bool" where
  "ordered_around i n pq \<longleftrightarrow>
     (\<forall>k < n. 0 < k \<longrightarrow> k \<noteq> i \<longrightarrow> (k - 1) div 2 \<noteq> i \<longrightarrow> prio_at pq k \<le> prio_at pq ((k - 1) div 2))
     \<and> (\<forall>k < n. 0 < k \<longrightarrow> 0 < i \<longrightarrow> (k - 1) div 2 = i \<longrightarrow> prio_at pq k \<le> prio_at pq ((i - 1) div 2))"

lemma ordered_but_down_around: "ordered_but_down i n pq \<Longrightarrow> ordered_around i n pq"
  by (simp add: ordered_but_down_def ordered_around_def)

lemma heap_down_step:
  assumes "ordered_around i n pq" "n \<le> Len pq" "j < n" "j = 2 * i + 1 \<or> j = 2 * i + 2"
    and l: "prio_at pq i < prio_at pq j"
    and m: "\<And>k. k < n \<Longrightarrow> 0 < k \<Longrightarrow> (k - 1) div 2 = i \<Longrightarrow> prio_at pq k \<le> prio_at pq j"
  shows "ordered_but_down j n (Swap i j pq)"
proof (rule ordered_but_downI)
  let ?s = "Swap i j pq"
  have ij: "i < j" "0 < j" "(j - 1) div 2 = i" using assms(4) by auto
  have pr: "prio_at ?s k = (if k = i then prio_at pq j else if k = j then prio_at pq i else prio_at pq k)" for k
    using prio_Swap[of i pq j k] ij assms(2,3) by simp
  have o1: "\<And>k. k < n \<Longrightarrow> 0 < k \<Longrightarrow> k \<noteq> i \<Longrightarrow> (k - 1) div 2 \<noteq> i \<Longrightarrow> prio_at pq k \<le> prio_at pq ((k - 1) div 2)"
    and o2: "\<And>k. k < n \<Longrightarrow> 0 < k \<Longrightarrow> 0 < i \<Longrightarrow> (k - 1) div 2 = i \<Longrightarrow> prio_at pq k \<le> prio_at pq ((i - 1) div 2)"
    using assms(1) by (auto simp: ordered_around_def)
  {
    fix k assume k: "k < n" "0 < k" "(k - 1) div 2 \<noteq> j"
    let ?p = "(k - 1) div 2"
    have kp: "?p < k" using k by simp
    consider "k = i" | "k = j" | "k \<noteq> i" "k \<noteq> j" "?p = i" | "k \<noteq> i" "k \<noteq> j" "?p \<noteq> i" by blast
    then show "prio_at ?s k \<le> prio_at ?s ?p"
    proof cases
      case 1
      have "prio_at ?s ?p = prio_at pq ?p" "prio_at ?s k = prio_at pq j" unfolding pr using 1 kp k ij by simp_all
      then show ?thesis using o2[OF assms(3) ij(2)] ij(3) k(2) 1 by simp
    next
      case 2
      then show ?thesis unfolding pr using ij l by simp
    next
      case 3
      have "prio_at ?s ?p = prio_at pq j" "prio_at ?s k = prio_at pq k" unfolding pr using 3 by simp_all
      then show ?thesis using m[OF k(1,2)] 3 by simp
    next
      case 4
      have "prio_at ?s ?p = prio_at pq ?p" "prio_at ?s k = prio_at pq k" unfolding pr using 4 k by simp_all
      then show ?thesis using o1[OF k(1,2)] 4 by simp
    qed
  next
    fix k assume k: "k < n" "0 < k" "0 < j" "(k - 1) div 2 = j"
    have "k \<noteq> i" "k \<noteq> j" using parent_less[OF k(2)] k(4) ij by auto
    then have "prio_at ?s k = prio_at pq k" "prio_at ?s ((j - 1) div 2) = prio_at pq j" unfolding pr using ij by simp_all
    then show "prio_at ?s k \<le> prio_at ?s ((j - 1) div 2)" using o1[OF k(1,2)] k(4) ij by simp
  }
qed

text \<open>The child that \<open>down\<close> looks at.\<close>

definition larger_child :: "nat \<Rightarrow> nat \<Rightarrow> 'v PriorityQueue \<Rightarrow> nat" where
  "larger_child i n pq = (let j1 = 2 * i + 1 in if j1 + 1 < n \<and> Less pq (j1 + 1) j1 then j1 + 1 else j1)"

lemma heap_down_unfold:
  "heap_down i n pq = (if n \<le> 2 * i + 1 \<or> \<not> Less pq (larger_child i n pq) i then (i, pq)
     else heap_down (larger_child i n pq) n (Swap i (larger_child i n pq) pq))"
  by (subst heap_down.simps) (simp add: Let_def larger_child_def)

lemma larger_child:
  assumes "2 * i + 1 < n"
  shows "larger_child i n pq = 2 * i + 1 \<or> larger_child i n pq = 2 * i + 2" "larger_child i n pq < n"
    "\<And>k. k < n \<Longrightarrow> 0 < k \<Longrightarrow> (k - 1) div 2 = i \<Longrightarrow> prio_at pq k \<le> prio_at pq (larger_child i n pq)"
proof -
  let ?j = "larger_child i n pq"
  show "?j = 2 * i + 1 \<or> ?j = 2 * i + 2" "?j < n" using assms by (auto simp: larger_child_def Let_def)
  fix k assume k: "k < n" "0 < k" "(k - 1) div 2 = i"
  have "k = 2 * i + 1 \<or> k = 2 * i + 2" using k(3) children[OF k(2)] by blast
  then show "prio_at pq k \<le> prio_at pq ?j"
    using k(1) by (auto simp: larger_child_def Let_def Less_def)
qed

lemma heap_down_spec:
  "ordered_but_down i n pq \<Longrightarrow> n \<le> Len pq
     \<Longrightarrow> rearranged pq (snd (heap_down i n pq)) \<and> heap_ordered n (snd (heap_down i n pq))
       \<and> i \<le> fst (heap_down i n pq) \<and> (\<forall>k \<ge> n. pq_q (snd (heap_down i n pq)) ! k = pq_q pq ! k)"
proof (induction "n - i" arbitrary: i pq rule: less_induct)
  case (less i pq)
  let ?j = "larger_child i n pq"
  show ?case
  proof (cases "n \<le> 2 * i + 1 \<or> \<not> Less pq ?j i")
    case True
    have "prio_at pq k \<le> prio_at pq ((k - 1) div 2)" if k: "k < n" "0 < k" for k
    proof (cases "(k - 1) div 2 = i")
      case True
      then have "k = 2 * i + 1 \<or> k = 2 * i + 2" using children[OF k(2)] by blast
      then have n: "2 * i + 1 < n" using k by auto
      have "prio_at pq k \<le> prio_at pq ?j" using larger_child(3)[OF n k True] .
      moreover have "prio_at pq ?j \<le> prio_at pq i"
        using \<open>n \<le> 2 * i + 1 \<or> \<not> Less pq ?j i\<close> n by (auto simp: Less_def)
      ultimately show ?thesis using True by simp
    next
      case False
      then show ?thesis using less.prems(1) k by (simp add: ordered_but_down_def)
    qed
    then have "heap_ordered n pq" by (simp add: heap_ordered_def)
    then show ?thesis using True by (simp add: heap_down_unfold[of i n pq])
  next
    case False
    then have n: "2 * i + 1 < n" and l: "prio_at pq i < prio_at pq ?j" by (auto simp: Less_def)
    let ?s = "Swap i ?j pq"
    note c = larger_child[OF n, where pq = pq]
    have b: "i < Len pq" "?j < Len pq" using n c(2) less.prems(2) by auto
    have ln: "n \<le> Len ?s" using less.prems(2) by (simp add: Len_def)
    have o: "ordered_but_down ?j n ?s"
      using heap_down_step[OF ordered_but_down_around[OF less.prems(1)] less.prems(2) c(2) c(1) l c(3)] .
    have d: "n - ?j < n - i" using c(1) n by auto
    note ih = less.hyps[OF d o ln]
    have "heap_down i n pq = heap_down ?j n ?s" using False by (simp add: heap_down_unfold[of i n pq])
    moreover have "\<forall>k \<ge> n. pq_q ?s ! k = pq_q pq ! k" using c(2) n by simp
    moreover have "i \<le> ?j" using c(1) by auto
    ultimately show ?thesis using ih rearranged_trans[OF Swap_rearranged[OF b]] by fastforce
  qed
qed

section \<open>The bag of a queue\<close>

definition pq_ok :: "'v PriorityQueue \<Rightarrow> bool" where
  "pq_ok pq \<longleftrightarrow> placed pq \<and> heap_ordered (Len pq) pq"

definition bag_of :: "'v PriorityQueue \<Rightarrow> nat \<Rightarrow> (string \<times> 'v \<times> int) option" where
  "bag_of pq a = (if a \<in> set (pq_q pq) then Some (content (pq_items pq a)) else None)"

lemma rearranged_bag:
  assumes "rearranged pq pq'"
  shows "bag_of pq' = bag_of pq"
proof -
  have "set (pq_q pq') = set (pq_q pq)" using assms unfolding rearranged_def by (metis set_mset_mset)
  then show ?thesis using assms by (auto simp: bag_of_def rearranged_def)
qed

lemma rearranged_ok: "rearranged pq pq' \<Longrightarrow> placed pq \<Longrightarrow> heap_ordered (Len pq) pq' \<Longrightarrow> pq_ok pq'"
  by (simp add: pq_ok_def rearranged_Len) (simp add: rearranged_def)

lemma heap_Push_spec:
  assumes "pq_ok pq" "a \<notin> set (pq_q pq)"
  shows "pq_ok (heap_Push a pq)" "bag_of (heap_Push a pq) = (bag_of pq)(a \<mapsto> content (pq_items pq a))"
proof -
  let ?p = "Push a pq" and ?n = "Len pq"
  have l: "Len ?p = Suc ?n" by (simp add: Push_def Len_def)
  have c: "content (pq_items ?p b) = content (pq_items pq b)" for b by (simp add: Push_def)
  have pr: "prio_at ?p k = prio_at pq k" if "k < ?n" for k
    unfolding prio_at_def using that c by (auto simp: Push_def Len_def nth_append intro!: content_prio)
  have "ordered_but_up ?n (Len ?p) ?p"
    unfolding l
  proof (rule ordered_but_upI)
    fix k assume "k < Suc ?n" "0 < k" "k \<noteq> ?n"
    then show "prio_at ?p k \<le> prio_at ?p ((k - 1) div 2)"
      using assms(1) pr by (simp add: pq_ok_def heap_ordered_def)
  qed auto
  then have h: "rearranged ?p (heap_Push a pq)" "heap_ordered (Len ?p) (heap_Push a pq)"
    using heap_up_spec[of "?n" ?p] l by (simp_all add: heap_Push_def)
  have "placed ?p"
    using assms by (auto simp: placed_def pq_ok_def Push_def set_index_def Len_def nth_append)
  then show "pq_ok (heap_Push a pq)" using rearranged_ok h by blast
  show "bag_of (heap_Push a pq) = (bag_of pq)(a \<mapsto> content (pq_items pq a))"
    unfolding rearranged_bag[OF h(1)] by (auto simp: bag_of_def c fun_eq_iff) (simp_all add: Push_def)
qed

lemma heap_Pop_spec:
  assumes ok: "pq_ok pq" and ne: "pq_q pq \<noteq> []" and pop: "heap_Pop pq = (a, pq')"
  shows "a \<in> set (pq_q pq)" "pq_ok pq'" "bag_of pq' = (bag_of pq)(a := None)"
    "\<forall>b \<in> set (pq_q pq). pi_priority (pq_items pq b) \<le> pi_priority (pq_items pq a)"
proof -
  let ?n = "Len pq - 1"
  let ?s = "Swap 0 ?n pq"
  let ?d = "snd (heap_down 0 ?n ?s)"
  have l: "0 < Len pq" "?n < Len pq" using ne by (simp_all add: Len_def)
  have "ordered_but_down 0 ?n ?s"
  proof (rule ordered_but_downI)
    fix k assume k: "k < ?n" "0 < k" "(k - 1) div 2 \<noteq> 0"
    have "(k - 1) div 2 < ?n" using k by simp
    then have "prio_at ?s k = prio_at pq k" "prio_at ?s ((k - 1) div 2) = prio_at pq ((k - 1) div 2)"
      using k by (simp_all only: prio_Swap[OF l]) simp_all
    then show "prio_at ?s k \<le> prio_at ?s ((k - 1) div 2)"
      using ok k by (simp add: pq_ok_def heap_ordered_def)
  qed simp
  then have d: "rearranged ?s ?d" "heap_ordered ?n ?d" "\<forall>k \<ge> ?n. pq_q ?d ! k = pq_q ?s ! k"
    using heap_down_spec[of 0 ?n ?s] l by (simp_all add: rearranged_Swap)
  note rs = Swap_rearranged[OF l]
  have ld: "length (pq_q ?d) = Len pq" using rearranged_Len[OF d(1)] rearranged_Len[OF rs] by (simp add: Len_def)
  have "last (pq_q ?d) = pq_q ?d ! ?n" using ld ne by (metis last_conv_nth Len_def length_0_conv)
  also have "\<dots> = pq_q pq ! 0" using d(3) l by (auto simp: Len_def)
  finally have a: "a = pq_q pq ! 0" "pq' = (set_index a (-1) ?d)\<lparr>pq_q := butlast (pq_q ?d)\<rparr>" "a = last (pq_q ?d)"
    using pop by (auto simp: heap_Pop_def Pop_def Let_def)
  show in': "a \<in> set (pq_q pq)" using a(1) ne by simp
  have pl: "placed ?d" using ok rs d(1) by (simp add: rearranged_def pq_ok_def)
  have q: "pq_q ?d = butlast (pq_q ?d) @ [a]" using a(3) ld l by (metis append_butlast_last_id Len_def length_greater_0_conv)
  have nin: "a \<notin> set (butlast (pq_q ?d))" using pl q unfolding placed_def by (metis distinct_append not_distinct_conv_prefix distinct.simps(2) disjoint_iff list.set_intros(1))
  have lb: "length (butlast (pq_q ?d)) = ?n" by (simp only: length_butlast ld)
  have c: "content (pq_items pq' b) = content (pq_items pq b)" for b
    using d(1) by (simp add: a(2) rearranged_def)
  have nb: "butlast (pq_q ?d) ! k = pq_q ?d ! k" if "k < ?n" for k using that lb by (simp add: nth_butlast)
  have "prio_at pq' k = prio_at ?d k" if "k < ?n" for k
    using nb[OF that] by (auto simp: prio_at_def a(2) intro!: content_prio)
  then have "heap_ordered ?n pq'" using d(2) by (simp add: heap_ordered_def)
  moreover have ln: "Len pq' = ?n" using lb by (simp add: a(2) Len_def del: length_butlast)
  moreover have "placed pq'"
    unfolding placed_def
  proof (intro conjI allI impI)
    show "distinct (pq_q pq')" using pl by (simp add: a(2) placed_def distinct_butlast)
    fix k assume k: "k < Len pq'"
    then have k: "k < ?n" using ln by simp
    have "butlast (pq_q ?d) ! k \<noteq> a" using nin lb k by (metis nth_mem)
    then show "pi_index (pq_items pq' (pq_q pq' ! k)) = int k"
      using pl k nb[OF k] ld by (simp add: a(2) set_index_def placed_def Len_def)
  qed
  ultimately show "pq_ok pq'" by (simp add: pq_ok_def)
  have "set (pq_q pq) = insert a (set (butlast (pq_q ?d)))"
  proof -
    have "set (pq_q pq) = set (pq_q ?d)"
      using rs d(1) unfolding rearranged_def by (metis set_mset_mset)
    then show ?thesis using q by (metis Un_insert_right append_Nil2 list.simps(15) set_append set_empty sup_bot.right_neutral empty_set)
  qed
  then show "bag_of pq' = (bag_of pq)(a := None)"
    using nin c by (auto simp: bag_of_def fun_eq_iff) (simp_all add: a(2))
  show "\<forall>b \<in> set (pq_q pq). pi_priority (pq_items pq b) \<le> pi_priority (pq_items pq a)"
  proof
    fix b assume "b \<in> set (pq_q pq)"
    then obtain k where "k < Len pq" "b = pq_q pq ! k" unfolding Len_def by (metis in_set_conv_nth)
    then show "pi_priority (pq_items pq b) \<le> pi_priority (pq_items pq a)"
      using heap_top[of "Len pq" pq k] ok by (simp add: pq_ok_def prio_at_def a(1))
  qed
qed

lemma no_larger_child:
  assumes "n \<le> 2 * i + 1 \<or> \<not> Less pq (larger_child i n pq) i" "k < n" "0 < k" "(k - 1) div 2 = i"
  shows "prio_at pq k \<le> prio_at pq i"
proof -
  have "k = 2 * i + 1 \<or> k = 2 * i + 2" using assms(4) children[OF assms(3)] by blast
  then have n: "2 * i + 1 < n" using assms(2) by auto
  show ?thesis using larger_child(3)[where pq = pq, OF n assms(2-4)] assms(1) n by (auto simp: Less_def)
qed

lemma heap_Fix_spec:
  assumes "ordered_around i (Len pq) pq" "i < Len pq"
  shows "rearranged pq (heap_Fix i pq) \<and> heap_ordered (Len pq) (heap_Fix i pq)"
proof (cases "Len pq \<le> 2 * i + 1 \<or> \<not> Less pq (larger_child i (Len pq) pq) i")
  case True
  have "ordered_but_up i (Len pq) pq"
  proof (rule ordered_but_upI)
    fix k assume k: "k < Len pq" "0 < k" "k \<noteq> i"
    show "prio_at pq k \<le> prio_at pq ((k - 1) div 2)"
      using no_larger_child[OF True k(1,2)] assms(1) k by (cases "(k - 1) div 2 = i") (simp_all add: ordered_around_def)
  qed (use assms(1) in \<open>simp add: ordered_around_def\<close>)
  then show ?thesis using heap_up_spec assms(2) True by (simp add: heap_Fix_def heap_down_unfold[of i])
next
  case False
  let ?n = "Len pq" and ?j = "larger_child i (Len pq) pq"
  let ?s = "Swap i ?j pq"
  have n: "2 * i + 1 < ?n" and l: "prio_at pq i < prio_at pq ?j" using False by (auto simp: Less_def)
  note c = larger_child[OF n, where pq = pq]
  have ij: "i < ?j" using c(1) by auto
  have o: "ordered_but_down ?j ?n ?s" using heap_down_step[OF assms(1) order_refl c(2) c(1) l c(3)] .
  have "heap_down i ?n pq = heap_down ?j ?n ?s" using False by (simp add: heap_down_unfold[of i])
  moreover have "?j \<le> fst (heap_down ?j ?n ?s)" and h: "rearranged ?s (snd (heap_down ?j ?n ?s))"
      "heap_ordered ?n (snd (heap_down ?j ?n ?s))"
    using heap_down_spec[OF o] rearranged_Swap[OF assms(2) c(2)] by simp_all
  ultimately have "heap_Fix i pq = snd (heap_down ?j ?n ?s)" using ij by (simp add: heap_Fix_def case_prod_beta)
  then show ?thesis using h rearranged_trans[OF Swap_rearranged[OF assms(2) c(2)]] by simp
qed

lemma update_spec:
  assumes ok: "pq_ok pq" and a: "a \<in> set (pq_q pq)"
  shows "pq_ok (update a v p pq)" "bag_of (update a v p pq) = (bag_of pq)(a \<mapsto> (pi_name (pq_items pq a), v, p))"
proof -
  obtain i where i: "i < Len pq" "a = pq_q pq ! i" using a unfolding Len_def by (metis in_set_conv_nth)
  let ?u = "pq\<lparr>pq_items := (pq_items pq)(a := (pq_items pq a)\<lparr>pi_value := v, pi_priority := p\<rparr>)\<rparr>"
  have ix: "pi_index (pq_items pq a) = int i" and d: "distinct (pq_q pq)"
    using ok i by (simp_all add: pq_ok_def placed_def)
  have l: "Len ?u = Len pq" by (simp add: Len_def)
  have other: "prio_at ?u k = prio_at pq k" if "k < Len pq" "k \<noteq> i" for k
    using that i d by (auto simp: prio_at_def Len_def nth_eq_iff_index_eq)
  have h: "prio_at pq k \<le> prio_at pq ((k - 1) div 2)" if "k < Len pq" "0 < k" for k
    using ok that by (simp add: pq_ok_def heap_ordered_def)
  have "ordered_around i (Len ?u) ?u"
    unfolding ordered_around_def l
  proof (intro conjI allI impI)
    fix k assume k: "k < Len pq" "0 < k" "k \<noteq> i" "(k - 1) div 2 \<noteq> i"
    have "(k - 1) div 2 < Len pq" using k by simp
    then show "prio_at ?u k \<le> prio_at ?u ((k - 1) div 2)" using h k other by presburger
  next
    fix k assume k: "k < Len pq" "0 < k" "0 < i" "(k - 1) div 2 = i"
    have p: "(i - 1) div 2 < Len pq" "(i - 1) div 2 \<noteq> i" "k \<noteq> i" using k i by auto
    have "prio_at pq k \<le> prio_at pq ((i - 1) div 2)" using h[OF k(1,2)] h[OF i(1) k(3)] k(4) by simp
    then show "prio_at ?u k \<le> prio_at ?u ((i - 1) div 2)" using other k p by presburger
  qed
  then have r: "rearranged ?u (heap_Fix i ?u)" "heap_ordered (Len ?u) (heap_Fix i ?u)"
    using heap_Fix_spec[of i ?u] i(1) l by simp_all
  have u: "update a v p pq = heap_Fix i ?u" using ix by (simp add: update_def Let_def)
  have "placed ?u" using ok by (auto simp: placed_def pq_ok_def Len_def)
  then show "pq_ok (update a v p pq)" unfolding u using rearranged_ok r by blast
  show "bag_of (update a v p pq) = (bag_of pq)(a \<mapsto> (pi_name (pq_items pq a), v, p))"
    unfolding u rearranged_bag[OF r(1)] using a by (auto simp: bag_of_def content_def fun_eq_iff)
qed

section \<open>The queue refines a bag\<close>

datatype 'v pq_op = QPush nat "'v ProviderItem" | QPop | QUpdate nat 'v int | QGet string

text \<open>An operation gives the item it returns; \<open>Pop\<close> of an empty queue panics.\<close>

fun pq_step :: "'v pq_op \<Rightarrow> 'v PriorityQueue \<Rightarrow> (nat option \<times> 'v PriorityQueue) option" where
  "pq_step (QPush a x) pq = Some (None, heap_Push a (pq\<lparr>pq_items := (pq_items pq)(a := x)\<rparr>))"
| "pq_step QPop pq = (if pq_q pq = [] then None else let (a, pq') = heap_Pop pq in Some (Some a, pq'))"
| "pq_step (QUpdate a v p) pq = Some (None, update a v p pq)"
| "pq_step (QGet name) pq = Some (Get name pq, pq)"

text \<open>The bag: contents by address. A caller pushes an item that is not in the queue, and updates one that is.\<close>

type_synonym 'v bag = "nat \<Rightarrow> (string \<times> 'v \<times> int) option"

inductive bag_step :: "'v bag \<Rightarrow> 'v pq_op \<Rightarrow> nat option \<Rightarrow> 'v bag \<Rightarrow> bool" where
  push: "a \<notin> dom m \<Longrightarrow> bag_step m (QPush a x) None (m(a \<mapsto> content x))"
| pop: "m a = Some (n, v, p) \<Longrightarrow> \<forall>b n' v' p'. m b = Some (n', v', p') \<longrightarrow> p' \<le> p
    \<Longrightarrow> bag_step m QPop (Some a) (m(a := None))"
| update: "m a = Some (n, v0, p0) \<Longrightarrow> bag_step m (QUpdate a v p) None (m(a \<mapsto> (n, v, p)))"
| get_some: "m a = Some (name, v, p) \<Longrightarrow> bag_step m (QGet name) (Some a) m"
| get_none: "\<forall>a v p. m a \<noteq> Some (name, v, p) \<Longrightarrow> bag_step m (QGet name) None m"

definition legal :: "'v bag \<Rightarrow> 'v pq_op \<Rightarrow> bool" where
  "legal m op = (case op of QPush a x \<Rightarrow> a \<notin> dom m | QPop \<Rightarrow> dom m \<noteq> {} | QUpdate a v p \<Rightarrow> a \<in> dom m | QGet n \<Rightarrow> True)"

lemma dom_bag_of [simp]: "dom (bag_of pq) = set (pq_q pq)"
  by (auto simp: bag_of_def split: if_splits)

lemma Get_bag:
  "Get name pq = Some a \<Longrightarrow> \<exists>v p. bag_of pq a = Some (name, v, p)"
  "Get name pq = None \<Longrightarrow> bag_of pq a \<noteq> Some (name, v, p)"
  by (auto simp: Get_def find_Some_iff find_None_iff bag_of_def content_def)

lemma pq_step_simulates:
  assumes ok: "pq_ok pq" and lg: "legal (bag_of pq) op"
  shows "\<exists>r pq'. pq_step op pq = Some (r, pq') \<and> pq_ok pq' \<and> bag_step (bag_of pq) op r (bag_of pq')"
proof (cases op)
  case (QPush a x)
  let ?p = "pq\<lparr>pq_items := (pq_items pq)(a := x)\<rparr>"
  have a: "a \<notin> set (pq_q pq)" using lg QPush by (simp add: legal_def)
  have pr: "k < Len pq \<Longrightarrow> pq_items ?p (pq_q pq ! k) = pq_items pq (pq_q pq ! k)" for k
    using a by (auto simp: Len_def)
  have l: "Len ?p = Len pq" by (simp add: Len_def)
  have "prio_at ?p k = prio_at pq k" if "k < Len pq" for k using pr[OF that] by (simp add: prio_at_def)
  then have "heap_ordered (Len pq) ?p" using ok by (simp add: pq_ok_def heap_ordered_def)
  moreover have "placed ?p" using ok pr by (simp add: pq_ok_def placed_def l)
  ultimately have "pq_ok ?p" by (simp add: pq_ok_def l)
  moreover have "bag_of ?p = bag_of pq" using a by (auto simp: bag_of_def fun_eq_iff)
  ultimately show ?thesis
    using heap_Push_spec[of ?p a] a bag_step.push[of a "bag_of pq" x] by (simp add: QPush)
next
  case QPop
  obtain a pq' where p: "heap_Pop pq = (a, pq')" by fastforce
  have ne: "pq_q pq \<noteq> []" using lg QPop by (simp add: legal_def)
  note s = heap_Pop_spec[OF ok ne p]
  obtain n v q where c: "bag_of pq a = Some (n, v, q)" "q = pi_priority (pq_items pq a)"
    using s(1) by (simp add: bag_of_def content_def)
  have "\<forall>b n' v' p'. bag_of pq b = Some (n', v', p') \<longrightarrow> p' \<le> q"
    using s(4) c(2) by (auto simp: bag_of_def content_def split: if_splits)
  then show ?thesis using bag_step.pop[of "bag_of pq" a n v q] c(1) s(2,3) p ne QPop by simp
next
  case (QUpdate a v p)
  then have a: "a \<in> set (pq_q pq)" using lg by (simp add: legal_def)
  then have "bag_of pq a = Some (pi_name (pq_items pq a), pi_value (pq_items pq a), pi_priority (pq_items pq a))"
    by (simp add: bag_of_def content_def)
  note u = bag_step.update[where m = "bag_of pq" and a = a, OF this, of v p]
  show ?thesis using update_spec[OF ok a] u QUpdate by simp
next
  case (QGet name)
  have "bag_step (bag_of pq) (QGet name) (Get name pq) (bag_of pq)"
  proof (cases "Get name pq")
    case None
    then show ?thesis using Get_bag(2)[OF None] bag_step.get_none[of "bag_of pq" name] by simp
  next
    case (Some a)
    obtain v p where "bag_of pq a = Some (name, v, p)" using Get_bag(1)[OF Some] by blast
    from bag_step.get_some[where m = "bag_of pq", of a, OF this] show ?thesis unfolding Some .
  qed
  then show ?thesis using ok QGet by simp
qed

text \<open>A sequence of operations, with the items they return.\<close>

fun pq_run :: "'v pq_op list \<Rightarrow> 'v PriorityQueue \<Rightarrow> (nat option list \<times> 'v PriorityQueue) option" where
  "pq_run [] pq = Some ([], pq)"
| "pq_run (op # ops) pq = (case pq_step op pq of None \<Rightarrow> None
     | Some (r, pq') \<Rightarrow> (case pq_run ops pq' of None \<Rightarrow> None | Some (rs, pq'') \<Rightarrow> Some (r # rs, pq'')))"

inductive bag_run :: "'v bag \<Rightarrow> 'v pq_op list \<Rightarrow> nat option list \<Rightarrow> 'v bag \<Rightarrow> bool" where
  bag_stop: "bag_run m [] [] m"
| bag_go: "bag_step m op r m' \<Longrightarrow> bag_run m' ops rs m'' \<Longrightarrow> bag_run m (op # ops) (r # rs) m''"


text \<open>The operations are legal along the run of the queue.\<close>

fun legal_run :: "'v pq_op list \<Rightarrow> 'v PriorityQueue \<Rightarrow> bool" where
  "legal_run [] pq \<longleftrightarrow> True"
| "legal_run (op # ops) pq \<longleftrightarrow> legal (bag_of pq) op
     \<and> (case pq_step op pq of None \<Rightarrow> True | Some (r, pq') \<Rightarrow> legal_run ops pq')"

definition empty_queue :: "(nat \<Rightarrow> 'v ProviderItem) \<Rightarrow> 'v PriorityQueue" where
  "empty_queue items = \<lparr>pq_items = items, pq_q = []\<rparr>"

lemma empty_queue_ok: "pq_ok (empty_queue items)" "bag_of (empty_queue items) = Map.empty"
  by (auto simp: empty_queue_def pq_ok_def placed_def heap_ordered_def Len_def bag_of_def)

lemma pq_run_simulates:
  "pq_ok pq \<Longrightarrow> legal_run ops pq
     \<Longrightarrow> \<exists>rs pq'. pq_run ops pq = Some (rs, pq') \<and> pq_ok pq' \<and> bag_run (bag_of pq) ops rs (bag_of pq')"
proof (induction ops arbitrary: pq)
  case Nil
  then show ?case by (simp add: bag_stop)
next
  case (Cons op ops)
  obtain r pq1 where s: "pq_step op pq = Some (r, pq1)" "pq_ok pq1" "bag_step (bag_of pq) op r (bag_of pq1)"
    using pq_step_simulates[OF Cons.prems(1), of op] Cons.prems(2) by fastforce
  then obtain rs pq' where "pq_run ops pq1 = Some (rs, pq')" "pq_ok pq'" "bag_run (bag_of pq1) ops rs (bag_of pq')"
    using Cons.IH[OF s(2)] Cons.prems(2) by auto
  then show ?case using s bag_go[OF s(3)] by auto
qed

section \<open>Properties\<close>

text \<open>C11: The priority queue refines a bag with removal of a maximum. Any sequence of pushes of new items, pops of a
  non-empty queue, updates of queued items and lookups by name, started on the empty queue, runs without a panic, and
  is a run of the bag with the same results: each pop returns an item whose priority no other item exceeds, an update
  changes the value and the priority of its item only, and a lookup finds an item of the name when there is one. At the
  end every item knows its place in the slice, which the next update relies on.
\<close>

theorem queue_refines_bag:
  assumes "legal_run ops (empty_queue items)"
  shows "\<exists>rs pq. pq_run ops (empty_queue items) = Some (rs, pq) \<and> placed pq \<and> bag_run Map.empty ops rs (bag_of pq)"
  using pq_run_simulates[OF empty_queue_ok(1) assms] by (auto simp: empty_queue_ok pq_ok_def)

definition it :: "string \<Rightarrow> int \<Rightarrow> string ProviderItem" where
  "it n p = \<lparr>pi_name = n, pi_value = n, pi_priority = p, pi_index = 0\<rparr>"

definition demo_ops :: "string pq_op list" where
  "demo_ops = [QPush 0 (it ''slow'' 1), QPush 1 (it ''kopia'' 5), QPush 2 (it ''zip'' 3), QGet ''zip'',
     QUpdate 0 ''fast'' 9, QPop, QPop]"

lemma demo_legal: "legal_run demo_ops (empty_queue (\<lambda>_. it '''' 0))"
  by (simp add: demo_ops_def legal_def empty_queue_def heap_Push_def Push_def set_index_def Len_def heap_up.simps Less_def
      prio_at_def Swap_def it_def Let_def update_def heap_Fix_def heap_down.simps heap_Pop_def Pop_def Get_def)

lemma queue_refines_bag_witness:
  "\<exists>rs pq. pq_run demo_ops (empty_queue (\<lambda>_. it '''' 0)) = Some (rs, pq) \<and> placed pq
     \<and> bag_run Map.empty demo_ops rs (bag_of pq)"
  by (rule queue_refines_bag[OF demo_legal])

end
