(* ===== verification/Listing.thy ===== *)
theory Listing
  imports FileSys "HOL-Library.Signed_Division"
begin

text \<open>
  The listing of directories: the page of a sorted list, the sort orders of \<open>pkg/fsutils\<close> and \<open>listFile\<close> of
  \<open>web/routers/file.go\<close> over the model of package \<open>os\<close>. \<open>sort.Sort\<close> is a parameter, with the contract of its
  documentation; the detection of a MIME type (a third-party package) is one too. Modification times are in
  nanoseconds.
\<close>

section \<open>Integers\<close>

text \<open>Go's \<open>int\<close> and \<open>int64\<close>: results wrap around at 64 bits.\<close>

definition wrap :: "int \<Rightarrow> int" where
  "wrap i = sint (word_of_int i :: 64 word)"

lemma wrap_id: "- (2 ^ 63) \<le> i \<Longrightarrow> i < 2 ^ 63 \<Longrightarrow> wrap i = i"
  by (simp add: wrap_def sint_sbintrunc' signed_take_bit_int_eq_self)

lemma wrap_nat: "int m < 2 ^ 63 \<Longrightarrow> wrap (int m) = int m"
  by (rule wrap_id) (rule order_trans[of _ 0], simp_all)

section \<open>Sort orders and pages\<close>

datatype FileType = DIR | FILE

record fileObject =
  fo_Type :: FileType
  fo_Size :: int
  fo_Name :: string
  fo_Path :: string
  fo_Parent :: string
  fo_Mime :: string
  fo_LastModifiedTime :: int
  fo_StorageID :: int

text \<open>The kinds of value that a sort distinguishes.\<close>

datatype field_value = KInt64 int | KString string | KOther

fun FileType_string :: "FileType \<Rightarrow> string" where
  "FileType_string DIR = ''DIR''"
| "FileType_string FILE = ''FILE''"

text \<open>The JSON tags of \<open>fileObject\<close> with the values of the fields; \<open>StorageID\<close> is of kind \<open>Int\<close>.\<close>

definition tagged :: "fileObject \<Rightarrow> (string \<times> field_value) list" where
  "tagged o1 = [(''type'', KString (FileType_string (fo_Type o1))), (''size'', KInt64 (fo_Size o1)), (''name'', KString (fo_Name o1)),
     (''path'', KString (fo_Path o1)), (''parent_path'', KString (fo_Parent o1)), (''mime'', KString (fo_Mime o1)),
     (''last_modified_time'', KInt64 (fo_LastModifiedTime o1)), (''storage_id'', KOther)]"

definition field :: "string \<Rightarrow> fileObject \<Rightarrow> field_value" where
  "field tag o1 = (case map_of (tagged o1) tag of Some v \<Rightarrow> v | None \<Rightarrow> KOther)"

fun value_less :: "field_value \<Rightarrow> field_value \<Rightarrow> bool" where
  "value_less (KInt64 a) (KInt64 b) = (a < b)"
| "value_less (KString a) (KString b) = (a < b)"
| "value_less a b = False"

definition TagSortFunc :: "string \<Rightarrow> bool \<Rightarrow> fileObject \<Rightarrow> fileObject \<Rightarrow> bool" where
  "TagSortFunc tag asc p1 p2 = (let ret = value_less (field tag p1) (field tag p2) in if asc then ret else \<not> ret)"

definition ValidateSort :: "fileObject \<Rightarrow> string \<Rightarrow> bool" where
  "ValidateSort o1 srt = list_ex (\<lambda>f. fst f = srt) (tagged o1)"

record Pagable =
  pg_Page :: int
  pg_Size :: int

text \<open>A slice out of range is a panic, \<open>None\<close>.\<close>

definition List_page :: "Pagable \<Rightarrow> 'a list \<Rightarrow> 'a list option" where
  "List_page pg a =
     (if pg_Size pg = -1 then Some a
      else let off = wrap (pg_Size pg * pg_Page pg);
               end0 = wrap (pg_Size pg * (pg_Page pg + 1)) in
        if off > int (length a) then Some []
        else let end1 = (if end0 > int (length a) then int (length a) else end0) in
          if off < 0 \<or> end1 < off then None else Some (take (nat (end1 - off)) (drop (nat off) a)))"

section \<open>Package sort\<close>

type_synonym sorter = "(fileObject \<Rightarrow> fileObject \<Rightarrow> bool) \<Rightarrow> fileObject list \<Rightarrow> fileObject list"

text \<open>
  What \<open>sort.Sort\<close> promises: a permutation; and if \<open>Less\<close> is transitive, and its negation too, the elements come in
  the order of \<open>Less\<close>, those that it does not distinguish in any order.
\<close>

definition transitive_less :: "('a \<Rightarrow> 'a \<Rightarrow> bool) \<Rightarrow> bool" where
  "transitive_less lt \<longleftrightarrow> (\<forall>a b c. lt a b \<longrightarrow> lt b c \<longrightarrow> lt a c)
     \<and> (\<forall>a b c. \<not> lt a b \<longrightarrow> \<not> lt b c \<longrightarrow> \<not> lt a c)"

definition sorts :: "sorter \<Rightarrow> bool" where
  "sorts srt \<longleftrightarrow> (\<forall>lt xs. mset (srt lt xs) = mset xs
     \<and> (transitive_less lt \<longrightarrow> sorted_wrt (\<lambda>a b. lt a b \<or> \<not> lt b a) (srt lt xs)))"

definition Sort :: "sorter \<Rightarrow> string \<Rightarrow> bool \<Rightarrow> fileObject list \<Rightarrow> fileObject list" where
  "Sort srt tag asc xs = srt (TagSortFunc tag asc) xs"

section \<open>ioutil.ReadDir\<close>

text \<open>The entries by name, each with its own \<open>lstat\<close>; an entry that has gone meanwhile is left out.\<close>

fun lstats :: "string \<Rightarrow> (string \<times> node) list \<Rightarrow> fsys \<Rightarrow> errno + (string \<times> node) list" where
  "lstats dir [] s = Inr []"
| "lstats dir ((k, c) # ch) s =
     (case os_Lstat (dir @ ''/'' @ k) s of
        Inr n \<Rightarrow> map_sum id (\<lambda>r. (k, n) # r) (lstats dir ch s)
      | Inl e \<Rightarrow> if e = ENOENT then lstats dir ch s else Inl e)"

definition ioutil_ReadDir :: "string \<Rightarrow> fsys \<Rightarrow> errno + (string \<times> node) list" where
  "ioutil_ReadDir dir s = (case os_ReadDir dir s of Inl e \<Rightarrow> Inl e | Inr ch \<Rightarrow> lstats dir ch s)"

section \<open>listFile\<close>

record listFileReq =
  lf_StorageID :: int
  lf_Path :: string
  lf_Pattern :: string
  lf_Pagable :: Pagable
  lf_Sort :: string
  lf_Asc :: bool
  lf_IgnoreNotFound :: bool
  lf_OnlyDirectory :: bool
  lf_ListAll :: bool

fun node_size :: "node \<Rightarrow> int" where
  "node_size (File m c) = int (length c)"
| "node_size n = 0"

text \<open>\<open>ModTime().UTC().UnixMilli()\<close> rounds down, \<open>UnixNano() / 1e6\<close> towards zero.\<close>

definition UnixMilli :: "int \<Rightarrow> int" where "UnixMilli t = t div 1000000"

definition nano_millis :: "int \<Rightarrow> int" where "nano_millis t = wrap t sdiv 1000000"

definition shown :: "listFileReq \<Rightarrow> string \<Rightarrow> bool" where
  "shown req name \<longleftrightarrow> \<not> (lf_Pattern req \<noteq> ''*'' \<and> \<not> containsStr name (lf_Pattern req))
     \<and> \<not> (\<not> lf_ListAll req \<and> hasPrefix name ''.'')
     \<and> \<not> (hasPrefix name ''.'' \<and> hasSuffix name ''.upload'')"

definition entry_path :: "listFileReq \<Rightarrow> string \<Rightarrow> string" where
  "entry_path req name = clean (if trimSpace (lf_Path req) = [] then name else lf_Path req @ ''/'' @ name)"

definition entry_object :: "(string \<Rightarrow> fsys \<Rightarrow> string) \<Rightarrow> cloudStorage \<Rightarrow> listFileReq \<Rightarrow> fsys \<Rightarrow> string \<times> node \<Rightarrow> fileObject" where
  "entry_object mime cs req s e =
     (let curPath = entry_path req (fst e);
          n = snd e;
          dir = is_dir n \<or> is_link n in
      \<lparr>fo_Type = (if dir then DIR else FILE),
       fo_Size = (if dir then -1 else node_size n),
       fo_Name = fst e, fo_Path = curPath, fo_Parent = clean (lf_Path req),
       fo_Mime = (if dir then ''-'' else mime (SystemRootPrefix cs @ ''/'' @ curPath) s),
       fo_LastModifiedTime = nano_millis (n_mtime (meta_of n)), fo_StorageID = lf_StorageID req\<rparr>)"

definition entry_objects :: "(string \<Rightarrow> fsys \<Rightarrow> string) \<Rightarrow> cloudStorage \<Rightarrow> listFileReq \<Rightarrow> fsys \<Rightarrow> (string \<times> node) list
    \<Rightarrow> fileObject list" where
  "entry_objects mime cs req s es = map (entry_object mime cs req s) (filter (\<lambda>e. shown req (fst e)) es)"

datatype list_err = LPath path_error | LSys errno

definition single_file :: "(string \<Rightarrow> fsys \<Rightarrow> string) \<Rightarrow> listFileReq \<Rightarrow> string \<Rightarrow> node \<Rightarrow> fsys \<Rightarrow> fileObject" where
  "single_file mime req curDir n s =
     \<lparr>fo_Type = FILE, fo_Size = node_size n, fo_Name = split_file curDir, fo_Path = lf_Path req,
      fo_Parent = clean (lf_Path req), fo_Mime = mime curDir s,
      fo_LastModifiedTime = UnixMilli (n_mtime (meta_of n)), fo_StorageID = lf_StorageID req\<rparr>"

text \<open>The whole sorted list, before a page is cut out of it.\<close>

definition sorted_objects :: "sorter \<Rightarrow> listFileReq \<Rightarrow> fileObject list \<Rightarrow> fileObject list" where
  "sorted_objects srt req objs =
     (let dirObjects = filter (\<lambda>x. fo_Type x \<noteq> FILE) objs;
          fileObjects = filter (\<lambda>x. fo_Type x = FILE) objs;
          order = Sort srt (lf_Sort req) (lf_Asc req)
      in if lf_OnlyDirectory req then order dirObjects else order dirObjects @ order fileObjects)"

definition listFile :: "sorter \<Rightarrow> (string \<Rightarrow> fsys \<Rightarrow> string) \<Rightarrow> cloudStorage \<Rightarrow> listFileReq \<Rightarrow> fsys
    \<Rightarrow> list_err + (fileObject list option \<times> nat)" where
  "listFile srt mime cs req s =
     (case sanitizePath cs (lf_Path req) (lf_StorageID req) of (curDir, perr) \<Rightarrow>
      if perr \<noteq> None \<and> perr \<noteq> Some ErrInvalidFileName then Inl (LPath (the perr))
      else case os_Stat curDir s of
        Inl e \<Rightarrow> Inl (LSys e)
      | Inr n \<Rightarrow>
          if \<not> is_dir n then Inr (Some [single_file mime req curDir n s], 1)
          else case ioutil_ReadDir curDir s of
            Inl e \<Rightarrow> Inl (LSys e)
          | Inr entries \<Rightarrow>
              let objs = sorted_objects srt req (entry_objects mime cs req s entries)
              in Inr (List_page (lf_Pagable req) objs, length objs))"

text \<open>The handler. \<open>LPanic\<close> is the panic of the page, which the server turns into an error of its own.\<close>

datatype list_reply = LPanic | LFailed list_err | LNoSuchSort
  | LOk (l_content: "fileObject list") (l_number: int) (l_size: int) (l_total: int) (l_pages: int)

definition list_defaults :: "listFileReq \<Rightarrow> listFileReq" where
  "list_defaults req0 =
     (let req1 = (if pg_Size (lf_Pagable req0) = 0 then req0\<lparr>lf_Pagable := (lf_Pagable req0)\<lparr>pg_Size := 10\<rparr>\<rparr> else req0);
          req2 = (if trimSpace (lf_Pattern req1) = [] then req1\<lparr>lf_Pattern := ''*''\<rparr> else req1)
      in if lf_Sort req2 = [] then req2\<lparr>lf_Sort := ''name'', lf_Asc := True\<rparr> else req2)"

definition zero_object :: fileObject where
  "zero_object = \<lparr>fo_Type = FILE, fo_Size = 0, fo_Name = [], fo_Path = [], fo_Parent = [], fo_Mime = [],
     fo_LastModifiedTime = 0, fo_StorageID = 0\<rparr>"

definition list_handler :: "sorter \<Rightarrow> (string \<Rightarrow> fsys \<Rightarrow> string) \<Rightarrow> cloudStorage \<Rightarrow> listFileReq \<Rightarrow> fsys \<Rightarrow> list_reply" where
  "list_handler srt mime cs req0 s =
     (let req = list_defaults req0; page = pg_Page (lf_Pagable req); size = pg_Size (lf_Pagable req) in
      if \<not> ValidateSort zero_object (lf_Sort req) then LNoSuchSort
      else case listFile srt mime cs req s of
        Inl e \<Rightarrow> if e = LSys ENOENT \<and> lf_IgnoreNotFound req then LOk [] page size 0 0 else LFailed e
      | Inr (None, n) \<Rightarrow> LPanic
      | Inr (Some objs, n) \<Rightarrow> LOk objs page size (int n) (wrap (int n + size - 1) sdiv size))"

section \<open>Orders\<close>

lemma field_kinds:
  obtains (number) g where "\<And>x. field tag x = KInt64 (g x)"
  | (str) g where "\<And>x. field tag x = KString (g x)"
  | (other) "\<And>x. field tag x = KOther"
proof -
  show thesis
  proof (cases "tag \<in> {''type'', ''size'', ''name'', ''path'', ''parent_path'', ''mime'', ''last_modified_time''}")
    case True
    then show thesis
    proof (elim insertE emptyE)
      assume "tag = ''type''"
      then show thesis by (intro str[of "\<lambda>x. FileType_string (fo_Type x)"]) (simp add: field_def tagged_def)
    next
      assume "tag = ''size''"
      then show thesis by (intro number[of "fo_Size"]) (simp add: field_def tagged_def)
    next
      assume "tag = ''name''"
      then show thesis by (intro str[of "fo_Name"]) (simp add: field_def tagged_def)
    next
      assume "tag = ''path''"
      then show thesis by (intro str[of "fo_Path"]) (simp add: field_def tagged_def)
    next
      assume "tag = ''parent_path''"
      then show thesis by (intro str[of "fo_Parent"]) (simp add: field_def tagged_def)
    next
      assume "tag = ''mime''"
      then show thesis by (intro str[of "fo_Mime"]) (simp add: field_def tagged_def)
    next
      assume "tag = ''last_modified_time''"
      then show thesis by (intro number[of "fo_LastModifiedTime"]) (simp add: field_def tagged_def)
    qed
  next
    case False
    then show thesis by (intro other) (simp add: field_def tagged_def)
  qed
qed

text \<open>The order that a request asks for: ascending or descending in its field.\<close>

definition in_order :: "string \<Rightarrow> bool \<Rightarrow> fileObject list \<Rightarrow> bool" where
  "in_order tag asc = sorted_wrt (\<lambda>a b. if asc then \<not> value_less (field tag b) (field tag a)
     else \<not> value_less (field tag a) (field tag b))"

lemma TagSortFunc_transitive: "transitive_less (TagSortFunc tag asc)"
  by (cases tag rule: field_kinds; cases asc) (auto simp: transitive_less_def TagSortFunc_def)

lemma value_less_asym: "value_less (field tag a) (field tag b) \<Longrightarrow> \<not> value_less (field tag b) (field tag a)"
  by (cases tag rule: field_kinds) auto

lemma Sort_spec:
  assumes "sorts srt"
  shows "mset (Sort srt tag asc xs) = mset xs" "in_order tag asc (Sort srt tag asc xs)"
proof -
  show "mset (Sort srt tag asc xs) = mset xs" using assms by (simp add: sorts_def Sort_def)
  have "sorted_wrt (\<lambda>a b. TagSortFunc tag asc a b \<or> \<not> TagSortFunc tag asc b a) (Sort srt tag asc xs)"
    using assms TagSortFunc_transitive unfolding sorts_def Sort_def by blast
  then show "in_order tag asc (Sort srt tag asc xs)"
    unfolding in_order_def by (rule sorted_wrt_mono_rel[rotated]) (auto simp: TagSortFunc_def dest: value_less_asym)
qed

section \<open>Pages\<close>

lemma concat_pages:
  fixes xs :: "'a list"
  assumes "0 < n"
  shows "concat (map (\<lambda>k. take n (drop (k * n) xs)) [0..<m]) = take (m * n) xs"
proof (induction m)
  case 0
  then show ?case by simp
next
  case (Suc m)
  have "Suc m * n = m * n + n" by simp
  then have "take (Suc m * n) xs = take (m * n) xs @ take n (drop (m * n) xs)" by (simp only: take_add)
  then show ?case using Suc by simp
qed

lemma page_length:
  fixes a l n :: nat
  assumes "a \<le> l"
  shows "nat ((if int (n + a) > int l then int l else int (n + a)) - int a) = min n (l - a)"
  using assms by auto

lemma List_page_eq:
  assumes "0 < n" "int (n * Suc k) < 2 ^ 63"
  shows "List_page \<lparr>pg_Page = int k, pg_Size = int n\<rparr> xs = Some (take n (drop (k * n) xs))"
proof -
  have "k * n \<le> n * Suc k" by simp
  then have "int (k * n) < 2 ^ 63" using assms(2) by linarith
  then have w: "wrap (int n * int k) = int (k * n)" "wrap (int n * (int k + 1)) = int (n * Suc k)"
    using wrap_nat[of "k * n"] wrap_nat[OF assms(2)] by (simp_all add: algebra_simps)
  let ?o = "int (k * n)" and ?e = "if int (n * Suc k) > int (length xs) then int (length xs) else int (n * Suc k)"
  have u: "List_page \<lparr>pg_Page = int k, pg_Size = int n\<rparr> xs = (if ?o > int (length xs) then Some []
      else if ?o < 0 \<or> ?e < ?o then None else Some (take (nat (?e - ?o)) (drop (nat ?o) xs)))"
    by (simp add: List_page_def Let_def w del: of_nat_mult mult_Suc_right of_nat_Suc)
  show ?thesis
  proof (cases "k * n > length xs")
    case True
    then have "?o > int (length xs)" by (simp only: of_nat_less_iff)
    then show ?thesis unfolding u using True by simp
  next
    case False
    have f: "\<not> ?o > int (length xs)" "\<not> (?o < 0 \<or> ?e < ?o)"
      using False \<open>k * n \<le> n * Suc k\<close> by (auto simp del: of_nat_mult mult_Suc_right of_nat_Suc)
    have "n * Suc k = n + k * n" by simp
    then have t: "nat (?e - ?o) = min n (length xs - k * n)"
      using page_length[of "k * n" "length xs" n] False by (simp only: not_less)
    show ?thesis unfolding u if_not_P[OF f(1)] if_not_P[OF f(2)] t nat_int by (simp add: min_def)
  qed
qed

section \<open>Properties of the listing\<close>

definition paged :: "listFileReq \<Rightarrow> int \<Rightarrow> int \<Rightarrow> listFileReq" where
  "paged req k n = req\<lparr>lf_Pagable := \<lparr>pg_Page = k, pg_Size = n\<rparr>\<rparr>"

lemma paged_simps [simp]:
  "lf_StorageID (paged req k n) = lf_StorageID req" "lf_Path (paged req k n) = lf_Path req"
  "lf_Pattern (paged req k n) = lf_Pattern req" "lf_Sort (paged req k n) = lf_Sort req"
  "lf_Asc (paged req k n) = lf_Asc req" "lf_IgnoreNotFound (paged req k n) = lf_IgnoreNotFound req"
  "lf_OnlyDirectory (paged req k n) = lf_OnlyDirectory req" "lf_ListAll (paged req k n) = lf_ListAll req"
  "lf_Pagable (paged req k n) = \<lparr>pg_Page = k, pg_Size = n\<rparr>"
  by (simp_all add: paged_def)

lemma list_defaults_paged: "n \<noteq> 0 \<Longrightarrow> list_defaults (paged req k n) = paged (list_defaults (paged req 0 1)) k n"
  by (simp add: list_defaults_def paged_def Let_def)

text \<open>What a request lists, before the page is cut: nothing in it depends on the page.\<close>

definition listed :: "sorter \<Rightarrow> (string \<Rightarrow> fsys \<Rightarrow> string) \<Rightarrow> cloudStorage \<Rightarrow> listFileReq \<Rightarrow> fsys
    \<Rightarrow> list_err + bool \<times> fileObject list" where
  "listed srt mime cs req s =
     (case sanitizePath cs (lf_Path req) (lf_StorageID req) of (curDir, perr) \<Rightarrow>
      if perr \<noteq> None \<and> perr \<noteq> Some ErrInvalidFileName then Inl (LPath (the perr))
      else case os_Stat curDir s of
        Inl e \<Rightarrow> Inl (LSys e)
      | Inr n \<Rightarrow>
          if \<not> is_dir n then Inr (False, [single_file mime req curDir n s])
          else case ioutil_ReadDir curDir s of
            Inl e \<Rightarrow> Inl (LSys e)
          | Inr entries \<Rightarrow> Inr (True, sorted_objects srt req (entry_objects mime cs req s entries)))"

lemma listFile_listed:
  "listFile srt mime cs req s = (case listed srt mime cs req s of Inl e \<Rightarrow> Inl e
     | Inr (d, objs) \<Rightarrow> Inr (if d then List_page (lf_Pagable req) objs else Some objs, length objs))"
  by (simp add: listFile_def listed_def Let_def split: prod.splits sum.splits)

lemma entry_object_paged: "entry_object mime cs (paged req k n) s = entry_object mime cs req s"
  by (simp add: entry_object_def entry_path_def fun_eq_iff)

lemma listed_paged: "listed srt mime cs (paged req k n) s = listed srt mime cs req s"
proof -
  have 1: "single_file mime (paged req k n) = single_file mime req" "sorted_objects srt (paged req k n) = sorted_objects srt req"
    by (simp_all add: single_file_def sorted_objects_def fun_eq_iff Let_def)
  have 2: "entry_objects mime cs (paged req k n) s = entry_objects mime cs req s"
    by (simp add: entry_objects_def entry_object_paged shown_def fun_eq_iff)
  show ?thesis unfolding listed_def 1 2 paged_simps ..
qed

text \<open>The number of pages; Go's division agrees with it for the sizes that occur.\<close>

lemma ceil_pages:
  assumes "0 < n" "int t + int n < 2 ^ 63"
  shows "wrap (int t + int n - 1) sdiv int n = int ((t + n - 1) div n)"
proof -
  have "int t + int n - 1 = int (t + n - 1)" using assms(1) by linarith
  moreover from this have "wrap (int t + int n - 1) = int (t + n - 1)" using wrap_nat[of "t + n - 1"] assms by simp
  moreover have "int (t + n - 1) sdiv int n = int (t + n - 1) div int n"
    using assms(1) by (simp add: signed_divide_int_def sgn_if)
  ultimately show ?thesis by (simp only: of_nat_div)
qed

text \<open>The reply for a page of \<open>n\<close>.\<close>

definition page_of :: "nat \<Rightarrow> nat \<Rightarrow> bool \<times> fileObject list \<Rightarrow> fileObject list" where
  "page_of n k r = (if fst r then take n (drop (k * n) (snd r)) else snd r)"

lemma list_handler_page:
  assumes n: "0 < n" "int (n * Suc k) < 2 ^ 63" and v: "ValidateSort zero_object (lf_Sort (list_defaults (paged req 0 1)))"
    and l: "listed srt mime cs (list_defaults (paged req 0 1)) s = Inr r" and t: "int (length (snd r)) + int n < 2 ^ 63"
  shows "list_handler srt mime cs (paged req (int k) (int n)) s
    = LOk (page_of n k r) (int k) (int n) (int (length (snd r))) (int ((length (snd r) + n - 1) div n))"
proof -
  have d: "list_defaults (paged req (int k) (int n)) = paged (list_defaults (paged req 0 1)) (int k) (int n)"
    using n(1) by (intro list_defaults_paged) simp
  have "listFile srt mime cs (paged (list_defaults (paged req 0 1)) (int k) (int n)) s = Inr (Some (page_of n k r), length (snd r))"
    using List_page_eq[OF n, of "snd r"] l by (cases r) (simp add: listFile_listed listed_paged page_of_def)
  then show ?thesis unfolding list_handler_def d using v ceil_pages[OF n(1) t] by (simp add: Let_def)
qed

lemma listed_single: "listed srt mime cs req s = Inr (False, xs) \<Longrightarrow> length xs = 1"
  by (auto simp: listed_def split: prod.splits sum.splits if_splits)

text \<open>C19: Paging through a directory shows each of its entries exactly once. If the request without a page limit (size -1)
  succeeds, then for every positive page size the pages 0, 1, ... up to the reported number of pages all succeed, report
  the same total and the same number of pages, are full except for the last one, and put together they are the unlimited
  list: nothing is lost or repeated between pages, for every sort field and direction and every implementation of the
  sort, stable or not. (Sizes and totals must stay below 2^62, so that no product wraps around.)
\<close>

theorem pages_partition:
  assumes "list_handler srt mime cs (paged req 0 (-1)) s = LOk objs k0 m0 tot p0"
    and "0 < n" "int n < 2 ^ 62" "tot < 2 ^ 62" "pages = (nat tot + n - 1) div n"
  shows "\<exists>c. (\<forall>k < pages. list_handler srt mime cs (paged req (int k) (int n)) s = LOk (c k) (int k) (int n) tot (int pages))
     \<and> concat (map c [0..<pages]) = objs \<and> (\<forall>k. k + 1 < pages \<longrightarrow> length (c k) = n)"
proof -
  let ?q = "list_defaults (paged req 0 1)"
  have d: "list_defaults (paged req 0 (-1)) = paged ?q 0 (-1)" by (rule list_defaults_paged) simp
  have v: "ValidateSort zero_object (lf_Sort ?q)"
    using assms(1) unfolding list_handler_def d by (auto simp: Let_def split: if_splits)
  show ?thesis
  proof (cases "listed srt mime cs ?q s")
    case (Inl e)
    then have "objs = []" "tot = 0"
      using assms(1) v unfolding list_handler_def d by (auto simp: Let_def listFile_listed listed_paged split: if_splits)
    moreover from this have "pages = 0" using assms(2,5) by simp
    ultimately show ?thesis by simp
  next
    case (Inr r)
    obtain f xs where r: "r = (f, xs)" by (cases r)
    have tot: "objs = xs" "tot = int (length xs)"
      using assms(1) v unfolding list_handler_def d
      by (auto simp: Let_def listFile_listed listed_paged Inr r List_page_def split: if_splits)
    let ?l = "length xs"
    have pg: "pages = (?l + n - 1) div n" using assms(5) tot by simp
    have "pages * n + (?l + n - 1) mod n = ?l + n - 1" unfolding pg by simp
    moreover have "(?l + n - 1) mod n < n" using assms(2) by simp
    ultimately have m: "?l \<le> pages * n" "pages * n \<le> ?l + n - 1" using assms(2) by linarith+
    have below: "int (n * Suc k) < 2 ^ 63" if "k < pages" for k
    proof -
      have "n * Suc k \<le> pages * n" using that by (simp add: mult.commute[of pages] del: mult_Suc_right)
      then have "n * Suc k \<le> ?l + n" using m(2) by linarith
      then have "int (n * Suc k) \<le> int (?l + n)" by (simp only: of_nat_le_iff)
      moreover have "int (?l + n) < 2 ^ 63" using assms(3,4) tot(2) by simp
      ultimately show ?thesis by (rule le_less_trans)
    qed
    have sum: "int (length (snd r)) + int n < 2 ^ 63" using assms(3,4) tot(2) r by simp
    have h: "list_handler srt mime cs (paged req (int k) (int n)) s = LOk (page_of n k r) (int k) (int n) tot (int pages)"
      if "k < pages" for k
      using list_handler_page[OF assms(2) below[OF that] v Inr sum] r tot(2) pg by simp
    have whole: "concat (map (\<lambda>k. page_of n k r) [0..<pages]) = objs"
    proof (cases f)
      case True
      then show ?thesis using concat_pages[OF assms(2), of xs pages] m(1) r tot(1) by (simp add: page_of_def)
    next
      case False
      then have "?l = 1" using listed_single[of srt mime cs ?q s xs] Inr r by simp
      then have "pages = 1" using pg assms(2) by simp
      then show ?thesis using False r tot(1) by (simp add: page_of_def)
    qed
    have full: "length (page_of n k r) = n" if "k + 1 < pages" for k
    proof -
      have f
      proof (rule ccontr)
        assume "\<not> f"
        then have "?l = 1" using listed_single[of srt mime cs ?q s xs] Inr r by simp
        then show False using pg assms(2) that by simp
      qed
      have "(k + 2) * n \<le> pages * n" using that by (intro mult_right_mono) auto
      then have "k * n + n \<le> ?l" using m(2) assms(2) by (simp add: algebra_simps)
      then show ?thesis using \<open>f\<close> r by (simp add: page_of_def)
    qed
    show ?thesis using h whole full by (intro exI[of _ "\<lambda>k. page_of n k r"]) blast
  qed
qed

definition dir_like :: "node \<Rightarrow> bool" where
  "dir_like n \<longleftrightarrow> is_dir n \<or> is_link n"

lemma entry_object_Type: "fo_Type (entry_object mime cs req s e) = (if dir_like (snd e) then DIR else FILE)"
  by (simp add: entry_object_def dir_like_def Let_def)

lemma entry_objects_split:
  "mset (filter (\<lambda>x. fo_Type x \<noteq> FILE) (entry_objects mime cs req s es))
     = {#entry_object mime cs req s e | e \<in># mset es. shown req (fst e) \<and> dir_like (snd e)#}"
  "mset (filter (\<lambda>x. fo_Type x = FILE) (entry_objects mime cs req s es))
     = {#entry_object mime cs req s e | e \<in># mset es. shown req (fst e) \<and> \<not> dir_like (snd e)#}"
  by (induction es) (auto simp: entry_objects_def entry_object_Type)

text \<open>The filters in terms of the request.\<close>

definition selected :: "listFileReq \<Rightarrow> string \<Rightarrow> bool" where
  "selected req name \<longleftrightarrow> (lf_Pattern req = ''*'' \<or> (\<exists>u v. name = u @ lf_Pattern req @ v))
     \<and> (lf_ListAll req \<or> \<not> (\<exists>v. name = ''.'' @ v))
     \<and> \<not> ((\<exists>v. name = ''.'' @ v) \<and> (\<exists>u. name = u @ ''.upload''))"

lemma hasPrefix_iff: "hasPrefix s p \<longleftrightarrow> (\<exists>v. s = p @ v)"
  unfolding hasPrefix_def by (metis append_eq_conv_conj append_take_drop_id)

lemma hasSuffix_iff: "hasSuffix s p \<longleftrightarrow> (\<exists>u. s = u @ p)"
  unfolding hasSuffix_def hasPrefix_iff by (metis rev_append rev_rev_ident)

lemma containsStr_iff: "containsStr s p \<longleftrightarrow> (\<exists>u v. s = u @ p @ v)"
proof (induction s)
  case (Cons c s)
  have "(\<exists>u v. c # s = u @ p @ v) \<longleftrightarrow> (\<exists>v. c # s = p @ v) \<or> (\<exists>u v. s = u @ p @ v)"
    by (metis append_Cons append_Nil list.exhaust list.inject)
  then show ?case using Cons.IH by (simp add: hasPrefix_iff)
qed simp

lemma shown_selected: "shown req name \<longleftrightarrow> selected req name"
  unfolding shown_def selected_def hasPrefix_iff hasSuffix_iff containsStr_iff by blast

text \<open>C8: The listing of a directory is exact. With a valid sort field and any implementation of the sort that keeps the
  contract of package sort, the unlimited list of a directory succeeds; it shows the directories and links first and
  then the files, each group in the order of the field and the direction that was asked for; and each group consists of
  exactly the entries of the directory whose name passes the filters (the pattern, the hidden names and the temporary
  files of uploads), one object for each, with the files left out when only directories were asked for.
\<close>

theorem listing_exact:
  assumes "sorts srt" "q = list_defaults (paged req 0 (-1))" "ValidateSort zero_object (lf_Sort q)"
    and "sanitizePath cs (lf_Path req) (lf_StorageID req) = (dir, None)"
    and "os_Stat dir s = Inr (Dir m ch)" "ioutil_ReadDir dir s = Inr entries"
  shows "\<exists>ds fs pages. list_handler srt mime cs (paged req 0 (-1)) s = LOk (ds @ fs) 0 (-1) (int (length (ds @ fs))) pages
     \<and> in_order (lf_Sort q) (lf_Asc q) ds \<and> in_order (lf_Sort q) (lf_Asc q) fs
     \<and> mset ds = {#entry_object mime cs q s e | e \<in># mset entries. selected q (fst e) \<and> dir_like (snd e)#}
     \<and> mset fs = (if lf_OnlyDirectory q then {#}
         else {#entry_object mime cs q s e | e \<in># mset entries. selected q (fst e) \<and> \<not> dir_like (snd e)#})"
proof -
  have p: "lf_Path q = lf_Path req" "lf_StorageID q = lf_StorageID req" "lf_Pagable q = \<lparr>pg_Page = 0, pg_Size = -1\<rparr>"
    by (simp_all add: assms(2) list_defaults_def Let_def)
  let ?objs = "entry_objects mime cs q s entries"
  let ?ds = "Sort srt (lf_Sort q) (lf_Asc q) (filter (\<lambda>x. fo_Type x \<noteq> FILE) ?objs)"
  let ?fs = "if lf_OnlyDirectory q then [] else Sort srt (lf_Sort q) (lf_Asc q) (filter (\<lambda>x. fo_Type x = FILE) ?objs)"
  have "sorted_objects srt q ?objs = ?ds @ ?fs" by (simp add: sorted_objects_def Let_def)
  then have "listFile srt mime cs q s = Inr (Some (?ds @ ?fs), length (?ds @ ?fs))"
    by (simp add: listFile_def p assms(4-6) Let_def List_page_def)
  then have h: "\<exists>pages. list_handler srt mime cs (paged req 0 (-1)) s
      = LOk (?ds @ ?fs) 0 (-1) (int (length (?ds @ ?fs))) pages"
    unfolding list_handler_def assms(2)[symmetric] using assms(3) p(3) by (simp add: Let_def)
  have "in_order (lf_Sort q) (lf_Asc q) []" by (simp add: in_order_def)
  then show ?thesis using h Sort_spec[OF assms(1)] entry_objects_split[of mime cs q s entries, unfolded shown_selected]
    by (intro exI[of _ ?ds] exI[of _ ?fs]) auto
qed

section \<open>Page requests without a meaning\<close>

text \<open>The page size -1 asks for everything, but the number of pages is computed with it: a negative number.\<close>

lemma unlimited_list_negative_pages: "0 < t \<Longrightarrow> t < 2 ^ 62 \<Longrightarrow> wrap (t + (-1) - 1) sdiv (-1) = 2 - t"
  by (subst wrap_id) (simp_all add: signed_divide_int_def sgn_if)

text \<open>A negative page number panics.\<close>

lemma negative_page_panics: "List_page \<lparr>pg_Page = -1, pg_Size = 10\<rparr> xs = None"
proof -
  have "wrap (- 10) = - 10" by (simp add: wrap_id)
  then show ?thesis by (simp add: List_page_def Let_def)
qed

section \<open>Witnesses\<close>

text \<open>An insertion sort keeps the contract.\<close>

fun insert_before :: "('a \<Rightarrow> 'a \<Rightarrow> bool) \<Rightarrow> 'a \<Rightarrow> 'a list \<Rightarrow> 'a list" where
  "insert_before lt x [] = [x]"
| "insert_before lt x (y # ys) = (if lt x y \<or> \<not> lt y x then x # y # ys else y # insert_before lt x ys)"

definition insertion_sort :: "('a \<Rightarrow> 'a \<Rightarrow> bool) \<Rightarrow> 'a list \<Rightarrow> 'a list" where
  "insertion_sort lt xs = foldr (insert_before lt) xs []"

lemma insert_before_mset [simp]: "mset (insert_before lt x xs) = add_mset x (mset xs)"
  by (induction xs) auto

lemma insert_before_set [simp]: "set (insert_before lt x xs) = insert x (set xs)"
  by (induction xs) auto

lemma insert_before_sorted:
  assumes "transitive_less lt" "sorted_wrt (\<lambda>a b. lt a b \<or> \<not> lt b a) xs"
  shows "sorted_wrt (\<lambda>a b. lt a b \<or> \<not> lt b a) (insert_before lt x xs)"
  using assms(2)
proof (induction xs)
  case (Cons y ys)
  have le_trans: "lt a b \<or> \<not> lt b a \<Longrightarrow> lt b c \<or> \<not> lt c b \<Longrightarrow> lt a c \<or> \<not> lt c a" for a b c
    using assms(1) unfolding transitive_less_def by metis
  have le_total: "(lt a b \<or> \<not> lt b a) \<or> (lt b a \<or> \<not> lt a b)" for a b by blast
  show ?case
  proof (cases "lt x y \<or> \<not> lt y x")
    case True
    then have "\<forall>z \<in> set ys. lt x z \<or> \<not> lt z x" using Cons.prems le_trans[OF True] by simp
    then show ?thesis using True Cons.prems by simp
  next
    case False
    then show ?thesis using Cons le_total[of x y] by auto
  qed
qed simp

lemma insertion_sort_sorts: "sorts insertion_sort"
proof -
  have "mset (insertion_sort lt xs) = mset xs" for lt :: "fileObject \<Rightarrow> fileObject \<Rightarrow> bool" and xs
    by (induction xs) (simp_all add: insertion_sort_def)
  moreover have "sorted_wrt (\<lambda>a b. lt a b \<or> \<not> lt b a) (insertion_sort lt xs)"
    if "transitive_less lt" for lt :: "fileObject \<Rightarrow> fileObject \<Rightarrow> bool" and xs
    using insert_before_sorted[OF that] by (induction xs) (simp_all add: insertion_sort_def)
  ultimately show ?thesis by (simp add: sorts_def)
qed

definition demo_meta :: "int \<Rightarrow> meta" where
  "demo_meta t = \<lparr>n_mode = 493, n_mtime = t, n_uid = 0, n_gid = 0\<rparr>"

definition demo_entries :: "(string \<times> node) list" where
  "demo_entries =
     [(''.a.upload'', File (demo_meta 1) ''x''), (''.rc'', File (demo_meta 2) ''x''), (''b'', File (demo_meta 3) ''xyz''),
      (''c'', Dir (demo_meta 4) []), (''d'', File (demo_meta 5) ''xy''), (''e'', File (demo_meta 6) ''x'')]"

definition demo_tree :: node where
  "demo_tree = Dir (demo_meta 0) [(''users'', Dir (demo_meta 0) [(''alice'', Dir (demo_meta 0) demo_entries)])]"

definition demo_fs :: fsys where
  "demo_fs = \<lparr>fs_root = demo_tree, fs_now = 9, fs_umask = (\<lambda>p. p), fs_uid = 0, fs_gid = 0, fs_deny = (\<lambda>_ _. False), fs_ctx = None\<rparr>"

definition demo_cs :: cloudStorage where
  "demo_cs = \<lparr>SystemRootPrefix = ''/users/alice'', AuditRootPrefix = ''/audit/alice'',
     AuditApprovedRootPrefix = ''/ok/alice'', ExternalMntPrefix = ''/mnt'', ignoreNameCheck = False\<rparr>"

definition demo_req :: listFileReq where
  "demo_req = \<lparr>lf_StorageID = -1, lf_Path = [], lf_Pattern = [], lf_Pagable = \<lparr>pg_Page = 0, pg_Size = 2\<rparr>,
     lf_Sort = ''size'', lf_Asc = False, lf_IgnoreNotFound = False, lf_OnlyDirectory = False, lf_ListAll = True\<rparr>"

definition demo_list :: "fileObject list" where
  "demo_list = l_content (list_handler insertion_sort (\<lambda>_ _. ''text'') demo_cs (paged demo_req 0 (-1)) demo_fs)"

lemma demo_listed: "list_handler insertion_sort (\<lambda>_ _. ''text'') demo_cs (paged demo_req 0 (-1)) demo_fs
    = LOk demo_list 0 (-1) 5 (-3)"
  "map fo_Name demo_list = [''c'', ''b'', ''d'', ''.rc'', ''e'']"
  by code_simp+

theorem pages_partition_witness:
  "\<exists>c. (\<forall>k < 3. list_handler insertion_sort (\<lambda>_ _. ''text'') demo_cs (paged demo_req (int k) 2) demo_fs
        = LOk (c k) (int k) 2 5 3)
     \<and> concat (map c [0..<3]) = demo_list \<and> (\<forall>k. k + 1 < 3 \<longrightarrow> length (c k) = 2)"
  using pages_partition[OF demo_listed(1), of 2 3] by simp

lemma demo_dir: "sanitizePath demo_cs [] (-1) = (''/users/alice'', None)"
  "os_Stat ''/users/alice'' demo_fs = Inr (Dir (demo_meta 0) demo_entries)"
  "ioutil_ReadDir ''/users/alice'' demo_fs = Inr demo_entries"
  by code_simp+

theorem listing_exact_witness: "\<exists>ds fs pages.
    list_handler insertion_sort (\<lambda>_ _. ''text'') demo_cs (paged demo_req 0 (-1)) demo_fs
      = LOk (ds @ fs) 0 (-1) (int (length (ds @ fs))) pages
    \<and> in_order ''size'' False ds \<and> in_order ''size'' False fs"
proof -
  define q where "q = list_defaults (paged demo_req 0 (-1))"
  have q: "lf_Sort q = ''size''" "lf_Asc q = False" "ValidateSort zero_object (lf_Sort q)"
    unfolding q_def by code_simp+
  have r: "lf_Path demo_req = []" "lf_StorageID demo_req = -1" by (simp_all add: demo_req_def)
  from listing_exact[OF insertion_sort_sorts q_def q(3), where mime = "\<lambda>_ _. ''text''" and cs = demo_cs, unfolded r, OF demo_dir]
  show ?thesis unfolding q(1,2) by blast
qed

end
