(* ===== verification/Downloads.thy ===== *)
theory Downloads
  imports Listing IoTools
begin

text \<open>
  What a user downloads: \<open>infoFile\<close>, the tail of a file, previews and archives (\<open>web/routers/downloader.go\<close>), the
  listing for rclone (\<open>web/routers/rclone.go\<close>), \<open>TailFile\<close> of \<open>pkg/iotools/file.go\<close> and \<open>StreamZip\<close> of
  \<open>pkg/iotools/archive.go\<close>. Parameters: the size of a directory, the walk of the package \<open>afero\<close> (the paths it visits
  before its first error), the archive writer and the detection of a MIME type.
\<close>

section \<open>infoFile\<close>

definition st_size :: "(node \<Rightarrow> int) \<Rightarrow> node \<Rightarrow> int" where
  "st_size dsz n = (if is_dir n then dsz n else node_size n)"

record downloadReq =
  dr_Path :: string
  dr_Paths :: "string list"
  dr_StorageID :: int

datatype dl_err = DPath path_error | DNotFound string | DSys errno | DTail int int | DTooLarge int | DIsDir string | DSort

definition infoFile :: "(node \<Rightarrow> int) \<Rightarrow> cloudStorage \<Rightarrow> downloadReq \<Rightarrow> fsys \<Rightarrow> dl_err + fileObject" where
  "infoFile dsz cs req s =
     (case sanitizePath cs (dr_Path req) (dr_StorageID req) of
        (path, Some e) \<Rightarrow> Inl (DPath e)
      | (path, None) \<Rightarrow>
          (case os_Stat path s of
             Inl e \<Rightarrow> Inl (if e = ENOENT then DNotFound (dr_Path req) else DSys e)
           | Inr n \<Rightarrow> Inr
               \<lparr>fo_Type = (if is_dir n then DIR else FILE), fo_Size = st_size dsz n, fo_Name = split_file path, fo_Path = path,
                fo_Parent = clean (split_dir path), fo_Mime = [], fo_LastModifiedTime = UnixMilli (n_mtime (meta_of n)),
                fo_StorageID = 0\<rparr>))"

text \<open>The time that the handler puts into the header \<open>Last-Modified\<close>, in seconds.\<close>

definition info_handler :: "(node \<Rightarrow> int) \<Rightarrow> cloudStorage \<Rightarrow> downloadReq \<Rightarrow> fsys \<Rightarrow> dl_err + (int \<times> int \<times> string)" where
  "info_handler dsz cs req s = map_sum id (\<lambda>f. (fo_LastModifiedTime f, fo_Size f, fo_Name f)) (infoFile dsz cs req s)"

section \<open>The tail of a file\<close>

record PagableRead =
  pr_Offset :: int
  pr_Size :: int

definition defaultTailSize :: int where "defaultTailSize = 10 * 1048576"

datatype tail = TPanic | TErr dl_err | TOk string int

fun node_content :: "node \<Rightarrow> string" where
  "node_content (File m c) = c"
| "node_content n = []"

text \<open>\<open>os.Open\<close>, and \<open>ReadAt\<close>: the bytes that were read; a directory or a negative offset gives none.\<close>

definition os_Open :: "string \<Rightarrow> fsys \<Rightarrow> errno + node" where
  "os_Open p s = map_sum id snd (at_path True SOpen p s)"

definition ReadAt :: "node \<Rightarrow> int \<Rightarrow> int \<Rightarrow> string" where
  "ReadAt n len off = (if off < 0 then [] else take (nat len) (drop (nat off) (node_content n)))"

definition TailFile :: "(node \<Rightarrow> int) \<Rightarrow> string \<Rightarrow> PagableRead \<Rightarrow> fsys \<Rightarrow> tail" where
  "TailFile dsz fname pg s =
     (case os_Open fname s of
        Inl e \<Rightarrow> TPanic
      | Inr n \<Rightarrow>
          let fileSize = st_size dsz n;
              size0 = pr_Size pg;
              off = (if pr_Offset pg < 0 then (if size0 < fileSize then wrap (fileSize - size0) else 0) else pr_Offset pg) in
          if off > fileSize then TErr (DTail (pr_Offset pg) fileSize)
          else let size = (if wrap (off + size0) > fileSize then wrap (fileSize - off) else size0) in
            if size > defaultTailSize then TErr (DTooLarge size)
            else if size < 0 then TPanic
            else let buf = ReadAt n size off in TOk buf (wrap (off + int (length buf))))"

text \<open>The handler: the offset and the size default to -1 and 51200.\<close>

definition tail_handler :: "(node \<Rightarrow> int) \<Rightarrow> cloudStorage \<Rightarrow> downloadReq \<Rightarrow> int option \<Rightarrow> int option \<Rightarrow> fsys \<Rightarrow> tail" where
  "tail_handler dsz cs req off sz s =
     (case infoFile dsz cs req s of
        Inl e \<Rightarrow> TErr e
      | Inr f \<Rightarrow> TailFile dsz (fo_Path f)
          \<lparr>pr_Offset = (case off of None \<Rightarrow> -1 | Some v \<Rightarrow> v), pr_Size = (case sz of None \<Rightarrow> 51200 | Some v \<Rightarrow> v)\<rparr> s)"

section \<open>Previews\<close>

text \<open>The detection of the type reads some bytes, which are put back in front of the rest.\<close>

definition RecycleMimeReader :: "(string \<Rightarrow> nat \<times> string) \<Rightarrow> string \<Rightarrow> string \<times> string" where
  "RecycleMimeReader detect input = (case detect input of (k, mime) \<Rightarrow> (mime, take k input @ drop k input))"

definition previewFile :: "(node \<Rightarrow> int) \<Rightarrow> (string \<Rightarrow> nat \<times> string) \<Rightarrow> cloudStorage \<Rightarrow> downloadReq \<Rightarrow> fsys
    \<Rightarrow> dl_err + (string \<times> string)" where
  "previewFile dsz detect cs req s =
     (case infoFile dsz cs req s of
        Inl e \<Rightarrow> Inl e
      | Inr f \<Rightarrow> Inr (RecycleMimeReader detect (case os_Open (fo_Path f) s of Inl e \<Rightarrow> [] | Inr n \<Rightarrow> node_content n)))"

section \<open>Archives\<close>

definition tree :: "(string \<Rightarrow> fsys \<Rightarrow> string list) \<Rightarrow> string \<Rightarrow> fsys \<Rightarrow> string list" where
  "tree walk base s = (case os_Stat base s of
     Inl e \<Rightarrow> [] | Inr n \<Rightarrow> if is_dir n then walk base s else [base])"

text \<open>
  The writer \<open>arc\<close> gets the name in the archive, the node and whether the file could be opened, and may fail. Closing a
  file that could not be opened is a call on \<open>nil\<close>.
\<close>

datatype 'e zip_end = ZDone | ZFailed 'e | ZNoFile | ZPanic

definition skipped :: "string \<Rightarrow> node \<Rightarrow> bool" where
  "skipped path n \<longleftrightarrow> is_link n \<or> (hasPrefix (split_file path) ''.'' \<and> hasSuffix (split_file path) ''.upload'')"

fun zip_loop :: "(string \<Rightarrow> node \<Rightarrow> bool \<Rightarrow> 'e option) \<Rightarrow> string \<Rightarrow> string list \<Rightarrow> fsys \<Rightarrow> (string \<times> node) list \<times> 'e zip_end" where
  "zip_loop arc pfx [] s = ([], ZDone)"
| "zip_loop arc pfx (path # ps) s =
     (case os_Stat path s of
        Inl e \<Rightarrow> zip_loop arc pfx ps s
      | Inr n \<Rightarrow>
          if skipped path n then zip_loop arc pfx ps s
          else let fname = clean path;
                   opened = (\<exists>m. os_Open path s = Inr m);
                   internalName = trimPrefix (trimPrefix fname pfx) ''/'' in
            case arc internalName n opened of
              Some e \<Rightarrow> ([], ZFailed e)
            | None \<Rightarrow> if \<not> opened then ([(internalName, n)], ZPanic)
                else case zip_loop arc pfx ps s of (ws, r) \<Rightarrow> ((internalName, n) # ws, r))"

definition StreamZip :: "(string \<Rightarrow> fsys \<Rightarrow> string list) \<Rightarrow> (string \<Rightarrow> node \<Rightarrow> bool \<Rightarrow> 'e option) \<Rightarrow> string list \<Rightarrow> fsys
    \<Rightarrow> (string \<times> node) list \<times> 'e zip_end" where
  "StreamZip walk arc paths s =
     (let filenames = concat (map (\<lambda>p. tree walk (clean p) s) paths) in
      if filenames = [] then ([], ZNoFile)
      else let pfx = (if length paths = 1 then clean (split_dir (hd paths)) else FileCommonPrefix (CHR ''/'') filenames)
        in zip_loop arc pfx filenames s)"

section \<open>Downloads\<close>

datatype 'e dl_reply = DFailed dl_err | DNothing | DFile string string int int
  | DZip string "(string \<times> node) list" "'e zip_end"

text \<open>The handler; a file is sent with its path, name, size and time in milliseconds.\<close>

definition valid_paths :: "cloudStorage \<Rightarrow> downloadReq \<Rightarrow> fsys \<Rightarrow> string list" where
  "valid_paths cs req s = List.map_filter (\<lambda>p. case sanitizePath cs p (dr_StorageID req) of
       (path, Some e) \<Rightarrow> None
     | (path, None) \<Rightarrow> (case os_Lstat path s of Inl e \<Rightarrow> None | Inr n \<Rightarrow> Some path)) (dr_Paths req)"

definition downloadFiles :: "(node \<Rightarrow> int) \<Rightarrow> (string \<Rightarrow> fsys \<Rightarrow> string list) \<Rightarrow> (string \<Rightarrow> node \<Rightarrow> bool \<Rightarrow> 'e option)
    \<Rightarrow> cloudStorage \<Rightarrow> downloadReq \<Rightarrow> fsys \<Rightarrow> 'e dl_reply" where
  "downloadFiles dsz walk arc cs req0 s =
     (let req = (if length (dr_Paths req0) = 1 then req0\<lparr>dr_Path := hd (dr_Paths req0)\<rparr> else req0);
          singleDownload = (dr_Path req0 \<noteq> ''/'' \<or> length (dr_Paths req0) = 1) in
      if singleDownload then
        (case infoFile dsz cs req s of
           Inl e \<Rightarrow> DFailed e
         | Inr f \<Rightarrow>
             if fo_Type f = FILE then DFile (fo_Path f) (fo_Name f) (fo_Size f) (fo_LastModifiedTime f)
             else case os_Lstat (fo_Path f) s of
               Inl e \<Rightarrow> DFailed (DSys e)
             | Inr n \<Rightarrow> case_prod (DZip (split_file (fo_Path f) @ ''.zip'')) (StreamZip walk arc [fo_Path f] s))
      else let paths = valid_paths cs req s in
        if paths = [] then DNothing else case_prod (DZip ''archive.zip'') (StreamZip walk arc paths s))"

section \<open>Following a file\<close>

text \<open>
  A client that follows a file: it asks for \<open>n\<close> bytes at the position that the last reply gave it, once in each of the
  given states of the file system.
\<close>

fun follow :: "(node \<Rightarrow> int) \<Rightarrow> cloudStorage \<Rightarrow> downloadReq \<Rightarrow> int \<Rightarrow> int \<Rightarrow> fsys list \<Rightarrow> string option \<times> int" where
  "follow dsz cs req n pos [] = (Some [], pos)"
| "follow dsz cs req n pos (s # ss) =
     (case tail_handler dsz cs req (Some pos) (Some n) s of
        TOk bytes pos' \<Rightarrow> (case follow dsz cs req n pos' ss of (r, p) \<Rightarrow> (map_option (\<lambda>rest. bytes @ rest) r, p))
      | _ \<Rightarrow> (None, pos))"

text \<open>In the state \<open>s\<close>, the request names a readable file with the content \<open>c\<close>.\<close>

definition reads_as :: "cloudStorage \<Rightarrow> downloadReq \<Rightarrow> fsys \<Rightarrow> string \<Rightarrow> bool" where
  "reads_as cs req s c \<longleftrightarrow> (\<exists>path m m'. sanitizePath cs (dr_Path req) (dr_StorageID req) = (path, None)
     \<and> os_Stat path s = Inr (File m c) \<and> os_Open path s = Inr (File m' c)) \<and> int (length c) < 2 ^ 62"

lemma tail_handler_reads:
  assumes "reads_as cs req s c" "pos \<le> length c" "0 < n" "n \<le> defaultTailSize"
  shows "tail_handler dsz cs req (Some (int pos)) (Some n) s
    = TOk (take (nat n) (drop pos c)) (int (min (pos + nat n) (length c)))"
proof -
  obtain path mt m' where p: "sanitizePath cs (dr_Path req) (dr_StorageID req) = (path, None)"
      "os_Stat path s = Inr (File mt c)" "os_Open path s = Inr (File m' c)" and c: "int (length c) < 2 ^ 62"
    using assms(1) by (auto simp: reads_as_def)
  have n: "n \<le> 10485760" using assms(4) by (simp add: defaultTailSize_def)
  have w: "wrap (int pos + n) = int pos + n" "wrap (int (length c) - int pos) = int (length c) - int pos"
    using c n assms(2,3) by (auto intro!: wrap_id)
  have f: "st_size dsz (File m' c) = int (length c)" by (simp add: st_size_def)
  let ?k = "if int pos + n > int (length c) then int (length c) - int pos else n"
  obtain m where m: "n = int m" using assms(3) by (metis less_imp_le zero_le_imp_eq_int)
  have k: "\<not> ?k > defaultTailSize" "\<not> ?k < 0" "nat ?k = min (nat n) (length c - pos)"
    using assms(2,3,4) unfolding m by auto
  have t: "take (nat ?k) (drop pos c) = take (nat n) (drop pos c)" 
  proof -
    have "take (nat ?k) (drop pos c) = take (min (nat n) (length c - pos)) (drop pos c)" by (simp only: k(3))
    then show ?thesis by (cases "nat n \<le> length c - pos") (simp_all add: min_def)
  qed
  have "pos + length (take (nat n) (drop pos c)) = min (pos + nat n) (length c)" using assms(2) by auto
  then have l: "int pos + int (length (take (nat n) (drop pos c))) = int (min (pos + nat n) (length c))"
    by (simp only: of_nat_add[symmetric])
  have "int (min (pos + nat n) (length c)) < 2 ^ 63" using c by (simp add: min_def)
  then have w2: "wrap (int (min (pos + nat n) (length c))) = int (min (pos + nat n) (length c))" by (rule wrap_nat)
  have "TailFile dsz path \<lparr>pr_Offset = int pos, pr_Size = n\<rparr> s
      = TOk (take (nat n) (drop pos c)) (int (min (pos + nat n) (length c)))"
  proof -
    have "TailFile dsz path \<lparr>pr_Offset = int pos, pr_Size = n\<rparr> s
        = (if ?k > defaultTailSize then TErr (DTooLarge ?k) else if ?k < 0 then TPanic
           else TOk (take (nat ?k) (drop pos c)) (wrap (int pos + int (length (take (nat ?k) (drop pos c))))))"
      using assms(2) by (simp add: TailFile_def p(3) Let_def f w ReadAt_def)
    then show ?thesis unfolding if_not_P[OF k(1)] if_not_P[OF k(2)] t l w2 .
  qed
  then show ?thesis by (simp add: tail_handler_def infoFile_def p)
qed

lemma drop_take_join:
  assumes "take r c = take r l" "p \<le> r" "r \<le> q" "q \<le> length l"
  shows "drop p (take r c) @ drop r (take q l) = drop p (take q l)"
proof -
  have "take q l = take r l @ drop r (take q l)"
    using append_take_drop_id[of r "take q l"] assms(3) by (simp add: min_absorb1)
  then have "drop p (take q l) = drop p (take r l) @ drop r (take q l)"
    using assms by (metis drop_append length_take min_absorb2 diff_is_0_eq drop0 order_trans)
  then show ?thesis using assms(1) by simp
qed

text \<open>C32: Following a file loses and repeats nothing. A client asks for the bytes at the position that the last reply
  returned, while the file only grows between its requests (each state of the file extends the one before): then no
  request fails, and the bytes it got, put together, are exactly the beginning of the last state of the file up to the
  last position; and each request advances by the size it asked for, or to the end of the file.
\<close>

theorem follow_reads_prefix:
  assumes "list_all2 (reads_as cs req) ss cs'" "sorted_wrt prefix cs'" "0 < n" "n \<le> defaultTailSize" "ss \<noteq> []"
  shows "\<exists>pos. follow dsz cs req n 0 ss = (Some (take pos (last cs')), int pos)
     \<and> min (length ss * nat n) (length (hd cs')) \<le> pos \<and> pos \<le> length (last cs')"
proof -
  have gen: "\<exists>pos. follow dsz cs req n (int p) ss = (Some (drop p (take pos (last cs'))), int pos)
      \<and> min (p + length ss * nat n) (length (hd cs')) \<le> pos \<and> p \<le> pos \<and> pos \<le> length (last cs')"
    if "list_all2 (reads_as cs req) ss cs'" "sorted_wrt prefix cs'" "ss \<noteq> []" "p \<le> length (hd cs')" for ss cs' p
    using that
  proof (induction ss arbitrary: cs' p)
    case (Cons s ss)
    then obtain c cs1 where cs': "cs' = c # cs1" "reads_as cs req s c" "list_all2 (reads_as cs req) ss cs1"
      by (auto simp: list_all2_Cons1)
    let ?p = "min (p + nat n) (length c)"
    have h: "tail_handler dsz cs req (Some (int p)) (Some n) s = TOk (take (nat n) (drop p c)) (int ?p)"
      using tail_handler_reads[OF cs'(2) _ assms(3,4)] Cons.prems(4) cs'(1) by simp
    have b: "take (nat n) (drop p c) = drop p (take ?p c)"
      by (simp add: drop_take min_def)
    show ?case
    proof (cases "ss = []")
      case True
      then have "cs1 = []" using cs'(3) by simp
      then show ?thesis using True h b cs'(1) Cons.prems(4) assms(3)
        by (intro exI[of _ ?p]) (simp add: del: of_nat_min)
    next
      case False
      then have ne: "cs1 \<noteq> []" using cs'(3) by auto
      have pre: "prefix c (hd cs1)" "prefix c (last cs1)" using Cons.prems(2) cs'(1) ne by auto
      have le: "?p \<le> length (hd cs1)" using prefix_length_le[OF pre(1)] by simp
      have srt: "sorted_wrt prefix cs1" using Cons.prems(2) cs'(1) by simp
      obtain q where q: "follow dsz cs req n (int ?p) ss = (Some (drop ?p (take q (last cs1))), int q)"
          "min (?p + length ss * nat n) (length (hd cs1)) \<le> q" "?p \<le> q" "q \<le> length (last cs1)"
        using Cons.IH[OF cs'(3) srt False le] by blast
      have "take ?p c = take ?p (last cs1)" using pre(2) by (auto simp: prefix_def)
      then have "drop p (take ?p c) @ drop ?p (take q (last cs1)) = drop p (take q (last cs1))"
        using q(3,4) Cons.prems(4) cs'(1) by (intro drop_take_join) auto
      moreover have "min (p + length (s # ss) * nat n) (length c) \<le> q"
        using q(2,3) prefix_length_le[OF pre(1)] by (auto simp: min_def split: if_splits)
      ultimately show ?thesis using h q ne cs'(1) Cons.prems(4)
        by (intro exI[of _ q]) (simp add: b del: of_nat_min)
    qed
  qed simp
  have "follow dsz cs req n (int 0) ss = follow dsz cs req n 0 ss" by simp
  then show ?thesis using gen[OF assms(1,2,5), of 0] by auto
qed

section \<open>The names in an archive\<close>

lemma split_file_segs: "\<forall>w \<in> set (ws @ [x]). plain_seg w \<Longrightarrow> split_file (abs_path (ws @ [x])) = x"
  by (simp add: split_file_def split_abs_path)

lemma split_dir_abs:
  assumes "\<forall>w \<in> set (ws @ [x]). plain_seg w"
  shows "clean (split_dir (abs_path (ws @ [x]))) = abs_path ws"
proof -
  have "split_dir (abs_path (ws @ [x])) = (if ws = [] then ''/'' else abs_path ws @ ''/'')"
  proof -
    have "abs_path (ws @ [x]) = (if ws = [] then ''/'' else abs_path ws @ ''/'') @ x" by (simp add: abs_path_snoc[of ws x])
    then show ?thesis unfolding split_dir_def split_file_segs[OF assms] by simp
  qed
  moreover have "clean (abs_path ws @ ''/'') = abs_path ws"
  proof -
    have r: "rooted (abs_path ws)" "rooted (abs_path ws @ ''/'')" by (simp_all add: abs_path_def rooted_def)
    have "psegs (abs_path ws @ ''/'') = psegs (abs_path ws)" using psegs_append[OF r(1), of "[]"] by simp
    then have "clean (abs_path ws @ ''/'') = clean (abs_path ws)" by (simp add: clean_def r)
    then show ?thesis using assms by (simp add: clean_abs_path)
  qed
  moreover have "clean ''/'' = abs_path []" by (simp add: clean_def abs_path_def rooted_def psegs_def)
  ultimately show ?thesis by simp
qed

lemma join_on_append: "us \<noteq> [] \<Longrightarrow> vs \<noteq> [] \<Longrightarrow> join_on sep (us @ vs) = join_on sep us @ sep @ join_on sep vs"
proof (induction us)
  case (Cons u us)
  then show ?case by (cases "us = []") (simp_all add: join_on_Cons)
qed simp

lemma trim_internal_name:
  assumes "\<forall>w \<in> set us. plain_seg w" "us \<noteq> []"
  shows "trimPrefix (trimPrefix (abs_path (ws @ us)) (abs_path ws)) ''/'' = join_on ''/'' us"
proof (cases "ws = []")
  case True
  obtain u us' where u: "us = u # us'" using assms(2) by (cases us) auto
  then obtain c cs where c: "u = c # cs" "c \<noteq> CHR ''/''" using assms(1) by (cases u) (auto simp: plain_seg_def)
  have "\<not> hasPrefix (join_on ''/'' us) ''/''"
    using u c by (cases us') (auto simp: hasPrefix_def)
  then show ?thesis using True by (simp add: trimPrefix_def abs_path_def hasPrefix_def)
next
  case False
  then have "abs_path (ws @ us) = abs_path ws @ ''/'' @ join_on ''/'' us"
    using assms(2) by (simp add: abs_path_def join_on_append)
  then show ?thesis by (simp add: trimPrefix_def hasPrefix_def)
qed

definition temp_name :: "string \<Rightarrow> bool" where
  "temp_name x \<longleftrightarrow> hasPrefix x ''.'' \<and> hasSuffix x ''.upload''"

lemma zip_loop_names:
  assumes "\<forall>r \<in> set rels. (\<forall>w \<in> set (ws @ n # r). plain_seg w) \<and> os_Stat (abs_path (ws @ n # r)) s = Inr (nd r) \<and> \<not> is_link (nd r)
      \<and> (\<exists>m. os_Open (abs_path (ws @ n # r)) s = Inr m) \<and> (\<forall>x. arc x (nd r) True = None)"
  shows "zip_loop arc (abs_path ws) (map (\<lambda>r. abs_path (ws @ n # r)) rels) s
    = (map (\<lambda>r. (join_on ''/'' (n # r), nd r)) (filter (\<lambda>r. \<not> temp_name (last (n # r))) rels), ZDone)"
  using assms
proof (induction rels)
  case (Cons r rels)
  have pl: "\<forall>w \<in> set (ws @ n # r). plain_seg w" and st: "os_Stat (abs_path (ws @ n # r)) s = Inr (nd r)"
    and nl: "\<not> is_link (nd r)" and op: "\<exists>m. os_Open (abs_path (ws @ n # r)) s = Inr m" and ar: "\<And>x. arc x (nd r) True = None"
    using Cons.prems by simp_all
  have "ws @ n # r = (ws @ butlast (n # r)) @ [last (n # r)]" by simp
  then have "split_file (abs_path (ws @ n # r)) = last (n # r)" using split_file_segs pl by metis
  then have sk: "skipped (abs_path (ws @ n # r)) (nd r) = temp_name (last (n # r))"
    using nl by (simp add: skipped_def temp_name_def)
  have nm: "trimPrefix (trimPrefix (clean (abs_path (ws @ n # r))) (abs_path ws)) ''/'' = join_on ''/'' (n # r)"
    using trim_internal_name[of "n # r" ws] pl by (simp add: clean_abs_path)
  have ih: "zip_loop arc (abs_path ws) (map (\<lambda>r. abs_path (ws @ n # r)) rels) s
      = (map (\<lambda>r. (join_on ''/'' (n # r), nd r)) (filter (\<lambda>r. \<not> temp_name (last (n # r))) rels), ZDone)"
    using Cons.IH Cons.prems by simp
  show ?case
    by (simp only: list.map zip_loop.simps st sum.case sk Let_def nm ih) (use op ar in \<open>simp\<close>)
qed simp


section \<open>The listing for rclone\<close>

datatype rl_reply = RPanic | RFailed dl_err | RFile string string int int | RIndex string string
  | RList "fileObject list" int int int int

definition rListOrDownload :: "sorter \<Rightarrow> (string \<Rightarrow> fsys \<Rightarrow> string) \<Rightarrow> cloudStorage \<Rightarrow> listFileReq \<Rightarrow> string \<Rightarrow> fsys \<Rightarrow> rl_reply" where
  "rListOrDownload srt mime cs req0 action s =
     (let req1 = req0\<lparr>lf_Pagable := \<lparr>pg_Page = -1, pg_Size = -1\<rparr>\<rparr>;
          req2 = (if trimSpace (lf_Pattern req1) = [] then req1\<lparr>lf_Pattern := ''*''\<rparr> else req1);
          req = (if lf_Sort req2 = [] then req2\<lparr>lf_Sort := ''name'', lf_Asc := True\<rparr> else req2) in
      if \<not> ValidateSort zero_object (lf_Sort req) then RFailed DSort
      else case listFile srt mime cs req s of
        Inl e \<Rightarrow> RFailed (case e of LSys ENOENT \<Rightarrow> DNotFound (lf_Path req) | LSys e' \<Rightarrow> DSys e' | LPath e' \<Rightarrow> DPath e')
      | Inr (None, n) \<Rightarrow> RPanic
      | Inr (Some objs, n) \<Rightarrow>
          if length objs = 1 \<and> fo_Type (hd objs) = FILE \<and> action = ''download'' then
            (let f = hd objs in RFile (fst (sanitizePath cs (fo_Path f) (lf_StorageID req))) (fo_Name f) (fo_Size f)
               (fo_LastModifiedTime f))
          else if action = ''download'' \<and> hasSuffix (lf_Path req) ''index.html'' then
            (case sanitizePath cs (lf_Path req) (lf_StorageID req) of
               (path, Some e) \<Rightarrow> RFailed (DPath e)
             | (path, None) \<Rightarrow> (case os_Stat (path @ ''/index.html'') s of
                 Inr x \<Rightarrow> RIndex path ''index.html'' | Inl e \<Rightarrow> RFailed (DSys e)))
          else RList objs (pg_Page (lf_Pagable req)) (pg_Size (lf_Pagable req)) (int n) (-1))"

definition rInfoFile :: "(node \<Rightarrow> int) \<Rightarrow> cloudStorage \<Rightarrow> downloadReq \<Rightarrow> fsys \<Rightarrow> dl_err + (int \<times> int \<times> string \<times> string)" where
  "rInfoFile dsz cs req s = (case infoFile dsz cs req s of
     Inl e \<Rightarrow> Inl e
   | Inr f \<Rightarrow> if fo_Type f = DIR then Inl (DIsDir (dr_Path req))
             else Inr (fo_LastModifiedTime f, fo_Size f, fo_Mime f, fo_Name f))"

section \<open>Requests that panic\<close>

text \<open>A negative size, with an offset, makes a slice of negative length.\<close>

lemma tail_negative_size_panics:
  assumes "reads_as cs req s c" "0 < length c"
  shows "tail_handler dsz cs req (Some 0) (Some (-1)) s = TPanic"
proof -
  have "wrap (-1) = -1" by (simp add: wrap_id)
  then show ?thesis using assms(1)
    by (auto simp: reads_as_def tail_handler_def infoFile_def TailFile_def Let_def st_size_def defaultTailSize_def)
qed

text \<open>A file that may not be opened panics too.\<close>

lemma tail_unreadable_panics:
  assumes "infoFile dsz cs req s = Inr f" "os_Open (fo_Path f) s = Inl e"
  shows "tail_handler dsz cs req off sz s = TPanic"
  using assms by (simp add: tail_handler_def TailFile_def)

section \<open>Witnesses\<close>

definition demo_fs2 :: fsys where
  "demo_fs2 = on_root (alter [''users'', ''alice'', ''b''] (\<lambda>_. Some (File (demo_meta 7) ''xyzuvw''))) demo_fs"

definition demo_dl :: downloadReq where
  "demo_dl = \<lparr>dr_Path = ''b'', dr_Paths = [], dr_StorageID = -1\<rparr>"

lemma demo_reads: "reads_as demo_cs demo_dl demo_fs ''xyz''" "reads_as demo_cs demo_dl demo_fs2 ''xyzuvw''"
proof -
  have p: "sanitizePath demo_cs (dr_Path demo_dl) (dr_StorageID demo_dl) = (''/users/alice/b'', None)" by code_simp
  have "os_Stat ''/users/alice/b'' demo_fs = Inr (File (demo_meta 3) ''xyz'')"
    "os_Open ''/users/alice/b'' demo_fs = Inr (File (demo_meta 3) ''xyz'')"
    "os_Stat ''/users/alice/b'' demo_fs2 = Inr (File (demo_meta 7) ''xyzuvw'')"
    "os_Open ''/users/alice/b'' demo_fs2 = Inr (File (demo_meta 7) ''xyzuvw'')"
    by code_simp+
  then show "reads_as demo_cs demo_dl demo_fs ''xyz''" "reads_as demo_cs demo_dl demo_fs2 ''xyzuvw''"
    using p unfolding reads_as_def by auto
qed

theorem follow_reads_prefix_witness:
  "\<exists>pos. follow (\<lambda>_. 4096) demo_cs demo_dl 2 0 [demo_fs, demo_fs2] = (Some (take pos ''xyzuvw''), int pos)
     \<and> 3 \<le> pos \<and> pos \<le> 6"
proof -
  have "list_all2 (reads_as demo_cs demo_dl) [demo_fs, demo_fs2] [''xyz'', ''xyzuvw'']" using demo_reads by simp
  from follow_reads_prefix[OF this, of 2 "\<lambda>_. 4096"] show ?thesis by (simp del: follow.simps add: defaultTailSize_def numeral_eq_Suc)
qed

definition demo_zip :: downloadReq where
  "demo_zip = \<lparr>dr_Path = ''.'', dr_Paths = [], dr_StorageID = -1\<rparr>"

definition demo_nodes :: "path \<Rightarrow> node" where
  "demo_nodes r = (case r of [] \<Rightarrow> Dir (demo_meta 0) demo_entries | x # _ \<Rightarrow> the (map_of demo_entries x))"

definition demo_walk :: "string \<Rightarrow> fsys \<Rightarrow> string list" where
  "demo_walk b s = map (\<lambda>r. abs_path ([''users''] @ ''alice'' # r)) [[], [''.a.upload''], [''.rc''], [''b''], [''c'']]"

lemma demo_walk_reads:
  "\<forall>r \<in> set [[], [''.a.upload''], [''.rc''], [''b''], [''c'']].
      (\<forall>w \<in> set ([''users''] @ ''alice'' # r). plain_seg w)
      \<and> os_Stat (abs_path ([''users''] @ ''alice'' # r)) demo_fs = Inr (demo_nodes r) \<and> \<not> is_link (demo_nodes r)
      \<and> (\<exists>m. os_Open (abs_path ([''users''] @ ''alice'' # r)) demo_fs = Inr m) \<and> (\<forall>x. (\<lambda>_ _ _. None) x (demo_nodes r) True = None)"
proof -
  have "list_all (\<lambda>r. list_all plain_seg ([''users''] @ ''alice'' # r)
      \<and> os_Stat (abs_path ([''users''] @ ''alice'' # r)) demo_fs = Inr (demo_nodes r) \<and> \<not> is_link (demo_nodes r)
      \<and> os_Open (abs_path ([''users''] @ ''alice'' # r)) demo_fs = Inr (demo_nodes r))
    [[], [''.a.upload''], [''.rc''], [''b''], [''c'']]"
    by code_simp
  then show ?thesis unfolding list_all_iff by blast
qed


end
