(* ===== verification/Retry.thy ===== *)
theory Retry
  imports Prelude
begin

text \<open>
  \<open>pkg/retry/retry.go\<close>: a function is called until it succeeds, fails too often or the context ends, with waits in
  between. Time is an integer number of nanoseconds. Parameters: what the k-th call returns and how long it takes, the
  durations of the package \<open>backoff\<close>, the deadline and the cancellation of the context, and the case that \<open>select\<close>
  picks when the timer and the context are both ready.
\<close>

section \<open>The loop\<close>

record 'e setting =
  call :: "nat \<Rightarrow> bool \<times> 'e option"
  takes :: "nat \<Rightarrow> int"
  backoff :: "nat \<Rightarrow> int"
  deadline :: "int option"
  cancelled :: "int option"
  picks_ctx :: "nat \<Rightarrow> bool"

datatype 'e retry_err = Negative | Failed 'e | ContextDone

definition minDuration :: "int \<Rightarrow> int \<Rightarrow> int" where
  "minDuration a b = (if a < b then a else b)"

text \<open>When the context is done, if ever.\<close>

definition done_at :: "'e setting \<Rightarrow> int option" where
  "done_at c = (case (deadline c, cancelled c) of
     (None, None) \<Rightarrow> None | (Some d, None) \<Rightarrow> Some d | (None, Some x) \<Rightarrow> Some x | (Some d, Some x) \<Rightarrow> Some (min d x))"

text \<open>The wait after the k-th call, which ended at \<open>t1\<close>: the time at which the timer fires, and whether the context is taken.\<close>

definition fires :: "'e setting \<Rightarrow> nat \<Rightarrow> int \<Rightarrow> int" where
  "fires c k t1 =
     (let sleep = (case deadline c of None \<Rightarrow> backoff c k | Some d \<Rightarrow> minDuration (backoff c k) (d - t1))
      in t1 + max 0 sleep)"

definition takes_ctx :: "'e setting \<Rightarrow> nat \<Rightarrow> int \<Rightarrow> bool" where
  "takes_ctx c k t1 = (case done_at c of
     None \<Rightarrow> False
   | Some d \<Rightarrow> let ready = max t1 d in ready < fires c k t1 \<or> (ready = fires c k t1 \<and> picks_ctx c k))"

partial_function (option) retry_loop :: "'e setting \<Rightarrow> int \<Rightarrow> ('e \<Rightarrow> bool) \<Rightarrow> nat \<Rightarrow> int \<Rightarrow> int
    \<Rightarrow> 'e retry_err option option" where
  [code]: "retry_loop c numRetries r k retries t =
     (case (case call c k of
          (ok, Some e) \<Rightarrow> if \<not> r e \<or> retries \<ge> numRetries then Inl (Some (Failed e)) else Inr (retries + 1)
        | (ok, None) \<Rightarrow> if ok then Inl None else Inr retries) of
        Inl res \<Rightarrow> Some res
      | Inr rt \<Rightarrow>
          if takes_ctx c k (t + takes c k) then Some (Some ContextDone)
          else retry_loop c numRetries r (Suc k) rt (fires c k (t + takes c k)))"

definition WaitWithBackoffAndRetries :: "'e setting \<Rightarrow> int \<Rightarrow> ('e \<Rightarrow> bool) \<Rightarrow> 'e retry_err option option" where
  "WaitWithBackoffAndRetries c numRetries r =
     (if numRetries < 0 then Some (Some Negative) else retry_loop c numRetries r 0 0 0)"

definition IsAlwaysRetryable :: "'e \<Rightarrow> bool" where "IsAlwaysRetryable e = True"

definition IsNeverRetryable :: "'e \<Rightarrow> bool" where "IsNeverRetryable e = False"

definition WaitWithBackoff :: "'e setting \<Rightarrow> 'e retry_err option option" where
  "WaitWithBackoff c = WaitWithBackoffAndRetries c 0 IsNeverRetryable"

section \<open>One round\<close>

datatype 'e verdict = Stop "'e retry_err option" | Next int

definition verdict :: "'e setting \<Rightarrow> int \<Rightarrow> ('e \<Rightarrow> bool) \<Rightarrow> nat \<Rightarrow> int \<Rightarrow> int \<Rightarrow> 'e verdict" where
  "verdict c m r k n t =
     (let again = (\<lambda>rt. if takes_ctx c k (t + takes c k) then Stop (Some ContextDone) else Next rt) in
      case snd (call c k) of
        Some e \<Rightarrow> if \<not> r e \<or> n \<ge> m then Stop (Some (Failed e)) else again (n + 1)
      | None \<Rightarrow> if fst (call c k) then Stop None else again n)"

definition next_time :: "'e setting \<Rightarrow> nat \<Rightarrow> int \<Rightarrow> int" where
  "next_time c k t = fires c k (t + takes c k)"

lemma retry_loop_verdict:
  
  "retry_loop c m r k n t = (case verdict c m r k n t of Stop x \<Rightarrow> Some x | Next n' \<Rightarrow> retry_loop c m r (Suc k) n' (next_time c k t))"
  by (subst retry_loop.simps) (auto simp: verdict_def next_time_def Let_def split: prod.splits option.splits)

section \<open>Properties\<close>

text \<open>After the deadline the timer fires at once, and both cases of \<open>select\<close> are ready.\<close>

lemma after_deadline:
  assumes "deadline c = Some d" "d \<le> t1"
  shows "fires c k t1 = t1" "takes_ctx c k t1 = picks_ctx c k"
proof -
  have "max 0 (minDuration (backoff c k) (d - t1)) = 0" using assms(2) by (simp add: minDuration_def)
  then show f: "fires c k t1 = t1" using assms(1) by (simp add: fires_def Let_def)
  obtain x where x: "done_at c = Some x" "x \<le> d" using assms(1) by (cases "cancelled c") (auto simp: done_at_def)
  then show "takes_ctx c k t1 = picks_ctx c k" using f assms(2) by (simp add: takes_ctx_def Let_def max_absorb1)
qed

lemma returns_after_deadline:
  assumes "deadline c = Some d" "\<And>k. 0 \<le> takes c k" "d \<le> t" "picks_ctx c j" "k \<le> j"
  shows "\<exists>x. retry_loop c m r k n t = Some x"
  using assms(3,5)
proof (induction "j - k" arbitrary: k n t)
  case 0
  then have j: "k = j" by simp
  have "d \<le> t + takes c k" using 0 assms(2)[of k] by simp
  then have "takes_ctx c k (t + takes c k)" using after_deadline(2)[OF assms(1)] assms(4) j by simp
  then have "\<exists>x. verdict c m r k n t = Stop x" by (simp add: verdict_def Let_def split: option.splits)
  then show ?case by (subst retry_loop_verdict) auto
next
  case (Suc i)
  have "d \<le> t + takes c k" using Suc.prems(1) assms(2)[of k] by simp
  then have "d \<le> next_time c k t" using after_deadline(1)[OF assms(1)] by (simp add: next_time_def)
  then have "\<exists>x. retry_loop c m r (Suc k) n' (next_time c k t) = Some x" for n'
    using Suc.hyps(1)[of "Suc k" "next_time c k t" n'] Suc.hyps(2) by simp
  then show ?case by (subst retry_loop_verdict) (auto split: verdict.splits)
qed

text \<open>Before the deadline, every wait makes progress.\<close>

lemma next_time_progress:
  assumes "deadline c = Some d" "0 \<le> takes c k" "0 < b" "b \<le> backoff c k"
  shows "d \<le> next_time c k t \<or> t + b \<le> next_time c k t"
proof -
  have "d - (t + takes c k) \<le> 0 \<or> (0 < d - (t + takes c k))" by linarith
  then show ?thesis using assms by (auto simp: next_time_def fires_def minDuration_def Let_def)
qed


text \<open>Without a context that ends, the outcome is that of the first call that settles the matter: a success, an error
  that may not be retried, or the error after \<open>numRetries\<close> others.\<close>

definition errors_before :: "'e setting \<Rightarrow> nat \<Rightarrow> int" where
  "errors_before c k = int (length (filter (\<lambda>i. snd (call c i) \<noteq> None) [0..<k]))"

lemma retry_loop_outcome:
  assumes "done_at c = None" "k \<le> j"
    and "\<And>i. k \<le> i \<Longrightarrow> i < j \<Longrightarrow> call c i = (False, None) \<or> (\<exists>ok e. call c i = (ok, Some e) \<and> r e \<and> errors_before c i < m)"
    and "call c j = (True, None) \<or> (\<exists>ok e. call c j = (ok, Some e) \<and> (\<not> r e \<or> m \<le> errors_before c j))"
  shows "retry_loop c m r k (errors_before c k) t = Some (map_option Failed (snd (call c j)))"
  using assms(2,3)
proof (induction "j - k" arbitrary: k t)
  case 0
  then show ?case using assms(4) by (subst retry_loop_verdict) (auto simp: verdict_def)
next
  case (Suc i)
  have nc: "\<not> takes_ctx c k t1" for t1 by (simp add: takes_ctx_def assms(1))
  have "verdict c m r k (errors_before c k) t = Next (errors_before c (Suc k))"
  proof -
    have "k < j" using Suc.hyps(2) by simp
    then consider "call c k = (False, None)" | ok e where "call c k = (ok, Some e)" "r e" "errors_before c k < m"
      using Suc.prems(2)[of k] by blast
    then show ?thesis by cases (simp_all add: verdict_def nc errors_before_def Let_def)
  qed
  then show ?case using Suc.hyps(1)[of "Suc k"] Suc.hyps(2) Suc.prems by (subst retry_loop_verdict) simp
qed

lemma retry_outcome:
  assumes "done_at c = None" "0 \<le> m"
    and "\<And>i. i < j \<Longrightarrow> call c i = (False, None) \<or> (\<exists>ok e. call c i = (ok, Some e) \<and> r e \<and> errors_before c i < m)"
    and "call c j = (True, None) \<or> (\<exists>ok e. call c j = (ok, Some e) \<and> (\<not> r e \<or> m \<le> errors_before c j))"
  shows "WaitWithBackoffAndRetries c m r = Some (map_option Failed (snd (call c j)))"
  using retry_loop_outcome[OF assms(1) le0 assms(3,4), of 0] assms(2)
  by (simp add: WaitWithBackoffAndRetries_def errors_before_def)

text \<open>A function that never succeeds, a deadline at 5, waits of 2, and a \<open>select\<close> that takes the context every third time.\<close>

definition demo_setting :: "unit setting" where
  "demo_setting = \<lparr>call = (\<lambda>_. (False, None)), takes = (\<lambda>_. 0), backoff = (\<lambda>_. 2), deadline = Some 5, cancelled = None,
     picks_ctx = (\<lambda>k. k mod 3 = 0)\<rparr>"


end
