(* ===== verification/FullBackup.thy ===== *)
theory FullBackup
  imports KopiaJobs AppStore
begin

text \<open>
  The daily full backup of \<open>internal/backup/kopia_provider.go\<close>: when \<open>scheduleFull\<close> starts one, and what
  \<open>doScheduleFull\<close> records of it in the table of chores (\<open>internal/storage/chore.go\<close>).
\<close>

section \<open>The time of the day\<close>

text \<open>\<open>strings.Trim\<close> of a character, and \<open>strconv.ParseUint(s, 10, 64)\<close>.\<close>

definition trim_char :: "char \<Rightarrow> string \<Rightarrow> string" where
  "trim_char c s = trimRightP (\<lambda>x. x = c) (trimLeftP (\<lambda>x. x = c) s)"

definition ParseUint :: "string \<Rightarrow> nat option" where
  "ParseUint s = (if s = [] \<or> \<not> list_all is_digit s then None
     else let v = digits_value s in if v < 2 ^ 64 then Some v else None)"

definition full_tenant :: "string \<Rightarrow> nat" where
  "full_tenant pfx = (case ParseUint (trimSuffix (trim_char (CHR ''/'') pfx) ''-full'') of Some t \<Rightarrow> t | None \<Rightarrow> 0)"

definition triggerH :: "nat \<Rightarrow> nat" where "triggerH tenantID = tenantID mod 6"
definition triggerM :: "nat \<Rightarrow> nat" where "triggerM tenantID = tenantID mod 60"

text \<open>Local time in seconds.\<close>

definition Hour :: "nat \<Rightarrow> nat" where "Hour now = now div 3600 mod 24"
definition Minute :: "nat \<Rightarrow> nat" where "Minute now = now div 60 mod 60"

text \<open>One round of \<open>scheduleFull\<close> at the time \<open>now\<close>: is a full backup started?\<close>

definition full_due :: "nat \<Rightarrow> nat \<Rightarrow> bool" where
  "full_due tenantID now \<longleftrightarrow> \<not> triggerH tenantID \<noteq> Hour now \<and> \<not> triggerM tenantID \<noteq> Minute now"

definition nextPollInterval :: nat where "nextPollInterval = 30"

text \<open>
  The loop for \<open>n\<close> rounds, from the end of the last round: the times at which full backups start. \<open>dur\<close> is how long
  each of them takes; the loop waits for it.
\<close>

fun scheduleFull :: "nat \<Rightarrow> (nat \<Rightarrow> nat) \<Rightarrow> nat \<Rightarrow> nat \<Rightarrow> nat list" where
  "scheduleFull tenantID dur 0 t = []"
| "scheduleFull tenantID dur (Suc n) t =
     (let now = t + nextPollInterval in
      if full_due tenantID now then now # scheduleFull tenantID dur n (now + dur now)
      else scheduleFull tenantID dur n now)"

definition round2Interval :: "nat \<Rightarrow> nat \<Rightarrow> nat" where
  "round2Interval now round = (if Minute now + round > 60 then 60 - Minute now else round)"

section \<open>One full backup\<close>

definition full_chore :: BackupChore where
  "full_chore = \<lparr>ch_ID = 0, ch_Path = ''/ellis-chen/users'', ch_ManifestID = [], ch_ManifestSize = 0, ch_SnapshotSize = 0,
     ch_State = ChoreStateRUNNING, ch_Extra = [], ch_Username = ''auto'', ch_created = 0, ch_updated = 0, ch_deleted = False\<rparr>"

definition counts_as_failed :: "kerr option \<Rightarrow> bool" where
  "counts_as_failed err = (case err of None \<Rightarrow> False | Some e \<Rightarrow> \<not> containsStr (err_text e) ''unknown or unsupported entry type'')"

text \<open>The deferred function.\<close>

definition full_finish :: "'h htab \<Rightarrow> int \<Rightarrow> BackupChore \<Rightarrow> kerr option \<Rightarrow> SnapshotInfo option \<Rightarrow> 'k kprov \<Rightarrow> 'h \<Rightarrow> 'k kprov \<times> 'h" where
  "full_finish TH now chore err si p t =
     (if counts_as_failed err then
        (p\<lparr>kp_stat := FullBackupFinish False (kp_stat p)\<rparr>,
         snd (UpdateChore TH now (chore\<lparr>ch_State := ChoreStateFAILED, ch_Extra := err_text (the err)\<rparr>) t))
      else
        (let c1 = chore\<lparr>ch_State := ChoreStateFINISHED\<rparr>;
             c2 = (case si of None \<Rightarrow> c1 | Some i \<Rightarrow>
               c1\<lparr>ch_SnapshotSize := si_SnapshotSize i, ch_ManifestSize := si_ManifestSize i, ch_ManifestID := si_ID i\<rparr>)
         in (p\<lparr>kp_stat := FullBackupFinish True (kp_stat p)\<rparr>, snd (UpdateChore TH now c2 t))))"

definition doScheduleFull :: "'k kopia_ops \<Rightarrow> 'k job_ops \<Rightarrow> 'h htab \<Rightarrow> ('k kprov \<Rightarrow> 'k kprov) list \<Rightarrow> int \<Rightarrow> int \<Rightarrow>
    'k kprov \<Rightarrow> 'h \<Rightarrow> kerr option jout \<times> 'k kprov \<times> 'h" where
  "doScheduleFull X J TH env t0 t1 p t =
     (if \<not> kp_full p then (JRet (Some (EExt ''schedule full only supported when fullMode is enabled'')), p, t)
      else case lockUntil X env p of
        (None, p1) \<Rightarrow> (JBlocked, p1, t)
      | (Some (KPanic m), p1) \<Rightarrow> (JPanic m, p1, t)
      | (Some (KErr e), p1) \<Rightarrow> (JRet (Some e), p1, t)
      | (Some KOk, p1) \<Rightarrow>
          (case NewBChore TH t0 full_chore t of
             (False, h1) \<Rightarrow> (JRet (Some (EWrap ''err new backup chore'' (EExt ''database''))), p1, h1)
           | (True, h1) \<Rightarrow>
               (case QueryLatestChore TH h1 of
                  None \<Rightarrow> (JPanic ''nil chore'', p1\<lparr>kp_stat := FullBackupFinish True (FullBackupRunning (kp_stat p1))\<rparr>, h1)
                | Some chore \<Rightarrow>
                    (case CreateSnapshot X J (ch_Path full_chore) (ToTags chore)
                            (p1\<lparr>kp_stat := FullBackupRunning (kp_stat p1)\<rparr>) of
                       (Inl e, p2) \<Rightarrow>
                         (let err = EWrap ''err do schedule full'' e in
                          case full_finish TH t1 chore (Some err) None p2 h1 of (p3, h2) \<Rightarrow> (JRet (Some err), p3, h2))
                     | (Inr si, p2) \<Rightarrow>
                         (case full_finish TH t1 chore None (Some si) p2 h1 of (p3, h2) \<Rightarrow> (JRet None, p3, h2))))))"

section \<open>What is recorded\<close>

text \<open>The primary keys grow, as those of SQLite do.\<close>

definition growing_ids :: "('t, 'r) table_ops \<Rightarrow> 'r schema \<Rightarrow> bool" where
  "growing_ids T S \<longleftrightarrow> (\<forall>r t t'. t_create T r t = Some t' \<longrightarrow> rows T t' \<noteq> [] \<and> 0 < s_id S (last (rows T t'))
     \<and> (\<forall>x \<in> set (butlast (rows T t')). s_id S x < s_id S (last (rows T t'))))"

lemma insort_key_snoc: "f x < f c \<Longrightarrow> insort_key f x (ys @ [c]) = insort_key f x ys @ [c]"
  by (induction ys) auto

lemma sort_key_snoc: "\<forall>x \<in> set xs. f x < f c \<Longrightarrow> sort_key f (xs @ [c]) = sort_key f xs @ [c]"
  by (induction xs) (simp_all add: insort_key_snoc)

lemma last_by_id_snoc: "\<forall>x \<in> set xs. ch_ID x < ch_ID c \<Longrightarrow> last_by_id (xs @ [c]) = Some c"
  by (simp add: last_by_id_def sort_key_snoc)

lemma new_chore:
  assumes "table_ok TH chore_schema" "growing_ids TH chore_schema"
  obtains i h1 where "NewBChore TH now c t = (True, h1)" "0 < i" "\<forall>x \<in> set (rows TH t). ch_ID x < i"
    "rows TH h1 = rows TH t @ [c\<lparr>ch_ID := i, ch_created := now, ch_updated := now, ch_deleted := False\<rparr>]"
    "QueryLatestChore TH h1 = Some (c\<lparr>ch_ID := i, ch_created := now, ch_updated := now, ch_deleted := False\<rparr>)"
proof -
  let ?c = "c\<lparr>ch_created := now, ch_updated := now, ch_deleted := False\<rparr>"
  obtain h1 i where h: "t_create TH ?c t = Some h1" "rows TH h1 = rows TH t @ [?c\<lparr>ch_ID := i\<rparr>]"
    using t_create_rows[OF assms(1), of t ?c] by auto
  have g: "0 < i" "\<forall>x \<in> set (rows TH t). ch_ID x < i"
    using assms(2) h unfolding growing_ids_def by (metis butlast_snoc last_snoc chore_schema_simps(1) BackupChore.select_convs(1) BackupChore.surjective BackupChore.update_convs(1))+
  have "t_find TH (\<lambda>x. 0 < ch_ID x \<and> \<not> ch_deleted x) h1 = Some (filter (\<lambda>x. 0 < ch_ID x \<and> \<not> ch_deleted x) (rows TH t) @ [?c\<lparr>ch_ID := i\<rparr>])"
    using table_okD(1)[OF assms(1)] h(2) g(1) by simp
  then have "QueryLatestChore TH h1 = Some (?c\<lparr>ch_ID := i\<rparr>)"
    using last_by_id_snoc[of "filter (\<lambda>x. 0 < ch_ID x \<and> \<not> ch_deleted x) (rows TH t)" "?c\<lparr>ch_ID := i\<rparr>"] g(2)
    by (simp add: QueryLatestChore_def found_def)
  then show thesis using that[of h1 i] g h by (simp add: NewBChore_def exec_def)
qed

lemma UpdateChore_last:
  assumes "table_ok TH chore_schema" "rows TH h = rs @ [c]" "\<forall>x \<in> set rs. ch_ID x < ch_ID c" "\<not> ch_deleted c" "ch_ID u = ch_ID c"
    "0 < ch_ID c"
  shows "rows TH (snd (UpdateChore TH now u h)) = rs @ [u\<lparr>ch_updated := now\<rparr>]"
proof -
  obtain h' where h': "t_update TH (\<lambda>x. ch_ID x = ch_ID u \<and> \<not> ch_deleted x) (\<lambda>_. u\<lparr>ch_updated := now\<rparr>) h = Some h'"
      "rows TH h' = map (\<lambda>x. if ch_ID x = ch_ID u \<and> \<not> ch_deleted x then u\<lparr>ch_updated := now\<rparr> else x) (rows TH h)"
    using t_update_rows[OF assms(1), of "\<lambda>_. u\<lparr>ch_updated := now\<rparr>" "\<lambda>x. ch_ID x = ch_ID u \<and> \<not> ch_deleted x" h] by auto
  have "map (\<lambda>x. if ch_ID x = ch_ID u \<and> \<not> ch_deleted x then u\<lparr>ch_updated := now\<rparr> else x) rs = rs"
    using assms(3,5) by (intro map_idI) auto
  then show ?thesis using h' assms by (simp add: UpdateChore_def exec_def)
qed

text \<open>A snapshot that fails only for entries of an unknown type counts as a full backup.\<close>

definition benign :: "kerr \<Rightarrow> bool" where
  "benign e \<longleftrightarrow> containsStr (err_text (EWrap ''err do schedule full'' e)) ''unknown or unsupported entry type''"

text \<open>C23: A full backup settles its chore. Once the provider admits it, a full backup returns, adds exactly one row to the
  table of chores and changes no other, whatever the repository does: the row ends FINISHED, with the identity and the
  sizes of the snapshot, when the snapshot was created, and FAILED with the text of the error when it was not; no row is
  left RUNNING. The one exception is an error that mentions an unknown or unsupported entry type: the call returns it, but
  the row is FINISHED, without any snapshot identity. (The database must accept the statements, and number its rows
  upwards.)
\<close>

theorem full_backup_settles:
  assumes "table_ok TH chore_schema" "growing_ids TH chore_schema" "kp_full p" "lockUntil X env p = (Some KOk, p1)"
  shows "\<exists>c r p2 t'. doScheduleFull X J TH env t0 t1 p t = (JRet r, p2, t') \<and> rows TH t' = rows TH t @ [c]
     \<and> ch_Path c = ''/ellis-chen/users'' \<and> ch_Username c = ''auto''
     \<and> (case fst (CreateSnapshot X J ''/ellis-chen/users'' (ToTags c) (p1\<lparr>kp_stat := FullBackupRunning (kp_stat p1)\<rparr>)) of
          Inr si \<Rightarrow> r = None \<and> ch_State c = ChoreStateFINISHED \<and> ch_ManifestID c = si_ID si
            \<and> ch_SnapshotSize c = si_SnapshotSize si \<and> ch_ManifestSize c = si_ManifestSize si
        | Inl e \<Rightarrow> r = Some (EWrap ''err do schedule full'' e)
            \<and> (if benign e then ch_State c = ChoreStateFINISHED \<and> ch_ManifestID c = []
               else ch_State c = ChoreStateFAILED \<and> ch_Extra c = err_text (EWrap ''err do schedule full'' e)))"
proof -
  obtain i h1 where n: "NewBChore TH t0 full_chore t = (True, h1)" "0 < i" "\<forall>x \<in> set (rows TH t). ch_ID x < i"
    "rows TH h1 = rows TH t @ [full_chore\<lparr>ch_ID := i, ch_created := t0, ch_updated := t0, ch_deleted := False\<rparr>]"
    "QueryLatestChore TH h1 = Some (full_chore\<lparr>ch_ID := i, ch_created := t0, ch_updated := t0, ch_deleted := False\<rparr>)"
    using new_chore[OF assms(1,2)] by blast
  let ?c = "full_chore\<lparr>ch_ID := i, ch_created := t0, ch_updated := t0, ch_deleted := False\<rparr>"
  let ?q = "p1\<lparr>kp_stat := FullBackupRunning (kp_stat p1)\<rparr>"
  have upd: "rows TH (snd (UpdateChore TH t1 u h1)) = rows TH t @ [u\<lparr>ch_updated := t1\<rparr>]" if "ch_ID u = i" for u
    using UpdateChore_last[OF assms(1) n(4), of u t1] n(2,3) that by simp
  have path: "ch_Path full_chore = ''/ellis-chen/users''" by (simp add: full_chore_def)
  obtain res p2 where c: "CreateSnapshot X J ''/ellis-chen/users'' (ToTags ?c) ?q = (res, p2)" by fastforce
  have tags: "ToTags u = ToTags ?c" if "ch_ID u = i" "ch_Path u = ''/ellis-chen/users''" "ch_Username u = ''auto''" for u
    using that by (simp add: ToTags_def full_chore_def)
  have start: "doScheduleFull X J TH env t0 t1 p t = (case CreateSnapshot X J ''/ellis-chen/users'' (ToTags ?c) ?q of
       (Inl e, p2) \<Rightarrow> (let err = EWrap ''err do schedule full'' e in
          case full_finish TH t1 ?c (Some err) None p2 h1 of (p3, h2) \<Rightarrow> (JRet (Some err), p3, h2))
     | (Inr si, p2) \<Rightarrow> (case full_finish TH t1 ?c None (Some si) p2 h1 of (p3, h2) \<Rightarrow> (JRet None, p3, h2)))"
    by (simp only: doScheduleFull_def assms(3,4) n(1,5) path prod.case option.case kres.case bool.case not_True_eq_False if_False)
  show ?thesis
  proof (cases res)
    case (Inr si)
    let ?u = "?c\<lparr>ch_State := ChoreStateFINISHED, ch_SnapshotSize := si_SnapshotSize si, ch_ManifestSize := si_ManifestSize si,
        ch_ManifestID := si_ID si\<rparr>"
    have "doScheduleFull X J TH env t0 t1 p t
        = (JRet None, p2\<lparr>kp_stat := FullBackupFinish True (kp_stat p2)\<rparr>, snd (UpdateChore TH t1 ?u h1))"
      unfolding start c Inr by (simp add: full_finish_def counts_as_failed_def Let_def)
    moreover have "ToTags (?u\<lparr>ch_updated := t1\<rparr>) = ToTags ?c" by (rule tags) (simp_all add: full_chore_def)
    ultimately show ?thesis using upd[of ?u] c Inr
      by (intro exI[of _ "?u\<lparr>ch_updated := t1\<rparr>"] exI[of _ None] exI conjI) (auto simp: full_chore_def)
  next
    case (Inl e)
    let ?e = "EWrap ''err do schedule full'' e"
    let ?u = "if benign e then ?c\<lparr>ch_State := ChoreStateFINISHED\<rparr> else ?c\<lparr>ch_State := ChoreStateFAILED, ch_Extra := err_text ?e\<rparr>"
    have "\<exists>p3. doScheduleFull X J TH env t0 t1 p t = (JRet (Some ?e), p3, snd (UpdateChore TH t1 ?u h1))"
      unfolding start c Inl by (simp add: full_finish_def counts_as_failed_def benign_def Let_def)
    then obtain p3 where "doScheduleFull X J TH env t0 t1 p t = (JRet (Some ?e), p3, snd (UpdateChore TH t1 ?u h1))" ..
    moreover have "ToTags (?u\<lparr>ch_updated := t1\<rparr>) = ToTags ?c" by (rule tags) (simp_all add: full_chore_def)
    ultimately show ?thesis using upd[of ?u] c Inl
      by (intro exI[of _ "?u\<lparr>ch_updated := t1\<rparr>"] exI[of _ "Some ?e"] exI conjI) (auto simp: full_chore_def)
  qed
qed

section \<open>When full backups start\<close>

text \<open>The start of the minute of a tenant in the day \<open>d\<close>.\<close>

definition trigger_time :: "nat \<Rightarrow> nat \<Rightarrow> nat" where
  "trigger_time tenantID d = 86400 * d + 3600 * triggerH tenantID + 60 * triggerM tenantID"

lemma day_time: "now mod 86400 = 3600 * Hour now + 60 * Minute now + now mod 60"
proof -
  have a: "now mod 86400 = 60 * (now div 60 mod 1440) + now mod 60" using mod_mult2_eq[of now 60 1440] by simp
  have b: "now div 60 mod 1440 = 60 * (now div 60 div 60 mod 24) + now div 60 mod 60"
    using mod_mult2_eq[of "now div 60" 60 24] by simp
  have "now div 60 div 60 = now div 3600" using div_mult2_eq[of now 60 60] by simp
  then show ?thesis using a b by (simp add: Hour_def Minute_def)
qed

lemma full_due_iff: "full_due tenantID now \<longleftrightarrow> (\<exists>d. trigger_time tenantID d \<le> now \<and> now < trigger_time tenantID d + 60)"
proof
  assume f: "full_due tenantID now"
  have "now = 86400 * (now div 86400) + now mod 86400" by simp
  also have "\<dots> = trigger_time tenantID (now div 86400) + now mod 60"
    using f day_time[of now] by (simp add: full_due_def trigger_time_def)
  finally have n: "now = trigger_time tenantID (now div 86400) + now mod 60" .
  have "now mod 60 < 60" by simp
  then show "\<exists>d. trigger_time tenantID d \<le> now \<and> now < trigger_time tenantID d + 60"
    using n by (intro exI[of _ "now div 86400"]) linarith
next
  assume "\<exists>d. trigger_time tenantID d \<le> now \<and> now < trigger_time tenantID d + 60"
  then obtain d s where n: "now = trigger_time tenantID d + s" "s < 60"
    by (metis add_less_cancel_left le_Suc_ex)
  have h: "triggerH tenantID < 24" "triggerM tenantID < 60" by (simp_all add: triggerH_def triggerM_def less_le_trans[of _ 6])
  have "now = s + 60 * (triggerM tenantID + 60 * (triggerH tenantID + 24 * d))" using n by (simp add: trigger_time_def)
  then have a: "now div 60 = triggerM tenantID + 60 * (triggerH tenantID + 24 * d)" using n(2) by simp
  have "now div 3600 = now div 60 div 60" using div_mult2_eq[of now 60 60] by simp
  then have "now div 3600 = triggerH tenantID + 24 * d" using a h by simp
  then have "Hour now = triggerH tenantID" using h by (simp add: Hour_def)
  moreover have "Minute now = triggerM tenantID" unfolding Minute_def a using h(2) by (simp only: mod_mult_self2 mod_less)
  ultimately show "full_due tenantID now" by (simp add: full_due_def)
qed

lemma not_due_between:
  assumes "trigger_time tenantID d + 60 \<le> now" "now < trigger_time tenantID (Suc d)"
  shows "\<not> full_due tenantID now"
proof
  assume "full_due tenantID now"
  then obtain d' where d': "trigger_time tenantID d' \<le> now" "now < trigger_time tenantID d' + 60"
    by (auto simp: full_due_iff)
  have "d' \<le> d \<or> Suc d \<le> d'" by auto
  then show False
  proof
    assume "d' \<le> d"
    then have "trigger_time tenantID d' \<le> trigger_time tenantID d" by (simp add: trigger_time_def)
    then show False using assms d' by linarith
  next
    assume "Suc d \<le> d'"
    then have "trigger_time tenantID (Suc d) \<le> trigger_time tenantID d'" by (simp add: trigger_time_def)
    then show False using assms d' by linarith
  qed
qed

text \<open>C24: The daily full backup is never missed by an idle scheduler. If the loop of \<open>scheduleFull\<close> is between two rounds at any
  time after the last minute of the tenant is over and before the next one begins (so no full backup that started before
  is still running when the minute comes), then after enough rounds a full backup starts, within 30 seconds of the
  beginning of the minute.
\<close>

theorem full_backup_daily:
  assumes "trigger_time tenantID d + 60 \<le> t" "t < trigger_time tenantID (Suc d)"
  shows "\<exists>n s. s \<in> set (scheduleFull tenantID dur n t) \<and> trigger_time tenantID (Suc d) \<le> s \<and> s < trigger_time tenantID (Suc d) + 30"
  using assms
proof (induction "trigger_time tenantID (Suc d) - t" arbitrary: t rule: less_induct)
  case less
  let ?M = "trigger_time tenantID (Suc d)" and ?now = "t + 30"
  show ?case
  proof (cases "?now < ?M")
    case True
    then have nd: "\<not> full_due tenantID ?now" using less.prems by (intro not_due_between) auto
    have "?M - ?now < ?M - t" "trigger_time tenantID d + 60 \<le> ?now" using True less.prems by auto
    then obtain n s where "s \<in> set (scheduleFull tenantID dur n ?now)" "?M \<le> s" "s < ?M + 30"
      using less.hyps[of ?now] True by blast
    then show ?thesis using nd by (intro exI[of _ "Suc n"] exI[of _ s]) (simp add: nextPollInterval_def)
  next
    case False
    then have "?M \<le> ?now" "?now < ?M + 30" using less.prems by auto
    moreover from this have "full_due tenantID ?now" unfolding full_due_iff by (intro exI[of _ "Suc d"]) auto
    ultimately show ?thesis by (intro exI[of _ "1"] exI[of _ ?now]) (simp add: nextPollInterval_def)
  qed
qed

text \<open>But a backup that is over soon enough is repeated within the same minute.\<close>

lemma short_full_backup_runs_twice:
  assumes "trigger_time tenantID d \<le> t + 30" "t + 30 + dur (t + 30) + 30 < trigger_time tenantID d + 60"
  shows "scheduleFull tenantID dur 2 t = [t + 30, t + 30 + dur (t + 30) + 30]"
proof -
  have "full_due tenantID (t + 30)" "full_due tenantID (t + 30 + dur (t + 30) + 30)"
    unfolding full_due_iff using assms by (auto intro!: exI[of _ d])
  then show ?thesis by (simp add: nextPollInterval_def numeral_2_eq_2 Let_def)
qed

text \<open>The hour is determined by the minute: of the 360 minutes of the window, 60 are used.\<close>

lemma trigger_hour_from_minute: "triggerH tenantID = triggerM tenantID mod 6"
  by (simp add: triggerH_def triggerM_def mod_mod_cancel)

text \<open>The interval of \<open>scheduleUsage\<close> is positive and ends no later than the hour.\<close>

lemma round2Interval_bounds:
  assumes "0 < round" "round \<le> 60"
  shows "0 < round2Interval now round" "round2Interval now round \<le> round" "Minute now + round2Interval now round \<le> 60"
proof -
  have "Minute now < 60" by (simp add: Minute_def)
  then show "0 < round2Interval now round" "round2Interval now round \<le> round" "Minute now + round2Interval now round \<le> 60"
    using assms by (auto simp: round2Interval_def)
qed

section \<open>Witnesses\<close>

theorem full_backup_daily_witness:
  "\<exists>n s. s \<in> set (scheduleFull 77 (\<lambda>_. 600) n 20000) \<and> 105420 \<le> s \<and> s < 105450"
  using full_backup_daily[of 77 0 20000 "\<lambda>_. 600"] by (simp add: trigger_time_def triggerH_def triggerM_def)

lemma list_table_growing: "growing_ids (list_table chore_schema) chore_schema"
  unfolding growing_ids_def
proof (intro allI impI)
  fix r :: BackupChore and t t' assume "t_create (list_table chore_schema) r t = Some t'"
  then have t': "t' = t @ [r\<lparr>ch_ID := fresh chore_schema t\<rparr>]"
    by (auto simp: list_table_def list_create_def split: if_splits)
  have "ch_ID x < fresh chore_schema t" if "x \<in> set t" for x
    unfolding fresh_def less_Suc_eq_le using that by (intro Max_ge) auto
  then show "rows (list_table chore_schema) t' \<noteq> [] \<and> 0 < s_id chore_schema (last (rows (list_table chore_schema) t'))
      \<and> (\<forall>x \<in> set (butlast (rows (list_table chore_schema) t')). s_id chore_schema x < s_id chore_schema (last (rows (list_table chore_schema) t')))"
    by (simp add: t' fresh_def)
qed

definition toy_full_running :: "toy kprov" where "toy_full_running = toy_running\<lparr>kp_full := True\<rparr>"

theorem full_backup_settles_witness:
  "\<exists>c r p2. doScheduleFull toy_ops toy_jobs (list_table chore_schema) [] 5 9 toy_full_running [] = (JRet r, p2, [c])
     \<and> ch_Username c = ''auto''"
proof -
  have "kp_full toy_full_running" "lockUntil toy_ops [] toy_full_running = (Some KOk, toy_full_running)" by code_simp+
  from full_backup_settles[OF list_table_ok list_table_growing this, of toy_jobs 5 9 "[]"]
  show ?thesis by auto
qed

end
