(* ===== verification/Middlewares.thy ===== *)
theory Middlewares
  imports Complex_Main FileOps Usage DlCache Listing
begin

text \<open>
  The middlewares of the web server, \<open>web/routers/middlewares.go\<close> and the three of \<open>web/routers/backup.go\<close>. A handler
  is a function of the context that may run the rest of the chain by \<open>c.Next\<close>; the framework gin is not part of the
  repository, and \<open>gin_chain\<close> states what it documents of a chain. A panic, or a copy of the skeleton directory that
  does not end, is \<open>None\<close>: nothing behind it runs.
\<close>

section \<open>The context of a request\<close>

record UserPrincipal =
  pr_TenantID :: int
  pr_UserID :: int
  pr_UserName :: string
  pr_LinuxUID :: int
  pr_LinuxGID :: int

definition UnkownPrincipal :: UserPrincipal where
  "UnkownPrincipal = \<lparr>pr_TenantID = 0, pr_UserID = -1, pr_UserName = ''unknown'', pr_LinuxUID = -1, pr_LinuxGID = -1\<rparr>"

text \<open>An error of a handler: a pointer to an \<open>appError\<close>, an \<open>appError\<close>, or another error.\<close>

datatype gerr = AppPtr int string | AppVal int string | GPath path_error | GSys errno | GStr string

text \<open>What is written: an error object with its status, a \<open>BaseResponse\<close> with a code, or other data.\<close>

datatype 'd reply = ErrReply int gerr | Base int string "'d option" | Raw 'd

record ('d, 'w) gctx =
  gc_uri :: string
  gc_method :: string
  gc_action :: string
  gc_path :: string
  gc_query :: "string \<Rightarrow> string option"
  gc_ip :: string
  gc_length :: int
  gc_identity :: "UserPrincipal option"
  gc_start :: "int option"
  gc_fctx :: "fctx option"
  gc_backup :: bool
  gc_full :: bool
  gc_errors :: "gerr list"
  gc_aborted :: bool
  gc_out :: "'d reply list"
  gc_size :: int
  gc_w :: 'w

text \<open>A handler gets \<open>c.Next\<close>; it returns the context and whether it has called it.\<close>

type_synonym 'c handler = "('c \<Rightarrow> 'c option) \<Rightarrow> 'c \<Rightarrow> ('c \<times> bool) option"

text \<open>
  What gin documents: the pending handlers of a chain run one after the other; \<open>Next\<close> executes them inside the calling
  handler; \<open>Abort\<close> prevents them from being called. A handler that merely returns does not stop the chain.
\<close>

definition gin_chain :: "(('d, 'w) gctx handler list \<Rightarrow> ('d, 'w) gctx \<Rightarrow> ('d, 'w) gctx option) \<Rightarrow> bool" where
  "gin_chain serve \<longleftrightarrow> (\<forall>c. serve [] c = Some c)
     \<and> (\<forall>h hs c. serve (h # hs) c =
          (if gc_aborted c then Some c
           else case h (serve hs) c of
             None \<Rightarrow> None
           | Some (c1, nexted) \<Rightarrow> if nexted \<or> gc_aborted c1 then Some c1 else serve hs c1))"

definition ctx_error :: "gerr \<Rightarrow> ('d, 'w) gctx \<Rightarrow> ('d, 'w) gctx" where
  "ctx_error e c = c\<lparr>gc_errors := gc_errors c @ [e]\<rparr>"

definition put_reply :: "'d reply \<Rightarrow> ('d, 'w) gctx \<Rightarrow> ('d, 'w) gctx" where
  "put_reply r c = c\<lparr>gc_out := gc_out c @ [r]\<rparr>"

definition call_next :: "('c \<Rightarrow> 'c option) \<Rightarrow> 'c \<Rightarrow> ('c \<times> bool) option" where
  "call_next next c = (case next c of None \<Rightarrow> None | Some c1 \<Rightarrow> Some (c1, True))"

section \<open>Errors\<close>

text \<open>\<open>errors.As\<close> looks for a pointer.\<close>

fun error_status :: "gerr \<Rightarrow> int" where
  "error_status (AppPtr code msg) = code"
| "error_status e = 400"

definition ErrorHandleMiddleware :: "('d, 'w) gctx handler" where
  "ErrorHandleMiddleware next c = (case next c of
     None \<Rightarrow> None
   | Some c1 \<Rightarrow> (case gc_errors c1 of
        [] \<Rightarrow> Some (c1, True)
      | e # es \<Rightarrow> Some (put_reply (ErrReply (error_status e) e) (c1\<lparr>gc_aborted := True\<rparr>), True)))"

section \<open>The identity\<close>

datatype claim = CNum int | CStr string

text \<open>A type assertion that fails panics.\<close>

definition claim_num :: "(string \<Rightarrow> claim option) \<Rightarrow> string \<Rightarrow> int option" where
  "claim_num claims k = (case claims k of None \<Rightarrow> Some 0 | Some (CNum n) \<Rightarrow> Some n | Some (CStr s) \<Rightarrow> None)"

definition IdentityHandler :: "(string \<Rightarrow> claim option) \<Rightarrow> UserPrincipal option" where
  "IdentityHandler claims = (case claims ''username'' of
     Some (CStr name) \<Rightarrow>
       (case (claim_num claims ''tenantId'', claim_num claims ''userId'', claim_num claims ''linuxUid'', claim_num claims ''linuxGid'') of
          (Some t, Some u, Some lu, Some lg) \<Rightarrow>
            Some \<lparr>pr_TenantID = t, pr_UserID = u, pr_UserName = name, pr_LinuxUID = lu, pr_LinuxGID = lg\<rparr>
        | _ \<Rightarrow> None)
   | _ \<Rightarrow> None)"

text \<open>The identity of a request is a pointer; the default of \<open>fromCtx\<close> is not.\<close>

datatype identity = IdPtr UserPrincipal | IdVal UserPrincipal

definition fromCtx :: "'a option \<Rightarrow> ('a \<Rightarrow> 'b) \<Rightarrow> 'b \<Rightarrow> 'b" where
  "fromCtx v f defaultVal = (case v of Some x \<Rightarrow> f x | None \<Rightarrow> defaultVal)"

definition principal_of :: "('d, 'w) gctx \<Rightarrow> UserPrincipal option" where
  "principal_of c = (case fromCtx (gc_identity c) IdPtr (IdVal UnkownPrincipal) of IdPtr p \<Rightarrow> Some p | IdVal p \<Rightarrow> None)"

section \<open>FsContextMiddleware\<close>

record mconf =
  mc_StorePath :: string
  mc_AuditPath :: string
  mc_AuditApprovedPath :: string
  mc_StoreMgrMntRoot :: string
  mc_NFSID :: string
  mc_EnableBalanceCheck :: bool
  mc_FcceMode :: bool
  mc_balance_limit :: rat

text \<open>What the server keeps: transferred bytes by tenant and user, registered samplers, submitted jobs and reported downloads.\<close>

record mworld =
  mw_fs :: fsys
  mw_up :: "(int \<times> string \<times> int) list"
  mw_down :: "(int \<times> string \<times> int) list"
  mw_samplers :: "int set"
  mw_jobs :: "TransferUsage list"
  mw_dls :: "Dl list"

definition on_fs :: "'e eff \<Rightarrow> ('d, 'm mworld_scheme) gctx \<Rightarrow> ('d, 'm mworld_scheme) gctx" where
  "on_fs f c = c\<lparr>gc_w := (gc_w c)\<lparr>mw_fs := snd (f (mw_fs (gc_w c)))\<rparr>\<rparr>"

definition initFileList :: "string list" where
  "initFileList = [''.bashrc'', ''.bash_profile'', ''.bash_logout'']"

definition missing :: "string \<Rightarrow> fsys \<Rightarrow> bool" where
  "missing p s \<longleftrightarrow> os_Stat p s = Inl ENOENT"

text \<open>A directory of the user that is missing is made, with its mode; errors are ignored.\<close>

definition ensure_home :: "string \<Rightarrow> nat \<Rightarrow> int \<Rightarrow> int \<Rightarrow> fsys \<Rightarrow> fsys" where
  "ensure_home dir mode uid gid s = (if missing dir s then snd (os_Chmod dir mode (snd (EnsureOwnDir dir uid gid s))) else s)"

definition copy_skel :: "nat \<Rightarrow> string \<Rightarrow> int \<Rightarrow> int \<Rightarrow> fsys \<Rightarrow> fsys option" where
  "copy_skel fuel home uid gid s =
     (if missing (home @ ''/.bashrc'') s then
        (case CopyDir fuel ''/etc/skel/'' home s of
           None \<Rightarrow> None
         | Some (None, s1) \<Rightarrow> Some (fold (\<lambda>f s. snd (Chown (home @ ''/'' @ f) uid gid s)) initFileList s1)
         | Some (Some e, s1) \<Rightarrow> Some s1)
      else Some s)"

definition setup_home :: "mconf \<Rightarrow> nat \<Rightarrow> UserPrincipal \<Rightarrow> fsys \<Rightarrow> fsys option" where
  "setup_home cfg fuel p s =
     (let home = mc_StorePath cfg @ ''/users/'' @ pr_UserName p;
          audit = mc_AuditPath cfg @ ''/users/'' @ pr_UserName p;
          approved = mc_AuditApprovedPath cfg @ ''/users/'' @ pr_UserName p;
          s1 = ensure_home home 448 (pr_LinuxUID p) (pr_LinuxGID p) s;
          s2 = snd (Chown home (pr_LinuxUID p) (pr_LinuxGID p) s1);
          s3 = ensure_home audit 493 (pr_LinuxUID p) (pr_LinuxGID p) s2;
          s4 = ensure_home approved 448 (pr_LinuxUID p) (pr_LinuxGID p) s3
      in copy_skel fuel home (pr_LinuxUID p) (pr_LinuxGID p) s4)"

definition storage_of :: "mconf \<Rightarrow> UserPrincipal \<Rightarrow> fctx" where
  "storage_of cfg p =
     \<lparr>fc_cs = \<lparr>SystemRootPrefix = mc_StorePath cfg @ ''/users/'' @ pr_UserName p,
        AuditRootPrefix = mc_AuditPath cfg @ ''/users/'' @ pr_UserName p,
        AuditApprovedRootPrefix = mc_AuditApprovedPath cfg @ ''/users/'' @ pr_UserName p,
        ExternalMntPrefix = mc_StoreMgrMntRoot cfg, ignoreNameCheck = False\<rparr>,
      fc_uid = pr_LinuxUID p, fc_gid = pr_LinuxGID p\<rparr>"

definition metered :: "string \<Rightarrow> string \<Rightarrow> bool" where
  "metered uri method \<longleftrightarrow> (hasPrefix uri ''/fa/api/v0/download/'' \<and> method = ''GET'')
     \<or> (hasPrefix uri ''/fa/api/v0/upload/'' \<and> (method = ''POST'' \<or> method = ''PUT''))"

text \<open>\<open>bal\<close> is \<open>QueryBalance\<close> for the tenant, \<open>reg\<close> whether \<open>RegisterEfsSampler\<close> succeeds.\<close>

definition fs_context_rest :: "mconf \<Rightarrow> (int \<Rightarrow> bool) \<Rightarrow> UserPrincipal \<Rightarrow> ('d, 'm mworld_scheme) gctx handler" where
  "fs_context_rest cfg reg p next c =
     (if \<not> mc_FcceMode cfg \<and> pr_TenantID p \<notin> mw_samplers (gc_w c) then
        if reg (pr_TenantID p)
        then call_next next (c\<lparr>gc_w := (gc_w c)\<lparr>mw_samplers := insert (pr_TenantID p) (mw_samplers (gc_w c))\<rparr>\<rparr>)
        else Some (c, False)
      else call_next next c)"

definition FsContextMiddleware :: "mconf \<Rightarrow> nat \<Rightarrow> int \<Rightarrow> (int \<Rightarrow> gerr + rat) \<Rightarrow> (int \<Rightarrow> bool) \<Rightarrow> ('d, 'm mworld_scheme) gctx handler" where
  "FsContextMiddleware cfg fuel now bal reg next c0 =
     (case principal_of c0 of
        None \<Rightarrow> None
      | Some p \<Rightarrow>
     (case setup_home cfg fuel p (mw_fs (gc_w c0)) of
        None \<Rightarrow> None
      | Some s \<Rightarrow>
          let c = c0\<lparr>gc_start := Some now, gc_w := (gc_w c0)\<lparr>mw_fs := s\<rparr>, gc_fctx := Some (storage_of cfg p)\<rparr> in
          if metered (gc_uri c) (gc_method c) then
            (let c1 = c\<lparr>gc_w := (gc_w c)\<lparr>mw_up := mw_up (gc_w c) @ [(pr_TenantID p, pr_UserName p, gc_length c)]\<rparr>\<rparr> in
             if mc_EnableBalanceCheck cfg then
               (case bal (pr_TenantID p) of
                  Inl e \<Rightarrow> Some (ctx_error e c1, False)
                | Inr b \<Rightarrow> if b < mc_balance_limit cfg then Some (ctx_error (AppVal 402 ''low balance'') c1, False)
                          else fs_context_rest cfg reg p next c1)
             else fs_context_rest cfg reg p next c1)
          else fs_context_rest cfg reg p next c))"

section \<open>DownloadMiddleware\<close>

definition counted_download :: "mconf \<Rightarrow> ('d, 'w) gctx \<Rightarrow> bool" where
  "counted_download cfg c \<longleftrightarrow> \<not> mc_FcceMode cfg
     \<and> (hasPrefix (gc_uri c) ''/fa/api/v0/download/'' \<or> (hasPrefix (gc_uri c) ''/fa/api/v0/rclone/'' \<and> gc_action c = ''download''))
     \<and> gc_method c = ''GET''"

text \<open>\<open>over\<close> is the comparison of the floating-point quotient with 0.1; \<open>uid\<close> a new id.\<close>

definition download_job :: "mconf \<Rightarrow> string \<Rightarrow> UserPrincipal \<Rightarrow> string \<Rightarrow> int \<Rightarrow> string \<Rightarrow> int \<Rightarrow> int \<Rightarrow> TransferUsage" where
  "download_job cfg uid p path n ip t0 t1 =
     \<lparr>tu_id = uid, tu_size = word_of_int n, tu_tenant = word_of_int (pr_TenantID p), tu_user = pr_UserID p, tu_name = path,
      tu_from = mc_NFSID cfg, tu_to = ip, tu_start = t0, tu_end = t1, tu_ip = ip\<rparr>"

definition download_record :: "mconf \<Rightarrow> UserPrincipal \<Rightarrow> string \<Rightarrow> int \<Rightarrow> string \<Rightarrow> int \<Rightarrow> Dl" where
  "download_record cfg p path n ip t0 =
     \<lparr>dl_PathKey = pr_UserName p @ ''/'' @ path, dl_Path = path, dl_Size = word_of_int n, dl_From = mc_NFSID cfg, dl_To = ip,
      dl_TenantID = word_of_int (pr_TenantID p), dl_UserID = pr_UserID p, dl_ClientIP = ip, dl_StartTime = t0\<rparr>"

definition file_size :: "(node \<Rightarrow> int) \<Rightarrow> node \<Rightarrow> int" where
  "file_size dsz n = (if is_dir n then dsz n else node_size n)"

definition DownloadMiddleware :: "mconf \<Rightarrow> (node \<Rightarrow> int) \<Rightarrow> (int \<Rightarrow> int \<Rightarrow> bool) \<Rightarrow> string \<Rightarrow> int \<Rightarrow> ('d, 'm mworld_scheme) gctx handler" where
  "DownloadMiddleware cfg dsz over uid now next c0 = (case next c0 of
     None \<Rightarrow> None
   | Some c \<Rightarrow> (case (principal_of c, gc_fctx c) of
       (Some p, Some cs) \<Rightarrow>
         (let t0 = (case gc_start c of None \<Rightarrow> 0 | Some t \<Rightarrow> t); resSz = gc_size c in
          if \<not> counted_download cfg c \<or> resSz < 0 then Some (c, True)
          else
            let c1 = c\<lparr>gc_w := (gc_w c)\<lparr>mw_down := mw_down (gc_w c) @ [(pr_TenantID p, pr_UserName p, resSz)]\<rparr>\<rparr>;
                path = trimLeftP (\<lambda>x. x = CHR ''/'') (gc_path c) in
            case Atoi (case gc_query c ''storage_id'' of None \<Rightarrow> ''-1'' | Some v \<Rightarrow> v) of
              None \<Rightarrow> Some (ctx_error (GStr ''storage_id'') c1, True)
            | Some storageID \<Rightarrow>
                (case sanitizePath (fc_cs cs) path storageID of
                   (absPath, Some e) \<Rightarrow> Some (ctx_error (GPath e) c1, True)
                 | (absPath, None) \<Rightarrow>
                     (case os_Stat absPath (mw_fs (gc_w c1)) of
                        Inl ENOENT \<Rightarrow> Some (ctx_error (GSys ENOENT) c1, True)
                      | Inl e \<Rightarrow> None
                      | Inr n \<Rightarrow>
                          if file_size dsz n < 20 * 1048576 \<and> over resSz (file_size dsz n)
                          then Some (c1\<lparr>gc_w := (gc_w c1)\<lparr>mw_jobs := mw_jobs (gc_w c1)
                                  @ [download_job cfg uid p path resSz (gc_ip c) t0 now]\<rparr>\<rparr>, True)
                          else Some (c1\<lparr>gc_w := (gc_w c1)\<lparr>mw_dls := mw_dls (gc_w c1)
                                  @ [download_record cfg p path resSz (gc_ip c) t0]\<rparr>\<rparr>, True))))
     | _ \<Rightarrow> None))"

section \<open>The middlewares of the backup routes\<close>

definition BackupMiddleware :: "('d, 'w) gctx handler" where
  "BackupMiddleware next c =
     (let uri = gc_uri c in
      if hasPrefix uri ''/fa/api/v0/backup'' \<or> hasPrefix uri ''/fa/api/v0/restore'' \<or> hasPrefix uri ''/fa/public/safe-upgrade''
      then call_next next (c\<lparr>gc_backup := True\<rparr>) else call_next next c)"

definition BackupFullMiddleware :: "('d, 'w) gctx handler" where
  "BackupFullMiddleware next c = Some (c\<lparr>gc_full := True\<rparr>, False)"

text \<open>\<open>fullmode\<close> is the environment variable \<open>FB_FULLMODE\<close>.\<close>

definition BackupFullCheckMiddleware :: "string option \<Rightarrow> ('d, 'w) gctx handler" where
  "BackupFullCheckMiddleware fullmode next c =
     (if fullmode \<noteq> Some ''true'' then Some (put_reply (Base 4001 ''only support when FULLMODE activated'' None) c, False)
      else Some (c, False))"

section \<open>Chains\<close>

lemma chain_Nil: "gin_chain serve \<Longrightarrow> serve [] c = Some c"
  by (simp add: gin_chain_def)

lemma chain_Cons:
  assumes "gin_chain serve" "\<not> gc_aborted c"
  shows "serve (h # hs) c = (case h (serve hs) c of
    None \<Rightarrow> None | Some (c1, nexted) \<Rightarrow> if nexted \<or> gc_aborted c1 then Some c1 else serve hs c1)"
proof -
  have "serve (h # hs) c = (if gc_aborted c then Some c else case h (serve hs) c of
      None \<Rightarrow> None | Some (c1, nexted) \<Rightarrow> if nexted \<or> gc_aborted c1 then Some c1 else serve hs c1)"
    using assms(1) unfolding gin_chain_def by blast
  then show ?thesis unfolding if_not_P[OF assms(2)] .
qed

text \<open>A handler that returns without \<open>Next\<close> and without \<open>Abort\<close> does not stop the chain.\<close>

lemma chain_return:
  assumes "gin_chain serve" "\<not> gc_aborted c" "h (serve hs) c = Some (c1, False)" "\<not> gc_aborted c1"
  shows "serve (h # hs) c = serve hs c1"
  using assms by (simp add: chain_Cons)

lemma error_handler_reply:
  assumes "gin_chain serve" "\<not> gc_aborted c" "serve hs c = Some c1" "gc_errors c1 = e # es"
  shows "serve (ErrorHandleMiddleware # hs) c = Some (put_reply (ErrReply (error_status e) e) (c1\<lparr>gc_aborted := True\<rparr>))"
  using assms by (simp add: chain_Cons ErrorHandleMiddleware_def)

text \<open>The context in which the rest of the chain runs when the balance is too low.\<close>

definition low_balance_ctx :: "mconf \<Rightarrow> int \<Rightarrow> UserPrincipal \<Rightarrow> fsys \<Rightarrow> ('d, 'm mworld_scheme) gctx \<Rightarrow> ('d, 'm mworld_scheme) gctx" where
  "low_balance_ctx cfg now p s c = ctx_error (AppVal 402 ''low balance'')
     (c\<lparr>gc_start := Some now, gc_fctx := Some (storage_of cfg p),
        gc_w := (gc_w c)\<lparr>mw_fs := s, mw_up := mw_up (gc_w c) @ [(pr_TenantID p, pr_UserName p, gc_length c)]\<rparr>\<rparr>)"

lemma fs_context_low_balance:
  assumes "gc_identity c = Some p" "setup_home cfg fuel p (mw_fs (gc_w c)) = Some s" "metered (gc_uri c) (gc_method c)"
    and "mc_EnableBalanceCheck cfg" "bal (pr_TenantID p) = Inr b" "b < mc_balance_limit cfg"
  shows "FsContextMiddleware cfg fuel now bal reg next c = Some (low_balance_ctx cfg now p s c, False)"
proof -
  have pr: "principal_of c = Some p" using assms(1) by (simp add: principal_of_def fromCtx_def)
  show ?thesis
    unfolding FsContextMiddleware_def pr option.case assms(2) Let_def
    by (simp add: assms(3-6) low_balance_ctx_def ctx_error_def)
qed

section \<open>Properties\<close>

text \<open>C40: The balance check does not stop a download or an upload. When the check is on and the balance of the tenant is below
  the limit, the middleware records an error and returns, but neither calls nor aborts the chain; so the rest of the
  chain runs all the same, with the storage of the user bound to the context, and answers the request in full. The error
  is only appended to that answer, and twice, since the error middleware is registered twice; and its status is 400, not
  the 402 that the code asks for, since \<open>errors.As\<close> looks for a pointer.
\<close>

theorem low_balance_request_served:
  assumes "gin_chain serve" "\<not> gc_aborted c" "gc_errors c = []" "gc_identity c = Some p"
    and "setup_home cfg fuel p (mw_fs (gc_w c)) = Some s" "metered (gc_uri c) (gc_method c)"
    and "mc_EnableBalanceCheck cfg" "bal (pr_TenantID p) = Inr b" "b < mc_balance_limit cfg"
    and "serve hs (low_balance_ctx cfg now p s c) = Some c2" "gc_errors c2 = AppVal 402 ''low balance'' # es"
  shows "\<exists>c'. serve (ErrorHandleMiddleware # ErrorHandleMiddleware # FsContextMiddleware cfg fuel now bal reg # hs) c = Some c'
     \<and> gc_fctx (low_balance_ctx cfg now p s c) = Some (storage_of cfg p)
     \<and> gc_out c' = gc_out c2 @ [ErrReply 400 (AppVal 402 ''low balance''), ErrReply 400 (AppVal 402 ''low balance'')]"
proof -
  let ?l = "low_balance_ctx cfg now p s c" and ?e = "AppVal 402 ''low balance''"
  have na: "\<not> gc_aborted ?l" using assms(2) by (simp add: low_balance_ctx_def ctx_error_def)
  have f: "serve (FsContextMiddleware cfg fuel now bal reg # hs) c = Some c2"
    unfolding chain_Cons[OF assms(1,2)] fs_context_low_balance[where bal = bal and reg = reg and fuel = fuel and cfg = cfg and now = now, OF assms(4-9)] using na assms(10) by simp
  have g: "serve (ErrorHandleMiddleware # FsContextMiddleware cfg fuel now bal reg # hs) c
      = Some (put_reply (ErrReply 400 ?e) (c2\<lparr>gc_aborted := True\<rparr>))"
    using error_handler_reply[OF assms(1,2) f assms(11)] by simp
  have "gc_errors (put_reply (ErrReply 400 ?e) (c2\<lparr>gc_aborted := True\<rparr>)) = ?e # es"
    using assms(11) by (simp add: put_reply_def)
  note r = error_handler_reply[OF assms(1,2) g this]
  have "gc_fctx ?l = Some (storage_of cfg p)" by (simp add: low_balance_ctx_def ctx_error_def)
  then show ?thesis unfolding r by (simp add: put_reply_def)
qed

text \<open>The public endpoints for full backups never reach their handlers. The routes full-restore, full-query and full-ack run
  without the JWT middleware, so no identity is set; the default that \<open>FsContextMiddleware\<close> then gets is a principal and
  not a pointer to one, and its type assertion panics: whatever the mode of the server, the handler and the configuration,
  the request ends in a panic. (The check of the mode before it would not have stopped the request either.)
\<close>

theorem public_full_endpoints_panic:
  assumes "gin_chain serve" "\<not> gc_aborted c" "gc_identity c = None"
  shows "serve [ErrorHandleMiddleware, BackupFullMiddleware, BackupFullCheckMiddleware fullmode,
      FsContextMiddleware cfg fuel now bal reg, handler] c = None"
proof -
  let ?fs = "FsContextMiddleware cfg fuel now bal reg"
  have n: "serve [?fs, handler] d = None" if "\<not> gc_aborted d" "gc_identity d = None" for d
    using that by (simp add: chain_Cons[OF assms(1)] FsContextMiddleware_def principal_of_def fromCtx_def)
  let ?d = "c\<lparr>gc_full := True\<rparr>"
  obtain d where d: "BackupFullCheckMiddleware fullmode (serve [?fs, handler]) ?d = Some (d, False)"
      "\<not> gc_aborted d" "gc_identity d = None"
    using assms(2,3) by (cases "fullmode = Some ''true''") (simp_all add: BackupFullCheckMiddleware_def put_reply_def)
  have a: "\<not> gc_aborted ?d" using assms(2) by simp
  have "serve [BackupFullCheckMiddleware fullmode, ?fs, handler] ?d = None"
    using chain_return[where h = "BackupFullCheckMiddleware fullmode" and hs = "[?fs, handler]", OF assms(1) a d(1,2)] n[OF d(2,3)]
    by simp
  moreover have "BackupFullMiddleware (serve [BackupFullCheckMiddleware fullmode, ?fs, handler]) c = Some (?d, False)"
    by (simp add: BackupFullMiddleware_def)
  ultimately have "serve [BackupFullMiddleware, BackupFullCheckMiddleware fullmode, ?fs, handler] c = None"
    using chain_return[where h = BackupFullMiddleware and hs = "[BackupFullCheckMiddleware fullmode, ?fs, handler]", OF assms(1,2) _ a]
    by simp
  then show ?thesis by (simp add: chain_Cons[OF assms(1,2)] ErrorHandleMiddleware_def)
qed

text \<open>The bytes of downloads that are billed, directly or through the download cache.\<close>

definition billed :: "'m mworld_scheme \<Rightarrow> (64 word \<times> 64 word) multiset" where
  "billed w = image_mset (\<lambda>j. (tu_tenant j, tu_size j)) (mset (mw_jobs w))
     + image_mset (\<lambda>d. (dl_TenantID d, dl_Size d)) (mset (mw_dls w))"

text \<open>C15: A download is billed exactly once. When the rest of the chain has written a body of \<open>gc_size\<close> bytes for a GET request
  of the download or rclone routes, and the path of the request names something in the storage, then exactly one charge is
  added, with the tenant of the user and the number of bytes that were written, either as a job that sends the usage at
  once or as a record for the download cache, never both; the file system, the replies and the errors are left alone. A
  request of another kind, of a server in FCCE mode, or without a body is not charged.
\<close>

theorem download_billed_once:
  assumes "gin_chain serve" "\<not> gc_aborted c0" "serve hs c0 = Some c" "gc_identity c = Some p" "gc_fctx c = Some cs"
    and "Atoi (case gc_query c ''storage_id'' of None \<Rightarrow> ''-1'' | Some v \<Rightarrow> v) = Some sid"
    and "sanitizePath (fc_cs cs) (trimLeftP (\<lambda>x. x = CHR ''/'') (gc_path c)) sid = (path, None)"
    and "os_Stat path (mw_fs (gc_w c)) = Inr n"
  shows "\<exists>c'. serve (DownloadMiddleware cfg dsz over uid now # hs) c0 = Some c'
     \<and> gc_out c' = gc_out c \<and> gc_errors c' = gc_errors c \<and> mw_fs (gc_w c') = mw_fs (gc_w c)
     \<and> billed (gc_w c') = (if counted_download cfg c \<and> 0 \<le> gc_size c
          then add_mset (word_of_int (pr_TenantID p), word_of_int (gc_size c)) (billed (gc_w c)) else billed (gc_w c))"
proof -
  have pr: "principal_of c = Some p" using assms(4) by (simp add: principal_of_def fromCtx_def)
  have "\<exists>c'. DownloadMiddleware cfg dsz over uid now (serve hs) c0 = Some (c', True)
     \<and> gc_out c' = gc_out c \<and> gc_errors c' = gc_errors c \<and> mw_fs (gc_w c') = mw_fs (gc_w c)
     \<and> billed (gc_w c') = (if counted_download cfg c \<and> 0 \<le> gc_size c
          then add_mset (word_of_int (pr_TenantID p), word_of_int (gc_size c)) (billed (gc_w c)) else billed (gc_w c))"
  proof (cases "counted_download cfg c \<and> 0 \<le> gc_size c")
    case False
    then show ?thesis by (auto simp: DownloadMiddleware_def assms(3,5) pr Let_def)
  next
    case True
    then show ?thesis
      by (simp add: DownloadMiddleware_def assms(3,5,6,7) pr Let_def assms(8) billed_def download_job_def download_record_def)
  qed
  then obtain c' where c': "DownloadMiddleware cfg dsz over uid now (serve hs) c0 = Some (c', True)"
     "gc_out c' = gc_out c \<and> gc_errors c' = gc_errors c \<and> mw_fs (gc_w c') = mw_fs (gc_w c)
     \<and> billed (gc_w c') = (if counted_download cfg c \<and> 0 \<le> gc_size c
          then add_mset (word_of_int (pr_TenantID p), word_of_int (gc_size c)) (billed (gc_w c)) else billed (gc_w c))"
    by blast
  have "serve (DownloadMiddleware cfg dsz over uid now # hs) c0 = Some c'"
    unfolding chain_Cons[OF assms(1,2)] c'(1) by simp
  then show ?thesis using c'(2) by blast
qed

section \<open>Witnesses\<close>

fun gin_serve :: "('d, 'w) gctx handler list \<Rightarrow> ('d, 'w) gctx \<Rightarrow> ('d, 'w) gctx option" where
  "gin_serve [] c = Some c"
| "gin_serve (h # hs) c =
     (if gc_aborted c then Some c
      else case h (gin_serve hs) c of
        None \<Rightarrow> None
      | Some (c1, nexted) \<Rightarrow> if nexted \<or> gc_aborted c1 then Some c1 else gin_serve hs c1)"

lemma gin_serve_chain: "gin_chain gin_serve"
  by (simp add: gin_chain_def)

definition demo_conf :: mconf where
  "demo_conf = \<lparr>mc_StorePath = [], mc_AuditPath = ''/audit'', mc_AuditApprovedPath = ''/ok'', mc_StoreMgrMntRoot = ''/mnt'',
     mc_NFSID = ''nfs'', mc_EnableBalanceCheck = True, mc_FcceMode = False, mc_balance_limit = 10\<rparr>"

definition demo_principal :: UserPrincipal where
  "demo_principal = \<lparr>pr_TenantID = 7, pr_UserID = 1, pr_UserName = ''alice'', pr_LinuxUID = 1000, pr_LinuxGID = 1000\<rparr>"

definition demo_world :: mworld where
  "demo_world = \<lparr>mw_fs = demo_fs, mw_up = [], mw_down = [], mw_samplers = {}, mw_jobs = [], mw_dls = []\<rparr>"

definition demo_ctx :: "UserPrincipal option \<Rightarrow> (string, mworld) gctx" where
  "demo_ctx p = \<lparr>gc_uri = ''/fa/api/v0/download/b'', gc_method = ''GET'', gc_action = [], gc_path = ''/b'', gc_query = (\<lambda>_. None),
     gc_ip = ''10.0.0.1'', gc_length = 0, gc_identity = p, gc_start = None, gc_fctx = None, gc_backup = False, gc_full = False,
     gc_errors = [], gc_aborted = False, gc_out = [], gc_size = -1, gc_w = demo_world\<rparr>"

text \<open>A handler that sends a body of three bytes.\<close>

definition send_body :: "(string, mworld) gctx handler" where
  "send_body next c = Some (put_reply (Raw ''xyz'') (c\<lparr>gc_size := 3, gc_fctx := Some (storage_of demo_conf demo_principal)\<rparr>), False)"

theorem low_balance_request_served_witness:
  "\<exists>c'. gin_serve [ErrorHandleMiddleware, ErrorHandleMiddleware, FsContextMiddleware demo_conf 3 0 (\<lambda>_. Inr 5) (\<lambda>_. True), send_body]
      (demo_ctx (Some demo_principal)) = Some c'
    \<and> gc_out c' = [Raw ''xyz'', ErrReply 400 (AppVal 402 ''low balance''), ErrReply 400 (AppVal 402 ''low balance'')]"
proof -
  let ?c = "demo_ctx (Some demo_principal)"
  have "setup_home demo_conf 3 demo_principal demo_fs \<noteq> None" by code_simp
  then obtain s where s: "setup_home demo_conf 3 demo_principal (mw_fs (gc_w ?c)) = Some s"
    by (auto simp: demo_ctx_def demo_world_def)
  have c: "\<not> gc_aborted ?c" "gc_errors ?c = []" "gc_identity ?c = Some demo_principal" by (simp_all add: demo_ctx_def)
  have m: "metered (gc_uri ?c) (gc_method ?c)" by (simp add: demo_ctx_def metered_def hasPrefix_def)
  have e: "mc_EnableBalanceCheck demo_conf" "(\<lambda>_. Inr 5 :: gerr + rat) (pr_TenantID demo_principal) = Inr 5" "5 < mc_balance_limit demo_conf"
    by (simp_all add: demo_conf_def)
  let ?l = "low_balance_ctx demo_conf 0 demo_principal s ?c"
  let ?c2 = "put_reply (Raw ''xyz'') (?l\<lparr>gc_size := 3, gc_fctx := Some (storage_of demo_conf demo_principal)\<rparr>)"
  have h: "gin_serve [send_body] ?l = Some ?c2" "gc_errors ?c2 = AppVal 402 ''low balance'' # []" "gc_out ?c2 = [Raw ''xyz'']"
    by (simp_all add: send_body_def low_balance_ctx_def ctx_error_def put_reply_def demo_ctx_def)
  show ?thesis
    using low_balance_request_served[where reg = "\<lambda>_. True" and now = 0, OF gin_serve_chain c s m e h(1,2)] h(3) by auto
qed

theorem public_full_endpoints_panic_witness:
  "gin_serve [ErrorHandleMiddleware, BackupFullMiddleware, BackupFullCheckMiddleware (Some ''true''),
     FsContextMiddleware demo_conf 3 0 (\<lambda>_. Inr 5) (\<lambda>_. True), send_body] (demo_ctx None) = None"
  by (rule public_full_endpoints_panic[OF gin_serve_chain]) (simp_all add: demo_ctx_def)

theorem download_billed_once_witness:
  "\<exists>c'. gin_serve [DownloadMiddleware demo_conf (\<lambda>_. 4096) (\<lambda>n t. t < 10 * n) ''id'' 9, send_body] (demo_ctx (Some demo_principal)) = Some c'
     \<and> billed (gc_w c') = {#(7, 3)#}"
proof -
  let ?d = "demo_ctx (Some demo_principal)"
  let ?c = "put_reply (Raw ''xyz'') (?d\<lparr>gc_size := 3, gc_fctx := Some (storage_of demo_conf demo_principal)\<rparr>)"
  have a1: "\<not> gc_aborted ?d" by (simp add: demo_ctx_def)
  have a2: "gin_serve [send_body] ?d = Some ?c" using a1 by (simp add: send_body_def put_reply_def)
  have a3: "gc_identity ?c = Some demo_principal" by (simp add: put_reply_def demo_ctx_def)
  have a4: "gc_fctx ?c = Some (storage_of demo_conf demo_principal)" by (simp add: put_reply_def demo_ctx_def)
  note a = a1 a2 a3 a4
  have "Atoi ''-1'' = Some (-1)" by code_simp
  then have b: "Atoi (case gc_query ?c ''storage_id'' of None \<Rightarrow> ''-1'' | Some v \<Rightarrow> v) = Some (-1)"
    by (simp add: put_reply_def demo_ctx_def)
  have "sanitizePath (fc_cs (storage_of demo_conf demo_principal)) (trimLeftP (\<lambda>x. x = CHR ''/'') ''/b'') (-1) = (''/users/alice/b'', None)"
    by code_simp
  then have d: "sanitizePath (fc_cs (storage_of demo_conf demo_principal)) (trimLeftP (\<lambda>x. x = CHR ''/'') (gc_path ?c)) (-1)
      = (''/users/alice/b'', None)" by (simp add: put_reply_def demo_ctx_def)
  have "os_Stat ''/users/alice/b'' demo_fs = Inr (File (demo_meta 3) ''xyz'')" by code_simp
  then have e: "os_Stat ''/users/alice/b'' (mw_fs (gc_w ?c)) = Inr (File (demo_meta 3) ''xyz'')"
    by (simp add: put_reply_def demo_ctx_def demo_world_def)
  have f: "counted_download demo_conf ?c \<and> 0 \<le> gc_size ?c" "billed (gc_w ?c) = {#}" "gc_size ?c = 3" "pr_TenantID demo_principal = 7"
    by (simp_all add: counted_download_def demo_conf_def put_reply_def demo_ctx_def demo_world_def billed_def hasPrefix_def demo_principal_def)
  show ?thesis
    using download_billed_once[where dsz = "\<lambda>_. 4096" and over = "\<lambda>n t. t < 10 * n" and uid = "''id''" and now = 9 and cfg = demo_conf,
        OF gin_serve_chain a b d e] f by auto
qed

end
