(* ===== verification/BackupApi.thy ===== *)
theory BackupApi
  imports Middlewares DefaultProvider FullBackup
begin

text \<open>
  The handlers of \<open>web/routers/backup.go\<close>, over the contexts of theory \<open>Middlewares\<close> and the backup provider of theory
  \<open>DefaultProvider\<close>. The binding of a request is a parameter, the bound request or an error. A goroutine that a handler
  starts is kept in a list; \<open>run_background\<close> is its body. \<open>None\<close> is a panic, or a call that does not return.
\<close>

section \<open>Requests and replies\<close>

record BackupReq =
  br_StorageID :: int
  br_ID :: int
  br_Path :: string

record RestoreReq =
  rs_StorageID :: int
  rs_RestoreID :: int
  rs_BackupID :: int
  rs_Path :: string

datatype api_body =
    GetBackupJobRes int string BackupState u64 u64 string
  | GetRestoreJobRes int int string RestoreState u64 string
  | DestroyedRes bool
  | SafeUpgrade bool
  | Chores "BackupChore list"

datatype background = BgBackup Request | BgRestore int int string

record ('k, 'b, 'r, 'h) aworld = mworld +
  aw_p :: "('k, 'b, 'r) dprov"
  aw_full :: "'k kprov"
  aw_chores :: 'h
  aw_bg :: "background list"

type_synonym ('k, 'b, 'r, 'h) actx = "(api_body, ('k, 'b, 'r, 'h) aworld) gctx"

type_synonym ('k, 'b, 'r, 'h) ahandler = "('k, 'b, 'r, 'h) actx handler"

definition DefaultSuccess :: "api_body reply" where
  "DefaultSuccess = Base 2001 ''success'' None"

text \<open>The handlers do not call \<open>Next\<close>.\<close>

definition finish :: "('k, 'b, 'r, 'h) actx \<Rightarrow> (('k, 'b, 'r, 'h) actx \<times> bool) option" where
  "finish c = Some (c, False)"

definition fail_with :: "gerr \<Rightarrow> ('k, 'b, 'r, 'h) actx \<Rightarrow> (('k, 'b, 'r, 'h) actx \<times> bool) option" where
  "fail_with e c = finish (ctx_error e c)"

definition reply :: "api_body reply \<Rightarrow> ('k, 'b, 'r, 'h) actx \<Rightarrow> (('k, 'b, 'r, 'h) actx \<times> bool) option" where
  "reply r c = finish (put_reply r c)"

definition set_p :: "('k, 'b, 'r) dprov \<Rightarrow> ('k, 'b, 'r, 'h) actx \<Rightarrow> ('k, 'b, 'r, 'h) actx" where
  "set_p d c = c\<lparr>gc_w := (gc_w c)\<lparr>aw_p := d\<rparr>\<rparr>"

text \<open>\<open>getBackupProvider\<close>, \<open>getBackupFullProvider\<close> and \<open>getCloudStorage\<close> panic when the middleware did not run.\<close>

definition getBackupProvider :: "('k, 'b, 'r, 'h) actx \<Rightarrow> ('k, 'b, 'r) dprov option" where
  "getBackupProvider c = (if gc_backup c then Some (aw_p (gc_w c)) else None)"

definition getBackupFullProvider :: "('k, 'b, 'r, 'h) actx \<Rightarrow> 'k kprov option" where
  "getBackupFullProvider c = (if gc_full c then Some (aw_full (gc_w c)) else None)"

definition settled :: "kerr option \<Rightarrow> ('k, 'b, 'r, 'h) actx \<Rightarrow> (('k, 'b, 'r, 'h) actx \<times> bool) option" where
  "settled e c = (case e of Some x \<Rightarrow> fail_with (GStr (err_text x)) c | None \<Rightarrow> reply DefaultSuccess c)"

section \<open>Backups\<close>

definition start_bg :: "background \<Rightarrow> ('k, 'b, 'r, 'h) actx \<Rightarrow> ('k, 'b, 'r, 'h) actx" where
  "start_bg b c = c\<lparr>gc_w := (gc_w c)\<lparr>aw_bg := aw_bg (gc_w c) @ [b]\<rparr>\<rparr>"

definition newBackup :: "gerr + BackupReq \<Rightarrow> ('k, 'b, 'r, 'h) ahandler" where
  "newBackup bound next c = (case bound of
     Inl e \<Rightarrow> fail_with e c
   | Inr req \<Rightarrow> (case (gc_fctx c, gc_identity c) of
       (Some cs, Some p) \<Rightarrow> (case sanitizePath (fc_cs cs) (br_Path req) (br_StorageID req) of
           (absPath, Some e) \<Rightarrow> fail_with (GPath e) c
         | (absPath, None) \<Rightarrow> reply DefaultSuccess
             (start_bg (BgBackup \<lparr>rq_ID = br_ID req, rq_Path = absPath, rq_Username = pr_UserName p\<rparr>) c))
     | _ \<Rightarrow> None))"

definition getBackup :: "'b btab \<Rightarrow> string \<Rightarrow> ('k, 'b, 'r, 'h) ahandler" where
  "getBackup TB param next c = (case Atoi param of
     None \<Rightarrow> fail_with (GStr ''id'') c
   | Some i \<Rightarrow> (case gc_fctx c of
       None \<Rightarrow> None
     | Some cs \<Rightarrow> (case LoadBackup TB i (dp_w (aw_p (gc_w c))) of
         Inl e \<Rightarrow> reply (Base 4001 ''err when load backup'' None) c
       | Inr item \<Rightarrow> reply (Base 2001 ''success'' (Some (GetBackupJobRes (bi_id item) (bi_path item) (bi_state item)
           (bi_ssize item) (bi_msize item) (bi_extra item)))) c)))"

definition cancelBackup :: "'b btab \<Rightarrow> gerr + int \<Rightarrow> ('k, 'b, 'r, 'h) ahandler" where
  "cancelBackup TB bound next c = (case bound of
     Inl e \<Rightarrow> fail_with e c
   | Inr b \<Rightarrow> (case getBackupProvider c of
       None \<Rightarrow> None
     | Some d \<Rightarrow> (case CancelBackup TB b d of (e, d1) \<Rightarrow> settled e (set_p d1 c))))"

definition cancelAllBackup :: "'b btab \<Rightarrow> int \<Rightarrow> (('k, 'b, 'r) dprov \<Rightarrow> ('k, 'b, 'r) dprov) \<Rightarrow> ('k, 'b, 'r, 'h) ahandler" where
  "cancelAllBackup TB now g next c = (case getBackupProvider c of
     None \<Rightarrow> None
   | Some d \<Rightarrow> (case CancelBackups TB now g d of (e, d1) \<Rightarrow> settled e (set_p d1 c)))"

text \<open>The repository, and in full mode that of the full backups too.\<close>

definition destroyBackupRepo :: "'k kopia_ops \<Rightarrow> 'b btab \<Rightarrow> 'r rtab \<Rightarrow> int \<Rightarrow> (('k, 'b, 'r) dprov \<Rightarrow> ('k, 'b, 'r) dprov) \<Rightarrow>
    string option \<Rightarrow> ('k, 'b, 'r, 'h) ahandler" where
  "destroyBackupRepo X TB TR now g fullmode next c = (case getBackupProvider c of
     None \<Rightarrow> None
   | Some d \<Rightarrow> (case DDestroyBackendRepo X TB TR now g d of
       (KPanic m, d1) \<Rightarrow> None
     | (KErr e, d1) \<Rightarrow> fail_with (GStr (err_text e)) (set_p d1 c)
     | (KOk, d1) \<Rightarrow>
         if fullmode \<noteq> Some ''true'' then reply DefaultSuccess (set_p d1 c)
         else (case getBackupFullProvider (set_p d1 c) of
             None \<Rightarrow> None
           | Some p \<Rightarrow> (case DestroyBackendRepo X p of
               (KPanic m, p1) \<Rightarrow> None
             | (KErr e, p1) \<Rightarrow> fail_with (GStr (err_text e)) ((set_p d1 c)\<lparr>gc_w := (gc_w (set_p d1 c))\<lparr>aw_full := p1\<rparr>\<rparr>)
             | (KOk, p1) \<Rightarrow> reply DefaultSuccess ((set_p d1 c)\<lparr>gc_w := (gc_w (set_p d1 c))\<lparr>aw_full := p1\<rparr>\<rparr>)))))"

definition deleteBackup :: "'k kopia_ops \<Rightarrow> 'k job_ops \<Rightarrow> 'b btab \<Rightarrow> 'r rtab \<Rightarrow> ('k kprov \<Rightarrow> 'k kprov) list \<Rightarrow> string \<Rightarrow>
    ('k, 'b, 'r, 'h) ahandler" where
  "deleteBackup X J TB TR env param next c = (case Atoi param of
     None \<Rightarrow> fail_with (GStr ''id'') c
   | Some b \<Rightarrow> (case getBackupProvider c of
       None \<Rightarrow> None
     | Some d \<Rightarrow> (case DDeleteBackup X J TB TR env b d of
         (JRet e, d1) \<Rightarrow> settled e (set_p d1 c)
       | _ \<Rightarrow> None)))"

section \<open>Restores\<close>

definition newRestore :: "gerr + RestoreReq \<Rightarrow> ('k, 'b, 'r, 'h) ahandler" where
  "newRestore bound next c = (case bound of
     Inl e \<Rightarrow> fail_with e c
   | Inr req \<Rightarrow> (case gc_fctx c of
       None \<Rightarrow> None
     | Some cs \<Rightarrow> (case sanitizePath (fc_cs cs) (rs_Path req) (rs_StorageID req) of
           (dstPath, Some e) \<Rightarrow> fail_with (GPath e) c
         | (dstPath, None) \<Rightarrow> reply DefaultSuccess (start_bg (BgRestore (rs_RestoreID req) (rs_BackupID req) dstPath) c))))"

definition getRestore :: "'r rtab \<Rightarrow> string \<Rightarrow> ('k, 'b, 'r, 'h) ahandler" where
  "getRestore TR param next c = (case Atoi param of
     None \<Rightarrow> fail_with (GStr ''id'') c
   | Some i \<Rightarrow> (case gc_fctx c of
       None \<Rightarrow> None
     | Some cs \<Rightarrow> (case LoadRestore TR i (dp_w (aw_p (gc_w c))) of
         Inl e \<Rightarrow> reply (Base 4001 ''err when load restore'' None) c
       | Inr item \<Rightarrow> reply (Base 2001 ''success'' (Some (GetRestoreJobRes (ri_id item) (ri_backup item) (ri_dst item)
           (ri_state item) (ri_size item) (ri_extra item)))) c)))"

definition cancelRestore :: "'r rtab \<Rightarrow> gerr + int \<Rightarrow> ('k, 'b, 'r, 'h) ahandler" where
  "cancelRestore TR bound next c = (case bound of
     Inl e \<Rightarrow> fail_with e c
   | Inr r \<Rightarrow> (case getBackupProvider c of
       None \<Rightarrow> None
     | Some d \<Rightarrow> (case CancelRestore TR r d of (e, d1) \<Rightarrow> settled e (set_p d1 c))))"

definition cancelAllRestores :: "'r rtab \<Rightarrow> int \<Rightarrow> (('k, 'b, 'r) dprov \<Rightarrow> ('k, 'b, 'r) dprov) \<Rightarrow> ('k, 'b, 'r, 'h) ahandler" where
  "cancelAllRestores TR now g next c = (case getBackupProvider c of
     None \<Rightarrow> None
   | Some d \<Rightarrow> (case CancelRestores TR now g d of (e, d1) \<Rightarrow> settled e (set_p d1 c)))"

definition isBackupProviderDestroyed :: "('k, 'b, 'r, 'h) ahandler" where
  "isBackupProviderDestroyed next c = (case getBackupProvider c of
     None \<Rightarrow> None
   | Some d \<Rightarrow> reply (Base 2001 ''success'' (Some (DestroyedRes (kp_state (dp_k d) = ProviderDestroyed)))) c)"

definition isSafeMaintain :: "('k, 'b, 'r, 'h) ahandler" where
  "isSafeMaintain next c = (case getBackupProvider c of
     None \<Rightarrow> None
   | Some d \<Rightarrow> reply (Raw (SafeUpgrade (IsSafeMaintain (kp_stat (dp_k d))))) c)"

section \<open>Full backups\<close>

text \<open>Without a chore the handler replies, goes on, and uses the chore all the same.\<close>

definition fullRestore :: "'k kopia_ops \<Rightarrow> 'k job_ops \<Rightarrow> 'h htab \<Rightarrow> ('k kprov \<Rightarrow> 'k kprov) list \<Rightarrow> ('k, 'b, 'r, 'h) ahandler" where
  "fullRestore X J TH env next c =
     (let dst = (case gc_query c ''dst'' of None \<Rightarrow> ''/mnt/restore'' | Some v \<Rightarrow> v) in
      case gc_fctx c of
        None \<Rightarrow> None
      | Some cs \<Rightarrow> (case QueryLatestChore TH (aw_chores (gc_w c)) of
          None \<Rightarrow> None
        | Some chore \<Rightarrow> (case getBackupFullProvider c of
            None \<Rightarrow> None
          | Some p \<Rightarrow> (case RestoreLatest X J env (ToTags chore) dst p of
              (JRet None, p1) \<Rightarrow> reply DefaultSuccess (c\<lparr>gc_w := (gc_w c)\<lparr>aw_full := p1\<rparr>\<rparr>)
            | (JRet (Some e), p1) \<Rightarrow> reply (Base 4001 ''err restore latest'' None) (c\<lparr>gc_w := (gc_w c)\<lparr>aw_full := p1\<rparr>\<rparr>)
            | _ \<Rightarrow> None))))"

text \<open>The field of the argument is not exported, so the binding leaves it 0.\<close>

definition fullAck :: "'h htab \<Rightarrow> int \<Rightarrow> gerr option \<Rightarrow> ('k, 'b, 'r, 'h) ahandler" where
  "fullAck TH now binding next c = (case binding of
     Some e \<Rightarrow> fail_with e c
   | None \<Rightarrow> (case gc_fctx c of
       None \<Rightarrow> None
     | Some cs \<Rightarrow> (case ChgBChoreState TH now 0 ChoreStateACKED (aw_chores (gc_w c)) of
         (ok, h) \<Rightarrow> let c1 = c\<lparr>gc_w := (gc_w c)\<lparr>aw_chores := h\<rparr>\<rparr> in
           if ok then reply DefaultSuccess c1 else fail_with (GStr ''database'') c1)))"

text \<open>The query compares the time of creation, a text, with a number; what it finds is a parameter.\<close>

definition fullQuery :: "(u64 \<Rightarrow> 'h \<Rightarrow> BackupChore list) \<Rightarrow> string \<Rightarrow> ('k, 'b, 'r, 'h) ahandler" where
  "fullQuery QueryBChore tomorrow next c =
     (case Atoi (case gc_query c ''start'' of None \<Rightarrow> tomorrow | Some v \<Rightarrow> v) of
        None \<Rightarrow> reply (Base 4001 ''INVALID START param'' None) c
      | Some start \<Rightarrow> (case gc_fctx c of
          None \<Rightarrow> None
        | Some cs \<Rightarrow> reply (Raw (Chores (QueryBChore (word_of_int start) (aw_chores (gc_w c))))) c))"

section \<open>The goroutines\<close>

text \<open>
  One round of a goroutine that \<open>newBackup\<close> or \<open>newRestore\<close> has started: the first one, or one after it was woken from
  the wait for the lock. The provider is taken from the context when the goroutine runs.
\<close>

datatype bg_out = BgDone "kerr option" | BgWaiting | BgStuck

definition bg_end :: "'a jout \<Rightarrow> ('a \<Rightarrow> kerr option) \<Rightarrow> 'd \<Rightarrow> (bg_out \<times> 'd) option" where
  "bg_end out err d = (case out of JRet x \<Rightarrow> Some (BgDone (err x), d) | JBlocked \<Rightarrow> Some (BgStuck, d) | JPanic m \<Rightarrow> None)"

definition background_backup :: "'k kopia_ops \<Rightarrow> 'k job_ops \<Rightarrow> 'b btab \<Rightarrow> 'r rtab \<Rightarrow> ('k kprov \<Rightarrow> 'k kprov) list \<Rightarrow> int \<Rightarrow> int \<Rightarrow>
    bool \<Rightarrow> select_res \<Rightarrow> bool \<Rightarrow> Request \<Rightarrow> ('k, 'b, 'r) dprov \<Rightarrow> (bg_out \<times> ('k, 'b, 'r) dprov) option" where
  "background_backup X J TB TR env t0 t1 over sel woken q d =
     (case (if woken then backup_resume TB t0 over q d else backup_enter TB t0 over q d) of
        (ERet e, d1) \<Rightarrow> Some (BgDone (Some e), d1)
      | (EWait, d1) \<Rightarrow> Some (BgWaiting, d1)
      | (EGo, d1) \<Rightarrow> (case backup_run X J TB TR env t0 t1 sel woken q d1 of (out, d2) \<Rightarrow> bg_end out snd d2))"

definition background_restore :: "'k kopia_ops \<Rightarrow> 'k job_ops \<Rightarrow> 'b btab \<Rightarrow> 'r rtab \<Rightarrow> ('k kprov \<Rightarrow> 'k kprov) list \<Rightarrow> int \<Rightarrow> int \<Rightarrow>
    bool \<Rightarrow> select_res \<Rightarrow> bool \<Rightarrow> RestoreRequest \<Rightarrow> ('k, 'b, 'r) dprov \<Rightarrow> (bg_out \<times> ('k, 'b, 'r) dprov) option" where
  "background_restore X J TB TR env t0 t1 over sel woken q d =
     (case (if woken then restore_resume TB TR t0 over q d else restore_enter TB TR t0 over q d) of
        (RRet e, d1) \<Rightarrow> Some (BgDone e, d1)
      | (RWait, d1) \<Rightarrow> Some (BgWaiting, d1)
      | (RGo, d1) \<Rightarrow> (case restore_run X J TB TR env t0 t1 sel woken q d1 of (out, d2) \<Rightarrow> bg_end out (\<lambda>e. e) d2))"

definition run_background :: "'k kopia_ops \<Rightarrow> 'k job_ops \<Rightarrow> 'b btab \<Rightarrow> 'r rtab \<Rightarrow> ('k kprov \<Rightarrow> 'k kprov) list \<Rightarrow> int \<Rightarrow> int \<Rightarrow>
    bool \<Rightarrow> select_res \<Rightarrow> bool \<Rightarrow> background \<Rightarrow> ('k, 'b, 'r, 'h) actx \<Rightarrow> (bg_out \<times> ('k, 'b, 'r, 'h) actx) option" where
  "run_background X J TB TR env t0 t1 over sel woken b c = (case getBackupProvider c of
     None \<Rightarrow> None
   | Some d \<Rightarrow> map_option (map_prod id (\<lambda>d1. set_p d1 c)) (case b of
        BgBackup q \<Rightarrow> background_backup X J TB TR env t0 t1 over sel woken q d
      | BgRestore r k dst \<Rightarrow> background_restore X J TB TR env t0 t1 over sel woken
          \<lparr>rr_BackupID = k, rr_RestoreID = r, rr_Dst = dst\<rparr> d))"

section \<open>What a request starts\<close>

definition bg_path :: "background \<Rightarrow> string" where
  "bg_path b = (case b of BgBackup q \<Rightarrow> rq_Path q | BgRestore r k dst \<Rightarrow> dst)"

lemma newBackup_starts:
  assumes cs: "gc_fctx c = Some cs" and r: "rooted (guard_root (fc_cs cs) (br_StorageID req))"
    and h: "newBackup (Inr req) next c = Some (c1, nx)"
  shows "(\<exists>e. c1 = ctx_error e c) \<or> (\<exists>q. c1 = put_reply DefaultSuccess (start_bg (BgBackup q) c) \<and> rq_ID q = br_ID req
     \<and> inside (guard_root (fc_cs cs) (br_StorageID req)) (rq_Path q))"
proof -
  obtain p where p: "gc_identity c = Some p" using h cs by (auto simp: newBackup_def split: option.splits)
  obtain a o' where s: "sanitizePath (fc_cs cs) (br_Path req) (br_StorageID req) = (a, o')" by fastforce
  show ?thesis
  proof (cases o')
    case None
    have "inside (guard_root (fc_cs cs) (br_StorageID req)) a" by (rule sanitized_inside[OF r s[unfolded None]])
    then show ?thesis using h cs p s None by (auto simp: newBackup_def reply_def finish_def)
  next
    case (Some e)
    then show ?thesis using h cs p s by (auto simp: newBackup_def fail_with_def finish_def)
  qed
qed

lemma newRestore_starts:
  assumes cs: "gc_fctx c = Some cs" and r: "rooted (guard_root (fc_cs cs) (rs_StorageID req))"
    and h: "newRestore (Inr req) next c = Some (c1, nx)"
  shows "(\<exists>e. c1 = ctx_error e c) \<or> (\<exists>dst. c1 = put_reply DefaultSuccess
       (start_bg (BgRestore (rs_RestoreID req) (rs_BackupID req) dst) c)
     \<and> inside (guard_root (fc_cs cs) (rs_StorageID req)) dst)"
proof -
  obtain a o' where s: "sanitizePath (fc_cs cs) (rs_Path req) (rs_StorageID req) = (a, o')" by fastforce
  show ?thesis
  proof (cases o')
    case None
    have "inside (guard_root (fc_cs cs) (rs_StorageID req)) a" by (rule sanitized_inside[OF r s[unfolded None]])
    then show ?thesis using h cs s None by (auto simp: newRestore_def reply_def finish_def)
  next
    case (Some e)
    then show ?thesis using h cs s by (auto simp: newRestore_def fail_with_def finish_def)
  qed
qed

section \<open>Numbers in paths\<close>

lemma digit_char_value: "n < 10 \<Longrightarrow> is_digit (digit_char n) \<and> of_char (digit_char n) = 48 + n"
  by (simp add: digit_char_def is_digit_def)

lemma show_nat_digits: "list_all is_digit (show_nat n) \<and> digits_value (show_nat n) = n"
proof (induction n rule: show_nat.induct)
  case (1 n)
  show ?case
  proof (cases "n < 10")
    case True
    then show ?thesis using digit_char_value[OF True] by (subst (1 2) show_nat.simps) (simp add: digits_value_def)
  next
    case False
    have "is_digit (digit_char (n mod 10)) \<and> of_char (digit_char (n mod 10)) = 48 + n mod 10"
      by (rule digit_char_value) simp
    then show ?thesis using 1 False by (subst (1 2) show_nat.simps) (simp add: digits_value_def)
  qed
qed

lemma not_digit_sign: "\<not> is_digit (CHR ''-'')" "\<not> is_digit (CHR ''+'')"
  by (simp_all add: is_digit_def)

lemma Atoi_show_int: "- (2 ^ 63) \<le> i \<Longrightarrow> i < 2 ^ 63 \<Longrightarrow> Atoi (show_int i) = Some i"
proof (cases "i < 0")
  case True
  assume "- (2 ^ 63) \<le> i" "i < 2 ^ 63"
  then show ?thesis using True show_nat_digits[of "nat (- i)"] by (simp add: Atoi_def show_int_def hasPrefix_def)
next
  case False
  assume a: "- (2 ^ 63) \<le> i" "i < 2 ^ 63"
  obtain x xs where x: "show_nat (nat i) = x # xs" using show_nat_not_Nil[of "nat i"] by (meson neq_Nil_conv)
  have "is_digit x" using show_nat_digits[of "nat i"] x by simp
  then have "x \<noteq> CHR ''-''" "x \<noteq> CHR ''+''" using not_digit_sign by auto
  then show ?thesis using False a show_nat_digits[of "nat i"] x by (simp add: Atoi_def show_int_def hasPrefix_def)
qed

lemma backup_enter_go: "backup_enter TB t0 over q d = (EGo, d1) \<Longrightarrow> dp_w d1 = dp_w d"
proof -
  assume e: "backup_enter TB t0 over q d = (EGo, d1)"
  let ?ops = "backup_ops TB t0 (err_text ECanceled)"
  show ?thesis
  proof (cases "dp_throttled d")
    case True
    obtain r th where r: "tryLock_enter ?ops over q ((dp_b d)\<lparr>th_w := dp_w d, th_stat := kp_stat (dp_k d)\<rparr>) = (r, th)"
      by fastforce
    have "r = Locked" "dp_w d1 = th_w th"
      using e r True by (cases r; auto simp: backup_enter_def on_b_def lock_out_def Let_def split: if_splits)+
    then show ?thesis using r by (auto simp: tryLock_enter_def elim!: lock_round_cases split: if_splits)
  next
    case False
    then show ?thesis using e by (auto simp: backup_enter_def split: if_splits)
  qed
qed

section \<open>Requests stay in their storage\<close>



section \<open>Examples\<close>

definition api_world :: "(toy, BackupItem list, RestoreItem list, unit) aworld" where
  "api_world = \<lparr>mw_fs = demo_fs, mw_up = [], mw_down = [], mw_samplers = {}, mw_jobs = [], mw_dls = [],
     aw_p = toy_d, aw_full = toy_running, aw_chores = (), aw_bg = []\<rparr>"

definition api_ctx :: "(toy, BackupItem list, RestoreItem list, unit) actx" where
  "api_ctx = \<lparr>gc_uri = ''/fa/api/v0/backup'', gc_method = ''POST'', gc_action = [], gc_path = [], gc_query = (\<lambda>_. None),
     gc_ip = ''10.0.0.1'', gc_length = 0, gc_identity = Some demo_principal, gc_start = None,
     gc_fctx = Some \<lparr>fc_cs = example_cs, fc_uid = 1000, fc_gid = 1000\<rparr>, gc_backup = True, gc_full = False,
     gc_errors = [], gc_aborted = False, gc_out = [], gc_size = -1, gc_w = api_world\<rparr>"

definition api_req :: BackupReq where
  "api_req = \<lparr>br_StorageID = -1, br_ID = 1, br_Path = ''x/../d''\<rparr>"

definition api_job :: Request where
  "api_job = \<lparr>rq_ID = 1, rq_Path = ''/ec/users/al/d'', rq_Username = ''alice''\<rparr>"

definition api_accepted :: "(toy, BackupItem list, RestoreItem list, unit) actx" where
  "api_accepted = put_reply DefaultSuccess (start_bg (BgBackup api_job) api_ctx)"

lemma api_newBackup: "newBackup (Inr api_req) Some api_ctx = Some (api_accepted, False)"
proof -
  have "sanitizePath example_cs ''x/../d'' (-1) = (''/ec/users/al/d'', None)" by code_simp
  then show ?thesis
    by (simp add: newBackup_def api_ctx_def api_req_def api_accepted_def api_job_def reply_def finish_def demo_principal_def)
qed

lemma api_rooted: "rooted (guard_root (fc_cs \<lparr>fc_cs = example_cs, fc_uid = 1000, fc_gid = 1000\<rparr>) i)"
  by (simp add: guard_root_def example_cs_def rooted_Cons)


lemma api_run:
  "\<exists>d1 si d2. backup_enter LB 5 False api_job toy_d = (EGo, d1)
     \<and> backup_run toy_ops toy_jobs LB LR [] 5 6 SelDone False api_job d1 = (JRet (si, None), d2)"
proof -
  define en where "en = backup_enter LB 5 False api_job toy_d"
  define ru where "ru = backup_run toy_ops toy_jobs LB LR [] 5 6 SelDone False api_job (snd en)"
  have "fst (backup_enter LB 5 False api_job toy_d) = EGo" by code_simp
  then have e: "en = (EGo, snd en)" by (simp add: en_def[symmetric] prod_eq_iff)
  have "(case fst (backup_run toy_ops toy_jobs LB LR [] 5 6 SelDone False api_job (snd (backup_enter LB 5 False api_job toy_d))) of
      JRet (si, None) \<Rightarrow> True | _ \<Rightarrow> False)" by code_simp
  then have "case fst ru of JRet (si, None) \<Rightarrow> True | _ \<Rightarrow> False" by (simp only: ru_def en_def)
  then obtain si where "fst ru = JRet (si, None)" by (auto split: jout.splits prod.splits option.splits)
  then have r: "ru = (JRet (si, None), snd ru)" by (simp add: prod_eq_iff)
  show ?thesis using e r unfolding en_def[symmetric] by (metis ru_def)
qed


end
