(* ===== verification/UploadApi.thy ===== *)
theory UploadApi
  imports FileSafety Uploader
begin

text \<open>
  The upload handlers of \<open>web/routers/uploader.go\<close> around the operations of theory \<open>Uploader\<close>: the check of the path, and the
  upload of a small file in one request. The three multipart handlers work on the upload tables and on the regular files by
  path, as \<open>Uploader\<close> does; \<open>uploadSmall\<close> works on the file system of theory \<open>FileSys\<close>, with gin's \<open>SaveUploadedFile\<close> as
  a parameter. The audit events are not modelled.
\<close>

section \<open>The multipart handlers\<close>

record CreateMultipartReq =
  cm_StorageID :: int
  cm_Key :: string
  cm_Size :: u64
  cm_ChunkSize :: u64

record PartReq =
  pr_Token :: string
  pr_Index :: u64
  pr_MD5 :: string

record CompletePartReq =
  cq_StorageID :: int
  cq_Key :: string
  cq_Parts :: "Part list"

datatype upload_fail = UPath path_error | UErr up_error

definition createMulitpartUpload :: "'u utab \<Rightarrow> 'p ptab \<Rightarrow> string \<Rightarrow> string \<Rightarrow> int \<Rightarrow> cloudStorage \<Rightarrow> CreateMultipartReq \<Rightarrow>
    ('u, 'p) uworld \<Rightarrow> (upload_fail + InitPartResponse) \<times> ('u, 'p) uworld" where
  "createMulitpartUpload TU TP tok1 tok2 now cs req w =
     (case sanitizePath cs (cm_Key req) (cm_StorageID req) of
        (path, Some e) \<Rightarrow> (Inl (UPath e), w)
      | (path, None) \<Rightarrow> map_prod (map_sum UErr id) id
          (initMultipartUpload TU TP tok1 tok2 now path (cm_Size req) (cm_ChunkSize req) (cm_StorageID req) w))"

definition uploadPart_handler :: "(bytes \<Rightarrow> bytes) \<Rightarrow> (string \<Rightarrow> bool) \<Rightarrow> 'u utab \<Rightarrow> 'p ptab \<Rightarrow> cloudStorage \<Rightarrow> PartReq \<Rightarrow> src \<Rightarrow>
    ('u, 'p) uworld \<Rightarrow> (upload_fail + Part) \<times> ('u, 'p) uworld" where
  "uploadPart_handler md5 denied TU TP cs req body w = map_prod (map_sum UErr id) id
     (uploadPart md5 denied cs TU TP (pr_Token req) (pr_Index req) (pr_MD5 req) body w)"

definition completeMultipartUpload :: "(bytes \<Rightarrow> bytes) \<Rightarrow> (string \<Rightarrow> bool) \<Rightarrow> 'u utab \<Rightarrow> 'p ptab \<Rightarrow> cloudStorage \<Rightarrow>
    CompletePartReq \<Rightarrow> ('u, 'p) uworld \<Rightarrow> (upload_fail + string) \<times> ('u, 'p) uworld" where
  "completeMultipartUpload md5 denied TU TP cs req w =
     (case sanitizePath cs (cq_Key req) (cq_StorageID req) of
        (path, Some e) \<Rightarrow> (Inl (UPath e), w)
      | (path, None) \<Rightarrow> map_prod (map_sum UErr id) id (completePart md5 denied TU TP path (cq_Parts req) w))"

section \<open>Small files\<close>

text \<open>
  \<open>form\<close> is the body of the form field, or \<open>None\<close> when the form has none; its absence is noticed by \<open>SaveUploadedFile\<close>
  only, as a \<open>nil\<close> dereference. \<open>mtime\<close> is the parsed header \<open>X-Last-Modified\<close>.
\<close>

datatype small_res = SPanic | SBadId | SPath path_error | SFail ferr | SOk string string

definition uploadSmall :: "(string \<Rightarrow> string \<Rightarrow> ferr eff) \<Rightarrow> fctx \<Rightarrow> string \<Rightarrow> string option \<Rightarrow> string option \<Rightarrow> int option \<Rightarrow> fsys \<Rightarrow>
    small_res \<times> fsys" where
  "uploadSmall save c key storage_id form mtime s =
     (let rel = clean key in
      case Atoi (case storage_id of None \<Rightarrow> ''-1'' | Some v \<Rightarrow> v) of
        None \<Rightarrow> (SBadId, s)
      | Some storageID \<Rightarrow>
          (case sanitizePath (fc_cs c) rel storageID of
             (key, Some e) \<Rightarrow> (SPath e, s)
           | (key, None) \<Rightarrow>
               (case IoTools.EnsureOwnFileR key (rootPath (fc_cs c) storageID) (fc_uid c) (fc_gid c) s of
                  (Some e, s1) \<Rightarrow> (SFail e, s1)
                | (None, s1) \<Rightarrow>
                    (case form of
                       None \<Rightarrow> (SPanic, s1)
                     | Some body \<Rightarrow>
                         (case save body key s1 of
                            (Some e, s2) \<Rightarrow> (SFail e, s2)
                          | (None, s2) \<Rightarrow> (SOk rel (split_file rel),
                              case mtime of None \<Rightarrow> s2 | Some t \<Rightarrow> snd (Chtimes key t s2)))))))"

text \<open>
  What gin documents of \<open>SaveUploadedFile\<close>: it uploads the form file to the given destination. So when it succeeds the
  file has the bytes of the form, and nothing beside the destination changes. Links are left out of the account.
\<close>

definition saves :: "(string \<Rightarrow> string \<Rightarrow> ferr eff) \<Rightarrow> bool" where
  "saves save \<longleftrightarrow> (\<forall>body p s Rs. within Rs p \<longrightarrow> inside_only Rs s (snd (save body p s)))
     \<and> (\<forall>body p s s'. rooted p \<longrightarrow> link_free (fs_root s) \<longrightarrow> save body p s = (None, s') \<longrightarrow>
          (\<exists>m. node_at (fs_root s') (psegs p) = Some (File m body)))"

lemma saves_inside: "saves save \<Longrightarrow> within Rs p \<Longrightarrow> inside_only Rs s (snd (save body p s))"
  by (simp add: saves_def)

lemma saves_content: "saves save \<Longrightarrow> rooted p \<Longrightarrow> link_free (fs_root s) \<Longrightarrow> save body p s = (None, s') \<Longrightarrow>
    \<exists>m. node_at (fs_root s') (psegs p) = Some (File m body)"
  unfolding saves_def by blast

lemma node_at_parent: "node_at t q = Some n \<Longrightarrow> q \<noteq> [] \<Longrightarrow> \<exists>m ch. node_at t (butlast q) = Some (Dir m ch)"
proof -
  assume a: "node_at t q = Some n" "q \<noteq> []"
  have "q = butlast q @ [last q]" using a(2) by simp
  then have "node_at t (butlast q @ [last q]) = Some n" using a(1) by simp
  then show ?thesis by (cases "node_at t (butlast q)") (auto simp: node_at_append elim: node_at.elims)
qed

lemma change_content:
  assumes l: "link_free (fs_root s)" and r: "rooted p" and n: "node_at (fs_root s) (psegs p) = Some (File m body)"
  shows "\<exists>m. node_at (fs_root (snd (change fl op f p s))) (psegs p) = Some (File m body)"
proof (cases "at_path fl op p s")
  case (Inr qn)
  then have q: "fst qn = psegs p" using at_path_lexical [OF l r] by (metis prod.collapse)
  have c: "snd (change fl op f p s) = on_root (alter (psegs p) (map_option (set_meta f))) s"
    using Inr q by (auto simp: change_def split: prod.splits)
  show ?thesis
  proof (cases "psegs p = []")
    case True
    then show ?thesis using n unfolding c by (cases "fs_root s") (auto simp: on_root_def)
  next
    case False
    obtain m' ch where d: "node_at (fs_root s) (butlast (psegs p)) = Some (Dir m' ch)" using node_at_parent[OF n False] by blast
    show ?thesis using node_at_alter_at[OF False d, of "map_option (set_meta f)"] n unfolding c by (auto simp: on_root_def)
  qed
qed (use n in \<open>simp add: change_def\<close>)

lemma Chtimes_inside: "within Rs p \<Longrightarrow> inside_only Rs s (snd (Chtimes p t s))"
  by (auto simp: Chtimes_def statThen_def os_Chtimes_def intro: change_inside split: sum.split)

lemma Chtimes_content:
  "link_free (fs_root s) \<Longrightarrow> rooted p \<Longrightarrow> node_at (fs_root s) (psegs p) = Some (File m body) \<Longrightarrow>
    \<exists>m. node_at (fs_root (snd (Chtimes p t s))) (psegs p) = Some (File m body)"
  using change_content[of s p m body] by (auto simp: Chtimes_def statThen_def os_Chtimes_def split: sum.split)


section \<open>Whose files the multipart uploads touch\<close>

datatype upload_call =
    CallCreate string string int CreateMultipartReq
  | CallPart PartReq src
  | CallComplete CompletePartReq
  | CallScavenge int

fun serve_upload :: "(bytes \<Rightarrow> bytes) \<Rightarrow> (string \<Rightarrow> bool) \<Rightarrow> 'u utab \<Rightarrow> 'p ptab \<Rightarrow> cloudStorage \<times> upload_call \<Rightarrow>
    ('u, 'p) uworld \<Rightarrow> ('u, 'p) uworld" where
  "serve_upload md5 denied TU TP (cs, CallCreate tok1 tok2 now req) w = snd (createMulitpartUpload TU TP tok1 tok2 now cs req w)"
| "serve_upload md5 denied TU TP (cs, CallPart req body) w = snd (uploadPart_handler md5 denied TU TP cs req body w)"
| "serve_upload md5 denied TU TP (cs, CallComplete req) w = snd (completeMultipartUpload md5 denied TU TP cs req w)"
| "serve_upload md5 denied TU TP (cs, CallScavenge now) w = ScavengeUpload TU TP now w"

definition allowed_key :: "cloudStorage list \<Rightarrow> string \<Rightarrow> bool" where
  "allowed_key CS k \<longleftrightarrow> (\<exists>cs\<in>set CS. \<exists>sid. inside (guard_root cs sid) k)"

definition touchable :: "cloudStorage list \<Rightarrow> string \<Rightarrow> bool" where
  "touchable CS p \<longleftrightarrow> (\<exists>k. allowed_key CS k \<and> (p = k \<or> p = tmp_name k))"

text \<open>Every upload has an allowed key, and its temporary name is made of that key.\<close>

definition uploads_ok :: "cloudStorage list \<Rightarrow> 'u utab \<Rightarrow> ('u, 'p) uworld \<Rightarrow> bool" where
  "uploads_ok CS TU w \<longleftrightarrow> (\<forall>u\<in>set (rows TU (uw_ups w)). allowed_key CS (up_key u) \<and> up_tmp u = tmp_name (up_key u))"

definition step_ok :: "cloudStorage list \<Rightarrow> 'u utab \<Rightarrow> ('u, 'p) uworld \<Rightarrow> ('u, 'p) uworld \<Rightarrow> bool" where
  "step_ok CS TU w w' \<longleftrightarrow> uploads_ok CS TU w \<longrightarrow>
     uploads_ok CS TU w' \<and> (\<forall>p. \<not> touchable CS p \<longrightarrow> uw_fs w' p = uw_fs w p)"

lemma step_ok_refl [simp]: "step_ok CS TU w w"
  by (simp add: step_ok_def)

lemma step_ok_trans: "step_ok CS TU w w1 \<Longrightarrow> step_ok CS TU w1 w2 \<Longrightarrow> step_ok CS TU w w2"
  unfolding step_ok_def by metis

lemma step_ok_pts [simp]: "step_ok CS TU w (w\<lparr>uw_pts := t\<rparr>)"
  by (simp add: step_ok_def uploads_ok_def)

lemma step_ok_fs:
  assumes "\<And>p. uploads_ok CS TU w \<Longrightarrow> \<not> touchable CS p \<Longrightarrow> f p = uw_fs w p"
  shows "step_ok CS TU w (w\<lparr>uw_fs := f\<rparr>)"
  using assms by (simp add: step_ok_def uploads_ok_def)

lemma uploads_okD: "uploads_ok CS TU w \<Longrightarrow> u \<in> set (rows TU (uw_ups w)) \<Longrightarrow>
    touchable CS (up_key u) \<and> touchable CS (up_tmp u)"
  unfolding uploads_ok_def touchable_def by blast

lemma step_ok_ups:
  assumes "\<And>x. x \<in> set (rows TU t) \<Longrightarrow> \<exists>y\<in>set (rows TU (uw_ups w)). up_key x = up_key y \<and> up_tmp x = up_tmp y"
  shows "step_ok CS TU w (w\<lparr>uw_ups := t\<rparr>)"
  using assms unfolding step_ok_def uploads_ok_def by (metis (no_types, lifting) uworld.select_convs(1,2) uworld.surjective uworld.update_convs(2))

lemma InitUpload_step:
  assumes TU: "table_ok TU upload_schema" and k: "allowed_key CS key"
  shows "step_ok CS TU w (snd (InitUpload TU tok now key sz ch sid w))"
proof (cases "find1 TU (\<lambda>u. up_key u = key) (uw_ups w)")
  case None
  let ?r = "\<lparr> up_id = 0, up_created = now, up_token = tok, up_key = key, up_tmp = tmp_name key, up_storage = sid, up_size = sz,
      up_chunk = ch, up_md5 = [], up_state = RUNNING \<rparr>"
  show ?thesis
  proof (cases "t_create TU ?r (uw_ups w)")
    case (Some t)
    obtain i where "rows TU t = rows TU (uw_ups w) @ [s_set_id upload_schema i ?r]"
      using t_create_Some[OF TU Some] by blast
    then show ?thesis using None Some k by (auto simp: InitUpload_def step_ok_def uploads_ok_def)
  qed (use None in \<open>simp add: InitUpload_def\<close>)
qed (simp add: InitUpload_def)

lemma delete_rows_step:
  assumes TU: "table_ok TU upload_schema" and d: "t_delete TU P (uw_ups w) = Some t"
  shows "step_ok CS TU w (w\<lparr>uw_ups := t\<rparr>)"
proof -
  have "rows TU t = filter (\<lambda>x. \<not> P x) (rows TU (uw_ups w))" using t_delete_rows[OF TU, of P "uw_ups w"] d by auto
  then show ?thesis by (intro step_ok_ups) auto
qed

lemma remove_tmp_step: "u \<in> set (rows TU (uw_ups w)) \<Longrightarrow> step_ok CS TU w (w\<lparr>uw_fs := (uw_fs w)(up_tmp u := None)\<rparr>)"
  by (rule step_ok_fs) (auto dest: uploads_okD)

lemma DestroyUploadByToken_step:
  assumes TU: "table_ok TU upload_schema"
  shows "step_ok CS TU w (snd (DestroyUploadByToken TU TP token w))"
proof (cases "t_delete TP (\<lambda>p. pt_token p = token) (uw_pts w)")
  case (Some pts)
  let ?w0 = "w\<lparr>uw_pts := pts\<rparr>"
  show ?thesis
  proof (cases "find1 TU (\<lambda>u. up_token u = token) (uw_ups w)")
    case S: (Some u)
    have u: "u \<in> set (rows TU (uw_ups ?w0))" using find1_Some[OF TU S] by simp
    let ?w1 = "?w0\<lparr>uw_fs := (uw_fs ?w0)(up_tmp u := None)\<rparr>"
    have a: "step_ok CS TU w ?w1" by (rule step_ok_trans[OF step_ok_pts[of CS TU w pts] remove_tmp_step[OF u]])
    show ?thesis
    proof (cases "t_delete TU (\<lambda>x. up_id x = up_id u) (uw_ups w)")
      case None
      then show ?thesis using a Some S by (simp add: DestroyUploadByToken_def Let_def)
    next
      case D: (Some t)
      have "t_delete TU (\<lambda>x. up_id x = up_id u) (uw_ups ?w1) = Some t" using D by simp
      then have "step_ok CS TU ?w1 (?w1\<lparr>uw_ups := t\<rparr>)" by (rule delete_rows_step[OF TU])
      then show ?thesis using step_ok_trans[OF a] Some S D by (simp add: DestroyUploadByToken_def Let_def)
    qed
  qed (use Some in \<open>simp add: DestroyUploadByToken_def\<close>)
qed (simp add: DestroyUploadByToken_def)

lemma scavenge_one_step:
  assumes TU: "table_ok TU upload_schema" and u: "touchable CS (up_tmp u)"
  shows "step_ok CS TU w (scavenge_one TU TP u w)"
proof -
  let ?w1 = "w\<lparr>uw_fs := (uw_fs w)(up_tmp u := None)\<rparr>"
  let ?w2 = "case t_delete TP (\<lambda>p. pt_token p = up_token u) (uw_pts ?w1) of None \<Rightarrow> ?w1 | Some t \<Rightarrow> ?w1\<lparr>uw_pts := t\<rparr>"
  have "step_ok CS TU w ?w1" by (rule step_ok_fs) (use u in auto)
  moreover have "step_ok CS TU ?w1 ?w2" using step_ok_pts[of CS TU ?w1] by (simp split: option.split)
  ultimately have a: "step_ok CS TU w ?w2" by (rule step_ok_trans)
  show ?thesis
  proof (cases "t_delete TU (\<lambda>x. up_token x = up_token u) (uw_ups ?w2)")
    case (Some t)
    show ?thesis using step_ok_trans[OF a delete_rows_step[OF TU Some]] Some by (simp add: scavenge_one_def Let_def)
  qed (use a in \<open>simp add: scavenge_one_def Let_def\<close>)
qed

lemma ScavengeUpload_step:
  assumes TU: "table_ok TU upload_schema"
  shows "step_ok CS TU w (ScavengeUpload TU TP now w)"
proof -
  have f: "step_ok CS TU v (fold (scavenge_one TU TP) us v)" if "\<forall>u\<in>set us. touchable CS (up_tmp u)" for us v
    using that
  proof (induction us arbitrary: v)
    case (Cons u us)
    then show ?case using step_ok_trans[OF scavenge_one_step[OF TU, of CS u v TP] Cons.IH] by simp
  qed simp
  have "step_ok CS TU w (ScavengeUpload TU TP now w)" if o: "uploads_ok CS TU w"
    using f[of "filter (\<lambda>u. up_created u < now - 24 * hour) (rows TU (uw_ups w))" w] uploads_okD[OF o]
    by (simp add: ScavengeUpload_def table_okD(1)[OF TU])
  then show ?thesis by (simp add: step_ok_def)
qed

lemma initMultipartUpload_step:
  assumes TU: "table_ok TU upload_schema" and k: "allowed_key CS key"
  shows "step_ok CS TU w (snd (initMultipartUpload TU TP tok1 tok2 now key sz ch sid w))"
proof -
  note I = InitUpload_step[OF TU k]
  obtain token ex e w1 where i: "InitUpload TU tok1 now key sz (ch * MB) sid w = ((token, ex, e), w1)" by (metis prod.exhaust)
  have a: "step_ok CS TU w w1" using I[of w tok1 now sz "ch * MB" sid] i by simp
  let ?w2 = "snd (DestroyUploadByToken TU TP token w1)"
  let ?w3 = "?w2\<lparr>uw_fs := (uw_fs ?w2)(key := None)\<rparr>"
  have "touchable CS key" using k unfolding touchable_def by blast
  then have b: "step_ok CS TU ?w2 ?w3" by (intro step_ok_fs) auto
  have c: "step_ok CS TU w (snd (InitUpload TU tok2 now key sz (ch * MB) sid ?w3))"
    by (rule step_ok_trans[OF step_ok_trans[OF step_ok_trans[OF a DestroyUploadByToken_step[OF TU]] b] I])
  have "snd (initMultipartUpload TU TP tok1 tok2 now key sz ch sid w)
      \<in> {w1, snd (InitUpload TU tok2 now key sz (ch * MB) sid ?w3)}"
    by (cases "e = Some ErrPartUpCorrupted"; cases ex; cases e)
      (auto simp: initMultipartUpload_def i Let_def split: prod.splits sum.splits store_error.splits)
  then show ?thesis using a c by auto
qed

lemma uploadPart_step:
  assumes TU: "table_ok TU upload_schema"
  shows "step_ok CS TU w (snd (uploadPart md5 denied cs TU TP token idx h body w))"
proof (cases "LoadUpload TU token w")
  case (Inr u)
  then have u: "u \<in> set (rows TU (uw_ups w))"
    using find1_Some[OF TU] by (auto simp: LoadUpload_def split: option.splits)
  obtain e fs1 where e: "EnsureOwnFileR denied (up_tmp u) (rootPath cs (up_storage u)) (uw_fs w) = (e, fs1)" by fastforce
  have f1: "fs1 p = uw_fs w p" if "p \<noteq> up_tmp u" for p
    using e that by (auto simp: EnsureOwnFileR_def split: if_splits)
  let ?w1 = "w\<lparr>uw_fs := fs1\<rparr>"
  let ?f2 = "fs1(up_tmp u \<mapsto> write_at (unat (up_chunk u * idx)) (s_data body) (case fs1 (up_tmp u) of None \<Rightarrow> [] | Some d \<Rightarrow> d))"
  have n: "p \<noteq> up_tmp u" if "uploads_ok CS TU w" "\<not> touchable CS p" for p
    using uploads_okD[OF that(1) u] that(2) by blast
  have a: "step_ok CS TU w (w\<lparr>uw_fs := fs1\<rparr>)" "step_ok CS TU w (w\<lparr>uw_fs := ?f2\<rparr>)"
    by (rule step_ok_fs, simp add: f1 n)+
  have b: "step_ok CS TU v (snd (UploadPart_op TU TP k idx m v))" for v k m
    by (auto simp: UploadPart_op_def split: option.splits)
  have c: "step_ok CS TU w (snd (UploadPart_op TU TP k idx m (w\<lparr>uw_fs := ?f2\<rparr>)))" for k m
    by (rule step_ok_trans[OF a(2) b])
  have p: "snd (case x of (Some e, w3) \<Rightarrow> (Inl (f e), w3) | (None, w3) \<Rightarrow> (Inr y, w3)) = snd x" for x f y
    by (auto split: prod.split option.split)
  show ?thesis
  proof (cases e)
    case None
    show ?thesis
      unfolding uploadPart_def Inr sum.case e None prod.case option.case Let_def
      using a c by (auto simp: p split: option.split prod.split)
  qed (simp add: uploadPart_def Inr e)
qed (simp add: uploadPart_def)

lemma completePart_step:
  assumes TU: "table_ok TU upload_schema" and k: "allowed_key CS key"
  shows "step_ok CS TU w (snd (completePart md5 denied TU TP key parts w))"
proof (cases "LoadUploadByKey TU key w")
  case (Inr u)
  then have u: "u \<in> set (rows TU (uw_ups w))"
    using find1_Some[OF TU] by (auto simp: LoadUploadByKey_def split: option.splits)
  have C: "step_ok CS TU w (snd (CompletePart md5 TU TP key m w))
      \<and> uw_fs (snd (CompletePart md5 TU TP key m w)) = uw_fs w" for m
  proof -
    have t: "step_ok CS TU w (w\<lparr>uw_ups := t\<rparr>)"
      if "t_update TU (\<lambda>x. up_id x = i) (\<lambda>x. x\<lparr>up_md5 := h, up_state := DONE\<rparr>) (uw_ups w) = Some t" for i h t
    proof -
      have "rows TU t = map (\<lambda>x. if up_id x = i then x\<lparr>up_md5 := h, up_state := DONE\<rparr> else x) (rows TU (uw_ups w))"
        using t_update_rows[OF TU, of "\<lambda>x. x\<lparr>up_md5 := h, up_state := DONE\<rparr>" "\<lambda>x. up_id x = i" "uw_ups w"] that by auto
      then show ?thesis by (intro step_ok_ups) (auto split: if_splits)
    qed
    then show ?thesis
      by (auto simp: CompletePart_def Let_def split: option.splits sum.splits list.splits)
  qed
  have R: "step_ok CS TU w (v\<lparr>uw_fs := (uw_fs v)(up_key u \<mapsto> d, up_tmp u := None)\<rparr>)"
    if "step_ok CS TU w v" "uw_fs v = uw_fs w" for v d
  proof -
    have "step_ok CS TU w (v\<lparr>uw_fs := (uw_fs v)(up_key u \<mapsto> d, up_tmp u := None)\<rparr>)"
      if o: "uploads_ok CS TU w"
      using that(1) \<open>step_ok CS TU w v\<close> uploads_okD[OF o u] unfolding step_ok_def uploads_ok_def by auto
    then show ?thesis by (simp add: step_ok_def)
  qed
  show ?thesis
  proof (cases "client_md5 md5 parts")
    case (Some m)
    obtain e w1 where c: "CompletePart md5 TU TP key m w = (e, w1)" by fastforce
    have w1: "step_ok CS TU w w1" "uw_fs w1 = uw_fs w" using C[of m] c by simp_all
    show ?thesis using w1(1) R[OF w1] by (cases e) (auto simp: completePart_def Inr Some c split: option.split)
  qed (simp add: completePart_def Inr)
qed (simp add: completePart_def)

lemma serve_upload_step:
  assumes TU: "table_ok TU upload_schema" and cs: "cs \<in> set CS" "\<And>sid. rooted (guard_root cs sid)"
  shows "step_ok CS TU w (serve_upload md5 denied TU TP (cs, call) w)"
proof (cases call)
  have k: "allowed_key CS p" if "sanitizePath cs k sid = (p, None)" for k sid p
    using sanitized_inside[OF cs(2) that] cs(1) unfolding allowed_key_def by blast
  {
    case (CallCreate tok1 tok2 now req)
    obtain p e where p: "sanitizePath cs (cm_Key req) (cm_StorageID req) = (p, e)" by fastforce
    show ?thesis using initMultipartUpload_step[OF TU k] p CallCreate
      by (cases e) (auto simp: createMulitpartUpload_def)
  next
    case (CallPart req body)
    then show ?thesis using uploadPart_step[OF TU] by (simp add: uploadPart_handler_def)
  next
    case (CallComplete req)
    obtain p e where p: "sanitizePath cs (cq_Key req) (cq_StorageID req) = (p, e)" by fastforce
    show ?thesis using completePart_step[OF TU k] p CallComplete
      by (cases e) (auto simp: completeMultipartUpload_def)
  next
    case (CallScavenge now)
    then show ?thesis using ScavengeUpload_step[OF TU] by simp
  }
qed

text \<open>Where a temporary file lies: beside its target, so inside the root unless the target is the root itself.\<close>

lemma touchable_inside:
  assumes t: "touchable CS p" and r: "\<And>cs sid. cs \<in> set CS \<Longrightarrow> rooted (guard_root cs sid)"
  shows "\<exists>cs\<in>set CS. \<exists>sid. inside (guard_root cs sid) (clean p) \<or> p = tmp_name (clean (guard_root cs sid))"
proof -
  obtain k cs sid where k: "cs \<in> set CS" "inside (guard_root cs sid) k" "p = k \<or> p = tmp_name k"
    using t unfolding touchable_def allowed_key_def by blast
  let ?R = "guard_root cs sid"
  have K: "rooted k" "clean k = k" "prefix (psegs ?R) (psegs k)" "\<forall>s\<in>set (psegs k). plain_seg s"
    using k(2) by (simp_all add: inside_def)
  show ?thesis
  proof (cases "p = k")
    case True
    then show ?thesis using k(1,2) K(2) by metis
  next
    case False
    then have p: "p = tmp_name k" using k(3) by simp
    show ?thesis
    proof (cases "psegs k = psegs ?R")
      case True
      then have "clean ?R = k" using K(1,2) r[OF k(1), of sid] clean_eq_iff by metis
      then show ?thesis using k(1) p by blast
    next
      case F: False
      obtain ws x where x: "psegs k = ws @ [x]" using F K(3) by (metis append_butlast_last_id prefix_bot.bot_least prefix_order.antisym)
      have d: "rooted (split_dir k)" "psegs (split_dir k) = ws" using split_dir_clean[OF K(1,2)] x by simp_all
      have kx: "k = abs_path (ws @ [x])" using K(1,2) x by (metis abs_path_def clean_def)
      have sf: "split_file k = x" unfolding kx using split_file_abs[of ws x] K(4) x by (simp add: plain_path_def)
      let ?f = "CHR ''.'' # x @ ''.upload''"
      have pf: "plain_seg ?f" using K(4) x by (auto simp: plain_seg_def)
      have "psegs (split_dir k @ ''/'' @ join_on ''/'' [?f]) = ws @ [?f]"
        using psegs_extend[OF d(1), of "[?f]"] pf d(2) by simp
      then have ps: "psegs p = ws @ [?f]" by (simp add: p tmp_name_def sf)
      have rp: "rooted p" using d(1) by (auto simp: p tmp_name_def rooted_Cons)
      have "prefix (psegs ?R) ws" using K(3) F x by (simp add: prefix_snoc)
      then have "prefix (psegs ?R) (psegs (clean p))" using ps psegs_clean[OF rp] by (metis prefix_prefix)
      moreover have "\<forall>s\<in>set (psegs (clean p)). plain_seg s" using psegs_plain[OF rooted_clean[OF rp]] by blast
      ultimately have "inside ?R (clean p)" using rooted_clean[OF rp] clean_idem[OF rp] by (simp add: inside_def)
      then show ?thesis using k(1) by blast
    qed
  qed
qed


section \<open>Examples\<close>

text \<open>Create or truncate, then write.\<close>

definition save_file :: "string \<Rightarrow> string \<Rightarrow> ferr eff" where
  "save_file body p s =
     (case os_OpenCreate True p s of
        (Inl e, s1) \<Rightarrow> (Some (OS e), s1)
      | (Inr q, s1) \<Rightarrow>
          (case at_path True SWrite p s1 of
             Inr (q', File m c) \<Rightarrow> (None, on_root (alter q' (map_option (set_content (fs_now s1) body))) s1)
           | Inr (q', n) \<Rightarrow> (Some NotRegular, s1)
           | Inl e \<Rightarrow> (Some (OS e), s1)))"

lemma save_file_saves: "saves save_file"
  unfolding saves_def
proof (intro conjI allI impI)
  fix body p s and Rs :: "path list"
  assume w: "within Rs p"
  show "inside_only Rs s (snd (save_file body p s))"
  proof (rule inside_onlyI)
    assume l: "link_free (fs_root s)"
    obtain r s1 where o: "os_OpenCreate True p s = (r, s1)" by fastforce
    have a: "inside_only Rs s s1" using OpenCreate_inside [OF w, of s True] o by simp
    then have l1: "link_free (fs_root s1)" using l by (simp add: inside_only_def)
    have b: "inside_only Rs s1 (on_root (alter q' (map_option (set_content t body))) s1)"
      if "at_path True SWrite p s1 = Inr (q', n)" for q' n t
    proof -
      have "q' = psegs p" using at_path_lexical [OF l1 within_rooted [OF w] that] by simp
      moreover have "inside_only Rs s1 (on_root (alter (psegs p) (map_option (set_content t body))) s1)"
        using w by (rule within_alter) (auto dest: link_free_at)
      ultimately show ?thesis by simp
    qed
    show "inside_only Rs s (snd (save_file body p s))"
      using a inside_only_trans [OF a b] o by (auto simp: save_file_def split: sum.splits node.splits prod.splits)
  qed
next
  fix body p s s'
  assume r: "rooted p" and l: "link_free (fs_root s)" and sv: "save_file body p s = (None, s')"
  have w: "within [[]] p" using r by (simp add: within_def)
  obtain q s1 q' m c where o: "os_OpenCreate True p s = (Inr q, s1)" "at_path True SWrite p s1 = Inr (q', File m c)"
      "s' = on_root (alter q' (map_option (set_content (fs_now s1) body))) s1"
    using sv by (auto simp: save_file_def split: sum.splits node.splits prod.splits)
  have "link_free (fs_root s1)" using OpenCreate_inside [OF w, of s True] o(1) l by (simp add: inside_only_def)
  then have q: "q' = psegs p" "node_at (fs_root s1) (psegs p) = Some (File m c)"
    using at_path_lexical [OF _ r o(2)] by auto
  show "\<exists>m. node_at (fs_root s') (psegs p) = Some (File m body)"
  proof (cases "psegs p = []")
    case True
    then show ?thesis using q unfolding o(3) by (cases "fs_root s1") auto
  next
    case False
    obtain m' ch where d: "node_at (fs_root s1) (butlast (psegs p)) = Some (Dir m' ch)" using node_at_parent[OF q(2) False] by blast
    show ?thesis using node_at_alter_at[OF False d, of "map_option (set_content (fs_now s1) body)"] q unfolding o(3) by auto
  qed
qed

definition small_meta :: meta where
  "small_meta = \<lparr>n_mode = 493, n_mtime = 0, n_uid = 0, n_gid = 0\<rparr>"

definition small_fs :: fsys where
  "small_fs = \<lparr>fs_root = Dir small_meta [(''ec'', Dir small_meta [(''users'', Dir small_meta [(''al'', Dir small_meta [])])])],
     fs_now = 9, fs_umask = (\<lambda>p. p), fs_uid = 0, fs_gid = 0, fs_deny = (\<lambda>_ _. False), fs_ctx = None\<rparr>"

definition small_ctx :: fctx where
  "small_ctx = \<lparr>fc_cs = example_cs, fc_uid = 1000, fc_gid = 1000\<rparr>"


definition up_request :: CreateMultipartReq where
  "up_request = \<lparr>cm_StorageID = -1, cm_Key = ''f'', cm_Size = 3, cm_ChunkSize = 1\<rparr>"

definition no_uploads :: "(Upload list, UploadPart list) uworld" where
  "no_uploads = \<lparr>uw_fs = Map.empty, uw_ups = [], uw_pts = []\<rparr>"

definition up_calls :: "(cloudStorage \<times> upload_call) list" where
  "up_calls = [(example_cs, CallCreate ''t'' ''t2'' 7 up_request),
     (example_cs, CallPart \<lparr>pr_Token = ''t'', pr_Index = 0, pr_MD5 = []\<rparr> \<lparr>s_data = [1, 2, 3], s_fails = False\<rparr>)]"


end
