(* ===== verification/Balance.thy ===== *)
theory Balance
  imports Complex_Main Prelude
begin

text \<open>
  The cache of the balance, \<open>internal/billing/balance.go\<close>: one cache for the whole process, made by the first request. Its
  goroutines (the loop of queries, the one of the heart beats) and the requests take turns; a query reads the token, asks the
  balance service, and stores the answer, and anything may happen in between. The answers of the service are events:
  \<open>None\<close> is a request that failed, timed out or returned no JSON. Balances are rationals here, without the rounding of
  \<open>float32\<close>.
\<close>

section \<open>State\<close>

datatype cacheStatus = PENDING | LIVE | STALED

record BalanceCache =
  bl_balance :: rat
  bl_tenantID :: int
  bl_token :: string
  bl_status :: cacheStatus
  bl_beats :: nat                \<comment> \<open>goroutines that wait to send on \<open>beatC\<close>\<close>
  bl_asked :: "string list"      \<comment> \<open>the tokens of the queries under way\<close>
  bl_done :: bool

datatype balance_err = ErrHTTP | ErrBalanceQuery | ErrIdleTooLong

section \<open>Queries\<close>

text \<open>\<open>doQueryBalance\<close> up to the request, and from the answer on.\<close>

definition ask :: "BalanceCache \<Rightarrow> BalanceCache" where
  "ask s = s\<lparr>bl_asked := bl_asked s @ [bl_token s]\<rparr>"

definition doQueryBalance :: "(int \<times> rat) option \<Rightarrow> BalanceCache \<Rightarrow> balance_err option \<times> BalanceCache" where
  "doQueryBalance answer s = (case answer of
     None \<Rightarrow> (Some ErrHTTP, s)
   | Some (code, b) \<Rightarrow> if code \<noteq> 200 then (Some ErrBalanceQuery, s) else (None, s\<lparr>bl_balance := b, bl_status := LIVE\<rparr>))"

definition query :: "(int \<times> rat) option \<Rightarrow> BalanceCache \<Rightarrow> BalanceCache" where
  "query answer s = (case doQueryBalance answer s of (None, s1) \<Rightarrow> s1 | (Some e, s1) \<Rightarrow> s1\<lparr>bl_balance := 0\<rparr>)"

definition iamAlive :: "BalanceCache \<Rightarrow> BalanceCache" where
  "iamAlive s = (if bl_status s = STALED then s\<lparr>bl_status := PENDING\<rparr> else s)"

definition iamGone :: "BalanceCache \<Rightarrow> BalanceCache" where
  "iamGone s = s\<lparr>bl_status := STALED\<rparr>"

definition isAlive :: "BalanceCache \<Rightarrow> bool" where "isAlive s \<longleftrightarrow> bl_status s \<noteq> STALED"
definition isGone :: "BalanceCache \<Rightarrow> bool" where "isGone s \<longleftrightarrow> bl_status s = STALED"

definition Query :: "BalanceCache \<Rightarrow> rat \<times> balance_err option" where
  "Query s = (bl_balance s, if bl_status s = STALED then Some ErrIdleTooLong else None)"

text \<open>\<open>Close\<close>; a second one closes a closed channel, \<open>None\<close>.\<close>

definition Close :: "BalanceCache \<Rightarrow> BalanceCache option" where
  "Close s = (if bl_done s then None else Some (s\<lparr>bl_done := True\<rparr>))"

section \<open>The goroutines\<close>

datatype bal_ev = Tick | BeatTimer | Beat | Answer nat "(int \<times> rat) option"

text \<open>The loops end when the cache is closed; a query that is under way still stores its answer.\<close>

definition bal_step :: "bal_ev \<Rightarrow> BalanceCache \<Rightarrow> BalanceCache" where
  "bal_step ev s = (case ev of
     Tick \<Rightarrow> if \<not> bl_done s \<and> isAlive s then ask s else s
   | BeatTimer \<Rightarrow> if bl_done s then s else iamGone s
   | Beat \<Rightarrow> if bl_done s \<or> bl_beats s = 0 then s else iamAlive (s\<lparr>bl_beats := bl_beats s - 1\<rparr>)
   | Answer k a \<Rightarrow> if k < length (bl_asked s)
       then query a (s\<lparr>bl_asked := take k (bl_asked s) @ drop (Suc k) (bl_asked s)\<rparr>) else s)"

definition newBalanceCache :: "(int \<times> rat) option \<Rightarrow> string \<Rightarrow> int \<Rightarrow> BalanceCache" where
  "newBalanceCache answer token tenantID = snd (doQueryBalance answer
     \<lparr>bl_balance = -1, bl_tenantID = tenantID, bl_token = token, bl_status = PENDING, bl_beats = 0, bl_asked = [], bl_done = False\<rparr>)"

definition getBalanceCache :: "(int \<times> rat) option \<Rightarrow> string \<Rightarrow> int \<Rightarrow> BalanceCache option \<Rightarrow> BalanceCache" where
  "getBalanceCache answer token tenantID bc = (case bc of None \<Rightarrow> newBalanceCache answer token tenantID | Some s \<Rightarrow> s)"

text \<open>
  A request. \<open>evs1\<close> happens before the status is looked at, \<open>evs2\<close> before the balance is read; the answer to the query
  that a request of an idle session makes is among \<open>evs2\<close>, or the five seconds passed without it.
\<close>

definition QueryBalance :: "(int \<times> rat) option \<Rightarrow> string \<Rightarrow> int \<Rightarrow> bal_ev list \<Rightarrow> bal_ev list \<Rightarrow> BalanceCache option \<Rightarrow>
    rat \<times> BalanceCache" where
  "QueryBalance answer token tenantID evs1 evs2 bc =
     (let s0 = getBalanceCache answer token tenantID bc;
          s1 = fold bal_step evs1 (s0\<lparr>bl_beats := bl_beats s0 + 1, bl_token := token\<rparr>);
          s2 = (if isGone s1 then ask s1 else s1);
          s3 = fold bal_step evs2 s2
      in (bl_balance s3, s3))"

section \<open>Where a balance comes from\<close>

text \<open>The balances that the service has reported so far.\<close>

fun reported :: "(int \<times> rat) option \<Rightarrow> rat set" where
  "reported (Some (code, b)) = (if code = 200 then {b} else {})"
| "reported None = {}"

fun ev_reported :: "bal_ev \<Rightarrow> rat set" where
  "ev_reported (Answer k a) = reported a"
| "ev_reported _ = {}"

definition traced :: "rat set \<Rightarrow> BalanceCache \<Rightarrow> bool" where
  "traced R s \<longleftrightarrow> bl_balance s \<in> {-1, 0} \<union> R"

lemma traced_query: "traced R s \<Longrightarrow> traced (R \<union> reported a) (query a s)"
  by (cases a) (auto simp: traced_def query_def doQueryBalance_def split: prod.splits)

lemma traced_step: "traced R s \<Longrightarrow> traced (R \<union> ev_reported ev) (bal_step ev s)"
proof (cases ev)
  case (Answer k a)
  assume t: "traced R s"
  have "traced R (s\<lparr>bl_asked := xs\<rparr>)" for xs using t by (simp add: traced_def)
  then have "traced (R \<union> reported a) (query a (s\<lparr>bl_asked := xs\<rparr>))" for xs by (rule traced_query)
  then show ?thesis using Answer t by (auto simp: bal_step_def traced_def)
qed (auto simp: bal_step_def traced_def ask_def iamGone_def iamAlive_def)

lemma traced_fold: "traced R s \<Longrightarrow> traced (R \<union> \<Union> (ev_reported ` set evs)) (fold bal_step evs s)"
proof (induction evs arbitrary: R s)
  case (Cons ev evs)
  have "traced (R \<union> ev_reported ev \<union> \<Union> (ev_reported ` set evs)) (fold bal_step evs (bal_step ev s))"
    by (rule Cons.IH[OF traced_step[OF Cons.prems]])
  then show ?case by (simp add: Un_assoc)
qed simp

record bal_request =
  rq_answer :: "(int \<times> rat) option"
  rq_token :: string
  rq_tenant :: int
  rq_evs1 :: "bal_ev list"
  rq_evs2 :: "bal_ev list"

definition serve_balance :: "bal_request \<Rightarrow> BalanceCache option \<Rightarrow> rat \<times> BalanceCache" where
  "serve_balance r bc = QueryBalance (rq_answer r) (rq_token r) (rq_tenant r) (rq_evs1 r) (rq_evs2 r) bc"

definition request_reported :: "bal_request \<Rightarrow> rat set" where
  "request_reported r = reported (rq_answer r) \<union> \<Union> (ev_reported ` set (rq_evs1 r)) \<union> \<Union> (ev_reported ` set (rq_evs2 r))"

fun balances :: "bal_request list \<Rightarrow> BalanceCache option \<Rightarrow> rat list" where
  "balances [] bc = []"
| "balances (r # rs) bc = (case serve_balance r bc of (b, s) \<Rightarrow> b # balances rs (Some s))"

lemma traced_request:
  assumes "case bc of None \<Rightarrow> True | Some s \<Rightarrow> traced R s"
  shows "traced (R \<union> request_reported r) (snd (serve_balance r bc))"
    "fst (serve_balance r bc) = bl_balance (snd (serve_balance r bc))"
proof -
  define s0 where "s0 = getBalanceCache (rq_answer r) (rq_token r) (rq_tenant r) bc"
  define s1 where "s1 = fold bal_step (rq_evs1 r) (s0\<lparr>bl_beats := bl_beats s0 + 1, bl_token := rq_token r\<rparr>)"
  define s2 where "s2 = (if isGone s1 then ask s1 else s1)"
  have e: "serve_balance r bc = (bl_balance (fold bal_step (rq_evs2 r) s2), fold bal_step (rq_evs2 r) s2)"
    unfolding serve_balance_def QueryBalance_def Let_def s0_def s1_def s2_def ..
  have "traced (R \<union> reported (rq_answer r)) s0" unfolding s0_def
    using assms by (cases bc; cases "rq_answer r")
      (auto simp: getBalanceCache_def newBalanceCache_def doQueryBalance_def traced_def split: prod.splits)
  then have "traced (R \<union> reported (rq_answer r)) (s0\<lparr>bl_beats := bl_beats s0 + 1, bl_token := rq_token r\<rparr>)"
    by (simp add: traced_def)
  from traced_fold[OF this, of "rq_evs1 r"]
  have "traced (R \<union> reported (rq_answer r) \<union> \<Union> (ev_reported ` set (rq_evs1 r))) s2"
    unfolding s2_def s1_def[symmetric] by (simp add: traced_def ask_def)
  from traced_fold[OF this, of "rq_evs2 r"] show "traced (R \<union> request_reported r) (snd (serve_balance r bc))"
    unfolding e request_reported_def by (simp add: Un_assoc)
  show "fst (serve_balance r bc) = bl_balance (snd (serve_balance r bc))" by (simp add: e)
qed


section \<open>Whose balance it is\<close>

text \<open>One balance serves all tenants. The tenant of a request plays no role once the cache exists: in an active session a
  request gets at once the balance of whoever was asked for last, without a query of its own. So a tenant whose own balance
  is below the limit passes the check on another tenant's balance.
\<close>

theorem balance_of_another_tenant:
  assumes a: "QueryBalance (Some (200, b)) tokA tenantA [] [] None = (x, s)" and l: "balance_limit \<le> b"
  shows "x = b \<and> (\<exists>s'. QueryBalance answer tokB tenantB [] [] (Some s) = (b, s') \<and> balance_limit \<le> b
    \<and> bl_asked s' = bl_asked s \<and> bl_tenantID s' = tenantA \<and> bl_token s' = tokB)"
  using assms
  by (auto simp: QueryBalance_def Let_def getBalanceCache_def newBalanceCache_def doQueryBalance_def isGone_def)

text \<open>
  After an idle time the request is meant to ask the service. Whether it does depends on the goroutine that sends its heart
  beat: when the beat is taken first, the session counts as active and the old balance is returned.
\<close>

lemma idle_request_race:
  assumes "bl_status s = STALED" "\<not> bl_done s"
  shows "fst (QueryBalance answer tok t [Beat] [] (Some s)) = bl_balance s"
    "bl_asked (snd (QueryBalance answer tok t [Beat] [] (Some s))) = bl_asked s"
    "bl_asked (snd (QueryBalance answer tok t [] [] (Some s))) = bl_asked s @ [tok]"
  using assms by (simp_all add: QueryBalance_def Let_def getBalanceCache_def isGone_def bal_step_def iamAlive_def ask_def)

section \<open>Examples\<close>


theorem balance_of_another_tenant_witness:
  "fst (QueryBalance (Some (200, 3)) ''b'' 2 [] [] (Some (snd (QueryBalance (Some (200, 50)) ''a'' 1 [] [] None)))) = 50"
proof -
  have a: "QueryBalance (Some (200, 50)) ''a'' 1 [] [] None
      = (fst (QueryBalance (Some (200, 50)) ''a'' 1 [] [] None), snd (QueryBalance (Some (200, 50)) ''a'' 1 [] [] None))" by simp
  show ?thesis using balance_of_another_tenant[OF a, of 10 "Some (200, 3)" "''b''" 2] by auto
qed

end
