(* ===== verification/Progress.thy ===== *)
theory Progress
  imports RepoStat
begin

text \<open>
  The progress of an upload, \<open>internal/backup/stream.go\<close> and \<open>snapshot.go\<close>. While kopia uploads, it calls \<open>onUpload\<close> with
  the bytes it has sent; the metric goes over an unbuffered channel to a goroutine that gathers it, and a third one
  turns what was gathered into the statistics every five seconds. The three take turns at the mutex of the
  gatherer, so that a step here is one critical section. What is only logged (percentage, speed, remaining time, the
  monitor of a stuck upload) and kopia's own estimate are not modelled; the estimate is part of the event.
\<close>

section \<open>The gatherer\<close>

record uploadMetric =
  um_uploadedBytes :: i64
  um_totalUploadedBytes :: i64
  um_estimatedBytes :: i64

record uploadMetricGather =
  cumUploadedBytes :: i64
  totalUploadedBytes :: i64
  estimatedBytes :: i64
  lastAckTime :: int
  newDataArrived :: bool

definition umg_reset :: "int \<Rightarrow> uploadMetricGather \<Rightarrow> uploadMetricGather" where
  "umg_reset now g = g\<lparr>cumUploadedBytes := 0, totalUploadedBytes := 0, estimatedBytes := 0, lastAckTime := now,
     newDataArrived := False\<rparr>"

definition umg_gather :: "uploadMetric \<Rightarrow> uploadMetricGather \<Rightarrow> uploadMetricGather" where
  "umg_gather m g = g\<lparr>cumUploadedBytes := cumUploadedBytes g + um_uploadedBytes m, totalUploadedBytes := um_totalUploadedBytes m,
     estimatedBytes := um_estimatedBytes m, newDataArrived := True\<rparr>"

definition setLastAckTime :: "int \<Rightarrow> uploadMetricGather \<Rightarrow> uploadMetricGather" where
  "setLastAckTime t g = g\<lparr>lastAckTime := t\<rparr>"

definition getLastAckTime :: "uploadMetricGather \<Rightarrow> int" where
  "getLastAckTime g = lastAckTime g"

definition umg_snapshot :: "uploadMetricGather \<Rightarrow> uploadMetricGather" where
  "umg_snapshot g = \<lparr>cumUploadedBytes = cumUploadedBytes g, totalUploadedBytes = totalUploadedBytes g,
     estimatedBytes = estimatedBytes g, lastAckTime = lastAckTime g, newDataArrived = newDataArrived g\<rparr>"

section \<open>The goroutines\<close>

text \<open>Where \<open>progressHandle\<close> stands: not called, with a snapshot that is not counted yet, or before the reset.\<close>

datatype handle_pc = Waiting | Snapped uploadMetricGather | Counted

record progress =
  pg_metric :: uploadMetric
  pg_beater :: uploadMetricGather
  pg_pc :: handle_pc
  pg_stat :: RepoStat
  pg_closed :: bool              \<comment> \<open>\<open>progressC\<close> is closed\<close>
  pg_exited :: bool              \<comment> \<open>the receiver of the ticks has returned\<close>

datatype progress_ev = Uploaded i64 i64 | LimiterTick | Count int | ResetBeater int | CloseProgress | GuardExit

text \<open>\<open>onUpload\<close>: the send returns when the metric has been received, so the bytes are gathered in the same step.\<close>

definition onUpload :: "i64 \<Rightarrow> i64 \<Rightarrow> uploadMetric \<Rightarrow> uploadMetric" where
  "onUpload numBytes estimate m = m\<lparr>um_uploadedBytes := numBytes,
     um_totalUploadedBytes := um_totalUploadedBytes m + numBytes, um_estimatedBytes := estimate\<rparr>"

definition progressHandle :: "progress_ev \<Rightarrow> progress \<Rightarrow> progress" where
  "progressHandle ev s = (case (ev, pg_pc s) of
     (LimiterTick, Waiting) \<Rightarrow> (let snap = umg_snapshot (pg_beater s) in
        if \<not> newDataArrived snap then s else s\<lparr>pg_pc := Snapped snap\<rparr>)
   | (Count now, Snapped snap) \<Rightarrow> s\<lparr>pg_beater := setLastAckTime now (pg_beater s),
        pg_stat := IncBackupBytes (cumUploadedBytes snap) (pg_stat s), pg_pc := Counted\<rparr>
   | (ResetBeater now, Counted) \<Rightarrow> s\<lparr>pg_beater := umg_reset now (pg_beater s), pg_pc := Waiting\<rparr>
   | _ \<Rightarrow> s)"

text \<open>
  The receiver leaves its loop when \<open>guardC\<close> is closed, which it notices between two calls of \<open>progressHandle\<close>. A tick that
  is ready by then may still be served first.
\<close>

definition progress_step :: "progress_ev \<Rightarrow> progress \<Rightarrow> progress" where
  "progress_step ev s = (case ev of
     Uploaded n est \<Rightarrow> if pg_closed s then s else
       (let m = onUpload n est (pg_metric s) in s\<lparr>pg_metric := m, pg_beater := umg_gather m (pg_beater s)\<rparr>)
   | CloseProgress \<Rightarrow> s\<lparr>pg_closed := True\<rparr>
   | GuardExit \<Rightarrow> if pg_closed s \<and> pg_pc s = Waiting then s\<lparr>pg_exited := True\<rparr> else s
   | _ \<Rightarrow> if pg_exited s then s else progressHandle ev s)"

definition progress_start :: "int \<Rightarrow> RepoStat \<Rightarrow> progress" where
  "progress_start now st = \<lparr>pg_metric = \<lparr>um_uploadedBytes = 0, um_totalUploadedBytes = 0, um_estimatedBytes = 0\<rparr>,
     pg_beater = \<lparr>cumUploadedBytes = 0, totalUploadedBytes = 0, estimatedBytes = 0, lastAckTime = now, newDataArrived = False\<rparr>,
     pg_pc = Waiting, pg_stat = st, pg_closed = False, pg_exited = False\<rparr>"

definition run_progress :: "int \<Rightarrow> RepoStat \<Rightarrow> progress_ev list \<Rightarrow> progress" where
  "run_progress now st evs = fold progress_step evs (progress_start now st)"

section \<open>Where the uploaded bytes go\<close>

text \<open>The bytes that arrive while \<open>progressHandle\<close> is between its snapshot and its reset.\<close>

fun in_window :: "progress_ev list \<Rightarrow> progress \<Rightarrow> i64" where
  "in_window [] s = 0"
| "in_window (ev # evs) s = (case ev of Uploaded n est \<Rightarrow> if \<not> pg_closed s \<and> pg_pc s \<noteq> Waiting then n else 0 | _ \<Rightarrow> 0)
     + in_window evs (progress_step ev s)"

definition held :: "progress \<Rightarrow> i64" where
  "held s = (case pg_pc s of Waiting \<Rightarrow> cumUploadedBytes (pg_beater s) | Snapped snap \<Rightarrow> cumUploadedBytes snap | Counted \<Rightarrow> 0)"

definition balance_of :: "progress \<Rightarrow> i64" where
  "balance_of s = um_totalUploadedBytes (pg_metric s) - BackupBytes (pg_stat s) - held s"

lemmas progress_simps = progress_step_def progressHandle_def onUpload_def umg_gather_def umg_reset_def umg_snapshot_def
  setLastAckTime_def IncBackupBytes_def balance_of_def held_def

lemma balance_step:
  "balance_of (progress_step ev s) = balance_of s + in_window [ev] s"
proof (cases ev)
  case (Uploaded n est)
  then show ?thesis by (auto simp: progress_simps Let_def split: handle_pc.split)
qed (auto simp: progress_simps Let_def split: handle_pc.split)

lemma balance_run: "balance_of (fold progress_step evs s) = balance_of s + in_window evs s"
proof (induction evs arbitrary: s)
  case (Cons ev evs)
  then show ?case using balance_step[of ev s] by (simp add: add.assoc)
qed simp

text \<open>C38: every uploaded byte is counted in the statistics, or is still with the gatherer, or arrived while a report was being
  made, in whatever order the goroutines take turns. The bytes of the last two kinds are never counted once the upload is
  over: the report's reset drops the former, and nothing reads the gatherer after the end.
\<close>

theorem uploaded_bytes_accounted:
  "um_totalUploadedBytes (pg_metric (run_progress now st evs)) =
     (BackupBytes (pg_stat (run_progress now st evs)) - BackupBytes st)
     + held (run_progress now st evs) + in_window evs (progress_start now st)"
proof -
  have "balance_of (run_progress now st evs) = - BackupBytes st + in_window evs (progress_start now st)"
    unfolding run_progress_def balance_run by (simp add: balance_of_def held_def progress_start_def)
  then show ?thesis unfolding balance_of_def by (simp add: algebra_simps)
qed

text \<open>A backup that ends before the first tick leaves no trace in the statistics, whatever it uploaded.\<close>

lemma short_backup_uncounted:
  assumes "LimiterTick \<notin> set evs"
  shows "pg_stat (run_progress now st evs) = st"
proof -
  have "pg_pc (fold progress_step evs s) = Waiting \<and> pg_stat (fold progress_step evs s) = pg_stat s"
    if "pg_pc s = Waiting" for s
    using that assms
  proof (induction evs arbitrary: s)
    case (Cons ev evs)
    have "pg_pc (progress_step ev s) = Waiting \<and> pg_stat (progress_step ev s) = pg_stat s"
      using Cons.prems by (cases ev) (auto simp: progress_step_def progressHandle_def Let_def)
    then show ?case using Cons.IH[of "progress_step ev s"] Cons.prems by simp
  qed simp
  then show ?thesis by (simp add: run_progress_def progress_start_def)
qed

lemma progress_example:
  "BackupBytes (pg_stat (run_progress 0 emptyStat
     [Uploaded 5 9, LimiterTick, Uploaded 3 9, Count 5, ResetBeater 5, Uploaded 1 9, CloseProgress, GuardExit])) = 5"
  by code_simp

end
