(* ===== verification/Mounts.thy ===== *)
theory Mounts
  imports Paths
begin

text \<open>
  The mount table, \<open>pkg/mounts\<close> on Linux, and \<open>getMountUsage\<close> of \<open>web/routers/middlewares.go\<close>, from which the usage of a
  tenant's EFS is read. Parameters: the content of \<open>/proc/self/mountinfo\<close> and the system call \<open>statfs\<close>. Names are taken
  to be ASCII, or valid UTF-8 that passes unchanged. The escapes \<open>\u\<close> and \<open>\U\<close> of Go's string literals, which the
  kernel never writes, yield their code point in UTF-8.
\<close>

section \<open>Kinds of file systems\<close>

definition magics :: "(string \<times> int) list" where
  "magics = [
    (''ADFS_SUPER_MAGIC'', 0xadf5), (''AFFS_SUPER_MAGIC'', 0xADFF), (''AUTOFS_SUPER_MAGIC'', 0x0187),
    (''BDEVFS_MAGIC'', 0x62646576), (''BEFS_SUPER_MAGIC'', 0x42465331), (''BFS_MAGIC'', 0x1BADFACE),
    (''BINFMTFS_MAGIC'', 0x42494e4d), (''BPF_FS_MAGIC'', 0xcafe4a11), (''BTRFS_SUPER_MAGIC'', 0x9123683E),
    (''CGROUP_SUPER_MAGIC'', 0x27e0eb), (''CGROUP2_SUPER_MAGIC'', 0x63677270), (''CIFS_MAGIC_NUMBER'', 0xFF534D42),
    (''CODA_SUPER_MAGIC'', 0x73757245), (''COH_SUPER_MAGIC'', 0x012FF7B7), (''CONFIGFS_MAGIC'', 0x62656570),
    (''CRAMFS_MAGIC'', 0x28cd3d45), (''DEBUGFS_MAGIC'', 0x64626720), (''DEVFS_SUPER_MAGIC'', 0x1373),
    (''DEVPTS_SUPER_MAGIC'', 0x1cd1), (''EFIVARFS_MAGIC'', 0xde5e81e4), (''EFS_SUPER_MAGIC'', 0x00414A53),
    (''EXT_SUPER_MAGIC'', 0x137D), (''EXT2_OLD_SUPER_MAGIC'', 0xEF51), (''EXT2_SUPER_MAGIC'', 0xEF53),
    (''EXT3_SUPER_MAGIC'', 0xEF53), (''EXT4_SUPER_MAGIC'', 0xEF53), (''FUSE_SUPER_MAGIC'', 0x65735546),
    (''FUTEXFS_SUPER_MAGIC'', 0xBAD1DEA), (''HFS_SUPER_MAGIC'', 0x4244), (''HFSPLUS_SUPER_MAGIC'', 0x482b),
    (''HOSTFS_SUPER_MAGIC'', 0x00c0ffee), (''HPFS_SUPER_MAGIC'', 0xF995E849), (''HUGETLBFS_MAGIC'', 0x958458f6),
    (''ISOFS_SUPER_MAGIC'', 0x9660), (''JFFS2_SUPER_MAGIC'', 0x72b6), (''JFS_SUPER_MAGIC'', 0x3153464a),
    (''MINIX_SUPER_MAGIC'', 0x137F), (''MINIX_SUPER_MAGIC2'', 0x138F), (''MINIX2_SUPER_MAGIC'', 0x2468),
    (''MINIX2_SUPER_MAGIC2'', 0x2478), (''MINIX3_SUPER_MAGIC'', 0x4d5a), (''MQUEUE_MAGIC'', 0x19800202),
    (''MSDOS_SUPER_MAGIC'', 0x4d44), (''NCP_SUPER_MAGIC'', 0x564c), (''NFS_SUPER_MAGIC'', 0x6969),
    (''NILFS_SUPER_MAGIC'', 0x3434), (''NTFS_SB_MAGIC'', 0x5346544e), (''OCFS2_SUPER_MAGIC'', 0x7461636f),
    (''OPENPROM_SUPER_MAGIC'', 0x9fa1), (''PIPEFS_MAGIC'', 0x50495045), (''PROC_SUPER_MAGIC'', 0x9fa0),
    (''PSTOREFS_MAGIC'', 0x6165676C), (''QNX4_SUPER_MAGIC'', 0x002f), (''QNX6_SUPER_MAGIC'', 0x68191122),
    (''RAMFS_MAGIC'', 0x858458f6), (''REISERFS_SUPER_MAGIC'', 0x52654973), (''ROMFS_MAGIC'', 0x7275),
    (''SELINUX_MAGIC'', 0xf97cff8c), (''SMACK_MAGIC'', 0x43415d53), (''SMB_SUPER_MAGIC'', 0x517B),
    (''SMB2_MAGIC_NUMBER'', 0xfe534d42), (''SOCKFS_MAGIC'', 0x534F434B), (''SQUASHFS_MAGIC'', 0x73717368),
    (''SYSFS_MAGIC'', 0x62656572), (''SYSV2_SUPER_MAGIC'', 0x012FF7B6), (''SYSV4_SUPER_MAGIC'', 0x012FF7B5),
    (''TMPFS_MAGIC'', 0x01021994), (''TRACEFS_MAGIC'', 0x74726163), (''UDF_SUPER_MAGIC'', 0x15013346),
    (''UFS_MAGIC'', 0x00011954), (''USBDEVICE_SUPER_MAGIC'', 0x9fa2), (''V9FS_MAGIC'', 0x01021997),
    (''VXFS_SUPER_MAGIC'', 0xa501FCF5), (''XENFS_SUPER_MAGIC'', 0xabba1974), (''XENIX_SUPER_MAGIC'', 0x012FF7B4),
    (''XFS_SUPER_MAGIC'', 0x58465342), (''_XIAFS_SUPER_MAGIC'', 0x012FD16D), (''AFS_SUPER_MAGIC'', 0x5346414F),
    (''AUFS_SUPER_MAGIC'', 0x61756673), (''ANON_INODE_FS_SUPER_MAGIC'', 0x09041934), (''CEPH_SUPER_MAGIC'', 0x00C36400),
    (''ECRYPTFS_SUPER_MAGIC'', 0xF15F), (''FAT_SUPER_MAGIC'', 0x4006), (''FHGFS_SUPER_MAGIC'', 0x19830326),
    (''FUSEBLK_SUPER_MAGIC'', 0x65735546), (''FUSECTL_SUPER_MAGIC'', 0x65735543), (''GFS_SUPER_MAGIC'', 0x1161970),
    (''GPFS_SUPER_MAGIC'', 0x47504653), (''MTD_INODE_FS_SUPER_MAGIC'', 0x11307854), (''INOTIFYFS_SUPER_MAGIC'', 0x2BAD1DEA),
    (''ISOFS_R_WIN_SUPER_MAGIC'', 0x4004), (''ISOFS_WIN_SUPER_MAGIC'', 0x4000), (''JFFS_SUPER_MAGIC'', 0x07C0),
    (''KAFS_SUPER_MAGIC'', 0x6B414653), (''LUSTRE_SUPER_MAGIC'', 0x0BD00BD0), (''NFSD_SUPER_MAGIC'', 0x6E667364),
    (''PANFS_SUPER_MAGIC'', 0xAAD7AAEA), (''RPC_PIPEFS_SUPER_MAGIC'', 0x67596969), (''SECURITYFS_SUPER_MAGIC'', 0x73636673),
    (''UFS_BYTESWAPPED_SUPER_MAGIC'', 0x54190100), (''VMHGFS_SUPER_MAGIC'', 0xBACBACBC), (''VZFS_SUPER_MAGIC'', 0x565A4653),
    (''ZFS_SUPER_MAGIC'', 0x2FC12FC1)]"

definition magic :: "string \<Rightarrow> int" where
  "magic name = (case map_of magics name of None \<Rightarrow> -1 | Some v \<Rightarrow> v)"

definition fsTypeMap :: "int \<Rightarrow> string" where
  "fsTypeMap t = (case map_of (map (\<lambda>(name, text). (magic name, text)) [
    (''ADFS_SUPER_MAGIC'', ''adfs''), (''AFFS_SUPER_MAGIC'', ''affs''), (''AFS_SUPER_MAGIC'', ''afs''),
    (''ANON_INODE_FS_SUPER_MAGIC'', ''anon-inode FS''), (''AUFS_SUPER_MAGIC'', ''aufs''), (''AUTOFS_SUPER_MAGIC'', ''autofs''),
    (''BEFS_SUPER_MAGIC'', ''befs''), (''BDEVFS_MAGIC'', ''bdevfs''), (''BFS_MAGIC'', ''bfs''),
    (''BINFMTFS_MAGIC'', ''binfmt_misc''), (''BTRFS_SUPER_MAGIC'', ''btrfs''), (''CEPH_SUPER_MAGIC'', ''ceph''),
    (''CGROUP_SUPER_MAGIC'', ''cgroupfs''), (''CIFS_MAGIC_NUMBER'', ''cifs''), (''CODA_SUPER_MAGIC'', ''coda''),
    (''COH_SUPER_MAGIC'', ''coh''), (''CRAMFS_MAGIC'', ''cramfs''), (''DEBUGFS_MAGIC'', ''debugfs''),
    (''DEVFS_SUPER_MAGIC'', ''devfs''), (''DEVPTS_SUPER_MAGIC'', ''devpts''), (''ECRYPTFS_SUPER_MAGIC'', ''ecryptfs''),
    (''EFS_SUPER_MAGIC'', ''efs''), (''EXT_SUPER_MAGIC'', ''ext''), (''EXT2_SUPER_MAGIC'', ''ext2/ext3''),
    (''EXT2_OLD_SUPER_MAGIC'', ''ext2''), (''FAT_SUPER_MAGIC'', ''fat''), (''FHGFS_SUPER_MAGIC'', ''fhgfs''),
    (''FUSEBLK_SUPER_MAGIC'', ''fuseblk''), (''FUSECTL_SUPER_MAGIC'', ''fusectl''), (''FUTEXFS_SUPER_MAGIC'', ''futexfs''),
    (''GFS_SUPER_MAGIC'', ''gfs/gfs2''), (''GPFS_SUPER_MAGIC'', ''gpfs''), (''HFS_SUPER_MAGIC'', ''hfs''),
    (''HFSPLUS_SUPER_MAGIC'', ''hfsplus''), (''HPFS_SUPER_MAGIC'', ''hpfs''), (''HUGETLBFS_MAGIC'', ''hugetlbfs''),
    (''MTD_INODE_FS_SUPER_MAGIC'', ''inodefs''), (''INOTIFYFS_SUPER_MAGIC'', ''inotifyfs''),
    (''ISOFS_SUPER_MAGIC'', ''isofs''), (''ISOFS_R_WIN_SUPER_MAGIC'', ''isofs''), (''ISOFS_WIN_SUPER_MAGIC'', ''isofs''),
    (''JFFS_SUPER_MAGIC'', ''jffs''), (''JFFS2_SUPER_MAGIC'', ''jffs2''), (''JFS_SUPER_MAGIC'', ''jfs''),
    (''KAFS_SUPER_MAGIC'', ''k-afs''), (''LUSTRE_SUPER_MAGIC'', ''lustre''), (''MINIX_SUPER_MAGIC'', ''minix''),
    (''MINIX_SUPER_MAGIC2'', ''minix (30 char.)''), (''MINIX2_SUPER_MAGIC'', ''minix v2''),
    (''MINIX2_SUPER_MAGIC2'', ''minix v2 (30 char.)''), (''MINIX3_SUPER_MAGIC'', ''minix3''), (''MQUEUE_MAGIC'', ''mqueue''),
    (''MSDOS_SUPER_MAGIC'', ''msdos''), (''NCP_SUPER_MAGIC'', ''novell''), (''NFS_SUPER_MAGIC'', ''nfs''),
    (''NFSD_SUPER_MAGIC'', ''nfsd''), (''NILFS_SUPER_MAGIC'', ''nilfs''), (''NTFS_SB_MAGIC'', ''ntfs''),
    (''OPENPROM_SUPER_MAGIC'', ''openprom''), (''OCFS2_SUPER_MAGIC'', ''ocfs2''), (''PANFS_SUPER_MAGIC'', ''panfs''),
    (''PIPEFS_MAGIC'', ''pipefs''), (''PROC_SUPER_MAGIC'', ''proc''), (''PSTOREFS_MAGIC'', ''pstorefs''),
    (''QNX4_SUPER_MAGIC'', ''qnx4''), (''QNX6_SUPER_MAGIC'', ''qnx6''), (''RAMFS_MAGIC'', ''ramfs''),
    (''REISERFS_SUPER_MAGIC'', ''reiserfs''), (''ROMFS_MAGIC'', ''romfs''), (''RPC_PIPEFS_SUPER_MAGIC'', ''rpc_pipefs''),
    (''SECURITYFS_SUPER_MAGIC'', ''securityfs''), (''SELINUX_MAGIC'', ''selinux''), (''SMB_SUPER_MAGIC'', ''smb''),
    (''SMB2_MAGIC_NUMBER'', ''smb2''), (''SOCKFS_MAGIC'', ''sockfs''), (''SQUASHFS_MAGIC'', ''squashfs''),
    (''SYSFS_MAGIC'', ''sysfs''), (''SYSV2_SUPER_MAGIC'', ''sysv2''), (''SYSV4_SUPER_MAGIC'', ''sysv4''),
    (''TMPFS_MAGIC'', ''tmpfs''), (''UDF_SUPER_MAGIC'', ''udf''), (''UFS_MAGIC'', ''ufs''),
    (''UFS_BYTESWAPPED_SUPER_MAGIC'', ''ufs''), (''USBDEVICE_SUPER_MAGIC'', ''usbdevfs''), (''V9FS_MAGIC'', ''v9fs''),
    (''VMHGFS_SUPER_MAGIC'', ''vmhgfs''), (''VXFS_SUPER_MAGIC'', ''vxfs''), (''VZFS_SUPER_MAGIC'', ''vzfs''),
    (''XENFS_SUPER_MAGIC'', ''xenfs''), (''XENIX_SUPER_MAGIC'', ''xenix''), (''XFS_SUPER_MAGIC'', ''xfs''),
    (''_XIAFS_SUPER_MAGIC'', ''xia''), (''ZFS_SUPER_MAGIC'', ''zfs'')])
    t of None \<Rightarrow> [] | Some text \<Rightarrow> text)"

definition localMap :: "int \<Rightarrow> bool" where
  "localMap t \<longleftrightarrow> t \<in> magic ` set [
    ''AFS_SUPER_MAGIC'', ''BTRFS_SUPER_MAGIC'', ''EXT_SUPER_MAGIC'', ''EXT2_OLD_SUPER_MAGIC'', ''EXT2_SUPER_MAGIC'',
    ''FAT_SUPER_MAGIC'', ''HPFS_SUPER_MAGIC'', ''MSDOS_SUPER_MAGIC'', ''NTFS_SB_MAGIC'', ''REISERFS_SUPER_MAGIC'',
    ''UDF_SUPER_MAGIC'', ''XFS_SUPER_MAGIC'', ''ZFS_SUPER_MAGIC'']"

definition networkMap :: "int \<Rightarrow> bool" where
  "networkMap t \<longleftrightarrow> t \<in> magic ` set [
    ''CIFS_MAGIC_NUMBER'', ''NFS_SUPER_MAGIC'', ''SMB_SUPER_MAGIC'', ''SMB2_MAGIC_NUMBER'']"

definition specialMap :: "int \<Rightarrow> bool" where
  "specialMap t \<longleftrightarrow> t \<in> magic ` set [
    ''AUTOFS_SUPER_MAGIC'', ''BINFMTFS_MAGIC'', ''BPF_FS_MAGIC'', ''CGROUP_SUPER_MAGIC'', ''CGROUP2_SUPER_MAGIC'',
    ''CONFIGFS_MAGIC'', ''DEBUGFS_MAGIC'', ''DEVPTS_SUPER_MAGIC'', ''EFIVARFS_MAGIC'', ''FUSECTL_SUPER_MAGIC'',
    ''HUGETLBFS_MAGIC'', ''MQUEUE_MAGIC'', ''PROC_SUPER_MAGIC'', ''PSTOREFS_MAGIC'', ''SECURITYFS_SUPER_MAGIC'',
    ''SYSFS_MAGIC'', ''TMPFS_MAGIC'', ''TRACEFS_MAGIC'']"

record Statfs_t =
  st_Type :: int
  st_Bsize :: i64
  st_Blocks :: u64
  st_Bfree :: u64
  st_Bavail :: u64
  st_Files :: u64
  st_Ffree :: u64

record Mount =
  mt_Device :: string
  mt_DeviceType :: string
  mt_Mountpoint :: string
  mt_Fstype :: string
  mt_Type :: string
  mt_Opts :: string
  mt_Total :: u64
  mt_Free :: u64
  mt_Used :: u64
  mt_Inodes :: u64
  mt_InodesFree :: u64
  mt_InodesUsed :: u64
  mt_Blocks :: u64
  mt_BlockSize :: u64
  mt_Metadata :: Statfs_t

definition isLocalFs :: "Mount \<Rightarrow> bool" where
  "isLocalFs m \<longleftrightarrow> localMap (st_Type (mt_Metadata m))"

definition isFuseFs :: "Mount \<Rightarrow> bool" where
  "isFuseFs m \<longleftrightarrow> st_Type (mt_Metadata m) = magic ''FUSEBLK_SUPER_MAGIC'' \<or> st_Type (mt_Metadata m) = magic ''FUSE_SUPER_MAGIC''"

definition isNetworkFs :: "Mount \<Rightarrow> bool" where
  "isNetworkFs m \<longleftrightarrow> networkMap (st_Type (mt_Metadata m))"

definition isSpecialFs :: "Mount \<Rightarrow> bool" where
  "isSpecialFs m \<longleftrightarrow> mt_Device m = ''nsfs'' \<or> specialMap (st_Type (mt_Metadata m))"

definition isHiddenFs :: "Mount \<Rightarrow> bool" where
  "isHiddenFs m \<longleftrightarrow> mt_Device m = ''shm'' \<or> mt_Device m = ''overlay'' \<or> mt_Fstype m = ''autofs''
     \<or> (mt_Fstype m = ''squashfs'' \<and> hasPrefix (mt_Mountpoint m) ''/snap'')"

definition deviceType :: "Mount \<Rightarrow> string" where
  "deviceType m = (if isNetworkFs m then ''network'' else if isSpecialFs m then ''special''
     else if isFuseFs m then ''fuse'' else ''local'')"

section \<open>Reading the table\<close>

text \<open>\<open>strings.Fields\<close> and \<open>strings.Split\<close>.\<close>

fun split_by :: "(char \<Rightarrow> bool) \<Rightarrow> string \<Rightarrow> string list" where
  "split_by P [] = [[]]"
| "split_by P (x # s) = (if P x then [] # split_by P s
     else (case split_by P s of [] \<Rightarrow> [[x]] | w # ws \<Rightarrow> (x # w) # ws))"

definition Fields :: "string \<Rightarrow> string list" where
  "Fields s = filter (\<lambda>w. w \<noteq> []) (split_by is_space s)"

function split_str :: "string \<Rightarrow> string \<Rightarrow> string list" where
  "split_str sep s = (if sep = [] then map (\<lambda>c. [c]) s else case s of [] \<Rightarrow> [[]]
     | c # t \<Rightarrow> if hasPrefix (c # t) sep then [] # split_str sep (drop (length sep) (c # t))
         else (case split_str sep t of [] \<Rightarrow> [[c]] | w # ws \<Rightarrow> (c # w) # ws))"
  by pat_completeness auto
termination by (relation "measure (\<lambda>(sep, s). length s)") auto

declare split_str.simps [simp del]

text \<open>
  \<open>readLines\<close>: a \<open>bufio.Scanner\<close> with its default limit. A line ends with a line feed, an optional carriage return before it is
  dropped, and the last line need not end. \<open>None\<close> is an error, of opening the file or of a line that is too long.
\<close>

definition drop_cr :: "string \<Rightarrow> string" where
  "drop_cr l = trimSuffix l [CHR 0x0D]"

definition readLines :: "string option \<Rightarrow> string list option" where
  "readLines file = (case file of None \<Rightarrow> None | Some content \<Rightarrow>
     (let ls = split_on (CHR 0x0A) content; ls1 = (if last ls = [] then butlast ls else ls)
      in if \<forall>l\<in>set ls1. length l < 65536 then Some (map drop_cr ls1) else None))"

text \<open>\<open>strconv.Unquote\<close> of a text between double quotes.\<close>

definition hex_value :: "char \<Rightarrow> nat option" where
  "hex_value c = (let n = of_char c in if 48 \<le> n \<and> n \<le> 57 then Some (n - 48) else if 97 \<le> n \<and> n \<le> 102 then Some (n - 87)
     else if 65 \<le> n \<and> n \<le> 70 then Some (n - 55) else None)"

definition hex_number :: "string \<Rightarrow> nat option" where
  "hex_number s = (if None \<in> set (map hex_value s) then None else Some (foldl (\<lambda>n c. 16 * n + the (hex_value c)) 0 s))"

definition utf8 :: "nat \<Rightarrow> string" where
  "utf8 r = map char_of (if r < 128 then [r] else if r < 2048 then [192 + r div 64, 128 + r mod 64]
     else if r < 65536 then [224 + r div 4096, 128 + r div 64 mod 64, 128 + r mod 64]
     else [240 + r div 262144, 128 + r div 4096 mod 64, 128 + r div 64 mod 64, 128 + r mod 64])"

definition is_octal :: "char \<Rightarrow> bool" where
  "is_octal c \<longleftrightarrow> 48 \<le> (of_char c :: nat) \<and> (of_char c :: nat) \<le> 55"

text \<open>What follows a backslash: the text it stands for, and how much of the input it takes.\<close>

definition rune :: "nat \<Rightarrow> string \<Rightarrow> (string \<times> nat) option" where
  "rune n t = (if length t < n then None else (case hex_number (take n t) of None \<Rightarrow> None
     | Some v \<Rightarrow> if v < 55296 \<or> (57344 \<le> v \<and> v < 1114112) then Some (utf8 v, Suc n) else None))"

definition unescape :: "string \<Rightarrow> (string \<times> nat) option" where
  "unescape s = (case s of [] \<Rightarrow> None
     | e # t \<Rightarrow>
         if is_octal e then
           (if length t < 2 \<or> \<not> list_all is_octal (take 2 t) then None
            else let v = foldl (\<lambda>n c. 8 * n + (of_char c - 48)) (0::nat) (e # take 2 t) in if v > 255 then None else Some ([char_of v], 3))
         else if e = CHR ''x'' then
           (if length t < 2 then None else map_option (\<lambda>v. ([char_of v], 3)) (hex_number (take 2 t)))
         else if e = CHR ''u'' then rune 4 t
         else if e = CHR ''U'' then rune 8 t
         else if e = CHR 0x5C \<or> e = CHR 0x22 then Some ([e], 1)
         else map_option (\<lambda>c. ([c], 1)) (map_of [(CHR ''a'', CHR 0x07), (CHR ''b'', CHR 0x08), (CHR ''f'', CHR 0x0C),
           (CHR ''n'', CHR 0x0A), (CHR ''r'', CHR 0x0D), (CHR ''t'', CHR 0x09), (CHR ''v'', CHR 0x0B)] e))"

function unquote_body :: "string \<Rightarrow> string option" where
  "unquote_body [] = None"
| "unquote_body (c # s) =
     (if c = CHR 0x22 then (if s = [] then Some [] else None)
      else if c = CHR 0x0A then None
      else if c \<noteq> CHR 0x5C then map_option (\<lambda>r. c # r) (unquote_body s)
      else case unescape s of None \<Rightarrow> None | Some (bs, n) \<Rightarrow> map_option (\<lambda>r. bs @ r) (unquote_body (drop n s)))"
  by pat_completeness auto
termination by (relation "measure length") auto

definition unescapeFstab :: "string \<Rightarrow> string" where
  "unescapeFstab path = (case unquote_body (path @ [CHR 0x22]) of None \<Rightarrow> path | Some p \<Rightarrow> p)"

text \<open>
  The names below \<open>/dev/mapper\<close>: the expression \<open>^/dev/mapper/(.*)-(.*)\<close> is greedy, so it splits at the last hyphen of the first
  line, and its second group ends with that line.
\<close>

definition mapper_device :: "string \<Rightarrow> string" where
  "mapper_device d = (if hasPrefix d ''/dev/mapper/'' then
     (let l = takeWhile (\<lambda>c. c \<noteq> CHR 0x0A) (drop 12 d)
      in if CHR ''-'' \<notin> set l then d
         else (let b = rev (takeWhile (\<lambda>c. c \<noteq> CHR ''-'') (rev l)); a = take (length l - length b - 1) l
           in path_join (path_join ''/dev'' a) b))
     else d)"

definition mount_of :: "string \<Rightarrow> string \<Rightarrow> string \<Rightarrow> string \<Rightarrow> Statfs_t \<Rightarrow> Mount" where
  "mount_of device mountPoint fstype mountOpts stat =
     (let bs = st_Bsize stat;
          d = \<lparr>mt_Device = device, mt_DeviceType = [], mt_Mountpoint = mountPoint, mt_Fstype = fstype,
            mt_Type = fsTypeMap (st_Type stat), mt_Opts = mountOpts, mt_Total = st_Blocks stat * bs, mt_Free = st_Bavail stat * bs,
            mt_Used = (st_Blocks stat - st_Bfree stat) * bs, mt_Inodes = st_Files stat, mt_InodesFree = st_Ffree stat,
            mt_InodesUsed = st_Files stat - st_Ffree stat, mt_Blocks = st_Blocks stat, mt_BlockSize = bs, mt_Metadata = stat\<rparr>
      in d\<lparr>mt_DeviceType := deviceType d, mt_Device := mapper_device device\<rparr>)"

text \<open>
  \<open>Mounts\<close>. A field that is missing is an index out of range. The error of \<open>statfs\<close> is an error number, which never equals
  \<open>os.ErrPermission\<close>: the entry is left out with a warning, whatever the error.
\<close>

datatype mounts_res = MPanic | MErr "string option" | MOk "Mount list" "string list"

definition mountinfo_file :: string where "mountinfo_file = ''/proc/self/mountinfo''"

fun read_entry :: "(string \<Rightarrow> string + Statfs_t) \<Rightarrow> string \<Rightarrow> mounts_res" where
  "read_entry statfs line =
     (case split_str '' - '' line of
        [a, b] \<Rightarrow>
          (let f = Fields a; g = Fields b in
           if length f < 6 \<or> length g < 2 then MPanic
           else (let mountPoint = unescapeFstab (f ! 4) in
             case statfs mountPoint of
               Inl e \<Rightarrow> MOk [] [mountPoint @ '': '' @ e]
             | Inr stat \<Rightarrow> MOk [mount_of (unescapeFstab (g ! 1)) mountPoint (unescapeFstab (g ! 0)) (f ! 5) stat] []))
      | _ \<Rightarrow> MErr (Some (''found invalid mountinfo line in file '' @ mountinfo_file @ '': '' @ line)))"

declare read_entry.simps [simp del]

fun read_entries :: "(string \<Rightarrow> string + Statfs_t) \<Rightarrow> string list \<Rightarrow> mounts_res" where
  "read_entries statfs [] = MOk [] []"
| "read_entries statfs (l # ls) =
     (case read_entry statfs l of
        MOk ms ws \<Rightarrow> (case read_entries statfs ls of MOk ms1 ws1 \<Rightarrow> MOk (ms @ ms1) (ws @ ws1) | r \<Rightarrow> r)
      | r \<Rightarrow> r)"

definition Mounts_op :: "(string \<Rightarrow> string + Statfs_t) \<Rightarrow> string option \<Rightarrow> mounts_res" where
  "Mounts_op statfs file = (case readLines file of None \<Rightarrow> MErr None | Some ls \<Rightarrow> read_entries statfs ls)"

datatype usage_res = UPanic | UErr "string option" | UNoSuchMount | UOk u64 string

definition getMountUsage :: "(string \<Rightarrow> string + Statfs_t) \<Rightarrow> string option \<Rightarrow> string \<Rightarrow> usage_res" where
  "getMountUsage statfs file mountPoint =
     (case Mounts_op statfs file of MPanic \<Rightarrow> UPanic | MErr e \<Rightarrow> UErr e
      | MOk ms ws \<Rightarrow> (case find (\<lambda>m. mt_Mountpoint m = mountPoint) ms of
          None \<Rightarrow> UNoSuchMount | Some m \<Rightarrow> UOk (mt_Used m) (mt_Device m)))"

text \<open>\<open>findMounts\<close> on the cleaned path; its loop keeps the entries that are closest so far.\<close>

fun find_loop :: "string \<Rightarrow> Mount list \<Rightarrow> Mount list \<Rightarrow> Mount list" where
  "find_loop path [] m = m"
| "find_loop path (v # vs) m =
     (if path = mt_Device v then [v]
      else if hasPrefix path (mt_Mountpoint v) then
        (let nm = filter (\<lambda>mv. length (mt_Mountpoint v) \<le> length (mt_Mountpoint mv)) m
         in find_loop path vs (case nm of [] \<Rightarrow> nm @ [v]
              | x # xs \<Rightarrow> if length (mt_Mountpoint x) \<le> length (mt_Mountpoint v) then nm @ [v] else nm))
      else find_loop path vs m)"

definition findMounts :: "(string \<Rightarrow> string option) \<Rightarrow> Mount list \<Rightarrow> string \<Rightarrow> Mount list option" where
  "findMounts resolve mounts path = (case resolve path of None \<Rightarrow> None | Some p \<Rightarrow> Some (find_loop p mounts []))"

section \<open>What the kernel writes\<close>

text \<open>
  A line of the table, as the manual page of \<open>proc\<close> describes it. The kernel writes some characters of the names in octal, at
  least blank, tab, line feed and backslash; which ones is the parameter \<open>E\<close>.
\<close>

definition octal :: "char \<Rightarrow> string" where
  "octal c = (let n = of_char c in [CHR 0x5C, digit_char (n div 64), digit_char (n div 8 mod 8), digit_char (n mod 8)])"

definition mangle :: "(char \<Rightarrow> bool) \<Rightarrow> string \<Rightarrow> string" where
  "mangle E s = concat (map (\<lambda>c. if E c then octal c else [c]) s)"

record entry =
  en_ids :: "string list"
  en_root :: string
  en_point :: string
  en_opts :: string
  en_tags :: "string list"
  en_fstype :: string
  en_device :: string
  en_super :: string

definition entry_line :: "(char \<Rightarrow> bool) \<Rightarrow> entry \<Rightarrow> string" where
  "entry_line E e = join_on '' '' (en_ids e @ [mangle E (en_root e), mangle E (en_point e), en_opts e] @ en_tags e)
     @ '' - '' @ join_on '' '' [mangle E (en_fstype e), mangle E (en_device e), en_super e]"

definition wordy :: "string \<Rightarrow> bool" where
  "wordy w \<longleftrightarrow> w \<noteq> [] \<and> w \<noteq> ''-'' \<and> (\<forall>c\<in>set w. \<not> is_space c)"

definition nameable :: "(char \<Rightarrow> bool) \<Rightarrow> string \<Rightarrow> bool" where
  "nameable E p \<longleftrightarrow> p \<noteq> [] \<and> p \<noteq> ''-'' \<and> CHR 0x22 \<notin> set p \<and> (\<forall>c\<in>set p. is_space c \<longrightarrow> E c)"

definition escapes_enough :: "(char \<Rightarrow> bool) \<Rightarrow> bool" where
  "escapes_enough E \<longleftrightarrow> E (CHR '' '') \<and> E (CHR 0x09) \<and> E (CHR 0x0A) \<and> E (CHR 0x5C)"

definition entry_ok :: "(char \<Rightarrow> bool) \<Rightarrow> entry \<Rightarrow> bool" where
  "entry_ok E e \<longleftrightarrow> length (en_ids e) = 3 \<and> list_all wordy (en_ids e @ [en_opts e] @ en_tags e @ [en_super e])
     \<and> list_all (nameable E) [en_root e, en_point e, en_fstype e, en_device e] \<and> length (entry_line E e) < 65536"

definition mountinfo :: "(char \<Rightarrow> bool) \<Rightarrow> entry list \<Rightarrow> string" where
  "mountinfo E es = concat (map (\<lambda>e. entry_line E e @ [CHR 0x0A]) es)"

subsection \<open>Names\<close>

lemma of_char_less: "(of_char c :: nat) < 256"
  by (rule nat_of_char_less_256)

lemma unescape_octal: "unescape (drop 1 (octal c) @ r) = Some ([c], 3)"
proof -
  define n :: nat where "n = of_char c"
  have n: "n < 256" unfolding n_def by (rule of_char_less)
  have d: "n div 64 mod 10 = n div 64" "n div 8 mod 8 mod 10 = n div 8 mod 8" "n mod 8 mod 10 = n mod 8"
    using n by auto
  have q: "n div 64 = n div 8 div 8" by (simp add: div_mult2_eq [symmetric])
  have "8 * (8 * (n div 64) + n div 8 mod 8) + n mod 8 = n" unfolding q by simp
  then have v: "64 * (n div 64) + 8 * (n div 8 mod 8) + n mod 8 = n" by simp
  have o: "is_octal (digit_char (n div 64))" "is_octal (digit_char (n div 8 mod 8))" "is_octal (digit_char (n mod 8))"
    using n by (auto simp: is_octal_def d)
  have c: "char_of n = c" unfolding n_def by simp
  show ?thesis unfolding octal_def Let_def n_def[symmetric]
    using n by (simp add: unescape_def o d v c Let_def numeral_2_eq_2)
qed

lemma length_octal: "length (octal c) = 4" and hd_octal: "octal c = CHR 0x5C # drop 1 (octal c)"
  by (simp_all add: octal_def Let_def)

lemma unquote_octal: "unquote_body (octal c @ r) = map_option (\<lambda>t. c # t) (unquote_body r)"
proof -
  obtain t where t: "octal c = CHR 0x5C # t" "length t = 3" using hd_octal[of c] length_octal[of c] by (cases "octal c") auto
  then show ?thesis using unescape_octal[of c r] by (cases "unquote_body r") simp_all
qed

lemma unquote_mangle:
  assumes "escapes_enough E" "CHR 0x22 \<notin> set s"
  shows "unquote_body (mangle E s @ [CHR 0x22]) = Some s"
  using assms(2)
proof (induction s)
  case (Cons c s)
  show ?case
  proof (cases "E c")
    case True
    then show ?thesis using Cons by (simp add: mangle_def unquote_octal)
  next
    case False
    then have "c \<noteq> CHR 0x5C" "c \<noteq> CHR 0x0A" "c \<noteq> CHR 0x22" using assms(1) Cons.prems by (auto simp: escapes_enough_def)
    then show ?thesis using Cons False by (simp add: mangle_def)
  qed
qed (simp add: mangle_def)

lemma unescape_mangle: "escapes_enough E \<Longrightarrow> nameable E s \<Longrightarrow> unescapeFstab (mangle E s) = s"
  by (simp add: unescapeFstab_def unquote_mangle nameable_def)

lemma wordy_mangle:
  assumes "nameable E s"
  shows "wordy (mangle E s)"
proof -
  have sp: "\<not> is_space (digit_char d)" "\<not> is_space (CHR 0x5C)" for d by (auto simp: is_space_def)
  have "\<not> is_space c" if "c \<in> set (mangle E s)" for c
    using that assms sp by (auto simp: mangle_def octal_def Let_def nameable_def split: if_splits)
  moreover have "mangle E s \<noteq> []" using assms by (cases s) (auto simp: mangle_def nameable_def octal_def Let_def)
  moreover have "mangle E s \<noteq> ''-''"
  proof
    assume a: "mangle E s = ''-''"
    obtain c t where s: "s = c # t" using assms by (cases s) (auto simp: nameable_def)
    show False
    proof (cases "E c")
      case True
      then show False using a s by (simp add: mangle_def octal_def Let_def)
    next
      case False
      then have "c = CHR ''-''" "mangle E t = []" using a s by (simp_all add: mangle_def)
      then have "t = []" by (cases t) (auto simp: mangle_def octal_def Let_def split: if_splits)
      then show False using assms s \<open>c = CHR ''-''\<close> by (simp add: nameable_def)
    qed
  qed
  ultimately show ?thesis by (simp add: wordy_def)
qed

subsection \<open>Words and lines\<close>

lemma split_by_not_Nil [simp]: "split_by P s \<noteq> []"
  by (induction s) (auto split: list.splits)

lemma split_by_word: "\<forall>c\<in>set w. \<not> P c \<Longrightarrow> split_by P w = [w]"
  by (induction w) auto

lemma split_by_append: "P c \<Longrightarrow> split_by P (s @ c # t) = split_by P s @ split_by P t"
  by (induction s) (auto split: list.splits)

lemma Fields_join: "list_all wordy ws \<Longrightarrow> Fields (join_on '' '' ws) = ws"
proof (induction ws)
  case (Cons w ws)
  have w: "split_by is_space w = [w]" "w \<noteq> []" using Cons.prems by (auto simp: wordy_def intro: split_by_word)
  have b: "is_space (CHR '' '')" by (simp add: is_space_def)
  show ?case
  proof (cases ws)
    case Nil
    then show ?thesis using w by (simp add: Fields_def)
  next
    case (Cons v vs)
    then show ?thesis using Cons.IH Cons.prems w split_by_append[where P = is_space and s = w, OF b]
      by (simp add: Fields_def join_on_Cons)
  qed
qed (simp add: Fields_def)

abbreviation split_dash :: "string \<Rightarrow> string list" where
  "split_dash s \<equiv> split_str '' - '' s"

lemma split_dash_Nil: "split_dash [] = [[]]"
  by (simp add: split_str.simps)

lemma split_dash_not_Nil: "split_dash s \<noteq> []"
  by (subst split_str.simps) (auto split: list.splits)

lemma split_dash_Cons:
  "\<not> hasPrefix (c # s) '' - '' \<Longrightarrow> split_dash (c # s) = (c # hd (split_dash s)) # tl (split_dash s)"
  using split_dash_not_Nil[of s] by (subst split_str.simps) (auto split: list.splits)

lemma split_dash_sep: "split_dash ('' - '' @ s) = [] # split_dash s"
  by (subst split_str.simps) (simp add: hasPrefix_def)

lemma split_dash_word:
  "\<forall>c\<in>set w. \<not> is_space c \<Longrightarrow> split_dash (w @ s) = (w @ hd (split_dash s)) # tl (split_dash s)"
proof (induction w)
  case (Cons c w)
  have "c \<noteq> CHR '' ''" using Cons.prems by (auto simp: is_space_def)
  then have "\<not> hasPrefix (c # w @ s) '' - ''" by (simp add: hasPrefix_def)
  then show ?case using Cons by (simp add: split_dash_Cons)
qed (simp add: split_dash_not_Nil)

lemma split_dash_words:
  assumes "list_all wordy ws" "ws \<noteq> []" "t = [] \<or> (\<exists>t'. t = CHR '' '' # t')"
  shows "split_dash (join_on '' '' ws @ t) = (join_on '' '' ws @ hd (split_dash t)) # tl (split_dash t)"
  using assms(1,2)
proof (induction ws)
  case (Cons w ws)
  have w: "\<forall>c\<in>set w. \<not> is_space c" using Cons.prems by (simp add: wordy_def)
  show ?case
  proof (cases ws)
    case Nil
    then show ?thesis using split_dash_word[OF w] by simp
  next
    case (Cons v vs)
    let ?X = "join_on '' '' ws @ t"
    obtain x v' where v: "v = x # v'" "v' = [] \<longrightarrow> x \<noteq> CHR ''-''" "\<forall>c\<in>set v'. \<not> is_space c"
      using Cons.prems Cons by (cases v) (auto simp: wordy_def)
    have "\<exists>r. ?X = v @ r \<and> (r = [] \<or> (\<exists>r'. r = CHR '' '' # r'))"
      using Cons assms(3) by (cases vs) auto
    then obtain r where r: "?X = v @ r" by blast
    have "\<not> hasPrefix (CHR '' '' # ?X) '' - ''"
    proof (cases v')
      case Nil
      then show ?thesis using v r by (simp add: hasPrefix_def)
    next
      case (Cons y z)
      then have "y \<noteq> CHR '' ''" using v(3) by (auto simp: is_space_def)
      then show ?thesis using v(1) r Cons by (simp add: hasPrefix_def)
    qed
    then have "split_dash (CHR '' '' # ?X) = (CHR '' '' # join_on '' '' ws @ hd (split_dash t)) # tl (split_dash t)"
      using Cons.IH Cons.prems Cons by (simp add: split_dash_Cons)
    then show ?thesis using split_dash_word[OF w, of "CHR '' '' # ?X"] Cons by (simp add: join_on_Cons)
  qed
qed simp

text \<open>One line is read back.\<close>

definition entry_mounts :: "(string \<Rightarrow> string + Statfs_t) \<Rightarrow> entry \<Rightarrow> Mount list" where
  "entry_mounts statfs e = (case statfs (en_point e) of Inl x \<Rightarrow> []
     | Inr st \<Rightarrow> [mount_of (en_device e) (en_point e) (en_fstype e) (en_opts e) st])"

definition entry_warnings :: "(string \<Rightarrow> string + Statfs_t) \<Rightarrow> entry \<Rightarrow> string list" where
  "entry_warnings statfs e = (case statfs (en_point e) of Inl x \<Rightarrow> [en_point e @ '': '' @ x] | Inr st \<Rightarrow> [])"

lemma entry_words:
  assumes "entry_ok E e"
  shows "list_all wordy (en_ids e @ [mangle E (en_root e), mangle E (en_point e), en_opts e] @ en_tags e)"
    "list_all wordy [mangle E (en_fstype e), mangle E (en_device e), en_super e]"
  using assms wordy_mangle[of E] by (auto simp: entry_ok_def)

lemma read_entry_line:
  assumes E: "escapes_enough E" and e: "entry_ok E e"
  shows "read_entry statfs (entry_line E e) = MOk (entry_mounts statfs e) (entry_warnings statfs e)"
proof -
  let ?a = "en_ids e @ [mangle E (en_root e), mangle E (en_point e), en_opts e] @ en_tags e"
  let ?b = "[mangle E (en_fstype e), mangle E (en_device e), en_super e]"
  have "split_dash (entry_line E e) = (join_on '' '' ?a @ hd (split_dash ('' - '' @ join_on '' '' ?b)))
      # tl (split_dash ('' - '' @ join_on '' '' ?b))"
    unfolding entry_line_def by (rule split_dash_words) (use entry_words(1)[OF e] in auto)
  moreover have "split_dash (join_on '' '' ?b) = [join_on '' '' ?b]"
    using split_dash_words[OF entry_words(2)[OF e], of "[]"] by (simp add: split_dash_Nil)
  ultimately have s: "split_dash (entry_line E e) = [join_on '' '' ?a, join_on '' '' ?b]"
    unfolding split_dash_sep by simp
  have f: "Fields (join_on '' '' ?a) = ?a" "Fields (join_on '' '' ?b) = ?b"
    by (rule Fields_join, rule entry_words[OF e])+
  have n: "?a ! 4 = mangle E (en_point e)" "?a ! 5 = en_opts e" "length ?a \<ge> 6"
    using e by (simp_all add: entry_ok_def nth_append)
  have u: "unescapeFstab (mangle E (en_point e)) = en_point e" "unescapeFstab (mangle E (en_fstype e)) = en_fstype e"
    "unescapeFstab (mangle E (en_device e)) = en_device e"
    using e by (auto simp: entry_ok_def intro: unescape_mangle[OF E])
  show ?thesis
    unfolding read_entry.simps s list.case f Let_def n(1,2) u entry_mounts_def entry_warnings_def
    using n(3) u by (simp split: sum.split)
qed

subsection \<open>The table\<close>

lemma entry_line_chars:
  assumes "entry_ok E e" "c \<in> set (entry_line E e)"
  shows "c = CHR '' '' \<or> \<not> is_space c"
proof -
  have j: "c = CHR '' '' \<or> \<not> is_space c" if "list_all wordy ws" "c \<in> set (join_on '' '' ws)" for ws
    using that by (induction ws rule: induct_list012) (auto simp: wordy_def)
  have h: "c \<in> set '' - '' \<Longrightarrow> c = CHR '' '' \<or> \<not> is_space c" by (auto simp: is_space_def)
  show ?thesis
    using assms(2) j[OF entry_words(1)[OF assms(1)]] j[OF entry_words(2)[OF assms(1)]] h
    unfolding entry_line_def set_append by blast
qed

lemma split_lines: "\<forall>l\<in>set ls. CHR 0x0A \<notin> set l \<Longrightarrow> split_on (CHR 0x0A) (concat (map (\<lambda>l. l @ [CHR 0x0A]) ls)) = ls @ [[]]"
proof (induction ls)
  case (Cons l ls)
  then show ?case using split_on_append[of "CHR 0x0A" l] by (simp add: split_on_no_sep)
qed simp

lemma drop_cr_id: "CHR 0x0D \<notin> set l \<Longrightarrow> drop_cr l = l"
  by (cases l rule: rev_cases) (auto simp: drop_cr_def trimSuffix_def hasSuffix_def hasPrefix_def)

lemma readLines_mountinfo:
  assumes "list_all (entry_ok E) es"
  shows "readLines (Some (mountinfo E es)) = Some (map (entry_line E) es)"
proof -
  have c: "CHR 0x0A \<notin> set (entry_line E e)" "CHR 0x0D \<notin> set (entry_line E e)" "length (entry_line E e) < 65536" if "e \<in> set es" for e
  proof -
    have e: "entry_ok E e" using assms that by (simp add: list_all_iff)
    have "is_space (CHR 0x0A)" "is_space (CHR 0x0D)" by (simp_all add: is_space_def)
    then show "CHR 0x0A \<notin> set (entry_line E e)" "CHR 0x0D \<notin> set (entry_line E e)"
      using entry_line_chars[OF e] by blast+
    show "length (entry_line E e) < 65536" using e by (simp add: entry_ok_def)
  qed
  have "split_on (CHR 0x0A) (mountinfo E es) = map (entry_line E) es @ [[]]"
    using split_lines[of "map (entry_line E) es"] c(1) by (simp add: mountinfo_def comp_def)
  moreover have "map drop_cr (map (entry_line E) es) = map (entry_line E) es"
    using c(2) by (simp add: drop_cr_id)
  ultimately show ?thesis using c(3) by (simp add: readLines_def Let_def)
qed

lemma read_entry_lines:
  assumes E: "escapes_enough E" and es: "list_all (entry_ok E) es"
  shows "read_entries statfs (map (entry_line E) es) =
    MOk (concat (map (entry_mounts statfs) es)) (concat (map (entry_warnings statfs) es))"
  using es by (induction es) (simp_all add: read_entry_line[OF E])


lemma getMountUsage_mountinfo:
  assumes E: "escapes_enough E" and es: "list_all (entry_ok E) es"
  shows "getMountUsage statfs (Some (mountinfo E es)) p =
    (case (statfs p, find (\<lambda>e. en_point e = p) es) of
       (Inr st, Some e) \<Rightarrow> UOk ((st_Blocks st - st_Bfree st) * st_Bsize st) (mapper_device (en_device e))
     | _ \<Rightarrow> UNoSuchMount)"
proof -
  have pt: "m \<in> set (entry_mounts statfs e) \<Longrightarrow> mt_Mountpoint m = en_point e" for m e
    by (auto simp: entry_mounts_def mount_of_def Let_def split: sum.splits)
  have "find (\<lambda>m. mt_Mountpoint m = p) (concat (map (entry_mounts statfs) es)) =
    (case (statfs p, find (\<lambda>e. en_point e = p) es) of
       (Inr st, Some e) \<Rightarrow> Some (mount_of (en_device e) p (en_fstype e) (en_opts e) st) | _ \<Rightarrow> None)"
  proof (induction es)
    case (Cons e es)
    then show ?case
      by (cases "statfs (en_point e)") (auto simp: entry_mounts_def mount_of_def Let_def split: sum.split)
  qed (simp split: sum.split)
  then show ?thesis using read_entry_lines[OF E es]
    unfolding getMountUsage_def Mounts_op_def readLines_mountinfo[OF es]
    by (auto simp: mount_of_def Let_def split: sum.split option.split)
qed

section \<open>The usage of a tenant\<close>

text \<open>
  The sample function of \<open>RegisterEfsSampler\<close>: the used bytes, the identifier that is reported, and the identifier that the
  configuration has afterwards. \<open>du\<close> is what \<open>DiskUsage\<close> finds when the store is no mount point.
\<close>

definition efs_sample :: "usage_res \<Rightarrow> i64 \<Rightarrow> string \<Rightarrow> (u64 \<times> string \<times> string) option" where
  "efs_sample usage du nfsID = (case usage of
     UPanic \<Rightarrow> None
   | UOk used device \<Rightarrow>
       (if nfsID = ''-'' then (let fid = trimRightP (\<lambda>c. c \<in> set '':/'') device in Some (used, fid, fid)) else Some (used, nfsID, nfsID))
   | _ \<Rightarrow> Some (du, nfsID, nfsID))"

text \<open>C26: the EFS usage of a tenant is the number of used blocks of the mount at the store path times their size, as \<open>statfs\<close> gives
  them. Unless an identifier is configured, it is reported, now and later, for the device of the first entry of that path
  without a final \<open>:/\<close>. When the store is no mount point, or \<open>statfs\<close> fails, it is the sum of the file sizes.
\<close>

theorem efs_usage_exact:
  assumes E: "escapes_enough E" and es: "list_all (entry_ok E) es"
  shows "efs_sample (getMountUsage statfs (Some (mountinfo E es)) store) du nfsID =
    (case (statfs store, find (\<lambda>e. en_point e = store) es) of
       (Inr st, Some e) \<Rightarrow>
         (let fid = (if nfsID = ''-'' then trimRightP (\<lambda>c. c = CHR '':'' \<or> c = CHR ''/'') (mapper_device (en_device e)) else nfsID)
          in Some ((st_Blocks st - st_Bfree st) * st_Bsize st, fid, fid))
     | _ \<Rightarrow> Some (du, nfsID, nfsID))"
  unfolding getMountUsage_mountinfo[OF E es]
  by (simp add: efs_sample_def Let_def split: sum.split option.split)

text \<open>
  Of two mounts on one point the second hides the first. The usage is then that of the second, since \<open>statfs\<close> goes by the
  point, but the device is that of the first.
\<close>

lemma hidden_mount_device:
  assumes "escapes_enough E" "list_all (entry_ok E) (e1 # e2 # es)" "en_point e1 = p" "en_point e2 = p" "statfs p = Inr st"
  shows "read_entries statfs (map (entry_line E) (e1 # e2 # es)) = MOk (concat (map (entry_mounts statfs) (e1 # e2 # es)))
      (concat (map (entry_warnings statfs) (e1 # e2 # es)))"
    "find (\<lambda>m. mt_Mountpoint m = p) (concat (map (entry_mounts statfs) (e1 # e2 # es)))
      = Some (mount_of (en_device e1) p (en_fstype e1) (en_opts e1) st)"
  using read_entry_lines[OF assms(1,2)] assms(3,5) by (simp_all add: entry_mounts_def mount_of_def Let_def)

text \<open>A single mount whose device is a hyphen, which the kernel allows, makes \<open>Mounts\<close> fail for all; see the example below.\<close>

definition dash_line :: string where
  "dash_line = ''36 35 98:0 / /mnt rw - tmpfs - rw''"

lemma dash_device_fails: "\<exists>e. read_entry statfs dash_line = MErr (Some e)"
proof -
  have "split_dash dash_line = [''36 35 98:0 / /mnt rw'', ''tmpfs'', ''rw'']" unfolding dash_line_def by code_simp
  then show ?thesis by (simp add: read_entry.simps)
qed

text \<open>A name with a double quote is returned the way the kernel escaped it.\<close>

lemma quote_keeps_escapes: "unescapeFstab (mangle (\<lambda>c. is_space c \<or> c = CHR 0x5C) (''a b'' @ [CHR 0x22])) = ''a'' @ octal (CHR '' '') @ ''b'' @ [CHR 0x22]"
  by code_simp

section \<open>The closest mounts\<close>

definition closest :: "string \<Rightarrow> Mount list \<Rightarrow> Mount list" where
  "closest path ms = filter (\<lambda>v. hasPrefix path (mt_Mountpoint v)
     \<and> (\<forall>u\<in>set ms. hasPrefix path (mt_Mountpoint u) \<longrightarrow> length (mt_Mountpoint u) \<le> length (mt_Mountpoint v))) ms"

lemma closest_mem: "v \<in> set (closest path ms) \<longleftrightarrow> v \<in> set ms \<and> hasPrefix path (mt_Mountpoint v)
    \<and> (\<forall>u\<in>set ms. hasPrefix path (mt_Mountpoint u) \<longrightarrow> length (mt_Mountpoint u) \<le> length (mt_Mountpoint v))"
  by (auto simp: closest_def)

lemma closest_exists:
  assumes "u \<in> set ms" "hasPrefix path (mt_Mountpoint u)"
  shows "\<exists>v\<in>set (closest path ms). length (mt_Mountpoint u) \<le> length (mt_Mountpoint v)"
proof -
  let ?S = "{v \<in> set ms. hasPrefix path (mt_Mountpoint v)}"
  have f: "finite ((\<lambda>v. length (mt_Mountpoint v)) ` ?S)" "(\<lambda>v. length (mt_Mountpoint v)) ` ?S \<noteq> {}" using assms by auto
  obtain v where v: "v \<in> ?S" "length (mt_Mountpoint v) = Max ((\<lambda>v. length (mt_Mountpoint v)) ` ?S)"
    using Max_in[OF f] by auto
  have m: "length (mt_Mountpoint w) \<le> length (mt_Mountpoint v)" if "w \<in> ?S" for w
    unfolding v(2) by (rule Max_ge[OF f(1)]) (use that in auto)
  then have "v \<in> set (closest path ms)" using v(1) by (auto simp: closest_mem)
  then show ?thesis using m assms by auto
qed

lemma closest_snoc:
  assumes p: "hasPrefix path (mt_Mountpoint v)"
  shows "closest path (ms @ [v]) = (let nm = filter (\<lambda>mv. length (mt_Mountpoint v) \<le> length (mt_Mountpoint mv)) (closest path ms)
     in case nm of [] \<Rightarrow> nm @ [v] | x # xs \<Rightarrow> if length (mt_Mountpoint x) \<le> length (mt_Mountpoint v) then nm @ [v] else nm)"
proof -
  let ?nm = "filter (\<lambda>mv. length (mt_Mountpoint v) \<le> length (mt_Mountpoint mv)) (closest path ms)"
  let ?best = "\<forall>u\<in>set ms. hasPrefix path (mt_Mountpoint u) \<longrightarrow> length (mt_Mountpoint u) \<le> length (mt_Mountpoint v)"
  have c: "closest path (ms @ [v]) = ?nm @ (if ?best then [v] else [])"
    using p by (auto simp: closest_def intro!: filter_cong)
  show ?thesis
  proof (cases ?nm)
    case Nil
    have ?best
    proof (intro ballI impI)
      fix u assume u: "u \<in> set ms" "hasPrefix path (mt_Mountpoint u)"
      obtain w where "w \<in> set (closest path ms)" "length (mt_Mountpoint u) \<le> length (mt_Mountpoint w)"
        using closest_exists[OF u] by blast
      moreover have "\<not> length (mt_Mountpoint v) \<le> length (mt_Mountpoint w)" if "w \<in> set (closest path ms)" for w
        using that Nil by (auto simp: filter_empty_conv)
      ultimately show "length (mt_Mountpoint u) \<le> length (mt_Mountpoint v)" by (meson le_trans nat_le_linear)
    qed
    then show ?thesis unfolding c Nil Let_def by simp
  next
    case (Cons x xs)
    have "x \<in> set ?nm" unfolding Cons by simp
    then have x: "x \<in> set (closest path ms)" by simp
    have "?best \<longleftrightarrow> length (mt_Mountpoint x) \<le> length (mt_Mountpoint v)"
      using x unfolding closest_mem by (meson le_trans)
    then show ?thesis unfolding c Let_def by (simp add: Cons)
  qed
qed

lemma closest_skip: "\<not> hasPrefix path (mt_Mountpoint v) \<Longrightarrow> closest path (ms @ [v]) = closest path ms"
  by (auto simp: closest_def intro!: filter_cong)

text \<open>
  \<open>findMounts\<close> returns the first mount whose device is the path, and without one exactly the mounts with the longest mount
  point that the path starts with, in their order. The comparison is one of strings: \<open>/mnt/a\<close> counts for \<open>/mnt/ab\<close>.
\<close>

lemma findMounts_closest:
  assumes "resolve path = Some q"
  shows "findMounts resolve ms path = Some (case find (\<lambda>v. mt_Device v = q) ms of Some v \<Rightarrow> [v] | None \<Rightarrow> closest q ms)"
proof -
  have L: "find_loop q vs (closest q ps) = (case find (\<lambda>v. mt_Device v = q) vs of Some v \<Rightarrow> [v] | None \<Rightarrow> closest q (ps @ vs))" for vs ps
  proof (induction vs arbitrary: ps)
    case (Cons v vs)
    show ?case
    proof (cases "q = mt_Device v")
      case False
      have l: "find_loop q (v # vs) (closest q ps) = find_loop q vs (closest q (ps @ [v]))"
        using False closest_snoc[of q v ps] closest_skip[of q v ps] by (simp add: Let_def)
      show ?thesis unfolding l using Cons.IH[of "ps @ [v]"] False
        by (cases "find (\<lambda>v. mt_Device v = q) vs") auto
    qed simp
  qed simp
  have "closest q [] = []" by (simp add: closest_def)
  with L[of ms "[]"] show ?thesis using assms
    by (cases "find (\<lambda>v. mt_Device v = q) ms") (simp_all add: findMounts_def)
qed

section \<open>Examples\<close>

definition demo_stat :: Statfs_t where
  "demo_stat = \<lparr>st_Type = 0x6969, st_Bsize = 4096, st_Blocks = 100, st_Bfree = 40, st_Bavail = 40, st_Files = 7, st_Ffree = 2\<rparr>"

definition demo_entry :: entry where
  "demo_entry = \<lparr>en_ids = [''36'', ''35'', ''98:0''], en_root = ''/'', en_point = ''/my store'', en_opts = ''rw'', en_tags = [],
     en_fstype = ''nfs4'', en_device = ''fs-1:/'', en_super = ''rw''\<rparr>"

definition demo_escapes :: "char \<Rightarrow> bool" where
  "demo_escapes c \<longleftrightarrow> is_space c \<or> c = CHR 0x5C"

lemma demo_ok: "escapes_enough demo_escapes" "list_all (entry_ok demo_escapes) [demo_entry]"
proof -
  show "escapes_enough demo_escapes" by (simp add: escapes_enough_def demo_escapes_def is_space_def)
  have "length (entry_line demo_escapes demo_entry) = 45" by code_simp
  then show "list_all (entry_ok demo_escapes) [demo_entry]"
    by (simp add: entry_ok_def demo_entry_def wordy_def nameable_def demo_escapes_def is_space_def)
qed


theorem efs_usage_exact_witness:
  "efs_sample (getMountUsage (\<lambda>_. Inr demo_stat) (Some (mountinfo demo_escapes [demo_entry])) ''/my store'') 0 ''-''
     = Some (245760, ''fs-1'', ''fs-1'')"
  using efs_usage_exact[OF demo_ok, of "\<lambda>_. Inr demo_stat" "''/my store''" 0 "''-''"]
  by (simp add: demo_entry_def demo_stat_def mapper_device_def hasPrefix_def trimRightP_def Let_def)

end
