(* ===== verification/Sampler.thy ===== *)
theory Sampler
  imports Prelude
begin

text \<open>
  The sampler, \<open>pkg/sampler/sampler.go\<close>: one goroutine per registered user calls a sample function at each tick and sends what
  it returns to a handler. Callers, the two loops and the goroutines of the jobs meet at unbuffered channels and at the mutex of
  the sampler; a step is one of these meetings. The result of a sample function is part of the event. A caller that cannot go on
  yet is an event that changes nothing.
\<close>

section \<open>State\<close>

text \<open>Who stops a job: \<open>Stop\<close> or \<open>DeRegister\<close> (with \<open>True\<close>), or \<open>StopAll\<close>.\<close>

datatype closer = Stopper bool | AllStopper

text \<open>
  The goroutine of a job: not started, waiting in its \<open>select\<close>, sending a sample, or past its loop and about to tell the closer.
\<close>

datatype 'v job_phase = Unstarted | Waiting | Sending 'v | Leaving closer | Gone

record 'v SampleJob =
  sj_id :: int
  sj_phase :: "'v job_phase"
  sj_taken :: "'v list"          \<comment> \<open>what the sample function has returned\<close>
  sj_got :: "'v list"            \<comment> \<open>what the handlers have received\<close>
  sj_stoppers :: "bool list"     \<comment> \<open>calls of \<open>Stop\<close> and \<open>DeRegister\<close> that want to send on \<open>close\<close>\<close>
  sj_forget :: bool              \<comment> \<open>a \<open>DeRegister\<close> that is about to delete the entry\<close>
  sj_handlers :: nat
  sj_closed :: bool

datatype loop_state = Ready | Holding int | Ended

datatype stop_all = NotCalled | Held | Closing nat | Done

record 'v Sampler =
  sp_ctx :: "int \<rightharpoonup> nat"
  sp_jobs :: "'v SampleJob list"
  sp_producers :: "int list"     \<comment> \<open>calls of \<open>Register\<close> that send on \<open>newProducerRegistered\<close>\<close>
  sp_monitor :: loop_state       \<comment> \<open>the loop of \<open>Start\<close>\<close>
  sp_consumers :: "int list"     \<comment> \<open>goroutines that send on \<open>jobConsumerRegistered\<close>\<close>
  sp_handle :: loop_state        \<comment> \<open>the loop of \<open>Handle\<close>\<close>
  sp_all :: stop_all
  sp_panic :: bool

definition new_job :: "int \<Rightarrow> 'v SampleJob" where
  "new_job u = \<lparr>sj_id = u, sj_phase = Unstarted, sj_taken = [], sj_got = [], sj_stoppers = [], sj_forget = False, sj_handlers = 0,
     sj_closed = False\<rparr>"

definition NewSampler :: "'v Sampler" where
  "NewSampler = \<lparr>sp_ctx = Map.empty, sp_jobs = [], sp_producers = [], sp_monitor = Ready, sp_consumers = [], sp_handle = Ready,
     sp_all = NotCalled, sp_panic = False\<rparr>"

text \<open>\<open>StopAll\<close> keeps the mutex until it has closed every job.\<close>

definition locked :: "'v Sampler \<Rightarrow> bool" where
  "locked s \<longleftrightarrow> sp_all s = Held \<or> (\<exists>j. sp_all s = Closing j)"

lemma locked_code [code]: "locked s = (case sp_all s of Held \<Rightarrow> True | Closing j \<Rightarrow> True | _ \<Rightarrow> False)"
  by (auto simp: locked_def split: stop_all.split)

definition on_job :: "nat \<Rightarrow> ('v SampleJob \<Rightarrow> 'v SampleJob) \<Rightarrow> 'v Sampler \<Rightarrow> 'v Sampler" where
  "on_job j f s = (if j < length (sp_jobs s) then s\<lparr>sp_jobs := (sp_jobs s)[j := f (sp_jobs s ! j)]\<rparr> else s)"

section \<open>Registration\<close>

text \<open>\<open>Register\<close> up to the send, which is a step of the monitor; an error when the user is registered.\<close>

definition Register :: "int \<Rightarrow> 'v Sampler \<Rightarrow> bool \<times> 'v Sampler" where
  "Register user s = (if locked s then (False, s) else if sp_ctx s user \<noteq> None then (True, s)
     else (False, s\<lparr>sp_ctx := (sp_ctx s)(user \<mapsto> length (sp_jobs s)), sp_jobs := sp_jobs s @ [new_job user],
            sp_producers := sp_producers s @ [user]\<rparr>))"

text \<open>The loop of \<open>Start\<close>: it receives a user, and then, with the mutex, starts the job of that user.\<close>

definition take_producer :: "nat \<Rightarrow> 'v Sampler \<Rightarrow> 'v Sampler" where
  "take_producer k s = (if sp_monitor s = Ready \<and> k < length (sp_producers s)
     then s\<lparr>sp_monitor := Holding (sp_producers s ! k), sp_producers := drop_nth k (sp_producers s)\<rparr> else s)"

definition kickstart :: "'v Sampler \<Rightarrow> 'v Sampler" where
  "kickstart s = (case sp_monitor s of
     Holding user \<Rightarrow>
       if locked s then s
       else (case sp_ctx s user of
           None \<Rightarrow> s\<lparr>sp_panic := True\<rparr>
         | Some j \<Rightarrow> (on_job j (\<lambda>x. x\<lparr>sj_phase := Waiting\<rparr>) s)\<lparr>sp_monitor := Ready, sp_consumers := sp_consumers s @ [user]\<rparr>)
   | _ \<Rightarrow> s)"

text \<open>\<open>Handle\<close>: it receives a user, looks up the channel, and starts a handler on it; on a nil channel that waits for ever.\<close>

definition take_consumer :: "nat \<Rightarrow> 'v Sampler \<Rightarrow> 'v Sampler" where
  "take_consumer k s = (if sp_handle s = Ready \<and> k < length (sp_consumers s)
     then s\<lparr>sp_handle := Holding (sp_consumers s ! k), sp_consumers := drop_nth k (sp_consumers s)\<rparr> else s)"

definition Channel :: "int \<Rightarrow> 'v Sampler \<Rightarrow> nat option" where
  "Channel user s = sp_ctx s user"

definition attach :: "'v Sampler \<Rightarrow> 'v Sampler" where
  "attach s = (case sp_handle s of
     Holding user \<Rightarrow>
       if locked s then s
       else (case Channel user s of
           None \<Rightarrow> s\<lparr>sp_handle := Ready\<rparr>
         | Some j \<Rightarrow> (on_job j (\<lambda>x. x\<lparr>sj_handlers := sj_handlers x + 1\<rparr>) s)\<lparr>sp_handle := Ready\<rparr>)
   | _ \<Rightarrow> s)"

section \<open>Sampling\<close>

definition sample :: "nat \<Rightarrow> 'v \<Rightarrow> 'v Sampler \<Rightarrow> 'v Sampler" where
  "sample j v = on_job j (\<lambda>x. if sj_phase x = Waiting then x\<lparr>sj_phase := Sending v, sj_taken := sj_taken x @ [v]\<rparr> else x)"

definition deliver :: "nat \<Rightarrow> 'v Sampler \<Rightarrow> 'v Sampler" where
  "deliver j = on_job j (\<lambda>x. case sj_phase x of
     Sending v \<Rightarrow> if sj_handlers x = 0 then x else x\<lparr>sj_phase := Waiting, sj_got := sj_got x @ [v]\<rparr> | _ \<Rightarrow> x)"

section \<open>Stopping\<close>

text \<open>\<open>Stop\<close> and \<open>DeRegister\<close> begin by looking up the job.\<close>

definition stop_call :: "bool \<Rightarrow> int \<Rightarrow> 'v Sampler \<Rightarrow> 'v Sampler" where
  "stop_call dereg user s = (if locked s then s else (case sp_ctx s user of None \<Rightarrow> s
     | Some j \<Rightarrow> on_job j (\<lambda>x. x\<lparr>sj_stoppers := sj_stoppers x @ [dereg]\<rparr>) s))"

text \<open>\<open>Close\<close> of a job: the send on \<open>close\<close>, and the receipt of \<open>done\<close> with the closing of the channel.\<close>

definition close_sent :: "nat \<Rightarrow> nat \<Rightarrow> 'v Sampler \<Rightarrow> 'v Sampler" where
  "close_sent j k = on_job j (\<lambda>x. if sj_phase x = Waiting \<and> k < length (sj_stoppers x)
     then x\<lparr>sj_phase := Leaving (Stopper (sj_stoppers x ! k)), sj_stoppers := drop_nth k (sj_stoppers x)\<rparr> else x)"

definition close_acked :: "nat \<Rightarrow> 'v Sampler \<Rightarrow> 'v Sampler" where
  "close_acked j s = (if j < length (sp_jobs s) then
     (case sj_phase (sp_jobs s ! j) of
        Leaving (Stopper dereg) \<Rightarrow>
          (on_job j (\<lambda>x. x\<lparr>sj_phase := Gone, sj_forget := dereg, sj_closed := True\<rparr>) s)
            \<lparr>sp_panic := sp_panic s \<or> sj_closed (sp_jobs s ! j)\<rparr>
      | _ \<Rightarrow> s) else s)"

definition forget :: "nat \<Rightarrow> 'v Sampler \<Rightarrow> 'v Sampler" where
  "forget j s = (if j < length (sp_jobs s) \<and> sj_forget (sp_jobs s ! j) \<and> \<not> locked s
     then (on_job j (\<lambda>x. x\<lparr>sj_forget := False\<rparr>) s)\<lparr>sp_ctx := (sp_ctx s)(sj_id (sp_jobs s ! j) := None)\<rparr> else s)"

text \<open>\<open>StopAll\<close> goes through the map in any order.\<close>

definition stop_all_begin :: "'v Sampler \<Rightarrow> 'v Sampler" where
  "stop_all_begin s = (if sp_all s = NotCalled then s\<lparr>sp_all := Held\<rparr> else s)"

definition stop_all_pick :: "int \<Rightarrow> 'v Sampler \<Rightarrow> 'v Sampler" where
  "stop_all_pick user s = (case sp_ctx s user of None \<Rightarrow> s | Some j \<Rightarrow> if sp_all s = Held then s\<lparr>sp_all := Closing j\<rparr> else s)"

definition stop_all_sent :: "'v Sampler \<Rightarrow> 'v Sampler" where
  "stop_all_sent s = (case sp_all s of
     Closing j \<Rightarrow> on_job j (\<lambda>x. if sj_phase x = Waiting then x\<lparr>sj_phase := Leaving AllStopper\<rparr> else x) s | _ \<Rightarrow> s)"

definition stop_all_acked :: "'v Sampler \<Rightarrow> 'v Sampler" where
  "stop_all_acked s = (case sp_all s of
     Closing j \<Rightarrow>
       if j < length (sp_jobs s) \<and> sj_phase (sp_jobs s ! j) = Leaving AllStopper
       then (on_job j (\<lambda>x. x\<lparr>sj_phase := Gone, sj_closed := True\<rparr>) s)
         \<lparr>sp_panic := sp_panic s \<or> sj_closed (sp_jobs s ! j), sp_ctx := (sp_ctx s)(sj_id (sp_jobs s ! j) := None), sp_all := Held\<rparr>
       else s
   | _ \<Rightarrow> s)"

text \<open>The end: no user of a job is left, the mutex is given back and \<open>done\<close> is closed, upon which the two loops return.\<close>

definition stop_all_end :: "'v Sampler \<Rightarrow> 'v Sampler" where
  "stop_all_end s = (if sp_all s = Held \<and> list_all (\<lambda>x. sp_ctx s (sj_id x) = None) (sp_jobs s) then s\<lparr>sp_all := Done\<rparr> else s)"

definition loop_exit :: "'v Sampler \<Rightarrow> 'v Sampler" where
  "loop_exit s = (if sp_all s = Done then s\<lparr>sp_monitor := (if sp_monitor s = Ready then Ended else sp_monitor s),
     sp_handle := (if sp_handle s = Ready then Ended else sp_handle s)\<rparr> else s)"

datatype 'v sampler_ev =
    EvRegister int | EvTakeProducer nat | EvKickstart | EvTakeConsumer nat | EvAttach
  | EvSample nat 'v | EvDeliver nat | EvStop bool int | EvCloseSent nat nat | EvCloseAcked nat | EvForget nat
  | EvAllBegin | EvAllPick int | EvAllSent | EvAllAcked | EvAllEnd | EvExit

fun sampler_step :: "'v sampler_ev \<Rightarrow> 'v Sampler \<Rightarrow> 'v Sampler" where
  "sampler_step (EvRegister u) s = snd (Register u s)"
| "sampler_step (EvTakeProducer k) s = take_producer k s"
| "sampler_step EvKickstart s = kickstart s"
| "sampler_step (EvTakeConsumer k) s = take_consumer k s"
| "sampler_step EvAttach s = attach s"
| "sampler_step (EvSample j v) s = sample j v s"
| "sampler_step (EvDeliver j) s = deliver j s"
| "sampler_step (EvStop d u) s = stop_call d u s"
| "sampler_step (EvCloseSent j k) s = close_sent j k s"
| "sampler_step (EvCloseAcked j) s = close_acked j s"
| "sampler_step (EvForget j) s = forget j s"
| "sampler_step EvAllBegin s = stop_all_begin s"
| "sampler_step (EvAllPick u) s = stop_all_pick u s"
| "sampler_step EvAllSent s = stop_all_sent s"
| "sampler_step EvAllAcked s = stop_all_acked s"
| "sampler_step EvAllEnd s = stop_all_end s"
| "sampler_step EvExit s = loop_exit s"

definition run_sampler :: "'v sampler_ev list \<Rightarrow> 'v Sampler" where
  "run_sampler evs = fold sampler_step evs NewSampler"

section \<open>Every sample is received once\<close>

definition job_ok :: "'v SampleJob \<Rightarrow> bool" where
  "job_ok x \<longleftrightarrow> sj_taken x = sj_got x @ (case sj_phase x of Sending v \<Rightarrow> [v] | _ \<Rightarrow> [])
     \<and> (sj_closed x \<longleftrightarrow> sj_phase x = Gone) \<and> (sj_forget x \<longrightarrow> sj_phase x = Gone)"

definition announced :: "'v Sampler \<Rightarrow> int list" where
  "announced s = (case sp_monitor s of Holding u \<Rightarrow> [u] | _ \<Rightarrow> []) @ sp_producers s"

text \<open>
  Jobs that are not gone are registered under their user, and the users that the monitor has still to start have jobs that are
  not started.
\<close>

definition listed :: "'v SampleJob \<Rightarrow> bool" where
  "listed x \<longleftrightarrow> sj_phase x \<noteq> Gone \<or> sj_forget x"

definition sp_inv :: "'v Sampler \<Rightarrow> bool" where
  "sp_inv s \<longleftrightarrow> (\<forall>j<length (sp_jobs s). job_ok (sp_jobs s ! j) \<and> (listed (sp_jobs s ! j) \<longrightarrow> sp_ctx s (sj_id (sp_jobs s ! j)) = Some j))
     \<and> (\<forall>u j. sp_ctx s u = Some j \<longrightarrow> j < length (sp_jobs s) \<and> sj_id (sp_jobs s ! j) = u)
     \<and> distinct (announced s)
     \<and> (\<forall>u\<in>set (announced s). \<exists>j. sp_ctx s u = Some j \<and> sj_phase (sp_jobs s ! j) = Unstarted)
     \<and> \<not> sp_panic s"

lemma sp_invI:
  assumes "\<And>j. j < length (sp_jobs s) \<Longrightarrow> job_ok (sp_jobs s ! j)"
    and "\<And>j. j < length (sp_jobs s) \<Longrightarrow> listed (sp_jobs s ! j) \<Longrightarrow> sp_ctx s (sj_id (sp_jobs s ! j)) = Some j"
    and "\<And>u j. sp_ctx s u = Some j \<Longrightarrow> j < length (sp_jobs s) \<and> sj_id (sp_jobs s ! j) = u"
    and "distinct (announced s)"
    and "\<And>u. u \<in> set (announced s) \<Longrightarrow> \<exists>j. sp_ctx s u = Some j \<and> sj_phase (sp_jobs s ! j) = Unstarted"
    and "\<not> sp_panic s"
  shows "sp_inv s"
  using assms unfolding sp_inv_def by blast

lemma sp_invD:
  assumes "sp_inv s"
  shows "j < length (sp_jobs s) \<Longrightarrow> job_ok (sp_jobs s ! j)"
    and "j < length (sp_jobs s) \<Longrightarrow> listed (sp_jobs s ! j) \<Longrightarrow> sp_ctx s (sj_id (sp_jobs s ! j)) = Some j"
    and "sp_ctx s u = Some j \<Longrightarrow> j < length (sp_jobs s) \<and> sj_id (sp_jobs s ! j) = u"
    and "distinct (announced s)"
    and "u \<in> set (announced s) \<Longrightarrow> \<exists>j. sp_ctx s u = Some j \<and> sj_phase (sp_jobs s ! j) = Unstarted"
    and "\<not> sp_panic s"
  using assms unfolding sp_inv_def by blast+

lemma sp_inv_start: "sp_inv NewSampler"
  by (simp add: sp_inv_def NewSampler_def announced_def)

lemma on_job_simps [simp]:
  "length (sp_jobs (on_job j f s)) = length (sp_jobs s)" "sp_ctx (on_job j f s) = sp_ctx s" "sp_producers (on_job j f s) = sp_producers s"
  "sp_monitor (on_job j f s) = sp_monitor s" "sp_panic (on_job j f s) = sp_panic s" "sp_all (on_job j f s) = sp_all s"
  "sp_consumers (on_job j f s) = sp_consumers s" "sp_handle (on_job j f s) = sp_handle s"
  by (simp_all add: on_job_def)

lemma on_job_nth: "i < length (sp_jobs s) \<Longrightarrow> sp_jobs (on_job j f s) ! i = (if i = j then f (sp_jobs s ! j) else sp_jobs s ! i)"
  by (auto simp: on_job_def nth_list_update)

lemma announced_on_job [simp]: "announced (on_job j f s) = announced s"
  by (simp add: announced_def)

lemma sp_inv_on_job:
  assumes inv: "sp_inv s"
    and id: "\<And>x. sj_id (f x) = sj_id x" and ok: "\<And>x. x = sp_jobs s ! j \<Longrightarrow> job_ok x \<Longrightarrow> job_ok (f x)"
    and l: "\<And>x. x = sp_jobs s ! j \<Longrightarrow> job_ok x \<Longrightarrow> listed (f x) \<Longrightarrow> listed x"
    and u: "\<And>x. x = sp_jobs s ! j \<Longrightarrow> sj_phase x = Unstarted \<Longrightarrow> sj_phase (f x) = Unstarted"
  shows "sp_inv (on_job j f s)"
proof (rule sp_invI)
  fix i assume i: "i < length (sp_jobs (on_job j f s))"
  then have i': "i < length (sp_jobs s)" by simp
  show "job_ok (sp_jobs (on_job j f s) ! i)" using sp_invD(1)[OF inv i'] ok i' by (cases "i = j") (simp_all add: on_job_nth)
  show "sp_ctx (on_job j f s) (sj_id (sp_jobs (on_job j f s) ! i)) = Some i" if "listed (sp_jobs (on_job j f s) ! i)"
    using that sp_invD(1,2)[OF inv i'] l id by (auto simp: on_job_nth[OF i'] split: if_splits)
next
  fix v i assume c: "sp_ctx (on_job j f s) v = Some i"
  then show "i < length (sp_jobs (on_job j f s)) \<and> sj_id (sp_jobs (on_job j f s) ! i) = v"
    using sp_invD(3)[OF inv, of v i] id by (auto simp: on_job_nth)
next
  fix v assume "v \<in> set (announced (on_job j f s))"
  then obtain i where i: "sp_ctx s v = Some i" "sj_phase (sp_jobs s ! i) = Unstarted" using sp_invD(5)[OF inv, of v] by auto
  then show "\<exists>i. sp_ctx (on_job j f s) v = Some i \<and> sj_phase (sp_jobs (on_job j f s) ! i) = Unstarted"
    using sp_invD(3)[OF inv i(1)] u by (intro exI[of _ i]) (auto simp: on_job_nth)
qed (use sp_invD(4,6)[OF inv] in simp_all)

lemma sp_inv_same:
  "sp_inv s \<Longrightarrow> sp_ctx t = sp_ctx s \<Longrightarrow> sp_jobs t = sp_jobs s \<Longrightarrow> distinct (announced t) \<Longrightarrow> set (announced t) \<subseteq> set (announced s) \<Longrightarrow>
    \<not> sp_panic t \<Longrightarrow> sp_inv t"
  unfolding sp_inv_def by (simp add: subset_eq)

text \<open>A job ends and its user is deleted.\<close>

lemma sp_inv_delete:
  assumes inv: "sp_inv s" and j: "j < length (sp_jobs s)" "listed (sp_jobs s ! j)" "sj_phase (sp_jobs s ! j) \<noteq> Unstarted"
    and f: "\<And>x. sj_id (f x) = sj_id x" "job_ok (f (sp_jobs s ! j))" "\<not> listed (f (sp_jobs s ! j))"
    and t: "sp_jobs t = sp_jobs (on_job j f s)" "sp_ctx t = (sp_ctx s)(sj_id (sp_jobs s ! j) := None)" "announced t = announced s" "\<not> sp_panic t"
  shows "sp_inv t"
proof (rule sp_invI)
  let ?u = "sj_id (sp_jobs s ! j)"
  have c: "sp_ctx s ?u = Some j" by (rule sp_invD(2)[OF inv j(1,2)])
  have n: "length (sp_jobs t) = length (sp_jobs s)" by (simp add: t)
  fix i assume i: "i < length (sp_jobs t)"
  then have i': "i < length (sp_jobs s)" by (simp add: t)
  show "job_ok (sp_jobs t ! i)" using sp_invD(1)[OF inv i'] f(2) by (simp add: t on_job_nth[OF i'])
  show "sp_ctx t (sj_id (sp_jobs t ! i)) = Some i" if "listed (sp_jobs t ! i)"
  proof -
    have "i \<noteq> j" using that f(3) by (auto simp: t on_job_nth[OF i'])
    then have "sp_ctx s (sj_id (sp_jobs s ! i)) = Some i" using sp_invD(2)[OF inv i'] that by (simp add: t on_job_nth[OF i'])
    then show ?thesis using c \<open>i \<noteq> j\<close> by (auto simp: t on_job_nth[OF i'])
  qed
next
  fix v i assume "sp_ctx t v = Some i"
  then have "sp_ctx s v = Some i" by (simp add: t split: if_splits)
  then show "i < length (sp_jobs t) \<and> sj_id (sp_jobs t ! i) = v"
    using sp_invD(3)[OF inv, of v i] f(1) by (auto simp: t on_job_nth)
next
  fix v assume "v \<in> set (announced t)"
  then obtain i where i: "sp_ctx s v = Some i" "sj_phase (sp_jobs s ! i) = Unstarted" using sp_invD(5)[OF inv, of v] by (auto simp: t)
  have "i \<noteq> j" using i(2) j(3) by auto
  moreover have "v \<noteq> sj_id (sp_jobs s ! j)" using i(1) sp_invD(2)[OF inv j(1,2)] \<open>i \<noteq> j\<close> by auto
  ultimately show "\<exists>i. sp_ctx t v = Some i \<and> sj_phase (sp_jobs t ! i) = Unstarted"
    using i sp_invD(3)[OF inv i(1)] by (intro exI[of _ i]) (simp add: t on_job_nth)
qed (use sp_invD(4)[OF inv] t in simp_all)

lemma sp_inv_Register:
  assumes inv: "sp_inv s"
  shows "sp_inv (snd (Register u s))"
proof (cases "locked s \<or> sp_ctx s u \<noteq> None")
  case False
  then have n: "sp_ctx s u = None" and nl: "\<not> locked s" by simp_all
  let ?n = "length (sp_jobs s)"
  let ?t = "s\<lparr>sp_ctx := (sp_ctx s)(u \<mapsto> ?n), sp_jobs := sp_jobs s @ [new_job u], sp_producers := sp_producers s @ [u]\<rparr>"
  have a: "announced ?t = announced s @ [u]" by (simp add: announced_def split: loop_state.split)
  have "u \<notin> set (announced s)" using sp_invD(5)[OF inv, of u] n by auto
  have "sp_inv ?t"
  proof (rule sp_invI)
    fix i assume i: "i < length (sp_jobs ?t)"
    show "job_ok (sp_jobs ?t ! i)"
      using i sp_invD(1)[OF inv, of i] by (cases "i = ?n") (auto simp: nth_append job_ok_def new_job_def)
    show "sp_ctx ?t (sj_id (sp_jobs ?t ! i)) = Some i" if "listed (sp_jobs ?t ! i)"
    proof (cases "i = ?n")
      case True
      then show ?thesis by (simp add: new_job_def)
    next
      case False
      then have "sp_ctx s (sj_id (sp_jobs s ! i)) = Some i" using sp_invD(2)[OF inv, of i] that i by (simp add: nth_append)
      then show ?thesis using n i False by (auto simp: nth_append)
    qed
  next
    fix v i assume "sp_ctx ?t v = Some i"
    then show "i < length (sp_jobs ?t) \<and> sj_id (sp_jobs ?t ! i) = v"
      using sp_invD(3)[OF inv, of v i] by (auto simp: new_job_def nth_append split: if_splits)
  next
    fix v assume v: "v \<in> set (announced ?t)"
    show "\<exists>i. sp_ctx ?t v = Some i \<and> sj_phase (sp_jobs ?t ! i) = Unstarted"
    proof (cases "v = u")
      case True
      then show ?thesis by (intro exI[of _ ?n]) (simp add: new_job_def)
    next
      case False
      then obtain i where i: "sp_ctx s v = Some i" "sj_phase (sp_jobs s ! i) = Unstarted"
        using v sp_invD(5)[OF inv, of v] unfolding a by auto
      then show ?thesis using False sp_invD(3)[OF inv i(1)] by (intro exI[of _ i]) (simp add: nth_append)
    qed
  qed (use sp_invD(4,6)[OF inv] \<open>u \<notin> set (announced s)\<close> a in simp_all)
  then show ?thesis using n nl by (simp add: Register_def)
qed (use inv in \<open>auto simp: Register_def\<close>)

lemma sp_inv_take_producer: "sp_inv s \<Longrightarrow> sp_inv (take_producer k s)"
proof (cases "sp_monitor s = Ready \<and> k < length (sp_producers s)")
  case True
  assume inv: "sp_inv s"
  have m: "mset (announced (take_producer k s)) = mset (announced s)"
    using True mset_drop_nth[of k "sp_producers s"] by (simp add: announced_def take_producer_def)
  show ?thesis
    by (rule sp_inv_same[OF inv]) (use True sp_invD(4,6)[OF inv] mset_eq_setD[OF m] mset_eq_imp_distinct_iff[OF m] in \<open>simp_all add: take_producer_def\<close>)
qed (auto simp: take_producer_def)

lemma sp_inv_kickstart:
  assumes inv: "sp_inv s"
  shows "sp_inv (kickstart s)"
proof (cases "sp_monitor s")
  case (Holding u)
  obtain j where j: "sp_ctx s u = Some j" "sj_phase (sp_jobs s ! j) = Unstarted"
    using sp_invD(5)[OF inv, of u] Holding by (auto simp: announced_def)
  have jn: "j < length (sp_jobs s)" "sj_id (sp_jobs s ! j) = u" using sp_invD(3)[OF inv j(1)] by auto
  let ?f = "\<lambda>x. x\<lparr>sj_phase := Waiting\<rparr>"
  let ?t = "(on_job j ?f s)\<lparr>sp_monitor := Ready, sp_consumers := sp_consumers s @ [u]\<rparr>"
  have a: "announced s = u # announced ?t" using Holding by (simp add: announced_def)
  have "sp_inv ?t"
  proof (rule sp_invI)
    fix i assume "i < length (sp_jobs ?t)"
    then have i: "i < length (sp_jobs s)" by simp
    show "job_ok (sp_jobs ?t ! i)"
      using sp_invD(1)[OF inv i] j(2) i by (cases "i = j") (auto simp: on_job_nth job_ok_def)
    show "sp_ctx ?t (sj_id (sp_jobs ?t ! i)) = Some i" if "listed (sp_jobs ?t ! i)"
      using that sp_invD(2)[OF inv i] j jn i by (cases "i = j") (auto simp: on_job_nth)
  next
    fix v i assume "sp_ctx ?t v = Some i"
    then show "i < length (sp_jobs ?t) \<and> sj_id (sp_jobs ?t ! i) = v"
      using sp_invD(3)[OF inv, of v i] by (auto simp: on_job_nth)
  next
    fix v assume v: "v \<in> set (announced ?t)"
    have vu: "v \<noteq> u" using v sp_invD(4)[OF inv] a by auto
    obtain i where i: "sp_ctx s v = Some i" "sj_phase (sp_jobs s ! i) = Unstarted" using v sp_invD(5)[OF inv, of v] a by auto
    have "i \<noteq> j" using sp_invD(3)[OF inv i(1)] jn(2) vu by auto
    then show "\<exists>i. sp_ctx ?t v = Some i \<and> sj_phase (sp_jobs ?t ! i) = Unstarted"
      using i sp_invD(3)[OF inv i(1)] by (intro exI[of _ i]) (simp add: on_job_nth)
  qed (use sp_invD(4,6)[OF inv] a in simp_all)
  then show ?thesis using inv Holding j(1) by (simp add: kickstart_def)
qed (use inv in \<open>simp_all add: kickstart_def\<close>)

lemma sp_inv_close_acked:
  assumes inv: "sp_inv s"
  shows "sp_inv (close_acked j s)"
proof (cases "j < length (sp_jobs s) \<and> (\<exists>d. sj_phase (sp_jobs s ! j) = Leaving (Stopper d))")
  case True
  then obtain d where d: "j < length (sp_jobs s)" "sj_phase (sp_jobs s ! j) = Leaving (Stopper d)" by auto
  let ?t = "on_job j (\<lambda>x. x\<lparr>sj_phase := Gone, sj_forget := d, sj_closed := True\<rparr>) s"
  have t: "sp_inv ?t" by (rule sp_inv_on_job[OF inv]) (use d in \<open>auto simp: job_ok_def listed_def\<close>)
  have nc: "\<not> sj_closed (sp_jobs s ! j)" using sp_invD(1)[OF inv d(1)] d(2) by (simp add: job_ok_def)
  have "sp_inv (?t\<lparr>sp_panic := sp_panic s \<or> sj_closed (sp_jobs s ! j)\<rparr>)"
    by (rule sp_inv_same[OF t]) (use nc sp_invD(4)[OF t] sp_invD(6)[OF inv] in \<open>simp_all add: announced_def\<close>)
  then show ?thesis using d by (simp add: close_acked_def)
qed (use inv in \<open>auto simp: close_acked_def split: job_phase.split closer.split\<close>)

lemma sp_inv_forget:
  assumes inv: "sp_inv s"
  shows "sp_inv (forget j s)"
proof (cases "j < length (sp_jobs s) \<and> sj_forget (sp_jobs s ! j) \<and> \<not> locked s")
  case True
  then have ok: "job_ok (sp_jobs s ! j)" and g: "sj_phase (sp_jobs s ! j) = Gone"
    using sp_invD(1)[OF inv] by (auto simp: job_ok_def)
  show ?thesis
    by (rule sp_inv_delete[OF inv, of j "\<lambda>x. x\<lparr>sj_forget := False\<rparr>"])
      (use True ok g sp_invD(6)[OF inv] in \<open>auto simp: forget_def job_ok_def listed_def announced_def\<close>)
qed (use inv in \<open>auto simp: forget_def\<close>)

lemma sp_inv_stop_all_acked:
  assumes inv: "sp_inv s"
  shows "sp_inv (stop_all_acked s)"
proof (cases "\<exists>j. sp_all s = Closing j \<and> j < length (sp_jobs s) \<and> sj_phase (sp_jobs s ! j) = Leaving AllStopper")
  case True
  then obtain j where j: "sp_all s = Closing j" "j < length (sp_jobs s)" "sj_phase (sp_jobs s ! j) = Leaving AllStopper" by auto
  have ok: "job_ok (sp_jobs s ! j)" using sp_invD(1)[OF inv j(2)] .
  show ?thesis
    by (rule sp_inv_delete[OF inv, of j "\<lambda>x. x\<lparr>sj_phase := Gone, sj_closed := True\<rparr>"])
      (use j ok sp_invD(6)[OF inv] in \<open>auto simp: stop_all_acked_def job_ok_def listed_def announced_def\<close>)
qed (use inv in \<open>auto simp: stop_all_acked_def split: stop_all.split\<close>)

lemma sp_inv_step:
  assumes inv: "sp_inv s"
  shows "sp_inv (sampler_step ev s)"
proof -
  have same: "sp_inv t" if "sp_ctx t = sp_ctx s" "sp_jobs t = sp_jobs s" "announced t = announced s" "sp_panic t = sp_panic s" for t
    by (rule sp_inv_same[OF inv]) (use that sp_invD(4,6)[OF inv] in simp_all)
  show ?thesis
  proof (cases ev)
    case (EvTakeConsumer k)
    then show ?thesis by (auto simp: take_consumer_def announced_def intro!: same inv)
  next
    case EvAttach
    have t: "sp_inv (on_job j (\<lambda>x. x\<lparr>sj_handlers := sj_handlers x + 1\<rparr>) s)" for j
      by (rule sp_inv_on_job[OF inv]) (auto simp: job_ok_def listed_def)
    have "sp_inv (t\<lparr>sp_handle := h\<rparr>)" if "sp_inv t" for t :: "'a Sampler" and h
      by (rule sp_inv_same[OF that]) (use sp_invD(4,6)[OF that] in \<open>simp_all add: announced_def\<close>)
    then show ?thesis using t inv EvAttach by (auto simp: attach_def split: loop_state.split option.split)
  next
    case (EvSample j v)
    show ?thesis unfolding EvSample sampler_step.simps sample_def
      by (rule sp_inv_on_job[OF inv]) (auto simp: job_ok_def listed_def)
  next
    case (EvDeliver j)
    show ?thesis unfolding EvDeliver sampler_step.simps deliver_def
      by (rule sp_inv_on_job[OF inv]) (auto simp: job_ok_def listed_def split: job_phase.splits)
  next
    case (EvStop d u)
    have "sp_inv (on_job j (\<lambda>x. x\<lparr>sj_stoppers := sj_stoppers x @ [d]\<rparr>) s)" for j
      by (rule sp_inv_on_job[OF inv]) (auto simp: job_ok_def listed_def)
    then show ?thesis using inv EvStop by (auto simp: stop_call_def split: option.split)
  next
    case (EvCloseSent j k)
    show ?thesis unfolding EvCloseSent sampler_step.simps close_sent_def
      by (rule sp_inv_on_job[OF inv]) (auto simp: job_ok_def listed_def)
  next
    case EvAllSent
    have "sp_inv (on_job j (\<lambda>x. if sj_phase x = Waiting then x\<lparr>sj_phase := Leaving AllStopper\<rparr> else x) s)" for j
      by (rule sp_inv_on_job[OF inv]) (auto simp: job_ok_def listed_def)
    then show ?thesis using inv EvAllSent by (auto simp: stop_all_sent_def split: stop_all.split)
  next
    case EvExit
    then show ?thesis by (auto simp: loop_exit_def announced_def intro!: same inv split: loop_state.splits)
  qed (auto simp: stop_all_begin_def stop_all_pick_def stop_all_end_def announced_def inv
      intro!: same sp_inv_Register[OF inv] sp_inv_take_producer[OF inv] sp_inv_kickstart[OF inv] sp_inv_close_acked[OF inv]
        sp_inv_forget[OF inv] sp_inv_stop_all_acked[OF inv] split: option.split)
qed

lemma sp_inv_run: "sp_inv s \<Longrightarrow> sp_inv (fold sampler_step evs s)"
  by (induction evs arbitrary: s) (simp_all add: sp_inv_step)

lemma distinct_map_filterI:
  assumes "\<And>i j. i < length xs \<Longrightarrow> j < length xs \<Longrightarrow> P (xs ! i) \<Longrightarrow> P (xs ! j) \<Longrightarrow> f (xs ! i) = f (xs ! j) \<Longrightarrow> i = j"
  shows "distinct (map f (filter P xs))"
  using assms
proof (induction xs)
  case (Cons x xs)
  have "distinct (map f (filter P xs))"
  proof (rule Cons.IH)
    fix i j assume "i < length xs" "j < length xs" "P (xs ! i)" "P (xs ! j)" "f (xs ! i) = f (xs ! j)"
    then show "i = j" using Cons.prems[of "Suc i" "Suc j"] by simp
  qed
  moreover have "f x \<noteq> f y" if y: "P x" "y \<in> set xs" "P y" for y
  proof
    assume "f x = f y"
    moreover obtain k where "k < length xs" "xs ! k = y" using y(2) by (metis in_set_conv_nth)
    ultimately show False using Cons.prems[of 0 "Suc k"] y by simp
  qed
  ultimately show ?case by auto
qed simp


section \<open>When \<open>StopAll\<close> hangs\<close>

definition hangs_on :: "int \<Rightarrow> nat \<Rightarrow> 'v Sampler \<Rightarrow> bool" where
  "hangs_on u j s \<longleftrightarrow> locked s \<and> sp_ctx s u = Some j \<and> sj_phase (sp_jobs s ! j) = Unstarted"

lemma hangs_on_job:
  assumes "hangs_on u j s" "j < length (sp_jobs s)" "sj_phase (f (sp_jobs s ! j)) = Unstarted"
  shows "hangs_on u j (on_job i f s)"
  using assms by (auto simp: hangs_on_def locked_def on_job_nth)

lemma hangs_step:
  assumes inv: "sp_inv s" and h: "hangs_on u j s"
  shows "hangs_on u j (sampler_step ev s)"
proof -
  have l: "locked s" and c: "sp_ctx s u = Some j" and p: "sj_phase (sp_jobs s ! j) = Unstarted" using h by (simp_all add: hangs_on_def)
  have j: "j < length (sp_jobs s)" "sj_id (sp_jobs s ! j) = u" using sp_invD(3)[OF inv c] by auto
  have g: "hangs_on u j (on_job i f s)" if "i \<noteq> j \<or> sj_phase (f (sp_jobs s ! j)) = Unstarted" for i and f :: "'a SampleJob \<Rightarrow> 'a SampleJob"
    using h that j(1) by (auto simp: hangs_on_def locked_def on_job_nth)
  show ?thesis
  proof (cases ev)
    case (EvCloseAcked i)
    have "hangs_on u j ((on_job i f s)\<lparr>sp_panic := b\<rparr>)" if "i \<noteq> j" for b and f :: "'a SampleJob \<Rightarrow> 'a SampleJob"
      using g[of i f] that by (simp add: hangs_on_def locked_def)
    then show ?thesis using h p EvCloseAcked
      by (cases "i = j") (auto simp: close_acked_def split: job_phase.splits closer.splits)
  next
    case EvAllEnd
    have "\<not> list_all (\<lambda>x. sp_ctx s (sj_id x) = None) (sp_jobs s)"
      using c j by (auto simp: list_all_length)
    then show ?thesis using h EvAllEnd by (simp add: stop_all_end_def)
  next
    case EvAllAcked
    show ?thesis
    proof (cases "\<exists>i. sp_all s = Closing i \<and> i < length (sp_jobs s) \<and> sj_phase (sp_jobs s ! i) = Leaving AllStopper")
      case True
      then obtain i where i: "sp_all s = Closing i" "i < length (sp_jobs s)" "sj_phase (sp_jobs s ! i) = Leaving AllStopper" by auto
      have "sp_ctx s (sj_id (sp_jobs s ! i)) = Some i" using sp_invD(2)[OF inv i(2)] i(3) by (simp add: listed_def)
      moreover have "i \<noteq> j" using i(3) p by auto
      ultimately have "sj_id (sp_jobs s ! i) \<noteq> u" using c by auto
      then show ?thesis using EvAllAcked i h j \<open>i \<noteq> j\<close> by (simp add: stop_all_acked_def hangs_on_def locked_def on_job_nth)
    qed (use EvAllAcked h in \<open>auto simp: stop_all_acked_def split: stop_all.split\<close>)
  next
    case (EvRegister v)
    then show ?thesis using h l by (simp add: Register_def)
  next
    case (EvTakeProducer k)
    then show ?thesis using h by (auto simp: take_producer_def hangs_on_def locked_def)
  next
    case (EvTakeConsumer k)
    then show ?thesis using h by (auto simp: take_consumer_def hangs_on_def locked_def)
  next
    case EvKickstart
    then show ?thesis using h l by (simp add: kickstart_def split: loop_state.split)
  next
    case EvAttach
    then show ?thesis using h l by (simp add: attach_def split: loop_state.split)
  next
    case (EvSample i v)
    then show ?thesis using g p by (simp add: sample_def)
  next
    case (EvDeliver i)
    then show ?thesis using g p by (simp add: deliver_def)
  next
    case (EvStop d v)
    then show ?thesis using h l by (simp add: stop_call_def)
  next
    case (EvCloseSent i k)
    then show ?thesis using g p by (simp add: close_sent_def)
  next
    case (EvForget i)
    then show ?thesis using h l by (simp add: forget_def)
  next
    case EvAllBegin
    then show ?thesis using h by (auto simp: stop_all_begin_def hangs_on_def locked_def)
  next
    case (EvAllPick v)
    then show ?thesis using h by (auto simp: stop_all_pick_def hangs_on_def locked_def split: option.split)
  next
    case EvAllSent
    then show ?thesis using g h p by (simp add: stop_all_sent_def split: stop_all.split)
  next
    case EvExit
    then show ?thesis using h by (auto simp: loop_exit_def hangs_on_def locked_def)
  qed
qed

text \<open>C39: \<open>StopAll\<close> hangs for ever, and with it every later call, when it takes the mutex before the loop of \<open>Start\<close> has started
  the job of a registered user: that loop needs the mutex to start the job, and \<open>StopAll\<close> keeps it until the job, which does not
  run, has taken the request to close. Whatever happens afterwards, the mutex is never given back and nothing registers.
\<close>

theorem stop_all_hangs:
  assumes "locked (run_sampler evs)" "sp_ctx (run_sampler evs) u = Some j" "sj_phase (sp_jobs (run_sampler evs) ! j) = Unstarted"
  shows "sp_all (run_sampler (evs @ later)) \<noteq> Done \<and> locked (run_sampler (evs @ later))
    \<and> (\<forall>v. Register v (run_sampler (evs @ later)) = (False, run_sampler (evs @ later)))
    \<and> sj_phase (sp_jobs (run_sampler (evs @ later)) ! j) = Unstarted"
proof -
  have "hangs_on u j (fold sampler_step later s)" if "sp_inv s" "hangs_on u j s" for s
    using that by (induction later arbitrary: s) (simp_all add: sp_inv_step hangs_step)
  from this[of "run_sampler evs"] have "hangs_on u j (run_sampler (evs @ later))"
    using assms sp_inv_run[OF sp_inv_start, of evs] by (simp add: run_sampler_def hangs_on_def)
  then show ?thesis by (auto simp: hangs_on_def locked_def Register_def)
qed

definition demo_run :: "nat sampler_ev list" where
  "demo_run = [EvRegister 1, EvTakeProducer 0, EvKickstart, EvTakeConsumer 0, EvAttach, EvSample 0 7, EvDeliver 0, EvSample 0 8]"


theorem stop_all_hangs_witness:
  "sp_all (run_sampler ([EvRegister 1, EvTakeProducer 0, EvAllBegin] @ [EvKickstart, EvAllPick 1, EvAllSent :: nat sampler_ev])) \<noteq> Done"
proof -
  have "locked (run_sampler [EvRegister 1, EvTakeProducer 0, EvAllBegin :: nat sampler_ev])"
    "sp_ctx (run_sampler [EvRegister 1, EvTakeProducer 0, EvAllBegin :: nat sampler_ev]) 1 = Some 0"
    "sj_phase (sp_jobs (run_sampler [EvRegister 1, EvTakeProducer 0, EvAllBegin :: nat sampler_ev]) ! 0) = Unstarted"
    by code_simp+
  from stop_all_hangs[OF this] show ?thesis by blast
qed

end
